(* ===== verification/Prelude.thy ===== *)
theory Prelude
  imports
    Main
    "HOL-Library.Product_Lexorder"
    "HOL-Library.List_Lexorder"
    "HOL-Library.Char_ord"
    "HOL-Library.Multiset"
begin

text \<open>
  Shared vocabulary of the development: the error enum and the handle structs of
  \<^verbatim>\<open>crates/runtime-core/src/lib.rs\<close>, Rust's checked and saturating arithmetic on
  \<^verbatim>\<open>u64\<close>/\<^verbatim>\<open>u32\<close>, and the collection of rewrite rules that the component theories use.

  Conventions. A Rust \<^verbatim>\<open>Result<T, E>\<close> is a sum, \<open>Inl\<close> the error. \<^verbatim>\<open>usize\<close>,
  \<^verbatim>\<open>u32\<close> and \<^verbatim>\<open>u64\<close> values are \<open>nat\<close>; wherever the source checks, saturates or
  wraps an addition, the limit is written out with the functions below. \<^verbatim>\<open>Instant\<close> is a
  \<open>nat\<close> number of nanosecond ticks. A Rust \<^verbatim>\<open>String\<close> or \<^verbatim>\<open>Vec<u8>\<close> is a
  \<open>string\<close>: an Isabelle \<open>char\<close> is one byte, so \<open>length\<close> is the byte length.
\<close>

section \<open>Results and errors\<close>

datatype error =
    QueueFull
  | BudgetExceeded
  | ActorNotReady
  | ActorStopped
  | StaleReference
  | CrossWorld
  | LimitExceeded
  | InvalidConfig
  | NotFound
  | DuplicateSubscription
  | SchemaMismatch
  | InvalidPort
  | InterfaceMismatch
  | InvalidMetadata
  | DeadlineExpired

type_synonym 'a result = "error + 'a"
type_synonym instant = nat
type_synonym bytes = string

text \<open>Rust's \<^verbatim>\<open>?\<close> operator and the \<^verbatim>\<open>Result\<close> combinators the source uses.\<close>

definition bindR :: "'e + 'a \<Rightarrow> ('a \<Rightarrow> 'e + 'b) \<Rightarrow> 'e + 'b" where
  "bindR r f = (case r of Inl e \<Rightarrow> Inl e | Inr a \<Rightarrow> f a)"

definition ok_or :: "'e \<Rightarrow> 'a option \<Rightarrow> 'e + 'a" where
  "ok_or e x = (case x of None \<Rightarrow> Inl e | Some a \<Rightarrow> Inr a)"

definition unwrap_or :: "'a \<Rightarrow> 'e + 'a \<Rightarrow> 'a" where
  "unwrap_or d r = (case r of Inl e \<Rightarrow> d | Inr a \<Rightarrow> a)"

definition is_ok :: "'e + 'a \<Rightarrow> bool" where
  "is_ok r = (case r of Inl e \<Rightarrow> False | Inr a \<Rightarrow> True)"

lemma bindR_simps [simp]:
  "bindR (Inl e) f = Inl e"
  "bindR (Inr a) f = f a"
  by (simp_all add: bindR_def)

lemma bindR_Inr_iff: "bindR r f = Inr b \<longleftrightarrow> (\<exists>a. r = Inr a \<and> f a = Inr b)"
  by (cases r) auto

lemma bindR_Inl_iff:
  "bindR r f = Inl e \<longleftrightarrow> r = Inl e \<or> (\<exists>a. r = Inr a \<and> f a = Inl e)"
  by (cases r) auto

lemma ok_or_simps [simp]:
  "ok_or e None = Inl e"
  "ok_or e (Some a) = Inr a"
  by (simp_all add: ok_or_def)

lemma unwrap_or_simps [simp]:
  "unwrap_or d (Inl e) = d"
  "unwrap_or d (Inr a) = a"
  by (simp_all add: unwrap_or_def)

lemma is_ok_simps [simp]:
  "is_ok (Inl e) = False"
  "is_ok (Inr a) = True"
  by (simp_all add: is_ok_def)

section \<open>Machine integers\<close>

definition u32_max :: nat where
  "u32_max = 4294967295"

definition u64_max :: nat where
  "u64_max = 18446744073709551615"

definition usize_max :: nat where
  "usize_max = u64_max"

text \<open>\<^verbatim>\<open>checked_add\<close>, \<^verbatim>\<open>saturating_add\<close> and the wrapping \<^verbatim>\<open>fetch_add\<close>, for a type
  whose greatest value is the first argument.\<close>

definition checked_add :: "nat \<Rightarrow> nat \<Rightarrow> nat \<Rightarrow> nat option" where
  "checked_add mx a b = (if a + b \<le> mx then Some (a + b) else None)"

definition saturating_add :: "nat \<Rightarrow> nat \<Rightarrow> nat \<Rightarrow> nat" where
  "saturating_add mx a b = min mx (a + b)"

definition wrapping_add :: "nat \<Rightarrow> nat \<Rightarrow> nat \<Rightarrow> nat" where
  "wrapping_add mx a b = (a + b) mod Suc mx"

lemma checked_add_Some [simp]: "checked_add mx a b = Some c \<longleftrightarrow> c = a + b \<and> a + b \<le> mx"
  by (auto simp: checked_add_def)

lemma checked_add_None [simp]: "checked_add mx a b = None \<longleftrightarrow> mx < a + b"
  by (auto simp: checked_add_def)

lemma saturating_add_le [simp]: "saturating_add mx a b \<le> mx"
  by (simp add: saturating_add_def)

lemma saturating_add_mono: "a \<le> mx \<Longrightarrow> a \<le> saturating_add mx a b"
  by (simp add: saturating_add_def)

lemma wrapping_add_le [simp]: "wrapping_add mx a b \<le> mx"
  using mod_less_divisor [of "Suc mx" "a + b"] by (simp add: wrapping_add_def)

text \<open>A wrapped successor never equals its argument: reusing a slot always changes the
  generation, even at the end of the range.\<close>

lemma wrapping_Suc_neq: "a \<le> mx \<Longrightarrow> 0 < mx \<Longrightarrow> wrapping_add mx a 1 \<noteq> a"
  by (cases "a = mx") (simp_all add: wrapping_add_def)

section \<open>Actor and operation handles\<close>

datatype actor_ref = ActorRef (ar_world: nat) (ar_slot: nat) (ar_generation: nat)

datatype operation_id = OperationId (op_world: nat) (op_slot: nat) (op_generation: nat)

text \<open>
  The source collects hash sets of handles into vectors and sorts them by
  \<^verbatim>\<open>(slot, generation)\<close> before use. Ordering the handles that way makes the sorted lists
  of the library the canonical representation of those sets.
\<close>

instantiation actor_ref :: linorder
begin

definition less_eq_actor_ref :: "actor_ref \<Rightarrow> actor_ref \<Rightarrow> bool" where
  "less_eq_actor_ref a b \<longleftrightarrow>
     (ar_slot a, ar_generation a, ar_world a) \<le> (ar_slot b, ar_generation b, ar_world b)"

definition less_actor_ref :: "actor_ref \<Rightarrow> actor_ref \<Rightarrow> bool" where
  "less_actor_ref a b \<longleftrightarrow>
     (ar_slot a, ar_generation a, ar_world a) < (ar_slot b, ar_generation b, ar_world b)"

instance
  by standard (auto simp: less_eq_actor_ref_def less_actor_ref_def actor_ref.expand)

end

instantiation operation_id :: linorder
begin

definition less_eq_operation_id :: "operation_id \<Rightarrow> operation_id \<Rightarrow> bool" where
  "less_eq_operation_id a b \<longleftrightarrow>
     (op_slot a, op_generation a, op_world a) \<le> (op_slot b, op_generation b, op_world b)"

definition less_operation_id :: "operation_id \<Rightarrow> operation_id \<Rightarrow> bool" where
  "less_operation_id a b \<longleftrightarrow>
     (op_slot a, op_generation a, op_world a) < (op_slot b, op_generation b, op_world b)"

instance
  by standard (auto simp: less_eq_operation_id_def less_operation_id_def operation_id.expand)

end

datatype endpoint_kind = Native | Python

datatype lifecycle = Starting | Active | Quiescing | Stopping | Stopped

section \<open>Lists updated by index\<close>

text \<open>Rust's \<^verbatim>\<open>Vec::get\<close>: \<open>None\<close> out of range.\<close>

definition vec_get :: "'a list \<Rightarrow> nat \<Rightarrow> 'a option" where
  "vec_get xs i = (if i < length xs then Some (xs ! i) else None)"

lemma vec_get_Some [simp]: "vec_get xs i = Some x \<longleftrightarrow> i < length xs \<and> xs ! i = x"
  by (auto simp: vec_get_def)

lemma vec_get_None [simp]: "vec_get xs i = None \<longleftrightarrow> length xs \<le> i"
  by (auto simp: vec_get_def)

lemma sum_list_map_update:
  fixes f :: "'a \<Rightarrow> nat"
  assumes "i < length xs"
  shows "sum_list (map f (xs[i := x])) + f (xs ! i) = sum_list (map f xs) + f x"
  using assms
  by (induction xs arbitrary: i) (auto split: nat.splits)

lemma length_filter_update:
  assumes "i < length xs"
  shows "length (filter P (xs[i := x])) + (if P (xs ! i) then 1 else 0)
       = length (filter P xs) + (if P x then 1 else 0)"
  using assms
proof (induction xs arbitrary: i)
  case (Cons y ys)
  show ?case
  proof (cases i)
    case (Suc j)
    with Cons.prems Cons.IH [of j] show ?thesis by (auto split: if_splits)
  qed auto
qed simp

section \<open>Rule collections\<close>

named_theorems inv_simps \<open>definitions of the component invariants\<close>
named_theorems frame_simps \<open>which fields an operation leaves unchanged\<close>

end
