(* ===== verification/Containers.thy ===== *)
theory Containers
  imports Prelude
begin

text \<open>
  The standard-library containers as the source uses them. A \<^verbatim>\<open>BTreeSet\<close> is a strictly
  sorted list, a \<^verbatim>\<open>BTreeMap\<close> an association list strictly sorted by key, a
  \<^verbatim>\<open>HashMap\<close> a map. A \<^verbatim>\<open>HashSet\<close> is also a strictly sorted list: its iteration
  order is unspecified in Rust and the source sorts what it collects from one.

  The locale \<open>keyed_index\<close> is the contract of the secondary indexes
  (\<^verbatim>\<open>HashMap<K, BTreeSet<V>>\<close> in \<^verbatim>\<open>routing.rs\<close>, \<^verbatim>\<open>HashMap<K, HashSet<V>>\<close> in
  \<^verbatim>\<open>operations.rs\<close> and \<^verbatim>\<open>services.rs\<close>); the locale \<open>invariant_system\<close> is the shared
  argument that an invariant kept by every operation holds in every reachable state.
\<close>

section \<open>Ordered sets\<close>

definition bset :: "'a::linorder list \<Rightarrow> bool" where
  "bset xs \<longleftrightarrow> sorted xs \<and> distinct xs"

abbreviation bs_insert :: "'a::linorder \<Rightarrow> 'a list \<Rightarrow> 'a list" where
  "bs_insert x xs \<equiv> insort_insert x xs"

abbreviation bs_remove :: "'a::linorder \<Rightarrow> 'a list \<Rightarrow> 'a list" where
  "bs_remove x xs \<equiv> removeAll x xs"

lemma bset_Nil [simp]: "bset []"
  by (simp add: bset_def)

lemma bset_Cons: "bset (x # xs) \<longleftrightarrow> bset xs \<and> (\<forall>y\<in>set xs. x < y)"
  by (auto simp: bset_def order.strict_iff_order)

lemma bset_insert [simp, intro]: "bset xs \<Longrightarrow> bset (bs_insert x xs)"
  by (simp add: bset_def sorted_insort_insert distinct_insort_insert)

lemma bset_filter [simp, intro]: "bset xs \<Longrightarrow> bset (filter P xs)"
  by (simp add: bset_def sorted_wrt_filter)

lemma bset_remove [simp, intro]: "bset xs \<Longrightarrow> bset (bs_remove x xs)"
  by (simp add: removeAll_filter_not_eq)

lemma set_bs_insert [simp]: "set (bs_insert x xs) = insert x (set xs)"
  by (simp add: set_insort_insert)

lemma bset_eq_sorted_list_of_set: "bset xs \<Longrightarrow> xs = sorted_list_of_set (set xs)"
  by (metis bset_def sorted_list_of_set.idem_if_sorted_distinct)

lemma bset_sorted_list_of_set [simp]: "bset (sorted_list_of_set A)"
  by (simp add: bset_def)

lemma bset_eqI: "bset xs \<Longrightarrow> bset ys \<Longrightarrow> set xs = set ys \<Longrightarrow> xs = ys"
  using bset_eq_sorted_list_of_set by metis

lemma bset_distinct: "bset xs \<Longrightarrow> distinct xs"
  by (simp add: bset_def)

lemma length_bset: "bset xs \<Longrightarrow> length xs = card (set xs)"
  by (simp add: bset_def distinct_card)

lemma sort_bset [simp]: "bset xs \<Longrightarrow> sort xs = xs"
  by (simp add: bset_def sorted_sort_id)

text \<open>\<^verbatim>\<open>iter().take_while(..)\<close> on an ordered set cuts at the first element above the bound.\<close>

lemma bset_takeWhile:
  assumes "bset xs" and "\<And>x y. x \<le> y \<Longrightarrow> P y \<Longrightarrow> P x"
  shows "takeWhile P xs = filter P xs"
  using assms(1)
proof (induction xs)
  case (Cons x xs)
  then have lt: "\<forall>y\<in>set xs. x < y" and "bset xs" by (auto simp: bset_Cons)
  show ?case
  proof (cases "P x")
    case False
    with lt assms(2) have "\<forall>y\<in>set xs. \<not> P y" by (meson order.strict_implies_order)
    with False show ?thesis by (simp add: filter_empty_conv)
  qed (use Cons.IH \<open>bset xs\<close> in simp)
qed simp

lemma bset_dropWhile:
  assumes "bset xs" and "\<And>x y. x \<le> y \<Longrightarrow> P y \<Longrightarrow> P x"
  shows "dropWhile P xs = filter (\<lambda>x. \<not> P x) xs"
proof -
  have "filter P xs @ dropWhile P xs = xs"
    using bset_takeWhile [OF assms] takeWhile_dropWhile_id [of P xs] by simp
  moreover have "\<forall>x \<in> set (dropWhile P xs). \<not> P x"
    using assms
  proof (induction xs)
    case (Cons x xs)
    then have lt: "\<forall>y\<in>set xs. x < y" by (simp add: bset_Cons)
    show ?case
    proof (cases "P x")
      case False
      with lt assms(2) show ?thesis by (auto dest: order.strict_implies_order)
    qed (use Cons in \<open>simp add: bset_Cons\<close>)
  qed simp
  ultimately show ?thesis
    by (metis (mono_tags, lifting) append_self_conv2 filter_True filter_append filter_empty_conv
        mem_Collect_eq set_filter)
qed

section \<open>Ordered maps\<close>

fun bm_insert :: "'k::linorder \<Rightarrow> 'v \<Rightarrow> ('k \<times> 'v) list \<Rightarrow> ('k \<times> 'v) list" where
  "bm_insert k v [] = [(k, v)]"
| "bm_insert k v ((k', v') # m) =
     (if k < k' then (k, v) # (k', v') # m
      else if k = k' then (k, v) # m
      else (k', v') # bm_insert k v m)"

definition bm_remove :: "'k \<Rightarrow> ('k \<times> 'v) list \<Rightarrow> ('k \<times> 'v) list" where
  "bm_remove k m = filter (\<lambda>p. fst p \<noteq> k) m"

abbreviation bm_get :: "('k \<times> 'v) list \<Rightarrow> 'k \<Rightarrow> 'v option" where
  "bm_get m k \<equiv> map_of m k"

definition bmap :: "('k::linorder \<times> 'v) list \<Rightarrow> bool" where
  "bmap m \<longleftrightarrow> bset (map fst m)"

lemma bmap_Nil [simp]: "bmap []"
  by (simp add: bmap_def)

lemma bmap_Cons: "bmap ((k, v) # m) \<longleftrightarrow> bmap m \<and> (\<forall>k'\<in>fst ` set m. k < k')"
  by (auto simp: bmap_def bset_Cons)

lemma keys_bm_insert [simp]: "fst ` set (bm_insert k v m) = insert k (fst ` set m)"
  by (induction m rule: bm_insert.induct) auto

lemma bmap_insert [simp, intro]: "bmap m \<Longrightarrow> bmap (bm_insert k v m)"
proof (induction k v m rule: bm_insert.induct)
  case (2 k v k' v' m)
  consider "k < k'" | "k = k'" | "k' < k" by fastforce
  then show ?case
    using 2 by cases (auto simp: bmap_Cons keys_bm_insert)
qed (simp add: bmap_def bset_def)

lemma map_of_bm_insert [simp]: "map_of (bm_insert k v m) = (map_of m)(k \<mapsto> v)"
  by (induction k v m rule: bm_insert.induct) (auto simp: fun_eq_iff)

lemma bmap_remove [simp, intro]: "bmap m \<Longrightarrow> bmap (bm_remove k m)"
  by (induction m) (auto simp: bm_remove_def bmap_Cons)

lemma map_of_bm_remove [simp]: "map_of (bm_remove k m) = (map_of m)(k := None)"
  by (induction m) (auto simp: bm_remove_def fun_eq_iff)

lemma keys_bm_remove [simp]: "fst ` set (bm_remove k m) = fst ` set m - {k}"
  by (auto simp: bm_remove_def)

lemma bmap_distinct: "bmap m \<Longrightarrow> distinct (map fst m)"
  by (simp add: bmap_def bset_def)

lemma bmap_map_of_iff: "bmap m \<Longrightarrow> map_of m k = Some v \<longleftrightarrow> (k, v) \<in> set m"
  by (simp add: bmap_distinct)

lemma bmap_dom: "dom (map_of m) = fst ` set m"
  by (rule dom_map_of_conv_image_fst)

lemma length_bmap: "bmap m \<Longrightarrow> length m = card (dom (map_of m))"
  by (metis bmap_distinct bmap_dom distinct_card length_map list.set_map)

lemma bmap_eqI:
  assumes "bmap m" "bmap m'" "map_of m = map_of m'"
  shows "m = m'"
proof -
  have "map fst m = map fst m'"
  proof (rule bset_eqI)
    show "set (map fst m) = set (map fst m')"
      using assms(3) bmap_dom [of m] bmap_dom [of m'] by simp
  qed (use assms in \<open>simp_all add: bmap_def\<close>)
  moreover have "map snd m = map snd m'"
  proof -
    have "map snd l = map (the \<circ> map_of l) (map fst l)" if "bmap l" for l :: "('a \<times> 'b) list"
      using bmap_distinct [OF that] by (auto simp: map_of_is_SomeI)
    with assms calculation show ?thesis by metis
  qed
  ultimately show ?thesis by (metis zip_map_fst_snd)
qed

lemma set_bm_remove: "set (bm_remove k m) = {p \<in> set m. fst p \<noteq> k}"
  by (auto simp: bm_remove_def)

lemma set_bm_insert: "bmap m \<Longrightarrow> set (bm_insert k v m) = insert (k, v) {p \<in> set m. fst p \<noteq> k}"
proof -
  assume m: "bmap m"
  then have ins: "bmap (bm_insert k v m)" by simp
  have "(a, b) \<in> set (bm_insert k v m) \<longleftrightarrow> (a, b) \<in> insert (k, v) {p \<in> set m. fst p \<noteq> k}"
    for a b
    using bmap_map_of_iff [OF ins, of a b] bmap_map_of_iff [OF m, of a b]
    by (cases "a = k") auto
  then show ?thesis by auto
qed

lemma length_bm_insert:
  "bmap m \<Longrightarrow> length (bm_insert k v m) = (if k \<in> dom (map_of m) then length m else Suc (length m))"
  by (simp add: length_bmap insert_absorb finite_dom_map_of)

lemma length_bm_remove:
  "bmap m \<Longrightarrow> length (bm_remove k m) = (if k \<in> dom (map_of m) then length m - 1 else length m)"
  by (simp add: length_bmap card_Diff_singleton_if)

section \<open>Secondary indexes\<close>

text \<open>
  \<^verbatim>\<open>index.entry(key).or_default().insert(id)\<close>, the matching removal, which drops the
  key with its last id, and the lookup that reads an absent key as the empty set.
\<close>

definition idx_get :: "('k \<rightharpoonup> 'v::linorder list) \<Rightarrow> 'k \<Rightarrow> 'v list" where
  "idx_get m k = (case m k of None \<Rightarrow> [] | Some s \<Rightarrow> s)"

definition idx_insert :: "'k \<Rightarrow> 'v::linorder \<Rightarrow> ('k \<rightharpoonup> 'v list) \<Rightarrow> ('k \<rightharpoonup> 'v list)" where
  "idx_insert k v m = m(k \<mapsto> bs_insert v (idx_get m k))"

definition idx_remove :: "'k \<Rightarrow> 'v::linorder \<Rightarrow> ('k \<rightharpoonup> 'v list) \<Rightarrow> ('k \<rightharpoonup> 'v list)" where
  "idx_remove k v m =
     (case m k of
        None \<Rightarrow> m
      | Some s \<Rightarrow>
          (let s' = bs_remove v s in if s' = [] then m(k := None) else m(k \<mapsto> s')))"

definition idx_ok :: "('k \<rightharpoonup> 'v::linorder list) \<Rightarrow> bool" where
  "idx_ok m \<longleftrightarrow> (\<forall>k s. m k = Some s \<longrightarrow> bset s \<and> s \<noteq> [])"

text \<open>The contract: an index represents a relation between keys and ids, each lookup is
  the ordered list of a key's ids, and no key is left with an empty set.\<close>

locale keyed_index =
  fixes empty :: "'m"
    and ins :: "'k \<Rightarrow> 'v::linorder \<Rightarrow> 'm \<Rightarrow> 'm"
    and rem :: "'k \<Rightarrow> 'v \<Rightarrow> 'm \<Rightarrow> 'm"
    and get :: "'m \<Rightarrow> 'k \<Rightarrow> 'v list"
    and ok :: "'m \<Rightarrow> bool"
  assumes ok_empty: "ok empty"
    and ok_ins: "ok m \<Longrightarrow> ok (ins k v m)"
    and ok_rem: "ok m \<Longrightarrow> ok (rem k v m)"
    and get_empty: "get empty k = []"
    and get_bset: "ok m \<Longrightarrow> bset (get m k)"
    and set_get_ins: "ok m \<Longrightarrow> set (get (ins k v m) k') = (if k' = k then insert v (set (get m k)) else set (get m k'))"
    and set_get_rem: "ok m \<Longrightarrow> set (get (rem k v m) k') = (if k' = k then set (get m k) - {v} else set (get m k'))"
begin

definition mirrors :: "'m \<Rightarrow> ('k \<times> 'v) set \<Rightarrow> bool" where
  "mirrors m R \<longleftrightarrow> ok m \<and> (\<forall>k. set (get m k) = {v. (k, v) \<in> R})"

lemma mirrors_empty: "mirrors empty {}"
  by (simp add: mirrors_def ok_empty get_empty)

lemma mirrors_ins: "mirrors m R \<Longrightarrow> mirrors (ins k v m) (insert (k, v) R)"
  by (auto simp: mirrors_def ok_ins set_get_ins)

lemma mirrors_rem: "mirrors m R \<Longrightarrow> mirrors (rem k v m) (R - {(k, v)})"
  by (auto simp: mirrors_def ok_rem set_get_rem split: if_splits)

lemma mirrors_get: "mirrors m R \<Longrightarrow> get m k = sorted_list_of_set {v. (k, v) \<in> R}"
  by (metis mirrors_def get_bset bset_eq_sorted_list_of_set)

lemma mirrors_mem: "mirrors m R \<Longrightarrow> v \<in> set (get m k) \<longleftrightarrow> (k, v) \<in> R"
  by (simp add: mirrors_def)

lemma mirrors_length: "mirrors m R \<Longrightarrow> length (get m k) = card {v. (k, v) \<in> R}"
  by (metis mirrors_def get_bset length_bset)

lemma mirrors_finite: "mirrors m R \<Longrightarrow> finite {v. (k, v) \<in> R}"
  by (metis mirrors_def List.finite_set)

end

lemma idx_get_simps:
  "idx_get (idx_insert k v m) k' = (if k' = k then bs_insert v (idx_get m k) else idx_get m k')"
  "idx_get (idx_remove k v m) k' = (if k' = k then bs_remove v (idx_get m k) else idx_get m k')"
  by (auto simp: idx_get_def idx_insert_def idx_remove_def Let_def split: option.splits)

lemma idx_ok_insert: "idx_ok m \<Longrightarrow> idx_ok (idx_insert k v m)"
proof -
  have "bs_insert v xs \<noteq> []" for xs :: "'b list"
    by (metis empty_not_insert list.set(1) set_bs_insert)
  then show "idx_ok m \<Longrightarrow> idx_ok (idx_insert k v m)"
    by (auto simp: idx_ok_def idx_insert_def idx_get_def split: option.splits)
qed

lemma idx_ok_remove: "idx_ok m \<Longrightarrow> idx_ok (idx_remove k v m)"
  by (auto simp: idx_ok_def idx_remove_def Let_def split: option.splits if_splits)

interpretation idx: keyed_index Map.empty idx_insert idx_remove idx_get idx_ok
proof unfold_locales
  show "idx_ok Map.empty" by (simp add: idx_ok_def)
  show "idx_get Map.empty k = []" for k by (simp add: idx_get_def)
  show "idx_ok m \<Longrightarrow> bset (idx_get m k)" for m :: "'a \<rightharpoonup> 'b list" and k
    by (auto simp: idx_ok_def idx_get_def split: option.splits)
qed (auto simp: idx_ok_insert idx_ok_remove idx_get_simps)

text \<open>An index is empty exactly when it represents nothing: removal leaves no empty sets.\<close>

lemma idx_mirrors_empty_iff: "idx.mirrors m R \<Longrightarrow> m = Map.empty \<longleftrightarrow> R = {}"
proof -
  assume m: "idx.mirrors m R"
  then have ok: "idx_ok m" and eq: "\<And>k. set (idx_get m k) = {v. (k, v) \<in> R}"
    by (auto simp: idx.mirrors_def)
  have "m k = None \<longleftrightarrow> set (idx_get m k) = {}" for k
    using ok by (fastforce simp: idx_ok_def idx_get_def split: option.splits)
  then show ?thesis
    using eq by (auto simp: fun_eq_iff)
qed

section \<open>Reference counts per key\<close>

text \<open>
  \<^verbatim>\<open>*counts.entry(key).or_default() += 1\<close> and its inverse, which removes the key when its
  count reaches zero. \<open>counts_ok m f\<close>: the map holds exactly the positive values of \<open>f\<close>.
\<close>

definition cnt_get :: "('k \<rightharpoonup> nat) \<Rightarrow> 'k \<Rightarrow> nat" where
  "cnt_get m k = (case m k of None \<Rightarrow> 0 | Some n \<Rightarrow> n)"

definition cnt_inc :: "'k \<Rightarrow> ('k \<rightharpoonup> nat) \<Rightarrow> ('k \<rightharpoonup> nat)" where
  "cnt_inc k m = m(k \<mapsto> cnt_get m k + 1)"

definition cnt_dec :: "'k \<Rightarrow> ('k \<rightharpoonup> nat) \<Rightarrow> ('k \<rightharpoonup> nat)" where
  "cnt_dec k m =
     (case m k of
        None \<Rightarrow> m
      | Some n \<Rightarrow> if n - 1 = 0 then m(k := None) else m(k \<mapsto> n - 1))"

definition counts_ok :: "('k \<rightharpoonup> nat) \<Rightarrow> ('k \<Rightarrow> nat) \<Rightarrow> bool" where
  "counts_ok m f \<longleftrightarrow> (\<forall>k. m k = (if f k = 0 then None else Some (f k)))"

lemma counts_ok_empty [simp]: "counts_ok Map.empty (\<lambda>_. 0)"
  by (simp add: counts_ok_def)

lemma counts_ok_get: "counts_ok m f \<Longrightarrow> cnt_get m k = f k"
  by (simp add: counts_ok_def cnt_get_def)

lemma counts_ok_inc: "counts_ok m f \<Longrightarrow> counts_ok (cnt_inc k m) (f(k := f k + 1))"
  by (simp add: counts_ok_def cnt_inc_def cnt_get_def)

lemma counts_ok_dec: "counts_ok m f \<Longrightarrow> 0 < f k \<Longrightarrow> counts_ok (cnt_dec k m) (f(k := f k - 1))"
  by (auto simp: counts_ok_def cnt_dec_def)

lemma counts_ok_cong: "counts_ok m f \<Longrightarrow> (\<And>k. f k = g k) \<Longrightarrow> counts_ok m g"
  by (simp add: counts_ok_def)

section \<open>Invariants of a stepping component\<close>

text \<open>
  A component is a set of initial states and a step relation; an invariant that holds
  initially and is kept by each step holds in every reachable state. The component
  theories interpret this locale on their own operations.
\<close>

inductive reachable :: "('s \<Rightarrow> bool) \<Rightarrow> ('s \<Rightarrow> 's \<Rightarrow> bool) \<Rightarrow> 's \<Rightarrow> bool"
  for init :: "'s \<Rightarrow> bool" and step :: "'s \<Rightarrow> 's \<Rightarrow> bool" where
  reachable_init: "init s \<Longrightarrow> reachable init step s"
| reachable_step: "reachable init step s \<Longrightarrow> step s t \<Longrightarrow> reachable init step t"

locale invariant_system =
  fixes init :: "'s \<Rightarrow> bool"
    and step :: "'s \<Rightarrow> 's \<Rightarrow> bool"
    and invar :: "'s \<Rightarrow> bool"
  assumes init_invar: "init s \<Longrightarrow> invar s"
    and step_invar: "step s t \<Longrightarrow> invar s \<Longrightarrow> invar t"
begin

lemma reachable_invar: "reachable init step s \<Longrightarrow> invar s"
  by (induction rule: reachable.induct) (auto intro: init_invar step_invar)

lemma steps_invar: "step\<^sup>*\<^sup>* s t \<Longrightarrow> invar s \<Longrightarrow> invar t"
  by (induction rule: rtranclp_induct) (auto intro: step_invar)

lemma reachable_steps: "step\<^sup>*\<^sup>* s t \<Longrightarrow> reachable init step s \<Longrightarrow> reachable init step t"
  by (induction rule: rtranclp_induct) (auto intro: reachable.intros)

lemma reachable_induct_invar:
  assumes "reachable init step s"
    and "\<And>s. init s \<Longrightarrow> P s"
    and "\<And>s t. step s t \<Longrightarrow> invar s \<Longrightarrow> P s \<Longrightarrow> P t"
  shows "P s"
  using assms(1)
  by (induction rule: reachable.induct) (auto intro: assms(2,3) reachable_invar)

end

end
