(* ===== verification/Envelope.thy ===== *)
theory Envelope
  imports Prelude
begin

text \<open>
  The data an event carries: payloads and their charged size (\<^verbatim>\<open>lib.rs\<close>), trace contexts,
  message options and envelopes (\<^verbatim>\<open>envelope.rs\<close>), and the reference-counted \<^verbatim>\<open>Stored\<close>
  record behind a held payload. An \<^verbatim>\<open>Arc<Stored>\<close> is modelled by the stored value together
  with the address of its allocation, so that two handles to one allocation are equal and two
  allocations of equal contents are not.
\<close>

section \<open>Payloads\<close>

text \<open>\<^verbatim>\<open>StructuredRecord\<close>: canonical bytes tagged with their owning World and schema.\<close>

record structured_record =
  sr_world :: nat
  sr_schema :: nat
  sr_bytes :: bytes

text \<open>\<^verbatim>\<open>Payload\<close>. A \<^verbatim>\<open>Record\<close> keeps the capacity of its \<^verbatim>\<open>Vec<i64>\<close> beside its
  elements, since the charged size counts the allocation and not the length.\<close>

datatype payload =
    Pulse int
  | CountSnapshot nat int
  | Record nat "int list" nat
  | Structured structured_record

fun payload_bytes :: "payload \<Rightarrow> nat" where
  "payload_bytes (Pulse v) = 8"
| "payload_bytes (CountSnapshot c t) = 16"
| "payload_bytes (Record schema integers capacity) = 4 + capacity * 8"
| "payload_bytes (Structured r) = 4 + length (sr_bytes r)"

section \<open>Trace contexts and message options\<close>

definition MAX_BAGGAGE :: nat where "MAX_BAGGAGE = 8"
definition MAX_KEY_BYTES :: nat where "MAX_KEY_BYTES = 64"
definition MAX_VALUE_BYTES :: nat where "MAX_VALUE_BYTES = 256"
definition MAX_BAGGAGE_BYTES :: nat where "MAX_BAGGAGE_BYTES = 1024"

lemmas baggage_limits =
  MAX_BAGGAGE_def MAX_KEY_BYTES_def MAX_VALUE_BYTES_def MAX_BAGGAGE_BYTES_def

record trace_context =
  trace_id :: bytes
  span_id :: bytes
  sampled :: bool
  baggage :: "(bytes \<times> bytes) list"

text \<open>\<^verbatim>\<open>byte.is_ascii_alphanumeric() || b"_.-".contains(&byte)\<close>\<close>

definition key_byte :: "char \<Rightarrow> bool" where
  "key_byte c \<longleftrightarrow>
     (CHR ''0'' \<le> c \<and> c \<le> CHR ''9'') \<or> (CHR ''A'' \<le> c \<and> c \<le> CHR ''Z'')
     \<or> (CHR ''a'' \<le> c \<and> c \<le> CHR ''z'') \<or> c \<in> set ''_.-''"

text \<open>The loop of \<^verbatim>\<open>TraceContext::new\<close>: \<open>normalized\<close> and \<open>used\<close> are its variables.\<close>

fun baggage_loop ::
  "(bytes \<times> bytes) list \<Rightarrow> (bytes \<times> bytes) list \<Rightarrow> nat \<Rightarrow> (bytes \<times> bytes) list result" where
  "baggage_loop [] normalized used = Inr normalized"
| "baggage_loop ((key, v) # rest) normalized used =
     (if key = [] \<or> length key > MAX_KEY_BYTES \<or> \<not> list_all key_byte key
         \<or> length v > MAX_VALUE_BYTES
      then Inl InvalidMetadata
      else if \<not> list_all (\<lambda>(prior, _). prior \<noteq> key) normalized
      then Inl InvalidMetadata
      else case Option.bind (checked_add usize_max used (length key))
                  (\<lambda>size. checked_add usize_max size (length v)) of
             None \<Rightarrow> Inl InvalidMetadata
           | Some used' \<Rightarrow>
               if used' > MAX_BAGGAGE_BYTES then Inl InvalidMetadata
               else baggage_loop rest (normalized @ [(key, v)]) used')"

definition trace_context_new ::
  "bytes \<Rightarrow> bytes \<Rightarrow> bool \<Rightarrow> (bytes \<times> bytes) list \<Rightarrow> trace_context result" where
  "trace_context_new tid sid smp bag =
     (if list_all (\<lambda>b. b = CHR 0x00) tid \<or> list_all (\<lambda>b. b = CHR 0x00) sid
      then Inl InvalidMetadata
      else if length bag > MAX_BAGGAGE then Inl InvalidMetadata
      else bindR (baggage_loop bag [] 0)
             (\<lambda>normalized. Inr \<lparr>trace_id = tid, span_id = sid, sampled = smp, baggage = normalized\<rparr>))"

definition trace_charged_bytes :: "trace_context \<Rightarrow> nat" where
  "trace_charged_bytes t = 24 + 1 + sum_list (map (\<lambda>(key, v). length key + length v) (baggage t))"

record message_options =
  mo_source :: "actor_ref option"
  mo_deadline :: "instant option"
  mo_correlation_id :: "nat option"
  mo_causation_id :: "nat option"
  mo_trace :: "trace_context option"

definition default_options :: message_options where
  "default_options =
     \<lparr>mo_source = None, mo_deadline = None, mo_correlation_id = None, mo_causation_id = None,
      mo_trace = None\<rparr>"

definition options_validate :: "message_options \<Rightarrow> unit result" where
  "options_validate opts =
     (if mo_correlation_id opts = Some 0 \<or> mo_causation_id opts = Some 0 then Inl InvalidMetadata
      else Inr ())"

definition charged_bytes :: "message_options \<Rightarrow> nat" where
  "charged_bytes opts = (case mo_trace opts of None \<Rightarrow> 0 | Some t \<Rightarrow> trace_charged_bytes t)"

section \<open>Envelopes\<close>

datatype schema_kind = PulseKind | CountSnapshotKind | RecordKind | StructuredKind

record schema_identity =
  si_kind :: schema_kind
  si_id :: nat
  si_version :: nat

datatype port_ref = PortRef (pr_owner: actor_ref) (pr_index: nat)

record envelope =
  en_event_id :: nat
  en_schema :: schema_identity
  en_source :: "actor_ref option"
  en_destination :: actor_ref
  en_dispatcher :: "port_ref option"
  en_destination_port :: "port_ref option"
  en_owner :: actor_ref
  en_enqueued_at :: instant
  en_deadline :: "instant option"
  en_correlation_id :: "nat option"
  en_causation_id :: "nat option"
  en_trace :: "trace_context option"

definition child_options :: "envelope \<Rightarrow> actor_ref \<Rightarrow> message_options" where
  "child_options e source =
     \<lparr>mo_source = Some source,
      mo_deadline = en_deadline e,
      mo_correlation_id = Some (case en_correlation_id e of None \<Rightarrow> en_event_id e | Some c \<Rightarrow> c),
      mo_causation_id = Some (en_event_id e),
      mo_trace = en_trace e\<rparr>"

text \<open>The merge of caller options into inherited metadata, shared by
  \<^verbatim>\<open>complete_operation_with\<close> and \<^verbatim>\<open>DeliveryLease::publish_port_completion_with\<close>: the
  earlier deadline wins, an explicit identifier or trace replaces the inherited one.\<close>

definition option_or :: "'a option \<Rightarrow> 'a option \<Rightarrow> 'a option" where
  "option_or a b = (case a of None \<Rightarrow> b | Some x \<Rightarrow> Some x)"

definition earlier_deadline :: "instant option \<Rightarrow> instant option \<Rightarrow> instant option" where
  "earlier_deadline a b =
     (case (a, b) of (Some x, Some y) \<Rightarrow> Some (min x y) | (_, _) \<Rightarrow> option_or a b)"

definition merge_options :: "message_options \<Rightarrow> message_options \<Rightarrow> message_options" where
  "merge_options metadata opts = metadata
     \<lparr>mo_deadline := earlier_deadline (mo_deadline metadata) (mo_deadline opts),
      mo_correlation_id := option_or (mo_correlation_id opts) (mo_correlation_id metadata),
      mo_causation_id := option_or (mo_causation_id opts) (mo_causation_id metadata),
      mo_trace := option_or (mo_trace opts) (mo_trace metadata)\<rparr>"

section \<open>Stored payloads and handles\<close>

record stored =
  s_addr :: nat
  s_payload :: payload
  s_options :: message_options
  s_dispatcher :: "port_ref option"
  s_bytes :: nat

record held_payload =
  hp_stored :: stored
  hp_world :: nat
  hp_envelope :: "envelope option"

section \<open>Properties\<close>

definition baggage_bytes :: "(bytes \<times> bytes) list \<Rightarrow> nat" where
  "baggage_bytes b = sum_list (map (\<lambda>(key, v). length key + length v) b)"

definition baggage_entry_ok :: "bytes \<times> bytes \<Rightarrow> bool" where
  "baggage_entry_ok = (\<lambda>(key, v). key \<noteq> [] \<and> length key \<le> MAX_KEY_BYTES
     \<and> list_all key_byte key \<and> length v \<le> MAX_VALUE_BYTES)"

text \<open>What the loop accepts: it appends the input to what it already holds, and only when the
  whole list is well formed, free of duplicate keys and within the byte limit.\<close>

lemma baggage_loop_Inr_iff:
  assumes "used = baggage_bytes normalized" and "distinct (map fst normalized)"
    and "used \<le> MAX_BAGGAGE_BYTES"
  shows "baggage_loop rest normalized used = Inr out \<longleftrightarrow>
      out = normalized @ rest \<and> list_all baggage_entry_ok rest
      \<and> distinct (map fst (normalized @ rest))
      \<and> baggage_bytes (normalized @ rest) \<le> MAX_BAGGAGE_BYTES"
  using assms
proof (induction rest normalized used rule: baggage_loop.induct)
  case (1 normalized used)
  then show ?case by auto
next
  case (2 key v rest normalized used)
  have small: "used + length key + length v \<le> usize_max"
    if "length key \<le> MAX_KEY_BYTES" "length v \<le> MAX_VALUE_BYTES"
    using that 2(4) by (simp add: baggage_limits usize_max_def u64_max_def)
  have mono: "baggage_bytes (normalized @ [(key, v)])
      \<le> baggage_bytes (normalized @ (key, v) # rest)"
    by (simp add: baggage_bytes_def)
  have sum: "used + length key + length v = baggage_bytes (normalized @ [(key, v)])"
    using 2(2) by (simp add: baggage_bytes_def)
  have fresh: "list_all (\<lambda>(prior, _). prior \<noteq> key) normalized \<longleftrightarrow> key \<notin> fst ` set normalized"
    by (force simp: list_all_iff)
  show ?case
  proof (cases "baggage_entry_ok (key, v) \<and> key \<notin> fst ` set normalized
      \<and> used + length key + length v \<le> MAX_BAGGAGE_BYTES")
    case True
    then have ok: "baggage_entry_ok (key, v)" and nin: "key \<notin> fst ` set normalized"
      and le: "used + length key + length v \<le> MAX_BAGGAGE_BYTES" by auto
    have "baggage_loop ((key, v) # rest) normalized used
        = baggage_loop rest (normalized @ [(key, v)]) (used + length key + length v)"
      using ok nin le small fresh by (auto simp: baggage_entry_ok_def checked_add_def)
    moreover have "baggage_loop rest (normalized @ [(key, v)]) (used + length key + length v) = Inr out
        \<longleftrightarrow> out = (normalized @ [(key, v)]) @ rest \<and> list_all baggage_entry_ok rest
          \<and> distinct (map fst ((normalized @ [(key, v)]) @ rest))
          \<and> baggage_bytes ((normalized @ [(key, v)]) @ rest) \<le> MAX_BAGGAGE_BYTES"
      using ok nin le small fresh sum 2(3)
      by (intro "2.IH") (auto simp: baggage_entry_ok_def checked_add_def not_less)
    ultimately show ?thesis using ok by simp
  next
    case False
    then have "\<exists>e. baggage_loop ((key, v) # rest) normalized used = Inl e"
      using small fresh by (auto simp: baggage_entry_ok_def checked_add_def)
    moreover have "\<not> (list_all baggage_entry_ok ((key, v) # rest)
        \<and> distinct (map fst (normalized @ (key, v) # rest))
        \<and> baggage_bytes (normalized @ (key, v) # rest) \<le> MAX_BAGGAGE_BYTES)"
      using False mono sum by auto
    ultimately show ?thesis by auto
  qed
qed

end
