(* ===== verification/Utf8.thy ===== *)
theory Utf8
  imports Prelude
begin

text \<open>
  Rust's \<^verbatim>\<open>str\<close> as far as the source depends on it: the UTF-8 validity that
  \<^verbatim>\<open>std::str::from_utf8\<close> checks, \<^verbatim>\<open>is_char_boundary\<close>, \<^verbatim>\<open>chars().take(n)\<close>, and the
  truncation loop that \<^verbatim>\<open>failures.rs\<close> (\<^verbatim>\<open>bounded\<close>) and \<^verbatim>\<open>operations.rs\<close>
  (\<^verbatim>\<open>normalize_message\<close>) share. A string is its list of bytes.
\<close>

section \<open>Encoded scalars\<close>

abbreviation byte :: "char \<Rightarrow> nat" where
  "byte c \<equiv> of_char c"

definition cont_byte :: "nat \<Rightarrow> bool" where
  "cont_byte b \<longleftrightarrow> 128 \<le> b \<and> b < 192"

text \<open>The length of the scalar announced by a first byte; 0 for a byte that starts none.\<close>

definition utf8_width :: "nat \<Rightarrow> nat" where
  "utf8_width b =
     (if b < 128 then 1
      else if 194 \<le> b \<and> b \<le> 223 then 2
      else if 224 \<le> b \<and> b \<le> 239 then 3
      else if 240 \<le> b \<and> b \<le> 244 then 4
      else 0)"

text \<open>The byte ranges of the well-formed one- to four-byte sequences.\<close>

fun scalar_bytes :: "nat list \<Rightarrow> bool" where
  "scalar_bytes [a] = (a < 128)"
| "scalar_bytes [a, b] = (194 \<le> a \<and> a \<le> 223 \<and> cont_byte b)"
| "scalar_bytes [a, b, c] =
     (cont_byte c \<and>
      (a = 224 \<and> 160 \<le> b \<and> b \<le> 191 \<or> 225 \<le> a \<and> a \<le> 236 \<and> cont_byte b
       \<or> a = 237 \<and> 128 \<le> b \<and> b \<le> 159 \<or> 238 \<le> a \<and> a \<le> 239 \<and> cont_byte b))"
| "scalar_bytes [a, b, c, d] =
     (cont_byte c \<and> cont_byte d \<and>
      (a = 240 \<and> 144 \<le> b \<and> b \<le> 191 \<or> 241 \<le> a \<and> a \<le> 243 \<and> cont_byte b
       \<or> a = 244 \<and> 128 \<le> b \<and> b \<le> 143))"
| "scalar_bytes _ = False"

definition scalar :: "bytes \<Rightarrow> bool" where
  "scalar s = scalar_bytes (map byte s)"

function utf8_valid :: "bytes \<Rightarrow> bool" where
  "utf8_valid s =
     (if s = [] then True
      else (let k = utf8_width (byte (hd s))
            in if k = 0 then False else scalar (take k s) \<and> utf8_valid (drop k s)))"
  by pat_completeness auto
termination
  by (relation "measure length") auto

declare utf8_valid.simps [simp del]

text \<open>\<^verbatim>\<open>str::is_char_boundary\<close>\<close>

definition is_char_boundary :: "bytes \<Rightarrow> nat \<Rightarrow> bool" where
  "is_char_boundary s i \<longleftrightarrow>
     i = 0 \<or> (if length s \<le> i then i = length s else \<not> cont_byte (byte (s ! i)))"

text \<open>\<^verbatim>\<open>s.chars().take(n).collect()\<close>\<close>

fun take_chars :: "nat \<Rightarrow> bytes \<Rightarrow> bytes" where
  "take_chars 0 s = []"
| "take_chars (Suc n) [] = []"
| "take_chars (Suc n) (c # s) =
     (let k = max 1 (utf8_width (byte c)) in take k (c # s) @ take_chars n (drop k (c # s)))"

text \<open>\<^verbatim>\<open>while !value.is_char_boundary(end) { end -= 1; }\<close>\<close>

fun floor_boundary :: "bytes \<Rightarrow> nat \<Rightarrow> nat" where
  "floor_boundary s 0 = 0"
| "floor_boundary s (Suc e) = (if is_char_boundary s (Suc e) then Suc e else floor_boundary s e)"

definition truncate_str :: "bytes \<Rightarrow> nat \<Rightarrow> bytes" where
  "truncate_str value mx = take (floor_boundary value (min (length value) mx)) value"

section \<open>Properties\<close>

lemma utf8_valid_Nil [simp]: "utf8_valid []"
  by (simp add: utf8_valid.simps)

fun_cases scalar_bytesE: "scalar_bytes xs"

lemma scalar_bytes_width: "scalar_bytes xs \<Longrightarrow> xs \<noteq> [] \<and> utf8_width (hd xs) = length xs"
  by (erule scalar_bytesE) (auto simp: utf8_width_def)

lemma scalar_bytes_tail_cont:
  "scalar_bytes xs \<Longrightarrow> 0 < i \<Longrightarrow> i < length xs \<Longrightarrow> cont_byte (xs ! i)"
  by (erule scalar_bytesE) (auto simp: cont_byte_def nth_Cons' less_Suc_eq)

lemma scalar_bytes_head: "scalar_bytes xs \<Longrightarrow> \<not> cont_byte (hd xs)"
  by (erule scalar_bytesE) (auto simp: cont_byte_def)

lemma scalar_width: "scalar c \<Longrightarrow> c \<noteq> [] \<and> utf8_width (byte (hd c)) = length c"
  using scalar_bytes_width [of "map byte c"] by (cases c) (auto simp: scalar_def)

lemma scalar_length: "scalar c \<Longrightarrow> 1 \<le> length c \<and> length c \<le> 4"
  using scalar_width [of c] by (cases c) (auto simp: utf8_width_def split: if_splits)

lemma scalar_tail_cont: "scalar c \<Longrightarrow> 0 < i \<Longrightarrow> i < length c \<Longrightarrow> cont_byte (byte (c ! i))"
  using scalar_bytes_tail_cont [of "map byte c" i] by (simp add: scalar_def)

lemma scalar_head: "scalar c \<Longrightarrow> \<not> cont_byte (byte (hd c))"
  using scalar_bytes_head [of "map byte c"] scalar_width [of c]
  by (cases c) (auto simp: scalar_def)

text \<open>A valid string is a concatenation of scalars.\<close>

lemma utf8_valid_append: "scalar c \<Longrightarrow> utf8_valid (c @ s) \<longleftrightarrow> utf8_valid s"
proof -
  assume c: "scalar c"
  note w = scalar_width [OF c]
  then have h: "hd (c @ s) = hd c" by simp
  show ?thesis
    by (subst utf8_valid.simps) (use w c h in \<open>simp add: Let_def\<close>)
qed

lemma utf8_valid_cases:
  assumes "utf8_valid s"
  obtains "s = []" | c t where "s = c @ t" "scalar c" "utf8_valid t"
proof (cases "s = []")
  case False
  let ?k = "utf8_width (byte (hd s))"
  from False assms have "scalar (take ?k s)" "utf8_valid (drop ?k s)"
    by (auto simp: utf8_valid.simps [of s] Let_def split: if_splits)
  then show ?thesis
    using that(2) [of "take ?k s" "drop ?k s"] by simp
qed (use that in blast)

lemma utf8_valid_induct [consumes 1, case_names Nil Scalar]:
  assumes "utf8_valid s" and "P []"
    and "\<And>c t. scalar c \<Longrightarrow> utf8_valid t \<Longrightarrow> P t \<Longrightarrow> P (c @ t)"
  shows "P s"
  using assms(1)
proof (induction "length s" arbitrary: s rule: less_induct)
  case less
  from less.prems show ?case
  proof (cases rule: utf8_valid_cases)
    case (2 c t)
    then have "length t < length s" using scalar_width [of c] by simp
    then have "P t" using less.hyps 2(3) by blast
    then show ?thesis using assms(3) 2 by blast
  qed (use assms(2) in simp)
qed

text \<open>Cutting a valid string at a character boundary leaves a valid string.\<close>

lemma is_char_boundary_append:
  assumes c: "scalar c" and i: "0 < i" and b: "is_char_boundary (c @ t) i"
  shows "length c \<le> i \<and> is_char_boundary t (i - length c)"
proof -
  have "length c \<le> i"
  proof (rule ccontr)
    assume "\<not> length c \<le> i"
    then have "i < length c" by simp
    with i scalar_tail_cont [OF c] have "cont_byte (byte (c ! i))" by blast
    with b i \<open>i < length c\<close> show False
      by (simp add: is_char_boundary_def nth_append)
  qed
  with b i show ?thesis
    by (auto simp: is_char_boundary_def nth_append split: if_splits)
qed

lemma utf8_valid_take:
  "utf8_valid s \<Longrightarrow> is_char_boundary s i \<Longrightarrow> utf8_valid (take i s)"
proof (induction s arbitrary: i rule: utf8_valid_induct)
  case (Scalar c t)
  show ?case
  proof (cases "i = 0")
    case False
    then have "length c \<le> i" "is_char_boundary t (i - length c)"
      using is_char_boundary_append [of c i t] Scalar by auto
    then show ?thesis
      using Scalar by (simp add: utf8_valid_append)
  qed simp
qed simp

lemma floor_boundary_le: "floor_boundary s e \<le> e"
  by (induction s e rule: floor_boundary.induct) auto

lemma floor_boundary_ok: "is_char_boundary s (floor_boundary s e)"
  by (induction s e rule: floor_boundary.induct) (auto simp: is_char_boundary_def)

lemma floor_boundary_greatest:
  "is_char_boundary s i \<Longrightarrow> i \<le> e \<Longrightarrow> i \<le> floor_boundary s e"
proof (induction s e rule: floor_boundary.induct)
  case (2 s e)
  then show ?case by (cases "i = Suc e") auto
qed simp

lemma floor_boundary_fix: "is_char_boundary s e \<Longrightarrow> floor_boundary s e = e"
  by (simp add: floor_boundary_greatest floor_boundary_le order.antisym)

text \<open>A valid string has a boundary in every window of four positions.\<close>

lemma boundary_within_four:
  "utf8_valid s \<Longrightarrow> e \<le> length s \<Longrightarrow> \<exists>i. is_char_boundary s i \<and> i \<le> e \<and> e < i + 4"
proof (induction s arbitrary: e rule: utf8_valid_induct)
  case Nil
  then show ?case by (auto simp: is_char_boundary_def)
next
  case (Scalar c t)
  show ?case
  proof (cases "length c \<le> e")
    case True
    with Scalar obtain i where i: "is_char_boundary t i" "i \<le> e - length c" "e - length c < i + 4"
      by (metis diff_le_mono length_append diff_add_inverse)
    have "is_char_boundary (c @ t) (length c + i)"
    proof (cases "i = 0")
      case True
      have "\<not> cont_byte (byte (t ! 0))" if "t \<noteq> []"
        using Scalar.hyps(2)
      proof (cases rule: utf8_valid_cases)
        case (2 d u)
        then show ?thesis
          using scalar_head [of d] scalar_width [of d] by (simp add: hd_conv_nth nth_append)
      qed (use that in simp)
      with True show ?thesis
        by (auto simp: is_char_boundary_def nth_append)
    qed (use i(1) in \<open>auto simp: is_char_boundary_def nth_append split: if_splits\<close>)
    with i True show ?thesis by (intro exI [of _ "length c + i"]) auto
  next
    case False
    then have "e < 4" using scalar_length [of c] Scalar by auto
    then show ?thesis by (intro exI [of _ 0]) (simp add: is_char_boundary_def)
  qed
qed

lemma truncate_str_length: "length (truncate_str s mx) \<le> mx"
  using floor_boundary_le [of s "min (length s) mx"] by (simp add: truncate_str_def)

lemma truncate_str_prefix: "\<exists>rest. s = truncate_str s mx @ rest"
  unfolding truncate_str_def by (metis append_take_drop_id)

lemma truncate_str_id: "length s \<le> mx \<Longrightarrow> truncate_str s mx = s"
  by (simp add: truncate_str_def floor_boundary_fix is_char_boundary_def)

lemma truncate_str_valid: "utf8_valid s \<Longrightarrow> utf8_valid (truncate_str s mx)"
  by (simp add: truncate_str_def utf8_valid_take floor_boundary_ok)

lemma truncate_str_tight:
  assumes "utf8_valid s" "mx \<le> length s"
  shows "mx < length (truncate_str s mx) + 4"
proof -
  obtain i where i: "is_char_boundary s i" "i \<le> mx" "mx < i + 4"
    using boundary_within_four [OF assms] by blast
  then have "i \<le> floor_boundary s mx" by (simp add: floor_boundary_greatest)
  with i assms floor_boundary_le [of s mx] show ?thesis by (simp add: truncate_str_def)
qed

end
