(* ===== verification/Operations.thy ===== *)
theory Operations
  imports Containers Envelope Utf8
begin

text \<open>
  The operation table, \<^verbatim>\<open>crates/runtime-core/src/operations.rs\<close>: generation-checked slots
  that hold a pending request or its single terminal outcome until it is taken, with the owner,
  target, count and deadline indexes the World queries.

  \<^verbatim>\<open>free: Vec<u32>\<close> is a stack whose top is the head of the list. The model indexes vectors
  with \<open>!\<close> and \<open>list_update\<close>; \<open>optable_inv\<close> keeps every index it uses in range.
\<close>

section \<open>Data\<close>

record pending_operation =
  po_owner :: actor_ref
  po_target :: actor_ref
  po_deadline :: instant
  po_context :: "held_payload option"

datatype operation_failure = HandlerFailed | ResultTooLarge

datatype terminal_outcome =
    Completed held_payload
  | Failed operation_failure bytes
  | TimedOut
  | Cancelled
  | OwnerStopped
  | TargetStopped

text \<open>\<^verbatim>\<open>Entry\<close> and \<^verbatim>\<open>OperationStatus\<close> have the same two constructors.\<close>

datatype op_entry = OpPending pending_operation | OpTerminal terminal_outcome

record operation_owner =
  oo_owner :: actor_ref
  oo_target :: actor_ref

record operation_table =
  ot_world :: nat
  ot_max :: nat
  ot_slots :: "op_entry option list"
  ot_generations :: "nat list"
  ot_owners :: "actor_ref option list"
  ot_free :: "nat list"
  ot_live :: nat
  ot_pending :: nat
  ot_pending_owners :: "actor_ref \<rightharpoonup> nat"
  ot_owner_index :: "actor_ref \<rightharpoonup> operation_id list"
  ot_target_index :: "actor_ref \<rightharpoonup> operation_id list"
  ot_deadlines :: "(instant \<times> nat \<times> nat) list"

section \<open>Operations\<close>

definition optable_new :: "nat \<Rightarrow> nat \<Rightarrow> operation_table result" where
  "optable_new world_id max_operations =
     (if max_operations = 0 \<or> max_operations > u32_max then Inl InvalidConfig
      else Inr \<lparr>ot_world = world_id, ot_max = max_operations, ot_slots = [], ot_generations = [],
        ot_owners = [], ot_free = [], ot_live = 0, ot_pending = 0, ot_pending_owners = Map.empty,
        ot_owner_index = Map.empty, ot_target_index = Map.empty, ot_deadlines = []\<rparr>)"

definition op_id_at :: "operation_table \<Rightarrow> nat \<Rightarrow> operation_id" where
  "op_id_at t slot = OperationId (ot_world t) slot (ot_generations t ! slot)"

definition op_locate :: "operation_table \<Rightarrow> operation_id \<Rightarrow> nat result" where
  "op_locate t oid =
     (if op_world oid \<noteq> ot_world t then Inl CrossWorld
      else let i = op_slot oid in
        if i \<ge> length (ot_slots t) \<or> ot_generations t ! i \<noteq> op_generation oid
           \<or> ot_slots t ! i = None
        then Inl StaleReference
        else Inr i)"

definition remove_pending_owner :: "actor_ref \<Rightarrow> operation_table \<Rightarrow> operation_table" where
  "remove_pending_owner owner t = t\<lparr>ot_pending_owners := cnt_dec owner (ot_pending_owners t)\<rparr>"

definition remove_target_index :: "operation_id \<Rightarrow> pending_operation \<Rightarrow> operation_table \<Rightarrow> operation_table" where
  "remove_target_index oid p t =
     t\<lparr>ot_target_index := idx_remove (po_target p) oid (ot_target_index t)\<rparr>"

definition remove_owner_index :: "operation_id \<Rightarrow> operation_table \<Rightarrow> operation_table" where
  "remove_owner_index oid t =
     (let t1 = t\<lparr>ot_owners := (ot_owners t)[op_slot oid := None]\<rparr>
      in case ot_owners t ! op_slot oid of
           None \<Rightarrow> t1
         | Some owner \<Rightarrow> t1\<lparr>ot_owner_index := idx_remove owner oid (ot_owner_index t1)\<rparr>)"

definition index_pending :: "operation_id \<Rightarrow> pending_operation \<Rightarrow> operation_table \<Rightarrow> operation_table" where
  "index_pending oid p t =
     t\<lparr>ot_owners := (ot_owners t)[op_slot oid := Some (po_owner p)],
       ot_pending_owners := cnt_inc (po_owner p) (ot_pending_owners t),
       ot_owner_index := idx_insert (po_owner p) oid (ot_owner_index t),
       ot_target_index := idx_insert (po_target p) oid (ot_target_index t),
       ot_deadlines := bs_insert (po_deadline p, op_slot oid, op_generation oid) (ot_deadlines t)\<rparr>"

definition remove_index :: "operation_id \<Rightarrow> pending_operation \<Rightarrow> operation_table \<Rightarrow> operation_table" where
  "remove_index oid p t =
     (let t1 = remove_pending_owner (po_owner p) (t\<lparr>ot_owners := (ot_owners t)[op_slot oid := None]\<rparr>)
      in t1\<lparr>ot_owner_index := idx_remove (po_owner p) oid (ot_owner_index t1),
            ot_target_index := idx_remove (po_target p) oid (ot_target_index t1),
            ot_deadlines := bs_remove (po_deadline p, op_slot oid, op_generation oid) (ot_deadlines t1)\<rparr>)"

definition normalize_message :: "bytes \<Rightarrow> bytes" where
  "normalize_message message = truncate_str message 1024"

definition retire_generation :: "nat \<Rightarrow> operation_table \<Rightarrow> operation_table" where
  "retire_generation index t =
     (case checked_add u64_max (ot_generations t ! index) 1 of
        None \<Rightarrow> t
      | Some nxt \<Rightarrow>
          t\<lparr>ot_generations := (ot_generations t)[index := nxt], ot_free := index # ot_free t\<rparr>)"

definition retained_terminal_count :: "operation_table \<Rightarrow> nat" where
  "retained_terminal_count t = ot_live t - ot_pending t"

text \<open>The slot \<^verbatim>\<open>reserve\<close> takes: the top of the free stack, or a fresh one at the end.\<close>

definition op_pop_slot :: "operation_table \<Rightarrow> nat \<times> operation_table" where
  "op_pop_slot t =
     (case ot_free t of
        slot # rest \<Rightarrow> (slot, t\<lparr>ot_free := rest\<rparr>)
      | [] \<Rightarrow> (length (ot_slots t),
          t\<lparr>ot_slots := ot_slots t @ [None], ot_generations := ot_generations t @ [1],
            ot_owners := ot_owners t @ [None]\<rparr>))"

definition op_reserve ::
  "actor_ref \<Rightarrow> actor_ref \<Rightarrow> instant \<Rightarrow> operation_table \<Rightarrow> operation_table \<times> operation_id result" where
  "op_reserve owner target deadline t =
     (if ar_world owner \<noteq> ot_world t \<or> ar_world target \<noteq> ot_world t then (t, Inl CrossWorld)
      else if ot_live t \<ge> ot_max t then (t, Inl LimitExceeded)
      else if ot_free t = [] \<and> length (ot_slots t) \<ge> ot_max t then (t, Inl LimitExceeded)
      else
        (let (slot, t1) = op_pop_slot t;
             oid = op_id_at t1 slot;
             p = \<lparr>po_owner = owner, po_target = target, po_deadline = deadline, po_context = None\<rparr>;
             t2 = index_pending oid p (t1\<lparr>ot_slots := (ot_slots t1)[slot := Some (OpPending p)]\<rparr>)
         in (t2\<lparr>ot_live := ot_live t2 + 1, ot_pending := ot_pending t2 + 1\<rparr>, Inr oid)))"

definition op_set_context ::
  "operation_id \<Rightarrow> held_payload \<Rightarrow> operation_table \<Rightarrow> operation_table \<times> unit result" where
  "op_set_context oid context t =
     (if hp_world context \<noteq> ot_world t then (t, Inl CrossWorld)
      else case op_locate t oid of
        Inl e \<Rightarrow> (t, Inl e)
      | Inr index \<Rightarrow>
          (case ot_slots t ! index of
             Some (OpPending operation) \<Rightarrow>
               if po_context operation \<noteq> None then (t, Inl InvalidConfig)
               else (t\<lparr>ot_slots := (ot_slots t)[index :=
                        Some (OpPending (operation\<lparr>po_context := Some context\<rparr>))]\<rparr>, Inr ())
           | Some (OpTerminal _) \<Rightarrow> (t, Inl InvalidConfig)
           | None \<Rightarrow> (t, Inl StaleReference)))"

fun normalize_outcome :: "terminal_outcome \<Rightarrow> terminal_outcome" where
  "normalize_outcome (Failed code message) = Failed code (normalize_message message)"
| "normalize_outcome outcome = outcome"

fun outcome_crosses :: "nat \<Rightarrow> terminal_outcome \<Rightarrow> bool" where
  "outcome_crosses w (Completed payload) = (hp_world payload \<noteq> w)"
| "outcome_crosses w _ = False"

definition op_complete ::
  "operation_id \<Rightarrow> terminal_outcome \<Rightarrow> operation_table \<Rightarrow> operation_table \<times> bool result" where
  "op_complete oid outcome t =
     (if outcome_crosses (ot_world t) outcome then (t, Inl CrossWorld)
      else case op_locate t oid of
        Inl e \<Rightarrow> (t, Inl e)
      | Inr i \<Rightarrow>
          (case ot_slots t ! i of
             Some (OpPending p) \<Rightarrow>
               (let t1 = remove_pending_owner (po_owner p) (remove_target_index oid p t);
                    t2 = t1\<lparr>ot_deadlines :=
                            bs_remove (po_deadline p, op_slot oid, op_generation oid) (ot_deadlines t1),
                            ot_pending := ot_pending t1 - 1\<rparr>
                in (t2\<lparr>ot_slots := (ot_slots t2)[i := Some (OpTerminal (normalize_outcome outcome))]\<rparr>,
                    Inr True))
           | _ \<Rightarrow> (t, Inr False)))"

definition op_status :: "operation_table \<Rightarrow> operation_id \<Rightarrow> op_entry result" where
  "op_status t oid = bindR (op_locate t oid) (\<lambda>i. ok_or StaleReference (ot_slots t ! i))"

definition op_take ::
  "operation_id \<Rightarrow> operation_table \<Rightarrow> operation_table \<times> terminal_outcome option result" where
  "op_take oid t =
     (case op_locate t oid of
        Inl e \<Rightarrow> (t, Inl e)
      | Inr i \<Rightarrow>
          (case ot_slots t ! i of
             Some (OpTerminal outcome) \<Rightarrow>
               (let t1 = remove_owner_index oid (t\<lparr>ot_slots := (ot_slots t)[i := None]\<rparr>)
                in (retire_generation i (t1\<lparr>ot_live := ot_live t1 - 1\<rparr>), Inr (Some outcome)))
           | _ \<Rightarrow> (t, Inr None)))"

definition op_release_unsubmitted ::
  "operation_id \<Rightarrow> operation_table \<Rightarrow> operation_table \<times> bool result" where
  "op_release_unsubmitted oid t =
     (case op_locate t oid of
        Inl e \<Rightarrow> (t, Inl e)
      | Inr i \<Rightarrow>
          (case ot_slots t ! i of
             Some (OpPending p) \<Rightarrow>
               (let t1 = remove_index oid p (t\<lparr>ot_slots := (ot_slots t)[i := None]\<rparr>)
                in (retire_generation i (t1\<lparr>ot_pending := ot_pending t1 - 1, ot_live := ot_live t1 - 1\<rparr>),
                    Inr True))
           | _ \<Rightarrow> (t, Inr False)))"

fun transition_ids ::
  "operation_id list \<Rightarrow> terminal_outcome \<Rightarrow> operation_table \<Rightarrow> operation_table \<times> nat" where
  "transition_ids [] outcome t = (t, 0)"
| "transition_ids (oid # ids) outcome t =
     (let (t1, r) = op_complete oid outcome t;
          (t2, n) = transition_ids ids outcome t1
      in (t2, (if unwrap_or False r then 1 else 0) + n))"

definition op_pending_for :: "operation_table \<Rightarrow> actor_ref \<Rightarrow> nat" where
  "op_pending_for t owner = cnt_get (ot_pending_owners t) owner"

definition op_pending_for_target :: "operation_table \<Rightarrow> actor_ref \<Rightarrow> nat" where
  "op_pending_for_target t target = length (idx_get (ot_target_index t) target)"

definition op_participants ::
  "operation_table \<Rightarrow> operation_id \<Rightarrow> (actor_ref \<times> actor_ref option) result" where
  "op_participants t oid =
     bindR (op_locate t oid) (\<lambda>index.
     bindR (ok_or StaleReference (ot_owners t ! index)) (\<lambda>owner.
       case ot_slots t ! index of
         Some (OpPending operation) \<Rightarrow> Inr (owner, Some (po_target operation))
       | Some (OpTerminal _) \<Rightarrow> Inr (owner, None)
       | None \<Rightarrow> Inl StaleReference))"

definition slot_key :: "operation_id \<Rightarrow> nat \<times> nat" where
  "slot_key oid = (op_slot oid, op_generation oid)"

text \<open>The endpoints of an oid if it is pending, the \<^verbatim>\<open>filter_map\<close> closure of the two queries below.\<close>

definition pending_endpoints :: "operation_table \<Rightarrow> operation_id \<Rightarrow> operation_owner option" where
  "pending_endpoints t oid =
     (case op_locate t oid of
        Inl e \<Rightarrow> None
      | Inr index \<Rightarrow>
          (case ot_slots t ! index of
             Some (OpPending operation) \<Rightarrow>
               Some \<lparr>oo_owner = po_owner operation, oo_target = po_target operation\<rparr>
           | _ \<Rightarrow> None))"

definition pending_participants_for :: "operation_table \<Rightarrow> actor_ref \<Rightarrow> operation_owner list" where
  "pending_participants_for t actor =
     (let ids = remdups (idx_get (ot_owner_index t) actor @ idx_get (ot_target_index t) actor)
      in List.map_filter (pending_endpoints t) (sort_key slot_key ids))"

definition due_participants :: "operation_table \<Rightarrow> instant \<Rightarrow> operation_owner list" where
  "due_participants t now =
     (let due = takeWhile (\<lambda>(deadline, _, _). deadline \<le> now) (ot_deadlines t);
          ids = List.map_filter (\<lambda>(_, slot, generation).
                  let oid = OperationId (ot_world t) slot generation
                  in if is_ok (op_locate t oid) then Some oid else None) due
      in List.map_filter (pending_endpoints t) (sort_key slot_key ids))"

definition counts_for_scope :: "operation_table \<Rightarrow> actor_ref list \<Rightarrow> nat \<times> nat" where
  "counts_for_scope t scope =
     (let ids = remdups (concat (map (\<lambda>actor.
                  idx_get (ot_owner_index t) actor @ idx_get (ot_target_index t) actor) scope));
          is_pending = (\<lambda>oid. case op_locate t oid of Inl e \<Rightarrow> False
             | Inr index \<Rightarrow> (case ot_slots t ! index of Some (OpPending _) \<Rightarrow> True | _ \<Rightarrow> False));
          is_retained = (\<lambda>oid. case op_locate t oid of Inl e \<Rightarrow> False
             | Inr index \<Rightarrow> (case ot_slots t ! index of
                 Some (OpTerminal _) \<Rightarrow>
                   (case ot_owners t ! index of None \<Rightarrow> False | Some owner \<Rightarrow> owner \<in> set scope)
               | _ \<Rightarrow> False))
      in (length (filter is_pending ids), length (filter is_retained ids)))"

fun retire_ids :: "operation_id list \<Rightarrow> operation_table \<Rightarrow> operation_table \<times> nat" where
  "retire_ids [] t = (t, 0)"
| "retire_ids (oid # ids) t =
     (let t1 = fst (op_complete oid OwnerStopped t);
          (t2, r) = op_take oid t1;
          (t3, n) = retire_ids ids t2
      in (t3, (case r of Inr (Some _) \<Rightarrow> 1 | _ \<Rightarrow> 0) + n))"

definition op_retire_owner :: "actor_ref \<Rightarrow> operation_table \<Rightarrow> operation_table \<times> nat" where
  "op_retire_owner owner t = retire_ids (sort_key slot_key (idx_get (ot_owner_index t) owner)) t"

definition op_cancel_owner :: "actor_ref \<Rightarrow> operation_table \<Rightarrow> operation_table \<times> nat" where
  "op_cancel_owner owner t =
     transition_ids (sort_key slot_key (idx_get (ot_owner_index t) owner)) OwnerStopped t"

definition op_stop_target :: "actor_ref \<Rightarrow> operation_table \<Rightarrow> operation_table \<times> nat" where
  "op_stop_target target t =
     transition_ids (sort_key slot_key (idx_get (ot_target_index t) target)) TargetStopped t"

text \<open>The first loop of \<^verbatim>\<open>expire_ids\<close>: pop every due entry of the deadline set and keep the ids
  that still resolve.\<close>

fun pop_due ::
  "operation_table \<Rightarrow> instant \<Rightarrow> (instant \<times> nat \<times> nat) list \<Rightarrow>
   operation_id list \<times> (instant \<times> nat \<times> nat) list" where
  "pop_due t now [] = ([], [])"
| "pop_due t now ((deadline, slot, generation) # rest) =
     (if deadline > now then ([], (deadline, slot, generation) # rest)
      else
        (let oid = OperationId (ot_world t) slot generation;
             (ids, remaining) = pop_due t now rest
         in (if is_ok (op_locate t oid) then oid # ids else ids, remaining)))"

text \<open>The second loop: \<^verbatim>\<open>expect("live pending operation")\<close> panics, \<open>None\<close>, on an error.\<close>

fun expire_each :: "operation_id list \<Rightarrow> operation_table \<Rightarrow> operation_table option" where
  "expire_each [] t = Some t"
| "expire_each (oid # ids) t =
     (case op_complete oid TimedOut t of
        (t1, Inl e) \<Rightarrow> None
      | (t1, Inr _) \<Rightarrow> expire_each ids t1)"

definition op_expire_ids ::
  "instant \<Rightarrow> operation_table \<Rightarrow> (operation_table \<times> operation_id list) option" where
  "op_expire_ids now t =
     (let (ids, remaining) = pop_due t now (ot_deadlines t)
      in map_option (\<lambda>t'. (t', sort_key slot_key ids))
           (expire_each ids (t\<lparr>ot_deadlines := remaining\<rparr>)))"

definition op_expire :: "instant \<Rightarrow> operation_table \<Rightarrow> (operation_table \<times> nat) option" where
  "op_expire now t = map_option (\<lambda>(t', ids). (t', length ids)) (op_expire_ids now t)"

definition op_expire_one ::
  "operation_id \<Rightarrow> instant \<Rightarrow> operation_table \<Rightarrow> operation_table \<times> bool result" where
  "op_expire_one oid now t =
     (case op_locate t oid of
        Inl e \<Rightarrow> (t, Inl e)
      | Inr index \<Rightarrow>
          (case ot_slots t ! index of
             Some (OpPending p) \<Rightarrow>
               if po_deadline p \<le> now then op_complete oid TimedOut t else (t, Inr False)
           | _ \<Rightarrow> (t, Inr False)))"

end
