(* ===== verification/Operations_Correct.thy ===== *)
theory Operations_Correct
  imports Operations
begin

text \<open>
  The operation table's invariant and what it gives: the counters and indexes always agree with
  the slots, the table is bounded, an operation has one terminal outcome, a retired identifier
  never resolves again, and expiry by the deadline index is the full scan.
\<close>

section \<open>The invariant\<close>

fun is_pending :: "op_entry option \<Rightarrow> bool" where
  "is_pending (Some (OpPending p)) = True"
| "is_pending _ = False"

fun owned_pending :: "actor_ref \<Rightarrow> op_entry option \<Rightarrow> bool" where
  "owned_pending a (Some (OpPending p)) = (po_owner p = a)"
| "owned_pending a _ = False"

definition owner_rel :: "operation_table \<Rightarrow> (actor_ref \<times> operation_id) set" where
  "owner_rel t = {(a, oid). op_world oid = ot_world t \<and> op_slot oid < length (ot_slots t)
     \<and> op_generation oid = ot_generations t ! op_slot oid \<and> ot_owners t ! op_slot oid = Some a}"

definition target_rel :: "operation_table \<Rightarrow> (actor_ref \<times> operation_id) set" where
  "target_rel t = {(a, oid). op_world oid = ot_world t \<and> op_slot oid < length (ot_slots t)
     \<and> op_generation oid = ot_generations t ! op_slot oid
     \<and> (\<exists>p. ot_slots t ! op_slot oid = Some (OpPending p) \<and> a = po_target p)}"

definition deadline_rel :: "operation_table \<Rightarrow> (instant \<times> nat \<times> nat) set" where
  "deadline_rel t = {(d, i, g). i < length (ot_slots t) \<and> g = ot_generations t ! i
     \<and> (\<exists>p. ot_slots t ! i = Some (OpPending p) \<and> d = po_deadline p)}"

definition optable_shape :: "operation_table \<Rightarrow> bool" where
  "optable_shape t \<longleftrightarrow>
     length (ot_generations t) = length (ot_slots t)
     \<and> length (ot_owners t) = length (ot_slots t)
     \<and> length (ot_slots t) \<le> ot_max t \<and> 0 < ot_max t \<and> ot_max t \<le> u32_max
     \<and> (\<forall>i < length (ot_slots t). 1 \<le> ot_generations t ! i \<and> ot_generations t ! i \<le> u64_max)"

definition optable_free :: "operation_table \<Rightarrow> bool" where
  "optable_free t \<longleftrightarrow> distinct (ot_free t)
     \<and> (\<forall>i \<in> set (ot_free t). i < length (ot_slots t) \<and> ot_slots t ! i = None)
     \<and> (\<forall>i < length (ot_slots t). ot_slots t ! i = None \<longrightarrow>
          i \<in> set (ot_free t) \<or> ot_generations t ! i = u64_max)"

definition optable_owners :: "operation_table \<Rightarrow> bool" where
  "optable_owners t \<longleftrightarrow>
     (\<forall>i < length (ot_slots t).
        (ot_owners t ! i = None \<longleftrightarrow> ot_slots t ! i = None)
        \<and> (\<forall>p. ot_slots t ! i = Some (OpPending p) \<longrightarrow>
              ot_owners t ! i = Some (po_owner p) \<and> ar_world (po_target p) = ot_world t)
        \<and> (\<forall>a. ot_owners t ! i = Some a \<longrightarrow> ar_world a = ot_world t))"

definition optable_counts :: "operation_table \<Rightarrow> bool" where
  "optable_counts t \<longleftrightarrow>
     ot_live t = length (filter (\<lambda>e. e \<noteq> None) (ot_slots t))
     \<and> ot_pending t = length (filter is_pending (ot_slots t))
     \<and> counts_ok (ot_pending_owners t) (\<lambda>a. length (filter (owned_pending a) (ot_slots t)))"

definition optable_indexes :: "operation_table \<Rightarrow> bool" where
  "optable_indexes t \<longleftrightarrow>
     idx.mirrors (ot_owner_index t) (owner_rel t) \<and> idx.mirrors (ot_target_index t) (target_rel t)"

definition optable_base :: "operation_table \<Rightarrow> bool" where
  "optable_base t \<longleftrightarrow> optable_shape t \<and> optable_free t \<and> optable_owners t \<and> optable_counts t
     \<and> optable_indexes t"

text \<open>The deadline set lacks exactly the keys \<open>E\<close>; \<open>E\<close> is not empty only inside
  \<^verbatim>\<open>expire_ids\<close>, between its two loops.\<close>

definition deadlines_without :: "(instant \<times> nat \<times> nat) set \<Rightarrow> operation_table \<Rightarrow> bool" where
  "deadlines_without E t \<longleftrightarrow> bset (ot_deadlines t) \<and> set (ot_deadlines t) = deadline_rel t - E"

definition optable_inv :: "operation_table \<Rightarrow> bool" where
  "optable_inv t \<longleftrightarrow> optable_base t \<and> deadlines_without {} t"

lemmas optable_parts = optable_base_def optable_shape_def optable_free_def optable_owners_def
  optable_counts_def optable_indexes_def

lemma op_locate_Inr:
  "op_locate t oid = Inr i \<longleftrightarrow>
     oid = op_id_at t i \<and> i < length (ot_slots t) \<and> ot_slots t ! i \<noteq> None"
  by (cases oid) (auto simp: op_locate_def op_id_at_def Let_def)

lemma op_id_at_slot [simp]: "op_slot (op_id_at t i) = i" "op_generation (op_id_at t i) = ot_generations t ! i"
    "op_world (op_id_at t i) = ot_world t"
  by (simp_all add: op_id_at_def)

lemma op_id_at_iff:
  "oid = op_id_at t i \<longleftrightarrow>
     op_world oid = ot_world t \<and> op_slot oid = i \<and> op_generation oid = ot_generations t ! i"
  by (cases oid) (auto simp: op_id_at_def)

lemma op_id_at_eq [simp]: "op_id_at t i = op_id_at t j \<longleftrightarrow> i = j"
  by (auto simp: op_id_at_def)

lemma op_locate_id:
  "op_locate t oid = Inr i \<Longrightarrow>
     op_id_at t i = oid \<and> op_slot oid = i \<and> op_generation oid = ot_generations t ! i
     \<and> i < length (ot_slots t)"
  by (auto simp: op_locate_Inr)

section \<open>Every change of a slot, as one record update\<close>

definition complete_at :: "nat \<Rightarrow> pending_operation \<Rightarrow> terminal_outcome \<Rightarrow> operation_table \<Rightarrow> operation_table" where
  "complete_at i p outcome t =
     t\<lparr>ot_target_index := idx_remove (po_target p) (op_id_at t i) (ot_target_index t),
       ot_pending_owners := cnt_dec (po_owner p) (ot_pending_owners t),
       ot_deadlines := bs_remove (po_deadline p, i, ot_generations t ! i) (ot_deadlines t),
       ot_pending := ot_pending t - 1,
       ot_slots := (ot_slots t)[i := Some (OpTerminal (normalize_outcome outcome))]\<rparr>"

lemma op_complete_pending:
  assumes "op_locate t oid = Inr i" "ot_slots t ! i = Some (OpPending p)"
    and "\<not> outcome_crosses (ot_world t) outcome"
  shows "op_complete oid outcome t = (complete_at i p outcome t, Inr True)"
  using assms op_locate_id [OF assms(1)]
  by (simp add: op_complete_def complete_at_def Let_def remove_pending_owner_def
      remove_target_index_def)

lemma op_complete_cases:
  obtains (unchanged) r where "op_complete oid outcome t = (t, r)" "r \<noteq> Inr True"
      "\<And>i. op_locate t oid = Inr i \<Longrightarrow> \<not> outcome_crosses (ot_world t) outcome \<Longrightarrow>
         r = Inr False \<and> \<not> is_pending (ot_slots t ! i)"
      "\<And>e. op_locate t oid = Inl e \<Longrightarrow> \<not> is_ok r"
  | (completed) i p where "op_complete oid outcome t = (complete_at i p outcome t, Inr True)"
      "oid = op_id_at t i" "i < length (ot_slots t)" "ot_slots t ! i = Some (OpPending p)"
proof (cases "op_locate t oid")
  case (Inl e)
  then show ?thesis using unchanged
    by (cases "outcome_crosses (ot_world t) outcome") (auto simp: op_complete_def)
next
  case (Inr i)
  show ?thesis
  proof (cases "outcome_crosses (ot_world t) outcome")
    case True
    then show ?thesis using unchanged Inr by (auto simp: op_complete_def)
  next
    case False
    show ?thesis
    proof (cases "\<exists>p. ot_slots t ! i = Some (OpPending p)")
      case True
      then obtain p where p: "ot_slots t ! i = Some (OpPending p)" by blast
      then show ?thesis
        using completed op_complete_pending [OF Inr p False] Inr by (auto simp: op_locate_Inr)
    next
      case np: False
      then have "op_complete oid outcome t = (t, Inr False)" "\<not> is_pending (ot_slots t ! i)"
        using False Inr
        by (auto simp: op_complete_def split: option.splits op_entry.splits elim: is_pending.elims)
      then show ?thesis using unchanged Inr by auto
    qed
  qed
qed

lemma op_take_terminal:
  assumes "op_locate t oid = Inr i" "ot_slots t ! i = Some (OpTerminal out)" "ot_owners t ! i = Some a"
  shows "op_take oid t =
    (retire_generation i (t\<lparr>ot_slots := (ot_slots t)[i := None], ot_owners := (ot_owners t)[i := None],
       ot_owner_index := idx_remove a oid (ot_owner_index t), ot_live := ot_live t - 1\<rparr>),
     Inr (Some out))"
  using assms op_locate_id [OF assms(1)]
  by (simp add: op_take_def remove_owner_index_def Let_def)

lemma op_release_pending:
  assumes "op_locate t oid = Inr i" "ot_slots t ! i = Some (OpPending p)"
  shows "op_release_unsubmitted oid t =
    (retire_generation i (t\<lparr>ot_slots := (ot_slots t)[i := None], ot_owners := (ot_owners t)[i := None],
       ot_pending_owners := cnt_dec (po_owner p) (ot_pending_owners t),
       ot_owner_index := idx_remove (po_owner p) oid (ot_owner_index t),
       ot_target_index := idx_remove (po_target p) oid (ot_target_index t),
       ot_deadlines := bs_remove (po_deadline p, i, ot_generations t ! i) (ot_deadlines t),
       ot_pending := ot_pending t - 1, ot_live := ot_live t - 1\<rparr>), Inr True)"
  using assms op_locate_id [OF assms(1)]
  by (simp add: op_release_unsubmitted_def remove_index_def Let_def remove_pending_owner_def)

section \<open>Preservation\<close>

lemma owned_pending_count:
  assumes "i < length xs"
  shows "length (filter (owned_pending a) (xs[i := x])) =
     length (filter (owned_pending a) xs) + (if owned_pending a x then 1 else 0)
       - (if owned_pending a (xs ! i) then 1 else 0)"
  using length_filter_update [OF assms, of "owned_pending a" x] by (auto split: if_splits)

lemma filter_nth_pos: "i < length xs \<Longrightarrow> P (xs ! i) \<Longrightarrow> 0 < length (filter P xs)"
  by (metis filter_empty_conv length_greater_0_conv nth_mem)

text \<open>How emptying or completing one slot changes the represented relations.\<close>

lemma owner_rel_clear:
  assumes "ot_world c = ot_world t" "ot_generations c = ot_generations t"
    and "length (ot_slots c) = length (ot_slots t)"
    and "ot_owners c = (ot_owners t)[i := None]" "i < length (ot_owners t)" "ot_owners t ! i = Some a"
  shows "owner_rel c = owner_rel t - {(a, op_id_at t i)}"
  using assms by (auto simp: owner_rel_def op_id_at_iff nth_list_update split: if_splits)

lemma target_rel_clear:
  assumes "ot_world c = ot_world t" "ot_generations c = ot_generations t"
    and "ot_slots c = (ot_slots t)[i := e]" "i < length (ot_slots t)" "\<not> is_pending e"
  shows "target_rel c = target_rel t -
    (case ot_slots t ! i of Some (OpPending p) \<Rightarrow> {(po_target p, op_id_at t i)} | _ \<Rightarrow> {})"
  using assms
  by (auto simp: target_rel_def op_id_at_iff nth_list_update split: if_splits option.splits op_entry.splits)

lemma deadline_rel_clear:
  assumes "ot_generations c = ot_generations t"
    and "ot_slots c = (ot_slots t)[i := e]" "i < length (ot_slots t)" "\<not> is_pending e"
  shows "deadline_rel c = deadline_rel t -
    (case ot_slots t ! i of Some (OpPending p) \<Rightarrow> {(po_deadline p, i, ot_generations t ! i)} | _ \<Rightarrow> {})"
  using assms
  by (auto simp: deadline_rel_def nth_list_update split: if_splits option.splits op_entry.splits)

lemma complete_at_base:
  assumes base: "optable_base t" and i: "i < length (ot_slots t)"
    and p: "ot_slots t ! i = Some (OpPending p)"
  shows "optable_base (complete_at i p outcome t)"
proof -
  let ?t = "complete_at i p outcome t"
  have fields: "ot_slots ?t = (ot_slots t)[i := Some (OpTerminal (normalize_outcome outcome))]"
    "ot_generations ?t = ot_generations t" "ot_owners ?t = ot_owners t" "ot_free ?t = ot_free t"
    "ot_max ?t = ot_max t" "ot_world ?t = ot_world t" "ot_live ?t = ot_live t"
    "ot_owner_index ?t = ot_owner_index t" "ot_pending ?t = ot_pending t - 1"
    "ot_target_index ?t = idx_remove (po_target p) (op_id_at t i) (ot_target_index t)"
    "ot_pending_owners ?t = cnt_dec (po_owner p) (ot_pending_owners t)"
    by (simp_all add: complete_at_def)
  have ids: "op_id_at ?t = op_id_at t" by (simp add: op_id_at_def fun_eq_iff fields)
  have shape: "optable_shape ?t" using base by (simp add: optable_base_def optable_shape_def fields)
  have free: "optable_free ?t" using base p i
    by (auto simp: optable_base_def optable_free_def fields nth_list_update)
  have owners: "optable_owners ?t" using base p i
    by (auto simp: optable_base_def optable_owners_def fields nth_list_update)
  have "owner_rel ?t = owner_rel t" by (simp add: owner_rel_def fields ids)
  moreover have "target_rel ?t = target_rel t - {(po_target p, op_id_at t i)}"
    using target_rel_clear [where c = ?t and t = t and i = i] i p by (simp add: fields)
  ultimately have indexes: "optable_indexes ?t"
    using base by (simp add: optable_base_def optable_indexes_def fields idx.mirrors_rem)
  have owned: "counts_ok (cnt_dec (po_owner p) (ot_pending_owners t))
      (\<lambda>a. length (filter (owned_pending a) (ot_slots ?t)))"
  proof (rule counts_ok_cong [OF counts_ok_dec])
    show "counts_ok (ot_pending_owners t) (\<lambda>a. length (filter (owned_pending a) (ot_slots t)))"
      using base by (simp add: optable_base_def optable_counts_def)
    show "0 < length (filter (owned_pending (po_owner p)) (ot_slots t))"
      by (rule filter_nth_pos [OF i]) (simp add: p)
  qed (auto simp: fields owned_pending_count i p)
  have counts: "optable_counts ?t"
    using base owned length_filter_update [OF i, of "\<lambda>e. e \<noteq> None" "Some (OpTerminal (normalize_outcome outcome))"]
      length_filter_update [OF i, of is_pending "Some (OpTerminal (normalize_outcome outcome))"] p
    by (simp add: optable_base_def optable_counts_def fields)
  show ?thesis
    using shape free owners counts indexes by (simp add: optable_base_def)
qed

lemma complete_at_deadlines:
  assumes "deadlines_without E t" and i: "i < length (ot_slots t)"
    and p: "ot_slots t ! i = Some (OpPending p)"
  shows "deadlines_without E (complete_at i p outcome t)"
proof -
  have "deadline_rel (complete_at i p outcome t) = deadline_rel t - {(po_deadline p, i, ot_generations t ! i)}"
    using deadline_rel_clear [where c = "complete_at i p outcome t" and t = t and i = i] i p
    by (simp add: complete_at_def)
  with assms(1) show ?thesis
    by (auto simp: deadlines_without_def complete_at_def)
qed

lemma op_complete_base: "optable_base t \<Longrightarrow> optable_base (fst (op_complete oid outcome t))"
  by (cases rule: op_complete_cases [of oid outcome t]) (auto simp: complete_at_base)

lemma op_complete_deadlines:
  "deadlines_without E t \<Longrightarrow> deadlines_without E (fst (op_complete oid outcome t))"
  by (cases rule: op_complete_cases [of oid outcome t]) (auto simp: complete_at_deadlines)

lemma op_complete_inv: "optable_inv t \<Longrightarrow> optable_inv (fst (op_complete oid outcome t))"
  by (simp add: optable_inv_def op_complete_base op_complete_deadlines)

text \<open>Clearing slot \<open>i\<close>, before its generation is retired.\<close>

lemma retire_generation_fields [simp]:
  "ot_slots (retire_generation i t) = ot_slots t"
  "ot_owners (retire_generation i t) = ot_owners t"
  "ot_max (retire_generation i t) = ot_max t"
  "ot_world (retire_generation i t) = ot_world t"
  "ot_live (retire_generation i t) = ot_live t"
  "ot_pending (retire_generation i t) = ot_pending t"
  "ot_pending_owners (retire_generation i t) = ot_pending_owners t"
  "ot_owner_index (retire_generation i t) = ot_owner_index t"
  "ot_target_index (retire_generation i t) = ot_target_index t"
  "ot_deadlines (retire_generation i t) = ot_deadlines t"
  by (auto simp: retire_generation_def split: option.splits)

lemma retire_generation_gens:
  "ot_generations (retire_generation i t) =
     (if ot_generations t ! i < u64_max then (ot_generations t)[i := Suc (ot_generations t ! i)]
      else ot_generations t)"
  "ot_free (retire_generation i t) =
     (if ot_generations t ! i < u64_max then i # ot_free t else ot_free t)"
  by (auto simp: retire_generation_def split: option.splits)

lemma retire_generation_base:
  assumes shape: "optable_shape t" and owners: "optable_owners t" and counts: "optable_counts t"
    and indexes: "optable_indexes t"
    and i: "i < length (ot_slots t)" and empty: "ot_slots t ! i = None"
    and free: "distinct (ot_free t)" "i \<notin> set (ot_free t)"
      "\<forall>j \<in> set (ot_free t). j < length (ot_slots t) \<and> ot_slots t ! j = None"
      "\<forall>j < length (ot_slots t). j \<noteq> i \<longrightarrow> ot_slots t ! j = None \<longrightarrow>
          j \<in> set (ot_free t) \<or> ot_generations t ! j = u64_max"
  shows "optable_base (retire_generation i t)"
    and "deadline_rel (retire_generation i t) = deadline_rel t"
proof -
  let ?t = "retire_generation i t"
  have len: "length (ot_generations t) = length (ot_slots t)"
    using shape by (simp add: optable_shape_def)
  have none: "ot_owners t ! i = None" using owners i empty by (simp add: optable_owners_def)
  have gen: "j \<noteq> i \<Longrightarrow> ot_generations ?t ! j = ot_generations t ! j" for j
    by (simp add: retire_generation_gens)
  then have ids: "j \<noteq> i \<Longrightarrow> op_id_at ?t j = op_id_at t j" for j
    by (simp add: op_id_at_def)
  have "(a, oid) \<in> owner_rel ?t \<longleftrightarrow> (a, oid) \<in> owner_rel t" for a oid
    by (cases "op_slot oid = i") (simp_all add: owner_rel_def none gen)
  then have "owner_rel ?t = owner_rel t" by auto
  moreover have "(a, oid) \<in> target_rel ?t \<longleftrightarrow> (a, oid) \<in> target_rel t" for a oid
    by (cases "op_slot oid = i") (simp_all add: target_rel_def empty gen)
  then have "target_rel ?t = target_rel t" by auto
  ultimately have "optable_indexes ?t" using indexes by (simp add: optable_indexes_def)
  moreover have "optable_shape ?t"
    using shape i len by (auto simp: optable_shape_def retire_generation_gens nth_list_update)
  moreover have "optable_free ?t"
  proof -
    have "\<not> ot_generations t ! i < u64_max \<Longrightarrow> ot_generations t ! i = u64_max"
      using shape i by (simp add: optable_shape_def le_antisym)
    then show ?thesis
      using free i empty len by (auto simp: optable_free_def retire_generation_gens nth_list_update)
  qed
  ultimately show "optable_base ?t"
    using owners counts by (simp add: optable_base_def optable_owners_def optable_counts_def)
  have "(d, j, g) \<in> deadline_rel ?t \<longleftrightarrow> (d, j, g) \<in> deadline_rel t" for d j g
    by (cases "j = i") (simp_all add: deadline_rel_def empty gen)
  then show "deadline_rel ?t = deadline_rel t" by auto
qed

lemma base_owner_exists:
  "optable_base t \<Longrightarrow> i < length (ot_slots t) \<Longrightarrow> ot_slots t ! i \<noteq> None \<Longrightarrow>
     \<exists>a. ot_owners t ! i = Some a"
  by (auto simp: optable_base_def optable_owners_def)

lemma clear_slot_counts:
  assumes "optable_counts t" "i < length (ot_slots t)"
    and "ot_slots t ! i \<noteq> None"
  shows "ot_live t - 1 = length (filter (\<lambda>e. e \<noteq> None) ((ot_slots t)[i := None]))"
    and "ot_pending t - (if is_pending (ot_slots t ! i) then 1 else 0)
         = length (filter is_pending ((ot_slots t)[i := None]))"
  using assms length_filter_update [OF assms(2), of "\<lambda>e. e \<noteq> None" None]
    length_filter_update [OF assms(2), of is_pending None]
  by (auto simp: optable_counts_def split: if_splits)

text \<open>A cleared slot: what \<^verbatim>\<open>take\<close> and \<^verbatim>\<open>release_unsubmitted\<close> leave before the generation
  is retired.\<close>

definition cleared_at :: "nat \<Rightarrow> operation_table \<Rightarrow> operation_table \<Rightarrow> bool" where
  "cleared_at i t c \<longleftrightarrow>
     ot_world c = ot_world t \<and> ot_max c = ot_max t \<and> ot_generations c = ot_generations t
     \<and> ot_free c = ot_free t
     \<and> ot_slots c = (ot_slots t)[i := None] \<and> ot_owners c = (ot_owners t)[i := None]
     \<and> ot_live c = ot_live t - 1
     \<and> ot_owner_index c = idx_remove (the (ot_owners t ! i)) (op_id_at t i) (ot_owner_index t)
     \<and> (case ot_slots t ! i of
          Some (OpPending p) \<Rightarrow>
            ot_pending c = ot_pending t - 1
            \<and> ot_pending_owners c = cnt_dec (po_owner p) (ot_pending_owners t)
            \<and> ot_target_index c = idx_remove (po_target p) (op_id_at t i) (ot_target_index t)
            \<and> ot_deadlines c = bs_remove (po_deadline p, i, ot_generations t ! i) (ot_deadlines t)
        | _ \<Rightarrow> ot_pending c = ot_pending t \<and> ot_pending_owners c = ot_pending_owners t
            \<and> ot_target_index c = ot_target_index t \<and> ot_deadlines c = ot_deadlines t)"

lemma cleared_at_fields:
  assumes "cleared_at i t c"
  shows "ot_world c = ot_world t" "ot_max c = ot_max t" "ot_generations c = ot_generations t"
    "ot_free c = ot_free t" "ot_slots c = (ot_slots t)[i := None]"
    "ot_owners c = (ot_owners t)[i := None]" "ot_live c = ot_live t - 1"
    "ot_owner_index c = idx_remove (the (ot_owners t ! i)) (op_id_at t i) (ot_owner_index t)"
  using assms by (simp_all add: cleared_at_def)

lemma cleared_at_indexes:
  assumes c: "cleared_at i t c" and base: "optable_base t" and i: "i < length (ot_slots t)"
    and a: "ot_owners t ! i = Some a"
  shows "optable_indexes c"
proof -
  note f = cleared_at_fields [OF c]
  have "i < length (ot_owners t)" using base i by (simp add: optable_base_def optable_shape_def)
  then have "owner_rel c = owner_rel t - {(a, op_id_at t i)}"
    using f a by (intro owner_rel_clear) simp_all
  moreover have "idx.mirrors (ot_target_index c) (target_rel c)"
    using base c target_rel_clear [of c t i None] f i
    by (auto simp: optable_base_def optable_indexes_def cleared_at_def idx.mirrors_rem
        split: option.splits op_entry.splits)
  ultimately show ?thesis
    using base a f by (simp add: optable_base_def optable_indexes_def idx.mirrors_rem)
qed

lemma cleared_at_counts:
  assumes c: "cleared_at i t c" and counts: "optable_counts t" and i: "i < length (ot_slots t)"
    and e: "ot_slots t ! i \<noteq> None"
  shows "optable_counts c"
proof -
  note f = cleared_at_fields [OF c]
  let ?own = "\<lambda>xs x. length (filter (owned_pending x) xs)"
  have ok: "counts_ok (ot_pending_owners t) (?own (ot_slots t))"
    using counts by (simp add: optable_counts_def)
  have "counts_ok (ot_pending_owners c) (?own ((ot_slots t)[i := None]))"
  proof (cases "\<exists>p. ot_slots t ! i = Some (OpPending p)")
    case True
    then obtain p where p: "ot_slots t ! i = Some (OpPending p)" by blast
    have "0 < ?own (ot_slots t) (po_owner p)" by (rule filter_nth_pos [OF i]) (simp add: p)
    then have "counts_ok (cnt_dec (po_owner p) (ot_pending_owners t)) (?own ((ot_slots t)[i := None]))"
      by (intro counts_ok_cong [OF counts_ok_dec [OF ok]]) (auto simp: owned_pending_count [OF i] p)
    with c p show ?thesis by (simp add: cleared_at_def)
  next
    case False
    then have "ot_pending_owners c = ot_pending_owners t" "\<And>x. \<not> owned_pending x (ot_slots t ! i)"
      using c by (auto simp: cleared_at_def split: option.splits op_entry.splits)
    then show ?thesis using ok by (simp add: owned_pending_count [OF i])
  qed
  moreover have "ot_pending c = ot_pending t - (if is_pending (ot_slots t ! i) then 1 else 0)"
    using c by (auto simp: cleared_at_def split: option.splits op_entry.splits)
  ultimately show ?thesis
    unfolding optable_counts_def using f clear_slot_counts [OF counts i e] by simp
qed

lemma cleared_at_retire:
  assumes c: "cleared_at i t c" and base: "optable_base t" and i: "i < length (ot_slots t)"
    and e: "ot_slots t ! i \<noteq> None"
  shows "optable_base (retire_generation i c)" "deadline_rel (retire_generation i c) = deadline_rel c"
proof -
  note f = cleared_at_fields [OF c]
  obtain a where a: "ot_owners t ! i = Some a" using base_owner_exists [OF base i e] by blast
  have parts: "optable_shape t" "optable_free t" "optable_owners t" "optable_counts t"
    using base by (simp_all add: optable_base_def)
  have shape: "optable_shape c" using parts(1) by (simp add: optable_shape_def f)
  have lo: "i < length (ot_owners t)" using parts(1) i by (simp add: optable_shape_def)
  have owners: "optable_owners c"
    using parts(3) i lo by (simp add: optable_owners_def f nth_list_update)
  note facts = shape owners cleared_at_counts [OF c parts(4) i e] cleared_at_indexes [OF c base i a]
  have free: "distinct (ot_free c)" "i \<notin> set (ot_free c)"
      "\<forall>j \<in> set (ot_free c). j < length (ot_slots c) \<and> ot_slots c ! j = None"
      "\<forall>j < length (ot_slots c). j \<noteq> i \<longrightarrow> ot_slots c ! j = None \<longrightarrow>
          j \<in> set (ot_free c) \<or> ot_generations c ! j = u64_max"
    using parts(2) e i by (auto simp: optable_free_def f nth_list_update)
  have i': "i < length (ot_slots c)" "ot_slots c ! i = None" using i by (simp_all add: f)
  show "optable_base (retire_generation i c)" "deadline_rel (retire_generation i c) = deadline_rel c"
    by (rule retire_generation_base [OF facts i' free])+
qed

lemma cleared_at_inv:
  assumes c: "cleared_at i t c" and inv: "optable_inv t" and i: "i < length (ot_slots t)"
    and e: "ot_slots t ! i \<noteq> None"
  shows "optable_inv (retire_generation i c)"
proof -
  have base: "optable_base t" and dl: "deadlines_without {} t" using inv by (simp_all add: optable_inv_def)
  have "deadlines_without {} c"
    using dl c deadline_rel_clear [of c t i None] cleared_at_fields [OF c] i
    by (auto simp: deadlines_without_def cleared_at_def split: option.splits op_entry.splits)
  then show ?thesis
    using cleared_at_retire [OF c base i e] by (simp add: optable_inv_def deadlines_without_def)
qed

lemma op_take_cases:
  assumes "optable_base t"
  obtains (unchanged) r where "op_take oid t = (t, r)" "\<And>out. r \<noteq> Inr (Some out)"
      "\<And>i out. op_locate t oid = Inr i \<Longrightarrow> ot_slots t ! i \<noteq> Some (OpTerminal out)"
  | (taken) i c out where "op_take oid t = (retire_generation i c, Inr (Some out))"
      "oid = op_id_at t i" "i < length (ot_slots t)" "ot_slots t ! i = Some (OpTerminal out)"
      "cleared_at i t c"
proof (cases "\<exists>i out. op_locate t oid = Inr i \<and> ot_slots t ! i = Some (OpTerminal out)")
  case True
  then obtain i out where i: "op_locate t oid = Inr i" and out: "ot_slots t ! i = Some (OpTerminal out)"
    by blast
  then have lt: "i < length (ot_slots t)" and oid: "oid = op_id_at t i" by (simp_all add: op_locate_Inr)
  obtain a where a: "ot_owners t ! i = Some a" using base_owner_exists [OF assms lt] out by auto
  show ?thesis
    by (rule taken [OF op_take_terminal [OF i out a] oid lt out]) (simp add: cleared_at_def out a oid)
next
  case False
  show ?thesis
  proof (rule unchanged [of "snd (op_take oid t)"])
    show "op_take oid t = (t, snd (op_take oid t))"
      using False by (auto simp: op_take_def split: sum.splits option.splits op_entry.splits)
    show "snd (op_take oid t) \<noteq> Inr (Some out)" for out
      using False by (auto simp: op_take_def split: sum.splits option.splits op_entry.splits)
  qed (use False in blast)
qed

lemma op_take_inv: "optable_inv t \<Longrightarrow> optable_inv (fst (op_take oid t))"
proof -
  assume inv: "optable_inv t"
  then have base: "optable_base t" by (simp add: optable_inv_def)
  show ?thesis
    by (cases rule: op_take_cases [OF base, of oid]) (auto simp: inv cleared_at_inv [OF _ inv])
qed

lemma op_release_cases:
  assumes "optable_base t"
  obtains (unchanged) r where "op_release_unsubmitted oid t = (t, r)" "r \<noteq> Inr True"
  | (released) i c p where "op_release_unsubmitted oid t = (retire_generation i c, Inr True)"
      "oid = op_id_at t i" "i < length (ot_slots t)" "ot_slots t ! i = Some (OpPending p)"
      "cleared_at i t c"
proof (cases "\<exists>i p. op_locate t oid = Inr i \<and> ot_slots t ! i = Some (OpPending p)")
  case True
  then obtain i p where i: "op_locate t oid = Inr i" and p: "ot_slots t ! i = Some (OpPending p)"
    by blast
  then have lt: "i < length (ot_slots t)" and oid: "oid = op_id_at t i" by (simp_all add: op_locate_Inr)
  have a: "ot_owners t ! i = Some (po_owner p)"
    using assms lt p by (simp add: optable_base_def optable_owners_def)
  show ?thesis
    by (rule released [OF op_release_pending [OF i p] oid lt p]) (simp add: cleared_at_def p a oid)
next
  case False
  show ?thesis
  proof (rule unchanged [of "snd (op_release_unsubmitted oid t)"])
    show "op_release_unsubmitted oid t = (t, snd (op_release_unsubmitted oid t))"
      "snd (op_release_unsubmitted oid t) \<noteq> Inr True"
      using False by (auto simp: op_release_unsubmitted_def split: sum.splits option.splits op_entry.splits)
  qed
qed

lemma op_release_inv: "optable_inv t \<Longrightarrow> optable_inv (fst (op_release_unsubmitted oid t))"
proof -
  assume inv: "optable_inv t"
  then have base: "optable_base t" by (simp add: optable_inv_def)
  show ?thesis
    by (cases rule: op_release_cases [OF base, of oid]) (auto simp: inv cleared_at_inv [OF _ inv])
qed

text \<open>\<^verbatim>\<open>reserve\<close>: the slot popped from the free stack, or pushed at the end, is empty and
  owned by nobody; filling it extends every index by one entry.\<close>

definition popped_at :: "nat \<Rightarrow> operation_table \<Rightarrow> bool" where
  "popped_at i t \<longleftrightarrow> optable_shape t \<and> optable_owners t \<and> optable_counts t \<and> optable_indexes t
     \<and> i < length (ot_slots t) \<and> ot_slots t ! i = None
     \<and> distinct (ot_free t) \<and> i \<notin> set (ot_free t)
     \<and> (\<forall>j \<in> set (ot_free t). j < length (ot_slots t) \<and> ot_slots t ! j = None)
     \<and> (\<forall>j < length (ot_slots t). j \<noteq> i \<longrightarrow> ot_slots t ! j = None \<longrightarrow>
          j \<in> set (ot_free t) \<or> ot_generations t ! j = u64_max)"

lemma op_pop_slot_reused:
  assumes base: "optable_base t" and free: "ot_free t = i # rest"
  shows "popped_at i (t\<lparr>ot_free := rest\<rparr>)"
proof -
  have "owner_rel (t\<lparr>ot_free := rest\<rparr>) = owner_rel t" "target_rel (t\<lparr>ot_free := rest\<rparr>) = target_rel t"
    by (simp_all add: owner_rel_def target_rel_def)
  moreover have parts: "optable_shape t" "optable_free t" "optable_owners t" "optable_counts t"
      "optable_indexes t"
    using base by (simp_all add: optable_base_def)
  moreover have "i \<notin> set rest" "distinct rest" "i < length (ot_slots t)" "ot_slots t ! i = None"
    using parts(2) free by (simp_all add: optable_free_def)
  moreover have "\<forall>j \<in> set rest. j < length (ot_slots t) \<and> ot_slots t ! j = None"
    using parts(2) free by (simp add: optable_free_def)
  moreover have "\<forall>j < length (ot_slots t). j \<noteq> i \<longrightarrow> ot_slots t ! j = None \<longrightarrow>
      j \<in> set rest \<or> ot_generations t ! j = u64_max"
    using parts(2) free by (auto simp: optable_free_def)
  ultimately show ?thesis
    by (simp add: popped_at_def optable_shape_def optable_owners_def optable_counts_def optable_indexes_def)
qed

lemma all_less_Suc_iff: "(\<forall>j < Suc n. P j) \<longleftrightarrow> (\<forall>j < n. P j) \<and> P n"
  using less_Suc_eq by auto

lemma op_pop_slot_fresh:
  assumes base: "optable_base t" and free: "ot_free t = []" and room: "length (ot_slots t) < ot_max t"
  defines "c \<equiv> t\<lparr>ot_slots := ot_slots t @ [None], ot_generations := ot_generations t @ [1],
            ot_owners := ot_owners t @ [None]\<rparr>"
  shows "popped_at (length (ot_slots t)) c" "deadline_rel c = deadline_rel t"
proof -
  have f: "ot_slots c = ot_slots t @ [None]" "ot_generations c = ot_generations t @ [1]"
    "ot_owners c = ot_owners t @ [None]" "ot_free c = []" "ot_world c = ot_world t" "ot_max c = ot_max t"
    "ot_live c = ot_live t" "ot_pending c = ot_pending t" "ot_pending_owners c = ot_pending_owners t"
    "ot_owner_index c = ot_owner_index t" "ot_target_index c = ot_target_index t"
    by (simp_all add: c_def free)
  have parts: "optable_shape t" "optable_free t" "optable_owners t" "optable_counts t" "optable_indexes t"
    using base by (simp_all add: optable_base_def)
  have lens: "length (ot_generations t) = length (ot_slots t)" "length (ot_owners t) = length (ot_slots t)"
    using parts(1) by (simp_all add: optable_shape_def)
  have "(a, oid) \<in> owner_rel c \<longleftrightarrow> (a, oid) \<in> owner_rel t" for a oid
    by (cases "op_slot oid < length (ot_slots t)")
      (auto simp: owner_rel_def f lens nth_append less_Suc_eq)
  moreover have "(a, oid) \<in> target_rel c \<longleftrightarrow> (a, oid) \<in> target_rel t" for a oid
    by (cases "op_slot oid < length (ot_slots t)")
      (auto simp: target_rel_def f lens nth_append less_Suc_eq)
  ultimately have rels: "owner_rel c = owner_rel t" "target_rel c = target_rel t" by auto
  have "(d, j, g) \<in> deadline_rel c \<longleftrightarrow> (d, j, g) \<in> deadline_rel t" for d j g
    by (cases "j < length (ot_slots t)") (auto simp: deadline_rel_def f lens nth_append less_Suc_eq)
  then show "deadline_rel c = deadline_rel t" by auto
  have shape: "optable_shape c"
    using parts(1) room by (simp add: optable_shape_def f all_less_Suc_iff nth_append u64_max_def)
  have owners: "optable_owners c"
    using parts(3) by (simp add: optable_owners_def f all_less_Suc_iff nth_append lens)
  have counts: "optable_counts c" using parts(4) by (simp add: optable_counts_def f)
  have indexes: "optable_indexes c" using parts(5) by (simp add: optable_indexes_def f rels)
  show "popped_at (length (ot_slots t)) c"
    using shape owners counts indexes parts(2)
    by (simp add: popped_at_def f optable_free_def free all_less_Suc_iff nth_append lens)
qed

lemma op_pop_slot_popped:
  assumes base: "optable_base t" and room: "\<not> (ot_free t = [] \<and> ot_max t \<le> length (ot_slots t))"
    and pop: "op_pop_slot t = (i, c)"
  shows "popped_at i c \<and> deadline_rel c = deadline_rel t \<and> ot_deadlines c = ot_deadlines t
     \<and> ot_world c = ot_world t \<and> ot_max c = ot_max t"
proof (cases "ot_free t")
  case Nil
  with room have "length (ot_slots t) < ot_max t" by simp
  from op_pop_slot_fresh [OF base Nil this] pop Nil show ?thesis by (auto simp: op_pop_slot_def)
next
  case (Cons j rest)
  with op_pop_slot_reused [OF base Cons] pop show ?thesis
    by (auto simp: op_pop_slot_def deadline_rel_def)
qed

definition filled_at :: "nat \<Rightarrow> pending_operation \<Rightarrow> operation_table \<Rightarrow> operation_table" where
  "filled_at i p t =
     t\<lparr>ot_slots := (ot_slots t)[i := Some (OpPending p)], ot_owners := (ot_owners t)[i := Some (po_owner p)],
       ot_pending_owners := cnt_inc (po_owner p) (ot_pending_owners t),
       ot_owner_index := idx_insert (po_owner p) (op_id_at t i) (ot_owner_index t),
       ot_target_index := idx_insert (po_target p) (op_id_at t i) (ot_target_index t),
       ot_deadlines := bs_insert (po_deadline p, i, ot_generations t ! i) (ot_deadlines t),
       ot_live := ot_live t + 1, ot_pending := ot_pending t + 1\<rparr>"

lemma filled_at_fields:
  "ot_slots (filled_at i p t) = (ot_slots t)[i := Some (OpPending p)]"
  "ot_owners (filled_at i p t) = (ot_owners t)[i := Some (po_owner p)]"
  "ot_pending_owners (filled_at i p t) = cnt_inc (po_owner p) (ot_pending_owners t)"
  "ot_owner_index (filled_at i p t) = idx_insert (po_owner p) (op_id_at t i) (ot_owner_index t)"
  "ot_target_index (filled_at i p t) = idx_insert (po_target p) (op_id_at t i) (ot_target_index t)"
  "ot_deadlines (filled_at i p t) = bs_insert (po_deadline p, i, ot_generations t ! i) (ot_deadlines t)"
  "ot_live (filled_at i p t) = ot_live t + 1" "ot_pending (filled_at i p t) = ot_pending t + 1"
  "ot_world (filled_at i p t) = ot_world t" "ot_max (filled_at i p t) = ot_max t"
  "ot_generations (filled_at i p t) = ot_generations t" "ot_free (filled_at i p t) = ot_free t"
  by (simp_all add: filled_at_def)

lemma filled_at_rels:
  assumes "popped_at i t"
  shows "owner_rel (filled_at i p t) = insert (po_owner p, op_id_at t i) (owner_rel t)"
    and "target_rel (filled_at i p t) = insert (po_target p, op_id_at t i) (target_rel t)"
    and "deadline_rel (filled_at i p t) = insert (po_deadline p, i, ot_generations t ! i) (deadline_rel t)"
proof -
  have i: "i < length (ot_slots t)" "i < length (ot_owners t)" "ot_slots t ! i = None"
      "ot_owners t ! i = None"
    using assms by (auto simp: popped_at_def optable_shape_def optable_owners_def)
  have "(a, oid) \<in> owner_rel (filled_at i p t) \<longleftrightarrow>
      (a, oid) = (po_owner p, op_id_at t i) \<or> (a, oid) \<in> owner_rel t" for a oid
    using i by (cases "op_slot oid = i") (auto simp: owner_rel_def filled_at_fields op_id_at_iff)
  then show "owner_rel (filled_at i p t) = insert (po_owner p, op_id_at t i) (owner_rel t)" by auto
  have "(a, oid) \<in> target_rel (filled_at i p t) \<longleftrightarrow>
      (a, oid) = (po_target p, op_id_at t i) \<or> (a, oid) \<in> target_rel t" for a oid
    using i by (cases "op_slot oid = i") (auto simp: target_rel_def filled_at_fields op_id_at_iff)
  then show "target_rel (filled_at i p t) = insert (po_target p, op_id_at t i) (target_rel t)" by auto
  have "(d, j, g) \<in> deadline_rel (filled_at i p t) \<longleftrightarrow>
      (d, j, g) = (po_deadline p, i, ot_generations t ! i) \<or> (d, j, g) \<in> deadline_rel t" for d j g
    using i by (cases "j = i") (auto simp: deadline_rel_def filled_at_fields)
  then show "deadline_rel (filled_at i p t) = insert (po_deadline p, i, ot_generations t ! i) (deadline_rel t)"
    by auto
qed

lemma filled_at_base:
  assumes t: "popped_at i t" and w: "ar_world (po_owner p) = ot_world t" "ar_world (po_target p) = ot_world t"
  shows "optable_base (filled_at i p t)"
proof -
  let ?t = "filled_at i p t"
  note f = filled_at_fields [of i p t]
  have parts: "optable_shape t" "optable_owners t" "optable_counts t" "optable_indexes t"
    and i: "i < length (ot_slots t)" and e: "ot_slots t ! i = None"
    using t by (simp_all add: popped_at_def)
  have io: "i < length (ot_owners t)" using parts(1) i by (simp add: optable_shape_def)
  have shape: "optable_shape ?t" using parts(1) by (simp add: optable_shape_def f)
  have owners: "optable_owners ?t"
    using parts(2) i io w by (auto simp: optable_owners_def f nth_list_update)
  have free: "optable_free ?t"
    using t i by (auto simp: optable_free_def popped_at_def f nth_list_update)
  have indexes: "optable_indexes ?t"
    using parts(4) by (simp add: optable_indexes_def f filled_at_rels [OF t] idx.mirrors_ins)
  have "counts_ok (ot_pending_owners ?t) (\<lambda>a. length (filter (owned_pending a) (ot_slots ?t)))"
    unfolding f using parts(3)
    by (intro counts_ok_cong [OF counts_ok_inc [where f = "\<lambda>a. length (filter (owned_pending a) (ot_slots t))"]])
      (auto simp: optable_counts_def owned_pending_count [OF i] e)
  then have counts: "optable_counts ?t"
    using parts(3) length_filter_update [OF i, of "\<lambda>e. e \<noteq> None" "Some (OpPending p)"]
      length_filter_update [OF i, of is_pending "Some (OpPending p)"] e
    by (simp add: optable_counts_def f)
  show ?thesis using shape owners free indexes counts by (simp add: optable_base_def)
qed

lemma op_reserve_cases:
  obtains (refused) e where "op_reserve owner target deadline t = (t, Inl e)"
      "e = CrossWorld \<or> e = LimitExceeded"
  | (reserved) i c p where "op_reserve owner target deadline t = (filled_at i p c, Inr (op_id_at c i))"
      "op_pop_slot t = (i, c)" "ar_world owner = ot_world t" "ar_world target = ot_world t"
      "ot_live t < ot_max t" "\<not> (ot_free t = [] \<and> ot_max t \<le> length (ot_slots t))"
      "p = \<lparr>po_owner = owner, po_target = target, po_deadline = deadline, po_context = None\<rparr>"
proof -
  obtain i c where pop: "op_pop_slot t = (i, c)" by fastforce
  let ?p = "\<lparr>po_owner = owner, po_target = target, po_deadline = deadline, po_context = None\<rparr>"
  show ?thesis
  proof (cases "ar_world owner \<noteq> ot_world t \<or> ar_world target \<noteq> ot_world t \<or> ot_live t \<ge> ot_max t
      \<or> ot_free t = [] \<and> length (ot_slots t) \<ge> ot_max t")
    case True
    then have "op_reserve owner target deadline t = (t, Inl CrossWorld)
        \<or> op_reserve owner target deadline t = (t, Inl LimitExceeded)"
      unfolding op_reserve_def by argo
    then show ?thesis using refused by blast
  next
    case False
    then have "op_reserve owner target deadline t = (filled_at i ?p c, Inr (op_id_at c i))"
      using pop by (simp add: op_reserve_def index_pending_def filled_at_def Let_def)
    from reserved [OF this pop] False show ?thesis by simp
  qed
qed

lemma op_reserve_inv: "optable_inv t \<Longrightarrow> optable_inv (fst (op_reserve owner target deadline t))"
proof -
  assume inv: "optable_inv t"
  then have base: "optable_base t" and dl: "deadlines_without {} t" by (simp_all add: optable_inv_def)
  show ?thesis
  proof (cases rule: op_reserve_cases [of owner target deadline t])
    case (reserved i c p)
    from op_pop_slot_popped [OF base reserved(6,2)]
    have c: "popped_at i c" "deadline_rel c = deadline_rel t" "ot_deadlines c = ot_deadlines t"
      "ot_world c = ot_world t" by simp_all
    have "optable_base (filled_at i p c)" using reserved c(4) by (intro filled_at_base [OF c(1)]) simp_all
    moreover have "deadlines_without {} (filled_at i p c)"
      using dl by (simp add: deadlines_without_def filled_at_fields filled_at_rels [OF c(1)] c)
    ultimately show ?thesis by (simp add: reserved(1) optable_inv_def)
  qed (simp add: inv)
qed

text \<open>\<^verbatim>\<open>set_context\<close> rewrites one pending slot and nothing the indexes depend on.\<close>

lemma op_set_context_cases:
  obtains (unchanged) r where "op_set_context oid ctx t = (t, r)" "r \<noteq> Inr ()"
  | (stored) i p where "op_set_context oid ctx t =
        (t\<lparr>ot_slots := (ot_slots t)[i := Some (OpPending (p\<lparr>po_context := Some ctx\<rparr>))]\<rparr>, Inr ())"
      "op_locate t oid = Inr i" "ot_slots t ! i = Some (OpPending p)" "po_context p = None"
proof (cases "\<exists>i p. hp_world ctx = ot_world t \<and> op_locate t oid = Inr i
    \<and> ot_slots t ! i = Some (OpPending p) \<and> po_context p = None")
  case True
  then show ?thesis using stored by (auto simp: op_set_context_def)
next
  case False
  show ?thesis
  proof (rule unchanged [of "snd (op_set_context oid ctx t)"])
    show "op_set_context oid ctx t = (t, snd (op_set_context oid ctx t))"
      "snd (op_set_context oid ctx t) \<noteq> Inr ()"
      using False by (auto simp: op_set_context_def split: sum.splits option.splits op_entry.splits)
  qed
qed

lemma same_slots_inv:
  assumes inv: "optable_inv t" and i: "i < length (ot_slots t)"
    and p: "ot_slots t ! i = Some (OpPending p)"
    and q: "po_owner q = po_owner p" "po_target q = po_target p" "po_deadline q = po_deadline p"
  shows "optable_inv (t\<lparr>ot_slots := (ot_slots t)[i := Some (OpPending q)]\<rparr>)"
proof -
  define c where "c = t\<lparr>ot_slots := (ot_slots t)[i := Some (OpPending q)]\<rparr>"
  have f: "ot_slots c = (ot_slots t)[i := Some (OpPending q)]" "ot_generations c = ot_generations t"
    "ot_owners c = ot_owners t" "ot_free c = ot_free t" "ot_world c = ot_world t" "ot_max c = ot_max t"
    "ot_live c = ot_live t" "ot_pending c = ot_pending t" "ot_pending_owners c = ot_pending_owners t"
    "ot_owner_index c = ot_owner_index t" "ot_target_index c = ot_target_index t"
    "ot_deadlines c = ot_deadlines t"
    by (simp_all add: c_def)
  have parts: "optable_shape t" "optable_free t" "optable_owners t" "optable_counts t" "optable_indexes t"
      "deadlines_without {} t"
    using inv by (simp_all add: optable_inv_def optable_base_def)
  have "owner_rel c = owner_rel t" by (simp add: owner_rel_def f)
  moreover have "target_rel c = target_rel t"
    using i p q by (auto simp: target_rel_def f nth_list_update split: if_splits)
  moreover have "deadline_rel c = deadline_rel t"
    using i p q by (auto simp: deadline_rel_def f nth_list_update split: if_splits)
  moreover have "optable_shape c" using parts(1) by (simp add: optable_shape_def f)
  moreover have "optable_free c" using parts(2) i p by (auto simp: optable_free_def f nth_list_update)
  moreover have "optable_owners c" using parts(3) i p q by (auto simp: optable_owners_def f nth_list_update)
  moreover have "optable_counts c"
    using parts(4) length_filter_update [OF i, of "\<lambda>e. e \<noteq> None" "Some (OpPending q)"]
      length_filter_update [OF i, of is_pending "Some (OpPending q)"] p q
    by (simp add: optable_counts_def f owned_pending_count [OF i])
  ultimately show ?thesis
    using parts(5,6) unfolding c_def [symmetric]
    by (simp add: optable_inv_def optable_base_def optable_indexes_def deadlines_without_def f)
qed

lemma op_set_context_inv: "optable_inv t \<Longrightarrow> optable_inv (fst (op_set_context oid ctx t))"
  by (cases rule: op_set_context_cases [of oid ctx t])
    (auto simp: op_locate_Inr intro!: same_slots_inv)

lemma transition_ids_inv: "optable_inv t \<Longrightarrow> optable_inv (fst (transition_ids ids outcome t))"
  by (induction ids arbitrary: t) (simp_all add: case_prod_beta Let_def op_complete_inv)

lemma retire_ids_inv: "optable_inv t \<Longrightarrow> optable_inv (fst (retire_ids ids t))"
  by (induction ids arbitrary: t) (simp_all add: case_prod_beta Let_def op_complete_inv op_take_inv)

lemma op_expire_one_inv: "optable_inv t \<Longrightarrow> optable_inv (fst (op_expire_one oid now t))"
  by (auto simp: op_expire_one_def dest: op_complete_inv split: sum.splits option.splits op_entry.splits)

section \<open>Expiry\<close>

text \<open>Expiry by full scan: the identifiers of the pending slots whose deadline has passed.\<close>

definition due_ids :: "instant \<Rightarrow> operation_table \<Rightarrow> operation_id list" where
  "due_ids now t =
     map (op_id_at t)
       (filter (\<lambda>i. case ot_slots t ! i of Some (OpPending p) \<Rightarrow> po_deadline p \<le> now | _ \<Rightarrow> False)
          [0..<length (ot_slots t)])"

lemma due_ids_iff:
  "oid \<in> set (due_ids now t) \<longleftrightarrow>
     op_world oid = ot_world t \<and> op_slot oid < length (ot_slots t)
     \<and> op_generation oid = ot_generations t ! op_slot oid
     \<and> (\<exists>p. ot_slots t ! op_slot oid = Some (OpPending p) \<and> po_deadline p \<le> now)"
proof -
  have "(case e of Some (OpPending p) \<Rightarrow> po_deadline p \<le> now | _ \<Rightarrow> False) \<longleftrightarrow>
      (\<exists>p. e = Some (OpPending p) \<and> po_deadline p \<le> now)" for e
    by (auto split: option.splits op_entry.splits)
  then have "oid \<in> set (due_ids now t) \<longleftrightarrow> (\<exists>i < length (ot_slots t). oid = op_id_at t i
      \<and> (\<exists>p. ot_slots t ! i = Some (OpPending p) \<and> po_deadline p \<le> now))"
    by (auto simp: due_ids_def)
  then show ?thesis by (auto simp: op_id_at_iff)
qed

lemma pop_due_eq:
  "pop_due t now xs =
     (filter (\<lambda>oid. is_ok (op_locate t oid))
        (map (\<lambda>(d, i, g). OperationId (ot_world t) i g) (takeWhile (\<lambda>(d, i, g). d \<le> now) xs)),
      dropWhile (\<lambda>(d, i, g). d \<le> now) xs)"
  by (induction t now xs rule: pop_due.induct) (auto simp: Let_def split: prod.splits)

lemma deadline_rel_iff:
  "(d, i, g) \<in> deadline_rel t \<longleftrightarrow> i < length (ot_slots t) \<and> g = ot_generations t ! i
     \<and> (\<exists>p. ot_slots t ! i = Some (OpPending p) \<and> d = po_deadline p)"
  by (simp add: deadline_rel_def)

lemma pop_due_inv:
  assumes inv: "optable_inv t" and pop: "pop_due t now (ot_deadlines t) = (ids, rest)"
  shows "set ids = set (due_ids now t)" "distinct ids"
    "set rest = {(d, i, g) \<in> deadline_rel t. now < d}" "bset rest"
proof -
  have dl: "bset (ot_deadlines t)" "set (ot_deadlines t) = deadline_rel t"
    using inv by (simp_all add: optable_inv_def deadlines_without_def)
  let ?P = "\<lambda>(d, i::nat, g::nat). d \<le> now"
  have down: "x \<le> y \<Longrightarrow> ?P y \<Longrightarrow> ?P x" for x y by (auto simp: less_eq_prod_def)
  note tw = bset_takeWhile [of _ ?P, OF dl(1) down] and dw = bset_dropWhile [of _ ?P, OF dl(1) down]
  have ids: "ids = filter (\<lambda>oid. is_ok (op_locate t oid))
        (map (\<lambda>(d, i, g). OperationId (ot_world t) i g) (filter ?P (ot_deadlines t)))"
    and rest: "rest = filter (\<lambda>x. \<not> ?P x) (ot_deadlines t)"
    using pop by (simp_all add: pop_due_eq tw dw)
  show "bset rest" "set rest = {(d, i, g) \<in> deadline_rel t. now < d}"
    using dl by (auto simp: rest)
  show "distinct ids"
    unfolding ids using bset_distinct [OF dl(1)] dl(2)
    by (intro distinct_filter) (auto simp: distinct_map inj_on_def deadline_rel_iff)
  have "oid \<in> set ids \<longleftrightarrow> oid \<in> set (due_ids now t)" for oid
  proof -
    have "oid \<in> set ids \<longleftrightarrow> is_ok (op_locate t oid) \<and> op_world oid = ot_world t
        \<and> (\<exists>d \<le> now. (d, op_slot oid, op_generation oid) \<in> deadline_rel t)"
      using dl(2) by (cases oid) (auto simp: ids image_iff)
    also have "\<dots> \<longleftrightarrow> oid \<in> set (due_ids now t)"
      by (cases oid) (auto simp: due_ids_iff deadline_rel_iff op_locate_def Let_def)
    finally show ?thesis .
  qed
  then show "set ids = set (due_ids now t)" by blast
qed

lemma complete_at_fields [simp]:
  "ot_slots (complete_at i p outcome t) = (ot_slots t)[i := Some (OpTerminal (normalize_outcome outcome))]"
  "ot_generations (complete_at i p outcome t) = ot_generations t"
  "ot_owners (complete_at i p outcome t) = ot_owners t"
  "ot_world (complete_at i p outcome t) = ot_world t"
  "ot_max (complete_at i p outcome t) = ot_max t"
  "op_id_at (complete_at i p outcome t) j = op_id_at t j"
  "ot_free (complete_at i p outcome t) = ot_free t"
  by (simp_all add: complete_at_def op_id_at_def)

definition timed_out :: "operation_id list \<Rightarrow> operation_table \<Rightarrow> operation_table \<Rightarrow> bool" where
  "timed_out ids t t' \<longleftrightarrow> ot_world t' = ot_world t \<and> ot_generations t' = ot_generations t
     \<and> ot_owners t' = ot_owners t \<and> ot_free t' = ot_free t \<and> length (ot_slots t') = length (ot_slots t)
     \<and> (\<forall>i < length (ot_slots t). ot_slots t' ! i =
          (if op_id_at t i \<in> set ids then Some (OpTerminal TimedOut) else ot_slots t ! i))"

lemma expire_each_timed_out:
  assumes "distinct ids" "optable_base t" "deadlines_without E t"
    and "\<And>oid. oid \<in> set ids \<Longrightarrow> \<exists>i p. oid = op_id_at t i \<and> i < length (ot_slots t)
          \<and> ot_slots t ! i = Some (OpPending p)"
  shows "\<exists>t'. expire_each ids t = Some t' \<and> optable_base t' \<and> deadlines_without E t' \<and> timed_out ids t t'"
  using assms
proof (induction ids arbitrary: t)
  case (Cons oid ids)
  obtain i p where oid: "oid = op_id_at t i" and i: "i < length (ot_slots t)"
    and p: "ot_slots t ! i = Some (OpPending p)"
    using Cons.prems(4) [of oid] by auto
  let ?c = "complete_at i p TimedOut t"
  have "op_locate t oid = Inr i" by (simp add: op_locate_Inr oid i p)
  then have c: "op_complete oid TimedOut t = (?c, Inr True)" by (simp add: op_complete_pending p)
  have "\<exists>j q. x = op_id_at ?c j \<and> j < length (ot_slots ?c) \<and> ot_slots ?c ! j = Some (OpPending q)"
    if mem: "x \<in> set ids" for x
  proof -
    obtain j q where "x = op_id_at t j" "j < length (ot_slots t)" "ot_slots t ! j = Some (OpPending q)"
      using Cons.prems(4) [of x] mem by auto
    moreover have "j \<noteq> i" using Cons.prems(1) mem calculation oid by auto
    ultimately show ?thesis by simp
  qed
  from Cons.IH [OF _ complete_at_base [OF Cons.prems(2) i p]
      complete_at_deadlines [OF Cons.prems(3) i p] this] Cons.prems(1)
  obtain t' where t': "expire_each ids ?c = Some t'" "optable_base t'" "deadlines_without E t'"
      "timed_out ids ?c t'" by auto
  moreover have "timed_out (oid # ids) t t'"
    using t'(4) Cons.prems(1) by (auto simp: timed_out_def oid nth_list_update)
  ultimately show ?case by (simp add: c)
qed (simp add: timed_out_def)

lemma op_expire_ids_spec:
  assumes inv: "optable_inv t"
  shows "\<exists>t'. op_expire_ids now t = Some (t', due_ids now t) \<and> optable_inv t'
     \<and> timed_out (due_ids now t) t t'"
proof -
  obtain ids rest where pop: "pop_due t now (ot_deadlines t) = (ids, rest)" by fastforce
  note facts = pop_due_inv [OF inv pop]
  let ?t = "t\<lparr>ot_deadlines := rest\<rparr>" and ?E = "{(d, i, g) \<in> deadline_rel t. d \<le> now}"
  have base: "optable_base ?t"
    using inv by (simp add: optable_inv_def optable_parts owner_rel_def target_rel_def)
  have "deadline_rel ?t = deadline_rel t" by (simp add: deadline_rel_def)
  then have "deadlines_without ?E ?t" using facts(3,4) by (auto simp: deadlines_without_def)
  moreover have "\<exists>i p. oid = op_id_at ?t i \<and> i < length (ot_slots ?t)
      \<and> ot_slots ?t ! i = Some (OpPending p)" if "oid \<in> set ids" for oid
    using that unfolding facts(1) by (auto simp: due_ids_iff op_id_at_iff)
  ultimately obtain t' where t': "expire_each ids ?t = Some t'" "optable_base t'" "deadlines_without ?E t'"
      "timed_out ids ?t t'"
    using expire_each_timed_out [OF facts(2) base, of ?E] by blast
  have tm: "timed_out (due_ids now t) t t'"
    using t'(4) facts(1) by (simp add: timed_out_def op_id_at_def)
  have "deadline_rel t' \<inter> ?E = {}"
    using tm by (auto simp: deadline_rel_iff timed_out_def due_ids_iff split: if_splits)
  then have "deadlines_without {} t'" using t'(3) by (auto simp: deadlines_without_def)
  moreover have "sort_key slot_key ids = due_ids now t"
  proof (rule map_sorted_distinct_set_unique [of slot_key])
    show "inj_on slot_key (set (sort_key slot_key ids) \<union> set (due_ids now t))"
      unfolding set_sort facts(1) by (auto simp: inj_on_def slot_key_def due_ids_iff operation_id.expand)
    have "sorted_wrt (<) (map slot_key (due_ids now t))"
      unfolding due_ids_def map_map sorted_wrt_map
      by (intro sorted_wrt_filter sorted_wrt_mono_rel [OF _ sorted_wrt_upt]) (simp add: slot_key_def)
    then show "sorted (map slot_key (due_ids now t))" "distinct (map slot_key (due_ids now t))"
      by (simp_all add: strict_sorted_iff)
    show "distinct (map slot_key (sort_key slot_key ids))"
      using facts(2) unfolding distinct_map set_sort facts(1)
      by (auto simp: inj_on_def slot_key_def due_ids_iff operation_id.expand)
  qed (simp_all add: facts(1))
  ultimately show ?thesis
    using pop t' tm by (simp add: op_expire_ids_def optable_inv_def)
qed

section \<open>Retired identifiers\<close>

text \<open>A retired identifier: its slot moved on to a later generation, or was emptied at the last
  generation and left out of the free stack. \<open>op_settled out\<close>: the identifier holds the outcome
  \<open>out\<close>, or it did and is retired.\<close>

definition op_dead :: "operation_id \<Rightarrow> operation_table \<Rightarrow> bool" where
  "op_dead oid t \<longleftrightarrow> op_world oid = ot_world t \<and> op_slot oid < length (ot_slots t)
     \<and> (op_generation oid < ot_generations t ! op_slot oid
        \<or> op_generation oid = ot_generations t ! op_slot oid \<and> ot_slots t ! op_slot oid = None
          \<and> op_slot oid \<notin> set (ot_free t))"

definition op_settled :: "operation_id \<Rightarrow> terminal_outcome \<Rightarrow> operation_table \<Rightarrow> bool" where
  "op_settled oid out t \<longleftrightarrow> op_dead oid t \<or> op_status t oid = Inr (OpTerminal out)"

lemma op_status_iff:
  "op_status t oid = Inr e \<longleftrightarrow> op_world oid = ot_world t \<and> op_slot oid < length (ot_slots t)
     \<and> op_generation oid = ot_generations t ! op_slot oid \<and> ot_slots t ! op_slot oid = Some e"
  by (cases oid)
    (auto simp: op_status_def op_locate_def Let_def split: option.splits if_splits)

lemma op_dead_stale: "op_dead oid t \<Longrightarrow> op_status t oid = Inl StaleReference"
  by (auto simp: op_dead_def op_status_def op_locate_def Let_def)

lemma op_dead_complete: "op_dead oid t \<Longrightarrow> op_dead oid (fst (op_complete oid' outcome t))"
  by (cases rule: op_complete_cases [of oid' outcome t])
    (auto simp: op_dead_def complete_at_def nth_list_update)

lemma op_settled_complete:
  "op_settled oid out t \<Longrightarrow> op_settled oid out (fst (op_complete oid' outcome t))"
  using op_dead_complete [of oid t oid' outcome]
  by (cases rule: op_complete_cases [of oid' outcome t])
    (auto simp: op_settled_def op_status_iff nth_list_update)

lemma op_dead_retire_other:
  assumes c: "cleared_at i t c" and base: "optable_base t" and i: "i < length (ot_slots t)"
    and e: "ot_slots t ! i \<noteq> None"
  shows "op_dead oid t \<Longrightarrow> op_dead oid (retire_generation i c)"
    and "op_dead (op_id_at t i) (retire_generation i c)"
    and "op_slot oid \<noteq> i \<Longrightarrow> op_status (retire_generation i c) oid = Inr x \<longleftrightarrow> op_status t oid = Inr x"
proof -
  have len: "length (ot_generations t) = length (ot_slots t)"
    using base by (simp add: optable_base_def optable_shape_def)
  have free: "i \<notin> set (ot_free t)" using base e by (auto simp: optable_base_def optable_free_def)
  note f = cleared_at_fields [OF c] retire_generation_gens
  show "op_dead oid t \<Longrightarrow> op_dead oid (retire_generation i c)"
    using i e len by (auto simp: op_dead_def f nth_list_update)
  show "op_dead (op_id_at t i) (retire_generation i c)"
    using i len free by (auto simp: op_dead_def f)
  show "op_slot oid \<noteq> i \<Longrightarrow> op_status (retire_generation i c) oid = Inr x \<longleftrightarrow> op_status t oid = Inr x"
    using i by (auto simp: op_status_iff f)
qed

lemma op_settled_retire:
  assumes c: "cleared_at i t c" and base: "optable_base t" and i: "i < length (ot_slots t)"
    and e: "ot_slots t ! i \<noteq> None" and s: "op_settled oid out t"
  shows "op_settled oid out (retire_generation i c)"
proof (cases "op_slot oid = i")
  case True
  then have "op_dead oid t \<or> oid = op_id_at t i"
    using s by (auto simp: op_settled_def op_status_iff op_id_at_iff)
  then show ?thesis using op_dead_retire_other [OF c base i e] by (auto simp: op_settled_def)
next
  case False
  then show ?thesis
    using s op_dead_retire_other [OF c base i e] by (auto simp: op_settled_def)
qed

lemma op_settled_take:
  assumes "optable_base t" "op_settled oid out t"
  shows "op_settled oid out (fst (op_take oid' t))"
  using assms by (cases rule: op_take_cases [OF assms(1), of oid']) (auto intro: op_settled_retire)

lemma op_settled_release:
  assumes "optable_base t" "op_settled oid out t"
  shows "op_settled oid out (fst (op_release_unsubmitted oid' t))"
  using assms by (cases rule: op_release_cases [OF assms(1), of oid']) (auto intro: op_settled_retire)

lemma op_settled_set_context:
  "op_settled oid out t \<Longrightarrow> op_settled oid out (fst (op_set_context oid' ctx t))"
  by (cases rule: op_set_context_cases [of oid' ctx t])
    (auto simp: op_settled_def op_dead_def op_status_iff op_locate_Inr nth_list_update)

lemma op_pop_slot_status:
  assumes "optable_base t" "op_pop_slot t = (i, c)"
  shows "op_status t oid = Inr x \<Longrightarrow> op_status c oid = Inr x \<and> op_slot oid \<noteq> i"
    and "op_dead oid t \<Longrightarrow> op_dead oid (filled_at i p c)"
proof -
  have "length (ot_generations t) = length (ot_slots t)"
    and free: "\<forall>j \<in> set (ot_free t). ot_slots t ! j = None" "distinct (ot_free t)"
    using assms(1) by (auto simp: optable_base_def optable_shape_def optable_free_def)
  then show "op_status t oid = Inr x \<Longrightarrow> op_status c oid = Inr x \<and> op_slot oid \<noteq> i"
    and "op_dead oid t \<Longrightarrow> op_dead oid (filled_at i p c)"
    using assms(2)
    by (auto simp: op_pop_slot_def op_status_iff op_dead_def filled_at_fields nth_append nth_list_update
        split: list.splits)
qed

lemma op_settled_reserve:
  assumes base: "optable_base t" and s: "op_settled oid out t"
  shows "op_settled oid out (fst (op_reserve owner target deadline t))"
proof (cases rule: op_reserve_cases [of owner target deadline t])
  case (reserved i c p)
  have "op_status t oid = Inr x \<Longrightarrow> op_status (filled_at i p c) oid = Inr x" for x
    using op_pop_slot_status(1) [OF base reserved(2), of oid x]
    by (auto simp: op_status_iff filled_at_fields)
  then show ?thesis
    using s op_pop_slot_status(2) [OF base reserved(2), of oid p] by (auto simp: reserved(1) op_settled_def)
qed (simp add: s)

lemma op_settled_transition:
  "op_settled oid out t \<Longrightarrow> op_settled oid out (fst (transition_ids ids outcome t))"
  by (induction ids arbitrary: t) (simp_all add: case_prod_beta Let_def op_settled_complete)

lemma op_settled_retire_ids:
  "optable_base t \<Longrightarrow> op_settled oid out t \<Longrightarrow> op_settled oid out (fst (retire_ids ids t)) "
proof (induction ids arbitrary: t)
  case (Cons x ids)
  let ?t = "fst (op_complete x OwnerStopped t)"
  have base: "optable_base ?t" by (rule op_complete_base [OF Cons.prems(1)])
  have "optable_base (fst (op_take x ?t))"
    by (cases rule: op_take_cases [OF base, of x]) (auto simp: base cleared_at_retire)
  then show ?case
    using Cons by (simp add: case_prod_beta Let_def op_settled_complete op_settled_take base)
qed simp

lemma op_settled_timed_out:
  assumes "timed_out (due_ids now t) t t'" "op_settled oid out t"
  shows "op_settled oid out t'"
proof -
  have "ot_slots t' ! i = ot_slots t ! i" if "i < length (ot_slots t)" "\<not> is_pending (ot_slots t ! i)" for i
    using assms(1) that by (auto simp: timed_out_def due_ids_iff)
  with assms show ?thesis
    by (auto simp: op_settled_def op_dead_def op_status_iff timed_out_def)
qed

section \<open>Every sequence of operations\<close>

inductive op_step :: "operation_table \<Rightarrow> operation_table \<Rightarrow> bool" where
  step_reserve: "op_step t (fst (op_reserve owner target deadline t))"
| step_set_context: "op_step t (fst (op_set_context oid ctx t))"
| step_complete: "op_step t (fst (op_complete oid outcome t))"
| step_take: "op_step t (fst (op_take oid t))"
| step_release: "op_step t (fst (op_release_unsubmitted oid t))"
| step_retire_owner: "op_step t (fst (op_retire_owner owner t))"
| step_cancel_owner: "op_step t (fst (op_cancel_owner owner t))"
| step_stop_target: "op_step t (fst (op_stop_target target t))"
| step_expire: "op_expire_ids now t = Some (t', ids) \<Longrightarrow> op_step t t'"
| step_expire_one: "op_step t (fst (op_expire_one oid now t))"

definition op_initial :: "operation_table \<Rightarrow> bool" where
  "op_initial t \<longleftrightarrow> (\<exists>world_id max_operations. optable_new world_id max_operations = Inr t)"

lemma op_initial_inv: "op_initial t \<Longrightarrow> optable_inv t"
  by (auto simp: op_initial_def optable_new_def optable_inv_def optable_parts deadlines_without_def
      owner_rel_def target_rel_def deadline_rel_def idx.mirrors_empty split: if_splits)

lemma op_step_inv: "op_step t t' \<Longrightarrow> optable_inv t \<Longrightarrow> optable_inv t'"
proof (induction rule: op_step.induct)
  case (step_expire now t t' ids)
  then show ?case using op_expire_ids_spec [of t now] by auto
qed (simp_all add: op_reserve_inv op_set_context_inv op_complete_inv op_take_inv op_release_inv
      op_retire_owner_def retire_ids_inv op_cancel_owner_def op_stop_target_def transition_ids_inv
      op_expire_one_inv)

interpretation ops: invariant_system op_initial op_step optable_inv
  by unfold_locales (auto intro: op_initial_inv op_step_inv)

lemma op_step_settled:
  "op_step t t' \<Longrightarrow> optable_inv t \<Longrightarrow> op_settled oid out t \<Longrightarrow> op_settled oid out t'"
proof (induction rule: op_step.induct)
  case (step_expire now t t' ids)
  then show ?case
    using op_expire_ids_spec [of t now] by (auto intro: op_settled_timed_out)
next
  case (step_expire_one t oid' now)
  then show ?case
    by (auto simp: op_expire_one_def op_settled_complete split: sum.splits option.splits op_entry.splits)
qed (simp_all add: optable_inv_def op_settled_reserve op_settled_set_context op_settled_complete
      op_settled_take op_settled_release op_retire_owner_def op_settled_retire_ids op_cancel_owner_def
      op_stop_target_def op_settled_transition)

lemma op_steps_settled:
  "op_step\<^sup>*\<^sup>* t t' \<Longrightarrow> optable_inv t \<Longrightarrow> op_settled oid out t \<Longrightarrow> op_settled oid out t'"
  by (induction rule: rtranclp_induct) (auto intro: op_step_settled ops.steps_invar)

lemma op_dead_settled: "op_dead oid t \<longleftrightarrow> (\<forall>out. op_settled oid out t)"
proof
  assume "\<forall>out. op_settled oid out t"
  then have "op_settled oid TimedOut t" "op_settled oid Cancelled t" by blast+
  then show "op_dead oid t" by (auto simp: op_settled_def)
qed (simp add: op_settled_def)

lemma op_steps_dead: "op_step\<^sup>*\<^sup>* t t' \<Longrightarrow> optable_inv t \<Longrightarrow> op_dead oid t \<Longrightarrow> op_dead oid t'"
  unfolding op_dead_settled by (blast intro: op_steps_settled)

section \<open>Properties\<close>

fun targeted_pending :: "actor_ref \<Rightarrow> op_entry option \<Rightarrow> bool" where
  "targeted_pending a (Some (OpPending p)) = (po_target p = a)"
| "targeted_pending a _ = False"

lemma targeted_pending_iff: "targeted_pending a e \<longleftrightarrow> (\<exists>p. e = Some (OpPending p) \<and> a = po_target p)"
  by (cases "(a, e)" rule: targeted_pending.cases) auto

lemma is_pending_iff: "is_pending e \<longleftrightarrow> (\<exists>p. e = Some (OpPending p))"
  by (cases e rule: is_pending.cases) auto

text \<open>Counting identifiers is counting slots.\<close>

lemma card_ids:
  fixes t :: operation_table
  shows "card {oid. op_world oid = ot_world t \<and> op_slot oid < length xs
       \<and> op_generation oid = ot_generations t ! op_slot oid \<and> P (xs ! op_slot oid)}
   = length (filter P xs)"
proof -
  have "{oid. op_world oid = ot_world t \<and> op_slot oid < length xs
       \<and> op_generation oid = ot_generations t ! op_slot oid \<and> P (xs ! op_slot oid)}
      = op_id_at t ` {i. i < length xs \<and> P (xs ! i)}"
    by (auto simp: image_iff op_id_at_iff)
  moreover have "inj_on (op_id_at t) A" for A by (simp add: inj_on_def)
  ultimately show ?thesis by (simp add: card_image length_filter_conv_card)
qed

lemma op_pending_for_target_scan:
  assumes "optable_inv t"
  shows "op_pending_for_target t a = length (filter (targeted_pending a) (ot_slots t))"
proof -
  have "idx.mirrors (ot_target_index t) (target_rel t)"
    using assms by (simp add: optable_inv_def optable_base_def optable_indexes_def)
  then have "op_pending_for_target t a = card {oid. (a, oid) \<in> target_rel t}"
    by (simp add: op_pending_for_target_def idx.mirrors_length)
  then show ?thesis
    using card_ids [of t "ot_slots t" "targeted_pending a"]
    by (simp add: target_rel_def targeted_pending_iff)
qed

lemma terminal_scan:
  "length (filter (\<lambda>e. e \<noteq> None) xs) - length (filter is_pending xs) =
     length (filter (\<lambda>e. e \<noteq> None \<and> \<not> is_pending e) xs)"
proof -
  have "length (filter (\<lambda>e. e \<noteq> None) xs) =
      length (filter is_pending xs) + length (filter (\<lambda>e. e \<noteq> None \<and> \<not> is_pending e) xs)"
    by (induction xs) (auto simp: is_pending_iff)
  then show ?thesis by simp
qed

text \<open>C9. In every table reached from \<^verbatim>\<open>OperationTable::new\<close> by any sequence of its operations, the
  table never exceeds its configured maximum, and each counter and index query equals a scan of the
  slots: occupied, pending and retained terminal entries, and the pending operations of each owner and
  of each target.\<close>

theorem operation_queries_exact:
  assumes "reachable op_initial op_step t"
  shows "length (ot_slots t) \<le> ot_max t
    \<and> ot_live t = length (filter (\<lambda>e. e \<noteq> None) (ot_slots t))
    \<and> ot_pending t = length (filter is_pending (ot_slots t))
    \<and> retained_terminal_count t = length (filter (\<lambda>e. e \<noteq> None \<and> \<not> is_pending e) (ot_slots t))
    \<and> op_pending_for t a = length (filter (owned_pending a) (ot_slots t))
    \<and> op_pending_for_target t a = length (filter (targeted_pending a) (ot_slots t))"
proof -
  have inv: "optable_inv t" by (rule ops.reachable_invar [OF assms])
  then have "optable_shape t" "optable_counts t" by (simp_all add: optable_inv_def optable_base_def)
  moreover from this have "op_pending_for t a = length (filter (owned_pending a) (ot_slots t))"
    unfolding op_pending_for_def optable_counts_def by (intro counts_ok_get) simp
  ultimately show ?thesis
    using op_pending_for_target_scan [OF inv, of a] terminal_scan [of "ot_slots t"]
    by (simp add: optable_shape_def optable_counts_def retained_terminal_count_def)
qed

text \<open>C11. Expiry never panics on a reachable table (\<^verbatim>\<open>expect\<close> always finds a live pending operation)
  and, though it only pops the deadline index, it is the full scan: it returns exactly the
  identifiers of the due pending operations in slot order, each becomes \<^verbatim>\<open>TimedOut\<close>, every other
  operation keeps its state, and no due operation is left pending.\<close>

theorem op_expire_ids_exact:
  assumes "reachable op_initial op_step t"
  shows "\<exists>t'. op_expire_ids now t = Some (t', due_ids now t)
    \<and> (\<forall>oid \<in> set (due_ids now t). op_status t' oid = Inr (OpTerminal TimedOut))
    \<and> (\<forall>oid. oid \<notin> set (due_ids now t) \<longrightarrow> op_status t' oid = op_status t oid)
    \<and> (\<forall>oid p. op_status t' oid = Inr (OpPending p) \<longrightarrow> now < po_deadline p)"
proof -
  from op_expire_ids_spec [OF ops.reachable_invar [OF assms], of now]
  obtain t' where t': "op_expire_ids now t = Some (t', due_ids now t)"
    "timed_out (due_ids now t) t t'" by blast
  have same: "op_status t' oid = op_status t oid" if "oid \<notin> set (due_ids now t)" for oid
    using t'(2) that
    by (auto simp: timed_out_def op_status_def op_locate_def Let_def op_id_at_def)
      (metis operation_id.collapse)+
  have due: "op_status t' oid = Inr (OpTerminal TimedOut)" if "oid \<in> set (due_ids now t)" for oid
  proof -
    from that have "op_id_at t (op_slot oid) = oid" by (metis due_ids_iff op_id_at_iff)
    with that t'(2) show ?thesis by (auto simp: timed_out_def op_status_iff due_ids_iff)
  qed
  have "now < po_deadline p" if "op_status t' oid = Inr (OpPending p)" for oid p
  proof (rule ccontr)
    assume late: "\<not> now < po_deadline p"
    have "oid \<notin> set (due_ids now t)" using due that by fastforce
    with same that have "op_status t oid = Inr (OpPending p)" by simp
    with late have "oid \<in> set (due_ids now t)" by (auto simp: op_status_iff due_ids_iff)
    with \<open>oid \<notin> set (due_ids now t)\<close> show False by simp
  qed
  with t'(1) due same show ?thesis by blast
qed

text \<open>An operation has one terminal outcome. Once \<^verbatim>\<open>complete\<close> has accepted an outcome, then after
  any further operations on the table its status is still that outcome or the identifier is stale,
  and a second \<^verbatim>\<open>complete\<close> is never accepted.\<close>

theorem op_outcome_final:
  assumes "reachable op_initial op_step t"
    and "op_complete oid outcome t = (t1, Inr True)" and "op_step\<^sup>*\<^sup>* t1 t2"
  shows "(op_status t2 oid = Inr (OpTerminal (normalize_outcome outcome))
       \<or> op_status t2 oid = Inl StaleReference)
    \<and> snd (op_complete oid outcome2 t2) \<noteq> Inr True"
proof -
  have inv: "optable_inv t" by (rule ops.reachable_invar [OF assms(1)])
  have inv1: "optable_inv t1" using op_complete_inv [OF inv, of oid outcome] assms(2) by simp
  have "op_settled oid (normalize_outcome outcome) t1"
    using assms(2) by (cases rule: op_complete_cases [of oid outcome t])
      (auto simp: op_settled_def op_status_iff)
  from op_steps_settled [OF assms(3) inv1 this]
  have st: "op_settled oid (normalize_outcome outcome) t2" .
  have "snd (op_complete oid outcome2 t2) \<noteq> Inr True"
    using st by (cases rule: op_complete_cases [of oid outcome2 t2])
      (auto simp: op_settled_def op_dead_def op_status_iff)
  with st show ?thesis by (auto simp: op_settled_def op_dead_stale)
qed

text \<open>C10. A retired identifier never resolves again: after \<^verbatim>\<open>take\<close> returned its outcome or
  \<^verbatim>\<open>release_unsubmitted\<close> dropped it, every later \<^verbatim>\<open>status\<close> of it is \<^verbatim>\<open>StaleReference\<close> and no later
  \<^verbatim>\<open>reserve\<close> returns it, although its slot is reused.\<close>

theorem op_retired_forever:
  assumes "reachable op_initial op_step t"
    and "op_take oid t = (t1, Inr (Some outcome)) \<or> op_release_unsubmitted oid t = (t1, Inr True)"
    and "op_step\<^sup>*\<^sup>* t1 t2"
  shows "op_status t2 oid = Inl StaleReference \<and> snd (op_reserve owner target deadline t2) \<noteq> Inr oid"
proof -
  have inv: "optable_inv t" by (rule ops.reachable_invar [OF assms(1)])
  then have base: "optable_base t" by (simp add: optable_inv_def)
  have inv1: "optable_inv t1"
    using op_take_inv [OF inv, of oid] op_release_inv [OF inv, of oid] assms(2) by auto
  have "op_dead oid t1" using assms(2)
  proof
    assume "op_take oid t = (t1, Inr (Some outcome))"
    then show ?thesis by (cases rule: op_take_cases [OF base, of oid])
      (auto intro: op_dead_retire_other(2) [OF _ base])
  next
    assume "op_release_unsubmitted oid t = (t1, Inr True)"
    then show ?thesis by (cases rule: op_release_cases [OF base, of oid])
      (auto intro: op_dead_retire_other(2) [OF _ base])
  qed
  then have dead: "op_dead oid t2" by (rule op_steps_dead [OF assms(3) inv1])
  have base2: "optable_base t2"
    using ops.steps_invar [OF assms(3) inv1] by (simp add: optable_inv_def)
  have "snd (op_reserve owner target deadline t2) \<noteq> Inr oid"
  proof (cases rule: op_reserve_cases [of owner target deadline t2])
    case (reserved i c p)
    have i: "i < length (ot_slots c)"
      using op_pop_slot_popped [OF base2 reserved(6,2)] by (simp add: popped_at_def)
    have "op_dead oid (filled_at i p c)" by (rule op_pop_slot_status(2) [OF base2 reserved(2) dead])
    then have "oid \<noteq> op_id_at c i" using i by (auto simp: op_dead_def filled_at_fields)
    with reserved(1) show ?thesis by simp
  qed simp
  with dead show ?thesis by (simp add: op_dead_stale)
qed

text \<open>A table with one pending operation, for the witnesses.\<close>

definition op_demo_new :: operation_table where
  "op_demo_new = projr (optable_new 1 2)"

definition op_demo :: operation_table where
  "op_demo = fst (op_reserve (ActorRef 1 0 1) (ActorRef 1 1 1) 50 op_demo_new)"

lemma op_demo_reachable: "reachable op_initial op_step op_demo"
proof -
  have "optable_new 1 2 = Inr op_demo_new"
    by (simp add: op_demo_new_def optable_new_def u32_max_def)
  then have "op_initial op_demo_new" by (auto simp: op_initial_def)
  then show ?thesis
    unfolding op_demo_def
    by (rule reachable_step [where init = op_initial and step = op_step, OF reachable_init step_reserve])
qed

lemmas op_demo_eval = op_demo_def op_demo_new_def optable_new_def op_reserve_def op_pop_slot_def
  index_pending_def op_id_at_def idx_insert_def idx_get_def cnt_inc_def cnt_get_def u32_max_def
  u64_max_def insort_insert_key_def Let_def

theorem operation_queries_exact_witness:
  "op_pending_for op_demo (ActorRef 1 0 1) = 1 \<and> op_pending_for_target op_demo (ActorRef 1 1 1) = 1
     \<and> retained_terminal_count op_demo = 0"
proof -
  have "ot_slots op_demo = [Some (OpPending \<lparr>po_owner = ActorRef 1 0 1, po_target = ActorRef 1 1 1,
      po_deadline = 50, po_context = None\<rparr>)]"
    by (simp add: op_demo_eval)
  then show ?thesis
    using operation_queries_exact [OF op_demo_reachable, of "ActorRef 1 0 1"]
      operation_queries_exact [OF op_demo_reachable, of "ActorRef 1 1 1"] by simp
qed

theorem op_expire_ids_exact_witness:
  "\<exists>t'. op_expire_ids 50 op_demo = Some (t', [OperationId 1 0 1])
     \<and> op_status t' (OperationId 1 0 1) = Inr (OpTerminal TimedOut)"
proof -
  have due: "due_ids 50 op_demo = [OperationId 1 0 1]"
    by (simp add: due_ids_def op_demo_eval)
  show ?thesis using op_expire_ids_exact [OF op_demo_reachable, of 50] by (auto simp: due)
qed

theorem op_outcome_final_witness:
  "\<exists>t1. op_complete (OperationId 1 0 1) TimedOut op_demo = (t1, Inr True)
     \<and> (op_status t1 (OperationId 1 0 1) = Inr (OpTerminal TimedOut)
        \<or> op_status t1 (OperationId 1 0 1) = Inl StaleReference)
     \<and> snd (op_complete (OperationId 1 0 1) Cancelled t1) \<noteq> Inr True"
proof -
  have "snd (op_complete (OperationId 1 0 1) TimedOut op_demo) = Inr True"
    by (simp add: op_demo_eval op_complete_def op_locate_def)
  then obtain t1 where t1: "op_complete (OperationId 1 0 1) TimedOut op_demo = (t1, Inr True)"
    by (metis surjective_pairing)
  with op_outcome_final [OF op_demo_reachable t1 rtranclp.rtrancl_refl, of Cancelled]
  show ?thesis by simp
qed

theorem op_retired_forever_witness:
  "\<exists>t1. op_release_unsubmitted (OperationId 1 0 1) op_demo = (t1, Inr True)
     \<and> op_status t1 (OperationId 1 0 1) = Inl StaleReference
     \<and> snd (op_reserve (ActorRef 1 0 1) (ActorRef 1 1 1) 90 t1) \<noteq> Inr (OperationId 1 0 1)"
proof -
  have "snd (op_release_unsubmitted (OperationId 1 0 1) op_demo) = Inr True"
    by (simp add: op_demo_eval op_release_unsubmitted_def op_locate_def)
  then obtain t1 where t1: "op_release_unsubmitted (OperationId 1 0 1) op_demo = (t1, Inr True)"
    by (metis surjective_pairing)
  with op_retired_forever [OF op_demo_reachable disjI2 [OF t1] rtranclp.rtrancl_refl]
  show ?thesis by blast
qed

text \<open>The life of an operation. A reservation within the limits succeeds with an identifier that
  did not resolve before; the operation is then pending with the given endpoints and deadline; an
  outcome of this World is accepted, with a failure message cut to its bound; and \<^verbatim>\<open>take\<close> returns
  that outcome and leaves the counters as they were.\<close>

theorem op_round_trip:
  assumes "reachable op_initial op_step t"
    and "op_reserve owner target deadline t = (t1, Inr oid)"
    and "\<not> outcome_crosses (ot_world t) outcome"
  shows "is_ok (op_status t oid) = False
    \<and> op_status t1 oid = Inr (OpPending \<lparr>po_owner = owner, po_target = target,
         po_deadline = deadline, po_context = None\<rparr>)
    \<and> (\<exists>t2 t3. op_complete oid outcome t1 = (t2, Inr True)
        \<and> op_take oid t2 = (t3, Inr (Some (normalize_outcome outcome)))
        \<and> ot_live t3 = ot_live t \<and> ot_pending t3 = ot_pending t
        \<and> op_status t3 oid = Inl StaleReference)"
proof -
  have inv: "optable_inv t" by (rule ops.reachable_invar [OF assms(1)])
  then have base: "optable_base t" by (simp add: optable_inv_def)
  have "\<exists>i c p. op_reserve owner target deadline t = (filled_at i p c, Inr (op_id_at c i))
      \<and> op_pop_slot t = (i, c) \<and> \<not> (ot_free t = [] \<and> ot_max t \<le> length (ot_slots t))
      \<and> p = \<lparr>po_owner = owner, po_target = target, po_deadline = deadline, po_context = None\<rparr>"
    using assms(2) by (cases rule: op_reserve_cases [of owner target deadline t]) auto
  then obtain i c p where r: "t1 = filled_at i p c" "oid = op_id_at c i" "op_pop_slot t = (i, c)"
      "\<not> (ot_free t = [] \<and> ot_max t \<le> length (ot_slots t))"
      "p = \<lparr>po_owner = owner, po_target = target, po_deadline = deadline, po_context = None\<rparr>"
    using assms(2) by auto
  have c: "popped_at i c" "ot_world c = ot_world t" using op_pop_slot_popped [OF base r(4,3)] by auto
  then have i: "i < length (ot_slots c)" by (simp add: popped_at_def)
  have fresh: "is_ok (op_status t oid) = False"
    using op_pop_slot_status(1) [OF base r(3), of oid] by (cases "op_status t oid") (auto simp: r(2))
  have s1: "op_status t1 oid = Inr (OpPending p)"
    using i by (simp add: r op_status_iff filled_at_fields)
  have base1: "optable_base t1"
    using op_reserve_inv [OF inv, of owner target deadline] assms(2) by (simp add: optable_inv_def)
  have loc: "op_locate t1 oid = Inr i" "ot_slots t1 ! i = Some (OpPending p)" "ot_world t1 = ot_world t"
    using i c by (auto simp: r op_locate_Inr op_id_at_def filled_at_fields)
  from op_complete_pending [OF loc(1,2)] assms(3) loc(3)
  have t2: "op_complete oid outcome t1 = (complete_at i p outcome t1, Inr True)" by simp
  let ?t2 = "complete_at i p outcome t1"
  have base2: "optable_base ?t2" using op_complete_base [OF base1, of oid outcome] t2 by simp
  have loc2: "op_locate ?t2 oid = Inr i" "ot_slots ?t2 ! i = Some (OpTerminal (normalize_outcome outcome))"
    using i by (auto simp: r op_locate_Inr op_id_at_def filled_at_fields)
  obtain k d where t3: "op_take oid ?t2 = (retire_generation k d, Inr (Some (normalize_outcome outcome)))"
      "cleared_at k ?t2 d" "k < length (ot_slots ?t2)" "oid = op_id_at ?t2 k" "ot_slots ?t2 ! k \<noteq> None"
      "\<not> is_pending (ot_slots ?t2 ! k)"
    using loc2 by (cases rule: op_take_cases [OF base2, of oid]) (auto simp: op_locate_Inr)
  have "ot_live (retire_generation k d) = ot_live t \<and> ot_pending (retire_generation k d) = ot_pending t"
    using t3(2,6) r(3) by (auto simp: cleared_at_def complete_at_def r(1) filled_at_fields op_pop_slot_def
        split: option.splits op_entry.splits list.splits)
  moreover have "op_status (retire_generation k d) oid = Inl StaleReference"
    using op_dead_retire_other(2) [OF t3(2) base2 t3(3,5)] t3(4) by (simp add: op_dead_stale)
  ultimately show ?thesis using fresh s1 t2 t3(1) r(5) by blast
qed

theorem op_round_trip_witness:
  "\<exists>t1. op_reserve (ActorRef 1 1 1) (ActorRef 1 0 1) 70 op_demo = (t1, Inr (OperationId 1 1 1))
     \<and> op_status t1 (OperationId 1 1 1) = Inr (OpPending \<lparr>po_owner = ActorRef 1 1 1,
          po_target = ActorRef 1 0 1, po_deadline = 70, po_context = None\<rparr>)
     \<and> (\<exists>t2 t3. op_complete (OperationId 1 1 1) (Failed HandlerFailed ''x'') t1 = (t2, Inr True)
        \<and> op_take (OperationId 1 1 1) t2 = (t3, Inr (Some (normalize_outcome (Failed HandlerFailed ''x'')))))"
proof -
  have "snd (op_reserve (ActorRef 1 1 1) (ActorRef 1 0 1) 70 op_demo) = Inr (OperationId 1 1 1)"
    by (simp add: op_demo_eval)
  then obtain t1 where t1: "op_reserve (ActorRef 1 1 1) (ActorRef 1 0 1) 70 op_demo = (t1, Inr (OperationId 1 1 1))"
    by (metis surjective_pairing)
  with op_round_trip [OF op_demo_reachable t1, of "Failed HandlerFailed ''x''"] show ?thesis by auto
qed

subsection \<open>Stopping a target or an owner\<close>

definition settled_by :: "terminal_outcome \<Rightarrow> operation_id set \<Rightarrow> operation_table \<Rightarrow> operation_table \<Rightarrow> bool" where
  "settled_by out ids t t' \<longleftrightarrow> ot_world t' = ot_world t \<and> ot_generations t' = ot_generations t
     \<and> length (ot_slots t') = length (ot_slots t)
     \<and> (\<forall>i < length (ot_slots t). ot_slots t' ! i =
          (if op_id_at t i \<in> ids \<and> is_pending (ot_slots t ! i) then Some (OpTerminal out)
           else ot_slots t ! i))"

definition status_pending :: "operation_table \<Rightarrow> operation_id \<Rightarrow> bool" where
  "status_pending t oid \<longleftrightarrow> (\<exists>p. op_status t oid = Inr (OpPending p))"

lemma status_pending_iff:
  "status_pending t oid \<longleftrightarrow> op_world oid = ot_world t \<and> op_slot oid < length (ot_slots t)
     \<and> op_generation oid = ot_generations t ! op_slot oid \<and> is_pending (ot_slots t ! op_slot oid)"
  by (auto simp: status_pending_def op_status_iff is_pending_iff)

lemma op_complete_step:
  assumes "\<not> outcome_crosses (ot_world t) outcome"
  shows "settled_by (normalize_outcome outcome) {oid} t (fst (op_complete oid outcome t))
    \<and> unwrap_or False (snd (op_complete oid outcome t)) = status_pending t oid"
proof (cases rule: op_complete_cases [of oid outcome t])
  case (unchanged r)
  have "\<not> is_pending (ot_slots t ! i)" if "op_id_at t i = oid" "i < length (ot_slots t)" for i
  proof
    assume p: "is_pending (ot_slots t ! i)"
    then have "op_locate t oid = Inr i" using that by (auto simp: op_locate_Inr is_pending_iff)
    from unchanged(3) [OF this assms] p show False by simp
  qed
  moreover from this have "\<not> status_pending t oid"
    using op_id_at_iff [of oid t "op_slot oid"] by (metis status_pending_iff)
  moreover have "unwrap_or False r = False" using unchanged(2) by (cases r) auto
  ultimately show ?thesis by (auto simp: settled_by_def unchanged(1))
next
  case (completed i p)
  then show ?thesis by (auto simp: settled_by_def status_pending_iff nth_list_update)
qed

lemma transition_ids_settled:
  assumes "\<not> outcome_crosses (ot_world t) outcome" "distinct ids"
  shows "settled_by (normalize_outcome outcome) (set ids) t (fst (transition_ids ids outcome t))
    \<and> snd (transition_ids ids outcome t) = length (filter (status_pending t) ids)"
  using assms
proof (induction ids arbitrary: t)
  case (Cons x ids)
  let ?c = "fst (op_complete x outcome t)"
  have step: "settled_by (normalize_outcome outcome) {x} t ?c"
      "unwrap_or False (snd (op_complete x outcome t)) = status_pending t x"
    using op_complete_step [OF Cons.prems(1), of x] by simp_all
  then have world: "ot_world ?c = ot_world t" by (simp add: settled_by_def)
  then have IH: "settled_by (normalize_outcome outcome) (set ids) ?c (fst (transition_ids ids outcome ?c))"
      "snd (transition_ids ids outcome ?c) = length (filter (status_pending ?c) ids)"
    using Cons by simp_all
  have "status_pending ?c y = status_pending t y" if "y \<in> set ids" for y
  proof -
    have "y \<noteq> x" using that Cons.prems(2) by auto
    then have "op_slot y < length (ot_slots t) \<Longrightarrow> op_generation y = ot_generations t ! op_slot y \<Longrightarrow>
        op_world y = ot_world t \<Longrightarrow> ot_slots ?c ! op_slot y = ot_slots t ! op_slot y"
      using step(1) by (auto simp: settled_by_def op_id_at_iff)
    then show ?thesis using step(1) by (auto simp: status_pending_iff settled_by_def)
  qed
  then have "length (filter (status_pending ?c) ids) = length (filter (status_pending t) ids)"
    by (metis filter_cong)
  moreover have "settled_by (normalize_outcome outcome) (insert x (set ids)) t
      (fst (transition_ids ids outcome ?c))"
    using step(1) IH(1) by (auto simp: settled_by_def op_id_at_def)
  ultimately show ?case using IH(2) step(2) by (simp add: case_prod_beta Let_def)
qed (simp add: settled_by_def)

lemma settled_by_status:
  assumes "settled_by out ids t t'"
  shows "op_status t' oid =
    (if oid \<in> ids \<and> status_pending t oid then Inr (OpTerminal out) else op_status t oid)"
proof -
  have "op_id_at t (op_slot oid) = oid" if "op_world oid = ot_world t"
      "op_generation oid = ot_generations t ! op_slot oid"
    using that by (metis op_id_at_iff)
  with assms show ?thesis
    by (auto simp: settled_by_def op_status_def op_locate_def Let_def status_pending_iff)
qed

text \<open>C12. Stopping a target settles exactly the pending operations sent to it: each becomes
  \<^verbatim>\<open>TargetStopped\<close>, every other operation keeps its state, the count returned is their number, and
  no pending operation of that target is left.\<close>

theorem op_stop_target_exact:
  assumes "reachable op_initial op_step t"
  shows "snd (op_stop_target target t) = length (filter (targeted_pending target) (ot_slots t))
    \<and> (\<forall>oid. op_status (fst (op_stop_target target t)) oid =
         (case op_status t oid of
            Inr (OpPending p) \<Rightarrow>
              if po_target p = target then Inr (OpTerminal TargetStopped) else Inr (OpPending p)
          | r \<Rightarrow> r))
    \<and> op_pending_for_target (fst (op_stop_target target t)) target = 0"
proof -
  have inv: "optable_inv t" by (rule ops.reachable_invar [OF assms])
  then have mir: "idx.mirrors (ot_target_index t) (target_rel t)"
    by (simp add: optable_inv_def optable_base_def optable_indexes_def)
  define ids where "ids = sort_key slot_key (idx_get (ot_target_index t) target)"
  have set_ids: "set ids = {oid. (target, oid) \<in> target_rel t}"
    using mir by (simp add: ids_def idx.mirrors_def)
  have "bset (idx_get (ot_target_index t) target)"
    using mir by (auto simp: idx.mirrors_def idx.get_bset)
  then have dist: "distinct ids" by (simp add: ids_def bset_def)
  have pend: "filter (status_pending t) ids = ids"
    using set_ids by (auto simp: filter_id_conv status_pending_iff target_rel_def is_pending_iff)
  have "\<not> outcome_crosses (ot_world t) TargetStopped" by simp
  note tr = transition_ids_settled [OF this dist]
  have op: "op_stop_target target t = transition_ids ids TargetStopped t"
    by (simp add: op_stop_target_def ids_def)
  have n: "length ids = length (filter (targeted_pending target) (ot_slots t))"
    using op_pending_for_target_scan [OF inv, of target] by (simp add: ids_def op_pending_for_target_def)
  have status: "op_status (fst (op_stop_target target t)) oid =
         (case op_status t oid of
            Inr (OpPending p) \<Rightarrow>
              if po_target p = target then Inr (OpTerminal TargetStopped) else Inr (OpPending p)
          | r \<Rightarrow> r)" for oid
  proof -
    have "oid \<in> set ids \<longleftrightarrow> (\<exists>p. op_status t oid = Inr (OpPending p) \<and> po_target p = target)"
      unfolding set_ids by (auto simp: target_rel_def op_status_iff)
    then show ?thesis
      using settled_by_status [OF conjunct1 [OF tr], of oid]
      by (auto simp: op status_pending_def split: sum.splits op_entry.splits)
  qed
  have inv': "optable_inv (fst (op_stop_target target t))"
    by (simp add: op_stop_target_def transition_ids_inv inv)
  have "\<not> targeted_pending target e" if e: "e \<in> set (ot_slots (fst (op_stop_target target t)))" for e
  proof
    assume tp: "targeted_pending target e"
    obtain i where i: "i < length (ot_slots (fst (op_stop_target target t)))"
        "ot_slots (fst (op_stop_target target t)) ! i = e" using e by (auto simp: in_set_conv_nth)
    from tp obtain p where p: "e = Some (OpPending p)" "po_target p = target"
      by (auto simp: targeted_pending_iff)
    have "op_status (fst (op_stop_target target t)) (op_id_at (fst (op_stop_target target t)) i) =
        Inr (OpPending p)" using i p by (simp add: op_status_iff)
    with p(2) show False unfolding status by (auto split: sum.splits op_entry.splits if_splits)
  qed
  then have "op_pending_for_target (fst (op_stop_target target t)) target = 0"
    unfolding op_pending_for_target_scan [OF inv'] by (simp add: filter_empty_conv)
  with status tr n op pend show ?thesis by simp
qed

theorem op_stop_target_exact_witness:
  "snd (op_stop_target (ActorRef 1 1 1) op_demo) = 1
    \<and> op_pending_for_target (fst (op_stop_target (ActorRef 1 1 1) op_demo)) (ActorRef 1 1 1) = 0"
proof -
  have "length (filter (targeted_pending (ActorRef 1 1 1)) (ot_slots op_demo)) = 1"
    by (simp add: op_demo_eval)
  with op_stop_target_exact [OF op_demo_reachable, of "ActorRef 1 1 1"] show ?thesis by simp
qed

end
