(* ===== verification/Failures.thy ===== *)
theory Failures
  imports Utf8
begin

text \<open>
  Bounded failure records, \<^verbatim>\<open>crates/runtime-core/src/failures.rs\<close>: every retained text is
  cut at a character boundary, at most eight frames are kept, and any loss sets the
  truncation flag.
\<close>

definition HANDLER_MAX :: nat where "HANDLER_MAX = 128"
definition EXCEPTION_MAX :: nat where "EXCEPTION_MAX = 128"
definition FILE_MAX :: nat where "FILE_MAX = 256"
definition FUNCTION_MAX :: nat where "FUNCTION_MAX = 128"
definition MAX_FRAMES :: nat where "MAX_FRAMES = 8"

datatype failure_phase = Construction | Configure | Start | Handler | Stop | Supervisor

record failure_frame =
  ff_file :: bytes
  ff_line :: nat
  ff_function :: bytes
  ff_truncated :: bool

definition bounded :: "bytes \<Rightarrow> nat \<Rightarrow> bytes" where
  "bounded v mx = truncate_str v mx"

definition failure_frame_new :: "bytes \<Rightarrow> nat \<Rightarrow> bytes \<Rightarrow> failure_frame" where
  "failure_frame_new file line func =
     \<lparr>ff_file = bounded file FILE_MAX, ff_line = line, ff_function = bounded func FUNCTION_MAX,
      ff_truncated = (length file > FILE_MAX \<or> length func > FUNCTION_MAX)\<rparr>"

record failure_details =
  fd_phase :: failure_phase
  fd_handler :: bytes
  fd_exception_type :: bytes
  fd_frames :: "failure_frame list"
  fd_truncated :: bool

definition failure_details_new ::
  "failure_phase \<Rightarrow> bytes \<Rightarrow> bytes \<Rightarrow> failure_frame list \<Rightarrow> failure_details" where
  "failure_details_new phase handler exception_type frames =
     (let frames_truncated = length frames > MAX_FRAMES;
          text_truncated = (length handler > HANDLER_MAX \<or> length exception_type > EXCEPTION_MAX);
          kept = take MAX_FRAMES frames;
          frame_text_truncated = list_ex ff_truncated kept
      in \<lparr>fd_phase = phase, fd_handler = bounded handler HANDLER_MAX,
          fd_exception_type = bounded exception_type EXCEPTION_MAX, fd_frames = kept,
          fd_truncated = (frames_truncated \<or> frame_text_truncated \<or> text_truncated)\<rparr>)"

definition with_truncated :: "failure_details \<Rightarrow> bool \<Rightarrow> failure_details" where
  "with_truncated d t = d\<lparr>fd_truncated := fd_truncated d \<or> t\<rparr>"

datatype failure_action = StopActor | StopWorld | Continue

record failure_record =
  fr_sequence :: nat
  fr_elapsed_ns :: nat
  fr_actor :: actor_ref
  fr_event_id :: "nat option"
  fr_schema :: "nat option"
  fr_operation :: "operation_id option"
  fr_details :: failure_details
  fr_action :: failure_action

text \<open>What is kept of a failure described by full texts and frames, when nothing is lost.\<close>

lemma bounded_eq_iff: "bounded s mx = s \<longleftrightarrow> length s \<le> mx"
  using truncate_str_length [of s mx] truncate_str_id [of s mx] by (auto simp: bounded_def)

lemma failure_frames_eq_iff:
  "map (\<lambda>fr. (ff_file fr, ff_line fr, ff_function fr))
     (map (\<lambda>(f, l, g). failure_frame_new f l g) (take n raw)) = raw \<longleftrightarrow>
   length raw \<le> n \<and> (\<forall>x \<in> set (take n raw). \<not> ff_truncated (case x of (f, l, g) \<Rightarrow> failure_frame_new f l g))"
proof (cases "length raw \<le> n")
  case True
  have "map (\<lambda>x. (ff_file (case x of (f, l, g) \<Rightarrow> failure_frame_new f l g),
      ff_line (case x of (f, l, g) \<Rightarrow> failure_frame_new f l g),
      ff_function (case x of (f, l, g) \<Rightarrow> failure_frame_new f l g))) raw = map (\<lambda>x. x) raw \<longleftrightarrow>
    (\<forall>x \<in> set raw. \<not> ff_truncated (case x of (f, l, g) \<Rightarrow> failure_frame_new f l g))"
    unfolding map_eq_conv
    by (intro ball_cong) (auto simp: bounded_eq_iff failure_frame_new_def)
  with True show ?thesis by (simp add: comp_def)
next
  case False
  then have "length (map (\<lambda>fr. (ff_file fr, ff_line fr, ff_function fr))
     (map (\<lambda>(f, l, g). failure_frame_new f l g) (take n raw))) \<noteq> length raw" by simp
  with False show ?thesis by (metis (no_types, lifting))
qed

text \<open>a failure record built from arbitrary texts is bounded (eight frames, 128-byte
  handler and exception texts, 256/128-byte frame texts), every text that was UTF-8 stays
  UTF-8 and loses fewer than four bytes more than the limit requires, and the record carries
  the truncation flag exactly when it is not the complete description.\<close>

theorem failure_details_bounded:
  assumes "utf8_valid handler" and "utf8_valid exc"
    and "\<forall>(f, l, g) \<in> set raw. utf8_valid f \<and> utf8_valid g"
    and d: "d = failure_details_new phase handler exc (map (\<lambda>(f, l, g). failure_frame_new f l g) raw)"
  shows "length (fd_frames d) \<le> 8
    \<and> length (fd_handler d) \<le> 128 \<and> utf8_valid (fd_handler d)
    \<and> min 128 (length handler) < length (fd_handler d) + 4
    \<and> length (fd_exception_type d) \<le> 128 \<and> utf8_valid (fd_exception_type d)
    \<and> (\<forall>fr \<in> set (fd_frames d). length (ff_file fr) \<le> 256 \<and> length (ff_function fr) \<le> 128
         \<and> utf8_valid (ff_file fr) \<and> utf8_valid (ff_function fr))
    \<and> (\<not> fd_truncated d \<longleftrightarrow>
         fd_handler d = handler \<and> fd_exception_type d = exc
         \<and> map (\<lambda>fr. (ff_file fr, ff_line fr, ff_function fr)) (fd_frames d) = raw)"
proof (intro conjI)
  let ?new = "\<lambda>(f, l, g). failure_frame_new f l g"
  have kept: "fd_frames d = map ?new (take 8 raw)"
    by (simp add: d failure_details_new_def Let_def MAX_FRAMES_def take_map)
  have texts: "fd_handler d = truncate_str handler 128" "fd_exception_type d = truncate_str exc 128"
    by (simp_all add: d failure_details_new_def Let_def bounded_def HANDLER_MAX_def EXCEPTION_MAX_def)
  show "length (fd_frames d) \<le> 8" by (simp add: kept)
  show "length (fd_handler d) \<le> 128" "length (fd_exception_type d) \<le> 128"
    by (simp_all add: texts truncate_str_length)
  show "utf8_valid (fd_handler d)" "utf8_valid (fd_exception_type d)"
    using assms(1,2) by (simp_all add: texts truncate_str_valid)
  show "min 128 (length handler) < length (fd_handler d) + 4"
    using truncate_str_tight [OF assms(1), of 128] truncate_str_id [of handler 128]
    by (cases "128 \<le> length handler") (auto simp: texts)
  show "\<forall>fr \<in> set (fd_frames d). length (ff_file fr) \<le> 256 \<and> length (ff_function fr) \<le> 128
         \<and> utf8_valid (ff_file fr) \<and> utf8_valid (ff_function fr)"
    using assms(3)
    by (auto simp: kept failure_frame_new_def bounded_def FILE_MAX_def FUNCTION_MAX_def
        truncate_str_length truncate_str_valid dest!: in_set_takeD)
  have flag: "fd_truncated d \<longleftrightarrow> length raw > 8 \<or> (\<exists>x \<in> set (take 8 raw). ff_truncated (?new x))
      \<or> length handler > 128 \<or> length exc > 128"
    by (auto simp: d failure_details_new_def Let_def MAX_FRAMES_def HANDLER_MAX_def EXCEPTION_MAX_def
        list_ex_iff take_map)
  have frames: "map (\<lambda>fr. (ff_file fr, ff_line fr, ff_function fr)) (fd_frames d) = raw \<longleftrightarrow>
      length raw \<le> 8 \<and> (\<forall>x \<in> set (take 8 raw). \<not> ff_truncated (?new x))"
    unfolding kept by (rule failure_frames_eq_iff)
  show "\<not> fd_truncated d \<longleftrightarrow>
         fd_handler d = handler \<and> fd_exception_type d = exc
         \<and> map (\<lambda>fr. (ff_file fr, ff_line fr, ff_function fr)) (fd_frames d) = raw"
    using bounded_eq_iff [of handler 128] bounded_eq_iff [of exc 128]
    by (auto simp: flag frames texts bounded_def)
qed

theorem failure_details_bounded_witness:
  "length (fd_frames (failure_details_new Handler ''run'' ''Error'' [failure_frame_new ''a.py'' 7 ''f'']))
     \<le> 8
   \<and> \<not> fd_truncated (failure_details_new Handler ''run'' ''Error'' [failure_frame_new ''a.py'' 7 ''f''])"
proof -
  have v: "utf8_valid ''run''" "utf8_valid ''Error''" "utf8_valid ''a.py''" "utf8_valid ''f''"
    by code_simp+
  have "length (fd_frames (failure_details_new Handler ''run'' ''Error''
      (map (\<lambda>(f, l, g). failure_frame_new f l g) [(''a.py'', 7, ''f'')]))) \<le> 8"
    using failure_details_bounded [of "''run''" "''Error''" "[(''a.py'', 7, ''f'')]" _ Handler, OF _ _ _ refl] v
    by simp
  then show ?thesis
    by (simp add: failure_details_new_def failure_frame_new_def HANDLER_MAX_def EXCEPTION_MAX_def
        FILE_MAX_def FUNCTION_MAX_def MAX_FRAMES_def)
qed

end
