(* ===== verification/Clock.thy ===== *)
theory Clock
  imports Prelude
begin

text \<open>
  The time source, \<^verbatim>\<open>crates/runtime-core/src/clock.rs\<close>. A system clock reads the platform's
  monotonic clock, whose value the environment supplies with each read; a manual clock holds its
  own instant, which only \<^verbatim>\<open>advance\<close> moves. The largest representable \<^verbatim>\<open>Instant\<close> is
  platform-dependent and a parameter.
\<close>

datatype clock_state = System | Manual instant

text \<open>\<^verbatim>\<open>Clock::now\<close>; \<open>sys\<close> is what \<^verbatim>\<open>Instant::now()\<close> returns.\<close>

fun clock_now :: "clock_state \<Rightarrow> instant \<Rightarrow> instant" where
  "clock_now System sys = sys"
| "clock_now (Manual current) sys = current"

fun clock_is_virtual :: "clock_state \<Rightarrow> bool" where
  "clock_is_virtual System = False"
| "clock_is_virtual (Manual current) = True"

text \<open>\<^verbatim>\<open>VirtualClock::advance\<close>: the new clock and the result.\<close>

fun clock_advance :: "instant \<Rightarrow> clock_state \<Rightarrow> nat \<Rightarrow> clock_state \<times> instant result" where
  "clock_advance instant_max System by_ns = (System, Inl InvalidConfig)"
| "clock_advance instant_max (Manual current) by_ns =
     (case checked_add instant_max current by_ns of
        None \<Rightarrow> (Manual current, Inl LimitExceeded)
      | Some nxt \<Rightarrow>
          if nxt < current then (Manual current, Inl LimitExceeded)
          else (Manual nxt, Inr nxt))"

text \<open>\<^verbatim>\<open>saturating_duration_since(epoch).as_nanos().min(u64::MAX as u128) as u64\<close>\<close>

definition elapsed_ns :: "instant \<Rightarrow> instant \<Rightarrow> nat" where
  "elapsed_ns epoch now = min (now - epoch) u64_max"

fun clock_advances :: "instant \<Rightarrow> clock_state \<Rightarrow> nat list \<Rightarrow> clock_state" where
  "clock_advances mx c [] = c"
| "clock_advances mx c (d # ds) = clock_advances mx (fst (clock_advance mx c d)) ds"

lemma clock_advance_mono: "clock_now c sys \<le> clock_now (fst (clock_advance mx c d)) sys"
  by (cases c) (auto split: option.splits)

lemma clock_advance_virtual: "clock_is_virtual (fst (clock_advance mx c d)) = clock_is_virtual c"
  by (cases c) (auto split: option.splits)

text \<open>A virtual clock never runs backwards, whatever the sequence of advances, and a refused
  advance leaves the time unchanged.\<close>

lemma clock_advances_mono: "clock_now c sys \<le> clock_now (clock_advances mx c ds) sys"
proof (induction ds arbitrary: c)
  case (Cons d ds)
  have "clock_now c sys \<le> clock_now (fst (clock_advance mx c d)) sys"
    by (rule clock_advance_mono)
  also have "\<dots> \<le> clock_now (clock_advances mx (fst (clock_advance mx c d)) ds) sys"
    by (rule Cons.IH)
  finally show ?case by simp
qed simp

end
