(* ===== verification/Diagnostics.thy ===== *)
theory Diagnostics
  imports Failures Envelope Clock Containers
begin

text \<open>
  The bounded diagnostic ring, \<^verbatim>\<open>crates/runtime-core/src/diagnostics.rs\<close>: codes, entries,
  recording with eviction of the oldest entry, and cursor reads with gap detection.
\<close>

section \<open>Codes and entries\<close>

datatype diagnostic_code =
    DCError error
  | DCHandlerFailed
  | DCStartupFailed
  | DCCleanupFailed
  | DCSupervisorFailed
  | DCOperationTimedOut
  | DCOperationLateResult
  | DCOwnerStopped
  | DCTargetStopped
  | DCDrainTimeout
  | DCCancelled

text \<open>The first fifteen codes are the error codes under the same names; the source's
  \<^verbatim>\<open>From<&Error>\<close> is the embedding.\<close>

definition code_of_error :: "error \<Rightarrow> diagnostic_code" where
  "code_of_error e = DCError e"

record diagnostic_entry =
  de_sequence :: nat
  de_elapsed_ns :: nat
  de_code :: diagnostic_code
  de_actor :: "actor_ref option"
  de_operation :: "operation_id option"
  de_event_id :: "nat option"
  de_correlation_id :: "nat option"
  de_causation_id :: "nat option"
  de_failure :: "failure_record option"

record diagnostic_gap =
  dg_first_available :: nat
  dg_requested_after :: nat

record diagnostic_read =
  dr_entries :: "diagnostic_entry list"
  dr_next_sequence :: nat
  dr_dropped :: nat
  dr_gap :: "diagnostic_gap option"

record history =
  h_capacity :: nat
  h_next :: nat
  h_dropped :: nat
  h_entries :: "diagnostic_entry list"
  h_epoch :: instant
  h_exhausted :: bool

section \<open>Operations\<close>

definition history_new :: "nat \<Rightarrow> instant \<Rightarrow> history" where
  "history_new capacity epoch =
     \<lparr>h_capacity = capacity, h_next = 1, h_dropped = 0, h_entries = [], h_epoch = epoch,
      h_exhausted = False\<rparr>"

text \<open>The entry \<^verbatim>\<open>record_entry\<close> builds; \<open>now\<close> is what the history's clock reads.\<close>

definition mk_entry ::
  "instant \<Rightarrow> nat \<Rightarrow> instant \<Rightarrow> diagnostic_code \<Rightarrow> actor_ref option \<Rightarrow> operation_id option \<Rightarrow>
   failure_record option \<Rightarrow> envelope option \<Rightarrow> diagnostic_entry" where
  "mk_entry epoch sequence now code actor operation failure env =
     \<lparr>de_sequence = sequence,
      de_elapsed_ns = elapsed_ns epoch now,
      de_code = code, de_actor = actor, de_operation = operation,
      de_event_id = option_or (map_option en_event_id env) (Option.bind failure fr_event_id),
      de_correlation_id = Option.bind env en_correlation_id,
      de_causation_id = Option.bind env en_causation_id,
      de_failure = failure\<rparr>"

definition record_entry ::
  "instant \<Rightarrow> diagnostic_code \<Rightarrow> actor_ref option \<Rightarrow> operation_id option \<Rightarrow>
   failure_record option \<Rightarrow> envelope option \<Rightarrow> history \<Rightarrow> history" where
  "record_entry now code actor operation failure env h =
     (if h_capacity h = 0 \<or> h_exhausted h
      then h\<lparr>h_dropped := saturating_add u64_max (h_dropped h) 1\<rparr>
      else
        (let h1 = (if length (h_entries h) = h_capacity h
                   then h\<lparr>h_entries := tl (h_entries h),
                          h_dropped := saturating_add u64_max (h_dropped h) 1\<rparr>
                   else h);
             sequence = h_next h1;
             h2 = (if sequence = u64_max then h1\<lparr>h_exhausted := True\<rparr>
                   else h1\<lparr>h_next := h_next h1 + 1\<rparr>)
         in h2\<lparr>h_entries := h_entries h2 @
                [mk_entry (h_epoch h2) sequence now code actor operation failure env]\<rparr>))"

definition history_record ::
  "instant \<Rightarrow> diagnostic_code \<Rightarrow> actor_ref option \<Rightarrow> operation_id option \<Rightarrow> history \<Rightarrow> history" where
  "history_record now code actor operation h = record_entry now code actor operation None None h"

definition record_event ::
  "instant \<Rightarrow> diagnostic_code \<Rightarrow> envelope \<Rightarrow> operation_id option \<Rightarrow> history \<Rightarrow> history" where
  "record_event now code env operation h =
     record_entry now code (Some (en_destination env)) operation None (Some env) h"

fun failure_code :: "failure_phase \<Rightarrow> diagnostic_code" where
  "failure_code Handler = DCHandlerFailed"
| "failure_code Stop = DCCleanupFailed"
| "failure_code Supervisor = DCSupervisorFailed"
| "failure_code _ = DCStartupFailed"

definition record_failure :: "instant \<Rightarrow> failure_record \<Rightarrow> history \<Rightarrow> history" where
  "record_failure now failure h =
     record_entry now (failure_code (fd_phase (fr_details failure))) (Some (fr_actor failure))
       (fr_operation failure) (Some failure) None h"

definition history_read :: "nat \<Rightarrow> nat \<Rightarrow> history \<Rightarrow> diagnostic_read" where
  "history_read after limit h =
     (let fst_seq = (case h_entries h of [] \<Rightarrow> h_next h | e # _ \<Rightarrow> de_sequence e)
      in \<lparr>dr_entries = take limit (filter (\<lambda>e. de_sequence e > after) (h_entries h)),
          dr_next_sequence = h_next h,
          dr_dropped = h_dropped h,
          dr_gap = (if saturating_add u64_max after 1 < fst_seq
                    then Some \<lparr>dg_first_available = fst_seq, dg_requested_after = after\<rparr>
                    else None)\<rparr>)"

section \<open>The ring invariant\<close>

text \<open>
  The retained entries carry consecutive sequence numbers that end just below \<open>history_end\<close>,
  within the capacity; the sequence is exhausted only after its last number was issued.
\<close>

definition history_end :: "history \<Rightarrow> nat" where
  "history_end h = h_next h + (if h_exhausted h then 1 else 0)"

definition history_inv :: "history \<Rightarrow> bool" where
  "history_inv h \<longleftrightarrow>
     length (h_entries h) \<le> h_capacity h
     \<and> 1 \<le> h_next h \<and> h_next h \<le> u64_max \<and> h_dropped h \<le> u64_max
     \<and> (h_exhausted h \<longrightarrow> h_next h = u64_max \<and> h_entries h \<noteq> [])
     \<and> length (h_entries h) < history_end h
     \<and> map de_sequence (h_entries h) = [history_end h - length (h_entries h) ..< history_end h]"

inductive history_step :: "history \<Rightarrow> history \<Rightarrow> bool" where
  "history_step h (record_entry now code actor operation failure env h)"

lemma history_inv_new: "history_inv (history_new capacity epoch)"
  by (simp add: history_inv_def history_end_def history_new_def u64_max_def)

lemma mk_entry_sequence [simp]: "de_sequence (mk_entry ep n now c a op f e) = n"
  by (simp add: mk_entry_def)

lemma record_entry_inv:
  assumes inv: "history_inv h"
  shows "history_inv (record_entry now c a op f e h)"
proof (cases "h_capacity h = 0 \<or> h_exhausted h")
  case True
  with inv show ?thesis by (auto simp: record_entry_def history_inv_def history_end_def)
next
  case False
  define es where "es = (if length (h_entries h) = h_capacity h then tl (h_entries h) else h_entries h)"
  have seq: "map de_sequence es = [h_next h - length es ..< h_next h]"
    using inv False by (auto simp: es_def history_inv_def history_end_def map_tl Suc_diff_le)
  have less: "length es < h_capacity h" "length es < h_next h"
    using inv False by (auto simp: es_def history_inv_def history_end_def)
  have new: "h_entries (record_entry now c a op f e h) = es @ [mk_entry (h_epoch h) (h_next h) now c a op f e]"
    "h_capacity (record_entry now c a op f e h) = h_capacity h"
    "history_end (record_entry now c a op f e h) = Suc (h_next h)"
    using False by (auto simp: record_entry_def es_def Let_def history_end_def)
  have "map de_sequence (es @ [mk_entry (h_epoch h) (h_next h) now c a op f e])
      = [Suc (h_next h) - Suc (length es) ..< Suc (h_next h)]"
    using seq by simp
  moreover have "h_next (record_entry now c a op f e h) \<le> u64_max"
    "1 \<le> h_next (record_entry now c a op f e h)"
    "h_dropped (record_entry now c a op f e h) \<le> u64_max"
    "h_exhausted (record_entry now c a op f e h) \<longrightarrow> h_next (record_entry now c a op f e h) = u64_max"
    using inv False by (auto simp: record_entry_def Let_def history_inv_def)
  ultimately show ?thesis
    using less unfolding history_inv_def new by simp
qed

interpretation ring: invariant_system "\<lambda>h. \<exists>cap epoch. h = history_new cap epoch" history_step history_inv
  by unfold_locales (auto simp: history_inv_new elim!: history_step.cases intro: record_entry_inv)

lemma history_first:
  assumes "history_inv h"
  shows "(case h_entries h of [] \<Rightarrow> h_next h | e # _ \<Rightarrow> de_sequence e)
       = history_end h - length (h_entries h)"
proof (cases "h_entries h")
  case Nil
  with assms show ?thesis by (auto simp: history_inv_def history_end_def)
next
  case (Cons e es)
  with assms have "de_sequence e # map de_sequence es = [history_end h - length (h_entries h)..<history_end h]"
    by (simp add: history_inv_def)
  then have "de_sequence e = history_end h - length (h_entries h)"
    by (metis list.inject upt_eq_Cons_conv)
  with Cons show ?thesis by simp
qed

lemma filter_sequence:
  "map f xs = [a..<b] \<Longrightarrow> map f (filter (\<lambda>x. c < f x) xs) = [max (Suc c) a..<b]"
proof (induction xs arbitrary: a)
  case (Cons x xs)
  then have "[a..<b] = f x # map f xs" by simp
  then have "f x = a" "map f xs = [Suc a..<b]" "a < b"
    unfolding upt_eq_Cons_conv by auto
  with Cons.IH [of "Suc a"] show ?case
    by (cases "c = a") (auto simp: max_def upt_conv_Cons not_less_eq_eq)
qed (auto simp: eq_commute [of "[]"])

text \<open>in every history built by recording, a cursor read returns consecutive sequence
  numbers, starting right after the cursor or at the oldest retained entry, and it reports a gap
  exactly when entries after the cursor have been evicted, so a reader that sees no gap has
  missed nothing.\<close>

theorem history_read_contiguous:
  assumes "reachable (\<lambda>h. \<exists>cap epoch. h = history_new cap epoch) history_step h"
    and "after \<le> u64_max"
  shows "map de_sequence (dr_entries (history_read after limit h))
       = take limit [max (Suc after) (history_end h - length (h_entries h)) ..< history_end h]
     \<and> (dr_gap (history_read after limit h) = None \<longleftrightarrow>
          (\<forall>n. after < n \<longrightarrow> n < history_end h \<longrightarrow> n \<in> set (map de_sequence (h_entries h))))
     \<and> length (h_entries h) \<le> h_capacity h"
proof -
  have inv: "history_inv h" using assms(1) by (rule ring.reachable_invar)
  define a where "a = history_end h - length (h_entries h)"
  have seq: "map de_sequence (h_entries h) = [a..<history_end h]"
    using inv by (simp add: history_inv_def a_def)
  have bounds: "a \<le> u64_max" "a \<le> history_end h" "1 \<le> a"
    using inv by (auto simp: history_inv_def a_def history_end_def Suc_le_eq split: if_splits)
  have ent: "map de_sequence (dr_entries (history_read after limit h))
       = take limit [max (Suc after) a ..< history_end h]"
    using filter_sequence [OF seq, of after]
    by (simp add: history_read_def Let_def take_map [symmetric])
  have "dr_gap (history_read after limit h) = None \<longleftrightarrow> a \<le> min u64_max (Suc after)"
    using history_first [OF inv]
    by (auto simp: history_read_def Let_def a_def saturating_add_def)
  also have "\<dots> \<longleftrightarrow> (\<forall>n. after < n \<longrightarrow> n < history_end h \<longrightarrow> n \<in> set [a..<history_end h])"
    using bounds assms(2) by auto
  finally show ?thesis
    using ent inv by (simp add: seq a_def history_inv_def)
qed

theorem history_read_contiguous_witness:
  "dr_gap (history_read 0 10 (record_entry 5 DCCancelled None None None None
      (record_entry 3 DCDrainTimeout None None None None (history_new 1 0)))) \<noteq> None"
proof -
  let ?h = "record_entry 5 DCCancelled None None None None
      (record_entry 3 DCDrainTimeout None None None None (history_new 1 0))"
  let ?init = "\<lambda>h. \<exists>cap epoch. h = history_new cap epoch"
  have "reachable ?init history_step (history_new 1 0)"
    by (rule reachable_init) blast
  then have "reachable ?init history_step (record_entry 3 DCDrainTimeout None None None None (history_new 1 0))"
    by (rule reachable_step) (rule history_step.intros)
  then have "reachable ?init history_step ?h"
    by (rule reachable_step) (rule history_step.intros)
  from history_read_contiguous [OF this, of 0 10] show ?thesis
    by (auto simp: record_entry_def history_new_def history_end_def u64_max_def Let_def mk_entry_def
        saturating_add_def dest!: spec [of _ 1])
qed

section \<open>The ring as a bounded log\<close>

text \<open>The calls a history receives, as tuples of the arguments of \<open>record_entry\<close>.\<close>

type_synonym record_call =
  "instant \<times> diagnostic_code \<times> actor_ref option \<times> operation_id option \<times> failure_record option
   \<times> envelope option"

fun apply_call :: "record_call \<Rightarrow> history \<Rightarrow> history" where
  "apply_call (now, code, actor, operation, failure, env) h =
     record_entry now code actor operation failure env h"

fun call_entry :: "instant \<Rightarrow> nat \<Rightarrow> record_call \<Rightarrow> diagnostic_entry" where
  "call_entry epoch sequence (now, code, actor, operation, failure, env) =
     mk_entry epoch sequence now code actor operation failure env"

definition history_run :: "nat \<Rightarrow> instant \<Rightarrow> record_call list \<Rightarrow> history" where
  "history_run capacity epoch calls = foldl (\<lambda>h c. apply_call c h) (history_new capacity epoch) calls"

text \<open>the ring is the abstract log of all record calls cut to its last \<open>capacity\<close>
  entries: the entry of the i-th call has sequence number i, the number of dropped entries is
  the number of calls no longer retained, and a history of capacity 0 retains nothing.\<close>

theorem history_run_log:
  assumes "length calls < u64_max"
  shows "history_run capacity epoch calls =
    \<lparr>h_capacity = capacity,
     h_next = (if capacity = 0 then 1 else Suc (length calls)),
     h_dropped = length calls - capacity,
     h_entries = map (\<lambda>i. call_entry epoch (Suc i) (calls ! i)) [length calls - capacity ..< length calls],
     h_epoch = epoch,
     h_exhausted = False\<rparr>"
  using assms
proof (induction calls rule: rev_induct)
  case Nil
  then show ?case by (simp add: history_run_def history_new_def)
next
  case (snoc c calls)
  let ?n = "length calls"
  from snoc have run: "history_run capacity epoch (calls @ [c]) = apply_call c (history_run capacity epoch calls)"
    and len: "?n < u64_max"
    by (simp_all add: history_run_def)
  have keep: "map (\<lambda>i. call_entry epoch (Suc i) ((calls @ [c]) ! i)) [k..<?n]
      = map (\<lambda>i. call_entry epoch (Suc i) (calls ! i)) [k..<?n]" for k
    by (simp add: nth_append)
  obtain now code actor operation failure env where c: "c = (now, code, actor, operation, failure, env)"
    by (cases c)
  consider "capacity = 0" | "0 < capacity" "?n < capacity" | "0 < capacity" "capacity \<le> ?n" by fastforce
  then show ?case
  proof cases
    case 1
    with snoc len show ?thesis
      unfolding run by (simp add: c record_entry_def saturating_add_def min_def)
  next
    case 2
    with snoc len show ?thesis
      unfolding run by (simp add: c record_entry_def Let_def keep nth_append)
  next
    case 3
    then have "[?n - capacity..<?n] = (?n - capacity) # [Suc (?n - capacity)..<?n]"
      by (simp add: upt_conv_Cons)
    with 3 snoc len show ?thesis
      unfolding run
      by (simp add: c record_entry_def Let_def keep nth_append Suc_diff_le saturating_add_def min_def)
  qed
qed

theorem history_run_log_witness:
  "h_dropped (history_run 1 0 [(3, DCDrainTimeout, None, None, None, None), (5, DCCancelled, None, None, None, None)]) = 1"
  using history_run_log [of "[(3, DCDrainTimeout, None, None, None, None), (5, DCCancelled, None, None, None, None)]" 1 0]
  by (simp add: u64_max_def)

end
