(* ===== verification/Schema.thy ===== *)
theory Schema
  imports Containers Utf8
begin

text \<open>
  Structured event schemas, \<^verbatim>\<open>crates/runtime-core/src/schema.rs\<close> and
  \<^verbatim>\<open>schema/encode.rs\<close>: descriptors and their validation, the canonical byte encoding, the reader
  that validates and decodes it, and the registry.

  A reader keeps the unread suffix of its buffer in place of the buffer and its position; \<^verbatim>\<open>f64\<close>
  values are their 64-bit patterns, which \<^verbatim>\<open>from_bits\<close> and \<^verbatim>\<open>to_bits\<close> preserve. Error messages are
  kept, cut to 256 characters as the source does.
\<close>

section \<open>Descriptors and values\<close>

datatype field_type =
    TInt int int
  | TUInt nat nat
  | TFloat bool
  | TBool
  | TString nat
  | TBytes nat
  | TEnum bytes "bytes list"
  | TOptional field_type
  | TSequence field_type nat
  | TRecord schema
and schema = Schema (sc_name: bytes) (sc_version: nat) (sc_fields: "field list")
and field = Field (f_name: bytes) (f_ty: field_type)

datatype val =
    VInt int
  | VUInt nat
  | VFloat nat
  | VBool bool
  | VString bytes
  | VBytes bytes
  | VEnum nat
  | VOptional "val option"
  | VSequence "val list"
  | VRecord "val list"

type_synonym schema_error = bytes
type_synonym 'a sresult = "schema_error + 'a"

definition serr :: "bytes \<Rightarrow> schema_error" where
  "serr s = take_chars 256 s"

definition err_at :: "bytes \<Rightarrow> 'a sresult \<Rightarrow> 'a sresult" where
  "err_at fld r = (case r of Inl e \<Rightarrow> Inl (serr (fld @ ''.'' @ e)) | Inr a \<Rightarrow> Inr a)"

fun show_nat :: "nat \<Rightarrow> bytes" where
  "show_nat n = (if n < 10 then [char_of (48 + n)] else show_nat (n div 10) @ [char_of (48 + n mod 10)])"

declare show_nat.simps [simp del]

definition index_name :: "nat \<Rightarrow> bytes" where
  "index_name i = ''['' @ show_nat i @ '']''"

section \<open>Validation of descriptors\<close>

definition EVENT_MAX :: nat where
  "EVENT_MAX = 1048576"

fun windows_ascending :: "bytes list \<Rightarrow> bool" where
  "windows_ascending (a # b # rest) \<longleftrightarrow> a < b \<and> windows_ascending (b # rest)"
| "windows_ascending _ \<longleftrightarrow> True"

fun valid_ty :: "field_type \<Rightarrow> nat \<Rightarrow> nat \<Rightarrow> nat sresult"
  and validate_schema :: "schema \<Rightarrow> nat \<Rightarrow> nat \<Rightarrow> nat sresult"
  and validate_fields :: "field list \<Rightarrow> bytes list \<Rightarrow> nat \<Rightarrow> nat \<Rightarrow> nat sresult"
  and validate_field :: "field \<Rightarrow> bytes list \<Rightarrow> nat \<Rightarrow> nat \<Rightarrow> nat sresult" where
  "valid_ty (TRecord s) d nodes = validate_schema s d nodes"
| "valid_ty (TInt mn mx) d nodes =
     (if nodes + 1 > 1024 then Inl (serr ''schema node limit 1024'')
      else if d > 16 then Inl (serr ''schema depth limit'')
      else if mn > mx then Inl (serr ''invalid integer range'') else Inr (nodes + 1))"
| "valid_ty (TUInt umn umx) d nodes =
     (if nodes + 1 > 1024 then Inl (serr ''schema node limit 1024'')
      else if d > 16 then Inl (serr ''schema depth limit'')
      else if umn > umx then Inl (serr ''invalid unsigned range'') else Inr (nodes + 1))"
| "valid_ty (TFloat b) d nodes =
     (if nodes + 1 > 1024 then Inl (serr ''schema node limit 1024'')
      else if d > 16 then Inl (serr ''schema depth limit'') else Inr (nodes + 1))"
| "valid_ty TBool d nodes =
     (if nodes + 1 > 1024 then Inl (serr ''schema node limit 1024'')
      else if d > 16 then Inl (serr ''schema depth limit'') else Inr (nodes + 1))"
| "valid_ty (TString max_bytes) d nodes =
     (if nodes + 1 > 1024 then Inl (serr ''schema node limit 1024'')
      else if d > 16 then Inl (serr ''schema depth limit'')
      else if max_bytes > EVENT_MAX then Inl (serr ''byte limit'') else Inr (nodes + 1))"
| "valid_ty (TBytes max_bytes) d nodes =
     (if nodes + 1 > 1024 then Inl (serr ''schema node limit 1024'')
      else if d > 16 then Inl (serr ''schema depth limit'')
      else if max_bytes > EVENT_MAX then Inl (serr ''byte limit'') else Inr (nodes + 1))"
| "valid_ty (TEnum name variants) d nodes =
     (if nodes + 1 > 1024 then Inl (serr ''schema node limit 1024'')
      else if d > 16 then Inl (serr ''schema depth limit'')
      else if name = [] \<or> length name > 256 \<or> variants = [] \<or> length variants > 256
         \<or> list_ex (\<lambda>v. v = [] \<or> length v > 256) variants \<or> \<not> windows_ascending variants
      then Inl (serr ''enum limit'') else Inr (nodes + 1))"
| "valid_ty (TOptional x) d nodes =
     (if nodes + 1 > 1024 then Inl (serr ''schema node limit 1024'')
      else if d > 16 then Inl (serr ''schema depth limit'')
      else valid_ty x (d + 1) (nodes + 1))"
| "valid_ty (TSequence item max_len) d nodes =
     (if nodes + 1 > 1024 then Inl (serr ''schema node limit 1024'')
      else if d > 16 then Inl (serr ''schema depth limit'')
      else if max_len > 4096 then Inl (serr ''sequence limit'')
      else valid_ty item (d + 1) (nodes + 1))"
| "validate_schema (Schema name version flds) d nodes =
     (if d > 16 then Inl (serr ''schema depth limit'')
      else if nodes + 1 > 1024 then Inl (serr ''schema node limit'')
      else if name = [] \<or> length name > 256 \<or> version = 0 \<or> length flds > 256
      then Inl (serr ''invalid schema metadata'')
      else validate_fields flds [] d (nodes + 1))"
| "validate_fields [] names d nodes = Inr nodes"
| "validate_fields (f # fs) names d nodes =
     bindR (validate_field f names d nodes) (\<lambda>n. validate_fields fs (f_name f # names) d n)"
| "validate_field (Field fname fty) names d nodes =
     (if fname = [] \<or> length fname > 128 then Inl (serr ''invalid field metadata'')
      else if fname \<in> set names then Inl (serr ''duplicate field name'')
      else err_at fname (valid_ty fty (d + 1) nodes))"

definition schema_validate :: "schema \<Rightarrow> unit sresult" where
  "schema_validate s = bindR (validate_schema s 0 0) (\<lambda>_. Inr ())"

section \<open>Bytes and floats\<close>

fun le_bytes :: "nat \<Rightarrow> nat \<Rightarrow> bytes" where
  "le_bytes 0 n = []"
| "le_bytes (Suc k) n = char_of (n mod 256) # le_bytes k (n div 256)"

fun from_le :: "bytes \<Rightarrow> nat" where
  "from_le [] = 0"
| "from_le (c # cs) = of_char c + 256 * from_le cs"

definition i64_of :: "nat \<Rightarrow> int" where
  "i64_of u = (if u \<ge> 9223372036854775808 then int u - 18446744073709551616 else int u)"

definition u64_of :: "int \<Rightarrow> nat" where
  "u64_of x = nat (x mod 18446744073709551616)"

definition CANONICAL_NAN :: nat where
  "CANONICAL_NAN = 9221120237041090560"

definition f64_exponent :: "nat \<Rightarrow> nat" where
  "f64_exponent bits = (bits div 4503599627370496) mod 2048"

definition f64_is_finite :: "nat \<Rightarrow> bool" where
  "f64_is_finite bits \<longleftrightarrow> f64_exponent bits \<noteq> 2047"

definition f64_is_nan :: "nat \<Rightarrow> bool" where
  "f64_is_nan bits \<longleftrightarrow> f64_exponent bits = 2047 \<and> bits mod 4503599627370496 \<noteq> 0"

section \<open>Reader\<close>

record reader =
  rd_rest :: bytes
  rd_nodes :: nat

definition rd_take :: "nat \<Rightarrow> reader \<Rightarrow> (bytes \<times> reader) sresult" where
  "rd_take n r =
     (if n > length (rd_rest r) then Inl (serr ''truncated value'')
      else Inr (take n (rd_rest r), r\<lparr>rd_rest := drop n (rd_rest r)\<rparr>))"

definition rd_u32 :: "reader \<Rightarrow> (nat \<times> reader) sresult" where
  "rd_u32 r = bindR (rd_take 4 r) (\<lambda>(b, r'). Inr (from_le b, r'))"

text \<open>The two checks \<^verbatim>\<open>Reader::val\<close> makes before it looks at a value that is not a record.\<close>

definition rd_node :: "nat \<Rightarrow> reader \<Rightarrow> reader sresult" where
  "rd_node d r =
     (let r' = r\<lparr>rd_nodes := rd_nodes r + 1\<rparr> in
      if rd_nodes r' > 4096 then Inl (serr ''value node limit'')
      else if d > 16 then Inl (serr ''value depth limit'') else Inr r')"

text \<open>The item loop of a sequence; \<open>i\<close> counts up for the error path.\<close>

fun rd_many :: "(reader \<Rightarrow> (val \<times> reader) sresult) \<Rightarrow> bool \<Rightarrow> nat \<Rightarrow> nat \<Rightarrow> reader \<Rightarrow> (val list \<times> reader) sresult" where
  "rd_many item build i 0 r = Inr ([], r)"
| "rd_many item build i (Suc n) r =
     bindR (err_at (index_name i) (item r)) (\<lambda>(v, r1).
     bindR (rd_many item build (i + 1) n r1) (\<lambda>(vs, r2). Inr (if build then v # vs else vs, r2)))"

lemma rd_many_cong [fundef_cong]:
  "(\<And>r. f r = g r) \<Longrightarrow> build = build' \<Longrightarrow> i = i' \<Longrightarrow> n = n' \<Longrightarrow> r = r' \<Longrightarrow>
     rd_many f build i n r = rd_many g build' i' n' r'"
proof -
  assume "\<And>r. f r = g r" "build = build'" "i = i'" "n = n'" "r = r'"
  moreover from this have "f = g" by (intro ext)
  ultimately show ?thesis by simp
qed

fun rd_val :: "bool \<Rightarrow> field_type \<Rightarrow> nat \<Rightarrow> reader \<Rightarrow> (val \<times> reader) sresult"
  and rd_record :: "bool \<Rightarrow> schema \<Rightarrow> nat \<Rightarrow> reader \<Rightarrow> (val \<times> reader) sresult"
  and rd_fields :: "bool \<Rightarrow> field list \<Rightarrow> nat \<Rightarrow> reader \<Rightarrow> (val list \<times> reader) sresult"
  and rd_field :: "bool \<Rightarrow> field \<Rightarrow> nat \<Rightarrow> reader \<Rightarrow> (val \<times> reader) sresult" where
  "rd_val build (TRecord s) d r = rd_record build s d r"
| "rd_val build (TInt mn mx) d r =
     bindR (rd_node d r) (\<lambda>r. bindR (rd_take 8 r) (\<lambda>(b, r).
       let v = i64_of (from_le b) in
       if v < mn \<or> v > mx then Inl (serr ''integer range'') else Inr (VInt v, r)))"
| "rd_val build (TUInt umn umx) d r =
     bindR (rd_node d r) (\<lambda>r. bindR (rd_take 8 r) (\<lambda>(b, r).
       let v = from_le b in
       if v < umn \<or> v > umx then Inl (serr ''unsigned range'') else Inr (VUInt v, r)))"
| "rd_val build (TFloat allow_non_finite) d r =
     bindR (rd_node d r) (\<lambda>r. bindR (rd_take 8 r) (\<lambda>(b, r).
       let x = from_le b in
       if \<not> allow_non_finite \<and> \<not> f64_is_finite x then Inl (serr ''non-finite float'')
       else if allow_non_finite \<and> f64_is_nan x \<and> x \<noteq> CANONICAL_NAN
       then Inl (serr ''non-canonical NaN'')
       else Inr (VFloat x, r)))"
| "rd_val build TBool d r =
     bindR (rd_node d r) (\<lambda>r. bindR (rd_take 1 r) (\<lambda>(b, r).
       let x = (of_char (hd b) :: nat) in
       if x = 0 then Inr (VBool False, r) else if x = 1 then Inr (VBool True, r)
       else Inl (serr ''invalid bool'')))"
| "rd_val build (TString max_bytes) d r =
     bindR (rd_node d r) (\<lambda>r. bindR (rd_u32 r) (\<lambda>(n, r).
       if n > max_bytes then Inl (serr ''string limit'')
       else bindR (rd_take n r) (\<lambda>(t, r).
         if \<not> utf8_valid t then Inl (serr ''expected valid UTF-8 string'')
         else Inr (VString (if build then t else []), r))))"
| "rd_val build (TBytes max_bytes) d r =
     bindR (rd_node d r) (\<lambda>r. bindR (rd_u32 r) (\<lambda>(n, r).
       if n > max_bytes then Inl (serr ''bytes limit'')
       else bindR (rd_take n r) (\<lambda>(b, r). Inr (VBytes (if build then b else []), r))))"
| "rd_val build (TEnum name variants) d r =
     bindR (rd_node d r) (\<lambda>r. bindR (rd_u32 r) (\<lambda>(n, r).
       if n \<ge> length variants then Inl (serr ''enum index'') else Inr (VEnum n, r)))"
| "rd_val build (TOptional x) d r =
     bindR (rd_node d r) (\<lambda>r. bindR (rd_take 1 r) (\<lambda>(b, r).
       let p = (of_char (hd b) :: nat) in
       if p = 0 then Inr (VOptional None, r)
       else if p = 1 then
         bindR (rd_val build x (d + 1) r) (\<lambda>(v, r). Inr (VOptional (if build then Some v else None), r))
       else Inl (serr ''invalid option'')))"
| "rd_val build (TSequence item max_len) d r =
     bindR (rd_node d r) (\<lambda>r. bindR (rd_u32 r) (\<lambda>(n, r).
       if n > max_len \<or> n > 4096 - rd_nodes r then Inl (serr ''sequence length'')
       else bindR (rd_many (\<lambda>r. rd_val build item (d + 1) r) build 0 n r) (\<lambda>(vs, r). Inr (VSequence vs, r))))"
| "rd_record build (Schema name version flds) d r =
     (let r' = r\<lparr>rd_nodes := rd_nodes r + 1\<rparr> in
      if rd_nodes r' > 4096 \<or> d > 16 then Inl (serr ''value node limit'')
      else bindR (rd_fields build flds d r') (\<lambda>(vs, r). Inr (VRecord vs, r)))"
| "rd_fields build [] d r = Inr ([], r)"
| "rd_fields build (f # fs) d r =
     bindR (rd_field build f d r) (\<lambda>(v, r1).
     bindR (rd_fields build fs d r1) (\<lambda>(vs, r2). Inr (if build then v # vs else vs, r2)))"
| "rd_field build (Field fname fty) d r = err_at fname (rd_val build fty (d + 1) r)"

definition schema_read :: "bool \<Rightarrow> schema \<Rightarrow> bytes \<Rightarrow> val sresult" where
  "schema_read build s b =
     (if length b > EVENT_MAX then Inl (serr ''event exceeds 1048576 bytes'')
      else bindR (err_at (sc_name s) (rd_record build s 0 \<lparr>rd_rest = b, rd_nodes = 0\<rparr>)) (\<lambda>(out, r).
        if rd_rest r \<noteq> [] then Inl (serr ''trailing bytes'') else Inr out))"

definition validate_registered_bytes :: "schema \<Rightarrow> bytes \<Rightarrow> unit sresult" where
  "validate_registered_bytes s b = bindR (schema_read False s b) (\<lambda>_. Inr ())"

definition validate_bytes :: "schema \<Rightarrow> bytes \<Rightarrow> unit sresult" where
  "validate_bytes s b = bindR (schema_validate s) (\<lambda>_. validate_registered_bytes s b)"

definition schema_decode :: "schema \<Rightarrow> bytes \<Rightarrow> val sresult" where
  "schema_decode s b = bindR (schema_validate s) (\<lambda>_. schema_read True s b)"

section \<open>Writer\<close>

record writer =
  w_out :: bytes
  w_max :: nat
  w_nodes :: nat

definition wr_add :: "bytes \<Rightarrow> writer \<Rightarrow> writer sresult" where
  "wr_add b w =
     (case checked_add usize_max (length (w_out w)) (length b) of
        None \<Rightarrow> Inl (serr ''event size'')
      | Some n \<Rightarrow> if n > w_max w then Inl (serr ''event size'') else Inr (w\<lparr>w_out := w_out w @ b\<rparr>))"

definition wr_node :: "nat \<Rightarrow> writer \<Rightarrow> writer sresult" where
  "wr_node d w =
     (let w' = w\<lparr>w_nodes := w_nodes w + 1\<rparr> in
      if w_nodes w' > 4096 \<or> d > 16 then Inl (serr ''value node/depth limit'') else Inr w')"

fun wr_many :: "(val \<Rightarrow> writer \<Rightarrow> writer sresult) \<Rightarrow> nat \<Rightarrow> val list \<Rightarrow> writer \<Rightarrow> writer sresult" where
  "wr_many item i [] w = Inr w"
| "wr_many item i (x # xs) w =
     bindR (err_at (index_name i) (item x w)) (\<lambda>w. wr_many item (i + 1) xs w)"

lemma wr_many_cong [fundef_cong]:
  "(\<And>x w. f x w = g x w) \<Longrightarrow> i = i' \<Longrightarrow> xs = xs' \<Longrightarrow> w = w' \<Longrightarrow> wr_many f i xs w = wr_many g i' xs' w'"
proof -
  assume "\<And>x w. f x w = g x w" "i = i'" "xs = xs'" "w = w'"
  moreover from this have "f = g" by (intro ext)
  ultimately show ?thesis by simp
qed

fun wr_val :: "field_type \<Rightarrow> val \<Rightarrow> nat \<Rightarrow> writer \<Rightarrow> writer sresult"
  and wr_record :: "schema \<Rightarrow> val \<Rightarrow> nat \<Rightarrow> writer \<Rightarrow> writer sresult"
  and wr_fields :: "field list \<Rightarrow> val list \<Rightarrow> nat \<Rightarrow> writer \<Rightarrow> writer sresult"
  and wr_field :: "field \<Rightarrow> val \<Rightarrow> nat \<Rightarrow> writer \<Rightarrow> writer sresult" where
  "wr_val (TRecord s) v d w = wr_record s v d w"
| "wr_val (TInt mn mx) v d w =
     bindR (wr_node d w) (\<lambda>w. case v of
       VInt x \<Rightarrow> if x \<ge> mn \<and> x \<le> mx then wr_add (le_bytes 8 (u64_of x)) w
                 else Inl (serr ''value does not match schema'')
     | _ \<Rightarrow> Inl (serr ''value does not match schema''))"
| "wr_val (TUInt umn umx) v d w =
     bindR (wr_node d w) (\<lambda>w. case v of
       VUInt x \<Rightarrow> if x \<ge> umn \<and> x \<le> umx then wr_add (le_bytes 8 x) w
                  else Inl (serr ''value does not match schema'')
     | _ \<Rightarrow> Inl (serr ''value does not match schema''))"
| "wr_val (TFloat allow_non_finite) v d w =
     bindR (wr_node d w) (\<lambda>w. case v of
       VFloat x \<Rightarrow> if \<not> allow_non_finite \<and> \<not> f64_is_finite x then Inl (serr ''invalid float'')
                   else wr_add (le_bytes 8 (if f64_is_nan x then CANONICAL_NAN else x)) w
     | _ \<Rightarrow> Inl (serr ''value does not match schema''))"
| "wr_val TBool v d w =
     bindR (wr_node d w) (\<lambda>w. case v of
       VBool x \<Rightarrow> wr_add [char_of (if x then 1 else 0 :: nat)] w
     | _ \<Rightarrow> Inl (serr ''value does not match schema''))"
| "wr_val (TString max_bytes) v d w =
     bindR (wr_node d w) (\<lambda>w. case v of
       VString x \<Rightarrow> if length x > max_bytes then Inl (serr ''string limit'')
                    else bindR (wr_add (le_bytes 4 (length x)) w) (wr_add x)
     | _ \<Rightarrow> Inl (serr ''value does not match schema''))"
| "wr_val (TBytes max_bytes) v d w =
     bindR (wr_node d w) (\<lambda>w. case v of
       VBytes x \<Rightarrow> if length x > max_bytes then Inl (serr ''bytes limit'')
                   else bindR (wr_add (le_bytes 4 (length x)) w) (wr_add x)
     | _ \<Rightarrow> Inl (serr ''value does not match schema''))"
| "wr_val (TEnum name variants) v d w =
     bindR (wr_node d w) (\<lambda>w. case v of
       VEnum x \<Rightarrow> if x < length variants then wr_add (le_bytes 4 x) w
                  else Inl (serr ''value does not match schema'')
     | _ \<Rightarrow> Inl (serr ''value does not match schema''))"
| "wr_val (TOptional x) v d w =
     bindR (wr_node d w) (\<lambda>w. case v of
       VOptional None \<Rightarrow> wr_add [char_of (0::nat)] w
     | VOptional (Some y) \<Rightarrow> bindR (wr_add [char_of (1::nat)] w) (\<lambda>w. wr_val x y (d + 1) w)
     | _ \<Rightarrow> Inl (serr ''value does not match schema''))"
| "wr_val (TSequence item max_len) v d w =
     bindR (wr_node d w) (\<lambda>w. case v of
       VSequence xs \<Rightarrow>
         if length xs \<le> max_len then
           (if length xs > 4096 - w_nodes w then Inl (serr ''remaining value node limit'')
            else bindR (wr_add (le_bytes 4 (length xs)) w)
                   (wr_many (\<lambda>y w. wr_val item y (d + 1) w) 0 xs))
         else Inl (serr ''value does not match schema'')
     | _ \<Rightarrow> Inl (serr ''value does not match schema''))"
| "wr_record (Schema name version flds) v d w =
     bindR (wr_node d w) (\<lambda>w. case v of
       VRecord vals \<Rightarrow>
         if length vals \<noteq> length flds then Inl (serr ''record field count'')
         else wr_fields flds vals d w
     | _ \<Rightarrow> Inl (serr ''expected record''))"
| "wr_fields (f # fs) (x # xs) d w = bindR (wr_field f x d w) (\<lambda>w. wr_fields fs xs d w)"
| "wr_fields [] xs d w = Inr w"
| "wr_fields (f # fs) [] d w = Inr w"
| "wr_field (Field fname fty) x d w = err_at fname (wr_val fty x (d + 1) w)"

definition schema_encode :: "schema \<Rightarrow> val \<Rightarrow> nat \<Rightarrow> bytes sresult" where
  "schema_encode s v max_bytes =
     bindR (schema_validate s) (\<lambda>_.
       if max_bytes > EVENT_MAX then Inl (serr ''event byte limit'')
       else bindR (err_at (sc_name s) (wr_record s v 0 \<lparr>w_out = [], w_max = max_bytes, w_nodes = 0\<rparr>))
              (\<lambda>w. Inr (w_out w)))"

section \<open>Registry\<close>

text \<open>\<^verbatim>\<open>normalized_clone\<close> rebuilds the descriptor to drop spare capacity.\<close>

fun clone_ty :: "field_type \<Rightarrow> field_type"
  and normalized_clone :: "schema \<Rightarrow> schema"
  and clone_fields :: "field list \<Rightarrow> field list"
  and clone_field :: "field \<Rightarrow> field" where
  "clone_ty (TOptional x) = TOptional (clone_ty x)"
| "clone_ty (TSequence item max_len) = TSequence (clone_ty item) max_len"
| "clone_ty (TRecord s) = TRecord (normalized_clone s)"
| "clone_ty (TEnum name variants) = TEnum name variants"
| "clone_ty (TInt mn mx) = TInt mn mx"
| "clone_ty (TUInt umn umx) = TUInt umn umx"
| "clone_ty (TFloat b) = TFloat b"
| "clone_ty TBool = TBool"
| "clone_ty (TString n) = TString n"
| "clone_ty (TBytes n) = TBytes n"
| "normalized_clone (Schema name version flds) = Schema name version (clone_fields flds)"
| "clone_fields [] = []"
| "clone_fields (f # fs) = clone_field f # clone_fields fs"
| "clone_field (Field fname fty) = Field fname (clone_ty fty)"

type_synonym schema_key = "bytes \<times> nat"

definition schema_key :: "schema \<Rightarrow> schema_key" where
  "schema_key s = (sc_name s, sc_version s)"

text \<open>The items of the hash map are listed in insertion order; its iteration order in Rust is
  unspecified and only decides which of two equal error messages is produced.\<close>

record schema_registry =
  sg_max :: nat
  sg_next :: nat
  sg_items :: "(schema_key \<times> (nat \<times> schema)) list"

definition sg_new :: "nat \<Rightarrow> schema_registry sresult" where
  "sg_new mx =
     (if mx = 0 \<or> mx > 65536 then Inl (serr ''schema registry limit'')
      else Inr \<lparr>sg_max = min mx 65536, sg_next = 1, sg_items = []\<rparr>)"

fun collect_schema :: "schema \<Rightarrow> (schema_key \<rightharpoonup> schema) \<Rightarrow> (schema_key \<rightharpoonup> schema) sresult"
  and collect_fields :: "field list \<Rightarrow> (schema_key \<rightharpoonup> schema) \<Rightarrow> (schema_key \<rightharpoonup> schema) sresult"
  and collect_field :: "field \<Rightarrow> (schema_key \<rightharpoonup> schema) \<Rightarrow> (schema_key \<rightharpoonup> schema) sresult"
  and collect_walk :: "field_type \<Rightarrow> (schema_key \<rightharpoonup> schema) \<Rightarrow> (schema_key \<rightharpoonup> schema) sresult" where
  "collect_schema (Schema name version flds) seen =
     (case seen (name, version) of
        Some old \<Rightarrow>
          if old \<noteq> Schema name version flds then Inl (serr ''nested schema identity collision'')
          else collect_fields flds seen
      | None \<Rightarrow> collect_fields flds (seen((name, version) \<mapsto> Schema name version flds)))"
| "collect_fields [] seen = Inr seen"
| "collect_fields (f # fs) seen = bindR (collect_field f seen) (collect_fields fs)"
| "collect_field (Field fname fty) seen = collect_walk fty seen"
| "collect_walk (TOptional x) seen = collect_walk x seen"
| "collect_walk (TSequence x n) seen = collect_walk x seen"
| "collect_walk (TRecord s) seen = collect_schema s seen"
| "collect_walk (TInt mn mx) seen = Inr seen"
| "collect_walk (TUInt umn umx) seen = Inr seen"
| "collect_walk (TFloat b) seen = Inr seen"
| "collect_walk TBool seen = Inr seen"
| "collect_walk (TString n) seen = Inr seen"
| "collect_walk (TBytes n) seen = Inr seen"
| "collect_walk (TEnum name variants) seen = Inr seen"

fun collect_all :: "schema list \<Rightarrow> (schema_key \<rightharpoonup> schema) \<Rightarrow> (schema_key \<rightharpoonup> schema) sresult" where
  "collect_all [] seen = Inr seen"
| "collect_all (s # ss) seen = bindR (collect_schema s seen) (collect_all ss)"

fun validate_all :: "schema list \<Rightarrow> unit sresult" where
  "validate_all [] = Inr ()"
| "validate_all (s # ss) = bindR (schema_validate s) (\<lambda>_. validate_all ss)"

text \<open>The staging loop: the staged items, the next id and the ids assigned so far.\<close>

fun stage_all ::
  "nat \<Rightarrow> schema list \<Rightarrow> (schema_key \<times> (nat \<times> schema)) list \<Rightarrow> nat \<Rightarrow> nat list \<Rightarrow>
   ((schema_key \<times> (nat \<times> schema)) list \<times> nat \<times> nat list) sresult" where
  "stage_all mx [] staged nxt ids = Inr (staged, nxt, ids)"
| "stage_all mx (s # ss) staged nxt ids =
     (case map_of staged (schema_key s) of
        Some (sid, old) \<Rightarrow>
          if old = s then stage_all mx ss staged nxt (ids @ [sid])
          else Inl (serr ''schema identity collision'')
      | None \<Rightarrow>
          if length staged \<ge> mx then Inl (serr ''schema registry limit'')
          else (case checked_add u32_max nxt 1 of
                  None \<Rightarrow> Inl (serr ''schema id limit'')
                | Some nxt' \<Rightarrow>
                    stage_all mx ss (staged @ [(schema_key s, (nxt, normalized_clone s))]) nxt' (ids @ [nxt])))"

definition register_batch :: "schema list \<Rightarrow> schema_registry \<Rightarrow> schema_registry \<times> nat list sresult" where
  "register_batch schemas g =
     (if length schemas > sg_max g then (g, Inl (serr ''schema registration batch exceeds limit''))
      else case bindR (validate_all schemas) (\<lambda>_.
                bindR (collect_all schemas Map.empty) (\<lambda>nested.
                bindR (collect_all (map (snd \<circ> snd) (sg_items g)) nested) (\<lambda>_.
                  stage_all (sg_max g) schemas (sg_items g) (sg_next g) []))) of
             Inl e \<Rightarrow> (g, Inl e)
           | Inr (staged, nxt, ids) \<Rightarrow> (g\<lparr>sg_items := staged, sg_next := nxt\<rparr>, Inr ids))"

definition sg_register :: "schema \<Rightarrow> schema_registry \<Rightarrow> schema_registry \<times> nat sresult" where
  "sg_register s g =
     (case register_batch [s] g of
        (g', Inl e) \<Rightarrow> (g', Inl e)
      | (g', Inr ids) \<Rightarrow> (g', Inr (hd ids)))"

definition sg_schema :: "schema_registry \<Rightarrow> nat \<Rightarrow> schema sresult" where
  "sg_schema g sid =
     ok_or (serr ''unknown schema'') (map_option (snd \<circ> snd) (find (\<lambda>(k, i, s). i = sid) (sg_items g)))"

end
