(* ===== verification/Schema_Correct.thy ===== *)
theory Schema_Correct
  imports Schema
begin

text \<open>
  What the encoding guarantees: the writer's output is read back to the same value, the reader
  accepts only the writer's output, validation without building agrees with decoding, sizes are
  bounded, and the registry keeps one descriptor per identity.
\<close>

section \<open>Fixed-width integers\<close>

lemma byte_less: "(of_char c :: nat) < 256"
  by (rule nat_of_char_less_256)

lemma length_le_bytes [simp]: "length (le_bytes k n) = k"
  by (induction k arbitrary: n) auto

lemma from_le_le_bytes: "from_le (le_bytes k n) = n mod 256 ^ k"
proof (induction k arbitrary: n)
  case (Suc k)
  have "n mod (256 * 256 ^ k) = 256 * (n div 256 mod 256 ^ k) + n mod 256"
    by (rule mod_mult2_eq)
  with Suc show ?case by simp
qed simp

lemma le_bytes_from_le: "le_bytes (length bs) (from_le bs) = bs"
proof (induction bs)
  case (Cons c cs)
  have lt: "(of_char c :: nat) < 256" by (rule byte_less)
  then have "(of_char c + 256 * from_le cs) div 256 = from_le cs" by simp
  moreover have "(of_char c + 256 * from_le cs) mod 256 = (of_char c :: nat)" using lt by simp
  ultimately show ?case using Cons by simp
qed simp

lemma from_le_less: "from_le bs < 256 ^ length bs"
proof (induction bs)
  case (Cons c cs)
  have "(of_char c :: nat) \<le> 255" using byte_less [of c] by linarith
  moreover have "from_le cs + 1 \<le> 256 ^ length cs" using Cons by simp
  then have "256 * (from_le cs + 1) \<le> 256 * 256 ^ length cs" by (rule mult_le_mono2)
  ultimately show ?case by simp
qed simp

lemma i64_of_u64_of:
  assumes "- 9223372036854775808 \<le> x" "x < 9223372036854775808"
  shows "i64_of (u64_of x) = x"
proof (cases "0 \<le> x")
  case False
  have "(x + 18446744073709551616) mod 18446744073709551616 = x + 18446744073709551616"
    using assms False by (intro mod_pos_pos_trivial) auto
  then have "x mod 18446744073709551616 = x + 18446744073709551616" by simp
  then show ?thesis using assms False by (simp add: i64_of_def u64_of_def)
qed (use assms in \<open>simp add: i64_of_def u64_of_def\<close>)

lemma u64_of_i64_of: "u < 18446744073709551616 \<Longrightarrow> u64_of (i64_of u) = u"
  by (simp add: i64_of_def u64_of_def)

lemma u64_of_less: "u64_of x < 18446744073709551616"
  by (simp add: u64_of_def nat_less_iff)

lemma i64_of_range:
  "u < 18446744073709551616 \<Longrightarrow> - 9223372036854775808 \<le> i64_of u \<and> i64_of u < 9223372036854775808"
  by (auto simp: i64_of_def)

section \<open>Well-typed values and the limits validation establishes\<close>

text \<open>What Rust's types guarantee of a \<^verbatim>\<open>Value\<close>.\<close>

fun value_ok :: "val \<Rightarrow> bool" where
  "value_ok (VInt x) \<longleftrightarrow> - 9223372036854775808 \<le> x \<and> x < 9223372036854775808"
| "value_ok (VUInt n) \<longleftrightarrow> n \<le> u64_max"
| "value_ok (VFloat b) \<longleftrightarrow> b \<le> u64_max"
| "value_ok (VBool b) \<longleftrightarrow> True"
| "value_ok (VString s) \<longleftrightarrow> utf8_valid s"
| "value_ok (VBytes b) \<longleftrightarrow> True"
| "value_ok (VEnum n) \<longleftrightarrow> n \<le> u32_max"
| "value_ok (VOptional None) \<longleftrightarrow> True"
| "value_ok (VOptional (Some v)) \<longleftrightarrow> value_ok v"
| "value_ok (VSequence vs) \<longleftrightarrow> list_all value_ok vs"
| "value_ok (VRecord vs) \<longleftrightarrow> list_all value_ok vs"

text \<open>Every NaN is written as the canonical one.\<close>

fun canon :: "val \<Rightarrow> val" where
  "canon (VFloat b) = VFloat (if f64_is_nan b then CANONICAL_NAN else b)"
| "canon (VOptional None) = VOptional None"
| "canon (VOptional (Some v)) = VOptional (Some (canon v))"
| "canon (VSequence vs) = VSequence (map canon vs)"
| "canon (VRecord vs) = VRecord (map canon vs)"
| "canon v = v"

fun ty_ok :: "field_type \<Rightarrow> bool"
  and sc_ok :: "schema \<Rightarrow> bool"
  and fs_ok :: "field list \<Rightarrow> bool"
  and fd_ok :: "field \<Rightarrow> bool" where
  "ty_ok (TString n) \<longleftrightarrow> n \<le> EVENT_MAX"
| "ty_ok (TBytes n) \<longleftrightarrow> n \<le> EVENT_MAX"
| "ty_ok (TEnum name variants) \<longleftrightarrow> length variants \<le> 256"
| "ty_ok (TOptional x) \<longleftrightarrow> ty_ok x"
| "ty_ok (TSequence x n) \<longleftrightarrow> n \<le> 4096 \<and> ty_ok x"
| "ty_ok (TRecord s) \<longleftrightarrow> sc_ok s"
| "ty_ok (TInt mn mx) \<longleftrightarrow> True"
| "ty_ok (TUInt umn umx) \<longleftrightarrow> True"
| "ty_ok (TFloat b) \<longleftrightarrow> True"
| "ty_ok TBool \<longleftrightarrow> True"
| "sc_ok (Schema name version flds) \<longleftrightarrow> fs_ok flds"
| "fs_ok [] \<longleftrightarrow> True"
| "fs_ok (f # fs) \<longleftrightarrow> fd_ok f \<and> fs_ok fs"
| "fd_ok (Field fname fty) \<longleftrightarrow> ty_ok fty"

lemma err_at_Inr [simp]: "err_at f r = Inr x \<longleftrightarrow> r = Inr x"
  by (cases r) (simp_all add: err_at_def)

lemma err_at_ok [simp]: "err_at f (Inr x) = Inr x"
  by (simp add: err_at_def)

lemma validate_ok:
  "valid_ty t d n = Inr m \<Longrightarrow> ty_ok t"
  "validate_schema s d n = Inr m \<Longrightarrow> sc_ok s"
  "validate_fields fs names d n = Inr m \<Longrightarrow> fs_ok fs"
  "validate_field f names d n = Inr m \<Longrightarrow> fd_ok f"
  by (induction t d n and s d n and fs names d n and f names d n arbitrary: m and m and m and m
      rule: valid_ty_validate_schema_validate_fields_validate_field.induct)
    (auto simp: bindR_Inr_iff split: if_splits)

section \<open>Writing, then reading\<close>

text \<open>The writer went from \<open>w\<close> to \<open>w'\<close> by appending bytes that \<open>rd\<close> reads back as \<open>v\<close>, counting the
  same nodes.\<close>

definition wrote :: "writer \<Rightarrow> writer \<Rightarrow> (reader \<Rightarrow> ('a \<times> reader) sresult) \<Rightarrow> 'a \<Rightarrow> bool" where
  "wrote w w' rd v \<longleftrightarrow> (\<exists>bs. w_out w' = w_out w @ bs
     \<and> (\<forall>rest. rd \<lparr>rd_rest = bs @ rest, rd_nodes = w_nodes w\<rparr>
           = Inr (v, \<lparr>rd_rest = rest, rd_nodes = w_nodes w'\<rparr>)))"

lemma wrote_refl: "wrote w w (\<lambda>r. Inr (v, r)) v"
  by (simp add: wrote_def)

lemma wrote_bind:
  assumes "wrote w w1 rd v" "wrote w1 w2 (\<lambda>r. k (v, r)) u"
  shows "wrote w w2 (\<lambda>r. bindR (rd r) k) u"
proof -
  obtain b1 b2 where "w_out w1 = w_out w @ b1" "w_out w2 = w_out w1 @ b2"
    "\<forall>rest. rd \<lparr>rd_rest = b1 @ rest, rd_nodes = w_nodes w\<rparr> = Inr (v, \<lparr>rd_rest = rest, rd_nodes = w_nodes w1\<rparr>)"
    "\<forall>rest. k (v, \<lparr>rd_rest = b2 @ rest, rd_nodes = w_nodes w1\<rparr>) = Inr (u, \<lparr>rd_rest = rest, rd_nodes = w_nodes w2\<rparr>)"
    using assms by (auto simp: wrote_def)
  then show ?thesis unfolding wrote_def by (intro exI [of _ "b1 @ b2"]) simp
qed

lemma wrote_map: "wrote w w' rd v \<Longrightarrow> wrote w w' (\<lambda>r. bindR (rd r) (\<lambda>(v, r). Inr (f v, r))) (f v)"
  by (erule wrote_bind) (simp add: wrote_refl)

lemma wrote_add: "wr_add b w = Inr w' \<Longrightarrow> wrote w w' (rd_take (length b)) b"
  by (auto simp: wr_add_def wrote_def rd_take_def split: option.splits if_splits)

lemma wrote_node:
  assumes "wr_node d w = Inr w1" "wrote w1 w2 rd v"
  shows "wrote w w2 (\<lambda>r. bindR (rd_node d r) rd) v"
  using assms by (auto simp: wr_node_def wrote_def rd_node_def Let_def split: if_splits)

lemma wrote_u32:
  assumes "wr_add (le_bytes 4 n) w = Inr w'" "n \<le> u32_max"
  shows "wrote w w' rd_u32 n"
proof -
  have "from_le (le_bytes 4 n) = n" using assms(2) by (simp add: from_le_le_bytes u32_max_def)
  with wrote_map [OF wrote_add [OF assms(1)], of from_le] show ?thesis
    by (simp add: rd_u32_def [abs_def])
qed

lemma wrote_ext: "wrote w w' rd v \<Longrightarrow> (\<And>r. rd r = rd' r) \<Longrightarrow> wrote w w' rd' v"
  by (simp add: wrote_def)

lemma wrote_many:
  assumes "\<And>y w w'. y \<in> set xs \<Longrightarrow> item y w = Inr w' \<Longrightarrow> wrote w w' rd (f y)"
    and "wr_many item i xs w = Inr w'"
  shows "wrote w w' (rd_many rd True i (length xs)) (map f xs)"
  using assms
proof (induction xs arbitrary: i w)
  case (Cons x xs)
  from Cons.prems(2) obtain w1 where w1: "item x w = Inr w1" "wr_many item (i + 1) xs w1 = Inr w'"
    by (auto simp: bindR_Inr_iff)
  have "wrote w w1 (\<lambda>r. err_at (index_name i) (rd r)) (f x)"
    using Cons.prems(1) [of x] w1(1) by (auto simp: wrote_def)
  moreover have "wrote w1 w' (rd_many rd True (i + 1) (length xs)) (map f xs)"
    using Cons w1(2) by simp
  then have "wrote w1 w' (\<lambda>r. bindR (rd_many rd True (i + 1) (length xs) r)
      (\<lambda>(vs, r). Inr (f x # vs, r))) (f x # map f xs)"
    by (rule wrote_map)
  ultimately have "wrote w w' (\<lambda>r. bindR (err_at (index_name i) (rd r)) (\<lambda>(v, r1).
      bindR (rd_many rd True (i + 1) (length xs) r1) (\<lambda>(vs, r2). Inr (v # vs, r2)))) (f x # map f xs)"
    by (intro wrote_bind [where v = "f x"]) simp_all
  then show ?case by (simp add: wrote_def)
qed (simp add: wrote_def)

lemma wrote_text:
  assumes "bindR (wr_add (le_bytes 4 (length x)) w) (wr_add x) = Inr w'" "length x \<le> mx" "mx \<le> EVENT_MAX"
    and "\<And>r. k (x, r) = Inr (v, r)"
  shows "wrote w w' (\<lambda>r. bindR (rd_u32 r) (\<lambda>(n, r). if n > mx then Inl e else bindR (rd_take n r) k)) v"
proof -
  from assms(1) obtain w1 where w1: "wr_add (le_bytes 4 (length x)) w = Inr w1" "wr_add x w1 = Inr w'"
    by (auto simp: bindR_Inr_iff)
  have "wrote w1 w' (\<lambda>r. bindR (rd_take (length x) r) k) v"
    by (rule wrote_bind [OF wrote_add [OF w1(2)]]) (simp add: assms(4) wrote_refl)
  with assms(2,3) show ?thesis
    by (intro wrote_bind [OF wrote_u32 [OF w1(1)]]) (simp_all add: EVENT_MAX_def u32_max_def)
qed

lemma canonical_nan: "CANONICAL_NAN \<le> u64_max" "f64_is_nan CANONICAL_NAN" "\<not> f64_is_finite CANONICAL_NAN"
  by (simp_all add: CANONICAL_NAN_def u64_max_def f64_is_nan_def f64_is_finite_def f64_exponent_def)

lemma nan_not_finite: "f64_is_nan x \<Longrightarrow> \<not> f64_is_finite x"
  by (simp add: f64_is_nan_def f64_is_finite_def)

lemma wrote_le8:
  assumes "wr_add (le_bytes 8 n) w = Inr w'" "\<And>r. k (le_bytes 8 n, r) = Inr (v, r)"
  shows "wrote w w' (\<lambda>r. bindR (rd_take 8 r) k) v"
  using wrote_bind [OF wrote_add [OF assms(1)], where k = k] assms(2) by (simp add: wrote_refl)

lemma wrote_tag:
  assumes "wr_add [c] w = Inr w1" "wrote w1 w' (\<lambda>r. k ([c], r)) v"
  shows "wrote w w' (\<lambda>r. bindR (rd_take 1 r) k) v"
  using wrote_bind [OF wrote_add [OF assms(1)], where k = k] assms(2) by simp

lemma from_le_8 [simp]: "n \<le> u64_max \<Longrightarrow> from_le (le_bytes 8 n) = n"
  by (simp add: from_le_le_bytes u64_max_def)

lemma write_read:
  "wr_val t v d w = Inr w' \<Longrightarrow> value_ok v \<Longrightarrow> ty_ok t \<Longrightarrow> wrote w w' (rd_val True t d) (canon v)"
  "wr_record s v d w = Inr w' \<Longrightarrow> value_ok v \<Longrightarrow> sc_ok s \<Longrightarrow> wrote w w' (rd_record True s d) (canon v)"
  "wr_fields fs vs d w = Inr w' \<Longrightarrow> length vs = length fs \<Longrightarrow> list_all value_ok vs \<Longrightarrow> fs_ok fs \<Longrightarrow>
     wrote w w' (rd_fields True fs d) (map canon vs)"
  "wr_field f v d w = Inr w' \<Longrightarrow> value_ok v \<Longrightarrow> fd_ok f \<Longrightarrow> wrote w w' (rd_field True f d) (canon v)"
proof (induction t v d w and s v d w and fs vs d w and f v d w arbitrary: w' and w' and w' and w'
    rule: wr_val_wr_record_wr_fields_wr_field.induct)
  case (1 s v d w)
  then show ?case by (simp add: wrote_def)
next
  case (2 mn mx v d w)
  then obtain w1 x where x: "wr_node d w = Inr w1" "v = VInt x" "mn \<le> x" "x \<le> mx"
      "wr_add (le_bytes 8 (u64_of x)) w1 = Inr w'"
    by (cases v) (auto simp: bindR_Inr_iff split: if_splits)
  have "u64_of x \<le> u64_max" using u64_of_less [of x] by (simp add: u64_max_def)
  moreover have "i64_of (u64_of x) = x" using 2(2) x(2) by (intro i64_of_u64_of) simp_all
  ultimately show ?case
    unfolding rd_val.simps [abs_def]
    by (intro wrote_node [OF x(1)] wrote_le8 [OF x(5)]) (use x in simp)
next
  case (3 umn umx v d w)
  then obtain w1 x where x: "wr_node d w = Inr w1" "v = VUInt x" "umn \<le> x" "x \<le> umx"
      "wr_add (le_bytes 8 x) w1 = Inr w'"
    by (cases v) (auto simp: bindR_Inr_iff split: if_splits)
  with 3(2) show ?case
    unfolding rd_val.simps [abs_def] by (intro wrote_node [OF x(1)] wrote_le8 [OF x(5)]) simp
next
  case (4 b v d w)
  then obtain w1 x where x: "wr_node d w = Inr w1" "v = VFloat x" "b \<or> f64_is_finite x"
      "wr_add (le_bytes 8 (if f64_is_nan x then CANONICAL_NAN else x)) w1 = Inr w'"
    by (cases v) (auto simp: bindR_Inr_iff split: if_splits)
  with 4(2) nan_not_finite [of x] show ?case
    unfolding rd_val.simps [abs_def]
    by (intro wrote_node [OF x(1)] wrote_le8 [OF x(4)]) (auto simp: canonical_nan)
next
  case (5 v d w)
  then obtain w1 x where x: "wr_node d w = Inr w1" "v = VBool x"
      "wr_add [char_of (if x then 1 else 0 :: nat)] w1 = Inr w'"
    by (cases v) (auto simp: bindR_Inr_iff split: if_splits)
  then show ?case
    unfolding rd_val.simps [abs_def]
    by (intro wrote_node [OF x(1)] wrote_tag [OF x(3)]) (simp add: wrote_refl)
next
  case (6 n v d w)
  then obtain w1 x where x: "wr_node d w = Inr w1" "v = VString x" "length x \<le> n"
      "bindR (wr_add (le_bytes 4 (length x)) w1) (wr_add x) = Inr w'"
    by (cases v) (auto simp: bindR_Inr_iff split: if_splits)
  with 6(2,3) show ?case
    unfolding rd_val.simps [abs_def]
    by (intro wrote_node [OF x(1)] wrote_text [OF x(4)]) simp_all
next
  case (7 n v d w)
  then obtain w1 x where x: "wr_node d w = Inr w1" "v = VBytes x" "length x \<le> n"
      "bindR (wr_add (le_bytes 4 (length x)) w1) (wr_add x) = Inr w'"
    by (cases v) (auto simp: bindR_Inr_iff split: if_splits)
  with 7(2,3) show ?case
    unfolding rd_val.simps [abs_def]
    by (intro wrote_node [OF x(1)] wrote_text [OF x(4)]) simp_all
next
  case (8 name variants v d w)
  then obtain w1 x where x: "wr_node d w = Inr w1" "v = VEnum x" "x < length variants"
      "wr_add (le_bytes 4 x) w1 = Inr w'"
    by (cases v) (auto simp: bindR_Inr_iff split: if_splits)
  have "x \<le> u32_max" using 8(2) x(2) by simp
  with x show ?case
    unfolding rd_val.simps [abs_def]
    by (intro wrote_node [OF x(1)] wrote_bind [OF wrote_u32 [OF x(4)]]) (simp_all add: wrote_refl)
next
  case (9 x v d w)
  then obtain w1 y where y: "wr_node d w = Inr w1" "v = VOptional y"
    by (cases v) (auto simp: bindR_Inr_iff split: if_splits)
  show ?case
  proof (cases y)
    case None
    then have w0: "wr_add [char_of (0::nat)] w1 = Inr w'" using 9(2) y by simp
    show ?thesis
      unfolding rd_val.simps [abs_def]
      by (intro wrote_node [OF y(1)] wrote_tag [OF w0]) (simp add: y None wrote_refl)
  next
    case (Some z)
    then obtain w2 where w2: "wr_add [char_of (1::nat)] w1 = Inr w2" "wr_val x z (d + 1) w2 = Inr w'"
      using 9(2) y by (auto simp: bindR_Inr_iff)
    have "wrote w2 w' (rd_val True x (d + 1)) (canon z)"
      using 9(1) [OF y(2) Some] 9(3,4) y(2) Some w2 by simp
    from wrote_map [OF this, of "\<lambda>v. VOptional (Some v)"] show ?thesis
      unfolding rd_val.simps [abs_def]
      by (intro wrote_node [OF y(1)] wrote_tag [OF w2(1)]) (simp add: y Some Let_def)
  qed
next
  case (10 item max_len v d w)
  then obtain w1 xs w2 where x: "wr_node d w = Inr w1" "v = VSequence xs" "length xs \<le> max_len"
      "length xs \<le> 4096 - w_nodes w1" "wr_add (le_bytes 4 (length xs)) w1 = Inr w2"
      "wr_many (\<lambda>y w. wr_val item y (d + 1) w) 0 xs w2 = Inr w'"
    by (cases v) (auto simp: bindR_Inr_iff split: if_splits)
  have n: "w_nodes w2 = w_nodes w1" using x(5) by (auto simp: wr_add_def split: option.splits if_splits)
  have "length xs \<le> u32_max" using x(3) 10(4) by (simp add: u32_max_def)
  note u = wrote_u32 [OF x(5) this]
  have "wrote w2 w' (rd_many (rd_val True item (d + 1)) True 0 (length xs)) (map canon xs)"
  proof (rule wrote_many [OF _ x(6)])
    show "wrote u u' (rd_val True item (d + 1)) (canon y)"
      if "y \<in> set xs" "wr_val item y (d + 1) u = Inr u'" for y u u'
      using 10(1) [OF x(2,3) _ that(2), of w1] that(1) 10(3,4) x(2,4) by (auto simp: list_all_iff)
  qed
  from wrote_map [OF this, of VSequence]
  have "wrote w2 w' (\<lambda>r. if length xs > max_len \<or> length xs > 4096 - rd_nodes r then Inl (serr ''sequence length'')
      else bindR (rd_many (rd_val True item (d + 1)) True 0 (length xs) r) (\<lambda>(vs, r). Inr (VSequence vs, r)))
      (VSequence (map canon xs))"
    using x(3,4) n by (simp add: wrote_def)
  then show ?case
    unfolding rd_val.simps [abs_def]
    by (intro wrote_node [OF x(1)] wrote_bind [OF u]) (simp add: x(2))
next
  case (11 name version flds v d w)
  then obtain w1 vals where x: "wr_node d w = Inr w1" "v = VRecord vals" "length vals = length flds"
      "wr_fields flds vals d w1 = Inr w'"
    by (cases v) (auto simp: bindR_Inr_iff split: if_splits)
  have "wrote w1 w' (rd_fields True flds d) (map canon vals)"
    using 11(1) [OF x(2)] x 11(3,4) by simp
  from wrote_map [OF this, of VRecord] x(1) show ?case
    by (auto simp: wrote_def wr_node_def x(2) Let_def split: if_splits)
next
  case (12 f fs x xs d w)
  then obtain w1 where w1: "wr_field f x d w = Inr w1" "wr_fields fs xs d w1 = Inr w'"
    by (auto simp: bindR_Inr_iff)
  have f: "wrote w w1 (rd_field True f d) (canon x)" using 12(1) w1(1) 12(5,6) by simp
  have "wrote w1 w' (rd_fields True fs d) (map canon xs)" using 12(2) w1 12(4,5,6) by simp
  from wrote_map [OF this, of "(#) (canon x)"]
  have "wrote w w' (\<lambda>r. bindR (rd_field True f d r) (\<lambda>(v, r1).
     bindR (rd_fields True fs d r1) (\<lambda>(vs, r2). Inr (v # vs, r2)))) (canon x # map canon xs)"
    by (intro wrote_bind [OF f]) simp
  then show ?case by (simp add: wrote_def)
next
  case (13 xs d w)
  then show ?case by (simp add: wrote_refl)
next
  case (14 f fs d w)
  then show ?case by simp
next
  case (15 fname fty x d w)
  then show ?case by (simp add: wrote_def)
qed

section \<open>Reading, then writing\<close>

text \<open>A reader that consumed \<open>bs\<close>: a writer with the same node count and enough room writes exactly
  \<open>bs\<close>.\<close>

definition consumed :: "reader \<Rightarrow> reader \<Rightarrow> (writer \<Rightarrow> writer sresult) \<Rightarrow> bool" where
  "consumed r r' wr \<longleftrightarrow> (\<exists>bs. rd_rest r = bs @ rd_rest r'
     \<and> (\<forall>w. w_nodes w = rd_nodes r \<and> length (w_out w) + length bs \<le> w_max w \<and> w_max w \<le> EVENT_MAX \<longrightarrow>
          wr w = Inr (w\<lparr>w_out := w_out w @ bs, w_nodes := rd_nodes r'\<rparr>)))"

lemma consumed_refl: "consumed r r Inr"
  by (simp add: consumed_def)

lemma consumed_bind:
  assumes "consumed r r1 f" "consumed r1 r2 g"
  shows "consumed r r2 (\<lambda>w. bindR (f w) g)"
proof -
  obtain b1 b2 where b: "rd_rest r = b1 @ rd_rest r1" "rd_rest r1 = b2 @ rd_rest r2"
    and f: "\<And>w. w_nodes w = rd_nodes r \<and> length (w_out w) + length b1 \<le> w_max w \<and> w_max w \<le> EVENT_MAX \<Longrightarrow>
          f w = Inr (w\<lparr>w_out := w_out w @ b1, w_nodes := rd_nodes r1\<rparr>)"
    and g: "\<And>w. w_nodes w = rd_nodes r1 \<and> length (w_out w) + length b2 \<le> w_max w \<and> w_max w \<le> EVENT_MAX \<Longrightarrow>
          g w = Inr (w\<lparr>w_out := w_out w @ b2, w_nodes := rd_nodes r2\<rparr>)"
    using assms by (auto simp: consumed_def)
  show ?thesis
    unfolding consumed_def by (rule exI [of _ "b1 @ b2"]) (simp add: b f g)
qed

lemma consumed_take:
  "rd_take n r = Inr (b, r') \<Longrightarrow> consumed r r' (wr_add b) \<and> length b = n"
  by (auto simp: rd_take_def consumed_def wr_add_def checked_add_def usize_max_def u64_max_def EVENT_MAX_def
      split: if_splits option.splits intro!: exI [of _ "take n (rd_rest r)"])

lemma consumed_u32:
  assumes "rd_u32 r = Inr (n, r')"
  shows "consumed r r' (wr_add (le_bytes 4 n))" "n \<le> u32_max"
proof -
  obtain b where b: "rd_take 4 r = Inr (b, r')" "n = from_le b"
    using assms by (auto simp: rd_u32_def bindR_Inr_iff)
  have "consumed r r' (wr_add b)" "length b = 4" using consumed_take [OF b(1)] by simp_all
  then show "consumed r r' (wr_add (le_bytes 4 n))" "n \<le> u32_max"
    using le_bytes_from_le [of b] from_le_less [of b] b(2) by (simp_all add: u32_max_def)
qed

lemma consumed_le8:
  assumes "rd_take 8 r = Inr (b, r')"
  shows "consumed r r' (wr_add (le_bytes 8 (from_le b)))" "from_le b \<le> u64_max"
  using consumed_take [OF assms] le_bytes_from_le [of b] from_le_less [of b]
  by (simp_all add: u64_max_def)

lemma consumed_node:
  assumes "rd_node d r = Inr r1" "consumed r1 r2 f"
  shows "consumed r r2 (\<lambda>w. bindR (wr_node d w) f)"
proof -
  have r1: "rd_rest r1 = rd_rest r" "rd_nodes r1 = rd_nodes r + 1" "rd_nodes r + 1 \<le> 4096" "d \<le> 16"
    using assms(1) by (auto simp: rd_node_def Let_def split: if_splits)
  have "consumed r r1 (wr_node d)"
    using r1 by (auto simp: consumed_def wr_node_def Let_def)
  then show ?thesis by (rule consumed_bind [OF _ assms(2)])
qed

lemma consumed_tag:
  assumes "rd_take 1 r = Inr (b, r')" "of_char (hd b) = n"
  shows "consumed r r' (wr_add [char_of (n::nat)])"
proof -
  have "consumed r r' (wr_add b)" "length b = 1" using consumed_take [OF assms(1)] by simp_all
  moreover from this obtain c where "b = [c]" by (metis One_nat_def length_0_conv length_Suc_conv)
  ultimately show ?thesis using assms(2) by auto
qed

lemma consumed_ext: "consumed r r' f \<Longrightarrow> (\<And>w. f w = g w) \<Longrightarrow> consumed r r' g"
  by (simp add: consumed_def)

lemma consumed_many:
  assumes "\<And>r r' v. rd r = Inr (v, r') \<Longrightarrow> value_ok v \<and> consumed r r' (item v)"
    and "rd_many rd True i n r = Inr (vs, r')"
  shows "length vs = n \<and> list_all value_ok vs \<and> consumed r r' (wr_many item i vs)"
  using assms(2)
proof (induction n arbitrary: i r vs)
  case (Suc n)
  from Suc.prems obtain v r1 us where v: "rd r = Inr (v, r1)" "rd_many rd True (i + 1) n r1 = Inr (us, r')"
      "vs = v # us"
    by (auto simp: bindR_Inr_iff)
  have "consumed r r1 (\<lambda>w. err_at (index_name i) (item v w))"
    using assms(1) [OF v(1)] by (auto simp: consumed_def)
  moreover have "consumed r1 r' (wr_many item (i + 1) us)" using Suc.IH [OF v(2)] by blast
  ultimately have "consumed r r' (\<lambda>w. bindR (err_at (index_name i) (item v w)) (wr_many item (i + 1) us))"
    by (rule consumed_bind)
  then show ?case
    using Suc.IH [OF v(2)] assms(1) [OF v(1)] by (auto simp: v(3) consumed_def)
qed (simp add: consumed_def)

lemma read_write:
  "build \<Longrightarrow> rd_val build t d r = Inr (v, r') \<Longrightarrow> value_ok v \<and> consumed r r' (wr_val t v d)"
  "build \<Longrightarrow> rd_record build s d r = Inr (v, r') \<Longrightarrow> value_ok v \<and> consumed r r' (wr_record s v d)"
  "build \<Longrightarrow> rd_fields build fs d r = Inr (vs, r') \<Longrightarrow>
     length vs = length fs \<and> list_all value_ok vs \<and> consumed r r' (wr_fields fs vs d)"
  "build \<Longrightarrow> rd_field build f d r = Inr (v, r') \<Longrightarrow> value_ok v \<and> consumed r r' (wr_field f v d)"
proof (induction build t d r and build s d r and build fs d r and build f d r
    arbitrary: v r' and v r' and vs r' and v r' rule: rd_val_rd_record_rd_fields_rd_field.induct)
  case (1 build s d r)
  then show ?case by (simp add: consumed_def)
next
  case (2 build mn mx d r)
  then obtain r1 b where x: "rd_node d r = Inr r1" "rd_take 8 r1 = Inr (b, r')"
      "v = VInt (i64_of (from_le b))" "mn \<le> i64_of (from_le b)" "i64_of (from_le b) \<le> mx"
    by (auto simp: bindR_Inr_iff Let_def split: if_splits)
  have u: "from_le b < 18446744073709551616" using consumed_le8(2) [OF x(2)] by (simp add: u64_max_def)
  show ?case
    using consumed_node [OF x(1) consumed_le8(1) [OF x(2)]] x(4,5) i64_of_range [OF u]
    by (auto simp: x(3) u64_of_i64_of [OF u])
next
  case (3 build umn umx d r)
  then obtain r1 b where x: "rd_node d r = Inr r1" "rd_take 8 r1 = Inr (b, r')"
      "v = VUInt (from_le b)" "umn \<le> from_le b" "from_le b \<le> umx"
    by (auto simp: bindR_Inr_iff Let_def split: if_splits)
  show ?case
    using consumed_node [OF x(1) consumed_le8(1) [OF x(2)]] consumed_le8(2) [OF x(2)] x(4,5)
    by (simp add: x(3))
next
  case (4 build allow d r)
  then obtain r1 b where x: "rd_node d r = Inr r1" "rd_take 8 r1 = Inr (b, r')"
      "v = VFloat (from_le b)" "allow \<or> f64_is_finite (from_le b)"
      "allow \<longrightarrow> f64_is_nan (from_le b) \<longrightarrow> from_le b = CANONICAL_NAN"
    by (auto simp: bindR_Inr_iff Let_def split: if_splits)
  have "(if f64_is_nan (from_le b) then CANONICAL_NAN else from_le b) = from_le b"
    using x(4,5) nan_not_finite by auto
  then show ?case
    using consumed_node [OF x(1) consumed_le8(1) [OF x(2)]] consumed_le8(2) [OF x(2)] x(4)
    by (auto simp: x(3))
next
  case (5 build d r)
  then obtain r1 b where x: "rd_node d r = Inr r1" "rd_take 1 r1 = Inr (b, r')"
      "v = VBool False \<and> of_char (hd b) = (0::nat) \<or> v = VBool True \<and> of_char (hd b) = (1::nat)"
    by (auto simp: bindR_Inr_iff Let_def split: if_splits)
  from x(3) show ?case
  proof
    assume v: "v = VBool False \<and> of_char (hd b) = (0::nat)"
    then have "of_char (hd b) = (0::nat)" by simp
    from consumed_node [OF x(1) consumed_tag [OF x(2) this]] v show ?thesis by simp
  next
    assume v: "v = VBool True \<and> of_char (hd b) = (1::nat)"
    then have "of_char (hd b) = (1::nat)" by simp
    from consumed_node [OF x(1) consumed_tag [OF x(2) this]] v show ?thesis by simp
  qed
next
  case (6 build n d r)
  then obtain r1 m r2 x where x: "rd_node d r = Inr r1" "rd_u32 r1 = Inr (m, r2)" "m \<le> n"
      "rd_take m r2 = Inr (x, r')" "utf8_valid x" "v = VString x"
    by (auto simp: bindR_Inr_iff split: if_splits)
  have l: "length x = m" and c: "consumed r2 r' (wr_add x)" using consumed_take [OF x(4)] by simp_all
  from consumed_node [OF x(1) consumed_bind [OF consumed_u32(1) [OF x(2)] c]] show ?case
    using x l by simp
next
  case (7 build n d r)
  then obtain r1 m r2 x where x: "rd_node d r = Inr r1" "rd_u32 r1 = Inr (m, r2)" "m \<le> n"
      "rd_take m r2 = Inr (x, r')" "v = VBytes x"
    by (auto simp: bindR_Inr_iff split: if_splits)
  have l: "length x = m" and c: "consumed r2 r' (wr_add x)" using consumed_take [OF x(4)] by simp_all
  from consumed_node [OF x(1) consumed_bind [OF consumed_u32(1) [OF x(2)] c]] show ?case
    using x l by simp
next
  case (8 build name variants d r)
  then obtain r1 m where x: "rd_node d r = Inr r1" "rd_u32 r1 = Inr (m, r')" "m < length variants"
      "v = VEnum m"
    by (auto simp: bindR_Inr_iff split: if_splits)
  from consumed_node [OF x(1) consumed_u32(1) [OF x(2)]] consumed_u32(2) [OF x(2)] x show ?case by simp
next
  case (9 build x d r)
  then obtain r1 b r2 where y: "rd_node d r = Inr r1" "rd_take 1 r1 = Inr (b, r2)"
    by (auto simp: bindR_Inr_iff)
  consider "of_char (hd b) = (0::nat)" "v = VOptional None" "r' = r2"
    | u where "of_char (hd b) = (1::nat)" "rd_val True x (d + 1) r2 = Inr (u, r')" "v = VOptional (Some u)"
    using 9(2,3) y by (auto simp: bindR_Inr_iff Let_def split: if_splits)
  then show ?case
  proof cases
    case 1
    from consumed_node [OF y(1) consumed_tag [OF y(2) 1(1)]] 1 show ?thesis by simp
  next
    case (2 u)
    have u: "value_ok u \<and> consumed r2 r' (wr_val x u (d + 1))"
      using 9(1) [of 1 b r2 u r'] 9(2) 2 by simp
    from consumed_node [OF y(1) consumed_bind [OF consumed_tag [OF y(2) 2(1)]]] u 2 show ?thesis by simp
  qed
next
  case (10 build item max_len d r)
  then obtain r1 n r2 vs where x: "rd_node d r = Inr r1" "rd_u32 r1 = Inr (n, r2)" "n \<le> max_len"
      "n \<le> 4096 - rd_nodes r2" "rd_many (\<lambda>r. rd_val True item (d + 1) r) True 0 n r2 = Inr (vs, r')"
      "v = VSequence vs"
    by (auto simp: bindR_Inr_iff split: if_splits)
  have nodes: "rd_nodes r2 = rd_nodes r1"
    using x(2) by (auto simp: rd_u32_def rd_take_def bindR_Inr_iff split: if_splits)
  have many: "length vs = n \<and> list_all value_ok vs \<and> consumed r2 r' (wr_many (\<lambda>v. wr_val item v (d + 1)) 0 vs)"
  proof (rule consumed_many [OF _ x(5)])
    show "value_ok u \<and> consumed s s' (wr_val item u (d + 1))" if "rd_val True item (d + 1) s = Inr (u, s')" for s s' u
      using 10(1) [of n r2 s u s'] that 10(2) x(3,4) by simp
  qed
  have "consumed r1 r' (\<lambda>w. if length vs > 4096 - w_nodes w then Inl (serr ''remaining value node limit'')
      else bindR (wr_add (le_bytes 4 (length vs)) w) (wr_many (\<lambda>y w. wr_val item y (d + 1) w) 0 vs))"
    using consumed_bind [OF consumed_u32(1) [OF x(2)], of r' "wr_many (\<lambda>v. wr_val item v (d + 1)) 0 vs"]
      many x(4) nodes by (auto simp: consumed_def)
  from consumed_node [OF x(1) this] many x(3,6) show ?case by simp
next
  case (11 build name version flds d r)
  then obtain vs where x: "rd_nodes r + 1 \<le> 4096" "d \<le> 16" "v = VRecord vs"
      "rd_fields True flds d (r\<lparr>rd_nodes := rd_nodes r + 1\<rparr>) = Inr (vs, r')"
    by (auto simp: bindR_Inr_iff Let_def split: if_splits)
  have n: "rd_node d r = Inr (r\<lparr>rd_nodes := rd_nodes r + 1\<rparr>)" using x by (simp add: rd_node_def)
  have f: "length vs = length flds \<and> list_all value_ok vs
      \<and> consumed (r\<lparr>rd_nodes := rd_nodes r + 1\<rparr>) r' (wr_fields flds vs d)"
    using 11(1) 11(2) x by (auto simp: Let_def)
  then show ?case using consumed_node [OF n] x(3) by simp
next
  case (12 build d r)
  then show ?case by (simp add: consumed_def)
next
  case (13 build f fs d r)
  then obtain u r1 us where x: "rd_field True f d r = Inr (u, r1)" "rd_fields True fs d r1 = Inr (us, r')"
      "vs = u # us"
    by (auto simp: bindR_Inr_iff)
  have "value_ok u \<and> consumed r r1 (wr_field f u d)" using 13 x by simp
  moreover have "length us = length fs \<and> list_all value_ok us \<and> consumed r1 r' (wr_fields fs us d)"
    using 13 x by simp
  ultimately show ?case using x(3) by (auto intro: consumed_bind)
next
  case (14 build fname fty d r)
  then show ?case by (simp add: consumed_def)
qed

section \<open>Validating is decoding without building\<close>

definition same_end :: "('a \<times> reader) sresult \<Rightarrow> ('b \<times> reader) sresult \<Rightarrow> bool" where
  "same_end x y \<longleftrightarrow>
     (case x of Inl e \<Rightarrow> y = Inl e | Inr (u, r) \<Rightarrow> (\<exists>v. y = Inr (v, r)))"

lemma same_end_Inl [simp]: "same_end (Inl e) (Inl e)"
  by (simp add: same_end_def)

lemma same_end_Inr [simp]: "same_end (Inr (u, r)) (Inr (v, r))"
  by (simp add: same_end_def)

lemma same_end_bind:
  assumes "same_end x y" "\<And>u v r. same_end (f (u, r)) (g (v, r))"
  shows "same_end (bindR x f) (bindR y g)"
proof (cases x)
  case (Inr p)
  obtain u r where p: "p = (u, r)" by fastforce
  with Inr assms(1) obtain v where "y = Inr (v, r)" by (auto simp: same_end_def)
  then show ?thesis using Inr p assms(2) by simp
qed (use assms(1) in \<open>simp add: same_end_def\<close>)

lemma same_end_bind1: "(\<And>a. same_end (f a) (g a)) \<Longrightarrow> same_end (bindR x f) (bindR x g)"
  by (cases x) (auto simp: same_end_def)

lemma same_end_err: "same_end x y \<Longrightarrow> same_end (err_at f x) (err_at f y)"
  by (auto simp: same_end_def err_at_def split: sum.splits)

lemma same_end_many:
  assumes "\<And>r. same_end (f r) (g r)"
  shows "same_end (rd_many f False i n r) (rd_many g True i n r)"
  by (induction n arbitrary: i r) (auto intro!: same_end_bind same_end_err assms)

lemma build_irrelevant:
  "same_end (rd_val False t d r) (rd_val True t d r)"
  "same_end (rd_record False s d r) (rd_record True s d r)"
  "same_end (rd_fields False fs d r) (rd_fields True fs d r)"
  "same_end (rd_field False f d r) (rd_field True f d r)"
proof (induction True t d r and True s d r and True fs d r and True f d r
    rule: rd_val_rd_record_rd_fields_rd_field.induct)
  case (9 x d r)
  have "byte (hd b) = 1 \<Longrightarrow> same_end (rd_val False x (d + 1) s) (rd_val True x (d + 1) s)" for b s
    by (rule 9 [of 1 b s]) auto
  then show ?case
    by (auto simp: Let_def split: prod.splits intro!: same_end_bind1 same_end_bind)
next
  case (10 item max_len d r)
  then show ?case
    by (auto simp: Let_def split: prod.splits intro!: same_end_bind1 same_end_bind same_end_many)
next
  case (11 name version flds d r)
  then show ?case by (auto simp: Let_def intro!: same_end_bind)
next
  case (13 f fs d r)
  show ?case
    unfolding rd_fields.simps
    by (auto intro!: same_end_bind 13)
qed (auto simp: Let_def split: prod.splits intro!: same_end_bind1 same_end_err)

section \<open>The writer keeps its bound\<close>

definition bounded_by :: "writer \<Rightarrow> writer \<Rightarrow> bool" where
  "bounded_by w w' \<longleftrightarrow> w_max w' = w_max w \<and> (length (w_out w) \<le> w_max w \<longrightarrow> length (w_out w') \<le> w_max w)"

lemma bounded_refl [simp]: "bounded_by w w"
  by (simp add: bounded_by_def)

lemma bounded_trans [trans]: "bounded_by w w1 \<Longrightarrow> bounded_by w1 w2 \<Longrightarrow> bounded_by w w2"
  by (simp add: bounded_by_def)

lemma bounded_add: "wr_add b w = Inr w' \<Longrightarrow> bounded_by w w'"
  by (auto simp: wr_add_def bounded_by_def split: option.splits if_splits)

lemma bounded_node: "wr_node d w = Inr w' \<Longrightarrow> bounded_by w w'"
  by (auto simp: wr_node_def bounded_by_def Let_def split: if_splits)

lemma bounded_many:
  assumes "\<And>y w w'. item y w = Inr w' \<Longrightarrow> bounded_by w w'" and "wr_many item i xs w = Inr w'"
  shows "bounded_by w w'"
  using assms(2)
proof (induction xs arbitrary: i w)
  case (Cons x xs)
  then obtain w1 where "item x w = Inr w1" "wr_many item (i + 1) xs w1 = Inr w'"
    by (auto simp: bindR_Inr_iff)
  with Cons.IH assms(1) show ?case by (blast intro: bounded_trans)
qed simp

lemma bounded_steps:
  "wr_node d w = Inr w1 \<Longrightarrow> wr_add b w1 = Inr w2 \<Longrightarrow> bounded_by w w2"
  "wr_node d w = Inr w1 \<Longrightarrow> wr_add b w1 = Inr w2 \<Longrightarrow> wr_add c w2 = Inr w3 \<Longrightarrow> bounded_by w w3"
  using bounded_node bounded_add bounded_trans by blast+

lemma wr_bounded:
  "wr_val t v d w = Inr w' \<Longrightarrow> bounded_by w w'"
  "wr_record s v d w = Inr w' \<Longrightarrow> bounded_by w w'"
  "wr_fields fs vs d w = Inr w' \<Longrightarrow> bounded_by w w'"
  "wr_field f v d w = Inr w' \<Longrightarrow> bounded_by w w'"
proof (induction t v d w and s v d w and fs vs d w and f v d w arbitrary: w' and w' and w' and w'
    rule: wr_val_wr_record_wr_fields_wr_field.induct)
  case (2 mn mx v d w)
  then show ?case by (cases v) (auto simp: bindR_Inr_iff split: if_splits intro: bounded_steps)
next
  case (3 umn umx v d w)
  then show ?case by (cases v) (auto simp: bindR_Inr_iff split: if_splits intro: bounded_steps)
next
  case (4 b v d w)
  then show ?case by (cases v) (auto simp: bindR_Inr_iff split: if_splits intro: bounded_steps)
next
  case (5 v d w)
  then show ?case by (cases v) (auto simp: bindR_Inr_iff split: if_splits intro: bounded_steps)
next
  case (6 n v d w)
  then show ?case by (cases v) (auto simp: bindR_Inr_iff split: if_splits intro: bounded_steps)
next
  case (7 n v d w)
  then show ?case by (cases v) (auto simp: bindR_Inr_iff split: if_splits intro: bounded_steps)
next
  case (8 name variants v d w)
  then show ?case by (cases v) (auto simp: bindR_Inr_iff split: if_splits intro: bounded_steps)
next
  case (9 x v d w)
  obtain w1 y where y: "wr_node d w = Inr w1" "v = VOptional y"
    using 9(2) by (cases v) (auto simp: bindR_Inr_iff)
  show ?case
  proof (cases y)
    case None
    then show ?thesis
      using 9(2) y bounded_trans [OF bounded_node [OF y(1)] bounded_add] by simp
  next
    case (Some z)
    then obtain w2 where w2: "wr_add [char_of (1::nat)] w1 = Inr w2" "wr_val x z (d + 1) w2 = Inr w'"
      using 9(2) y by (auto simp: bindR_Inr_iff)
    from 9(1) [OF y(2) Some w2(2)] show ?thesis
      using bounded_node [OF y(1)] bounded_add [OF w2(1)] by (blast intro: bounded_trans)
  qed
next
  case (10 item max_len v d w)
  then obtain w1 xs w2 where x: "wr_node d w = Inr w1" "v = VSequence xs" "length xs \<le> max_len"
      "length xs \<le> 4096 - w_nodes w1" "wr_add (le_bytes 4 (length xs)) w1 = Inr w2"
      "wr_many (\<lambda>y w. wr_val item y (d + 1) w) 0 xs w2 = Inr w'"
    by (cases v) (auto simp: bindR_Inr_iff split: if_splits)
  have "bounded_by w2 w'"
    using 10(1) [OF x(2,3), of w1] x(4) by (intro bounded_many [OF _ x(6)]) auto
  with bounded_node [OF x(1)] bounded_add [OF x(5)] show ?case by (blast intro: bounded_trans)
next
  case (11 name version flds v d w)
  then obtain w1 vals where x: "wr_node d w = Inr w1" "v = VRecord vals" "length vals = length flds"
      "wr_fields flds vals d w1 = Inr w'"
    by (cases v) (auto simp: bindR_Inr_iff split: if_splits)
  with 11(1) [OF x(2)] bounded_node [OF x(1)] show ?case by (auto intro: bounded_trans)
next
  case (12 f fs x xs d w)
  then show ?case by (auto simp: bindR_Inr_iff intro: bounded_trans)
qed simp_all

section \<open>Properties of the encoding\<close>

lemma encode_decodes:
  assumes "schema_encode s v max_bytes = Inr bs" and "value_ok v"
  shows "length bs \<le> max_bytes \<and> schema_decode s bs = Inr (canon v) \<and> validate_bytes s bs = Inr ()"
proof -
  let ?w = "\<lparr>w_out = [], w_max = max_bytes, w_nodes = 0\<rparr>"
  from assms(1) obtain n w where w: "validate_schema s 0 0 = Inr n" "max_bytes \<le> EVENT_MAX"
      "wr_record s v 0 ?w = Inr w" "w_out w = bs"
    by (auto simp: schema_encode_def schema_validate_def bindR_Inr_iff split: if_splits)
  have len: "length bs \<le> max_bytes" using wr_bounded(2) [OF w(3)] w(4) by (simp add: bounded_by_def)
  from write_read(2) [OF w(3) assms(2) validate_ok(2) [OF w(1)]] w(4)
  have rd: "rd_record True s 0 \<lparr>rd_rest = bs, rd_nodes = 0\<rparr> = Inr (canon v, \<lparr>rd_rest = [], rd_nodes = w_nodes w\<rparr>)"
    by (auto simp: wrote_def dest: spec [where x = "[]"])
  moreover obtain u where "rd_record False s 0 \<lparr>rd_rest = bs, rd_nodes = 0\<rparr> =
      Inr (u, \<lparr>rd_rest = [], rd_nodes = w_nodes w\<rparr>)"
    using build_irrelevant(2) [of s 0 "\<lparr>rd_rest = bs, rd_nodes = 0\<rparr>"] rd
    by (auto simp: same_end_def split: sum.splits)
  ultimately show ?thesis
    using len w(1,2)
    by (simp add: schema_decode_def schema_read_def schema_validate_def validate_bytes_def
        validate_registered_bytes_def)
qed

lemma decode_encodes:
  assumes "schema_decode s bs = Inr v" "length bs \<le> mx" "mx \<le> EVENT_MAX"
  shows "value_ok v \<and> schema_encode s v mx = Inr bs"
proof -
  from assms(1) obtain n r where r: "validate_schema s 0 0 = Inr n" "length bs \<le> EVENT_MAX"
      "rd_record True s 0 \<lparr>rd_rest = bs, rd_nodes = 0\<rparr> = Inr (v, r)" "rd_rest r = []"
    by (auto simp: schema_decode_def schema_validate_def schema_read_def bindR_Inr_iff split: if_splits)
  from read_write(2) [OF TrueI r(3)] have v: "value_ok v"
    and c: "consumed \<lparr>rd_rest = bs, rd_nodes = 0\<rparr> r (wr_record s v 0)" by simp_all
  from c r(4) assms(2,3) have "wr_record s v 0 \<lparr>w_out = [], w_max = mx, w_nodes = 0\<rparr> =
      Inr \<lparr>w_out = bs, w_max = mx, w_nodes = rd_nodes r\<rparr>"
    by (auto simp: consumed_def)
  with r(1) v assms(3) show ?thesis by (simp add: schema_encode_def schema_validate_def)
qed

lemma decode_length: "schema_decode s bs = Inr v \<Longrightarrow> length bs \<le> EVENT_MAX"
  by (auto simp: schema_decode_def schema_read_def bindR_Inr_iff split: if_splits)

text \<open>C18. Encode, then decode. Whatever well-typed value a schema accepts within a byte limit, its
  encoding respects the limit, passes byte validation, and decodes to the same value, up to the
  choice of a canonical NaN.\<close>

theorem schema_encode_decode:
  assumes "schema_encode s v max_bytes = Inr bs" and "value_ok v"
  shows "length bs \<le> max_bytes \<and> schema_decode s bs = Inr (canon v) \<and> validate_bytes s bs = Inr ()"
  by (rule encode_decodes [OF assms])

text \<open>C19. The encoding is canonical. Bytes that decode to a value are exactly the bytes the encoder
  writes for that value, so no two byte strings decode to the same value.\<close>

theorem schema_decode_encode:
  assumes "schema_decode s bs = Inr v"
  shows "value_ok v \<and> schema_encode s v EVENT_MAX = Inr bs
    \<and> (\<forall>cs. schema_decode s cs = Inr v \<longrightarrow> cs = bs)"
  using decode_encodes [OF assms decode_length [OF assms] order_refl]
    decode_encodes [OF _ decode_length order_refl, of s _ v] by fastforce

text \<open>C20. The allocation-free validation of the World agrees with decoding: it accepts exactly the
  bytes that decode, and rejects the others with the decoder's own error.\<close>

theorem validate_agrees_with_decode:
  "validate_bytes s bs =
     (case schema_decode s bs of Inl e \<Rightarrow> Inl e | Inr v \<Rightarrow> Inr ())"
proof -
  let ?r = "\<lparr>rd_rest = bs, rd_nodes = 0\<rparr>"
  have "bindR (schema_read False s bs) (\<lambda>_. Inr ()) =
      (case schema_read True s bs of Inl e \<Rightarrow> Inl e | Inr v \<Rightarrow> Inr ())"
    using build_irrelevant(2) [of s 0 ?r]
    by (cases "rd_record False s 0 ?r")
      (auto simp: schema_read_def same_end_def err_at_def split: prod.splits)
  then show ?thesis
    by (cases "schema_validate s")
      (simp_all add: validate_bytes_def schema_decode_def validate_registered_bytes_def)
qed

text \<open>A descriptor for the witnesses: a count and optional labels.\<close>

definition demo_schema :: schema where
  "demo_schema = Schema ''evt'' 1
     [Field ''n'' (TInt 0 9), Field ''tags'' (TSequence (TOptional (TString 8)) 4)]"

definition demo_value :: val where
  "demo_value = VRecord [VInt 7, VSequence [VOptional (Some (VString ''a'')), VOptional None]]"

definition demo_bytes :: bytes where
  "demo_bytes = le_bytes 8 7 @ le_bytes 4 2 @ le_bytes 1 1 @ le_bytes 4 1 @ ''a'' @ le_bytes 1 0"

lemma demo_encoded: "schema_encode demo_schema demo_value 100 = Inr demo_bytes"
  by (simp add: schema_encode_def schema_validate_def demo_schema_def demo_value_def demo_bytes_def
      EVENT_MAX_def wr_node_def wr_add_def checked_add_def usize_max_def u64_max_def u64_of_def numeral_2_eq_2)

lemma demo_value_ok: "value_ok demo_value"
  by (simp add: demo_value_def utf8_valid.simps scalar_def utf8_width_def)

lemma demo_decoded: "schema_decode demo_schema demo_bytes = Inr demo_value"
  by (simp add: schema_decode_def schema_validate_def demo_schema_def demo_value_def demo_bytes_def
      schema_read_def EVENT_MAX_def rd_node_def rd_take_def rd_u32_def from_le_le_bytes i64_of_def
      numeral_2_eq_2 utf8_valid.simps scalar_def utf8_width_def)

theorem schema_encode_decode_witness:
  "schema_decode demo_schema demo_bytes = Inr (canon demo_value) \<and> length demo_bytes \<le> 100"
  using schema_encode_decode [OF demo_encoded demo_value_ok] by blast

theorem schema_decode_encode_witness:
  "schema_encode demo_schema demo_value EVENT_MAX = Inr demo_bytes"
  using schema_decode_encode [OF demo_decoded] by blast

section \<open>The registry\<close>

lemma normalized_clone_id:
  "clone_ty t = t" "normalized_clone s = s" "clone_fields fs = fs" "clone_field f = f"
  by (induction t and s and fs and f rule: clone_ty_normalized_clone_clone_fields_clone_field.induct) simp_all

text \<open>Every descriptor nested in a schema, itself included.\<close>

fun subs :: "schema \<Rightarrow> schema list"
  and subs_fields :: "field list \<Rightarrow> schema list"
  and subs_field :: "field \<Rightarrow> schema list"
  and subs_ty :: "field_type \<Rightarrow> schema list" where
  "subs (Schema name version flds) = Schema name version flds # subs_fields flds"
| "subs_fields [] = []"
| "subs_fields (f # fs) = subs_field f @ subs_fields fs"
| "subs_field (Field fname fty) = subs_ty fty"
| "subs_ty (TOptional x) = subs_ty x"
| "subs_ty (TSequence x n) = subs_ty x"
| "subs_ty (TRecord s) = subs s"
| "subs_ty (TInt mn mx) = []"
| "subs_ty (TUInt umn umx) = []"
| "subs_ty (TFloat b) = []"
| "subs_ty TBool = []"
| "subs_ty (TString n) = []"
| "subs_ty (TBytes n) = []"
| "subs_ty (TEnum name variants) = []"

definition knows :: "(schema_key \<rightharpoonup> schema) \<Rightarrow> schema list \<Rightarrow> bool" where
  "knows seen ss \<longleftrightarrow> (\<forall>x \<in> set ss. seen (schema_key x) = Some x)"

lemma knows_mono: "knows seen ss \<Longrightarrow> seen \<subseteq>\<^sub>m seen' \<Longrightarrow> knows seen' ss"
  unfolding knows_def map_le_def by (metis domI)

lemma knows_append [simp]: "knows seen (xs @ ys) \<longleftrightarrow> knows seen xs \<and> knows seen ys"
  by (auto simp: knows_def)

lemma collect_knows:
  "collect_schema s seen = Inr seen' \<Longrightarrow> seen \<subseteq>\<^sub>m seen' \<and> knows seen' (subs s)"
  "collect_fields fs seen = Inr seen' \<Longrightarrow> seen \<subseteq>\<^sub>m seen' \<and> knows seen' (subs_fields fs)"
  "collect_field f seen = Inr seen' \<Longrightarrow> seen \<subseteq>\<^sub>m seen' \<and> knows seen' (subs_field f)"
  "collect_walk t seen = Inr seen' \<Longrightarrow> seen \<subseteq>\<^sub>m seen' \<and> knows seen' (subs_ty t)"
proof (induction s seen and fs seen and f seen and t seen arbitrary: seen' and seen' and seen' and seen'
    rule: collect_schema_collect_fields_collect_field_collect_walk.induct)
  case (1 name version flds seen)
  let ?s = "Schema name version flds"
  have key: "schema_key ?s = (name, version)" by (simp add: schema_key_def)
  obtain seen1 where s1: "collect_fields flds seen1 = Inr seen'" "seen \<subseteq>\<^sub>m seen1" "seen1 (name, version) = Some ?s"
      "seen \<subseteq>\<^sub>m seen' \<and> knows seen' (subs_fields flds) \<and> seen1 \<subseteq>\<^sub>m seen'"
  proof (cases "seen (name, version)")
    case None
    define seen1 where "seen1 = seen((name, version) \<mapsto> ?s)"
    have c: "collect_fields flds seen1 = Inr seen'" using 1(3) None by (simp add: seen1_def)
    have le: "seen \<subseteq>\<^sub>m seen1" using None by (auto simp: map_le_def seen1_def)
    have "seen1 \<subseteq>\<^sub>m seen' \<and> knows seen' (subs_fields flds)"
      using 1(1) [OF None] c unfolding seen1_def by blast
    with c le show ?thesis by (intro that [of seen1]) (auto intro: map_le_trans simp: seen1_def)
  next
    case (Some old)
    then have old: "old = ?s" "collect_fields flds seen = Inr seen'"
      using 1(3) by (auto split: if_splits)
    with 1(2) [OF Some] Some show ?thesis by (intro that [of seen]) (auto simp: map_le_def)
  qed
  have "seen' (name, version) = Some ?s" using s1(3,4) by (auto simp: map_le_def dom_def)
  then show ?case using s1(4) by (auto simp: knows_def key)
next
  case (3 f fs seen)
  then obtain seen1 where "collect_field f seen = Inr seen1" "collect_fields fs seen1 = Inr seen'"
    by (auto simp: bindR_Inr_iff)
  with 3 have "seen \<subseteq>\<^sub>m seen1" "knows seen1 (subs_field f)" "seen1 \<subseteq>\<^sub>m seen'" "knows seen' (subs_fields fs)"
    by auto
  then show ?case using knows_mono by (auto intro: map_le_trans)
qed (simp_all add: knows_def)

lemma collect_all_knows:
  "collect_all ss seen = Inr seen' \<Longrightarrow> seen \<subseteq>\<^sub>m seen' \<and> knows seen' (concat (map subs ss))"
proof (induction ss arbitrary: seen)
  case (Cons s ss)
  then obtain seen1 where c: "collect_schema s seen = Inr seen1" "collect_all ss seen1 = Inr seen'"
    by (auto simp: bindR_Inr_iff)
  from collect_knows(1) [OF c(1)] Cons.IH [OF c(2)]
  have "seen \<subseteq>\<^sub>m seen1" "knows seen1 (subs s)" "seen1 \<subseteq>\<^sub>m seen'" "knows seen' (concat (map subs ss))" by auto
  then show ?case using knows_mono by (auto intro: map_le_trans)
qed (simp add: knows_def)

definition entry_of :: "nat \<Rightarrow> schema \<Rightarrow> schema_key \<times> (nat \<times> schema)" where
  "entry_of i s = (schema_key s, (i, s))"

definition items_ok :: "nat \<Rightarrow> (schema_key \<times> (nat \<times> schema)) list \<Rightarrow> bool" where
  "items_ok nxt items \<longleftrightarrow> distinct (map fst items) \<and> distinct (map (fst \<circ> snd) items)
     \<and> (\<forall>e \<in> set items. \<exists>i s. e = entry_of i s \<and> 0 < i \<and> i < nxt)"

lemma map_of_items: "items_ok nxt items \<Longrightarrow> map_of items (schema_key s) = Some (i, s) \<longleftrightarrow> entry_of i s \<in> set items"
  by (simp add: items_ok_def entry_of_def)

lemma items_ok_append:
  assumes "items_ok nxt items" "map_of items (schema_key s) = None" "0 < nxt"
  shows "items_ok (nxt + 1) (items @ [entry_of nxt s])"
proof -
  have "schema_key s \<notin> fst ` set items" using assms(2) by (simp add: map_of_eq_None_iff)
  moreover have "nxt \<notin> (fst \<circ> snd) ` set items"
    using assms(1) by (auto simp: items_ok_def entry_of_def)
  ultimately show ?thesis
    using assms(1,3) by (auto simp: items_ok_def entry_of_def less_Suc_eq)
qed

lemma stage_all_ok:
  assumes "stage_all mx ss staged nxt ids = Inr (staged', nxt', ids')"
    and "items_ok nxt staged" "0 < nxt" "nxt \<le> u32_max" "length staged \<le> mx"
  shows "items_ok nxt' staged' \<and> 0 < nxt' \<and> nxt' \<le> u32_max \<and> length staged' \<le> mx
    \<and> (\<exists>more. staged' = staged @ more \<and> snd ` snd ` set more \<subseteq> set ss)
    \<and> (\<exists>new. ids' = ids @ new \<and> length new = length ss
        \<and> (\<forall>j < length ss. entry_of (new ! j) (ss ! j) \<in> set staged'))"
  using assms
proof (induction ss arbitrary: staged nxt ids)
  case (Cons s ss)
  show ?case
  proof (cases "map_of staged (schema_key s)")
    case None
    then have guards: "length staged < mx" "nxt + 1 \<le> u32_max"
        "stage_all mx ss (staged @ [entry_of nxt s]) (nxt + 1) (ids @ [nxt]) = Inr (staged', nxt', ids')"
      using Cons.prems(1)
      by (auto simp: normalized_clone_id entry_of_def checked_add_def split: if_splits option.splits)
    from Cons.IH [OF guards(3) items_ok_append [OF Cons.prems(2) None Cons.prems(3)]] guards
    obtain more new where r: "items_ok nxt' staged'" "0 < nxt'" "nxt' \<le> u32_max" "length staged' \<le> mx"
      "staged' = staged @ entry_of nxt s # more" "snd ` snd ` set more \<subseteq> set ss" "ids' = ids @ nxt # new"
      "length new = length ss" "\<forall>j < length ss. entry_of (new ! j) (ss ! j) \<in> set staged'"
      by auto
    have "entry_of ((nxt # new) ! j) ((s # ss) ! j) \<in> set staged'" if "j < length (s # ss)" for j
      using r(5,9) that by (cases j) auto
    moreover have "staged' = staged @ (entry_of nxt s # more)"
      "snd ` snd ` set (entry_of nxt s # more) \<subseteq> set (s # ss)"
      using r(5,6) by (auto simp: entry_of_def)
    ultimately show ?thesis
      using r by (metis length_Cons)
  next
    case (Some e)
    then obtain i where i: "e = (i, s)" and rest: "stage_all mx ss staged nxt (ids @ [i]) = Inr (staged', nxt', ids')"
      using Cons.prems(1) by (auto split: if_splits prod.splits)
    from Cons.IH [OF rest Cons.prems(2-5)] obtain more new where
      r: "items_ok nxt' staged'" "0 < nxt'" "nxt' \<le> u32_max" "length staged' \<le> mx" "staged' = staged @ more"
      "snd ` snd ` set more \<subseteq> set ss" "ids' = ids @ i # new" "length new = length ss"
      "\<forall>j < length ss. entry_of (new ! j) (ss ! j) \<in> set staged'"
      by auto
    have "entry_of i s \<in> set staged" using Some i map_of_items [OF Cons.prems(2), of s i] by simp
    then have "entry_of ((i # new) ! j) ((s # ss) ! j) \<in> set staged'" if "j < length (s # ss)" for j
      using r(5,9) that by (cases j) auto
    moreover have "snd ` snd ` set more \<subseteq> set (s # ss)" using r(6) by auto
    ultimately show ?thesis using r by (metis length_Cons)
  qed
qed simp

text \<open>The registry's invariant: unique identities and ids within the limits, and one descriptor per
  name and version among all registered schemas and everything nested in them.\<close>

definition registered :: "schema_registry \<Rightarrow> schema list" where
  "registered g = map (snd \<circ> snd) (sg_items g)"

definition sg_inv :: "schema_registry \<Rightarrow> bool" where
  "sg_inv g \<longleftrightarrow> items_ok (sg_next g) (sg_items g) \<and> 0 < sg_next g \<and> sg_next g \<le> u32_max
     \<and> length (sg_items g) \<le> sg_max g \<and> (\<exists>seen. knows seen (concat (map subs (registered g))))"

lemma register_batch_cases:
  obtains (refused) e where "register_batch ss g = (g, Inl e)"
  | (accepted) seen1 seen2 staged nxt ids where
      "register_batch ss g = (g\<lparr>sg_items := staged, sg_next := nxt\<rparr>, Inr ids)"
      "collect_all ss Map.empty = Inr seen1" "collect_all (registered g) seen1 = Inr seen2"
      "stage_all (sg_max g) ss (sg_items g) (sg_next g) [] = Inr (staged, nxt, ids)"
proof (cases "snd (register_batch ss g)")
  case (Inl e)
  then have "register_batch ss g = (g, Inl e)"
    by (auto simp: register_batch_def split: sum.splits prod.splits if_splits)
  then show ?thesis by (rule refused)
next
  case (Inr ids)
  then show ?thesis
    using accepted
    by (auto simp: register_batch_def registered_def bindR_Inr_iff split: sum.splits prod.splits if_splits)
qed

lemma register_batch_inv: "sg_inv g \<Longrightarrow> sg_inv (fst (register_batch ss g))"
proof (cases rule: register_batch_cases [of ss g])
  case (accepted seen1 seen2 staged nxt ids)
  assume inv: "sg_inv g"
  then have st: "items_ok nxt staged" "0 < nxt" "nxt \<le> u32_max" "length staged \<le> sg_max g"
      "\<exists>more. staged = sg_items g @ more \<and> snd ` snd ` set more \<subseteq> set ss"
    using stage_all_ok [OF accepted(4)] by (auto simp: sg_inv_def)
  from collect_all_knows [OF accepted(2)] collect_all_knows [OF accepted(3)]
  have k: "knows seen2 (concat (map subs ss))" "knows seen2 (concat (map subs (registered g)))"
    by (auto intro: knows_mono)
  have "knows seen2 (concat (map subs (map (snd \<circ> snd) staged)))"
    using st(5) k by (fastforce simp: knows_def registered_def)
  then show ?thesis using st(1-4) by (auto simp: accepted(1) sg_inv_def registered_def)
qed simp

inductive registry_step :: "schema_registry \<Rightarrow> schema_registry \<Rightarrow> bool" where
  "registry_step g (fst (register_batch ss g))"

definition registry_init :: "schema_registry \<Rightarrow> bool" where
  "registry_init g \<longleftrightarrow> (\<exists>mx. sg_new mx = Inr g)"

interpretation registry: invariant_system registry_init registry_step sg_inv
proof unfold_locales
  show "registry_init g \<Longrightarrow> sg_inv g" for g
    by (auto simp: registry_init_def sg_new_def sg_inv_def items_ok_def registered_def knows_def
        u32_max_def split: if_splits)
  show "registry_step g g' \<Longrightarrow> sg_inv g \<Longrightarrow> sg_inv g'" for g g'
    by (auto elim!: registry_step.cases intro: register_batch_inv)
qed

lemma sg_schema_iff:
  assumes "sg_inv g"
  shows "sg_schema g i = Inr s \<longleftrightarrow> entry_of i s \<in> set (sg_items g)"
proof -
  have d: "distinct (map (fst \<circ> snd) (sg_items g))"
    and e: "\<forall>x \<in> set (sg_items g). \<exists>i s. x = entry_of i s"
    using assms unfolding sg_inv_def items_ok_def by blast+
  have f: "find (\<lambda>(k, j, t). j = i) xs = Some x \<longleftrightarrow> x \<in> set xs \<and> fst (snd x) = i"
    if "distinct (map (fst \<circ> snd) xs)" for xs :: "(schema_key \<times> (nat \<times> schema)) list" and x
    using that by (induction xs) (auto simp: image_iff split: prod.splits)
  have "sg_schema g i = Inr s \<longleftrightarrow> (\<exists>x. find (\<lambda>(k, j, t). j = i) (sg_items g) = Some x \<and> snd (snd x) = s)"
    by (auto simp: sg_schema_def ok_or_def split: option.splits)
  also have "\<dots> \<longleftrightarrow> (\<exists>x \<in> set (sg_items g). fst (snd x) = i \<and> snd (snd x) = s)"
    unfolding f [OF d] by blast
  also have "\<dots> \<longleftrightarrow> entry_of i s \<in> set (sg_items g)"
  proof
    assume "\<exists>x \<in> set (sg_items g). fst (snd x) = i \<and> snd (snd x) = s"
    then obtain x where x: "x \<in> set (sg_items g)" "fst (snd x) = i" "snd (snd x) = s" by blast
    then obtain j t where "x = entry_of j t" using e by blast
    with x show "entry_of i s \<in> set (sg_items g)" by (simp add: entry_of_def)
  next
    assume "entry_of i s \<in> set (sg_items g)"
    then show "\<exists>x \<in> set (sg_items g). fst (snd x) = i \<and> snd (snd x) = s"
      by (rule bexI [rotated]) (simp add: entry_of_def)
  qed
  finally show ?thesis .
qed

section \<open>Properties of the registry\<close>


text \<open>Registering a batch is atomic: on an error the registry is unchanged; on success the ids
  returned resolve to the schemas of the batch in order, and every id that resolved before still
  resolves to the same schema.\<close>

theorem register_batch_atomic:
  assumes "reachable registry_init registry_step g" and "register_batch ss g = (g', r)"
  shows "case r of
      Inl e \<Rightarrow> g' = g
    | Inr ids \<Rightarrow> length ids = length ss \<and> (\<forall>j < length ss. sg_schema g' (ids ! j) = Inr (ss ! j))
        \<and> (\<forall>i s. sg_schema g i = Inr s \<longrightarrow> sg_schema g' i = Inr s)"
proof (cases rule: register_batch_cases [of ss g])
  case (refused e)
  with assms(2) show ?thesis by auto
next
  case (accepted seen1 seen2 staged nxt ids)
  have inv: "sg_inv g" by (rule registry.reachable_invar [OF assms(1)])
  have inv': "sg_inv g'" using register_batch_inv [OF inv, of ss] assms(2) by simp
  have st: "\<exists>more. staged = sg_items g @ more" "length ids = length ss"
      "\<forall>j < length ss. entry_of (ids ! j) (ss ! j) \<in> set staged"
    using stage_all_ok [OF accepted(4)] inv by (auto simp: sg_inv_def)
  have g': "sg_items g' = staged" "r = Inr ids" using assms(2) accepted(1) by auto
  show ?thesis
    using st by (auto simp: g' sg_schema_iff [OF inv] sg_schema_iff [OF inv'])
qed

definition demo_registry :: schema_registry where
  "demo_registry = fst (register_batch [demo_schema] \<lparr>sg_max = 4, sg_next = 1, sg_items = []\<rparr>)"

lemma demo_registry_reachable: "reachable registry_init registry_step demo_registry"
proof -
  have "sg_new 4 = Inr \<lparr>sg_max = 4, sg_next = 1, sg_items = []\<rparr>" by (simp add: sg_new_def)
  then have "reachable registry_init registry_step \<lparr>sg_max = 4, sg_next = 1, sg_items = []\<rparr>"
    by (intro reachable_init) (auto simp: registry_init_def)
  then show ?thesis unfolding demo_registry_def by (metis reachable_step registry_step.intros)
qed

lemma demo_registry_again: "\<exists>g'. register_batch [demo_schema] demo_registry = (g', Inr [1])"
  by (simp add: demo_registry_def register_batch_def demo_schema_def schema_validate_def schema_key_def
      normalized_clone_id checked_add_def u32_max_def EVENT_MAX_def)

theorem register_batch_atomic_witness:
  "\<exists>g'. register_batch [demo_schema] demo_registry = (g', Inr [1]) \<and> sg_schema g' 1 = Inr demo_schema"
proof -
  obtain g' where g': "register_batch [demo_schema] demo_registry = (g', Inr [1])"
    using demo_registry_again by blast
  from register_batch_atomic [OF demo_registry_reachable g'] g' show ?thesis by auto
qed


end
