(* ===== verification/Buffers.thy ===== *)
theory Buffers
  imports Containers
begin

text \<open>
  World-scoped byte budget, \<^verbatim>\<open>crates/runtime-core/src/buffers.rs\<close>: permits reserve bytes of one
  shared atomic counter with a compare-exchange loop and return them when dropped.

  Concurrency is explicit: each thread takes one atomic access at a time. \<open>bt_try\<close> is the state of
  a thread inside \<^verbatim>\<open>reserve_bytes\<close>: the bytes it asks for and the \<^verbatim>\<open>current\<close> it last observed.
\<close>

section \<open>One iteration of the loop\<close>

datatype attempt =
    Refused error
  | Exchange nat
  \<comment> \<open>\<^verbatim>\<open>compare_exchange_weak(current, next)\<close>\<close>

definition reserve_attempt :: "nat \<Rightarrow> nat \<Rightarrow> nat \<Rightarrow> attempt" where
  "reserve_attempt limit bytes current =
     (case checked_add usize_max current bytes of
        None \<Rightarrow> Refused BudgetExceeded
      | Some nxt \<Rightarrow> if nxt > limit then Refused BudgetExceeded else Exchange nxt)"

section \<open>Threads\<close>

record buffer_thread =
  bt_held :: "nat option"
  bt_try :: "(nat \<times> nat) option"

record buffer_state =
  bs_limit :: nat
  bs_retained :: nat
  bs_threads :: "buffer_thread list"

definition held_bytes :: "buffer_thread \<Rightarrow> nat" where
  "held_bytes t = (case bt_held t of None \<Rightarrow> 0 | Some b \<Rightarrow> b)"

definition total_held :: "buffer_state \<Rightarrow> nat" where
  "total_held s = sum_list (map held_bytes (bs_threads s))"

definition set_thread :: "nat \<Rightarrow> buffer_thread \<Rightarrow> buffer_state \<Rightarrow> buffer_state" where
  "set_thread i t s = s\<lparr>bs_threads := (bs_threads s)[i := t]\<rparr>"

text \<open>A fresh reservation creates a permit, a growth extends the one held.\<close>

definition permit_after :: "nat option \<Rightarrow> nat \<Rightarrow> nat option" where
  "permit_after held bytes = Some ((case held of None \<Rightarrow> 0 | Some b \<Rightarrow> b) + bytes)"

text \<open>
  The atomic steps. A thread without a permit starts \<^verbatim>\<open>reserve\<close>, one with a permit starts
  \<^verbatim>\<open>try_grow\<close> (which returns at once for zero bytes and refuses a permit size overflow); both load the
  counter. An iteration either gives up, or exchanges if the counter still holds the observed
  value, or fails, possibly spuriously, and observes the counter again. Dropping a permit subtracts its bytes.
\<close>

inductive buffer_step :: "buffer_state \<Rightarrow> buffer_state \<Rightarrow> bool" where
  reserve_load:
    "i < length (bs_threads s) \<Longrightarrow> bs_threads s ! i = t \<Longrightarrow> bt_try t = None \<Longrightarrow> bt_held t = None \<Longrightarrow>
     buffer_step s (set_thread i (t\<lparr>bt_try := Some (bytes, bs_retained s)\<rparr>) s)"
| grow_load:
    "i < length (bs_threads s) \<Longrightarrow> bs_threads s ! i = t \<Longrightarrow> bt_try t = None \<Longrightarrow> bt_held t = Some b \<Longrightarrow>
     additional \<noteq> 0 \<Longrightarrow> checked_add usize_max b additional \<noteq> None \<Longrightarrow>
     buffer_step s (set_thread i (t\<lparr>bt_try := Some (additional, bs_retained s)\<rparr>) s)"
| give_up:
    "i < length (bs_threads s) \<Longrightarrow> bs_threads s ! i = t \<Longrightarrow> bt_try t = Some (bytes, current) \<Longrightarrow>
     reserve_attempt (bs_limit s) bytes current = Refused e \<Longrightarrow>
     buffer_step s (set_thread i (t\<lparr>bt_try := None\<rparr>) s)"
| exchange:
    "i < length (bs_threads s) \<Longrightarrow> bs_threads s ! i = t \<Longrightarrow> bt_try t = Some (bytes, current) \<Longrightarrow>
     reserve_attempt (bs_limit s) bytes current = Exchange nxt \<Longrightarrow> bs_retained s = current \<Longrightarrow>
     buffer_step s (set_thread i (t\<lparr>bt_try := None, bt_held := permit_after (bt_held t) bytes\<rparr>)
       (s\<lparr>bs_retained := nxt\<rparr>))"
| exchange_fails:
    "i < length (bs_threads s) \<Longrightarrow> bs_threads s ! i = t \<Longrightarrow> bt_try t = Some (bytes, current) \<Longrightarrow>
     reserve_attempt (bs_limit s) bytes current = Exchange nxt \<Longrightarrow>
     buffer_step s (set_thread i (t\<lparr>bt_try := Some (bytes, bs_retained s)\<rparr>) s)"
| drop_permit:
    "i < length (bs_threads s) \<Longrightarrow> bs_threads s ! i = t \<Longrightarrow> bt_try t = None \<Longrightarrow> bt_held t = Some b \<Longrightarrow>
     buffer_step s (set_thread i (t\<lparr>bt_held := None\<rparr>)
       (s\<lparr>bs_retained := (bs_retained s + (usize_max + 1) - b) mod (usize_max + 1)\<rparr>))"

definition buffer_init :: "nat \<Rightarrow> buffer_state \<Rightarrow> bool" where
  "buffer_init limit s \<longleftrightarrow> limit \<le> usize_max \<and> bs_limit s = limit \<and> bs_retained s = 0
     \<and> (\<forall>t \<in> set (bs_threads s). t = \<lparr>bt_held = None, bt_try = None\<rparr>)"

text \<open>The sequential reading: with no other thread and no spurious failure, one iteration decides.\<close>

definition reserve_alone :: "nat \<Rightarrow> nat \<Rightarrow> nat \<Rightarrow> error + nat" where
  "reserve_alone limit bytes retained =
     (case reserve_attempt limit bytes retained of Refused e \<Rightarrow> Inl e | Exchange nxt \<Rightarrow> Inr nxt)"

section \<open>The invariant\<close>

definition buffer_inv :: "nat \<Rightarrow> buffer_state \<Rightarrow> bool" where
  "buffer_inv limit s \<longleftrightarrow> bs_limit s = limit \<and> limit \<le> usize_max
     \<and> bs_retained s = total_held s \<and> bs_retained s \<le> limit"

lemma total_held_set:
  assumes "i < length (bs_threads s)"
  shows "total_held (set_thread i t s) + held_bytes (bs_threads s ! i) = total_held s + held_bytes t"
  using sum_list_map_update [OF assms, of held_bytes t] by (simp add: total_held_def set_thread_def)

lemma total_held_ge: "i < length (bs_threads s) \<Longrightarrow> held_bytes (bs_threads s ! i) \<le> total_held s"
  by (simp add: total_held_def elem_le_sum_list member_le_sum_list)

lemma set_thread_fields [simp]:
  "bs_limit (set_thread i t s) = bs_limit s"
  "bs_retained (set_thread i t s) = bs_retained s"
  "bs_threads (set_thread i t s) = (bs_threads s)[i := t]"
  by (simp_all add: set_thread_def)

lemma total_held_retained [simp]: "total_held (s\<lparr>bs_retained := n\<rparr>) = total_held s"
  by (simp add: total_held_def)

lemma held_bytes_simps [simp]:
  "held_bytes (t\<lparr>bt_try := x\<rparr>) = held_bytes t"
  "held_bytes (t\<lparr>bt_held := y\<rparr>) = (case y of None \<Rightarrow> 0 | Some b \<Rightarrow> b)"
  by (simp_all add: held_bytes_def)

lemma total_held_try:
  "i < length (bs_threads s) \<Longrightarrow> bs_threads s ! i = t \<Longrightarrow>
     total_held (set_thread i (t\<lparr>bt_try := x\<rparr>) s) = total_held s"
  using total_held_set [of i s "t\<lparr>bt_try := x\<rparr>"] by simp

lemma reserve_attempt_Exchange:
  "reserve_attempt limit bytes current = Exchange nxt \<longleftrightarrow>
     nxt = current + bytes \<and> nxt \<le> usize_max \<and> nxt \<le> limit"
  by (auto simp: reserve_attempt_def split: option.splits)

lemma buffer_step_inv: "buffer_step s s' \<Longrightarrow> buffer_inv limit s \<Longrightarrow> buffer_inv limit s'"
proof (induction rule: buffer_step.induct)
  case (exchange i s t bytes current nxt)
  then show ?case
    using total_held_set [of i "s\<lparr>bs_retained := nxt\<rparr>"
        "t\<lparr>bt_try := None, bt_held := permit_after (bt_held t) bytes\<rparr>"]
    by (auto simp: buffer_inv_def reserve_attempt_Exchange permit_after_def held_bytes_def)
next
  case (drop_permit i s t b)
  have "b \<le> total_held s" using total_held_ge [of i s] drop_permit by (simp add: held_bytes_def)
  then have "b \<le> bs_retained s" "bs_retained s \<le> usize_max" using drop_permit by (auto simp: buffer_inv_def)
  then have "(bs_retained s + (usize_max + 1) - b) mod (usize_max + 1) = bs_retained s - b"
    by (metis Nat.add_diff_assoc2 le_imp_less_Suc less_imp_diff_less mod_add_self2 mod_less Suc_eq_plus1)
  then show ?case
    using total_held_set [of i "s\<lparr>bs_retained := bs_retained s - b\<rparr>" "t\<lparr>bt_held := None\<rparr>"] drop_permit
    by (auto simp: buffer_inv_def held_bytes_def)
qed (simp_all add: buffer_inv_def total_held_try)

interpretation budget: invariant_system "buffer_init limit" buffer_step "buffer_inv limit"
  for limit
proof unfold_locales
  show "buffer_init limit s \<Longrightarrow> buffer_inv limit s" for s
    by (induction "bs_threads s" arbitrary: s)
      (auto simp: buffer_init_def buffer_inv_def total_held_def held_bytes_def)
qed (rule buffer_step_inv)

section \<open>Properties\<close>


definition buffer_demo :: buffer_state where
  "buffer_demo = \<lparr>bs_limit = 10, bs_retained = 0,
     bs_threads = [\<lparr>bt_held = None, bt_try = None\<rparr>, \<lparr>bt_held = None, bt_try = None\<rparr>]\<rparr>"


text \<open>With no interference, a reservation of \<open>bytes\<close> succeeds exactly when the bytes fit in what is
  left of the budget, and it takes exactly those; the refusal is \<^verbatim>\<open>BudgetExceeded\<close>.\<close>

theorem reserve_alone_exact:
  assumes "limit \<le> usize_max" and "retained \<le> limit"
  shows "reserve_alone limit bytes retained =
    (if bytes \<le> limit - retained then Inr (retained + bytes) else Inl BudgetExceeded)"
  using assms by (auto simp: reserve_alone_def reserve_attempt_def checked_add_def)

theorem reserve_alone_exact_witness:
  "reserve_alone 10 4 6 = Inr 10 \<and> reserve_alone 10 5 6 = Inl BudgetExceeded"
  using reserve_alone_exact [of 10 6 4] reserve_alone_exact [of 10 6 5]
  by (simp add: usize_max_def u64_max_def)

end
