(* ===== verification/Publications.thy ===== *)
theory Publications
  imports Containers Envelope
begin

text \<open>
  The publication table, \<^verbatim>\<open>PublicationTable\<close> of
  \<^verbatim>\<open>crates/runtime-core/src/publications.rs\<close>: accepted publications in id order, a FIFO of ids per
  source, the round-robin queue of ready sources, the deadline index, and bounded tickets.

  A ticket is shared by its publication and the caller. The model keeps one record per live
  ticket with a flag for the caller's handles; its permit is returned when the publication has
  finished and the caller holds none.
\<close>

section \<open>Data\<close>

datatype publication_outcome =
  PubPending | PubRouted | PubCancelled | PubExpired | PubFanoutLimit | PubSnapshotFull

record delivery_report =
  rp_admitted :: nat
  rp_rejected :: nat
  rp_staged :: nat
  rp_matched :: nat
  rp_outcome :: publication_outcome

datatype publication_status =
  PsStaged | PsQueued | PsRouting delivery_report | PsTerminal delivery_report

record ticket_state =
  tk_source :: actor_ref
  tk_status :: publication_status
  tk_external :: bool

record publication =
  pu_source :: actor_ref
  pu_source_port :: "nat option"
  pu_stored :: stored
  pu_staged :: bool
  pu_completion :: bool
  pu_ticket :: nat
  pu_routes :: "(nat \<times> actor_ref) list option"
  pu_cursor :: nat
  pu_report :: delivery_report

record publication_table =
  pb_entries :: "(nat \<times> publication) list"
  pb_by_source :: "actor_ref \<rightharpoonup> nat list"
  pb_ready :: "actor_ref list"
  pb_ready_set :: "actor_ref list"
  pb_deadlines :: "(instant \<times> nat) list"
  pb_next_id :: nat
  pb_limit :: nat
  pb_per_source :: nat
  pb_total :: nat
  pb_counts :: "actor_ref \<rightharpoonup> nat"
  pb_tickets :: "(nat \<times> ticket_state) list"
  pb_snapshot_entries :: nat

definition empty_report :: delivery_report where
  "empty_report = \<lparr>rp_admitted = 0, rp_rejected = 0, rp_staged = 0, rp_matched = 0, rp_outcome = PubPending\<rparr>"

section \<open>Operations\<close>

definition pb_new :: "nat \<Rightarrow> nat \<Rightarrow> publication_table" where
  "pb_new limit per_source =
     \<lparr>pb_entries = [], pb_by_source = Map.empty, pb_ready = [], pb_ready_set = [], pb_deadlines = [],
      pb_next_id = 1, pb_limit = limit, pb_per_source = per_source, pb_total = 0,
      pb_counts = Map.empty, pb_tickets = [], pb_snapshot_entries = 0\<rparr>"

definition pb_reserve ::
  "actor_ref \<Rightarrow> bool \<Rightarrow> publication_table \<Rightarrow> publication_table \<times> nat result" where
  "pb_reserve source staged t =
     (case checked_add u64_max (pb_next_id t) 1 of
        None \<Rightarrow> (t, Inl LimitExceeded)
      | Some next_id \<Rightarrow>
          if pb_total t \<ge> pb_limit t \<or> cnt_get (pb_counts t) source \<ge> pb_per_source t
          then (t, Inl QueueFull)
          else
            (t\<lparr>pb_total := pb_total t + 1, pb_counts := cnt_inc source (pb_counts t),
               pb_tickets := bm_insert (pb_next_id t)
                 \<lparr>tk_source = source, tk_status = (if staged then PsStaged else PsQueued), tk_external = True\<rparr>
                 (pb_tickets t),
               pb_next_id := next_id\<rparr>, Inr (pb_next_id t)))"

definition deque_push :: "actor_ref \<Rightarrow> nat \<Rightarrow> (actor_ref \<rightharpoonup> nat list) \<Rightarrow> (actor_ref \<rightharpoonup> nat list)" where
  "deque_push source n m = m(source \<mapsto> (case m source of None \<Rightarrow> [] | Some q \<Rightarrow> q) @ [n])"

definition deque_of :: "publication_table \<Rightarrow> actor_ref \<Rightarrow> nat list" where
  "deque_of t source = (case pb_by_source t source of None \<Rightarrow> [] | Some q \<Rightarrow> q)"

definition ready_head :: "publication_table \<Rightarrow> actor_ref \<Rightarrow> bool" where
  "ready_head t source =
     (case deque_of t source of
        [] \<Rightarrow> False
      | n # _ \<Rightarrow> (case bm_get (pb_entries t) n of None \<Rightarrow> False | Some p \<Rightarrow> \<not> pu_staged p))"

definition pb_ready_source :: "actor_ref \<Rightarrow> publication_table \<Rightarrow> publication_table" where
  "pb_ready_source source t =
     (if ready_head t source \<and> source \<notin> set (pb_ready_set t)
      then t\<lparr>pb_ready_set := bs_insert source (pb_ready_set t), pb_ready := pb_ready t @ [source]\<rparr>
      else t)"

definition pb_insert :: "publication \<Rightarrow> publication_table \<Rightarrow> publication_table" where
  "pb_insert publication t =
     (let n = pu_ticket publication; source = pu_source publication;
          t1 = (case mo_deadline (s_options (pu_stored publication)) of
                  None \<Rightarrow> t
                | Some deadline \<Rightarrow> t\<lparr>pb_deadlines := bs_insert (deadline, n) (pb_deadlines t)\<rparr>);
          t2 = t1\<lparr>pb_by_source := deque_push source n (pb_by_source t1),
                  pb_entries := bm_insert n publication (pb_entries t1)\<rparr>
      in pb_ready_source source t2)"

definition pb_remove_indexes :: "publication \<Rightarrow> publication_table \<Rightarrow> publication_table" where
  "pb_remove_indexes publication t =
     (let source = pu_source publication; n = pu_ticket publication;
          t1 = (case mo_deadline (s_options (pu_stored publication)) of
                  None \<Rightarrow> t
                | Some deadline \<Rightarrow> t\<lparr>pb_deadlines := bs_remove (deadline, n) (pb_deadlines t)\<rparr>);
          t2 = (case pu_routes publication of
                  None \<Rightarrow> t1
                | Some routes \<Rightarrow> t1\<lparr>pb_snapshot_entries := pb_snapshot_entries t1 - length routes\<rparr>);
          t3 = (case pb_by_source t2 source of
                  None \<Rightarrow> t2
                | Some q \<Rightarrow>
                    (let q' = removeAll n q in
                     t2\<lparr>pb_by_source := (pb_by_source t2)(source := (if q' = [] then None else Some q'))\<rparr>));
          t4 = (if source \<in> set (pb_ready_set t3)
                then t3\<lparr>pb_ready_set := bs_remove source (pb_ready_set t3),
                        pb_ready := removeAll source (pb_ready t3)\<rparr>
                else t3)
      in pb_ready_source source t4)"

definition pb_pending_for :: "publication_table \<Rightarrow> actor_ref \<Rightarrow> nat" where
  "pb_pending_for t source = length (deque_of t source)"

definition pb_last_issued :: "publication_table \<Rightarrow> nat" where
  "pb_last_issued t = pb_next_id t - 1"

definition pb_pending :: "publication_table \<Rightarrow> nat" where
  "pb_pending t = length (pb_entries t)"

definition pb_retained :: "publication_table \<Rightarrow> nat" where
  "pb_retained t = pb_total t - pb_pending t"

definition pb_counts_for_scope :: "publication_table \<Rightarrow> actor_ref list \<Rightarrow> nat \<times> nat" where
  "pb_counts_for_scope t scope =
     (let pending = sum_list (map (pb_pending_for t) scope);
          total_count = sum_list (map (cnt_get (pb_counts t)) scope)
      in (pending, total_count - pending))"

text \<open>\<^verbatim>\<open>Drop for TicketPermit\<close>, run when the last of the ticket's holders is gone.\<close>

definition pb_release :: "nat \<Rightarrow> publication_table \<Rightarrow> publication_table" where
  "pb_release n t =
     (case bm_get (pb_tickets t) n of
        None \<Rightarrow> t
      | Some tk \<Rightarrow>
          if tk_external tk \<or> bm_get (pb_entries t) n \<noteq> None then t
          else t\<lparr>pb_total := pb_total t - 1, pb_counts := cnt_dec (tk_source tk) (pb_counts t),
                 pb_tickets := bm_remove n (pb_tickets t)\<rparr>)"

definition pb_drop_ticket :: "nat \<Rightarrow> publication_table \<Rightarrow> publication_table" where
  "pb_drop_ticket n t =
     (case bm_get (pb_tickets t) n of
        None \<Rightarrow> t
      | Some tk \<Rightarrow>
          pb_release n (t\<lparr>pb_tickets := bm_insert n (tk\<lparr>tk_external := False\<rparr>) (pb_tickets t)\<rparr>))"

definition pb_set_status :: "nat \<Rightarrow> publication_status \<Rightarrow> publication_table \<Rightarrow> publication_table" where
  "pb_set_status n s t =
     (case bm_get (pb_tickets t) n of
        None \<Rightarrow> t
      | Some tk \<Rightarrow> t\<lparr>pb_tickets := bm_insert n (tk\<lparr>tk_status := s\<rparr>) (pb_tickets t)\<rparr>)"

text \<open>The table part of \<^verbatim>\<open>enqueue_publication_locked\<close>: a staged publication becomes routable.\<close>

definition pb_enqueue :: "nat \<Rightarrow> publication_table \<Rightarrow> publication_table" where
  "pb_enqueue n t =
     (case bm_get (pb_entries t) n of
        None \<Rightarrow> t
      | Some p \<Rightarrow>
          pb_ready_source (pu_source p)
            (pb_set_status n PsQueued
              (t\<lparr>pb_entries := bm_insert n (p\<lparr>pu_staged := False\<rparr>) (pb_entries t)\<rparr>)))"

text \<open>The head of \<^verbatim>\<open>route_batch\<close>: the next ready source and its oldest publication, taken out of the
  entries; \<open>None\<close> when nothing is ready. The two \<^verbatim>\<open>expect\<close>s are the inner \<open>None\<close>.\<close>

definition pb_pop_ready ::
  "publication_table \<Rightarrow> (actor_ref \<times> publication \<times> publication_table) option option" where
  "pb_pop_ready t =
     (case pb_ready t of
        [] \<Rightarrow> None
      | source # rest \<Rightarrow>
          (let t1 = t\<lparr>pb_ready := rest, pb_ready_set := bs_remove source (pb_ready_set t)\<rparr>
           in Some (case deque_of t1 source of
                [] \<Rightarrow> None
              | n # _ \<Rightarrow>
                  (case bm_get (pb_entries t1) n of
                     None \<Rightarrow> None
                   | Some p \<Rightarrow> Some (source, p, t1\<lparr>pb_entries := bm_remove n (pb_entries t1)\<rparr>)))))"

text \<open>Its tail for a publication with destinations left, and the table part of
  \<^verbatim>\<open>finish_publication_locked\<close>.\<close>

definition pb_requeue :: "publication \<Rightarrow> publication_table \<Rightarrow> publication_table" where
  "pb_requeue p t =
     (let n = pu_ticket p;
          t1 = pb_set_status n (PsRouting (pu_report p)) t
      in pb_ready_source (pu_source p) (t1\<lparr>pb_entries := bm_insert n p (pb_entries t1)\<rparr>))"

definition pb_finish :: "publication \<Rightarrow> publication_table \<Rightarrow> publication_table" where
  "pb_finish p t =
     (let t1 = pb_remove_indexes p t;
          t2 = pb_set_status (pu_ticket p) (PsTerminal (pu_report p)) t1
      in pb_release (pu_ticket p) t2)"

end
