(* ===== verification/Publications_Correct.thy ===== *)
theory Publications_Correct
  imports Publications
begin

text \<open>
  The publication table's invariant: the per-source queues, the ready queue, the deadline index, the
  ticket counts and the snapshot total all follow from the accepted publications, and the limits
  hold.
\<close>

section \<open>Ordered maps as entry lists\<close>

lemma bm_insert_max:
  "bmap m \<Longrightarrow> \<forall>k \<in> fst ` set m. k < n \<Longrightarrow> bm_insert n v m = m @ [(n, v)]"
  by (induction n v m rule: bm_insert.induct) (auto simp: bmap_Cons)

lemma bm_get_key: "map_of m n = Some v \<Longrightarrow> n \<in> fst ` set m"
  by (metis domI dom_map_of_conv_image_fst)

lemma filter_map_bm_insert_same:
  assumes "bmap m" "map_of m n = Some v" "P v = P w"
  shows "map fst (filter (\<lambda>(k, x). P x) (bm_insert n w m)) = map fst (filter (\<lambda>(k, x). P x) m)"
  using assms
proof (induction n w m rule: bm_insert.induct)
  case (2 k u k' v' m)
  have "\<not> k < k'" using 2(2,3) bm_get_key [of m k v] by (auto simp: bmap_Cons split: if_splits)
  then show ?case using 2 by (auto simp: bmap_Cons split: if_splits)
qed simp

lemma sum_bm_insert_same:
  fixes f :: "'v \<Rightarrow> nat"
  assumes "bmap m" "map_of m n = Some v"
  shows "sum_list (map (f \<circ> snd) (bm_insert n w m)) + f v = sum_list (map (f \<circ> snd) m) + f w"
  using assms
proof (induction n w m rule: bm_insert.induct)
  case (2 k u k' v' m)
  have "\<not> k < k'" using 2(2,3) bm_get_key [of m k v] by (auto simp: bmap_Cons split: if_splits)
  then show ?case using 2 by (auto simp: bmap_Cons split: if_splits)
qed simp

lemma sum_bm_remove:
  fixes f :: "'v \<Rightarrow> nat"
  assumes "bmap m" "map_of m n = Some v"
  shows "sum_list (map (f \<circ> snd) (bm_remove n m)) + f v = sum_list (map (f \<circ> snd) m)"
  using assms
proof (induction m)
  case (Cons p m)
  obtain k x where p: "p = (k, x)" by fastforce
  show ?case
  proof (cases "k = n")
    case True
    with Cons.prems have "n \<notin> fst ` set m" "x = v" by (auto simp: p bmap_Cons)
    then have "bm_remove n m = m" by (auto simp: bm_remove_def filter_id_conv)
    then show ?thesis using True \<open>x = v\<close> by (simp add: p bm_remove_def)
  next
    case False
    with Cons show ?thesis by (auto simp: p bm_remove_def bmap_Cons)
  qed
qed simp

lemma length_filter_bm_remove:
  assumes "bmap m" "map_of m n = Some v"
  shows "length (filter (\<lambda>(k, x). P x) (bm_remove n m)) + (if P v then 1 else 0) =
     length (filter (\<lambda>(k, x). P x) m)"
  using assms
proof (induction m)
  case (Cons p m)
  obtain k x where p: "p = (k, x)" by fastforce
  show ?case
  proof (cases "k = n")
    case True
    with Cons.prems have "n \<notin> fst ` set m" "x = v" by (auto simp: p bmap_Cons)
    then have "bm_remove n m = m" by (auto simp: bm_remove_def filter_id_conv)
    then show ?thesis using True \<open>x = v\<close> by (simp add: p bm_remove_def)
  next
    case False
    with Cons show ?thesis by (auto simp: p bm_remove_def bmap_Cons)
  qed
qed simp

lemma bm_insert_remove: "bmap m \<Longrightarrow> map_of m n = Some v \<Longrightarrow> bm_insert n w (bm_remove n m) = bm_insert n w m"
proof -
  assume m: "bmap m"
  have "map_of (bm_insert n w (bm_remove n m)) = map_of (bm_insert n w m)" by auto
  moreover have "bmap (bm_insert n w (bm_remove n m))" "bmap (bm_insert n w m)" using m by auto
  ultimately show ?thesis by (metis bmap_eqI)
qed

end
