(* ===== verification/Components.thy ===== *)
theory Components
  imports Containers Envelope Schema
begin

text \<open>
  Component contracts, \<^verbatim>\<open>crates/runtime-core/src/components.rs\<close>: payload types, ports, interfaces
  and descriptors, their validation, and the admission of a descriptor's interfaces into the World's
  table of immutable interface identities. The World operations on ports are in \<^verbatim>\<open>World_Components\<close>.
\<close>

section \<open>Data\<close>

definition MAX_PORTS :: nat where "MAX_PORTS = 64"
definition MAX_INTERFACES :: nat where "MAX_INTERFACES = 16"
definition MAX_WORLD_INTERFACES :: nat where "MAX_WORLD_INTERFACES = 1024"

datatype payload_type = PtPulse | PtCountSnapshot | PtStructured nat

fun pt_matches :: "payload_type \<Rightarrow> payload \<Rightarrow> bool" where
  "pt_matches PtPulse (Pulse v) = True"
| "pt_matches PtCountSnapshot (CountSnapshot c t) = True"
| "pt_matches (PtStructured sid) (Structured r) = (sid = sr_schema r)"
| "pt_matches _ _ = False"

datatype port_direction = Input | Output

record port_spec =
  ps_name :: bytes
  ps_direction :: port_direction
  ps_schema :: payload_type

record interface_spec =
  is_name :: bytes
  is_version :: nat
  is_ports :: "port_spec list"

record component_descriptor =
  cd_name :: bytes
  cd_version :: nat
  cd_ports :: "port_spec list"
  cd_interfaces :: "interface_spec list"

type_synonym interface_table = "((bytes \<times> nat) \<times> interface_spec) list"

section \<open>Validation\<close>

definition valid_name :: "bytes \<Rightarrow> bool" where
  "valid_name name \<longleftrightarrow> name \<noteq> [] \<and> length name \<le> 128"

text \<open>The loop of \<^verbatim>\<open>validate_ports\<close>, with its two sets \<open>names\<close> and \<open>inputs\<close>.\<close>

fun ports_loop ::
  "schema_registry \<Rightarrow> port_spec list \<Rightarrow> bytes list \<Rightarrow> payload_type list \<Rightarrow> unit result" where
  "ports_loop schemas [] names inputs = Inr ()"
| "ports_loop schemas (port # ports) names inputs =
     (if \<not> valid_name (ps_name port) \<or> ps_name port \<in> set names then Inl InvalidPort
      else if ps_direction port = Input \<and> ps_schema port \<in> set inputs then Inl InvalidPort
      else
        (let names' = ps_name port # names;
             inputs' = (if ps_direction port = Input then ps_schema port # inputs else inputs)
         in case ps_schema port of
              PtStructured sid \<Rightarrow>
                if is_ok (sg_schema schemas sid) then ports_loop schemas ports names' inputs'
                else Inl SchemaMismatch
            | _ \<Rightarrow> ports_loop schemas ports names' inputs'))"

definition validate_ports :: "schema_registry \<Rightarrow> port_spec list \<Rightarrow> unit result" where
  "validate_ports schemas ports =
     (if length ports > MAX_PORTS then Inl LimitExceeded else ports_loop schemas ports [] [])"

section \<open>Interface identities\<close>

text \<open>\<^verbatim>\<open>normalized.ports.sort_by(|a, b| a.name.cmp(&b.name))\<close>: a stable sort by name.\<close>

definition normalize_interface :: "interface_spec \<Rightarrow> interface_spec" where
  "normalize_interface i = i\<lparr>is_ports := sort_key ps_name (is_ports i)\<rparr>"

definition interface_key :: "interface_spec \<Rightarrow> bytes \<times> nat" where
  "interface_key i = (is_name i, is_version i)"

text \<open>The loop over the descriptor's interfaces in \<^verbatim>\<open>register_component\<close>: \<open>incoming\<close> collects the
  identities the World does not know yet.\<close>

fun interfaces_loop ::
  "schema_registry \<Rightarrow> port_spec list \<Rightarrow> interface_table \<Rightarrow> interface_spec list \<Rightarrow>
   (bytes \<times> nat) list \<Rightarrow> interface_table \<Rightarrow> interface_table result" where
  "interfaces_loop schemas ports known [] identities incoming = Inr incoming"
| "interfaces_loop schemas ports known (i # rest) identities incoming =
     (if \<not> valid_name (is_name i) \<or> is_version i = 0 then Inl InterfaceMismatch
      else bindR (validate_ports schemas (is_ports i)) (\<lambda>_.
        if list_ex (\<lambda>port. port \<notin> set ports) (is_ports i) then Inl InterfaceMismatch
        else if interface_key i \<in> set identities then Inl InterfaceMismatch
        else
          (let identities' = interface_key i # identities;
               normalized = normalize_interface i
           in case map_of known (interface_key i) of
                Some prior \<Rightarrow>
                  if prior \<noteq> normalized then Inl InterfaceMismatch
                  else interfaces_loop schemas ports known rest identities' incoming
              | None \<Rightarrow>
                  if map_of incoming (interface_key i) \<noteq> None then Inl InterfaceMismatch
                  else interfaces_loop schemas ports known rest identities'
                         (incoming @ [(interface_key i, normalized)]))))"

text \<open>The pure part of \<^verbatim>\<open>register_component\<close>: the new interface table, or the refusal.\<close>

definition admit_descriptor ::
  "schema_registry \<Rightarrow> component_descriptor \<Rightarrow> interface_table \<Rightarrow> interface_table result" where
  "admit_descriptor schemas d known =
     (if \<not> valid_name (cd_name d) \<or> cd_version d = 0 \<or> length (cd_interfaces d) > MAX_INTERFACES
      then Inl InvalidConfig
      else bindR (validate_ports schemas (cd_ports d)) (\<lambda>_.
           bindR (interfaces_loop schemas (cd_ports d) known (cd_interfaces d) [] []) (\<lambda>incoming.
             if length known + length incoming > MAX_WORLD_INTERFACES then Inl LimitExceeded
             else Inr (known @ incoming))))"

text \<open>The contract test of \<^verbatim>\<open>require_interface\<close>, shared with \<^verbatim>\<open>services.rs\<close>.\<close>

definition contract_fits :: "interface_spec \<Rightarrow> interface_spec \<Rightarrow> bool" where
  "contract_fits required contract \<longleftrightarrow>
     is_name contract = is_name required \<and> is_version contract = is_version required
     \<and> length (is_ports contract) = length (is_ports required)
     \<and> list_all (\<lambda>port. port \<in> set (is_ports contract)) (is_ports required)"

section \<open>Properties\<close>

text \<open>What a validated port list is.\<close>

definition ports_ok :: "schema_registry \<Rightarrow> port_spec list \<Rightarrow> bool" where
  "ports_ok schemas ports \<longleftrightarrow> length ports \<le> MAX_PORTS \<and> distinct (map ps_name ports)
     \<and> distinct (map ps_schema (filter (\<lambda>p. ps_direction p = Input) ports))
     \<and> (\<forall>p \<in> set ports. valid_name (ps_name p)
         \<and> (case ps_schema p of PtStructured sid \<Rightarrow> is_ok (sg_schema schemas sid) | _ \<Rightarrow> True))"

lemma ports_loop_ok_iff:
  "ports_loop schemas ports names inputs = Inr () \<longleftrightarrow>
     distinct (map ps_name ports) \<and> set (map ps_name ports) \<inter> set names = {}
     \<and> distinct (map ps_schema (filter (\<lambda>p. ps_direction p = Input) ports))
     \<and> set (map ps_schema (filter (\<lambda>p. ps_direction p = Input) ports)) \<inter> set inputs = {}
     \<and> (\<forall>p \<in> set ports. valid_name (ps_name p)
         \<and> (case ps_schema p of PtStructured sid \<Rightarrow> is_ok (sg_schema schemas sid) | _ \<Rightarrow> True))"
proof (induction ports arbitrary: names inputs)
  case (Cons port ports)
  show ?case
    by (auto simp: Let_def Cons.IH split: payload_type.splits)
qed simp

lemma validate_ports_ok_iff: "validate_ports schemas ports = Inr () \<longleftrightarrow> ports_ok schemas ports"
  by (auto simp: validate_ports_def ports_ok_def ports_loop_ok_iff)

text \<open>For a payload, at most one input port of a validated component accepts it: the destination
  port of a direct delivery is unambiguous.\<close>

lemma pt_matches_unique: "pt_matches p x \<Longrightarrow> pt_matches q x \<Longrightarrow> p = q"
  by (cases x; cases p; cases q) auto

lemma ports_ok_unique_input:
  assumes "ports_ok schemas ports" "i < length ports" "j < length ports"
    and "ps_direction (ports ! i) = Input" "ps_direction (ports ! j) = Input"
    and "pt_matches (ps_schema (ports ! i)) x" "pt_matches (ps_schema (ports ! j)) x"
  shows "i = j"
proof -
  let ?f = "\<lambda>p. ps_direction p = Input"
  have "ps_schema (ports ! i) = ps_schema (ports ! j)" using assms by (blast intro: pt_matches_unique)
  moreover have "inj_on ps_schema (set (filter ?f ports))" "distinct (filter ?f ports)"
    using assms(1) by (auto simp: ports_ok_def distinct_map)
  ultimately have "ports ! i = ports ! j"
    using assms by (auto simp: inj_on_def)
  then have "ps_name (ports ! i) = ps_name (ports ! j)" by simp
  then show ?thesis
    using assms(1-3) by (metis length_map nth_map nth_eq_iff_index_eq ports_ok_def)
qed

text \<open>The interface loop only ever adds unknown identities.\<close>

lemma interfaces_loop_incoming:
  assumes "interfaces_loop schemas ports known ifs identities incoming = Inr incoming'"
    and "distinct (map fst incoming)" "set (map fst incoming) \<inter> fst ` set known = {}"
  shows "distinct (map fst incoming') \<and> set (map fst incoming') \<inter> fst ` set known = {}"
  using assms
proof (induction ifs arbitrary: identities incoming)
  case (Cons i rest)
  show ?case
  proof (cases "map_of known (interface_key i)")
    case None
    let ?inc = "incoming @ [(interface_key i, normalize_interface i)]"
    have run: "interfaces_loop schemas ports known rest (interface_key i # identities) ?inc = Inr incoming'"
      and fresh: "map_of incoming (interface_key i) = None"
      using Cons.prems(1) None by (auto simp: Let_def bindR_Inr_iff split: if_splits)
    have "distinct (map fst ?inc)" "set (map fst ?inc) \<inter> fst ` set known = {}"
      using Cons.prems(2,3) fresh None by (auto simp: map_of_eq_None_iff)
    then show ?thesis by (rule Cons.IH [OF run])
  next
    case (Some prior)
    then show ?thesis
      using Cons.prems Cons.IH [of "interface_key i # identities" incoming]
      by (auto simp: Let_def bindR_Inr_iff split: if_splits)
  qed
qed simp

lemma interfaces_loop_covers:
  assumes "interfaces_loop schemas ports known ifs identities incoming = Inr incoming'"
  shows "(\<forall>k v. map_of incoming k = Some v \<longrightarrow> map_of incoming' k = Some v)
    \<and> (\<forall>i \<in> set ifs. map_of (known @ incoming') (interface_key i) = Some (normalize_interface i)
         \<and> ports_ok schemas (is_ports i) \<and> set (is_ports i) \<subseteq> set ports)
    \<and> distinct (map interface_key ifs)
    \<and> set (map interface_key ifs) \<inter> set identities = {}"
  using assms
proof (induction ifs arbitrary: identities incoming)
  case (Cons i rest)
  have v: "ports_ok schemas (is_ports i)" "set (is_ports i) \<subseteq> set ports" "interface_key i \<notin> set identities"
    using Cons.prems
    by (auto simp: bindR_Inr_iff validate_ports_ok_iff list_ex_iff split: if_splits)
  show ?case
  proof (cases "map_of known (interface_key i)")
    case None
    let ?inc = "incoming @ [(interface_key i, normalize_interface i)]"
    have fresh: "map_of incoming (interface_key i) = None"
      using Cons.prems None by (auto simp: Let_def bindR_Inr_iff split: if_splits)
    have "interfaces_loop schemas ports known rest (interface_key i # identities) ?inc = Inr incoming'"
      using Cons.prems None by (auto simp: Let_def bindR_Inr_iff split: if_splits)
    note IH = Cons.IH [OF this]
    have "map_of ?inc (interface_key i) = Some (normalize_interface i)"
      using fresh by (simp add: map_add_def)
    then have "map_of incoming' (interface_key i) = Some (normalize_interface i)" using IH by blast
    then show ?thesis using IH v None by (auto simp: map_add_def split: option.splits)
  next
    case (Some prior)
    then have p: "prior = normalize_interface i"
      and "interfaces_loop schemas ports known rest (interface_key i # identities) incoming = Inr incoming'"
      using Cons.prems by (auto simp: Let_def bindR_Inr_iff split: if_splits)
    note IH = Cons.IH [OF this(2)]
    show ?thesis using IH v Some p by (auto simp: map_add_def split: option.splits)
  qed
qed simp

definition interface_table_ok :: "interface_table \<Rightarrow> bool" where
  "interface_table_ok t \<longleftrightarrow> distinct (map fst t) \<and> length t \<le> MAX_WORLD_INTERFACES"

text \<open>C22. Interface identities are immutable: a sequence of accepted descriptors never changes what
  an already registered name and version stands for, keeps the table within its limit and free of
  duplicate identities, and every accepted interface is found under its identity with its ports in
  canonical order.\<close>

theorem interface_identities_immutable:
  assumes "interface_table_ok known" "admit_descriptor schemas d known = Inr known'"
  shows "interface_table_ok known'
    \<and> (\<forall>k v. map_of known k = Some v \<longrightarrow> map_of known' k = Some v)
    \<and> (\<forall>i \<in> set (cd_interfaces d). map_of known' (interface_key i) = Some (normalize_interface i))
    \<and> distinct (map interface_key (cd_interfaces d))
    \<and> (\<forall>i \<in> set (cd_interfaces d). set (is_ports i) \<subseteq> set (cd_ports d))"
proof -
  obtain incoming where inc: "interfaces_loop schemas (cd_ports d) known (cd_interfaces d) [] [] = Inr incoming"
    and k: "known' = known @ incoming" "length known + length incoming \<le> MAX_WORLD_INTERFACES"
    using assms(2) by (auto simp: admit_descriptor_def bindR_Inr_iff split: if_splits)
  have d: "distinct (map fst incoming)" "set (map fst incoming) \<inter> fst ` set known = {}"
    using interfaces_loop_incoming [OF inc] by auto
  note c = interfaces_loop_covers [OF inc]
  have "interface_table_ok known'"
    using assms(1) d k by (auto simp: interface_table_ok_def)
  moreover have "map_of known' k = Some v" if "map_of known k = Some v" for k v
    using that d(2) k(1) by (auto simp: map_add_Some_iff map_of_eq_None_iff dest!: map_of_SomeD)
  ultimately show ?thesis using c k(1) by auto
qed

theorem interface_identities_immutable_witness:
  "let a = \<lparr>ps_name = ''a'', ps_direction = Input, ps_schema = PtPulse\<rparr>;
       b = \<lparr>ps_name = ''b'', ps_direction = Output, ps_schema = PtCountSnapshot\<rparr>;
       i = \<lparr>is_name = ''i'', is_version = 1, is_ports = [b, a]\<rparr>;
       d = \<lparr>cd_name = ''d'', cd_version = 1, cd_ports = [a, b], cd_interfaces = [i]\<rparr>;
       g = \<lparr>sg_max = 4, sg_next = 1, sg_items = []\<rparr>;
       known = [((''j'', 2), \<lparr>is_name = ''j'', is_version = 2, is_ports = []\<rparr>)];
       known' = known @ [((''i'', 1), i\<lparr>is_ports := [a, b]\<rparr>)]
   in interface_table_ok known \<and> admit_descriptor g d known = Inr known'
      \<and> interface_table_ok known'
      \<and> map_of known' (''i'', 1) = Some (i\<lparr>is_ports := [a, b]\<rparr>)"
proof -
  let ?a = "\<lparr>ps_name = ''a'', ps_direction = Input, ps_schema = PtPulse\<rparr>"
  let ?b = "\<lparr>ps_name = ''b'', ps_direction = Output, ps_schema = PtCountSnapshot\<rparr>"
  let ?i = "\<lparr>is_name = ''i'', is_version = 1, is_ports = [?b, ?a]\<rparr>"
  let ?d = "\<lparr>cd_name = ''d'', cd_version = 1, cd_ports = [?a, ?b], cd_interfaces = [?i]\<rparr>"
  let ?g = "\<lparr>sg_max = 4, sg_next = 1, sg_items = []\<rparr>"
  let ?k = "[((''j'', 2), \<lparr>is_name = ''j'', is_version = 2, is_ports = []\<rparr>)]"
  have ok: "interface_table_ok ?k" by (simp add: interface_table_ok_def MAX_WORLD_INTERFACES_def)
  have run: "admit_descriptor ?g ?d ?k = Inr (?k @ [((''i'', 1), ?i\<lparr>is_ports := [?a, ?b]\<rparr>)])"
    by (simp add: admit_descriptor_def validate_ports_def valid_name_def MAX_PORTS_def MAX_INTERFACES_def
        MAX_WORLD_INTERFACES_def interface_key_def normalize_interface_def sort_key_def Let_def)
  have "interface_table_ok (?k @ [((''i'', 1), ?i\<lparr>is_ports := [?a, ?b]\<rparr>)])"
    using interface_identities_immutable [OF ok run] by blast
  with ok run show ?thesis unfolding Let_def by simp
qed

end
