(* ===== verification/Services.thy ===== *)
theory Services
  imports Components
begin

text \<open>
  The service registry, \<^verbatim>\<open>Registry\<close> of \<^verbatim>\<open>crates/runtime-core/src/services.rs\<close>: named native services
  and the scoped leases other actors hold on them. The World operations around it (who may register,
  fencing the scopes of a stopped service) are in \<^verbatim>\<open>World_Services\<close>.
\<close>

section \<open>Data\<close>

datatype service_lease = ServiceLease (sl_scope: actor_ref) (sl_owner: actor_ref) (sl_service: actor_ref)

record service_record =
  sv_name :: bytes
  sv_service :: actor_ref
  sv_contract :: interface_spec
  sv_scopes :: "actor_ref list"

record service_registry =
  sx_records :: "(bytes \<times> service_record) list"
  sx_by_target :: "actor_ref \<rightharpoonup> bytes"
  sx_leases :: "(actor_ref \<times> service_lease) list"
  sx_by_holder :: "actor_ref \<rightharpoonup> actor_ref list"

record service_snapshot =
  ss_name :: bytes
  ss_service :: actor_ref
  ss_contract :: interface_spec
  ss_leases :: nat

definition sx_new :: service_registry where
  "sx_new = \<lparr>sx_records = [], sx_by_target = Map.empty, sx_leases = [], sx_by_holder = Map.empty\<rparr>"

section \<open>Contracts\<close>

definition contract_matches :: "component_descriptor \<Rightarrow> interface_spec \<Rightarrow> bool" where
  "contract_matches descriptor required \<longleftrightarrow>
     valid_name (is_name required) \<and> is_version required \<noteq> 0 \<and> length (is_ports required) \<le> 64
     \<and> distinct (map ps_name (is_ports required))
     \<and> list_ex (contract_fits required) (cd_interfaces descriptor)"

definition contracts_equal :: "interface_spec \<Rightarrow> interface_spec \<Rightarrow> bool" where
  "contracts_equal left right \<longleftrightarrow>
     is_name left = is_name right \<and> is_version left = is_version right
     \<and> length (is_ports left) = length (is_ports right)
     \<and> distinct (map ps_name (is_ports left)) \<and> distinct (map ps_name (is_ports right))
     \<and> list_all (\<lambda>port. list_ex (\<lambda>candidate. candidate = port) (is_ports left)) (is_ports right)"

section \<open>Operations\<close>

text \<open>The table update of \<^verbatim>\<open>register_service\<close>.\<close>

definition sx_register :: "bytes \<Rightarrow> actor_ref \<Rightarrow> interface_spec \<Rightarrow> service_registry \<Rightarrow> service_registry" where
  "sx_register name target required g =
     g\<lparr>sx_by_target := (sx_by_target g)(target \<mapsto> name),
       sx_records := bm_insert name
         \<lparr>sv_name = name, sv_service = target, sv_contract = required, sv_scopes = []\<rparr> (sx_records g)\<rparr>"

text \<open>The table update of \<^verbatim>\<open>acquire_service_locked_target\<close>; \<open>None\<close> is its \<^verbatim>\<open>expect("service checked")\<close>.\<close>

definition sx_acquire :: "bytes \<Rightarrow> service_lease \<Rightarrow> service_registry \<Rightarrow> service_registry option" where
  "sx_acquire name lease g =
     (case bm_get (sx_records g) name of
        None \<Rightarrow> None
      | Some r \<Rightarrow>
          Some (g\<lparr>sx_records := bm_insert name (r\<lparr>sv_scopes := bs_insert (sl_scope lease) (sv_scopes r)\<rparr>)
                    (sx_records g),
                  sx_leases := bm_insert (sl_scope lease) lease (sx_leases g),
                  sx_by_holder := idx_insert (sl_owner lease) (sl_scope lease) (sx_by_holder g)\<rparr>))"

text \<open>The table update of \<^verbatim>\<open>detach_scope\<close>, with the removed lease.\<close>

definition sx_detach_scope :: "actor_ref \<Rightarrow> service_registry \<Rightarrow> service_registry \<times> service_lease option" where
  "sx_detach_scope scope g =
     (case bm_get (sx_leases g) scope of
        None \<Rightarrow> (g, None)
      | Some lease \<Rightarrow>
          (let g1 = g\<lparr>sx_leases := bm_remove scope (sx_leases g)\<rparr>;
               g2 = (case sx_by_target g1 (sl_service lease) of
                       None \<Rightarrow> g1
                     | Some name \<Rightarrow>
                         (case bm_get (sx_records g1) name of
                            None \<Rightarrow> g1
                          | Some r \<Rightarrow>
                              g1\<lparr>sx_records := bm_insert name
                                   (r\<lparr>sv_scopes := bs_remove scope (sv_scopes r)\<rparr>) (sx_records g1)\<rparr>))
           in (g2\<lparr>sx_by_holder := idx_remove (sl_owner lease) scope (sx_by_holder g2)\<rparr>, Some lease)))"

text \<open>The head of \<^verbatim>\<open>detach_service\<close>: the record leaves the table and its scopes are returned sorted.\<close>

definition sx_take_service :: "actor_ref \<Rightarrow> service_registry \<Rightarrow> service_registry \<times> actor_ref list" where
  "sx_take_service service g =
     (case sx_by_target g service of
        None \<Rightarrow> (g, [])
      | Some name \<Rightarrow>
          (let g1 = g\<lparr>sx_by_target := (sx_by_target g)(service := None)\<rparr>
           in case bm_get (sx_records g1) name of
                None \<Rightarrow> (g1, [])
              | Some r \<Rightarrow>
                  (g1\<lparr>sx_records := bm_remove name (sx_records g1)\<rparr>,
                   sort_key (\<lambda>scope. (ar_slot scope, ar_generation scope)) (sv_scopes r))))"

text \<open>The body of its loop, before the scope is fenced.\<close>

definition sx_drop_lease :: "actor_ref \<Rightarrow> service_registry \<Rightarrow> service_registry \<times> service_lease option" where
  "sx_drop_lease scope g =
     (case bm_get (sx_leases g) scope of
        None \<Rightarrow> (g, None)
      | Some lease \<Rightarrow>
          (g\<lparr>sx_leases := bm_remove scope (sx_leases g),
             sx_by_holder := idx_remove (sl_owner lease) scope (sx_by_holder g)\<rparr>, Some lease))"

definition sx_holder_count :: "service_registry \<Rightarrow> actor_ref \<Rightarrow> nat" where
  "sx_holder_count g owner = (case sx_by_holder g owner of None \<Rightarrow> 0 | Some scopes \<Rightarrow> length scopes)"

definition sx_services :: "service_registry \<Rightarrow> service_snapshot list" where
  "sx_services g = sort_key ss_name (map (\<lambda>(_, r).
     \<lparr>ss_name = sv_name r, ss_service = sv_service r, ss_contract = sv_contract r,
      ss_leases = length (sv_scopes r)\<rparr>) (sx_records g))"

definition sx_service_leases :: "service_registry \<Rightarrow> service_lease list" where
  "sx_service_leases g =
     sort_key (\<lambda>l. (ar_slot (sl_scope l), ar_generation (sl_scope l))) (map snd (sx_leases g))"

section \<open>Contracts form an equivalence\<close>

text \<open>The one-sided containment test is symmetric because both port lists are duplicate-free and of
  the same length.\<close>

lemma contracts_equal_iff:
  "contracts_equal l r \<longleftrightarrow> is_name l = is_name r \<and> is_version l = is_version r
     \<and> distinct (map ps_name (is_ports l)) \<and> distinct (map ps_name (is_ports r))
     \<and> set (is_ports l) = set (is_ports r)"
proof -
  have "length (is_ports l) = length (is_ports r) \<and> set (is_ports r) \<subseteq> set (is_ports l) \<longleftrightarrow>
      set (is_ports l) = set (is_ports r)"
    if "distinct (map ps_name (is_ports l))" "distinct (map ps_name (is_ports r))"
  proof -
    have "distinct (is_ports l)" "distinct (is_ports r)" using that by (auto simp: distinct_map)
    then show ?thesis by (metis List.finite_set card_subset_eq distinct_card subset_refl)
  qed
  then show ?thesis by (auto simp: contracts_equal_def list_all_iff list_ex_iff subset_iff)
qed

lemma contracts_equal_sym: "contracts_equal l r \<longleftrightarrow> contracts_equal r l"
  by (auto simp: contracts_equal_iff)

section \<open>The registry invariant\<close>

definition lease_rel :: "service_registry \<Rightarrow> (actor_ref \<times> actor_ref) set" where
  "lease_rel g = {(h, scope). \<exists>l. map_of (sx_leases g) scope = Some l \<and> sl_owner l = h}"

text \<open>Records are keyed by their name and found from their target; every lease is listed in exactly
  the record of its service, and the holder index is the leases by owner.\<close>

definition sx_inv :: "service_registry \<Rightarrow> bool" where
  "sx_inv g \<longleftrightarrow> bmap (sx_records g) \<and> bmap (sx_leases g)
     \<and> (\<forall>name r. map_of (sx_records g) name = Some r \<longrightarrow>
          sv_name r = name \<and> sx_by_target g (sv_service r) = Some name \<and> bset (sv_scopes r))
     \<and> (\<forall>t name. sx_by_target g t = Some name \<longrightarrow>
          (\<exists>r. map_of (sx_records g) name = Some r \<and> sv_service r = t))
     \<and> (\<forall>scope l. map_of (sx_leases g) scope = Some l \<longrightarrow> sl_scope l = scope
          \<and> (\<exists>name r. sx_by_target g (sl_service l) = Some name \<and> map_of (sx_records g) name = Some r
               \<and> scope \<in> set (sv_scopes r)))
     \<and> (\<forall>name r scope. map_of (sx_records g) name = Some r \<and> scope \<in> set (sv_scopes r) \<longrightarrow>
          (\<exists>l. map_of (sx_leases g) scope = Some l \<and> sl_service l = sv_service r))
     \<and> idx.mirrors (sx_by_holder g) (lease_rel g)"

lemma sx_invD:
  assumes "sx_inv g"
  shows "bmap (sx_records g)" "bmap (sx_leases g)" "idx.mirrors (sx_by_holder g) (lease_rel g)"
    "map_of (sx_records g) name = Some r \<Longrightarrow>
       sv_name r = name \<and> sx_by_target g (sv_service r) = Some name \<and> bset (sv_scopes r)"
    "sx_by_target g t = Some name \<Longrightarrow> \<exists>r. map_of (sx_records g) name = Some r \<and> sv_service r = t"
    "map_of (sx_leases g) scope = Some l \<Longrightarrow> sl_scope l = scope
       \<and> (\<exists>name r. sx_by_target g (sl_service l) = Some name \<and> map_of (sx_records g) name = Some r
            \<and> scope \<in> set (sv_scopes r))"
    "map_of (sx_records g) name = Some r \<Longrightarrow> scope \<in> set (sv_scopes r) \<Longrightarrow>
       \<exists>l. map_of (sx_leases g) scope = Some l \<and> sl_service l = sv_service r"
  using assms by (auto simp: sx_inv_def)

lemma sx_new_inv: "sx_inv sx_new"
  by (simp add: sx_inv_def sx_new_def lease_rel_def idx.mirrors_empty)

lemma sx_register_inv:
  assumes inv: "sx_inv g" and free: "bm_get (sx_records g) name = None" "sx_by_target g target = None"
  shows "sx_inv (sx_register name target required g)"
proof -
  note D = sx_invD [OF inv]
  have nt: "sx_by_target g t \<noteq> Some name" for t using D(5) free(1) by fastforce
  have ns: "sv_service r \<noteq> target" if "map_of (sx_records g) n = Some r" for n r
    using D(4) [OF that] free(2) by auto
  have nl: "sl_service l \<noteq> target" if "map_of (sx_leases g) scope = Some l" for scope l
    using D(6) [OF that] free(2) by auto
  let ?g = "sx_register name target required g"
  have rel: "lease_rel ?g = lease_rel g" by (simp add: lease_rel_def sx_register_def)
  have "bmap (sx_records ?g)" "bmap (sx_leases ?g)" "idx.mirrors (sx_by_holder ?g) (lease_rel ?g)"
    unfolding rel using D by (simp_all add: sx_register_def)
  moreover have "sv_name x = n \<and> sx_by_target ?g (sv_service x) = Some n \<and> bset (sv_scopes x)"
    if "map_of (sx_records ?g) n = Some x" for n x
    using that D(4) [of n x] ns [of n x] by (auto simp: sx_register_def split: if_splits)
  moreover have "\<exists>x. map_of (sx_records ?g) n = Some x \<and> sv_service x = t"
    if "sx_by_target ?g t = Some n" for t n
    using that D(5) [of t n] nt [of t] by (auto simp: sx_register_def split: if_splits)
  moreover have "sl_scope x = scope \<and> (\<exists>n y. sx_by_target ?g (sl_service x) = Some n
      \<and> map_of (sx_records ?g) n = Some y \<and> scope \<in> set (sv_scopes y))"
    if m: "map_of (sx_leases ?g) scope = Some x" for scope x
  proof -
    have m': "map_of (sx_leases g) scope = Some x" using m by (simp add: sx_register_def)
    obtain n y where "sx_by_target g (sl_service x) = Some n" "map_of (sx_records g) n = Some y"
      "scope \<in> set (sv_scopes y)" "sl_scope x = scope"
      using D(6) [OF m'] by auto
    moreover have "n \<noteq> name" using nt calculation(1) by auto
    ultimately show ?thesis using nl [OF m'] by (auto simp: sx_register_def)
  qed
  moreover have "\<exists>x. map_of (sx_leases ?g) scope = Some x \<and> sl_service x = sv_service y"
    if "map_of (sx_records ?g) n = Some y" "scope \<in> set (sv_scopes y)" for n y scope
    using that D(7) [of n y scope] by (auto simp: sx_register_def split: if_splits)
  ultimately show ?thesis unfolding sx_inv_def by blast
qed

lemma lease_rel_remove:
  "map_of (sx_leases g) scope = Some l \<Longrightarrow>
   {(h, sc). \<exists>x. map_of (bm_remove scope (sx_leases g)) sc = Some x \<and> sl_owner x = h} =
   lease_rel g - {(sl_owner l, scope)}"
  by (auto simp: lease_rel_def split: if_splits)

lemma sx_acquire_inv:
  assumes inv: "sx_inv g" and fresh: "bm_get (sx_leases g) (sl_scope l) = None"
    and r: "bm_get (sx_records g) name = Some r" "sv_service r = sl_service l"
    and g': "sx_acquire name l g = Some g'"
  shows "sx_inv g'"
proof -
  note D = sx_invD [OF inv]
  have rn: "sv_name r = name" "sx_by_target g (sl_service l) = Some name" "bset (sv_scopes r)"
    using D(4) [OF r(1)] r(2) by auto
  have nsc: "sl_scope l \<notin> set (sv_scopes x)" if "map_of (sx_records g) n = Some x" for n x
    using D(7) [OF that] fresh by fastforce
  have uniq: "sv_service x \<noteq> sl_service l" if "map_of (sx_records g) n = Some x" "n \<noteq> name" for n x
    using D(4) [OF that(1)] rn that(2) by auto
  have g'_eq: "g' = g\<lparr>sx_records := bm_insert name (r\<lparr>sv_scopes := bs_insert (sl_scope l) (sv_scopes r)\<rparr>) (sx_records g),
      sx_leases := bm_insert (sl_scope l) l (sx_leases g),
      sx_by_holder := idx_insert (sl_owner l) (sl_scope l) (sx_by_holder g)\<rparr>"
    using g' r(1) by (simp add: sx_acquire_def)
  have rel: "lease_rel g' = insert (sl_owner l, sl_scope l) (lease_rel g)"
    using fresh by (auto simp: g'_eq lease_rel_def)
  have "idx.mirrors (sx_by_holder g') (lease_rel g')"
    unfolding rel using idx.mirrors_ins [OF D(3)] by (simp add: g'_eq)
  moreover have "bmap (sx_records g')" "bmap (sx_leases g')" using D(1,2) by (simp_all add: g'_eq)
  moreover have "sv_name x = n \<and> sx_by_target g' (sv_service x) = Some n \<and> bset (sv_scopes x)"
    if "map_of (sx_records g') n = Some x" for n x
    using that D(4) rn r by (auto simp: g'_eq split: if_splits)
  moreover have "\<exists>x. map_of (sx_records g') n = Some x \<and> sv_service x = t"
    if "sx_by_target g' t = Some n" for t n
    using that D(5) [of t n] r rn by (auto simp: g'_eq)
  moreover have "sl_scope x = scope \<and> (\<exists>n y. sx_by_target g' (sl_service x) = Some n
      \<and> map_of (sx_records g') n = Some y \<and> scope \<in> set (sv_scopes y))"
    if m: "map_of (sx_leases g') scope = Some x" for scope x
  proof (cases "scope = sl_scope l")
    case True
    then show ?thesis using m rn by (auto simp: g'_eq)
  next
    case False
    then obtain n y where "sx_by_target g (sl_service x) = Some n" "map_of (sx_records g) n = Some y"
      "scope \<in> set (sv_scopes y)" "sl_scope x = scope"
      using m D(6) [of scope x] by (auto simp: g'_eq)
    then show ?thesis using r(1) by (auto simp: g'_eq)
  qed
  moreover have "\<exists>x. map_of (sx_leases g') scope = Some x \<and> sl_service x = sv_service y"
    if y: "map_of (sx_records g') n = Some y" and sc: "scope \<in> set (sv_scopes y)" for n y scope
  proof (cases "n = name")
    case True
    then have y': "y = r\<lparr>sv_scopes := bs_insert (sl_scope l) (sv_scopes r)\<rparr>" using y by (simp add: g'_eq)
    show ?thesis
    proof (cases "scope = sl_scope l")
      case False
      then have "scope \<in> set (sv_scopes r)" using sc y' by simp
      then show ?thesis using D(7) [OF r(1)] False y' by (auto simp: g'_eq)
    qed (use y' r in \<open>simp add: g'_eq\<close>)
  next
    case False
    then have "map_of (sx_records g) n = Some y" using y by (simp add: g'_eq)
    then show ?thesis using D(7) [OF _ sc] nsc sc by (force simp: g'_eq)
  qed
  ultimately show ?thesis unfolding sx_inv_def by blast
qed

text \<open>Removing one lease: from its service's record, the lease table and the holder index.\<close>

lemma sx_detach_scope_inv:
  assumes inv: "sx_inv g"
  shows "sx_inv (fst (sx_detach_scope scope g))"
proof (cases "bm_get (sx_leases g) scope")
  case None
  then show ?thesis using inv by (simp add: sx_detach_scope_def)
next
  case (Some l)
  note D = sx_invD [OF inv]
  obtain name r where r: "sx_by_target g (sl_service l) = Some name" "map_of (sx_records g) name = Some r"
    "scope \<in> set (sv_scopes r)" "sl_scope l = scope"
    using D(6) [OF Some] by auto
  have rs: "sv_service r = sl_service l" using D(5) [OF r(1)] r(2) by auto
  let ?r = "r\<lparr>sv_scopes := bs_remove scope (sv_scopes r)\<rparr>"
  define g' where "g' = g\<lparr>sx_leases := bm_remove scope (sx_leases g),
      sx_records := bm_insert name ?r (sx_records g),
      sx_by_holder := idx_remove (sl_owner l) scope (sx_by_holder g)\<rparr>"
  have eq: "fst (sx_detach_scope scope g) = g'"
    using Some r by (simp add: sx_detach_scope_def g'_def Let_def)
  have rel: "lease_rel g' = lease_rel g - {(sl_owner l, scope)}"
    using lease_rel_remove [OF Some] by (simp add: lease_rel_def g'_def)
  have only: "n = name" if "map_of (sx_records g) n = Some y" "scope \<in> set (sv_scopes y)" for n y
    using D(7) [OF that] Some D(4) [OF that(1)] r(1) by auto
  have "idx.mirrors (sx_by_holder g') (lease_rel g')"
    unfolding rel using idx.mirrors_rem [OF D(3)] by (simp add: g'_def)
  moreover have "bmap (sx_records g')" "bmap (sx_leases g')" using D(1,2) by (simp_all add: g'_def)
  moreover have "sv_name x = n \<and> sx_by_target g' (sv_service x) = Some n \<and> bset (sv_scopes x)"
    if "map_of (sx_records g') n = Some x" for n x
  proof (cases "n = name")
    case True
    then have "x = ?r" using that by (simp add: g'_def)
    then show ?thesis using D(4) [OF r(2)] True by (simp add: g'_def)
  next
    case False
    then have "map_of (sx_records g) n = Some x" using that by (simp add: g'_def)
    then show ?thesis using D(4) by (simp add: g'_def)
  qed
  moreover have "\<exists>x. map_of (sx_records g') n = Some x \<and> sv_service x = t"
    if "sx_by_target g' t = Some n" for t n
  proof -
    have "sx_by_target g t = Some n" using that by (simp add: g'_def)
    then obtain x where x: "map_of (sx_records g) n = Some x" "sv_service x = t" using D(5) by blast
    show ?thesis using x r(2) by (cases "n = name") (simp_all add: g'_def)
  qed
  moreover have "sl_scope x = sc \<and> (\<exists>n y. sx_by_target g' (sl_service x) = Some n
      \<and> map_of (sx_records g') n = Some y \<and> sc \<in> set (sv_scopes y))"
    if m: "map_of (sx_leases g') sc = Some x" for sc x
  proof -
    have m': "map_of (sx_leases g) sc = Some x" "sc \<noteq> scope" using m by (auto simp: g'_def split: if_splits)
    obtain n y where "sx_by_target g (sl_service x) = Some n" "map_of (sx_records g) n = Some y"
      "sc \<in> set (sv_scopes y)" "sl_scope x = sc" using D(6) [OF m'(1)] by blast
    then show ?thesis using m'(2) r(2) by (cases "n = name") (simp_all add: g'_def)
  qed
  moreover have "\<exists>x. map_of (sx_leases g') sc = Some x \<and> sl_service x = sv_service y"
    if "map_of (sx_records g') n = Some y" "sc \<in> set (sv_scopes y)" for n y sc
  proof (cases "n = name")
    case True
    then have "y = ?r" using that(1) by (simp add: g'_def)
    then show ?thesis using that(2) D(7) [OF r(2), of sc] by (auto simp: g'_def)
  next
    case False
    then have y: "map_of (sx_records g) n = Some y" using that(1) by (simp add: g'_def)
    then show ?thesis using D(7) [OF y that(2)] only [OF y] that(2) False by (auto simp: g'_def)
  qed
  ultimately show ?thesis unfolding eq sx_inv_def by blast
qed

text \<open>\<^verbatim>\<open>detach_service\<close> on the table: its scopes lose their leases one by one. Between the two the
  invariant holds except for the leases still to be dropped.\<close>

fun sx_drop_all :: "actor_ref list \<Rightarrow> service_registry \<Rightarrow> service_registry" where
  "sx_drop_all [] g = g"
| "sx_drop_all (scope # scopes) g = sx_drop_all scopes (fst (sx_drop_lease scope g))"

definition sx_detach_service :: "actor_ref \<Rightarrow> service_registry \<Rightarrow> service_registry" where
  "sx_detach_service service g = (let (g1, scopes) = sx_take_service service g in sx_drop_all scopes g1)"

lemma sx_drop_lease_fields:
  assumes "idx.mirrors (sx_by_holder g) (lease_rel g)" "bmap (sx_leases g)"
  shows "idx.mirrors (sx_by_holder (fst (sx_drop_lease scope g))) (lease_rel (fst (sx_drop_lease scope g)))
    \<and> bmap (sx_leases (fst (sx_drop_lease scope g)))
    \<and> map_of (sx_leases (fst (sx_drop_lease scope g))) = (map_of (sx_leases g))(scope := None)
    \<and> sx_records (fst (sx_drop_lease scope g)) = sx_records g
    \<and> sx_by_target (fst (sx_drop_lease scope g)) = sx_by_target g"
proof (cases "bm_get (sx_leases g) scope")
  case None
  then show ?thesis using assms by (auto simp: sx_drop_lease_def fun_eq_iff)
next
  case (Some l)
  have "lease_rel (fst (sx_drop_lease scope g)) = lease_rel g - {(sl_owner l, scope)}"
    using lease_rel_remove [OF Some] Some by (simp add: lease_rel_def sx_drop_lease_def)
  then show ?thesis
    using idx.mirrors_rem [OF assms(1)] assms(2) Some by (simp add: sx_drop_lease_def)
qed

lemma sx_drop_all_fields:
  assumes "idx.mirrors (sx_by_holder g) (lease_rel g)" "bmap (sx_leases g)"
  shows "idx.mirrors (sx_by_holder (sx_drop_all scopes g)) (lease_rel (sx_drop_all scopes g))
    \<and> bmap (sx_leases (sx_drop_all scopes g))
    \<and> map_of (sx_leases (sx_drop_all scopes g)) = (map_of (sx_leases g)) |` (- set scopes)
    \<and> sx_records (sx_drop_all scopes g) = sx_records g
    \<and> sx_by_target (sx_drop_all scopes g) = sx_by_target g"
  using assms
proof (induction scopes arbitrary: g)
  case (Cons scope scopes)
  note f = sx_drop_lease_fields [OF Cons.prems, of scope]
  have "((map_of (sx_leases g))(scope := None)) |` (- set scopes) = (map_of (sx_leases g)) |` (- set (scope # scopes))"
    by (auto simp: fun_eq_iff restrict_map_def)
  with f Cons.IH [of "fst (sx_drop_lease scope g)"] show ?case unfolding sx_drop_all.simps by metis
qed (simp add: restrict_map_def)

lemma sx_detach_service_fields:
  assumes inv: "sx_inv g" and t: "sx_by_target g service = Some name" "map_of (sx_records g) name = Some r"
  shows "sx_inv (sx_detach_service service g)"
    and "map_of (sx_leases (sx_detach_service service g)) = (map_of (sx_leases g)) |` (- set (sv_scopes r))"
    and "sx_records (sx_detach_service service g) = bm_remove name (sx_records g)"
proof -
  note D = sx_invD [OF inv]
  define g1 where "g1 = g\<lparr>sx_by_target := (sx_by_target g)(service := None),
    sx_records := bm_remove name (sx_records g)\<rparr>"
  define g' where "g' = sx_detach_service service g"
  have g': "g' = sx_drop_all (sort_key (\<lambda>sc. (ar_slot sc, ar_generation sc)) (sv_scopes r)) g1"
    using t by (simp add: g'_def sx_detach_service_def sx_take_service_def g1_def Let_def)
  have rs: "sv_service r = service" using D(5) [OF t(1)] t(2) by auto
  have "idx.mirrors (sx_by_holder g1) (lease_rel g1)" "bmap (sx_leases g1)"
    using D by (simp_all add: g1_def lease_rel_def)
  note f = sx_drop_all_fields [OF this, of "sort_key (\<lambda>sc. (ar_slot sc, ar_generation sc)) (sv_scopes r)"]
  have ls: "map_of (sx_leases g') = (map_of (sx_leases g)) |` (- set (sv_scopes r))"
    and recs: "sx_records g' = bm_remove name (sx_records g)"
    and tg: "sx_by_target g' = (sx_by_target g)(service := None)"
    using f by (simp_all add: g' g1_def)
  show "map_of (sx_leases (sx_detach_service service g)) = (map_of (sx_leases g)) |` (- set (sv_scopes r))"
    using ls by (simp add: g'_def)
  show "sx_records (sx_detach_service service g) = bm_remove name (sx_records g)"
    using recs by (simp add: g'_def)
  have gone: "sl_service l \<noteq> service" if "map_of (sx_leases g) sc = Some l" "sc \<notin> set (sv_scopes r)" for sc l
    using D(6) [OF that(1)] t that(2) by auto
  have disj: "sc \<notin> set (sv_scopes r)" if "map_of (sx_records g) n = Some y" "n \<noteq> name" "sc \<in> set (sv_scopes y)" for n y sc
    using D(7) [OF that(1,3)] D(7) [OF t(2), of sc] D(4) [OF that(1)] rs t(1) that(2) by auto
  have "idx.mirrors (sx_by_holder g') (lease_rel g')" "bmap (sx_leases g')" "bmap (sx_records g')"
    using f D(1) recs by (simp_all add: g')
  moreover have "sv_name x = n \<and> sx_by_target g' (sv_service x) = Some n \<and> bset (sv_scopes x)"
    if "map_of (sx_records g') n = Some x" for n x
    using that D(4) [of n x] t(1) by (auto simp: recs tg split: if_splits)
  moreover have "\<exists>x. map_of (sx_records g') n = Some x \<and> sv_service x = t"
    if "sx_by_target g' t = Some n" for t n
    using that D(5) [of t n] t(2) rs by (auto simp: recs tg split: if_splits)
  moreover have "sl_scope x = sc \<and> (\<exists>n y. sx_by_target g' (sl_service x) = Some n
      \<and> map_of (sx_records g') n = Some y \<and> sc \<in> set (sv_scopes y))"
    if m: "map_of (sx_leases g') sc = Some x" for sc x
  proof -
    have m': "map_of (sx_leases g) sc = Some x" "sc \<notin> set (sv_scopes r)"
      using m by (auto simp: ls restrict_map_def split: if_splits)
    obtain n y where n: "sx_by_target g (sl_service x) = Some n" "map_of (sx_records g) n = Some y"
      "sc \<in> set (sv_scopes y)" "sl_scope x = sc" using D(6) [OF m'(1)] by auto
    have "n \<noteq> name" using n t(2) m'(2) by auto
    then show ?thesis using n gone [OF m'] by (auto simp: recs tg)
  qed
  moreover have "\<exists>x. map_of (sx_leases g') sc = Some x \<and> sl_service x = sv_service y"
    if "map_of (sx_records g') n = Some y" "sc \<in> set (sv_scopes y)" for n y sc
    using that D(7) [of n y sc] disj [of n y sc] by (auto simp: recs ls restrict_map_def split: if_splits)
  ultimately show "sx_inv (sx_detach_service service g)"
    unfolding sx_inv_def g'_def [symmetric] by blast
qed

lemma sx_detach_service_none:
  "sx_inv g \<Longrightarrow> sx_by_target g service = None \<Longrightarrow> sx_detach_service service g = g"
  by (simp add: sx_detach_service_def sx_take_service_def)

lemma sx_detach_service_inv: "sx_inv g \<Longrightarrow> sx_inv (sx_detach_service service g)"
  using sx_detach_service_none [of g service] sx_detach_service_fields(1) [of g service] sx_invD(5) [of g service]
  by (cases "sx_by_target g service") fastforce+

section \<open>Reachable registries\<close>

text \<open>The limits of the configuration, and the updates of the World operations under the guards those
  operations check: \<^verbatim>\<open>register_service\<close>, \<^verbatim>\<open>acquire_service\<close> (whose scope is a freshly allocated actor),
  \<^verbatim>\<open>detach_scope\<close> and \<^verbatim>\<open>detach_service\<close>.\<close>

record service_limits =
  lim_services :: nat
  lim_leases :: nat
  lim_per_actor :: nat

inductive service_step :: "service_limits \<Rightarrow> service_registry \<Rightarrow> service_registry \<Rightarrow> bool" for lim where
  step_register:
    "bm_get (sx_records g) name = None \<Longrightarrow> sx_by_target g target = None \<Longrightarrow>
     length (sx_records g) < lim_services lim \<Longrightarrow>
     service_step lim g (sx_register name target required g)"
| step_acquire:
    "bm_get (sx_records g) name = Some r \<Longrightarrow> sv_service r = sl_service l \<Longrightarrow>
     length (sx_leases g) < lim_leases lim \<Longrightarrow> sx_holder_count g (sl_owner l) < lim_per_actor lim \<Longrightarrow>
     bm_get (sx_leases g) (sl_scope l) = None \<Longrightarrow> sx_acquire name l g = Some g' \<Longrightarrow>
     service_step lim g g'"
| step_detach_scope: "service_step lim g (fst (sx_detach_scope scope g))"
| step_detach_service: "service_step lim g (sx_detach_service service g)"

definition sx_bounded :: "service_limits \<Rightarrow> service_registry \<Rightarrow> bool" where
  "sx_bounded lim g \<longleftrightarrow> sx_inv g \<and> length (sx_records g) \<le> lim_services lim
     \<and> length (sx_leases g) \<le> lim_leases lim
     \<and> (\<forall>h. length (idx_get (sx_by_holder g) h) \<le> lim_per_actor lim)"

lemma sx_holder_count_eq: "sx_holder_count g h = length (idx_get (sx_by_holder g) h)"
  by (simp add: sx_holder_count_def idx_get_def split: option.splits)

lemma holder_scopes: "sx_inv g \<Longrightarrow> set (idx_get (sx_by_holder g) h) = {sc. (h, sc) \<in> lease_rel g}"
  using sx_invD(3) [of g] by (simp add: idx.mirrors_def)

lemma holder_length: "sx_inv g \<Longrightarrow> length (idx_get (sx_by_holder g) h) = card {sc. (h, sc) \<in> lease_rel g}"
  using sx_invD(3) [of g] holder_scopes [of g h]
  by (metis idx.get_bset idx.mirrors_def length_bset)

lemma finite_lease_rel: "finite {sc. (h, sc) \<in> lease_rel g}"
  by (rule finite_subset [OF _ finite_dom_map_of [of "sx_leases g"]]) (auto simp: lease_rel_def)

text \<open>Leases only disappear on the two removals, so the limits that the other two check are kept.\<close>

lemma sx_bounded_sub:
  assumes "sx_bounded lim g" "sx_inv g'" "length (sx_records g') \<le> length (sx_records g)"
    and "map_of (sx_leases g') \<subseteq>\<^sub>m map_of (sx_leases g)"
  shows "sx_bounded lim g'"
proof -
  note D = sx_invD [OF assms(2)]
  have inv: "sx_inv g" using assms(1) by (simp add: sx_bounded_def)
  have "dom (map_of (sx_leases g')) \<subseteq> dom (map_of (sx_leases g))" by (rule map_le_implies_dom_le [OF assms(4)])
  then have len: "length (sx_leases g') \<le> length (sx_leases g)"
    by (simp add: length_bmap sx_invD(2) [OF inv] D(2) card_mono finite_dom_map_of)
  have "lease_rel g' \<subseteq> lease_rel g"
    using assms(4) by (fastforce simp: lease_rel_def map_le_def dom_def)
  then have "card {sc. (h, sc) \<in> lease_rel g'} \<le> card {sc. (h, sc) \<in> lease_rel g}" for h
    by (intro card_mono finite_lease_rel) auto
  then show ?thesis
    using assms(1-3) len holder_length [OF inv] holder_length [OF assms(2)] order.trans
    unfolding sx_bounded_def by metis
qed

lemma sx_detach_scope_shrinks:
  assumes "sx_inv g"
  shows "length (sx_records (fst (sx_detach_scope scope g))) = length (sx_records g)
    \<and> map_of (sx_leases (fst (sx_detach_scope scope g))) = (map_of (sx_leases g))(scope := None)"
  using sx_invD(1) [OF assms]
  by (auto simp: sx_detach_scope_def Let_def length_bm_insert fun_eq_iff split: option.splits)

lemma service_step_bounded:
  assumes "service_step lim g g'" "sx_bounded lim g"
  shows "sx_bounded lim g'"
  using assms
proof cases
  case (step_register name target required)
  have inv: "sx_inv g" "sx_inv g'" using assms(2) step_register sx_register_inv by (auto simp: sx_bounded_def)
  have "length (sx_records g') = Suc (length (sx_records g))"
    using step_register sx_invD(1) [OF inv(1)]
    by (simp add: sx_register_def length_bm_insert domIff)
  then show ?thesis using assms(2) inv step_register by (simp add: sx_bounded_def sx_register_def)
next
  case (step_acquire name r l)
  have inv: "sx_inv g" "sx_inv g'" using assms(2) step_acquire sx_acquire_inv by (auto simp: sx_bounded_def)
  have g': "g' = g\<lparr>sx_records := bm_insert name (r\<lparr>sv_scopes := bs_insert (sl_scope l) (sv_scopes r)\<rparr>) (sx_records g),
      sx_leases := bm_insert (sl_scope l) l (sx_leases g),
      sx_by_holder := idx_insert (sl_owner l) (sl_scope l) (sx_by_holder g)\<rparr>"
    using step_acquire by (simp add: sx_acquire_def)
  have "length (sx_records g') = length (sx_records g)"
    using step_acquire(1) sx_invD(1) [OF inv(1)] by (simp add: g' length_bm_insert domIff)
  moreover have "length (sx_leases g') = Suc (length (sx_leases g))"
    using step_acquire(5) sx_invD(2) [OF inv(1)] by (simp add: g' length_bm_insert domIff)
  moreover have grow: "length (idx_get (sx_by_holder g') h) \<le>
      (if h = sl_owner l then Suc (length (idx_get (sx_by_holder g) h)) else length (idx_get (sx_by_holder g) h))" for h
    by (simp add: g' idx_get_def idx_insert_def insort_insert_key_def split: option.splits)
  moreover have "length (idx_get (sx_by_holder g') h) \<le> lim_per_actor lim" for h
  proof -
    have "length (idx_get (sx_by_holder g) h) \<le> lim_per_actor lim" using assms(2) by (simp add: sx_bounded_def)
    then show ?thesis using grow [of h] step_acquire(4) by (auto simp: sx_holder_count_eq split: if_splits)
  qed
  ultimately show ?thesis using assms(2) inv(2) step_acquire(3) by (simp add: sx_bounded_def)
next
  case (step_detach_scope scope)
  have inv: "sx_inv g" using assms(2) by (simp add: sx_bounded_def)
  show ?thesis
    unfolding step_detach_scope
    using sx_detach_scope_inv [OF inv, of scope] sx_detach_scope_shrinks [OF inv, of scope]
    by (intro sx_bounded_sub [OF assms(2)]) (simp_all add: map_le_def)
next
  case (step_detach_service service)
  have inv: "sx_inv g" using assms(2) by (simp add: sx_bounded_def)
  show ?thesis
  proof (cases "sx_by_target g service")
    case None
    then show ?thesis using step_detach_service assms(2) sx_detach_service_none [OF inv] by simp
  next
    case (Some name)
    obtain r where r: "map_of (sx_records g) name = Some r" using sx_invD(5) [OF inv Some] by blast
    note f = sx_detach_service_fields [OF inv Some r]
    show ?thesis
      unfolding step_detach_service
      using f sx_invD(1) [OF inv]
      by (intro sx_bounded_sub [OF assms(2)]) (simp_all add: length_bm_remove map_le_def restrict_map_def dom_def)
  qed
qed

interpretation svc: invariant_system "\<lambda>g. g = sx_new" "service_step lim" "sx_bounded lim" for lim
proof unfold_locales
  fix s assume "s = sx_new"
  then show "sx_bounded lim s" using sx_new_inv by (simp add: sx_bounded_def sx_new_def idx_get_def)
qed (rule service_step_bounded)

text \<open>The leases a record lists are the leases on its service.\<close>

lemma record_scopes_exact:
  assumes "sx_inv g" "map_of (sx_records g) name = Some r"
  shows "sv_scopes r = sorted_list_of_set {sc. \<exists>l. map_of (sx_leases g) sc = Some l \<and> sl_service l = sv_service r}"
proof -
  note D = sx_invD [OF assms(1)]
  have "set (sv_scopes r) = {sc. \<exists>l. map_of (sx_leases g) sc = Some l \<and> sl_service l = sv_service r}"
    using D(4) [OF assms(2)] D(6,7) assms(2) by fastforce
  then show ?thesis using D(4) [OF assms(2)] bset_eq_sorted_list_of_set by metis
qed



end
