(* ===== verification/Expiry.thy ===== *)
theory Expiry
  imports Containers
begin

text \<open>
  Queue expiry, \<^verbatim>\<open>crates/runtime-core/src/expiry.rs\<close>: the reference-counted deadlines of one
  actor's queued and staged entries, and the World's index of each actor's earliest deadline.
\<close>

section \<open>Deadlines of one actor\<close>

text \<open>\<^verbatim>\<open>ActorDeadlines\<close>; \<open>None\<close> from \<open>adl_remove\<close> is the panic of its \<^verbatim>\<open>expect\<close>.\<close>

type_synonym actor_deadlines = "(instant \<times> nat) list"

definition adl_new :: actor_deadlines where
  "adl_new = []"

definition adl_add :: "instant option \<Rightarrow> actor_deadlines \<Rightarrow> actor_deadlines" where
  "adl_add deadline counts =
     (case deadline of
        None \<Rightarrow> counts
      | Some d \<Rightarrow> bm_insert d ((case bm_get counts d of None \<Rightarrow> 0 | Some n \<Rightarrow> n) + 1) counts)"

definition adl_remove :: "instant option \<Rightarrow> actor_deadlines \<Rightarrow> actor_deadlines option" where
  "adl_remove deadline counts =
     (case deadline of
        None \<Rightarrow> Some counts
      | Some d \<Rightarrow>
          (case bm_get counts d of
             None \<Rightarrow> None
           | Some n \<Rightarrow>
               if n - 1 = 0 then Some (bm_remove d counts) else Some (bm_insert d (n - 1) counts)))"

definition adl_clear :: "actor_deadlines \<Rightarrow> actor_deadlines" where
  "adl_clear counts = []"

definition adl_first :: "actor_deadlines \<Rightarrow> instant option" where
  "adl_first counts = (case counts of [] \<Rightarrow> None | (d, _) # _ \<Rightarrow> Some d)"

text \<open>The contract the World relies on: a bag of optional deadlines with its minimum.\<close>

locale min_bag =
  fixes empty :: 'b
    and add :: "'k::linorder option \<Rightarrow> 'b \<Rightarrow> 'b"
    and remove :: "'k option \<Rightarrow> 'b \<Rightarrow> 'b option"
    and first :: "'b \<Rightarrow> 'k option"
    and bag :: "'b \<Rightarrow> 'k multiset"
    and ok :: "'b \<Rightarrow> bool"
  assumes ok_empty: "ok empty" and bag_empty: "bag empty = {#}"
    and ok_add: "ok b \<Longrightarrow> ok (add d b)"
    and bag_add: "ok b \<Longrightarrow> bag (add d b) = (case d of None \<Rightarrow> bag b | Some k \<Rightarrow> add_mset k (bag b))"
    and remove_ok: "ok b \<Longrightarrow> (case d of None \<Rightarrow> True | Some k \<Rightarrow> k \<in># bag b) \<Longrightarrow>
        \<exists>b'. remove d b = Some b' \<and> ok b'
          \<and> bag b' = (case d of None \<Rightarrow> bag b | Some k \<Rightarrow> bag b - {#k#})"
    and remove_absent: "ok b \<Longrightarrow> k \<notin># bag b \<Longrightarrow> remove (Some k) b = None"
    and first_min: "ok b \<Longrightarrow> first b = (if bag b = {#} then None else Some (Min (set_mset (bag b))))"
begin

text \<open>The represented deadlines of a list of entries: adding them one by one.\<close>

definition deadlines_of :: "'k option list \<Rightarrow> 'k multiset" where
  "deadlines_of ds = image_mset the (filter_mset (\<lambda>d. d \<noteq> None) (mset ds))"

definition tracks :: "'b \<Rightarrow> 'k option list \<Rightarrow> bool" where
  "tracks b ds \<longleftrightarrow> ok b \<and> bag b = deadlines_of ds"

lemma deadlines_of_simps [simp]:
  "deadlines_of [] = {#}"
  "deadlines_of (None # ds) = deadlines_of ds"
  "deadlines_of (Some k # ds) = add_mset k (deadlines_of ds)"
  "deadlines_of (ds @ es) = deadlines_of ds + deadlines_of es"
  by (simp_all add: deadlines_of_def)

lemma set_deadlines_of: "set_mset (deadlines_of ds) = {k. Some k \<in> set ds}"
  by (force simp: deadlines_of_def)

lemma tracks_empty: "tracks empty []"
  by (simp add: tracks_def ok_empty bag_empty)

lemma tracks_add: "tracks b ds \<Longrightarrow> tracks (add d b) (ds @ [d])"
  by (cases d) (simp_all add: tracks_def ok_add bag_add)

lemma tracks_remove: "tracks b (d # ds) \<Longrightarrow> \<exists>b'. remove d b = Some b' \<and> tracks b' ds"
  using remove_ok [of b d] by (cases d) (auto simp: tracks_def)

lemma tracks_perm: "tracks b ds \<Longrightarrow> mset ds = mset es \<Longrightarrow> tracks b es"
  by (simp add: tracks_def deadlines_of_def)

lemma tracks_first:
  assumes "tracks b ds"
  shows "first b = (if {k. Some k \<in> set ds} = {} then None else Some (Min {k. Some k \<in> set ds}))"
proof -
  have "ok b" "set_mset (bag b) = {k. Some k \<in> set ds}"
    using assms by (simp_all add: tracks_def set_deadlines_of)
  then show ?thesis using first_min [of b] by (auto simp flip: set_mset_eq_empty_iff)
qed

end

text \<open>The bag an ordered count map represents.\<close>

definition adl_bag :: "actor_deadlines \<Rightarrow> instant multiset" where
  "adl_bag counts = mset (concat (map (\<lambda>(d, n). replicate n d) counts))"

definition adl_ok :: "actor_deadlines \<Rightarrow> bool" where
  "adl_ok counts \<longleftrightarrow> bmap counts \<and> (\<forall>(d, n) \<in> set counts. 0 < n)"

lemma adl_bag_simps [simp]:
  "adl_bag [] = {#}"
  "adl_bag ((d, n) # counts) = replicate_mset n d + adl_bag counts"
  by (simp_all add: adl_bag_def)

lemma count_adl_bag:
  "bmap counts \<Longrightarrow> count (adl_bag counts) d = (case map_of counts d of None \<Rightarrow> 0 | Some n \<Rightarrow> n)"
proof (induction counts)
  case (Cons p counts)
  obtain k n where p: "p = (k, n)" by fastforce
  with Cons.prems have "map_of counts k = None"
    by (auto simp: bmap_Cons map_of_eq_None_iff)
  with Cons show ?case by (auto simp: p bmap_Cons)
qed simp

lemma adl_ok_pos: "adl_ok counts \<Longrightarrow> map_of counts d = Some n \<Longrightarrow> 0 < n"
  by (auto simp: adl_ok_def bmap_map_of_iff)

interpretation adl: min_bag adl_new adl_add adl_remove adl_first adl_bag adl_ok
proof unfold_locales
  show "adl_ok adl_new" "adl_bag adl_new = {#}" by (simp_all add: adl_new_def adl_ok_def)
next
  fix b d assume ok: "adl_ok b"
  then have m: "bmap b" by (simp add: adl_ok_def)
  show "adl_ok (adl_add d b)"
    using ok by (auto simp: adl_ok_def adl_add_def set_bm_insert split: option.splits)
  show "adl_bag (adl_add d b) = (case d of None \<Rightarrow> adl_bag b | Some k \<Rightarrow> add_mset k (adl_bag b))"
    using m by (auto simp: adl_add_def multiset_eq_iff count_adl_bag split: option.splits)
next
  fix b d assume ok: "adl_ok b" and mem: "case d of None \<Rightarrow> True | Some k \<Rightarrow> k \<in># adl_bag b"
  then have m: "bmap b" by (simp add: adl_ok_def)
  show "\<exists>b'. adl_remove d b = Some b' \<and> adl_ok b'
      \<and> adl_bag b' = (case d of None \<Rightarrow> adl_bag b | Some k \<Rightarrow> adl_bag b - {#k#})"
  proof (cases d)
    case (Some k)
    with mem have "0 < count (adl_bag b) k" by simp
    with m obtain n where n: "map_of b k = Some n" "0 < n"
      by (auto simp: count_adl_bag split: option.splits)
    then show ?thesis
      using ok m Some
      by (auto simp: adl_remove_def adl_ok_def set_bm_insert set_bm_remove multiset_eq_iff count_adl_bag
          split: option.splits)
  qed (simp add: adl_remove_def ok)
next
  fix b and k :: instant assume ok: "adl_ok b" and absent: "k \<notin># adl_bag b"
  from absent have "count (adl_bag b) k = 0" by (simp add: count_eq_zero_iff)
  then have "map_of b k = None"
    using ok adl_ok_pos [OF ok, of k] by (auto simp: adl_ok_def count_adl_bag split: option.splits)
  then show "adl_remove (Some k) b = None" by (simp add: adl_remove_def)
next
  fix b assume ok: "adl_ok b"
  show "adl_first b = (if adl_bag b = {#} then None else Some (Min (set_mset (adl_bag b))))"
  proof (cases b)
    case (Cons p rest)
    obtain k n where p: "p = (k, n)" by fastforce
    have n: "0 < n" and lt: "\<forall>k' \<in> fst ` set rest. k < k'"
      using ok by (auto simp: Cons p adl_ok_def bmap_Cons)
    have "set_mset (adl_bag rest) \<subseteq> fst ` set rest"
      by (force simp: adl_bag_def)
    then have "Min (set_mset (adl_bag b)) = k"
      using n lt by (intro Min_eqI) (auto simp: Cons p dest!: subsetD order.strict_implies_order)
    then show ?thesis using n by (simp add: Cons p adl_first_def)
  qed (simp add: adl_first_def)
qed

section \<open>The World's deadline index\<close>

record deadline_index =
  di_actors :: "actor_ref \<rightharpoonup> instant"
  di_ordered :: "(instant \<times> nat \<times> nat \<times> nat) list"

definition di_key :: "instant \<Rightarrow> actor_ref \<Rightarrow> instant \<times> nat \<times> nat \<times> nat" where
  "di_key deadline actor = (deadline, ar_world actor, ar_slot actor, ar_generation actor)"

definition di_new :: deadline_index where
  "di_new = \<lparr>di_actors = Map.empty, di_ordered = []\<rparr>"

definition di_remove :: "actor_ref \<Rightarrow> deadline_index \<Rightarrow> deadline_index" where
  "di_remove actor di =
     (case di_actors di actor of
        None \<Rightarrow> di
      | Some deadline \<Rightarrow>
          di\<lparr>di_actors := (di_actors di)(actor := None),
             di_ordered := bs_remove (di_key deadline actor) (di_ordered di)\<rparr>)"

definition di_set :: "actor_ref \<Rightarrow> instant option \<Rightarrow> deadline_index \<Rightarrow> deadline_index" where
  "di_set actor deadline di =
     (if deadline \<noteq> None \<and> di_actors di actor = deadline then di
      else
        (let di1 = di_remove actor di
         in case deadline of
              None \<Rightarrow> di1
            | Some d \<Rightarrow>
                di1\<lparr>di_actors := (di_actors di1)(actor \<mapsto> d),
                    di_ordered := bs_insert (di_key d actor) (di_ordered di1)\<rparr>))"

fun take_due_loop ::
  "(instant \<times> nat \<times> nat \<times> nat) list \<Rightarrow> deadline_index \<Rightarrow> actor_ref list \<Rightarrow>
   deadline_index \<times> actor_ref list" where
  "take_due_loop [] di actors = (di, actors)"
| "take_due_loop ((deadline, world, slot, generation) # due) di actors =
     (let actor = ActorRef world slot generation
      in take_due_loop due
           (di\<lparr>di_ordered := bs_remove (deadline, world, slot, generation) (di_ordered di),
               di_actors := (di_actors di)(actor := None)\<rparr>)
           (actors @ [actor]))"

definition di_take_due :: "instant \<Rightarrow> deadline_index \<Rightarrow> deadline_index \<times> actor_ref list" where
  "di_take_due now di =
     (let due = takeWhile (\<lambda>k. k \<le> (now, u64_max, u32_max, u64_max)) (di_ordered di);
          (di', actors) = take_due_loop due di []
      in (di', sort_key (\<lambda>a. (ar_slot a, ar_generation a, ar_world a)) actors))"

text \<open>The ordered set holds exactly one key per registered actor. The handles' fields are machine
  integers, which the upper bound of the range scan depends on.\<close>

definition ar_fits :: "actor_ref \<Rightarrow> bool" where
  "ar_fits a \<longleftrightarrow> ar_world a \<le> u64_max \<and> ar_slot a \<le> u32_max \<and> ar_generation a \<le> u64_max"

definition di_inv :: "deadline_index \<Rightarrow> bool" where
  "di_inv di \<longleftrightarrow> bset (di_ordered di)
     \<and> (\<forall>a d. di_key d a \<in> set (di_ordered di) \<longleftrightarrow> di_actors di a = Some d)
     \<and> (\<forall>a \<in> dom (di_actors di). ar_fits a)"

lemma di_key_eq [simp]: "di_key d a = di_key e b \<longleftrightarrow> d = e \<and> a = b"
  by (auto simp: di_key_def actor_ref.expand)

lemma di_new_inv: "di_inv di_new"
  by (simp add: di_inv_def di_new_def)

lemma di_actors_remove: "di_actors (di_remove a di) = (di_actors di)(a := None)"
  by (auto simp: di_remove_def split: option.splits)

lemma di_actors_set:
  "di_actors (di_set a d di) = (di_actors di)(a := d)"
  by (auto simp: di_set_def di_actors_remove Let_def split: option.splits)

lemma di_remove_inv: "di_inv di \<Longrightarrow> di_inv (di_remove a di)"
  by (auto simp: di_inv_def di_remove_def split: option.splits if_splits)

lemma di_set_inv: "di_inv di \<Longrightarrow> ar_fits a \<Longrightarrow> di_inv (di_set a d di)"
proof -
  assume inv: "di_inv di" and fits: "ar_fits a"
  from di_remove_inv [OF inv] have "di_inv (di_remove a di)" .
  with fits inv show ?thesis
    by (auto simp: di_set_def Let_def di_inv_def di_actors_remove split: option.splits if_splits)
qed

lemma di_key_surj: "\<exists>d a. k = di_key d a"
  by (metis di_key_def actor_ref.sel prod.collapse)

lemma take_due_loop_eq:
  "take_due_loop (map (\<lambda>(d, a). di_key d a) due) di actors =
     (di\<lparr>di_ordered := filter (\<lambda>k. k \<notin> (\<lambda>(d, a). di_key d a) ` set due) (di_ordered di),
         di_actors := (di_actors di) |` (- snd ` set due)\<rparr>, actors @ map snd due)"
proof (induction due arbitrary: di actors)
  case (Cons p due)
  obtain d a where p: "p = (d, a)" by fastforce
  have step: "take_due_loop (di_key d a # ks) di actors =
      take_due_loop ks (di\<lparr>di_ordered := bs_remove (di_key d a) (di_ordered di),
        di_actors := (di_actors di)(a := None)\<rparr>) (actors @ [a])" for ks
    by (cases a) (simp add: di_key_def Let_def)
  have "filter (\<lambda>k. k \<notin> (\<lambda>(d, a). di_key d a) ` set due) (bs_remove (di_key d a) (di_ordered di)) =
      filter (\<lambda>k. k \<notin> (\<lambda>(d, a). di_key d a) ` set (p # due)) (di_ordered di)"
    by (simp add: p removeAll_filter_not_eq conj_commute) (metis (mono_tags, lifting))
  moreover have "(\<lambda>b. if b = a then None else di_actors di b) |` (- snd ` set due) =
      di_actors di |` (- snd ` set (p # due))"
    by (auto simp: p restrict_map_def fun_eq_iff)
  ultimately show ?case by (simp add: p step Cons.IH fun_upd_def)
qed (simp add: restrict_map_def)

definition di_due :: "instant \<Rightarrow> deadline_index \<Rightarrow> actor_ref set" where
  "di_due now di = {a. \<exists>d \<le> now. di_actors di a = Some d}"

lemma sort_handles:
  "distinct xs \<Longrightarrow> bset (sort_key (\<lambda>a. (ar_slot a, ar_generation a, ar_world a)) xs)"
  for xs :: "actor_ref list"
proof -
  assume "distinct xs"
  moreover have "sorted (map (\<lambda>a. (ar_slot a, ar_generation a, ar_world a))
      (sort_key (\<lambda>a. (ar_slot a, ar_generation a, ar_world a)) xs))"
    by (rule sorted_sort_key)
  ultimately show ?thesis
    by (simp add: bset_def sorted_map less_eq_actor_ref_def [abs_def])
qed

lemma di_take_due_spec:
  assumes inv: "di_inv di"
  shows "di_inv (fst (di_take_due now di))"
    and "snd (di_take_due now di) = sorted_list_of_set (di_due now di)"
    and "di_actors (fst (di_take_due now di)) = di_actors di |` (- di_due now di)"
proof -
  let ?P = "\<lambda>k. k \<le> (now, u64_max, u32_max, u64_max)"
  let ?k = "\<lambda>(d, a). di_key d a"
  have ord: "bset (di_ordered di)" using inv by (simp add: di_inv_def)
  have tw: "takeWhile ?P (di_ordered di) = filter ?P (di_ordered di)"
    by (rule bset_takeWhile [OF ord]) (rule order_trans)
  obtain due where due: "filter ?P (di_ordered di) = map ?k due"
  proof -
    have "\<exists>due. ks = map ?k due" for ks
      unfolding ex_map_conv using di_key_surj by (metis case_prod_conv)
    then show ?thesis using that by blast
  qed
  have mem: "(d, a) \<in> set due \<longleftrightarrow> di_actors di a = Some d \<and> d \<le> now" for d a
  proof -
    have "(d, a) \<in> set due \<longleftrightarrow> di_key d a \<in> set (map ?k due)" by force
    also have "\<dots> \<longleftrightarrow> di_key d a \<in> set (di_ordered di) \<and> ?P (di_key d a)"
      unfolding due [symmetric] by auto
    also have "\<dots> \<longleftrightarrow> di_actors di a = Some d \<and> d \<le> now"
      using inv by (auto simp: di_inv_def di_key_def ar_fits_def less_eq_prod_def)
    finally show ?thesis .
  qed
  have keys: "snd ` set due = di_due now di" using mem by (force simp: di_due_def)
  have "distinct (map ?k due)" using ord unfolding due [symmetric] by (simp add: bset_def)
  then have "distinct due" by (simp add: distinct_map)
  then have dist: "distinct (map snd due)"
    using mem by (auto simp: distinct_map inj_on_def)
  have run: "di_take_due now di =
      (di\<lparr>di_ordered := filter (\<lambda>k. k \<notin> ?k ` set due) (di_ordered di),
          di_actors := di_actors di |` (- di_due now di)\<rparr>,
       sort_key (\<lambda>a. (ar_slot a, ar_generation a, ar_world a)) (map snd due))"
    by (simp add: di_take_due_def tw due take_due_loop_eq keys Let_def del: filter.simps)
  show "di_actors (fst (di_take_due now di)) = di_actors di |` (- di_due now di)" by (simp add: run)
  show "snd (di_take_due now di) = sorted_list_of_set (di_due now di)"
    using bset_eq_sorted_list_of_set [OF sort_handles [OF dist]] by (simp add: run keys)
  have "di_key d a \<in> ?k ` set due \<longleftrightarrow> (d, a) \<in> set due" for d a by force
  then show "di_inv (fst (di_take_due now di))"
    using inv mem by (auto simp: run di_inv_def di_due_def restrict_map_def split: if_splits)
qed

section \<open>Properties\<close>

fun di_run :: "(actor_ref \<times> instant option) list \<Rightarrow> deadline_index \<Rightarrow> deadline_index" where
  "di_run [] di = di"
| "di_run ((a, d) # xs) di = di_run xs (di_set a d di)"

lemma di_run_inv: "di_inv di \<Longrightarrow> \<forall>(a, d) \<in> set xs. ar_fits a \<Longrightarrow> di_inv (di_run xs di)"
  by (induction xs di rule: di_run.induct) (auto simp: di_set_inv)

text \<open>C13. The World's deadline index is exact whatever sequence of \<^verbatim>\<open>set\<close> calls built it:
  \<^verbatim>\<open>take_due\<close> returns, in handle order, exactly the actors whose last recorded deadline has
  passed, forgets those and keeps every other actor's deadline.\<close>

theorem take_due_exact:
  assumes "\<forall>(a, d) \<in> set xs. ar_fits a"
  shows "snd (di_take_due now (di_run xs di_new)) =
      sorted_list_of_set {a. \<exists>d \<le> now. di_actors (di_run xs di_new) a = Some d}
    \<and> di_actors (fst (di_take_due now (di_run xs di_new))) =
      (\<lambda>a. case di_actors (di_run xs di_new) a of
             Some d \<Rightarrow> if d \<le> now then None else Some d | None \<Rightarrow> None)"
proof -
  have inv: "di_inv (di_run xs di_new)" by (rule di_run_inv [OF di_new_inv assms])
  have "di_actors (di_run xs di_new) |` (- di_due now (di_run xs di_new)) =
      (\<lambda>a. case di_actors (di_run xs di_new) a of
             Some d \<Rightarrow> if d \<le> now then None else Some d | None \<Rightarrow> None)"
    by (auto simp: fun_eq_iff restrict_map_def di_due_def split: option.splits)
  then show ?thesis using di_take_due_spec [OF inv, of now] by (simp add: di_due_def)
qed

theorem take_due_exact_witness:
  "snd (di_take_due 10 (di_run [(ActorRef 1 2 1, Some 7), (ActorRef 1 0 1, Some 9),
      (ActorRef 1 2 1, Some 12)] di_new)) = [ActorRef 1 0 1]"
proof -
  let ?xs = "[(ActorRef 1 2 1, Some 7), (ActorRef 1 0 1, Some 9), (ActorRef 1 2 1, Some 12)]"
  have "{a. \<exists>d \<le> 10. di_actors (di_run ?xs di_new) a = Some d} = {ActorRef 1 0 1}"
    by (auto simp: di_actors_set di_new_def split: if_splits)
  then show ?thesis
    using take_due_exact [of ?xs 10] by (simp add: ar_fits_def u64_max_def u32_max_def)
qed

end
