(* ===== verification/Routing.thy ===== *)
theory Routing
  imports Containers Envelope
begin

text \<open>
  The route table, \<^verbatim>\<open>crates/runtime-core/src/routing.rs\<close>: subscriptions by id with secondary
  indexes by source port, source actor, owner and target.
\<close>

section \<open>Data and operations\<close>

record sub =
  sub_owner :: actor_ref
  sub_source :: actor_ref
  sub_target :: actor_ref
  sub_source_port :: "nat option"
  sub_target_port :: "nat option"

record route_table =
  rt_entries :: "(nat \<times> sub) list"
  rt_by_source :: "(actor_ref \<times> nat option) \<rightharpoonup> nat list"
  rt_by_source_actor :: "actor_ref \<rightharpoonup> nat list"
  rt_by_owner :: "actor_ref \<rightharpoonup> nat list"
  rt_by_target :: "actor_ref \<rightharpoonup> nat list"

definition rt_new :: route_table where
  "rt_new = \<lparr>rt_entries = [], rt_by_source = Map.empty, rt_by_source_actor = Map.empty,
     rt_by_owner = Map.empty, rt_by_target = Map.empty\<rparr>"

definition rt_active_len :: "route_table \<Rightarrow> nat" where
  "rt_active_len t = length (rt_entries t)"

definition rt_get :: "route_table \<Rightarrow> nat \<Rightarrow> sub option" where
  "rt_get t n = bm_get (rt_entries t) n"

definition rt_contains_active :: "route_table \<Rightarrow> nat \<Rightarrow> bool" where
  "rt_contains_active t n \<longleftrightarrow> bm_get (rt_entries t) n \<noteq> None"

definition rt_source_ids :: "route_table \<Rightarrow> actor_ref \<Rightarrow> nat option \<Rightarrow> nat list" where
  "rt_source_ids t source port = idx_get (rt_by_source t) (source, port)"

definition rt_source_count :: "route_table \<Rightarrow> actor_ref \<Rightarrow> nat option \<Rightarrow> nat" where
  "rt_source_count t source port =
     (case rt_by_source t (source, port) of None \<Rightarrow> 0 | Some ids \<Rightarrow> length ids)"

definition rt_source_actor_ids :: "route_table \<Rightarrow> actor_ref \<Rightarrow> nat list" where
  "rt_source_actor_ids t source = idx_get (rt_by_source_actor t) source"

definition rt_target_ids :: "route_table \<Rightarrow> actor_ref \<Rightarrow> nat list" where
  "rt_target_ids t target = idx_get (rt_by_target t) target"

text \<open>\<^verbatim>\<open>ids.extend(values)\<close> three times into one ordered set.\<close>

definition rt_actor_route_ids :: "route_table \<Rightarrow> actor_ref \<Rightarrow> nat list" where
  "rt_actor_route_ids t actor =
     fold bs_insert (idx_get (rt_by_target t) actor)
       (fold bs_insert (idx_get (rt_by_source_actor t) actor)
         (fold bs_insert (idx_get (rt_by_owner t) actor) []))"

definition rt_insert :: "nat \<Rightarrow> sub \<Rightarrow> route_table \<Rightarrow> route_table" where
  "rt_insert n route t =
     t\<lparr>rt_by_source := idx_insert (sub_source route, sub_source_port route) n (rt_by_source t),
       rt_by_source_actor := idx_insert (sub_source route) n (rt_by_source_actor t),
       rt_by_owner := idx_insert (sub_owner route) n (rt_by_owner t),
       rt_by_target := idx_insert (sub_target route) n (rt_by_target t),
       rt_entries := bm_insert n route (rt_entries t)\<rparr>"

definition rt_remove :: "nat \<Rightarrow> route_table \<Rightarrow> route_table \<times> sub option" where
  "rt_remove n t =
     (case bm_get (rt_entries t) n of
        None \<Rightarrow> (t, None)
      | Some route \<Rightarrow>
          (t\<lparr>rt_entries := bm_remove n (rt_entries t),
             rt_by_source := idx_remove (sub_source route, sub_source_port route) n (rt_by_source t),
             rt_by_source_actor := idx_remove (sub_source route) n (rt_by_source_actor t),
             rt_by_owner := idx_remove (sub_owner route) n (rt_by_owner t),
             rt_by_target := idx_remove (sub_target route) n (rt_by_target t)\<rparr>, Some route))"

definition source_target_exists :: "route_table \<Rightarrow> actor_ref \<Rightarrow> actor_ref \<Rightarrow> bool" where
  "source_target_exists t source target =
     list_ex (\<lambda>n. case bm_get (rt_entries t) n of None \<Rightarrow> False | Some route \<Rightarrow> sub_target route = target)
       (rt_source_actor_ids t source)"

definition typed_duplicate :: "route_table \<Rightarrow> port_ref \<Rightarrow> port_ref \<Rightarrow> bool" where
  "typed_duplicate t source target =
     list_ex (\<lambda>n. case bm_get (rt_entries t) n of None \<Rightarrow> False
                | Some route \<Rightarrow> sub_target route = pr_owner target)
       (rt_source_ids t (pr_owner source) (Some (pr_index source)))"

section \<open>The indexes are scans\<close>

text \<open>The relation between the values of a key function and the ids that have them.\<close>

definition key_rel :: "(sub \<Rightarrow> 'k) \<Rightarrow> route_table \<Rightarrow> ('k \<times> nat) set" where
  "key_rel f t = {(k, n). \<exists>route. map_of (rt_entries t) n = Some route \<and> f route = k}"

abbreviation source_key :: "sub \<Rightarrow> actor_ref \<times> nat option" where
  "source_key route \<equiv> (sub_source route, sub_source_port route)"

definition rt_inv :: "route_table \<Rightarrow> bool" where
  "rt_inv t \<longleftrightarrow> bmap (rt_entries t)
     \<and> idx.mirrors (rt_by_source t) (key_rel source_key t)
     \<and> idx.mirrors (rt_by_source_actor t) (key_rel sub_source t)
     \<and> idx.mirrors (rt_by_owner t) (key_rel sub_owner t)
     \<and> idx.mirrors (rt_by_target t) (key_rel sub_target t)"

lemma rt_new_inv: "rt_inv rt_new"
  by (simp add: rt_inv_def rt_new_def key_rel_def idx.mirrors_empty)

lemma key_rel_insert:
  "map_of (rt_entries t) n = None \<Longrightarrow>
     key_rel f (rt_insert n route t) = insert (f route, n) (key_rel f t)"
  by (auto simp: key_rel_def rt_insert_def)

lemma key_rel_remove:
  "map_of (rt_entries t) n = Some route \<Longrightarrow>
     key_rel f (fst (rt_remove n t)) = key_rel f t - {(f route, n)}"
  by (auto simp: key_rel_def rt_remove_def)

lemma rt_insert_inv:
  assumes "rt_inv t" "rt_get t n = None"
  shows "rt_inv (rt_insert n route t)"
proof -
  have none: "map_of (rt_entries t) n = None" using assms(2) by (simp add: rt_get_def)
  have ind: "rt_by_source (rt_insert n route t) = idx_insert (source_key route) n (rt_by_source t)"
    "rt_by_source_actor (rt_insert n route t) = idx_insert (sub_source route) n (rt_by_source_actor t)"
    "rt_by_owner (rt_insert n route t) = idx_insert (sub_owner route) n (rt_by_owner t)"
    "rt_by_target (rt_insert n route t) = idx_insert (sub_target route) n (rt_by_target t)"
    "rt_entries (rt_insert n route t) = bm_insert n route (rt_entries t)"
    by (simp_all add: rt_insert_def)
  show ?thesis
    using assms(1) by (simp add: rt_inv_def ind key_rel_insert [OF none] idx.mirrors_ins)
qed

lemma rt_remove_inv: "rt_inv t \<Longrightarrow> rt_inv (fst (rt_remove n t))"
proof -
  assume inv: "rt_inv t"
  show ?thesis
  proof (cases "map_of (rt_entries t) n")
    case (Some route)
    note rels = key_rel_remove [OF Some]
    show ?thesis
      using inv unfolding rt_inv_def rels by (simp add: rt_remove_def Some idx.mirrors_rem)
  qed (simp add: rt_remove_def inv)
qed

text \<open>The lookups as filters of the ordered entries.\<close>

definition rt_scan :: "(sub \<Rightarrow> bool) \<Rightarrow> route_table \<Rightarrow> nat list" where
  "rt_scan P t = map fst (filter (\<lambda>(n, route). P route) (rt_entries t))"

lemma set_rt_scan: "bmap (rt_entries t) \<Longrightarrow>
   n \<in> set (rt_scan P t) \<longleftrightarrow> (\<exists>route. map_of (rt_entries t) n = Some route \<and> P route)"
  by (force simp: rt_scan_def bmap_map_of_iff)

lemma bset_rt_scan: "bmap (rt_entries t) \<Longrightarrow> bset (rt_scan P t)"
proof -
  have "bset (map fst m) \<Longrightarrow> bset (map fst (filter Q m))" for Q and m :: "(nat \<times> sub) list"
    by (induction m) (auto simp: bset_Cons)
  then show "bmap (rt_entries t) \<Longrightarrow> bset (rt_scan P t)" by (simp add: bmap_def rt_scan_def)
qed

lemma mirrors_scan:
  assumes "idx.mirrors m (key_rel f t)" "bmap (rt_entries t)"
  shows "idx_get m k = rt_scan (\<lambda>route. f route = k) t"
proof (rule bset_eqI)
  show "bset (idx_get m k)" using assms(1) by (auto simp: idx.mirrors_def idx.get_bset)
  show "set (idx_get m k) = set (rt_scan (\<lambda>route. f route = k) t)"
    using assms by (auto simp: idx.mirrors_def key_rel_def set_rt_scan)
qed (rule bset_rt_scan [OF assms(2)])

lemma bset_fold_insert: "bset s \<Longrightarrow> bset (fold bs_insert xs s) \<and> set (fold bs_insert xs s) = set xs \<union> set s"
  by (induction xs arbitrary: s) auto

inductive route_step :: "route_table \<Rightarrow> route_table \<Rightarrow> bool" where
  route_inserted: "rt_get t n = None \<Longrightarrow> route_step t (rt_insert n route t)"
| route_removed: "route_step t (fst (rt_remove n t))"

interpretation routes: invariant_system "\<lambda>t. t = rt_new" route_step rt_inv
  by unfold_locales (auto simp: rt_new_inv rt_insert_inv rt_remove_inv elim!: route_step.cases)

text \<open>C14. In every route table built by insertions under fresh ids and removals, each indexed query
  equals a scan of the entries in id order: the routes of a source port and their number, of a
  source actor, of a target, and of an actor in any role; and the two duplicate tests answer whether
  such a route exists.\<close>

theorem route_queries_exact:
  assumes "reachable (\<lambda>t. t = rt_new) route_step t"
  shows "rt_source_ids t source port =
       rt_scan (\<lambda>r. sub_source r = source \<and> sub_source_port r = port) t
    \<and> rt_source_count t source port =
       length (rt_scan (\<lambda>r. sub_source r = source \<and> sub_source_port r = port) t)
    \<and> rt_source_actor_ids t source = rt_scan (\<lambda>r. sub_source r = source) t
    \<and> rt_target_ids t target = rt_scan (\<lambda>r. sub_target r = target) t
    \<and> rt_actor_route_ids t a = rt_scan (\<lambda>r. sub_owner r = a \<or> sub_source r = a \<or> sub_target r = a) t
    \<and> source_target_exists t source target =
       (\<exists>n r. rt_get t n = Some r \<and> sub_source r = source \<and> sub_target r = target)
    \<and> typed_duplicate t p q = (\<exists>n r. rt_get t n = Some r \<and> sub_source r = pr_owner p
       \<and> sub_source_port r = Some (pr_index p) \<and> sub_target r = pr_owner q)"
proof -
  have inv: "rt_inv t" by (rule routes.reachable_invar [OF assms])
  then have m: "bmap (rt_entries t)" by (simp add: rt_inv_def)
  have src: "idx_get (rt_by_source t) k = rt_scan (\<lambda>r. source_key r = k) t" for k
    using inv by (intro mirrors_scan) (simp_all add: rt_inv_def)
  have sa: "idx_get (rt_by_source_actor t) k = rt_scan (\<lambda>r. sub_source r = k) t" for k
    using inv by (intro mirrors_scan) (simp_all add: rt_inv_def)
  have ow: "idx_get (rt_by_owner t) k = rt_scan (\<lambda>r. sub_owner r = k) t" for k
    using inv by (intro mirrors_scan) (simp_all add: rt_inv_def)
  have tg: "idx_get (rt_by_target t) k = rt_scan (\<lambda>r. sub_target r = k) t" for k
    using inv by (intro mirrors_scan) (simp_all add: rt_inv_def)
  have "rt_actor_route_ids t a = rt_scan (\<lambda>r. sub_owner r = a \<or> sub_source r = a \<or> sub_target r = a) t"
    by (rule bset_eqI)
      (auto simp: rt_actor_route_ids_def bset_fold_insert bset_rt_scan [OF m] set_rt_scan [OF m] sa ow tg)
  moreover have "rt_source_count t source port = length (idx_get (rt_by_source t) (source, port))"
    by (simp add: rt_source_count_def idx_get_def split: option.splits)
  moreover have "source_target_exists t source target =
       (\<exists>n r. rt_get t n = Some r \<and> sub_source r = source \<and> sub_target r = target)"
    by (force simp: source_target_exists_def rt_source_actor_ids_def sa list_ex_iff set_rt_scan [OF m]
        rt_get_def split: option.splits)
  moreover have "typed_duplicate t p q = (\<exists>n r. rt_get t n = Some r \<and> sub_source r = pr_owner p
       \<and> sub_source_port r = Some (pr_index p) \<and> sub_target r = pr_owner q)"
    by (force simp: typed_duplicate_def rt_source_ids_def src list_ex_iff set_rt_scan [OF m]
        rt_get_def split: option.splits)
  ultimately show ?thesis
    by (simp add: rt_source_ids_def rt_source_actor_ids_def rt_target_ids_def src sa tg)
qed

theorem route_queries_exact_witness:
  "rt_source_ids (rt_insert 4 \<lparr>sub_owner = ActorRef 1 0 1, sub_source = ActorRef 1 1 1,
      sub_target = ActorRef 1 2 1, sub_source_port = Some 0, sub_target_port = Some 1\<rparr> rt_new)
      (ActorRef 1 1 1) (Some 0) = [4]"
proof -
  let ?r = "\<lparr>sub_owner = ActorRef 1 0 1, sub_source = ActorRef 1 1 1,
      sub_target = ActorRef 1 2 1, sub_source_port = Some 0, sub_target_port = Some 1\<rparr>"
  have "route_step rt_new (rt_insert 4 ?r rt_new)"
    by (rule route_inserted) (simp add: rt_get_def rt_new_def)
  moreover have "reachable (\<lambda>t. t = rt_new) route_step rt_new" by (rule reachable_init) simp
  ultimately have "reachable (\<lambda>t. t = rt_new) route_step (rt_insert 4 ?r rt_new)"
    by (metis reachable_step)
  from route_queries_exact [OF this, of "ActorRef 1 1 1" "Some 0"] show ?thesis
    by (simp add: rt_scan_def rt_insert_def rt_new_def)
qed

end
