(* ===== verification/Readiness.thy ===== *)
theory Readiness
  imports Containers
begin

text \<open>
  The Python readiness index, \<^verbatim>\<open>crates/runtime-core/src/readiness.rs\<close>: one ordered map per
  scheduling phase from an actor's readiness order to its handle, edge-triggered updates and
  cursor reads.
\<close>

datatype python_ready_phase = PhaseStart | PhaseFailure | PhaseDelivery | PhaseCleanup

type_synonym ready_map = "(nat \<times> actor_ref) list"

record python_ready_index =
  ri_start :: ready_map
  ri_failure :: ready_map
  ri_delivery :: ready_map
  ri_cleanup :: ready_map

definition ri_new :: python_ready_index where
  "ri_new = \<lparr>ri_start = [], ri_failure = [], ri_delivery = [], ri_cleanup = []\<rparr>"

fun ri_entries :: "python_ready_index \<Rightarrow> python_ready_phase \<Rightarrow> ready_map" where
  "ri_entries r PhaseStart = ri_start r"
| "ri_entries r PhaseFailure = ri_failure r"
| "ri_entries r PhaseDelivery = ri_delivery r"
| "ri_entries r PhaseCleanup = ri_cleanup r"

definition set_entry :: "nat \<Rightarrow> actor_ref \<Rightarrow> bool \<Rightarrow> ready_map \<Rightarrow> ready_map \<times> bool" where
  "set_entry order actor present m =
     (if present then (bm_insert order actor m, bm_get m order = None)
      else (bm_remove order m, False))"

definition ri_set ::
  "nat \<Rightarrow> actor_ref \<Rightarrow> bool \<Rightarrow> bool \<Rightarrow> bool \<Rightarrow> bool \<Rightarrow> python_ready_index \<Rightarrow>
   python_ready_index \<times> bool" where
  "ri_set order actor start failure delivery cleanup r =
     (let (m1, c1) = set_entry order actor start (ri_start r);
          (m2, c2) = set_entry order actor failure (ri_failure r);
          (m3, c3) = set_entry order actor delivery (ri_delivery r);
          (m4, c4) = set_entry order actor cleanup (ri_cleanup r)
      in (\<lparr>ri_start = m1, ri_failure = m2, ri_delivery = m3, ri_cleanup = m4\<rparr>,
          c1 \<or> c2 \<or> c3 \<or> c4))"

definition ri_next ::
  "python_ready_index \<Rightarrow> python_ready_phase \<Rightarrow> nat option \<Rightarrow> nat \<Rightarrow> (nat \<times> actor_ref) option" where
  "ri_next r phase after through =
     (let entries = ri_entries r phase
      in case phase of
           PhaseCleanup \<Rightarrow>
             (case after of
                Some a \<Rightarrow>
                  if a = 0 then None
                  else (let upper = min through (a - 1)
                        in find (\<lambda>(order, _). order \<le> upper) (rev entries))
              | None \<Rightarrow> find (\<lambda>(order, _). order \<le> through) (rev entries))
         | _ \<Rightarrow>
             (let a = (case after of None \<Rightarrow> 0 | Some a \<Rightarrow> a)
              in if a \<ge> through then None
                 else find (\<lambda>(order, _). a < order \<and> order \<le> through) entries))"

definition ri_is_empty :: "python_ready_index \<Rightarrow> bool" where
  "ri_is_empty r \<longleftrightarrow>
     ri_start r = [] \<and> ri_failure r = [] \<and> ri_delivery r = [] \<and> ri_cleanup r = []"

section \<open>Cursor walks\<close>

definition ri_inv :: "python_ready_index \<Rightarrow> bool" where
  "ri_inv r \<longleftrightarrow> bmap (ri_start r) \<and> bmap (ri_failure r) \<and> bmap (ri_delivery r) \<and> bmap (ri_cleanup r)"

lemma ri_inv_entries: "ri_inv r \<Longrightarrow> bmap (ri_entries r phase)"
  by (cases phase) (simp_all add: ri_inv_def)

lemma set_entry_bmap: "bmap m \<Longrightarrow> bmap (fst (set_entry order actor present m))"
  by (simp add: set_entry_def)

lemma ri_set_inv: "ri_inv r \<Longrightarrow> ri_inv (fst (ri_set order actor s f d c r))"
  by (simp add: ri_inv_def ri_set_def case_prod_beta Let_def set_entry_bmap)

text \<open>The entries a walk still has to visit, in the order it visits them.\<close>

definition ready_pending ::
  "python_ready_index \<Rightarrow> python_ready_phase \<Rightarrow> nat option \<Rightarrow> nat \<Rightarrow> (nat \<times> actor_ref) list" where
  "ready_pending r phase after through =
     (case phase of
        PhaseCleanup \<Rightarrow>
          filter (\<lambda>(order, _). (case after of None \<Rightarrow> True | Some a \<Rightarrow> order < a) \<and> order \<le> through)
            (rev (ri_entries r phase))
      | _ \<Rightarrow>
          filter (\<lambda>(order, _). (case after of None \<Rightarrow> 0 | Some a \<Rightarrow> a) < order \<and> order \<le> through)
            (ri_entries r phase))"

lemma find_filter: "find P xs = (case filter P xs of [] \<Rightarrow> None | x # _ \<Rightarrow> Some x)"
  by (induction xs) auto

lemma filter_sorted_tail:
  assumes "sorted_wrt R xs" "filter (\<lambda>x. S x \<and> U x) xs = y # ys"
    and "\<And>x. R y x \<Longrightarrow> S x" "\<And>x z. R x z \<Longrightarrow> \<not> R z x"
  shows "ys = filter (\<lambda>x. R y x \<and> U x) xs"
  using assms(1,2)
proof (induction xs)
  case (Cons x xs)
  show ?case
  proof (cases "S x \<and> U x")
    case True
    then have y: "y = x" "ys = filter (\<lambda>x. S x \<and> U x) xs" using Cons.prems(2) by auto
    have "\<forall>z \<in> set xs. R y z" using Cons.prems(1) y by simp
    then have "filter (\<lambda>x. S x \<and> U x) xs = filter (\<lambda>x. R y x \<and> U x) xs"
      using assms(3) by (intro filter_cong) auto
    moreover have "\<not> R y x" using assms(4) y by blast
    ultimately show ?thesis using y by simp
  next
    case False
    then have ys: "filter (\<lambda>x. S x \<and> U x) xs = y # ys" using Cons.prems(2) by (auto split: if_splits)
    then have "y \<in> set xs" by (metis filter_is_subset list.set_intros(1) subsetD)
    then have "\<not> R y x" using Cons.prems(1) assms(4) by auto
    with Cons.IH ys Cons.prems(1) show ?thesis by simp
  qed
qed simp

lemma ri_next_pending:
  "ri_next r phase after through =
     (case ready_pending r phase after through of [] \<Rightarrow> None | p # _ \<Rightarrow> Some p)"
proof (cases "phase = PhaseCleanup")
  case True
  have "0 < a \<Longrightarrow> order \<le> min through (a - 1) \<longleftrightarrow> order < a \<and> order \<le> through" for a order :: nat by auto
  then show ?thesis
    by (cases after) (auto simp: True ri_next_def ready_pending_def find_filter Let_def case_prod_beta)
next
  case False
  let ?a = "case after of None \<Rightarrow> 0 | Some a \<Rightarrow> a"
  have "filter (\<lambda>(order, _). ?a < order \<and> order \<le> through) xs = []" if "through \<le> ?a" for xs :: ready_map
    using that by (induction xs) auto
  moreover have "ready_pending r phase after through =
      filter (\<lambda>(order, _). ?a < order \<and> order \<le> through) (ri_entries r phase)"
    using False by (cases phase) (simp_all add: ready_pending_def)
  moreover have "ri_next r phase after through = (if ?a \<ge> through then None
      else find (\<lambda>(order, _). ?a < order \<and> order \<le> through) (ri_entries r phase))"
    using False by (cases phase) (simp_all add: ri_next_def Let_def)
  ultimately show ?thesis by (simp add: find_filter)
qed

lemma ready_pending_tail:
  assumes inv: "ri_inv r" and p: "ready_pending r phase after through = (order, actor) # rest"
  shows "rest = ready_pending r phase (Some order) through"
proof -
  have "sorted_wrt (<) (map fst (ri_entries r phase))"
    using ri_inv_entries [OF inv, of phase] by (simp add: bmap_def bset_def strict_sorted_iff)
  then have sorted: "sorted_wrt (\<lambda>p q. fst p < fst q) (ri_entries r phase)"
    by (simp add: sorted_wrt_map)
  show ?thesis
  proof (cases "phase = PhaseCleanup")
    case True
    have desc: "sorted_wrt (\<lambda>p q. fst q < fst p) (rev (ri_entries r phase))"
      using sorted by (simp add: sorted_wrt_rev)
    from p have f: "filter (\<lambda>x. (case after of None \<Rightarrow> True | Some a \<Rightarrow> fst x < a) \<and> fst x \<le> through)
        (rev (ri_entries r phase)) = (order, actor) # rest"
      by (simp add: True ready_pending_def split_def)
    then have "(order, actor) \<in> set (filter (\<lambda>x. (case after of None \<Rightarrow> True | Some a \<Rightarrow> fst x < a)
        \<and> fst x \<le> through) (rev (ri_entries r phase)))" by simp
    then have "case after of None \<Rightarrow> True | Some a \<Rightarrow> order < a" by (simp split: option.splits)
    then have "rest = filter (\<lambda>x. fst x < fst (order, actor) \<and> fst x \<le> through) (rev (ri_entries r phase))"
      by (intro filter_sorted_tail [OF desc f]) (auto split: option.splits)
    then show ?thesis by (simp add: True ready_pending_def split_def)
  next
    case False
    let ?a = "case after of None \<Rightarrow> 0 | Some a \<Rightarrow> a"
    have rp: "ready_pending r phase c through =
        filter (\<lambda>x. (case c of None \<Rightarrow> 0 | Some a \<Rightarrow> a) < fst x \<and> fst x \<le> through) (ri_entries r phase)" for c
      using False by (cases phase) (simp_all add: ready_pending_def split_def)
    from p have f: "filter (\<lambda>x. ?a < fst x \<and> fst x \<le> through) (ri_entries r phase) = (order, actor) # rest"
      by (simp add: rp)
    then have "(order, actor) \<in> set (filter (\<lambda>x. ?a < fst x \<and> fst x \<le> through) (ri_entries r phase))"
      by simp
    then have "?a < order" by simp
    then have "rest = filter (\<lambda>x. fst (order, actor) < fst x \<and> fst x \<le> through) (ri_entries r phase)"
      by (intro filter_sorted_tail [OF sorted f]) auto
    then show ?thesis by (simp add: rp)
  qed
qed

text \<open>The walk of a driver: read the next hint past the cursor until there is none.\<close>

fun ready_walk ::
  "nat \<Rightarrow> python_ready_index \<Rightarrow> python_ready_phase \<Rightarrow> nat option \<Rightarrow> nat \<Rightarrow> (nat \<times> actor_ref) list option" where
  "ready_walk 0 r phase after through = None"
| "ready_walk (Suc fuel) r phase after through =
     (case ri_next r phase after through of
        None \<Rightarrow> Some []
      | Some (order, actor) \<Rightarrow>
          map_option (Cons (order, actor)) (ready_walk fuel r phase (Some order) through))"

lemma ready_walk_pending:
  assumes "ri_inv r" "length (ready_pending r phase after through) < fuel"
  shows "ready_walk fuel r phase after through = Some (ready_pending r phase after through)"
  using assms(2)
proof (induction fuel arbitrary: after)
  case (Suc fuel)
  show ?case
  proof (cases "ready_pending r phase after through")
    case (Cons p rest)
    obtain order actor where p: "p = (order, actor)" by fastforce
    have rest: "rest = ready_pending r phase (Some order) through"
      using ready_pending_tail [OF assms(1)] Cons p by simp
    have "length (ready_pending r phase (Some order) through) < fuel"
      using Suc.prems Cons rest by simp
    from Suc.IH [OF this] show ?thesis using Cons p rest by (simp add: ri_next_pending)
  qed (simp add: ri_next_pending)
qed simp

inductive ready_step :: "python_ready_index \<Rightarrow> python_ready_index \<Rightarrow> bool" where
  "ready_step r (fst (ri_set order actor start failure delivery cleanup r))"

interpretation ready: invariant_system "\<lambda>r. r = ri_new" ready_step ri_inv
proof unfold_locales
  show "ready_step r r' \<Longrightarrow> ri_inv r \<Longrightarrow> ri_inv r'" for r r'
    by (auto simp: ri_set_inv elim!: ready_step.cases)
qed (simp add: ri_inv_def ri_new_def)

section \<open>Properties\<close>

text \<open>C15. A driver that walks a phase by its cursor, in an index built by any updates, terminates and
  visits each hint inside the cutoff exactly once: in ascending order in the start, failure and
  delivery phases, skipping order zero, and in descending order in the cleanup phase.\<close>

theorem ready_walk_complete:
  assumes "reachable (\<lambda>r. r = ri_new) ready_step r" and "length (ri_entries r phase) < fuel"
  shows "ready_walk fuel r phase None through =
    Some (if phase = PhaseCleanup then rev (filter (\<lambda>(order, _). order \<le> through) (ri_entries r phase))
          else filter (\<lambda>(order, _). 0 < order \<and> order \<le> through) (ri_entries r phase))
    \<and> sorted_wrt (<) (map fst (ri_entries r phase))"
proof -
  have inv: "ri_inv r" by (rule ready.reachable_invar [OF assms(1)])
  have pending: "ready_pending r phase None through =
      (if phase = PhaseCleanup then rev (filter (\<lambda>(order, _). order \<le> through) (ri_entries r phase))
       else filter (\<lambda>(order, _). 0 < order \<and> order \<le> through) (ri_entries r phase))"
    by (cases phase) (simp_all add: ready_pending_def rev_filter)
  have "length (ready_pending r phase None through) < fuel"
    using assms(2) by (auto simp: pending intro: le_less_trans [OF length_filter_le])
  from ready_walk_pending [OF inv this] ri_inv_entries [OF inv, of phase] show ?thesis
    by (simp add: pending bmap_def bset_def strict_sorted_iff)
qed

definition ri_demo :: python_ready_index where
  "ri_demo = fst (ri_set 2 (ActorRef 1 0 1) True False False True
     (fst (ri_set 1 (ActorRef 1 1 1) True False False True ri_new)))"

theorem ready_walk_complete_witness:
  "ready_walk 5 ri_demo PhaseStart None 9 = Some [(1, ActorRef 1 1 1), (2, ActorRef 1 0 1)]
    \<and> ready_walk 5 ri_demo PhaseCleanup None 9 = Some [(2, ActorRef 1 0 1), (1, ActorRef 1 1 1)]"
proof -
  have "reachable (\<lambda>r. r = ri_new) ready_step ri_new" by (rule reachable_init) simp
  then have reach: "reachable (\<lambda>r. r = ri_new) ready_step ri_demo"
    unfolding ri_demo_def by (metis reachable_step ready_step.intros)
  have "ri_start ri_demo = [(1, ActorRef 1 1 1), (2, ActorRef 1 0 1)]"
      "ri_cleanup ri_demo = [(1, ActorRef 1 1 1), (2, ActorRef 1 0 1)]"
    by (simp_all add: ri_demo_def ri_set_def set_entry_def ri_new_def)
  then show ?thesis
    using ready_walk_complete [OF reach, of PhaseStart 5 9]
      ready_walk_complete [OF reach, of PhaseCleanup 5 9] by simp
qed

text \<open>A readiness update replaces exactly the actor's own entry in each phase, and it asks for a
  notification exactly when some phase has gained an entry, so a driver that found the index empty
  is never left waiting.\<close>

theorem ready_set_edges:
  "map_of (ri_entries (fst (ri_set order actor s f d c r)) phase) =
     (map_of (ri_entries r phase))
       (order := if (case phase of PhaseStart \<Rightarrow> s | PhaseFailure \<Rightarrow> f | PhaseDelivery \<Rightarrow> d | PhaseCleanup \<Rightarrow> c)
                 then Some actor else None)
   \<and> (snd (ri_set order actor s f d c r) \<longleftrightarrow>
        (\<exists>ph. map_of (ri_entries r ph) order = None
           \<and> map_of (ri_entries (fst (ri_set order actor s f d c r)) ph) order \<noteq> None))"
proof -
  have entries: "map_of (ri_entries (fst (ri_set order actor s f d c r)) ph) =
     (map_of (ri_entries r ph))
       (order := if (case ph of PhaseStart \<Rightarrow> s | PhaseFailure \<Rightarrow> f | PhaseDelivery \<Rightarrow> d | PhaseCleanup \<Rightarrow> c)
                 then Some actor else None)" for ph
    by (cases ph) (auto simp: ri_set_def set_entry_def case_prod_beta Let_def)
  have ex: "(\<exists>ph. P ph) \<longleftrightarrow> P PhaseStart \<or> P PhaseFailure \<or> P PhaseDelivery \<or> P PhaseCleanup" for P
    by (metis python_ready_phase.exhaust)
  have "snd (ri_set order actor s f d c r) \<longleftrightarrow>
      s \<and> map_of (ri_start r) order = None \<or> f \<and> map_of (ri_failure r) order = None
      \<or> d \<and> map_of (ri_delivery r) order = None \<or> c \<and> map_of (ri_cleanup r) order = None"
    by (auto simp: ri_set_def set_entry_def case_prod_beta Let_def)
  then show ?thesis unfolding ex entries by auto
qed

end
