(* ===== verification/Activity.thy ===== *)
theory Activity
  imports Containers
begin

text \<open>
  The activity registry, \<^verbatim>\<open>crates/runtime-core/src/activity.rs\<close>: a version per actor slot that
  changes advance, with one registered observer (waker) per actor.

  A \<^verbatim>\<open>Waker\<close> is a value of an arbitrary type; \<^verbatim>\<open>Waker::will_wake\<close> of the standard library is the
  parameter \<open>will_wake\<close>.
\<close>

section \<open>Data and operations\<close>

record 'w activity_slot =
  as_actor :: actor_ref
  as_version :: nat
  as_overflow :: bool
  as_waker :: "'w option"

record 'w retired =
  re_waker :: 'w
  re_wake :: bool

record 'w activity_registry =
  ag_slots :: "(nat \<times> 'w activity_slot) list"
  ag_dirty :: "nat list"

datatype 'a poll = Ready 'a | Pending

definition ag_new :: "'w activity_registry" where
  "ag_new = \<lparr>ag_slots = [], ag_dirty = []\<rparr>"

definition fresh_slot :: "actor_ref \<Rightarrow> 'w activity_slot" where
  "fresh_slot actor = \<lparr>as_actor = actor, as_version = 1, as_overflow = False, as_waker = None\<rparr>"

text \<open>\<^verbatim>\<open>slots.entry(actor.slot).or_insert_with(..)\<close>\<close>

definition slot_or_insert :: "actor_ref \<Rightarrow> 'w activity_registry \<Rightarrow> 'w activity_slot" where
  "slot_or_insert actor g =
     (case bm_get (ag_slots g) (ar_slot actor) of None \<Rightarrow> fresh_slot actor | Some s \<Rightarrow> s)"

definition put_slot :: "actor_ref \<Rightarrow> 'w activity_slot \<Rightarrow> 'w activity_registry \<Rightarrow> 'w activity_registry" where
  "put_slot actor s g = g\<lparr>ag_slots := bm_insert (ar_slot actor) s (ag_slots g)\<rparr>"

definition retire_waker :: "bool \<Rightarrow> 'w option \<Rightarrow> 'w retired option" where
  "retire_waker wake w = map_option (\<lambda>x. \<lparr>re_waker = x, re_wake = wake\<rparr>) w"

definition ag_version ::
  "actor_ref \<Rightarrow> 'w activity_registry \<Rightarrow> 'w activity_registry \<times> nat result \<times> 'w retired option" where
  "ag_version actor g =
     (let s = slot_or_insert actor g in
      if as_actor s \<noteq> actor
      then ((put_slot actor (fresh_slot actor) g)\<lparr>ag_dirty := bs_remove (ar_slot actor) (ag_dirty g)\<rparr>,
            Inr 1, retire_waker True (as_waker s))
      else (put_slot actor s g, if as_overflow s then Inl LimitExceeded else Inr (as_version s), None))"

definition ag_poll ::
  "('w \<Rightarrow> 'w \<Rightarrow> bool) \<Rightarrow> actor_ref \<Rightarrow> nat \<Rightarrow> 'w \<Rightarrow> 'w activity_registry \<Rightarrow>
   'w activity_registry \<times> nat result poll \<times> 'w retired option" where
  "ag_poll will_wake actor observed incoming g =
     (let s = slot_or_insert actor g in
      if as_actor s \<noteq> actor
      then ((put_slot actor (fresh_slot actor) g)\<lparr>ag_dirty := bs_remove (ar_slot actor) (ag_dirty g)\<rparr>,
            Ready (Inr 1), retire_waker True (as_waker s))
      else if as_overflow s then (put_slot actor s g, Ready (Inl LimitExceeded), None)
      else if as_version s \<noteq> observed then (put_slot actor s g, Ready (Inr (as_version s)), None)
      else if (case as_waker s of None \<Rightarrow> True | Some old \<Rightarrow> \<not> will_wake old incoming)
      then (put_slot actor (s\<lparr>as_waker := Some incoming\<rparr>) g, Pending, retire_waker False (as_waker s))
      else (put_slot actor s g, Pending, None))"

definition ag_mark :: "actor_ref \<Rightarrow> 'w activity_registry \<Rightarrow> 'w activity_registry" where
  "ag_mark actor g =
     (case bm_get (ag_slots g) (ar_slot actor) of
        None \<Rightarrow> g
      | Some s \<Rightarrow>
          if as_actor s \<noteq> actor then g\<lparr>ag_dirty := bs_insert (ar_slot actor) (ag_dirty g)\<rparr>
          else
            (let s' = (if as_version s = u64_max then s\<lparr>as_overflow := True\<rparr>
                       else s\<lparr>as_version := as_version s + 1\<rparr>)
             in (put_slot actor s' g)\<lparr>ag_dirty := bs_insert (ar_slot actor) (ag_dirty g)\<rparr>))"

fun take_wakers ::
  "nat list \<Rightarrow> (nat \<times> 'w activity_slot) list \<Rightarrow> (nat \<times> 'w activity_slot) list \<times> 'w list" where
  "take_wakers [] slots = (slots, [])"
| "take_wakers (n # dirty) slots =
     (case bm_get slots n of
        None \<Rightarrow> take_wakers dirty slots
      | Some s \<Rightarrow>
          (let (slots', ws) = take_wakers dirty (bm_insert n (s\<lparr>as_waker := None\<rparr>) slots)
           in (slots', (case as_waker s of None \<Rightarrow> ws | Some w \<Rightarrow> w # ws))))"

definition ag_notify_marked :: "'w activity_registry \<Rightarrow> 'w activity_registry \<times> 'w list" where
  "ag_notify_marked g =
     (let (slots', ws) = take_wakers (ag_dirty g) (ag_slots g)
      in (\<lparr>ag_slots = slots', ag_dirty = []\<rparr>, ws))"

text \<open>\<^verbatim>\<open>wake_retired\<close>: the wakers a retired observer runs.\<close>

definition wake_retired :: "'w retired option \<Rightarrow> 'w list" where
  "wake_retired r = (case r of None \<Rightarrow> [] | Some x \<Rightarrow> if re_wake x then [re_waker x] else [])"

section \<open>Sequences of registry operations\<close>

datatype 'w activity_op =
    OpMark actor_ref
  | OpNotify
  | OpVersion actor_ref
  | OpPoll actor_ref nat 'w

text \<open>One operation: the registry after it and the wakers it runs.\<close>

fun ag_apply :: "('w \<Rightarrow> 'w \<Rightarrow> bool) \<Rightarrow> 'w activity_op \<Rightarrow> 'w activity_registry \<Rightarrow> 'w activity_registry \<times> 'w list" where
  "ag_apply ww (OpMark a) g = (ag_mark a g, [])"
| "ag_apply ww OpNotify g = ag_notify_marked g"
| "ag_apply ww (OpVersion a) g = (case ag_version a g of (g', r, ret) \<Rightarrow> (g', wake_retired ret))"
| "ag_apply ww (OpPoll a v w) g = (case ag_poll ww a v w g of (g', r, ret) \<Rightarrow> (g', wake_retired ret))"

fun ag_run :: "('w \<Rightarrow> 'w \<Rightarrow> bool) \<Rightarrow> 'w activity_op list \<Rightarrow> 'w activity_registry \<Rightarrow> 'w activity_registry \<times> 'w list" where
  "ag_run ww [] g = (g, [])"
| "ag_run ww (x # xs) g =
     (let (g1, w1) = ag_apply ww x g; (g2, w2) = ag_run ww xs g1 in (g2, w1 @ w2))"

fun repolls :: "actor_ref \<Rightarrow> 'w activity_op \<Rightarrow> bool" where
  "repolls a (OpPoll b v w) = (a = b)"
| "repolls a _ = False"

text \<open>The observer \<open>u\<close> of \<open>actor\<close> is registered; it is also due when its slot is dirty.\<close>

definition armed :: "actor_ref \<Rightarrow> 'w \<Rightarrow> 'w activity_registry \<Rightarrow> bool" where
  "armed actor u g \<longleftrightarrow>
     (\<exists>s. map_of (ag_slots g) (ar_slot actor) = Some s \<and> as_actor s = actor \<and> as_waker s = Some u)"

definition armed_dirty :: "actor_ref \<Rightarrow> 'w \<Rightarrow> 'w activity_registry \<Rightarrow> bool" where
  "armed_dirty actor u g \<longleftrightarrow> armed actor u g \<and> ar_slot actor \<in> set (ag_dirty g)"

lemma map_of_take_wakers:
  "map_of (fst (take_wakers dirty slots)) n =
     (if n \<in> set dirty then map_option (\<lambda>s. s\<lparr>as_waker := None\<rparr>) (map_of slots n) else map_of slots n)"
  by (induction dirty slots rule: take_wakers.induct)
    (auto simp: case_prod_beta Let_def option.map_comp comp_def map_option_case split: option.splits if_splits)

lemma take_wakers_delivers:
  "map_of slots n = Some s \<Longrightarrow> as_waker s = Some u \<Longrightarrow> n \<in> set dirty \<Longrightarrow>
     u \<in> set (snd (take_wakers dirty slots))"
proof (induction dirty slots rule: take_wakers.induct)
  case (2 m dirty slots)
  show ?case
  proof (cases "n = m")
    case False
    with 2 show ?thesis by (auto simp: case_prod_beta Let_def split: option.splits)
  qed (use 2(3,4) in \<open>simp add: case_prod_beta Let_def\<close>)
qed simp

lemma ag_version_frame:
  "n \<noteq> ar_slot a \<Longrightarrow> map_of (ag_slots (fst (ag_version a g))) n = map_of (ag_slots g) n"
  "n \<noteq> ar_slot a \<Longrightarrow> n \<in> set (ag_dirty (fst (ag_version a g))) \<longleftrightarrow> n \<in> set (ag_dirty g)"
  by (simp_all add: ag_version_def put_slot_def Let_def)

lemma ag_poll_frame:
  "n \<noteq> ar_slot a \<Longrightarrow> map_of (ag_slots (fst (ag_poll ww a v w g))) n = map_of (ag_slots g) n"
  "n \<noteq> ar_slot a \<Longrightarrow> n \<in> set (ag_dirty (fst (ag_poll ww a v w g))) \<longleftrightarrow> n \<in> set (ag_dirty g)"
  by (simp_all add: ag_poll_def put_slot_def Let_def)

text \<open>A poll or version read for another generation of the slot wakes the old observer.\<close>

lemma ag_replaced_wakes:
  assumes "map_of (ag_slots g) (ar_slot a) = Some s" "as_actor s \<noteq> a" "as_waker s = Some u"
  shows "snd (snd (ag_version a g)) = Some \<lparr>re_waker = u, re_wake = True\<rparr>"
    and "snd (snd (ag_poll ww a v w g)) = Some \<lparr>re_waker = u, re_wake = True\<rparr>"
  using assms by (simp_all add: ag_version_def ag_poll_def slot_or_insert_def Let_def retire_waker_def)

lemma ag_version_same:
  assumes "map_of (ag_slots g) (ar_slot a) = Some s" "as_actor s = a"
  shows "map_of (ag_slots (fst (ag_version a g))) (ar_slot a) = Some s \<and> ag_dirty (fst (ag_version a g)) = ag_dirty g"
  using assms by (simp add: ag_version_def slot_or_insert_def Let_def put_slot_def)

lemma ag_mark_frame:
  "n \<noteq> ar_slot a \<Longrightarrow> map_of (ag_slots (ag_mark a g)) n = map_of (ag_slots g) n"
  "set (ag_dirty g) \<subseteq> set (ag_dirty (ag_mark a g))"
  by (auto simp: ag_mark_def put_slot_def Let_def split: option.splits)

lemma ag_mark_armed:
  assumes "armed actor u g"
  shows "armed actor u (ag_mark a g)
    \<and> (armed_dirty actor u g \<or> a = actor \<longrightarrow> armed_dirty actor u (ag_mark a g))"
proof -
  from assms obtain s where s: "map_of (ag_slots g) (ar_slot actor) = Some s" "as_actor s = actor"
    "as_waker s = Some u" by (auto simp: armed_def)
  have "armed actor u (ag_mark a g)"
  proof (cases "ar_slot a = ar_slot actor")
    case True
    let ?s = "if as_version s = u64_max then s\<lparr>as_overflow := True\<rparr> else s\<lparr>as_version := as_version s + 1\<rparr>"
    have "map_of (ag_slots (ag_mark a g)) (ar_slot actor) = Some (if as_actor s \<noteq> a then s else ?s)"
      using s(1) True by (simp add: ag_mark_def put_slot_def Let_def)
    moreover have "as_actor ?s = as_actor s" "as_waker ?s = as_waker s" by simp_all
    ultimately show ?thesis using s(2,3) by (simp add: armed_def)
  qed (use s in \<open>simp add: armed_def ag_mark_frame\<close>)
  moreover have "ar_slot actor \<in> set (ag_dirty (ag_mark actor g))"
    using s by (simp add: ag_mark_def Let_def)
  ultimately show ?thesis using ag_mark_frame(2) [of g a] by (auto simp: armed_dirty_def)
qed

lemma ag_apply_armed:
  assumes "armed actor u g" "\<not> repolls actor x" "ag_apply ww x g = (g', ws)"
  shows "u \<in> set ws \<or> armed actor u g' \<and> (armed_dirty actor u g \<or> x = OpMark actor \<longrightarrow> armed_dirty actor u g')"
proof -
  from assms(1) obtain s where s: "map_of (ag_slots g) (ar_slot actor) = Some s" "as_actor s = actor"
    "as_waker s = Some u" by (auto simp: armed_def)
  show ?thesis
  proof (cases x)
    case (OpMark a)
    then have "g' = ag_mark a g" using assms(3) by simp
    then show ?thesis using ag_mark_armed [OF assms(1), of a] OpMark by (auto simp: armed_dirty_def)
  next
    case OpNotify
    then have g': "g' = \<lparr>ag_slots = fst (take_wakers (ag_dirty g) (ag_slots g)), ag_dirty = []\<rparr>"
      "ws = snd (take_wakers (ag_dirty g) (ag_slots g))"
      using assms(3) by (auto simp: ag_notify_marked_def case_prod_beta Let_def)
    show ?thesis
    proof (cases "ar_slot actor \<in> set (ag_dirty g)")
      case True
      then show ?thesis using take_wakers_delivers [OF s(1,3)] g'(2) by blast
    next
      case False
      then show ?thesis using s by (simp add: g' armed_def armed_dirty_def map_of_take_wakers OpNotify)
    qed
  next
    case (OpVersion a)
    then have g': "g' = fst (ag_version a g)" "ws = wake_retired (snd (snd (ag_version a g)))"
      using assms(3) by (auto simp: case_prod_beta)
    show ?thesis
    proof (cases "ar_slot a = ar_slot actor")
      case True
      with s show ?thesis
        using ag_replaced_wakes(1) [of g a s u] ag_version_same [of g a s]
        by (cases "a = actor") (simp_all add: g' wake_retired_def armed_def armed_dirty_def OpVersion)
    next
      case False
      then show ?thesis
        using s by (simp add: g' armed_def armed_dirty_def ag_version_frame OpVersion)
    qed
  next
    case (OpPoll a v w)
    then have g': "g' = fst (ag_poll ww a v w g)" "ws = wake_retired (snd (snd (ag_poll ww a v w g)))"
      using assms(3) by (auto simp: case_prod_beta)
    have "a \<noteq> actor" using assms(2) OpPoll by auto
    show ?thesis
    proof (cases "ar_slot a = ar_slot actor")
      case True
      with s \<open>a \<noteq> actor\<close> show ?thesis
        using ag_replaced_wakes(2) [of g a s u ww v w] by (simp add: g' wake_retired_def)
    next
      case False
      then show ?thesis using s by (simp add: g' armed_def armed_dirty_def ag_poll_frame OpPoll)
    qed
  qed
qed

lemma ag_run_armed:
  assumes "armed actor u g" "\<forall>x \<in> set xs. \<not> repolls actor x" "ag_run ww xs g = (g', ws)"
  shows "u \<in> set ws \<or> armed actor u g' \<and> (armed_dirty actor u g \<or> OpMark actor \<in> set xs \<longrightarrow> armed_dirty actor u g')"
  using assms
proof (induction xs arbitrary: g g' ws)
  case (Cons x xs)
  obtain g1 w1 where x: "ag_apply ww x g = (g1, w1)" by fastforce
  obtain g2 w2 where xs: "ag_run ww xs g1 = (g2, w2)" by fastforce
  have res: "g' = g2" "ws = w1 @ w2" using Cons.prems(3) by (simp_all add: x xs)
  from ag_apply_armed [OF Cons.prems(1) _ x] Cons.prems(2)
  have "u \<in> set w1 \<or> armed actor u g1 \<and> (armed_dirty actor u g \<or> x = OpMark actor \<longrightarrow> armed_dirty actor u g1)"
    by simp
  then show ?case
    using Cons.IH [OF _ _ xs] Cons.prems(2) by (auto simp: res)
qed (auto simp: armed_def armed_dirty_def)

section \<open>Properties\<close>

text \<open>C17. No lost wake-up. If a poll of an actor's activity returned \<^verbatim>\<open>Pending\<close>, then any later sequence
  of registry operations, on this or other actors, that marks the actor and afterwards notifies
  runs the registered waker, or one that \<^verbatim>\<open>will_wake\<close> it, unless the actor's observer polls
  again in between.\<close>

theorem activity_no_lost_wakeup:
  assumes "ag_poll ww actor observed w g = (g1, Pending, retd)"
    and "\<forall>x \<in> set (xs @ ys). \<not> repolls actor x" and "OpMark actor \<in> set xs"
    and "ag_run ww (xs @ OpNotify # ys) g1 = (g2, ws)"
  shows "\<exists>u \<in> set ws. u = w \<or> ww u w"
proof -
  obtain u where u: "armed actor u g1" "u = w \<or> ww u w"
    using assms(1)
    by (auto simp: ag_poll_def slot_or_insert_def put_slot_def Let_def armed_def fresh_slot_def
        split: if_splits option.splits)
  obtain ga wa where xs: "ag_run ww xs g1 = (ga, wa)" by fastforce
  obtain gb wb where n: "ag_notify_marked ga = (gb, wb)" by fastforce
  have ws: "set wa \<union> set wb \<subseteq> set ws"
  proof -
    have "ag_run ww (as @ bs) g = (let (g1, w1) = ag_run ww as g; (g2, w2) = ag_run ww bs g1 in (g2, w1 @ w2))"
      for as bs :: "'a activity_op list" and g
      by (induction as arbitrary: g) (auto simp: case_prod_beta Let_def)
    with assms(4) show ?thesis by (auto simp: xs n case_prod_beta Let_def)
  qed
  from ag_run_armed [OF u(1) _ xs] assms(2,3) have "u \<in> set wa \<or> armed_dirty actor u ga" by auto
  then have "u \<in> set wa \<union> set wb"
  proof
    assume "armed_dirty actor u ga"
    then obtain s where "map_of (ag_slots ga) (ar_slot actor) = Some s" "as_waker s = Some u"
      "ar_slot actor \<in> set (ag_dirty ga)" by (auto simp: armed_dirty_def armed_def)
    from take_wakers_delivers [OF this] n show ?thesis
      by (auto simp: ag_notify_marked_def case_prod_beta Let_def)
  qed simp
  with ws u(2) show ?thesis by blast
qed

theorem activity_no_lost_wakeup_witness:
  "\<exists>ws g2. ag_run (=) [OpMark (ActorRef 1 3 1), OpNotify]
      (fst (ag_poll (=) (ActorRef 1 3 1) 1 (7::nat) ag_new)) = (g2, ws) \<and> 7 \<in> set ws"
proof -
  let ?a = "ActorRef 1 3 1"
  obtain g1 retd where p: "ag_poll (=) ?a 1 (7::nat) ag_new = (g1, Pending, retd)"
    by (simp add: ag_poll_def slot_or_insert_def ag_new_def fresh_slot_def Let_def)
  obtain g2 ws where r: "ag_run (=) ([OpMark ?a] @ OpNotify # []) g1 = (g2, ws)" by fastforce
  from activity_no_lost_wakeup [OF p _ _ r] have "7 \<in> set ws" by simp
  with p r show ?thesis by simp
qed

end
