(* ===== verification/World_State.thy ===== *)
theory World_State
  imports
    Components
    Services
    Operations
    Publications
    Diagnostics
    Expiry
    Routing
    Readiness
    Activity
    "HOL-Library.Monad_Syntax"
begin

text \<open>
  The state of a World, \<^verbatim>\<open>crates/runtime-core/src/lib.rs\<close>: configuration, metrics, actors with their
  mailboxes, the tables of the other components, and the reads every operation is built from: handle
  resolution, the execution state along the ownership chain, activity marking
  (\<^verbatim>\<open>activity_dependencies.rs\<close>) and Python readiness (\<^verbatim>\<open>readiness.rs\<close>).

  Conventions. Every public method locks the state for its whole body, so an operation is a function
  on states. \<open>None\<close> is a panic (\<^verbatim>\<open>expect\<close>, \<^verbatim>\<open>unwrap\<close>, an index out of range) or, for the
  loops along ownership links, a chain longer than the fuel; \<open>Some (s, r)\<close> is a return with the new
  state and the result \<open>r\<close>. The fuel of a chain is the next readiness order, which bounds every chain
  because a child is always younger than its parent.

  \<^verbatim>\<open>Inner\<close> is split: \<open>inner\<close> has what never changes, and its counters, activity registry and routing
  signal are fields of the state. \<open>in_reads k\<close> is what the \<open>k\<close>-th call of \<^verbatim>\<open>clock.now()\<close> returns, for
  either kind of clock, so several readings in one operation may differ. The byte counter
  \<^verbatim>\<open>retained\<close> is the total of the live allocations: a \<^verbatim>\<open>Stored\<close> is released by the drop of its last
  handle, and \<open>st_external\<close> lists the handles callers hold outside the World.
\<close>

section \<open>Configuration and metrics\<close>

record config =
  cfg_max_actors :: nat
  cfg_mailbox_capacity :: nat
  cfg_mailbox_bytes :: nat
  cfg_native_payload_budget :: nat
  cfg_max_subscriptions :: nat
  cfg_max_event_bytes :: nat
  cfg_max_operations :: nat
  cfg_diagnostic_capacity :: nat
  cfg_max_schemas :: nat
  cfg_max_services :: nat
  cfg_max_service_leases :: nat
  cfg_max_leases_per_actor :: nat
  cfg_max_publications :: nat
  cfg_max_publications_per_source :: nat
  cfg_max_publication_fanout :: nat
  cfg_max_routing_snapshot_entries :: nat
  cfg_routing_batch_size :: nat

definition default_config :: config where
  "default_config =
     \<lparr>cfg_max_actors = 1024, cfg_mailbox_capacity = 64, cfg_mailbox_bytes = 2 ^ 20,
      cfg_native_payload_budget = 16 * 2 ^ 20, cfg_max_subscriptions = 4096,
      cfg_max_event_bytes = 2 ^ 20, cfg_max_operations = 1024, cfg_diagnostic_capacity = 1024,
      cfg_max_schemas = 128, cfg_max_services = 64, cfg_max_service_leases = 1024,
      cfg_max_leases_per_actor = 16, cfg_max_publications = 256,
      cfg_max_publications_per_source = 32, cfg_max_publication_fanout = 4096,
      cfg_max_routing_snapshot_entries = 16384, cfg_routing_batch_size = 32\<rparr>"

record metrics =
  m_publication_submitted :: nat
  m_publication_admitted :: nat
  m_publication_rejected :: nat
  m_publication_completed :: nat
  m_publication_cancelled :: nat
  m_publication_expired :: nat
  m_publication_failed :: nat
  m_submitted :: nat
  m_admitted :: nat
  m_rejected :: nat
  m_started :: nat
  m_completed :: nat
  m_failed :: nat
  m_cancelled :: nat
  m_discarded :: nat
  m_expired :: nat
  m_drain_timeouts :: nat
  m_operation_completed :: nat
  m_operation_timed_out :: nat
  m_operation_cancelled :: nat
  m_operation_late_results :: nat
  m_failures :: nat
  m_notifications_coalesced :: nat
  m_notifications_delivered :: nat
  m_notifications_discarded :: nat

definition metrics_zero :: metrics where
  "metrics_zero =
     \<lparr>m_publication_submitted = 0, m_publication_admitted = 0, m_publication_rejected = 0,
      m_publication_completed = 0, m_publication_cancelled = 0, m_publication_expired = 0,
      m_publication_failed = 0, m_submitted = 0, m_admitted = 0, m_rejected = 0, m_started = 0,
      m_completed = 0, m_failed = 0, m_cancelled = 0, m_discarded = 0, m_expired = 0,
      m_drain_timeouts = 0, m_operation_completed = 0, m_operation_timed_out = 0,
      m_operation_cancelled = 0, m_operation_late_results = 0, m_failures = 0,
      m_notifications_coalesced = 0, m_notifications_delivered = 0, m_notifications_discarded = 0\<rparr>"

section \<open>Actors and the World\<close>

record delivery =
  d_event_id :: nat
  d_envelope :: envelope
  d_payload :: stored
  d_subscription :: "nat option"
  d_operation :: "operation_id option"

record notification =
  nt_failure :: failure_record
  nt_coalesced :: nat

record actor =
  a_reference :: actor_ref
  a_ready_order :: nat
  a_kind :: endpoint_kind
  a_state :: lifecycle
  a_parent :: "actor_ref option"
  a_children :: "actor_ref list"
  a_queue :: "delivery list"
  a_queue_bytes :: nat
  a_staged :: "(nat \<times> stored \<times> nat) list"
  a_staged_bytes :: nat
  a_deadlines :: actor_deadlines
  a_in_flight :: bool
  a_control_in_flight :: bool
  a_notification :: "notification option"
  a_pending_failures :: nat
  a_reported_failure :: "nat option"
  a_native_tasks :: nat
  a_python_done :: bool
  a_drain_root :: "actor_ref option"
  a_drain_deadline :: "instant option"
  a_publication_cutoff :: "nat option"
  a_drain_timed_out :: bool
  a_errors :: nat
  a_last_error :: "failure_record option"
  a_component :: "component_descriptor option"

text \<open>\<^verbatim>\<open>RoutingSignal\<close> of \<^verbatim>\<open>publications.rs\<close>. Wakers are numbered.\<close>

record routing_signal =
  rs_dirty :: bool
  rs_waker :: "nat option"
  rs_closed :: bool

record state =
  st_actors :: "actor option list"
  st_live_actors :: nat
  st_next_ready_order :: nat
  st_python_ready :: python_ready_index
  st_event_deadlines :: deadline_index
  st_staged_actors :: "(nat \<times> actor_ref) list"
  st_drain_roots :: "(nat \<times> actor_ref) list"
  st_free :: "nat list"
  st_subs :: route_table
  st_metrics :: metrics
  st_closed :: bool
  st_operations :: operation_table
  st_publications :: publication_table
  st_diagnostics :: history
  st_next_failure :: nat
  st_failure_epoch :: instant
  st_last_error :: "failure_record option"
  st_schemas :: schema_registry
  st_interfaces :: interface_table
  st_services :: service_registry
  st_next_event :: nat
  st_next_sub :: nat
  st_activity :: "nat activity_registry"
  st_routing_signal :: routing_signal
  st_clock_reads :: nat
  st_next_addr :: nat
  st_external :: "stored list"
  st_buffer_bytes :: nat
  st_woken :: "nat list"

record inner =
  in_id :: nat
  in_cfg :: config
  in_epoch :: instant
  in_reads :: "nat \<Rightarrow> instant"
  in_will_wake :: "nat \<Rightarrow> nat \<Rightarrow> bool"

type_synonym 'a step = "(state \<times> 'a) option"
type_synonym 'a rstep = "(state \<times> 'a result) option"

text \<open>\<^verbatim>\<open>?\<close> in a method on the state.\<close>

definition try_in :: "state \<Rightarrow> 'a result \<Rightarrow> ('a \<Rightarrow> 'b rstep) \<Rightarrow> 'b rstep" where
  "try_in s r k = (case r of Inl e \<Rightarrow> Some (s, Inl e) | Inr a \<Rightarrow> k a)"

lemma try_in_simps [simp]:
  "try_in s (Inl e) k = Some (s, Inl e)"
  "try_in s (Inr a) k = k a"
  by (simp_all add: try_in_def)

abbreviation upd_metrics :: "(metrics \<Rightarrow> metrics) \<Rightarrow> state \<Rightarrow> state" where
  "upd_metrics f s \<equiv> s\<lparr>st_metrics := f (st_metrics s)\<rparr>"

text \<open>Construction, \<^verbatim>\<open>World::with_clock\<close>; \<open>world_id\<close> is what \<^verbatim>\<open>NEXT_WORLD.fetch_add(1)\<close> returns.\<close>

definition config_ok :: "config \<Rightarrow> bool" where
  "config_ok c \<longleftrightarrow>
     cfg_max_actors c \<noteq> 0 \<and> cfg_max_actors c \<le> u32_max \<and> cfg_mailbox_capacity c \<noteq> 0
     \<and> cfg_mailbox_bytes c \<noteq> 0 \<and> cfg_native_payload_budget c \<noteq> 0 \<and> cfg_max_event_bytes c \<noteq> 0
     \<and> cfg_max_operations c \<noteq> 0 \<and> cfg_max_services c \<le> 4096 \<and> cfg_max_service_leases c \<le> 65536
     \<and> cfg_max_leases_per_actor c \<le> 1024
     \<and> 1 \<le> cfg_max_publications c \<and> cfg_max_publications c \<le> 65536
     \<and> 1 \<le> cfg_max_publications_per_source c
     \<and> cfg_max_publications_per_source c \<le> cfg_max_publications c
     \<and> 1 \<le> cfg_max_publication_fanout c \<and> cfg_max_publication_fanout c \<le> 65536
     \<and> 1 \<le> cfg_max_routing_snapshot_entries c \<and> cfg_max_routing_snapshot_entries c \<le> 1048576
     \<and> 1 \<le> cfg_routing_batch_size c \<and> cfg_routing_batch_size c \<le> 4096"

definition world_new ::
  "nat \<Rightarrow> config \<Rightarrow> (nat \<Rightarrow> instant) \<Rightarrow> (nat \<Rightarrow> nat \<Rightarrow> bool) \<Rightarrow> (inner \<times> state) result" where
  "world_new world_id cfg reads will_wake =
     (if \<not> config_ok cfg then Inl InvalidConfig
      else bindR (optable_new world_id (cfg_max_operations cfg)) (\<lambda>operations.
        case sg_new (cfg_max_schemas cfg) of
          Inl e \<Rightarrow> Inl InvalidConfig
        | Inr schemas \<Rightarrow>
            (let epoch = reads 0 in
             Inr (\<lparr>in_id = world_id, in_cfg = cfg, in_epoch = epoch, in_reads = reads, in_will_wake = will_wake\<rparr>,
                  \<lparr>st_actors = [], st_live_actors = 0, st_next_ready_order = 1, st_python_ready = ri_new,
                   st_event_deadlines = di_new, st_staged_actors = [], st_drain_roots = [], st_free = [],
                   st_subs = rt_new, st_metrics = metrics_zero, st_closed = False,
                   st_operations = operations,
                   st_publications = pb_new (cfg_max_publications cfg) (cfg_max_publications_per_source cfg),
                   st_diagnostics = history_new (cfg_diagnostic_capacity cfg) epoch,
                   st_next_failure = 1, st_failure_epoch = epoch, st_last_error = None,
                   st_schemas = schemas, st_interfaces = [], st_services = sx_new,
                   st_next_event = 1, st_next_sub = 1, st_activity = ag_new,
                   st_routing_signal = \<lparr>rs_dirty = False, rs_waker = None, rs_closed = False\<rparr>,
                   st_clock_reads = 1, st_next_addr = 0, st_external = [], st_buffer_bytes = 0,
                   st_woken = []\<rparr>))))"

section \<open>Reading the clock, diagnostics\<close>

definition read_now :: "inner \<Rightarrow> state \<Rightarrow> state \<times> instant" where
  "read_now w s = (s\<lparr>st_clock_reads := st_clock_reads s + 1\<rparr>, in_reads w (st_clock_reads s))"

definition instant_ns :: "inner \<Rightarrow> instant \<Rightarrow> nat" where
  "instant_ns w i = elapsed_ns (in_epoch w) i"

text \<open>An entry that the ring drops reads no clock in the source and takes a reading here: readings are an
  arbitrary sequence, so the next one is as arbitrary as the skipped one.\<close>

definition diagnostic ::
  "inner \<Rightarrow> diagnostic_code \<Rightarrow> actor_ref option \<Rightarrow> operation_id option \<Rightarrow> state \<Rightarrow> state" where
  "diagnostic w code actor operation s =
     (let (s1, now) = read_now w s
      in s1\<lparr>st_diagnostics := history_record now code actor operation (st_diagnostics s1)\<rparr>)"

definition reject :: "inner \<Rightarrow> error \<Rightarrow> actor_ref \<Rightarrow> state \<Rightarrow> state" where
  "reject w e actor s =
     diagnostic w (code_of_error e) (Some actor) None
       (upd_metrics (\<lambda>m. m\<lparr>m_rejected := m_rejected m + 1\<rparr>) s)"

fun repeat_diagnostic ::
  "nat \<Rightarrow> inner \<Rightarrow> diagnostic_code \<Rightarrow> actor_ref option \<Rightarrow> operation_id option \<Rightarrow> state \<Rightarrow> state" where
  "repeat_diagnostic 0 w code actor operation s = s"
| "repeat_diagnostic (Suc n) w code actor operation s =
     repeat_diagnostic n w code actor operation (diagnostic w code actor operation s)"

definition world_diagnostics :: "inner \<Rightarrow> nat \<Rightarrow> nat \<Rightarrow> state \<Rightarrow> diagnostic_read result" where
  "world_diagnostics w after_sequence limit s =
     (if limit > cfg_diagnostic_capacity (in_cfg w) then Inl LimitExceeded
      else Inr (history_read after_sequence limit (st_diagnostics s)))"

section \<open>Handles\<close>

definition check_ref :: "inner \<Rightarrow> state \<Rightarrow> actor_ref \<Rightarrow> actor result" where
  "check_ref w s r =
     (if ar_world r \<noteq> in_id w then Inl CrossWorld
      else case vec_get (st_actors s) (ar_slot r) of
        Some (Some a) \<Rightarrow>
          if ar_generation (a_reference a) \<noteq> ar_generation r then Inl StaleReference else Inr a
      | _ \<Rightarrow> Inl StaleReference)"

text \<open>What \<^verbatim>\<open>check_ref_mut\<close> is used for: an update of the actor in the handle's slot.\<close>

definition upd_slot :: "nat \<Rightarrow> (actor \<Rightarrow> actor) \<Rightarrow> state \<Rightarrow> state" where
  "upd_slot i f s = s\<lparr>st_actors := (st_actors s)[i := map_option f (st_actors s ! i)]\<rparr>"

abbreviation upd_actor :: "actor_ref \<Rightarrow> (actor \<Rightarrow> actor) \<Rightarrow> state \<Rightarrow> state" where
  "upd_actor r f s \<equiv> upd_slot (ar_slot r) f s"

text \<open>\<^verbatim>\<open>check_ref_mut(..)?\<close> followed by a mutation.\<close>

definition check_upd :: "inner \<Rightarrow> actor_ref \<Rightarrow> (actor \<Rightarrow> actor) \<Rightarrow> state \<Rightarrow> state result" where
  "check_upd w r f s = bindR (check_ref w s r) (\<lambda>_. Inr (upd_actor r f s))"

definition live_at :: "state \<Rightarrow> nat \<Rightarrow> actor option" where
  "live_at s i = (case vec_get (st_actors s) i of Some (Some a) \<Rightarrow> Some a | _ \<Rightarrow> None)"

definition all_actors :: "state \<Rightarrow> actor list" where
  "all_actors s = List.map_filter (\<lambda>x. x) (st_actors s)"

section \<open>The execution state\<close>

abbreviation chain_fuel :: "state \<Rightarrow> nat" where
  "chain_fuel s \<equiv> st_next_ready_order s"

fun execution_loop :: "inner \<Rightarrow> state \<Rightarrow> nat \<Rightarrow> actor \<Rightarrow> bool \<Rightarrow> bool \<Rightarrow> lifecycle result option" where
  "execution_loop w s 0 current saw_starting saw_quiescing = None"
| "execution_loop w s (Suc fuel) current saw_starting saw_quiescing =
     (if a_state current = Stopping \<or> a_state current = Stopped then Some (Inr Stopping)
      else
        (let saw_starting = (saw_starting \<or> a_state current = Starting);
             saw_quiescing = (saw_quiescing \<or> a_state current = Quiescing)
         in case a_parent current of
              None \<Rightarrow>
                Some (Inr (if saw_quiescing then Quiescing else if saw_starting then Starting else Active))
            | Some parent \<Rightarrow>
                (case check_ref w s parent of
                   Inl e \<Rightarrow> Some (Inl e)
                 | Inr a \<Rightarrow> execution_loop w s fuel a saw_starting saw_quiescing)))"

definition execution_state_locked :: "inner \<Rightarrow> state \<Rightarrow> actor_ref \<Rightarrow> lifecycle result option" where
  "execution_state_locked w s r =
     (case check_ref w s r of
        Inl e \<Rightarrow> Some (Inl e)
      | Inr a \<Rightarrow> execution_loop w s (chain_fuel s) a False False)"

text \<open>\<^verbatim>\<open>World::state\<close> and \<^verbatim>\<open>World::execution_state\<close>.\<close>

definition world_state :: "inner \<Rightarrow> actor_ref \<Rightarrow> state \<Rightarrow> lifecycle result" where
  "world_state w r s = bindR (check_ref w s r) (\<lambda>a. Inr (a_state a))"

definition execution_state :: "inner \<Rightarrow> actor_ref \<Rightarrow> state \<Rightarrow> lifecycle result option" where
  "execution_state w r s = execution_state_locked w s r"

section \<open>Activity\<close>

fun mark_ancestors ::
  "inner \<Rightarrow> state \<Rightarrow> nat \<Rightarrow> actor_ref option \<Rightarrow> nat activity_registry \<Rightarrow> nat activity_registry option" where
  "mark_ancestors w s fuel None g = Some g"
| "mark_ancestors w s 0 (Some r) g = None"
| "mark_ancestors w s (Suc fuel) (Some r) g =
     (case check_ref w s r of
        Inl e \<Rightarrow> Some g
      | Inr a \<Rightarrow> mark_ancestors w s fuel (a_parent a) (ag_mark r g))"

text \<open>The routes of a draining producer: their targets' chains are marked if they drain too.\<close>

fun mark_routes ::
  "inner \<Rightarrow> state \<Rightarrow> nat list \<Rightarrow> nat activity_registry \<Rightarrow> nat activity_registry option" where
  "mark_routes w s [] g = Some g"
| "mark_routes w s (n # ns) g =
     (case rt_get (st_subs s) n of
        None \<Rightarrow> None
      | Some route \<Rightarrow>
          (case check_ref w s (sub_target route) of
             Inl e \<Rightarrow> mark_routes w s ns g
           | Inr target \<Rightarrow>
               if a_state target = Quiescing
               then Option.bind (mark_ancestors w s (chain_fuel s) (Some (sub_target route)) g)
                      (mark_routes w s ns)
               else mark_routes w s ns g))"

fun mark_dependents ::
  "inner \<Rightarrow> state \<Rightarrow> nat \<Rightarrow> actor_ref option \<Rightarrow> nat activity_registry \<Rightarrow> nat activity_registry option" where
  "mark_dependents w s fuel None g = Some g"
| "mark_dependents w s 0 (Some r) g = None"
| "mark_dependents w s (Suc fuel) (Some r) g =
     (case check_ref w s r of
        Inl e \<Rightarrow> Some g
      | Inr a \<Rightarrow>
          Option.bind
            (if a_state a \<in> {Quiescing, Stopping, Stopped}
             then mark_routes w s (rt_source_actor_ids (st_subs s) r) (ag_mark r g)
             else Some (ag_mark r g))
            (mark_dependents w s fuel (a_parent a)))"

definition mark_activity_dependents_locked :: "inner \<Rightarrow> actor_ref \<Rightarrow> state \<Rightarrow> state option" where
  "mark_activity_dependents_locked w r s =
     map_option (\<lambda>g. s\<lparr>st_activity := g\<rparr>)
       (mark_dependents w s (chain_fuel s) (Some r) (st_activity s))"

definition mark_route_activity_locked :: "inner \<Rightarrow> sub \<Rightarrow> state \<Rightarrow> state option" where
  "mark_route_activity_locked w route s = do {
     s1 \<leftarrow> mark_activity_dependents_locked w (sub_owner route) s;
     s2 \<leftarrow> (if sub_source route \<noteq> sub_owner route
            then mark_activity_dependents_locked w (sub_source route) s1 else Some s1);
     (if sub_target route \<noteq> sub_owner route \<and> sub_target route \<noteq> sub_source route
      then mark_activity_dependents_locked w (sub_target route) s2 else Some s2)
   }"

definition mark_operation_activity_locked ::
  "inner \<Rightarrow> actor_ref \<Rightarrow> actor_ref option \<Rightarrow> state \<Rightarrow> state option" where
  "mark_operation_activity_locked w owner target s = do {
     s1 \<leftarrow> mark_activity_dependents_locked w owner s;
     (case target of
        Some t \<Rightarrow> if t \<noteq> owner then mark_activity_dependents_locked w t s1 else Some s1
      | None \<Rightarrow> Some s1)
   }"

text \<open>The recursion over owned descendants; its depth is bounded by the same fuel.\<close>

fun mark_tree :: "inner \<Rightarrow> nat \<Rightarrow> actor_ref \<Rightarrow> state \<Rightarrow> state option"
  and mark_trees :: "inner \<Rightarrow> nat \<Rightarrow> actor_ref list \<Rightarrow> state \<Rightarrow> state option" where
  "mark_tree w 0 r s = None"
| "mark_tree w (Suc fuel) r s =
     (case check_ref w s r of
        Inl e \<Rightarrow> Some s
      | Inr a \<Rightarrow> Option.bind (mark_activity_dependents_locked w r s) (mark_trees w fuel (a_children a)))"
| "mark_trees w fuel [] s = Some s"
| "mark_trees w fuel (r # rs) s = Option.bind (mark_tree w fuel r s) (mark_trees w fuel rs)"

definition mark_activity_tree_locked :: "inner \<Rightarrow> actor_ref \<Rightarrow> state \<Rightarrow> state option" where
  "mark_activity_tree_locked w r s = mark_tree w (chain_fuel s) r s"

text \<open>\<^verbatim>\<open>mark_routing_locked\<close>, \<^verbatim>\<open>wake_routing\<close> and \<^verbatim>\<open>touch_activity\<close>. A waker that runs is appended to
  \<open>st_woken\<close>; wakers run after the lock is released.\<close>

definition mark_routing_locked :: "state \<Rightarrow> state" where
  "mark_routing_locked s = s\<lparr>st_routing_signal := (st_routing_signal s)\<lparr>rs_dirty := True\<rparr>\<rparr>"

definition wake_routing :: "state \<Rightarrow> state" where
  "wake_routing s =
     (let signal = st_routing_signal s in
      if \<not> rs_dirty signal then s
      else s\<lparr>st_routing_signal := signal\<lparr>rs_dirty := False, rs_waker := None\<rparr>,
             st_woken := st_woken s @ (case rs_waker signal of None \<Rightarrow> [] | Some x \<Rightarrow> [x])\<rparr>)"

definition touch_activity :: "state \<Rightarrow> state" where
  "touch_activity s =
     (let s1 = wake_routing s; (g, wakers) = ag_notify_marked (st_activity s1)
      in s1\<lparr>st_activity := g, st_woken := st_woken s1 @ wakers\<rparr>)"

text \<open>\<^verbatim>\<open>World::activity\<close> and \<^verbatim>\<open>World::poll_activity\<close>: a stopping actor's poll reads the version at once.\<close>

definition world_activity :: "inner \<Rightarrow> actor_ref \<Rightarrow> state \<Rightarrow> nat rstep" where
  "world_activity w r s = try_in s (check_ref w s r) (\<lambda>_.
     let (g, v, retired) = ag_version r (st_activity s)
     in Some (s\<lparr>st_activity := g, st_woken := st_woken s @ wake_retired retired\<rparr>, v))"

definition poll_activity ::
  "inner \<Rightarrow> actor_ref \<Rightarrow> nat \<Rightarrow> nat \<Rightarrow> state \<Rightarrow> state \<times> nat result poll" where
  "poll_activity w r observed incoming s =
     (case check_ref w s r of
        Inl e \<Rightarrow> (s, Ready (Inl e))
      | Inr a \<Rightarrow>
          if a_state a \<in> {Stopping, Stopped} then
            (let (g, v, retired) = ag_version r (st_activity s)
             in (s\<lparr>st_activity := g, st_woken := st_woken s @ wake_retired retired\<rparr>, Ready v))
          else
            (let (g, p, retired) = ag_poll (in_will_wake w) r observed incoming (st_activity s)
             in (s\<lparr>st_activity := g, st_woken := st_woken s @ wake_retired retired\<rparr>, p)))"

section \<open>Python readiness\<close>

definition refresh_python_ready_locked :: "inner \<Rightarrow> actor_ref \<Rightarrow> state \<Rightarrow> state option" where
  "refresh_python_ready_locked w r s =
     (case check_ref w s r of
        Inl e \<Rightarrow> Some s
      | Inr a \<Rightarrow>
          if a_kind a \<noteq> Python then Some s
          else
            (let registered = (\<not> a_python_done a);
                 idle = (registered \<and> \<not> a_in_flight a \<and> \<not> a_control_in_flight a)
             in do {
               executable \<leftarrow> (if idle
                 then map_option (\<lambda>x. x = Inr Active \<or> x = Inr Quiescing) (execution_state_locked w s r)
                 else Some False);
               let start = (registered \<and> a_state a = Starting);
               let failure = (executable \<and> a_pending_failures a > 0);
               let delivery = (executable \<and> a_queue a \<noteq> []);
               let cleanup = (registered \<and> (a_state a = Stopping \<or> a_state a = Stopped));
               Some (s\<lparr>st_python_ready :=
                 fst (ri_set (a_ready_order a) r start failure delivery cleanup (st_python_ready s))\<rparr>)
             }))"

fun refresh_tree :: "inner \<Rightarrow> nat \<Rightarrow> actor_ref \<Rightarrow> state \<Rightarrow> state option"
  and refresh_trees :: "inner \<Rightarrow> nat \<Rightarrow> actor_ref list \<Rightarrow> state \<Rightarrow> state option" where
  "refresh_tree w 0 r s = None"
| "refresh_tree w (Suc fuel) r s =
     (case check_ref w s r of
        Inl e \<Rightarrow> Some s
      | Inr a \<Rightarrow> Option.bind (refresh_python_ready_locked w r s) (refresh_trees w fuel (a_children a)))"
| "refresh_trees w fuel [] s = Some s"
| "refresh_trees w fuel (r # rs) s = Option.bind (refresh_tree w fuel r s) (refresh_trees w fuel rs)"

definition refresh_python_subtree_locked :: "inner \<Rightarrow> actor_ref \<Rightarrow> state \<Rightarrow> state option" where
  "refresh_python_subtree_locked w r s = refresh_tree w (chain_fuel s) r s"

definition python_ready_cutoff :: "state \<Rightarrow> nat" where
  "python_ready_cutoff s = st_next_ready_order s - 1"

definition python_ready_next ::
  "python_ready_phase \<Rightarrow> nat option \<Rightarrow> nat \<Rightarrow> state \<Rightarrow> (nat \<times> actor_ref) option" where
  "python_ready_next phase after through s = ri_next (st_python_ready s) phase after through"

section \<open>Operations and events of the World\<close>

definition complete_operation_locked ::
  "inner \<Rightarrow> operation_id \<Rightarrow> terminal_outcome \<Rightarrow> state \<Rightarrow> bool rstep" where
  "complete_operation_locked w oid outcome s =
     try_in s (op_participants (st_operations s) oid) (\<lambda>(owner, target).
       let (t, r) = op_complete oid outcome (st_operations s); s1 = s\<lparr>st_operations := t\<rparr>
       in try_in s1 r (\<lambda>changed.
            if changed
            then map_option (\<lambda>s2. (s2, Inr True)) (mark_operation_activity_locked w owner target s1)
            else Some (s1, Inr False)))"

definition expire_operation_locked ::
  "inner \<Rightarrow> operation_id \<Rightarrow> instant \<Rightarrow> state \<Rightarrow> bool rstep" where
  "expire_operation_locked w oid now s =
     try_in s (op_participants (st_operations s) oid) (\<lambda>(owner, target).
       let (t, r) = op_expire_one oid now (st_operations s); s1 = s\<lparr>st_operations := t\<rparr>
       in try_in s1 r (\<lambda>changed.
            if changed
            then map_option (\<lambda>s2. (s2, Inr True)) (mark_operation_activity_locked w owner target s1)
            else Some (s1, Inr False)))"

text \<open>\<^verbatim>\<open>next_event.fetch_update(.., checked_add(1))\<close>: the old value, unless the counter is exhausted.\<close>

definition next_event_id :: "state \<Rightarrow> state \<times> nat result" where
  "next_event_id s =
     (case checked_add u64_max (st_next_event s) 1 of
        None \<Rightarrow> (s, Inl LimitExceeded)
      | Some n \<Rightarrow> (s\<lparr>st_next_event := n\<rparr>, Inr (st_next_event s)))"

definition check_deadline :: "message_options \<Rightarrow> instant \<Rightarrow> unit result" where
  "check_deadline opts now =
     (case mo_deadline opts of
        None \<Rightarrow> Inr ()
      | Some d \<Rightarrow> if d \<le> now then Inl DeadlineExpired else Inr ())"

definition validate_source :: "inner \<Rightarrow> message_options \<Rightarrow> bool \<Rightarrow> state \<Rightarrow> unit result option" where
  "validate_source w opts allow_pending s =
     (case options_validate opts of
        Inl e \<Rightarrow> Some (Inl e)
      | Inr _ \<Rightarrow>
          (case mo_source opts of
             None \<Rightarrow> Some (Inr ())
           | Some source \<Rightarrow>
               map_option (\<lambda>x. bindR x (\<lambda>l.
                 if l = Active then Inr ()
                 else if (l = Starting \<or> l = Quiescing) \<and> allow_pending then Inr ()
                 else if l = Starting then Inl ActorNotReady
                 else Inl ActorStopped)) (execution_state_locked w s source)))"

definition world_schema_identity :: "payload \<Rightarrow> state \<Rightarrow> schema_identity result" where
  "world_schema_identity p s =
     (case p of
        Pulse _ \<Rightarrow> Inr \<lparr>si_kind = PulseKind, si_id = 0, si_version = 1\<rparr>
      | CountSnapshot _ _ \<Rightarrow> Inr \<lparr>si_kind = CountSnapshotKind, si_id = 0, si_version = 1\<rparr>
      | Record schema _ _ \<Rightarrow> Inr \<lparr>si_kind = RecordKind, si_id = schema, si_version = 0\<rparr>
      | Structured r \<Rightarrow>
          (case sg_schema (st_schemas s) (sr_schema r) of
             Inl e \<Rightarrow> Inl SchemaMismatch
           | Inr d \<Rightarrow> Inr \<lparr>si_kind = StructuredKind, si_id = sr_schema r, si_version = sc_version d\<rparr>))"

text \<open>\<^verbatim>\<open>iter().position(..)\<close>\<close>

fun position :: "('a \<Rightarrow> bool) \<Rightarrow> 'a list \<Rightarrow> nat option" where
  "position P [] = None"
| "position P (x # xs) = (if P x then Some 0 else map_option Suc (position P xs))"

definition accepts_input :: "payload \<Rightarrow> port_spec \<Rightarrow> bool" where
  "accepts_input p port \<longleftrightarrow> ps_direction port = Input \<and> pt_matches (ps_schema port) p"

definition envelope_for ::
  "inner \<Rightarrow> actor_ref \<Rightarrow> stored \<Rightarrow> nat option \<Rightarrow> nat \<Rightarrow> instant \<Rightarrow> state \<Rightarrow> envelope result" where
  "envelope_for w target st subscription event_id now s =
     bindR (check_ref w s target) (\<lambda>actor.
       let destination_port = map_option (PortRef target)
             (option_or
               (Option.bind (Option.bind subscription (rt_get (st_subs s))) sub_target_port)
               (Option.bind (a_component actor) (\<lambda>c. position (accepts_input (s_payload st)) (cd_ports c))))
       in bindR (world_schema_identity (s_payload st) s) (\<lambda>schema.
            Inr \<lparr>en_event_id = event_id, en_schema = schema, en_source = mo_source (s_options st),
                 en_destination = target, en_dispatcher = s_dispatcher st,
                 en_destination_port = destination_port, en_owner = target, en_enqueued_at = now,
                 en_deadline = mo_deadline (s_options st),
                 en_correlation_id = mo_correlation_id (s_options st),
                 en_causation_id = mo_causation_id (s_options st), en_trace = mo_trace (s_options st)\<rparr>))"

section \<open>Retained bytes\<close>

definition actor_stored :: "actor \<Rightarrow> stored list" where
  "actor_stored a = map d_payload (a_queue a) @ map (\<lambda>(_, st, _). st) (a_staged a)"

fun entry_stored :: "op_entry \<Rightarrow> stored list" where
  "entry_stored (OpPending p) = (case po_context p of None \<Rightarrow> [] | Some h \<Rightarrow> [hp_stored h])"
| "entry_stored (OpTerminal (Completed h)) = [hp_stored h]"
| "entry_stored (OpTerminal _) = []"

definition operations_stored :: "operation_table \<Rightarrow> stored list" where
  "operations_stored t = concat (map (\<lambda>e. case e of None \<Rightarrow> [] | Some x \<Rightarrow> entry_stored x) (ot_slots t))"

definition publications_stored :: "publication_table \<Rightarrow> stored list" where
  "publications_stored t = map (pu_stored \<circ> snd) (pb_entries t)"

text \<open>Every live allocation once, and the value of the byte counter.\<close>

definition live_stored :: "state \<Rightarrow> stored list" where
  "live_stored s = remdups (st_external s @ concat (map actor_stored (all_actors s))
     @ operations_stored (st_operations s) @ publications_stored (st_publications s))"

definition retained :: "state \<Rightarrow> nat" where
  "retained s = st_buffer_bytes s + sum_list (map s_bytes (live_stored s))"

definition drop_handle :: "stored \<Rightarrow> state \<Rightarrow> state" where
  "drop_handle st s = s\<lparr>st_external := remove1 st (st_external s)\<rparr>"

end
