(* ===== verification/World_Messaging.thy ===== *)
theory World_Messaging
  imports World_State
begin

text \<open>
  The message path of \<^verbatim>\<open>crates/runtime-core/src/lib.rs\<close>, \<^verbatim>\<open>envelope_runtime.rs\<close> and
  \<^verbatim>\<open>publications.rs\<close>: payload reservation, admission to a mailbox, direct sends, request/response
  operations, publication and batched routing, expiry, and the claim of a delivery.
\<close>

section \<open>Payloads\<close>

definition reserve :: "inner \<Rightarrow> nat \<Rightarrow> state \<Rightarrow> unit result" where
  "reserve w n s =
     (if n > cfg_native_payload_budget (in_cfg w) - retained s then Inl BudgetExceeded else Inr ())"

fun payload_crosses :: "nat \<Rightarrow> payload \<Rightarrow> bool" where
  "payload_crosses world (Structured r) = (sr_world r \<noteq> world)"
| "payload_crosses world _ = False"

definition make_stored_with ::
  "inner \<Rightarrow> payload \<Rightarrow> message_options \<Rightarrow> port_ref option \<Rightarrow> state \<Rightarrow> state \<times> stored result" where
  "make_stored_with w p opts dispatcher s =
     (case bindR (options_validate opts) (\<lambda>_.
             if (case mo_source opts of None \<Rightarrow> False | Some source \<Rightarrow> ar_world source \<noteq> in_id w)
             then Inl CrossWorld
             else if payload_crosses (in_id w) p then Inl CrossWorld
             else bindR (ok_or LimitExceeded (checked_add usize_max (payload_bytes p) (charged_bytes opts))) (\<lambda>n.
               if n > cfg_max_event_bytes (in_cfg w) then Inl LimitExceeded
               else bindR (reserve w n s) (\<lambda>_. Inr n))) of
        Inl e \<Rightarrow> (s, Inl e)
      | Inr n \<Rightarrow>
          (s\<lparr>st_next_addr := st_next_addr s + 1\<rparr>,
           Inr \<lparr>s_addr = st_next_addr s, s_payload = p, s_options = opts, s_dispatcher = dispatcher,
                s_bytes = n\<rparr>))"

text \<open>\<^verbatim>\<open>World::structured\<close>: canonical bytes become a payload of this World.\<close>

definition world_structured :: "inner \<Rightarrow> nat \<Rightarrow> bytes \<Rightarrow> state \<Rightarrow> payload sresult" where
  "world_structured w sid bs s =
     (if saturating_add usize_max (length bs) 4 > cfg_max_event_bytes (in_cfg w)
      then Inl (serr ''event exceeds configured byte limit'')
      else bindR (sg_schema (st_schemas s) sid) (\<lambda>descriptor.
           bindR (validate_registered_bytes descriptor bs) (\<lambda>_.
             Inr (Structured \<lparr>sr_world = in_id w, sr_schema = sid, sr_bytes = bs\<rparr>))))"

definition register_schemas :: "schema list \<Rightarrow> state \<Rightarrow> state \<times> nat list sresult" where
  "register_schemas schemas s =
     (if st_closed s \<and> \<not> list_ex (\<lambda>a. a_state a = Quiescing \<or> a_in_flight a) (all_actors s)
      then (s, Inl (serr ''World is closed''))
      else (let (g, r) = register_batch schemas (st_schemas s) in (s\<lparr>st_schemas := g\<rparr>, r)))"

definition hold_with :: "inner \<Rightarrow> payload \<Rightarrow> message_options \<Rightarrow> state \<Rightarrow> held_payload rstep" where
  "hold_with w p opts s =
     (if st_closed s then Some (s, Inl ActorStopped)
      else do {
        v \<leftarrow> validate_source w opts True s;
        try_in s v (\<lambda>_.
          let (s1, now) = read_now w s
          in try_in s1 (check_deadline opts now) (\<lambda>_.
               let (s2, r) = make_stored_with w p opts None s1
               in try_in s2 r (\<lambda>st.
                    Some (s2\<lparr>st_external := st # st_external s2\<rparr>,
                          Inr \<lparr>hp_stored = st, hp_world = in_id w, hp_envelope = None\<rparr>))))
      })"

section \<open>Admission\<close>

definition admission_error :: "lifecycle \<Rightarrow> actor \<Rightarrow> error" where
  "admission_error execution a =
     (if execution = Starting \<or> a_state a = Starting then ActorNotReady else ActorStopped)"

definition push_delivery :: "delivery \<Rightarrow> actor \<Rightarrow> actor" where
  "push_delivery d a =
     a\<lparr>a_queue_bytes := a_queue_bytes a + s_bytes (d_payload d),
       a_deadlines := adl_add (en_deadline (d_envelope d)) (a_deadlines a),
       a_queue := a_queue a @ [d]\<rparr>"

text \<open>\<^verbatim>\<open>let earliest = actor.deadlines.first(); state.event_deadlines.set(actor, earliest)\<close>\<close>

definition sync_deadline :: "actor_ref \<Rightarrow> state \<Rightarrow> state" where
  "sync_deadline r s =
     (case live_at s (ar_slot r) of
        None \<Rightarrow> s
      | Some a \<Rightarrow> s\<lparr>st_event_deadlines := di_set r (adl_first (a_deadlines a)) (st_event_deadlines s)\<rparr>)"

text \<open>What the target must satisfy, in the order the source tests it.\<close>

definition mailbox_check :: "inner \<Rightarrow> lifecycle \<Rightarrow> actor \<Rightarrow> stored \<Rightarrow> bool \<Rightarrow> unit result" where
  "mailbox_check w execution a st completion =
     (if execution \<noteq> Active \<and> \<not> (completion \<and> execution = Quiescing)
      then Inl (admission_error execution a)
      else if (case a_component a of None \<Rightarrow> False
               | Some c \<Rightarrow> \<not> list_ex (accepts_input (s_payload st)) (cd_ports c))
      then Inl SchemaMismatch
      else if length (a_queue a) \<ge> cfg_mailbox_capacity (in_cfg w)
           \<or> a_queue_bytes a + s_bytes st > cfg_mailbox_bytes (in_cfg w)
      then Inl QueueFull
      else Inr ())"

definition admit ::
  "inner \<Rightarrow> actor_ref \<Rightarrow> stored \<Rightarrow> nat option \<Rightarrow> bool \<Rightarrow> operation_id option \<Rightarrow> state \<Rightarrow> nat rstep" where
  "admit w r st sub completion operation s =
     (let (s1, now) = read_now w s
      in try_in s1 (check_deadline (s_options st) now) (\<lambda>_. do {
        v \<leftarrow> validate_source w (s_options st) completion s1;
        try_in s1 v (\<lambda>_.
          let (s2, i) = next_event_id s1
          in try_in s2 i (\<lambda>event_id.
             try_in s2 (envelope_for w r st sub event_id now s2) (\<lambda>env. do {
               x \<leftarrow> execution_state_locked w s2 r;
               try_in s2 x (\<lambda>execution.
               try_in s2 (check_ref w s2 r) (\<lambda>a.
               try_in s2 (mailbox_check w execution a st completion) (\<lambda>_.
                 let env' = (if operation \<noteq> None \<and> en_correlation_id env = None
                             then env\<lparr>en_correlation_id := Some event_id\<rparr> else env);
                     d = \<lparr>d_event_id = event_id, d_envelope = env', d_payload = st,
                          d_subscription = sub, d_operation = operation\<rparr>;
                     s3 = sync_deadline r (upd_actor r (push_delivery d) s2)
                 in do {
                   s4 \<leftarrow> refresh_python_ready_locked w r s3;
                   s5 \<leftarrow> mark_activity_dependents_locked w r
                          (upd_metrics (\<lambda>m. m\<lparr>m_admitted := m_admitted m + 1\<rparr>) s4);
                   Some (s5, Inr event_id)
                 })))
             })))
      }))"

text \<open>\<^verbatim>\<open>Err(e) => { self.reject(..); return Err(e) }\<close>\<close>

definition or_reject :: "inner \<Rightarrow> actor_ref \<Rightarrow> state \<times> 'a result \<Rightarrow> state \<times> 'a result" where
  "or_reject w actor = (\<lambda>(s, r). case r of Inl e \<Rightarrow> (reject w e actor s, Inl e) | Inr a \<Rightarrow> (s, Inr a))"

text \<open>\<^verbatim>\<open>touch_activity\<close> after a success only, and after every return (the \<^verbatim>\<open>ActivityChange\<close> guard).\<close>

definition touch_ok :: "state \<times> 'a result \<Rightarrow> state \<times> 'a result" where
  "touch_ok = (\<lambda>(s, r). if is_ok r then (touch_activity s, r) else (s, r))"

definition touch_all :: "state \<times> 'a \<Rightarrow> state \<times> 'a" where
  "touch_all = (\<lambda>(s, r). (touch_activity s, r))"

abbreviation count_submitted :: "state \<Rightarrow> state" where
  "count_submitted s \<equiv> upd_metrics (\<lambda>m. m\<lparr>m_submitted := m_submitted m + 1\<rparr>) s"

definition send_with :: "inner \<Rightarrow> actor_ref \<Rightarrow> payload \<Rightarrow> message_options \<Rightarrow> state \<Rightarrow> nat rstep" where
  "send_with w r p opts s =
     (let (s1, m) = make_stored_with w p opts None (count_submitted s)
      in case m of
           Inl e \<Rightarrow> Some (reject w e r s1, Inl e)
         | Inr st \<Rightarrow> map_option (touch_ok \<circ> or_reject w r) (admit w r st None False None s1))"

text \<open>\<^verbatim>\<open>send_held\<close> and \<^verbatim>\<open>send_held_from\<close> consume the caller's handle.\<close>

definition send_held :: "inner \<Rightarrow> actor_ref \<Rightarrow> held_payload \<Rightarrow> state \<Rightarrow> nat rstep" where
  "send_held w r held s =
     (let s1 = count_submitted s
      in map_option (\<lambda>(s', x). (drop_handle (hp_stored held) s', x))
         (if hp_world held \<noteq> in_id w then Some (reject w CrossWorld r s1, Inl CrossWorld)
          else map_option (touch_ok \<circ> or_reject w r) (admit w r (hp_stored held) None False None s1)))"

definition send_held_from ::
  "inner \<Rightarrow> actor_ref \<Rightarrow> actor_ref \<Rightarrow> held_payload \<Rightarrow> state \<Rightarrow> nat rstep" where
  "send_held_from w owner target held s =
     (let s1 = count_submitted s
      in map_option (\<lambda>(s', x). (drop_handle (hp_stored held) s', x))
         (if hp_world held \<noteq> in_id w then Some (reject w CrossWorld target s1, Inl CrossWorld)
          else case check_ref w s1 owner of
            Inl e \<Rightarrow> Some (reject w e owner s1, Inl e)
          | Inr a \<Rightarrow>
              if a_state a \<noteq> Active then Some (reject w ActorStopped owner s1, Inl ActorStopped)
              else do {
                x \<leftarrow> execution_state_locked w s1 owner;
                try_in s1 x (\<lambda>execution.
                  if execution \<noteq> Active then Some (reject w ActorStopped owner s1, Inl ActorStopped)
                  else map_option (touch_ok \<circ> or_reject w target)
                         (admit w target (hp_stored held) None False None s1))
              }))"

section \<open>Requests\<close>

text \<open>\<^verbatim>\<open>queue.back_mut().expect(..).envelope.destination_port = Some(port)\<close>\<close>

definition set_back_port :: "port_ref \<Rightarrow> actor \<Rightarrow> actor" where
  "set_back_port port a =
     a\<lparr>a_queue := butlast (a_queue a) @
        [(last (a_queue a))\<lparr>d_envelope := (d_envelope (last (a_queue a)))\<lparr>en_destination_port := Some port\<rparr>\<rparr>]\<rparr>"

text \<open>The same after \<^verbatim>\<open>check_ref_mut(..)?\<close>; an empty queue panics.\<close>

definition address_back :: "inner \<Rightarrow> actor_ref \<Rightarrow> port_ref \<Rightarrow> state \<Rightarrow> state result option" where
  "address_back w r p s =
     (case check_ref w s r of
        Inl e \<Rightarrow> Some (Inl e)
      | Inr a \<Rightarrow> if a_queue a = [] then None else Some (Inr (upd_actor r (set_back_port p) s)))"

text \<open>The tail of \<^verbatim>\<open>request_with_port\<close> once the event is in the target's queue.\<close>

definition bind_request ::
  "inner \<Rightarrow> actor_ref \<Rightarrow> actor_ref \<Rightarrow> operation_id \<Rightarrow> stored \<Rightarrow> port_ref option \<Rightarrow> state \<Rightarrow> operation_id rstep" where
  "bind_request w owner target oid st destination_port s = do {
     x \<leftarrow> (case destination_port of None \<Rightarrow> Some (Inr s) | Some p \<Rightarrow> address_back w target p s);
     try_in s x (\<lambda>s1.
     try_in s1 (check_ref w s1 target) (\<lambda>a.
       if a_queue a = [] then None
       else
         (let env = d_envelope (last (a_queue a));
              (t, r) = op_set_context oid
                 \<lparr>hp_stored = st, hp_world = in_id w, hp_envelope = Some env\<rparr> (st_operations s1);
              s2 = s1\<lparr>st_operations := t\<rparr>
          in try_in s2 r (\<lambda>_.
               map_option (\<lambda>s3. (s3, Inr oid)) (mark_activity_dependents_locked w owner s2)))))
   }"

definition release_unsubmitted :: "operation_id \<Rightarrow> state \<Rightarrow> state" where
  "release_unsubmitted oid s = s\<lparr>st_operations := fst (op_release_unsubmitted oid (st_operations s))\<rparr>"

definition request_options :: "actor_ref \<Rightarrow> instant \<Rightarrow> message_options \<Rightarrow> message_options" where
  "request_options owner deadline opts =
     opts\<lparr>mo_source := Some owner,
          mo_deadline := Some (case mo_deadline opts of None \<Rightarrow> deadline | Some other \<Rightarrow> min other deadline)\<rparr>"

text \<open>The locked part: both ends Active, an operation slot, the payload, admission, the context.\<close>

definition request_locked ::
  "inner \<Rightarrow> actor_ref \<Rightarrow> actor_ref \<Rightarrow> payload \<Rightarrow> message_options \<Rightarrow> port_ref option \<Rightarrow> state \<Rightarrow>
   operation_id rstep" where
  "request_locked w owner target p opts destination_port s = do {
     x \<leftarrow> execution_state_locked w s owner;
     (case x of Inl e \<Rightarrow> Some (reject w e owner s, Inl e)
      | Inr owner_ready \<Rightarrow> do {
          y \<leftarrow> execution_state_locked w s target;
          (case y of Inl e \<Rightarrow> Some (reject w e target s, Inl e)
           | Inr target_ready \<Rightarrow>
               if owner_ready \<noteq> Active \<or> target_ready \<noteq> Active
               then Some (reject w ActorNotReady target s, Inl ActorNotReady)
               else
                 (let (t, rid) = op_reserve owner target (the (mo_deadline opts)) (st_operations s);
                      s1 = s\<lparr>st_operations := t\<rparr>
                  in case rid of
                       Inl e \<Rightarrow> Some (reject w e owner s1, Inl e)
                     | Inr oid \<Rightarrow>
                         (let (s2, m) = make_stored_with w p opts None s1
                          in case m of
                               Inl e \<Rightarrow> Some (reject w e target (release_unsubmitted oid s2), Inl e)
                             | Inr st \<Rightarrow> do {
                                 (s3, ev) \<leftarrow> admit w target st None False (Some oid) s2;
                                 (case ev of
                                    Inl e \<Rightarrow> Some (reject w e target (release_unsubmitted oid s3), Inl e)
                                  | Inr _ \<Rightarrow> bind_request w owner target oid st destination_port s3)
                               })))
        })
   }"

definition request_with_port ::
  "inner \<Rightarrow> actor_ref \<Rightarrow> actor_ref \<Rightarrow> payload \<Rightarrow> instant \<Rightarrow> message_options \<Rightarrow> port_ref option \<Rightarrow> state \<Rightarrow>
   operation_id rstep" where
  "request_with_port w owner target p deadline opts destination_port s =
     map_option touch_all
       (if (case mo_source opts of None \<Rightarrow> False | Some source \<Rightarrow> source \<noteq> owner)
        then Some (s, Inl InvalidMetadata)
        else request_locked w owner target p (request_options owner deadline opts) destination_port
               (count_submitted s))"

section \<open>Completion\<close>

definition count_timed_out :: "inner \<Rightarrow> actor_ref option \<Rightarrow> operation_id \<Rightarrow> state \<Rightarrow> state" where
  "count_timed_out w actor oid s =
     diagnostic w DCOperationTimedOut actor (Some oid)
       (upd_metrics (\<lambda>m. m\<lparr>m_operation_timed_out := m_operation_timed_out m + 1\<rparr>) s)"

definition count_late :: "inner \<Rightarrow> actor_ref \<Rightarrow> operation_id \<Rightarrow> state \<Rightarrow> state" where
  "count_late w target oid s =
     diagnostic w DCOperationLateResult (Some target) (Some oid)
       (upd_metrics (\<lambda>m. m\<lparr>m_operation_late_results := m_operation_late_results m + 1\<rparr>) s)"

abbreviation count_completed :: "state \<Rightarrow> state" where
  "count_completed s \<equiv> upd_metrics (\<lambda>m. m\<lparr>m_operation_completed := m_operation_completed m + 1\<rparr>) s"

text \<open>\<^verbatim>\<open>if self.expire_operation_locked(id, now, ..).unwrap_or(false) { count and record }\<close>\<close>

definition expire_and_count ::
  "inner \<Rightarrow> actor_ref option \<Rightarrow> operation_id \<Rightarrow> instant \<Rightarrow> state \<Rightarrow> state option" where
  "expire_and_count w actor oid now s =
     map_option (\<lambda>(s1, r). if unwrap_or False r then count_timed_out w actor oid s1 else s1)
       (expire_operation_locked w oid now s)"

text \<open>\<^verbatim>\<open>if self.complete_operation_locked(id, TimedOut, ..)? { count and record } return Ok(false)\<close>\<close>

definition time_out_result :: "inner \<Rightarrow> actor_ref \<Rightarrow> operation_id \<Rightarrow> state \<Rightarrow> bool rstep" where
  "time_out_result w target oid s = do {
     (s1, r) \<leftarrow> complete_operation_locked w oid TimedOut s;
     try_in s1 r (\<lambda>won. Some (if won then count_timed_out w (Some target) oid s1 else s1, Inr False))
   }"

definition result_too_large :: terminal_outcome where
  "result_too_large = Failed ResultTooLarge ''operation result exceeds configured budget''"

definition handler_failed :: terminal_outcome where
  "handler_failed = Failed HandlerFailed ''operation handler failed''"

text \<open>The result's metadata: inherited from the request, overridden by the caller.\<close>

definition result_metadata ::
  "pending_operation \<Rightarrow> actor_ref \<Rightarrow> message_options option \<Rightarrow> message_options result" where
  "result_metadata pending target options =
     (let inherited = (case Option.bind (po_context pending) hp_envelope of
                         None \<Rightarrow> default_options | Some e \<Rightarrow> child_options e target)
      in bindR (case options of
                  None \<Rightarrow> Inr inherited
                | Some opts \<Rightarrow> bindR (options_validate opts) (\<lambda>_.
                    if (case mo_source opts of None \<Rightarrow> False | Some source \<Rightarrow> source \<noteq> target)
                    then Inl InvalidMetadata
                    else Inr (merge_options inherited opts)))
           (\<lambda>m. Inr (m\<lparr>mo_source := Some target\<rparr>)))"

definition finish_result ::
  "inner \<Rightarrow> operation_id \<Rightarrow> actor_ref \<Rightarrow> held_payload \<Rightarrow> state \<Rightarrow> bool rstep" where
  "finish_result w oid target result s =
     (let (s1, now) = read_now w s
      in if \<not> is_ok (check_deadline (s_options (hp_stored result)) now)
         then time_out_result w target oid s1
         else do {
           (s2, r) \<leftarrow> complete_operation_locked w oid (Completed result) s1;
           try_in s2 r (\<lambda>won.
             Some (if won then count_completed s2 else count_late w target oid s2, Inr won))
         })"

definition settle_result ::
  "inner \<Rightarrow> operation_id \<Rightarrow> actor_ref \<Rightarrow> pending_operation \<Rightarrow> payload \<Rightarrow> message_options \<Rightarrow> state \<Rightarrow> bool rstep" where
  "settle_result w oid target pending p metadata s =
     (let (s1, now) = read_now w s
      in if \<not> is_ok (check_deadline metadata now) then time_out_result w target oid s1
         else
           (let (s2, m) = make_stored_with w p metadata None s1
            in case m of
                 Inl _ \<Rightarrow> do {
                   (s3, r) \<leftarrow> complete_operation_locked w oid result_too_large s2;
                   try_in s3 r (\<lambda>won. Some (if won then count_completed s3 else s3, Inr won))
                 }
               | Inr st \<Rightarrow>
                   (let (s3, ev) = next_event_id s2
                    in try_in s3 ev (\<lambda>event_id.
                         let (s4, now4) = read_now w s3
                         in try_in s4 (envelope_for w (po_owner pending) st None event_id now4 s4) (\<lambda>env.
                              finish_result w oid target
                                \<lparr>hp_stored = st, hp_world = in_id w, hp_envelope = Some env\<rparr> s4)))))"

definition running :: "lifecycle \<Rightarrow> bool" where
  "running l \<longleftrightarrow> l = Active \<or> l = Quiescing"

definition complete_operation_with ::
  "inner \<Rightarrow> operation_id \<Rightarrow> actor_ref \<Rightarrow> payload \<Rightarrow> message_options option \<Rightarrow> state \<Rightarrow> bool rstep" where
  "complete_operation_with w oid target p options s =
     map_option touch_all
       (let (s0, now) = read_now w s
        in do {
          s1 \<leftarrow> expire_and_count w (Some target) oid now s0;
          (case op_status (st_operations s1) oid of
             Inr (OpTerminal _) \<Rightarrow> Some (count_late w target oid s1, Inr False)
           | Inl e \<Rightarrow>
               if e = StaleReference then Some (count_late w target oid s1, Inr False)
               else Some (s1, Inl e)
           | Inr (OpPending pending) \<Rightarrow>
               if po_target pending \<noteq> target then Some (s1, Inl StaleReference)
               else do {
                 x \<leftarrow> execution_state_locked w s1 (po_owner pending);
                 try_in s1 x (\<lambda>owner_state.
                   if \<not> running owner_state then Some (s1, Inl ActorStopped)
                   else do {
                     y \<leftarrow> execution_state_locked w s1 target;
                     try_in s1 y (\<lambda>target_state.
                       if \<not> running target_state then Some (s1, Inl ActorStopped)
                       else try_in s1 (result_metadata pending target options) (\<lambda>metadata.
                              settle_result w oid target pending p metadata s1))
                   })
               })
        })"

definition cancel_operation :: "inner \<Rightarrow> operation_id \<Rightarrow> state \<Rightarrow> bool rstep" where
  "cancel_operation w oid s =
     map_option touch_all (do {
       (s1, r) \<leftarrow> complete_operation_locked w oid Cancelled s;
       try_in s1 r (\<lambda>won.
         Some (if won then upd_metrics (\<lambda>m. m\<lparr>m_operation_cancelled := m_operation_cancelled m + 1\<rparr>) s1 else s1,
               Inr won))
     })"

text \<open>The caller of \<^verbatim>\<open>operation_status\<close> receives a clone, of \<^verbatim>\<open>take_operation\<close> the outcome itself: its
  payload handle leaves the table and is held outside.\<close>

definition operation_status :: "operation_id \<Rightarrow> state \<Rightarrow> state \<times> op_entry result" where
  "operation_status oid s =
     (case op_status (st_operations s) oid of
        Inl e \<Rightarrow> (s, Inl e)
      | Inr e \<Rightarrow> (s\<lparr>st_external := entry_stored e @ st_external s\<rparr>, Inr e))"

definition take_operation :: "inner \<Rightarrow> operation_id \<Rightarrow> state \<Rightarrow> terminal_outcome option rstep" where
  "take_operation w oid s =
     map_option touch_all (try_in s (op_participants (st_operations s) oid) (\<lambda>(owner, _).
       let (t, r) = op_take oid (st_operations s); s1 = s\<lparr>st_operations := t\<rparr>
       in try_in s1 r (\<lambda>x.
            case x of
              None \<Rightarrow> Some (s1, Inr None)
            | Some outcome \<Rightarrow>
                map_option (\<lambda>s2. (s2, Inr (Some outcome)))
                  (mark_activity_dependents_locked w owner
                    (s1\<lparr>st_external := entry_stored (OpTerminal outcome) @ st_external s1\<rparr>)))))"

end
