(* ===== verification/World_Routing.thy ===== *)
theory World_Routing
  imports World_Messaging
begin

text \<open>
  Subscriptions, publication and batched fan-out (\<^verbatim>\<open>lib.rs\<close>, \<^verbatim>\<open>publications.rs\<close>), queue and
  publication expiry (\<^verbatim>\<open>envelope_runtime.rs\<close>), staged publications (\<^verbatim>\<open>components.rs\<close>), and the
  claim of a delivery.
\<close>

section \<open>Subscriptions\<close>

text \<open>\<^verbatim>\<open>next_sub.fetch_add(1)\<close> wraps.\<close>

definition fetch_sub_id :: "state \<Rightarrow> state \<times> nat" where
  "fetch_sub_id s = (s\<lparr>st_next_sub := wrapping_add u64_max (st_next_sub s) 1\<rparr>, st_next_sub s)"

definition insert_route :: "inner \<Rightarrow> sub \<Rightarrow> state \<Rightarrow> (state \<times> nat) option" where
  "insert_route w route s =
     (let (s1, n) = fetch_sub_id s;
          s2 = s1\<lparr>st_subs := rt_insert n route (st_subs s1)\<rparr>
      in map_option (\<lambda>s3. (s3, n)) (mark_route_activity_locked w route s2))"

definition open_state :: "lifecycle \<Rightarrow> bool" where
  "open_state l \<longleftrightarrow> l = Starting \<or> l = Active"

definition subscribe :: "inner \<Rightarrow> actor_ref \<Rightarrow> actor_ref \<Rightarrow> state \<Rightarrow> nat rstep" where
  "subscribe w source target s =
     try_in s (check_ref w s source) (\<lambda>sa.
     try_in s (check_ref w s target) (\<lambda>ta.
       if \<not> open_state (a_state sa) \<or> \<not> open_state (a_state ta) then Some (s, Inl ActorStopped)
       else if rt_active_len (st_subs s) \<ge> cfg_max_subscriptions (in_cfg w) then Some (s, Inl LimitExceeded)
       else if source_target_exists (st_subs s) source target then Some (s, Inl DuplicateSubscription)
       else map_option (\<lambda>(s1, n). (touch_activity s1, Inr n))
              (insert_route w \<lparr>sub_owner = source, sub_source = source, sub_target = target,
                 sub_source_port = None, sub_target_port = None\<rparr> s)))"

definition unsubscribe :: "inner \<Rightarrow> nat \<Rightarrow> state \<Rightarrow> unit rstep" where
  "unsubscribe w n s =
     (let (t, removed) = rt_remove n (st_subs s); s1 = s\<lparr>st_subs := t\<rparr>
      in try_in s1 (ok_or NotFound removed) (\<lambda>route.
           map_option (\<lambda>s2. (touch_activity s2, Inr ())) (mark_route_activity_locked w route s1)))"

section \<open>Publications\<close>

definition enqueue_publication_locked :: "inner \<Rightarrow> nat \<Rightarrow> state \<Rightarrow> state option" where
  "enqueue_publication_locked w n s =
     (case bm_get (pb_entries (st_publications s)) n of
        None \<Rightarrow> Some s
      | Some p \<Rightarrow>
          map_option mark_routing_locked
            (mark_activity_dependents_locked w (pu_source p)
              (s\<lparr>st_publications := pb_enqueue n (st_publications s)\<rparr>)))"

text \<open>A failed submission drops the ticket it reserved, and a reserved payload with it.\<close>

definition abandon_ticket :: "nat \<Rightarrow> state \<Rightarrow> state" where
  "abandon_ticket n s = s\<lparr>st_publications := pb_drop_ticket n (st_publications s)\<rparr>"

definition stage_publication :: "nat \<Rightarrow> stored \<Rightarrow> nat \<Rightarrow> actor \<Rightarrow> actor" where
  "stage_publication port st n a =
     a\<lparr>a_staged_bytes := a_staged_bytes a + s_bytes st,
       a_deadlines := adl_add (mo_deadline (s_options st)) (a_deadlines a),
       a_staged := a_staged a @ [(port, st, n)]\<rparr>"

definition submit_publication_locked ::
  "inner \<Rightarrow> actor_ref \<Rightarrow> nat option \<Rightarrow> payload \<Rightarrow> message_options \<Rightarrow> bool \<Rightarrow> state \<Rightarrow> nat rstep" where
  "submit_publication_locked w source source_port p opts completion s = do {
     x \<leftarrow> execution_state_locked w s source;
     try_in s x (\<lambda>execution.
       let staged = (execution = Starting);
           (t, rt) = pb_reserve source staged (st_publications s);
           s1 = s\<lparr>st_publications := t\<rparr>
       in try_in s1 rt (\<lambda>ticket.
          let (s2, m) = make_stored_with w p opts (map_option (PortRef source) source_port) s1
          in case m of
               Inl e \<Rightarrow> Some (abandon_ticket ticket s2, Inl e)
             | Inr st \<Rightarrow> do {
                 (s3, c) \<leftarrow>
                   (if \<not> staged then Some (s2, Inr ())
                    else case check_ref w s2 source of
                      Inl e \<Rightarrow> Some (s2, Inl e)
                    | Inr a \<Rightarrow>
                        if length (a_staged a) \<ge> cfg_mailbox_capacity (in_cfg w)
                           \<or> s_bytes st > cfg_mailbox_bytes (in_cfg w) - a_staged_bytes a
                        then Some (s2, Inl QueueFull)
                        else (case source_port of
                                None \<Rightarrow> None
                              | Some port \<Rightarrow>
                                  (let s' = sync_deadline source
                                              (upd_actor source (stage_publication port st ticket) s2)
                                   in Some (s'\<lparr>st_staged_actors :=
                                              bm_insert (ar_slot source) source (st_staged_actors s')\<rparr>, Inr ()))));
                 (case c of
                    Inl e \<Rightarrow> Some (abandon_ticket ticket s3, Inl e)
                  | Inr _ \<Rightarrow>
                      (let publication = \<lparr>pu_source = source, pu_source_port = source_port, pu_stored = st,
                             pu_staged = staged, pu_completion = completion, pu_ticket = ticket,
                             pu_routes = None, pu_cursor = 0,
                             pu_report = empty_report\<lparr>rp_staged := (if staged then 1 else 0)\<rparr>\<rparr>;
                           s4 = upd_metrics (\<lambda>m. m\<lparr>m_publication_admitted := m_publication_admitted m + 1\<rparr>)
                                  (s3\<lparr>st_publications := pb_insert publication (st_publications s3)\<rparr>)
                       in do {
                         s5 \<leftarrow> mark_activity_dependents_locked w source s4;
                         Some (if staged then s5 else mark_routing_locked s5, Inr ticket)
                       }))
               }))
   }"

definition count_publication :: "publication_outcome \<Rightarrow> metrics \<Rightarrow> metrics" where
  "count_publication outcome m =
     (case outcome of
        PubRouted \<Rightarrow> m\<lparr>m_publication_completed := m_publication_completed m + 1\<rparr>
      | PubExpired \<Rightarrow> m\<lparr>m_publication_expired := m_publication_expired m + 1\<rparr>
      | PubFanoutLimit \<Rightarrow> m\<lparr>m_publication_failed := m_publication_failed m + 1\<rparr>
      | PubSnapshotFull \<Rightarrow> m\<lparr>m_publication_failed := m_publication_failed m + 1\<rparr>
      | _ \<Rightarrow> m\<lparr>m_publication_cancelled := m_publication_cancelled m + 1\<rparr>)"

definition finish_publication_locked ::
  "inner \<Rightarrow> publication \<Rightarrow> publication_outcome \<Rightarrow> state \<Rightarrow> state option" where
  "finish_publication_locked w p outcome s =
     (let remaining = (if pu_routes p = None then 0 else rp_matched (pu_report p) - pu_cursor p);
          report = (pu_report p)\<lparr>rp_outcome := outcome, rp_rejected := rp_rejected (pu_report p) + remaining\<rparr>;
          s1 = upd_metrics (\<lambda>m. count_publication outcome (m\<lparr>m_rejected := m_rejected m + remaining\<rparr>))
                 (s\<lparr>st_publications := pb_finish (p\<lparr>pu_report := report\<rparr>) (st_publications s)\<rparr>)
      in map_option (\<lambda>s2. if pb_ready (st_publications s2) \<noteq> [] then mark_routing_locked s2 else s2)
           (mark_activity_dependents_locked w (pu_source p) s1))"

definition cancel_publication_locked ::
  "inner \<Rightarrow> nat \<Rightarrow> publication_outcome \<Rightarrow> state \<Rightarrow> state option" where
  "cancel_publication_locked w n outcome s =
     (case bm_get (pb_entries (st_publications s)) n of
        None \<Rightarrow> Some s
      | Some p \<Rightarrow>
          finish_publication_locked w p outcome
            (s\<lparr>st_publications := (st_publications s)
                 \<lparr>pb_entries := bm_remove n (pb_entries (st_publications s))\<rparr>\<rparr>))"

fun cancel_publications ::
  "inner \<Rightarrow> nat list \<Rightarrow> publication_outcome \<Rightarrow> state \<Rightarrow> state option" where
  "cancel_publications w [] outcome s = Some s"
| "cancel_publications w (n # ns) outcome s =
     Option.bind (cancel_publication_locked w n outcome s) (cancel_publications w ns outcome)"

definition cancel_source_publications_locked :: "inner \<Rightarrow> actor_ref \<Rightarrow> state \<Rightarrow> state option" where
  "cancel_source_publications_locked w source s =
     cancel_publications w (deque_of (st_publications s) source) PubCancelled s"

definition expire_publications_locked :: "inner \<Rightarrow> instant \<Rightarrow> state \<Rightarrow> state option" where
  "expire_publications_locked w now s =
     cancel_publications w
       (map snd (takeWhile (\<lambda>(deadline, _). deadline \<le> now) (pb_deadlines (st_publications s))))
       PubExpired s"

section \<open>Expiry\<close>

definition due :: "instant \<Rightarrow> instant option \<Rightarrow> bool" where
  "due now deadline = (case deadline of None \<Rightarrow> False | Some d \<Rightarrow> d \<le> now)"

definition count_expired :: "nat \<Rightarrow> state \<Rightarrow> state" where
  "count_expired n s =
     upd_metrics (\<lambda>m. m\<lparr>m_expired := m_expired m + n, m_cancelled := m_cancelled m + n,
       m_discarded := m_discarded m + n\<rparr>) s"

definition expire_delivery_locked :: "inner \<Rightarrow> delivery \<Rightarrow> instant \<Rightarrow> state \<Rightarrow> state option" where
  "expire_delivery_locked w d now s =
     (let s1 = count_expired 1 s;
          (s2, at) = read_now w s1;
          s3 = s2\<lparr>st_diagnostics :=
                 record_event at (DCError DeadlineExpired) (d_envelope d) (d_operation d) (st_diagnostics s2)\<rparr>
      in case d_operation d of
           None \<Rightarrow> Some s3
         | Some oid \<Rightarrow> expire_and_count w (Some (en_destination (d_envelope d))) oid now s3)"

definition remove_deadline :: "instant option \<Rightarrow> nat \<Rightarrow> state \<Rightarrow> state option" where
  "remove_deadline deadline i s =
     (case live_at s i of
        None \<Rightarrow> None
      | Some a \<Rightarrow>
          map_option (\<lambda>ds. upd_slot i (\<lambda>a. a\<lparr>a_deadlines := ds\<rparr>) s) (adl_remove deadline (a_deadlines a)))"

text \<open>\<^verbatim>\<open>queue.retain(..)\<close> and \<^verbatim>\<open>actor.staged.retain(..)\<close>: each due entry, in order, gives up its deadline
  reference and is accounted for; the others are kept. The source scans the queue outside the actor,
  which nothing reads meanwhile.\<close>

definition due_delivery :: "instant \<Rightarrow> delivery \<Rightarrow> bool" where
  "due_delivery now d = due now (en_deadline (d_envelope d))"

definition due_staged :: "instant \<Rightarrow> nat \<times> stored \<times> nat \<Rightarrow> bool" where
  "due_staged now = (\<lambda>(_, st, _). due now (mo_deadline (s_options st)))"

definition delivery_bytes :: "delivery list \<Rightarrow> nat" where
  "delivery_bytes ds = sum_list (map (s_bytes \<circ> d_payload) ds)"

definition staged_entry_bytes :: "(nat \<times> stored \<times> nat) list \<Rightarrow> nat" where
  "staged_entry_bytes xs = sum_list (map (\<lambda>(_, st, _). s_bytes st) xs)"

fun expire_deliveries :: "inner \<Rightarrow> instant \<Rightarrow> nat \<Rightarrow> delivery list \<Rightarrow> state \<Rightarrow> state option" where
  "expire_deliveries w now i [] s = Some s"
| "expire_deliveries w now i (d # ds) s = do {
     s1 \<leftarrow> remove_deadline (en_deadline (d_envelope d)) i s;
     s2 \<leftarrow> expire_delivery_locked w d now s1;
     expire_deliveries w now i ds s2
   }"

definition keep_queue :: "instant \<Rightarrow> actor \<Rightarrow> actor" where
  "keep_queue now a =
     a\<lparr>a_queue := filter (\<lambda>d. \<not> due_delivery now d) (a_queue a),
       a_queue_bytes := a_queue_bytes a - delivery_bytes (filter (due_delivery now) (a_queue a))\<rparr>"

fun remove_staged_deadlines :: "(nat \<times> stored \<times> nat) list \<Rightarrow> actor_deadlines \<Rightarrow> actor_deadlines option" where
  "remove_staged_deadlines [] ds = Some ds"
| "remove_staged_deadlines ((port, st, n) # rest) ds =
     Option.bind (adl_remove (mo_deadline (s_options st)) ds) (remove_staged_deadlines rest)"

definition keep_staged :: "instant \<Rightarrow> actor_deadlines \<Rightarrow> actor \<Rightarrow> actor" where
  "keep_staged now ds a =
     a\<lparr>a_staged := filter (\<lambda>x. \<not> due_staged now x) (a_staged a),
       a_staged_bytes := a_staged_bytes a - staged_entry_bytes (filter (due_staged now) (a_staged a)),
       a_deadlines := ds\<rparr>"

definition expire_actor_events :: "inner \<Rightarrow> instant \<Rightarrow> actor_ref \<Rightarrow> state \<Rightarrow> state option" where
  "expire_actor_events w now owner s =
     (case check_ref w s owner of
        Inl e \<Rightarrow> None
      | Inr a \<Rightarrow> do {
          let i = ar_slot owner;
          s1 \<leftarrow> expire_deliveries w now i (filter (due_delivery now) (a_queue a)) s;
          let s2 = upd_slot i (keep_queue now) s1;
          a2 \<leftarrow> live_at s2 i;
          let expired = filter (due_staged now) (a_staged a2);
          ds \<leftarrow> remove_staged_deadlines expired (a_deadlines a2);
          let s3 = sync_deadline owner (upd_slot i (keep_staged now ds) s2);
          let s4 = (if list_all (due_staged now) (a_staged a2)
                    then s3\<lparr>st_staged_actors := bm_remove (ar_slot owner) (st_staged_actors s3)\<rparr> else s3);
          s5 \<leftarrow> cancel_publications w (map (\<lambda>(_, _, n). n) expired) PubExpired s4;
          s6 \<leftarrow> mark_activity_dependents_locked w owner s5;
          s7 \<leftarrow> refresh_python_ready_locked w owner s6;
          Some (repeat_diagnostic (length expired) w (DCError DeadlineExpired) (Some owner) None
                  (count_expired (length expired) s7))
        })"

fun expire_owners :: "inner \<Rightarrow> instant \<Rightarrow> actor_ref list \<Rightarrow> state \<Rightarrow> state option" where
  "expire_owners w now [] s = Some s"
| "expire_owners w now (r # rs) s = Option.bind (expire_actor_events w now r s) (expire_owners w now rs)"

definition expire_events_locked :: "inner \<Rightarrow> instant \<Rightarrow> state \<Rightarrow> state option" where
  "expire_events_locked w now s =
     (let (di, owners) = di_take_due now (st_event_deadlines s)
      in expire_owners w now owners (s\<lparr>st_event_deadlines := di\<rparr>))"

section \<open>Staged publications\<close>

fun enqueue_publications :: "inner \<Rightarrow> nat list \<Rightarrow> state \<Rightarrow> state option" where
  "enqueue_publications w [] s = Some s"
| "enqueue_publications w (n # ns) s =
     Option.bind (enqueue_publication_locked w n s) (enqueue_publications w ns)"

definition flush_source :: "inner \<Rightarrow> actor_ref \<Rightarrow> state \<Rightarrow> state option" where
  "flush_source w source s =
     (case check_ref w s source of
        Inl e \<Rightarrow> None
      | Inr a \<Rightarrow> do {
          ds \<leftarrow> remove_staged_deadlines (a_staged a) (a_deadlines a);
          let s1 = sync_deadline source
                (upd_actor source (\<lambda>a. a\<lparr>a_staged := [], a_staged_bytes := 0, a_deadlines := ds\<rparr>) s);
          let s2 = s1\<lparr>st_staged_actors := bm_remove (ar_slot source) (st_staged_actors s1)\<rparr>;
          s3 \<leftarrow> enqueue_publications w (map (\<lambda>(_, _, n). n) (a_staged a)) s2;
          mark_activity_dependents_locked w source s3
        })"

fun flush_sources :: "inner \<Rightarrow> actor_ref list \<Rightarrow> state \<Rightarrow> state option" where
  "flush_sources w [] s = Some s"
| "flush_sources w (r # rs) s = Option.bind (flush_source w r s) (flush_sources w rs)"

text \<open>The sources whose execution state is Active; \<open>None\<close> only when a chain outruns the fuel.\<close>

fun active_sources :: "inner \<Rightarrow> state \<Rightarrow> actor_ref list \<Rightarrow> actor_ref list option" where
  "active_sources w s [] = Some []"
| "active_sources w s (r # rs) = do {
     x \<leftarrow> execution_state_locked w s r;
     rest \<leftarrow> active_sources w s rs;
     Some (if x = Inr Active then r # rest else rest)
   }"

definition flush_staged_locked :: "inner \<Rightarrow> state \<Rightarrow> state option" where
  "flush_staged_locked w s = do {
     let (s0, now) = read_now w s;
     s1 \<leftarrow> expire_events_locked w now s0;
     sources \<leftarrow> active_sources w s1 (map snd (st_staged_actors s1));
     flush_sources w sources s1
   }"

section \<open>Publishing\<close>

definition port_locked :: "inner \<Rightarrow> port_ref \<Rightarrow> state \<Rightarrow> port_spec result" where
  "port_locked w port s =
     bindR (check_ref w s (pr_owner port)) (\<lambda>a.
       ok_or InvalidPort (Option.bind (a_component a) (\<lambda>c. vec_get (cd_ports c) (pr_index port))))"

text \<open>\<^verbatim>\<open>while current != owner\<close>: the source must belong to the completion owner's subtree.\<close>

fun owned_by :: "inner \<Rightarrow> state \<Rightarrow> nat \<Rightarrow> actor_ref \<Rightarrow> actor_ref \<Rightarrow> unit result option" where
  "owned_by w s fuel owner current =
     (if current = owner then Some (Inr ())
      else case fuel of
        0 \<Rightarrow> None
      | Suc n \<Rightarrow>
          (case check_ref w s current of
             Inl e \<Rightarrow> Some (Inl e)
           | Inr a \<Rightarrow>
               (case a_parent a of
                  None \<Rightarrow> Some (Inl CrossWorld)
                | Some parent \<Rightarrow> owned_by w s n owner parent)))"

declare owned_by.simps [simp del]

definition completion_check ::
  "inner \<Rightarrow> actor_ref option \<Rightarrow> actor_ref \<Rightarrow> state \<Rightarrow> unit result option" where
  "completion_check w completion_owner source s =
     (case completion_owner of
        None \<Rightarrow> Some (Inr ())
      | Some owner \<Rightarrow> do {
          x \<leftarrow> execution_state_locked w s owner;
          (case x of
             Inl e \<Rightarrow> Some (Inl e)
           | Inr l \<Rightarrow> if \<not> running l then Some (Inl ActorStopped)
                      else owned_by w s (Suc (chain_fuel s)) owner source)
        })"

text \<open>The closure of \<^verbatim>\<open>publish_internal\<close>.\<close>

definition publish_body ::
  "inner \<Rightarrow> actor_ref \<Rightarrow> payload \<Rightarrow> actor_ref option \<Rightarrow> nat option \<Rightarrow> message_options \<Rightarrow> state \<Rightarrow> nat rstep" where
  "publish_body w source p completion_owner source_port opts s =
     (if (case mo_source opts of None \<Rightarrow> False | Some owner \<Rightarrow> owner \<noteq> source)
      then Some (s, Inl InvalidMetadata)
      else
        (let opts' = opts\<lparr>mo_source := Some source\<rparr> in do {
          v \<leftarrow> validate_source w opts' True s;
          try_in s v (\<lambda>_.
            let (s1, now) = read_now w s
            in try_in s1 (check_deadline opts' now) (\<lambda>_.
               if payload_crosses (in_id w) p then Some (s1, Inl CrossWorld)
               else try_in s1
                 (case source_port of
                    None \<Rightarrow> Inr ()
                  | Some index \<Rightarrow> bindR (port_locked w (PortRef source index) s1) (\<lambda>spec.
                      if ps_direction spec \<noteq> Output \<or> \<not> pt_matches (ps_schema spec) p
                      then Inl SchemaMismatch else Inr ())) (\<lambda>_. do {
                 x \<leftarrow> execution_state_locked w s1 source;
                 try_in s1 x (\<lambda>execution.
                   let staged = (execution = Starting \<and> completion_owner = None \<and> source_port \<noteq> None)
                   in if \<not> staged \<and> execution \<noteq> Active
                         \<and> \<not> (completion_owner \<noteq> None \<and> execution = Quiescing)
                      then Some (s1, Inl ActorNotReady)
                      else do {
                        c \<leftarrow> completion_check w completion_owner source s1;
                        try_in s1 c (\<lambda>_.
                          submit_publication_locked w source source_port p opts'
                            (completion_owner \<noteq> None) s1)
                      })
               })))
        }))"

definition publish_internal ::
  "inner \<Rightarrow> actor_ref \<Rightarrow> payload \<Rightarrow> actor_ref option \<Rightarrow> nat option \<Rightarrow> message_options \<Rightarrow> state \<Rightarrow> nat rstep" where
  "publish_internal w source p completion_owner source_port opts s =
     map_option touch_all (do {
       (s1, r) \<leftarrow> publish_body w source p completion_owner source_port opts
         (upd_metrics (\<lambda>m. m\<lparr>m_publication_submitted := m_publication_submitted m + 1,
            m_submitted := m_submitted m + 1\<rparr>) s);
       Some (case r of
               Inl e \<Rightarrow> (reject w e source
                 (upd_metrics (\<lambda>m. m\<lparr>m_publication_rejected := m_publication_rejected m + 1\<rparr>) s1), Inl e)
             | Inr n \<Rightarrow> (s1, Inr n))
     })"

definition publish_with :: "inner \<Rightarrow> actor_ref \<Rightarrow> payload \<Rightarrow> message_options \<Rightarrow> state \<Rightarrow> nat rstep" where
  "publish_with w source p opts s = publish_internal w source p None None opts s"

section \<open>Routing\<close>

record routing_progress =
  pg_destinations :: nat
  pg_publications :: nat
  pg_pending :: nat
  pg_ready :: bool

text \<open>The closure for one destination.\<close>

definition route_one :: "inner \<Rightarrow> publication \<Rightarrow> nat \<Rightarrow> actor_ref \<Rightarrow> state \<Rightarrow> nat rstep" where
  "route_one w p route target s =
     try_in s (ok_or NotFound (rt_get (st_subs s) route)) (\<lambda>sub. do {
       x \<leftarrow> execution_state_locked w s (sub_owner sub);
       try_in s x (\<lambda>owner_state.
         if owner_state = Starting then Some (s, Inl ActorNotReady)
         else if \<not> running owner_state then Some (s, Inl ActorStopped)
         else try_in s (check_ref w s target) (\<lambda>target_actor. do {
           y \<leftarrow> execution_state_locked w s target;
           try_in s y (\<lambda>target_state.
             if target_state = Quiescing \<and> \<not> pu_completion p
                \<and> (case a_publication_cutoff target_actor of None \<Rightarrow> True | Some cutoff \<Rightarrow> pu_ticket p > cutoff)
             then Some (s, Inl ActorStopped)
             else admit w target (pu_stored p) (Some route) True None s)
         }))
     })"

text \<open>The destination loop, at most \<open>fuel\<close> = \<^verbatim>\<open>routing_batch_size\<close> attempts.\<close>

fun route_loop ::
  "inner \<Rightarrow> (nat \<times> actor_ref) list \<Rightarrow> nat \<Rightarrow> publication \<Rightarrow> nat \<Rightarrow> state \<Rightarrow>
   (state \<times> publication \<times> nat \<times> publication_outcome option) option" where
  "route_loop w routes 0 p destinations s = Some (s, p, destinations, None)"
| "route_loop w routes (Suc fuel) p destinations s =
     (if pu_cursor p \<ge> length routes then Some (s, p, destinations, None)
      else
        (let (s1, now) = read_now w s
         in if \<not> is_ok (check_deadline (s_options (pu_stored p)) now)
            then Some (s1, p, destinations, Some PubExpired)
            else
              (let (route, target) = routes ! pu_cursor p;
                   p1 = p\<lparr>pu_cursor := pu_cursor p + 1\<rparr>
               in do {
                 (s2, r) \<leftarrow> route_one w p1 route target s1;
                 (case r of
                    Inr _ \<Rightarrow>
                      route_loop w routes fuel
                        (p1\<lparr>pu_report := (pu_report p1)\<lparr>rp_admitted := rp_admitted (pu_report p1) + 1\<rparr>\<rparr>)
                        (destinations + 1) s2
                  | Inl e \<Rightarrow>
                      route_loop w routes fuel
                        (p1\<lparr>pu_report := (pu_report p1)\<lparr>rp_rejected := rp_rejected (pu_report p1) + 1\<rparr>\<rparr>)
                        (destinations + 1) (reject w e target s2))
               })))"

text \<open>The target of each route in the snapshot; \<open>None\<close> is \<^verbatim>\<open>expect("indexed route")\<close>.\<close>

fun route_targets :: "route_table \<Rightarrow> nat list \<Rightarrow> (nat \<times> actor_ref) list option" where
  "route_targets t [] = Some []"
| "route_targets t (n # ns) = do {
     route \<leftarrow> rt_get t n;
     rest \<leftarrow> route_targets t ns;
     Some ((n, sub_target route) # rest)
   }"

text \<open>The checks before the loop: source and deadline, then the route snapshot under its limits.\<close>

definition route_prepare ::
  "inner \<Rightarrow> actor_ref \<Rightarrow> publication \<Rightarrow> state \<Rightarrow> (state \<times> publication \<times> publication_outcome option) option" where
  "route_prepare w source p s = do {
     x \<leftarrow> execution_state_locked w s source;
     (if \<not> (x = Inr Active \<or> x = Inr Quiescing) then Some (s, p, Some PubCancelled)
      else
        (let (s1, now) = read_now w s
         in if \<not> is_ok (check_deadline (s_options (pu_stored p)) now) then Some (s1, p, Some PubExpired)
            else if pu_routes p \<noteq> None then Some (s1, p, None)
            else
              (let count = rt_source_count (st_subs s1) source (pu_source_port p)
               in if count > cfg_max_publication_fanout (in_cfg w) then Some (s1, p, Some PubFanoutLimit)
                  else if count > cfg_max_routing_snapshot_entries (in_cfg w)
                         - pb_snapshot_entries (st_publications s1)
                  then Some (s1, p, Some PubSnapshotFull)
                  else do {
                    routes \<leftarrow> route_targets (st_subs s1) (rt_source_ids (st_subs s1) source (pu_source_port p));
                    Some (s1\<lparr>st_publications := (st_publications s1)
                              \<lparr>pb_snapshot_entries := pb_snapshot_entries (st_publications s1) + count\<rparr>\<rparr>,
                          p\<lparr>pu_routes := Some routes, pu_report := (pu_report p)\<lparr>rp_matched := count\<rparr>\<rparr>, None)
                  })))
   }"

definition route_batch :: "inner \<Rightarrow> state \<Rightarrow> routing_progress step" where
  "route_batch w s =
     map_option touch_all
     (case pb_pop_ready (st_publications s) of
        None \<Rightarrow>
          Some (s, \<lparr>pg_destinations = 0, pg_publications = 0,
                    pg_pending = pb_pending (st_publications s), pg_ready = False\<rparr>)
      | Some None \<Rightarrow> None
      | Some (Some (source, p, t)) \<Rightarrow> do {
          (s1, p1, outcome1) \<leftarrow> route_prepare w source p (s\<lparr>st_publications := t\<rparr>);
          (s2, p2, destinations, outcome) \<leftarrow>
            (if outcome1 \<noteq> None then Some (s1, p1, 0, outcome1)
             else do {
               routes \<leftarrow> pu_routes p1;
               (s', p', n, oc) \<leftarrow> route_loop w routes (cfg_routing_batch_size (in_cfg w)) p1 0 s1;
               Some (s', p', n, if pu_cursor p' = length routes \<and> oc = None then Some PubRouted else oc)
             });
          s3 \<leftarrow> (case outcome of
                  Some oc \<Rightarrow> finish_publication_locked w p2 oc s2
                | None \<Rightarrow> Some (s2\<lparr>st_publications := pb_requeue p2 (st_publications s2)\<rparr>));
          Some (s3, \<lparr>pg_destinations = destinations,
                     pg_publications = (if outcome \<noteq> None then 1 else 0),
                     pg_pending = pb_pending (st_publications s3),
                     pg_ready = (pb_ready (st_publications s3) \<noteq> [])\<rparr>)
        })"

text \<open>\<^verbatim>\<open>poll_routing_ready\<close>; \<open>incoming\<close> is the caller's waker. A displaced waker is dropped, not run.\<close>

definition poll_routing_ready :: "nat \<Rightarrow> state \<Rightarrow> state \<times> unit result poll" where
  "poll_routing_ready incoming s =
     (let signal = st_routing_signal s in
      if rs_closed signal
      then (s\<lparr>st_routing_signal := signal\<lparr>rs_waker := None\<rparr>\<rparr>, Ready (Inl ActorStopped))
      else if pb_ready (st_publications s) \<noteq> [] then (s, Ready (Inr ()))
      else (s\<lparr>st_routing_signal := signal\<lparr>rs_waker := Some incoming\<rparr>\<rparr>, Pending))"

definition close_routing_locked :: "state \<Rightarrow> state" where
  "close_routing_locked s =
     s\<lparr>st_routing_signal := (st_routing_signal s)\<lparr>rs_closed := True, rs_dirty := True\<rparr>\<rparr>"

definition routing_pending :: "state \<Rightarrow> nat" where
  "routing_pending s = pb_pending (st_publications s)"

definition routing_ready :: "state \<Rightarrow> bool" where
  "routing_ready s \<longleftrightarrow> pb_ready (st_publications s) \<noteq> []"

section \<open>Claiming a delivery\<close>

text \<open>\<^verbatim>\<open>DeliveryLease\<close>: the claimed delivery, whose payload handle is outside the World until the lease
  ends.\<close>

record delivery_lease =
  dl_target :: actor_ref
  dl_operation :: "operation_id option"
  dl_delivery :: delivery

abbreviation count_cancelled :: "nat \<Rightarrow> state \<Rightarrow> state" where
  "count_cancelled n s \<equiv> upd_metrics (\<lambda>m. m\<lparr>m_cancelled := m_cancelled m + n\<rparr>) s"

definition op_is_pending :: "state \<Rightarrow> operation_id \<Rightarrow> bool" where
  "op_is_pending s oid = (case op_status (st_operations s) oid of Inr (OpPending _) \<Rightarrow> True | _ \<Rightarrow> False)"

definition pop_delivery :: "actor_ref \<Rightarrow> delivery \<Rightarrow> delivery list \<Rightarrow> state \<Rightarrow> state option" where
  "pop_delivery r d rest s =
     map_option (sync_deadline r)
       (remove_deadline (en_deadline (d_envelope d)) (ar_slot r)
         (upd_actor r (\<lambda>a. a\<lparr>a_queue := rest, a_queue_bytes := a_queue_bytes a - s_bytes (d_payload d)\<rparr>) s))"

text \<open>One popped delivery: discarded (\<open>False\<close>) or to be handed out.\<close>

definition screen_delivery :: "inner \<Rightarrow> actor_ref \<Rightarrow> delivery \<Rightarrow> state \<Rightarrow> bool step" where
  "screen_delivery w r d s = do {
     let (s1, now) = read_now w s;
     (if due now (en_deadline (d_envelope d))
      then map_option (\<lambda>s2. (s2, False)) (expire_delivery_locked w d now s1)
      else do {
        (s3, pending) \<leftarrow>
          (case d_operation d of
             None \<Rightarrow> Some (s1, True)
           | Some oid \<Rightarrow> do {
               let (s2, now2) = read_now w s1;
               s3 \<leftarrow> expire_and_count w (Some r) oid now2 s2;
               Some (s3, op_is_pending s3 oid)
             });
        (if \<not> pending then Some (count_cancelled 1 s3, False)
         else if (case d_subscription d of None \<Rightarrow> True | Some n \<Rightarrow> rt_contains_active (st_subs s3) n)
         then Some (s3, True)
         else Some (count_cancelled 1 s3, False))
      })
   }"

fun claim_loop :: "inner \<Rightarrow> actor_ref \<Rightarrow> nat \<Rightarrow> state \<Rightarrow> delivery_lease option rstep" where
  "claim_loop w r 0 s = None"
| "claim_loop w r (Suc fuel) s =
     try_in s (check_ref w s r) (\<lambda>a.
       case a_queue a of
         [] \<Rightarrow> Some (s, Inr None)
       | d # rest \<Rightarrow> do {
           s1 \<leftarrow> pop_delivery r d rest s;
           s2 \<leftarrow> refresh_python_ready_locked w r s1;
           s3 \<leftarrow> mark_activity_dependents_locked w r s2;
           (s4, keep) \<leftarrow> screen_delivery w r d s3;
           (if \<not> keep then claim_loop w r fuel s4
            else try_in s4 (check_upd w r (\<lambda>a. a\<lparr>a_in_flight := True\<rparr>) s4) (\<lambda>s5. do {
              s6 \<leftarrow> refresh_python_ready_locked w r s5;
              let s7 = upd_metrics (\<lambda>m. m\<lparr>m_started := m_started m + 1\<rparr>) s6;
              Some (s7\<lparr>st_external := d_payload d # st_external s7\<rparr>,
                    Inr (Some \<lparr>dl_target = r, dl_operation = d_operation d, dl_delivery = d\<rparr>))
            }))
         })"

definition claim :: "inner \<Rightarrow> actor_ref \<Rightarrow> state \<Rightarrow> delivery_lease option rstep" where
  "claim w r s =
     map_option touch_all
       (try_in s (check_ref w s r) (\<lambda>a. do {
          x \<leftarrow> execution_state_locked w s r;
          try_in s x (\<lambda>execution.
            if \<not> running execution \<or> a_in_flight a \<or> a_control_in_flight a then Some (s, Inr None)
            else claim_loop w r (Suc (length (a_queue a))) s)
        }))"

end
