(* ===== verification/World_Lifecycle.thy ===== *)
theory World_Lifecycle
  imports World_Routing
begin

text \<open>
  Ownership and shutdown, \<^verbatim>\<open>lib.rs\<close>, \<^verbatim>\<open>shutdown.rs\<close>, \<^verbatim>\<open>services.rs\<close> and \<^verbatim>\<open>supervision.rs\<close>: allocation
  and activation of actors, the stop fence over an ownership subtree, finalisation up the tree, drain
  under a deadline, maintenance, close, and the shutdown reports.
\<close>

section \<open>Allocation and activation\<close>

text \<open>The depth check of \<^verbatim>\<open>allocate_locked\<close>: at most 128 ancestors.\<close>

fun depth_loop :: "inner \<Rightarrow> state \<Rightarrow> nat \<Rightarrow> nat \<Rightarrow> actor_ref option \<Rightarrow> unit result option" where
  "depth_loop w s fuel depth None = Some (Inr ())"
| "depth_loop w s 0 depth (Some r) = None"
| "depth_loop w s (Suc fuel) depth (Some r) =
     (if depth + 1 > 128 then Some (Inl LimitExceeded)
      else case check_ref w s r of
        Inl e \<Rightarrow> Some (Inl e)
      | Inr a \<Rightarrow> depth_loop w s fuel (depth + 1) (a_parent a))"

definition parent_check :: "inner \<Rightarrow> actor_ref option \<Rightarrow> state \<Rightarrow> unit result option" where
  "parent_check w parent s =
     (case parent of
        None \<Rightarrow> Some (Inr ())
      | Some p \<Rightarrow>
          (case check_ref w s p of
             Inl e \<Rightarrow> Some (Inl e)
           | Inr pa \<Rightarrow>
               if \<not> open_state (a_state pa) then Some (Inl ActorStopped)
               else depth_loop w s (chain_fuel s) 1 (a_parent pa)))"

definition new_actor :: "actor_ref \<Rightarrow> nat \<Rightarrow> endpoint_kind \<Rightarrow> actor_ref option \<Rightarrow> actor" where
  "new_actor r order kind parent =
     \<lparr>a_reference = r, a_ready_order = order, a_kind = kind, a_state = Starting, a_parent = parent,
      a_children = [], a_queue = [], a_queue_bytes = 0, a_staged = [], a_staged_bytes = 0,
      a_deadlines = adl_new, a_in_flight = False, a_control_in_flight = False,
      a_notification = None, a_pending_failures = 0, a_reported_failure = None,
      a_native_tasks = 0, a_python_done = (kind = Native), a_drain_root = None,
      a_drain_deadline = None, a_publication_cutoff = None, a_drain_timed_out = False,
      a_errors = 0, a_last_error = None, a_component = None\<rparr>"

text \<open>The slot: the top of the free stack, or a new one. The generation is one more than the slot's
  last; the source's \<^verbatim>\<open>+ 1\<close> is unchecked, and \<open>World_Correct\<close> shows that it never wraps.\<close>

definition pop_slot :: "state \<Rightarrow> nat \<times> state" where
  "pop_slot s =
     (case st_free s of
        slot # rest \<Rightarrow> (slot, s\<lparr>st_free := rest\<rparr>)
      | [] \<Rightarrow> (length (st_actors s), s))"

definition slot_generation :: "state \<Rightarrow> nat \<Rightarrow> nat" where
  "slot_generation s slot =
     (case live_at s slot of
        None \<Rightarrow> 1
      | Some a \<Rightarrow> wrapping_add u64_max (ar_generation (a_reference a)) 1)"

definition put_actor :: "nat \<Rightarrow> actor \<Rightarrow> state \<Rightarrow> state" where
  "put_actor slot a s =
     (if slot = length (st_actors s) then s\<lparr>st_actors := st_actors s @ [Some a]\<rparr>
      else s\<lparr>st_actors := (st_actors s)[slot := Some a]\<rparr>)"

definition allocate_locked ::
  "inner \<Rightarrow> endpoint_kind \<Rightarrow> actor_ref option \<Rightarrow> state \<Rightarrow> actor_ref rstep" where
  "allocate_locked w kind parent s =
     (if st_live_actors s \<ge> cfg_max_actors (in_cfg w) then Some (s, Inl LimitExceeded)
      else do {
        pc \<leftarrow> parent_check w parent s;
        try_in s pc (\<lambda>_.
        try_in s (ok_or LimitExceeded (checked_add u64_max (st_next_ready_order s) 1)) (\<lambda>next_order.
          let (slot, s1) = pop_slot s;
              r = ActorRef (in_id w) slot (slot_generation s1 slot);
              s2 = put_actor slot (new_actor r (st_next_ready_order s1) kind parent) s1
          in try_in s2 (case parent of
                          None \<Rightarrow> Inr s2
                        | Some p \<Rightarrow> check_upd w p (\<lambda>a. a\<lparr>a_children := a_children a @ [r]\<rparr>) s2) (\<lambda>s3.
             let s4 = s3\<lparr>st_live_actors := st_live_actors s3 + 1, st_next_ready_order := next_order\<rparr>
             in do {
               s5 \<leftarrow> refresh_python_ready_locked w r s4;
               s6 \<leftarrow> mark_activity_dependents_locked w r s5;
               Some (s6, Inr r)
             })))
      })"

definition allocate :: "inner \<Rightarrow> endpoint_kind \<Rightarrow> actor_ref option \<Rightarrow> state \<Rightarrow> actor_ref rstep" where
  "allocate w kind parent s =
     map_option touch_all
       (if st_closed s then Some (s, Inl ActorStopped) else allocate_locked w kind parent s)"

definition activate :: "inner \<Rightarrow> actor_ref \<Rightarrow> state \<Rightarrow> unit rstep" where
  "activate w r s =
     try_in s (check_ref w s r) (\<lambda>a.
     try_in s (case a_parent a of
                 None \<Rightarrow> Inr ()
               | Some p \<Rightarrow> bindR (check_ref w s p) (\<lambda>pa.
                   if open_state (a_state pa) then Inr () else Inl ActorStopped)) (\<lambda>_.
       if a_state a \<noteq> Starting then Some (s, Inl ActorStopped)
       else do {
         s1 \<leftarrow> refresh_python_subtree_locked w r (upd_actor r (\<lambda>a. a\<lparr>a_state := Active\<rparr>) s);
         s2 \<leftarrow> mark_activity_tree_locked w r s1;
         s3 \<leftarrow> flush_staged_locked w s2;
         Some (touch_activity s3, Inr ())
       }))"

section \<open>Finalisation\<close>

definition keep_latest :: "failure_record option \<Rightarrow> failure_record option \<Rightarrow> failure_record option" where
  "keep_latest current candidate =
     (case candidate of
        None \<Rightarrow> current
      | Some c \<Rightarrow>
          (case current of
             None \<Rightarrow> Some c
           | Some old \<Rightarrow> if fr_sequence old < fr_sequence c then Some c else current))"

definition child_done :: "state \<Rightarrow> actor_ref \<Rightarrow> bool" where
  "child_done s c =
     (case live_at s (ar_slot c) of
        None \<Rightarrow> True
      | Some x \<Rightarrow> a_reference x \<noteq> c \<or> a_state x = Stopped)"

definition finalizable :: "state \<Rightarrow> actor \<Rightarrow> bool" where
  "finalizable s a \<longleftrightarrow>
     a_state a = Stopping \<and> \<not> a_in_flight a \<and> \<not> a_control_in_flight a \<and> a_notification a = None
     \<and> a_native_tasks a = 0 \<and> a_python_done a \<and> list_all (child_done s) (a_children a)"

text \<open>What the parent takes over from a retired child.\<close>

definition absorb_child :: "actor_ref \<Rightarrow> actor \<Rightarrow> actor \<Rightarrow> actor" where
  "absorb_child r child pa =
     pa\<lparr>a_children := filter (\<lambda>c. c \<noteq> r) (a_children pa),
        a_drain_timed_out := (a_drain_timed_out pa \<or> a_drain_timed_out child),
        a_errors := saturating_add u64_max (a_errors pa) (a_errors child),
        a_last_error := keep_latest (a_last_error pa) (a_last_error child)\<rparr>"

definition absorb_at :: "actor_ref \<Rightarrow> actor_ref \<Rightarrow> actor \<Rightarrow> state \<Rightarrow> state" where
  "absorb_at p r child s =
     (case live_at s (ar_slot p) of
        None \<Rightarrow> s
      | Some pa \<Rightarrow> if a_reference pa = p then upd_actor p (absorb_child r child) s else s)"

text \<open>\<^verbatim>\<open>a.state = Stopped\<close> and the release of the slot.\<close>

definition retire_slot :: "actor_ref \<Rightarrow> state \<Rightarrow> state" where
  "retire_slot r s =
     s\<lparr>st_live_actors := st_live_actors s - 1,
       st_operations := fst (op_retire_owner r (st_operations s)),
       st_free := ar_slot r # st_free s\<rparr>"

fun finalize_loop :: "inner \<Rightarrow> nat \<Rightarrow> actor_ref \<Rightarrow> state \<Rightarrow> state option" where
  "finalize_loop w 0 r s = None"
| "finalize_loop w (Suc fuel) r s = do {
     s1 \<leftarrow> refresh_python_ready_locked w r s;
     s2 \<leftarrow> mark_activity_dependents_locked w r s1;
     (case live_at s2 (ar_slot r) of
        None \<Rightarrow> Some s2
      | Some a \<Rightarrow>
          if a_reference a \<noteq> r \<or> \<not> finalizable s2 a then Some s2
          else do {
            s3 \<leftarrow> refresh_python_ready_locked w r (upd_actor r (\<lambda>a. a\<lparr>a_state := Stopped\<rparr>) s2);
            let s4 = retire_slot r s3;
            (case a_parent a of
               None \<Rightarrow> Some s4
             | Some p \<Rightarrow> finalize_loop w fuel p (absorb_at p r a s4))
          })
   }"

definition try_finalize :: "inner \<Rightarrow> actor_ref \<Rightarrow> state \<Rightarrow> state option" where
  "try_finalize w r s = finalize_loop w (Suc (chain_fuel s)) r s"

section \<open>The stop fence\<close>

definition detach_scope :: "inner \<Rightarrow> actor_ref \<Rightarrow> state \<Rightarrow> state option" where
  "detach_scope w scope s =
     (let (g, removed) = sx_detach_scope scope (st_services s); s1 = s\<lparr>st_services := g\<rparr>
      in case removed of
           None \<Rightarrow> Some s1
         | Some lease \<Rightarrow>
             Option.bind (mark_activity_dependents_locked w (sl_owner lease) s1)
               (mark_activity_dependents_locked w (sl_service lease)))"

fun discard_each :: "inner \<Rightarrow> actor_ref \<Rightarrow> actor_ref list \<Rightarrow> state \<Rightarrow> state option" where
  "discard_each w supervisor [] s = Some s"
| "discard_each w supervisor (source # sources) s =
     (case check_upd w source (\<lambda>a. a\<lparr>a_notification := None\<rparr>) s of
        Inl e \<Rightarrow> None
      | Inr s1 \<Rightarrow>
          (case check_upd w supervisor (\<lambda>a. a\<lparr>a_pending_failures := a_pending_failures a - 1\<rparr>) s1 of
             Inl e \<Rightarrow> None
           | Inr s2 \<Rightarrow>
               Option.bind
                 (try_finalize w source
                   (upd_metrics (\<lambda>m. m\<lparr>m_notifications_discarded := m_notifications_discarded m + 1\<rparr>) s2))
                 (discard_each w supervisor sources)))"

definition has_notification :: "inner \<Rightarrow> state \<Rightarrow> actor_ref \<Rightarrow> bool" where
  "has_notification w s child =
     (case check_ref w s child of Inl e \<Rightarrow> False | Inr a \<Rightarrow> a_notification a \<noteq> None)"

definition discard_notifications_for :: "inner \<Rightarrow> actor_ref \<Rightarrow> state \<Rightarrow> state option" where
  "discard_notifications_for w supervisor s =
     (case check_ref w s supervisor of
        Inl e \<Rightarrow> Some s
      | Inr a \<Rightarrow> do {
          let sources = filter (has_notification w s) (a_children a);
          s1 \<leftarrow> discard_each w supervisor sources s;
          s2 \<leftarrow> (if sources \<noteq> [] then mark_activity_dependents_locked w supervisor s1 else Some s1);
          refresh_python_ready_locked w supervisor s2
        })"

fun mark_participants :: "inner \<Rightarrow> operation_owner list \<Rightarrow> state \<Rightarrow> state option" where
  "mark_participants w [] s = Some s"
| "mark_participants w (p # ps) s =
     Option.bind (mark_operation_activity_locked w (oo_owner p) (Some (oo_target p)) s) (mark_participants w ps)"

text \<open>The operations of a stopped actor: those it owns, then those it serves.\<close>

definition settle_operations :: "inner \<Rightarrow> actor_ref \<Rightarrow> state \<Rightarrow> state option" where
  "settle_operations w r s =
     (let participants = pending_participants_for (st_operations s) r;
          (t1, n1) = op_cancel_owner r (st_operations s);
          (t2, n2) = op_stop_target r t1;
          cancelled = n1 + n2
      in do {
        s1 \<leftarrow> mark_participants w participants (s\<lparr>st_operations := t2\<rparr>);
        Some (repeat_diagnostic cancelled w DCCancelled (Some r) None
          (upd_metrics (\<lambda>m. m\<lparr>m_operation_cancelled := m_operation_cancelled m + cancelled\<rparr>) s1))
      })"

fun remove_routes :: "inner \<Rightarrow> nat list \<Rightarrow> state \<Rightarrow> state option" where
  "remove_routes w [] s = Some s"
| "remove_routes w (n # ns) s =
     (let (t, removed) = rt_remove n (st_subs s); s1 = s\<lparr>st_subs := t\<rparr>
      in Option.bind (case removed of None \<Rightarrow> Some s1 | Some route \<Rightarrow> mark_route_activity_locked w route s1)
           (remove_routes w ns))"

definition clear_mailbox :: "actor \<Rightarrow> actor" where
  "clear_mailbox a =
     a\<lparr>a_state := Stopping, a_staged := [], a_staged_bytes := 0, a_deadlines := adl_clear (a_deadlines a),
       a_queue := [], a_queue_bytes := 0\<rparr>"

text \<open>The parts of \<^verbatim>\<open>fence_locked\<close> before and after the recursion into services and children.\<close>

definition fence_enter :: "inner \<Rightarrow> actor_ref \<Rightarrow> state \<Rightarrow> state option" where
  "fence_enter w r s = do {
     s1 \<leftarrow> cancel_source_publications_locked w r s;
     detach_scope w r
       (s1\<lparr>st_event_deadlines := di_remove r (st_event_deadlines s1),
           st_staged_actors := bm_remove (ar_slot r) (st_staged_actors s1),
           st_drain_roots := bm_remove (ar_slot r) (st_drain_roots s1)\<rparr>)
   }"

definition fence_leave :: "inner \<Rightarrow> actor_ref \<Rightarrow> state \<Rightarrow> unit rstep" where
  "fence_leave w r s =
     try_in s (check_ref w s r) (\<lambda>a.
       if a_state a = Stopped then Some (s, Inr ())
       else do {
         s1 \<leftarrow> remove_routes w (rt_actor_route_ids (st_subs s) r) s;
         try_in s1 (check_ref w s1 r) (\<lambda>a1.
           let discarded = length (a_staged a1) + length (a_queue a1);
               s2 = upd_metrics (\<lambda>m. m\<lparr>m_cancelled := m_cancelled m + discarded,
                      m_discarded := m_discarded m + discarded\<rparr>) (upd_actor r clear_mailbox s1)
           in map_option (\<lambda>s3. (s3, Inr ())) (try_finalize w r s2))
       })"

fun fence_loop :: "inner \<Rightarrow> nat \<Rightarrow> actor_ref \<Rightarrow> state \<Rightarrow> unit rstep"
  and fence_children :: "inner \<Rightarrow> nat \<Rightarrow> actor_ref list \<Rightarrow> state \<Rightarrow> unit rstep"
  and fence_scopes :: "inner \<Rightarrow> nat \<Rightarrow> actor_ref \<Rightarrow> actor_ref list \<Rightarrow> state \<Rightarrow> state option" where
  "fence_loop w 0 r s = None"
| "fence_loop w (Suc fuel) r s =
     try_in s (check_ref w s r) (\<lambda>_. do {
       s1 \<leftarrow> fence_enter w r s;
       let (g, scopes) = sx_take_service r (st_services s1);
       s2 \<leftarrow> fence_scopes w fuel r scopes (s1\<lparr>st_services := g\<rparr>);
       s3 \<leftarrow> discard_notifications_for w r s2;
       s4 \<leftarrow> settle_operations w r s3;
       try_in s4 (check_ref w s4 r) (\<lambda>a. do {
         (s5, x) \<leftarrow> fence_children w fuel (a_children a) s4;
         try_in s5 x (\<lambda>_. fence_leave w r s5)
       })
     })"
| "fence_children w fuel [] s = Some (s, Inr ())"
| "fence_children w fuel (c # cs) s = do {
     (s1, x) \<leftarrow> fence_loop w fuel c s;
     try_in s1 x (\<lambda>_. fence_children w fuel cs s1)
   }"
| "fence_scopes w fuel service [] s = Some s"
| "fence_scopes w fuel service (scope # scopes) s =
     (let (g, removed) = sx_drop_lease scope (st_services s); s1 = s\<lparr>st_services := g\<rparr>
      in do {
        s2 \<leftarrow> (case removed of
                None \<Rightarrow> Some s1
              | Some lease \<Rightarrow> mark_activity_dependents_locked w (sl_owner lease) s1);
        s3 \<leftarrow> mark_activity_dependents_locked w service s2;
        (s4, _) \<leftarrow> fence_loop w fuel scope s3;
        fence_scopes w fuel service scopes s4
      })"

text \<open>Children are younger than their parents and only an actor without a parent is a service, so
  the recursion is at most two ownership chains deep.\<close>

definition fence_locked :: "inner \<Rightarrow> actor_ref \<Rightarrow> state \<Rightarrow> unit rstep" where
  "fence_locked w r s = fence_loop w (2 * chain_fuel s + 2) r s"

section \<open>Reports\<close>

record stop_report =
  sp_native_done :: bool
  sp_python_done :: bool
  sp_in_flight :: nat
  sp_discarded :: nat
  sp_timed_out :: bool
  sp_queued :: nat
  sp_delivery_in_flight :: nat
  sp_control_in_flight :: nat
  sp_native_tasks :: nat
  sp_python_pending :: nat
  sp_pending_notifications :: nat
  sp_outstanding_operations :: nat
  sp_retained_operations :: nat
  sp_outstanding_publications :: nat
  sp_retained_publications :: nat
  sp_errors :: nat
  sp_last_error :: "failure_record option"

definition report_zero :: stop_report where
  "report_zero =
     \<lparr>sp_native_done = False, sp_python_done = False, sp_in_flight = 0, sp_discarded = 0,
      sp_timed_out = False, sp_queued = 0, sp_delivery_in_flight = 0, sp_control_in_flight = 0,
      sp_native_tasks = 0, sp_python_pending = 0, sp_pending_notifications = 0,
      sp_outstanding_operations = 0, sp_retained_operations = 0, sp_outstanding_publications = 0,
      sp_retained_publications = 0, sp_errors = 0, sp_last_error = None\<rparr>"

definition add_actor :: "actor \<Rightarrow> stop_report \<Rightarrow> stop_report" where
  "add_actor a p =
     p\<lparr>sp_queued := sp_queued p + length (a_queue a) + length (a_staged a),
       sp_delivery_in_flight := sp_delivery_in_flight p + (if a_in_flight a then 1 else 0),
       sp_control_in_flight := sp_control_in_flight p + (if a_control_in_flight a then 1 else 0),
       sp_native_tasks := sp_native_tasks p + a_native_tasks a,
       sp_python_pending := sp_python_pending p + (if a_python_done a then 0 else 1),
       sp_pending_notifications := sp_pending_notifications p + (if a_notification a = None then 0 else 1),
       sp_errors := saturating_add u64_max (sp_errors p) (a_errors a),
       sp_last_error := keep_latest (sp_last_error p) (a_last_error a),
       sp_timed_out := (sp_timed_out p \<or> a_drain_timed_out a)\<rparr>"

definition finish_counts :: "stop_report \<Rightarrow> stop_report" where
  "finish_counts p =
     (let n = sp_delivery_in_flight p + sp_control_in_flight p + sp_native_tasks p
      in p\<lparr>sp_in_flight := n,
           sp_native_done := (sp_queued p = 0 \<and> n = 0 \<and> sp_pending_notifications p = 0
             \<and> sp_outstanding_operations p = 0 \<and> sp_outstanding_publications p = 0),
           sp_python_done := (sp_python_pending p = 0)\<rparr>)"

text \<open>The work list of \<^verbatim>\<open>report_locked\<close> is a stack whose top is the head. A scope visits an actor once,
  so the number of slots bounds the iterations.\<close>

fun report_loop ::
  "inner \<Rightarrow> state \<Rightarrow> nat \<Rightarrow> actor_ref list \<Rightarrow> actor_ref list \<Rightarrow> stop_report \<Rightarrow>
   (actor_ref list \<times> stop_report) result option" where
  "report_loop w s fuel [] scope p = Some (Inr (scope, p))"
| "report_loop w s 0 (r # pending) scope p = None"
| "report_loop w s (Suc fuel) (r # pending) scope p =
     (case check_ref w s r of
        Inl e \<Rightarrow> Some (Inl e)
      | Inr a \<Rightarrow> report_loop w s fuel (rev (a_children a) @ pending) (bs_insert r scope) (add_actor a p))"

definition report_locked :: "inner \<Rightarrow> actor_ref \<Rightarrow> state \<Rightarrow> stop_report result option" where
  "report_locked w r s = do {
     x \<leftarrow> report_loop w s (length (st_actors s)) [r] [] report_zero;
     Some (bindR x (\<lambda>(scope, p).
       let (oo, ro) = counts_for_scope (st_operations s) scope;
           (op, rp) = pb_counts_for_scope (st_publications s) scope
       in Inr (finish_counts (p\<lparr>sp_outstanding_operations := oo, sp_retained_operations := ro,
                 sp_outstanding_publications := op, sp_retained_publications := rp\<rparr>))))
   }"

definition world_report_locked :: "state \<Rightarrow> stop_report" where
  "world_report_locked s =
     finish_counts ((fold add_actor (all_actors s) report_zero)
       \<lparr>sp_errors := m_failures (st_metrics s), sp_last_error := st_last_error s,
        sp_timed_out := (m_drain_timeouts (st_metrics s) \<noteq> 0),
        sp_outstanding_operations := ot_pending (st_operations s),
        sp_retained_operations := retained_terminal_count (st_operations s),
        sp_outstanding_publications := pb_pending (st_publications s),
        sp_retained_publications := pb_retained (st_publications s)\<rparr>)"

section \<open>Stop, drain and close\<close>

definition stop_locked :: "inner \<Rightarrow> actor_ref \<Rightarrow> state \<Rightarrow> stop_report rstep" where
  "stop_locked w r s = do {
     (s1, x) \<leftarrow> fence_locked w r s;
     try_in s1 x (\<lambda>_. do {
       y \<leftarrow> report_locked w r s1;
       try_in s1 y (\<lambda>p.
         Some (s1, Inr (p\<lparr>sp_discarded := m_discarded (st_metrics s1) - m_discarded (st_metrics s)\<rparr>)))
     })
   }"

definition stop :: "inner \<Rightarrow> actor_ref \<Rightarrow> state \<Rightarrow> stop_report rstep" where
  "stop w r s = map_option touch_all (stop_locked w r s)"

definition quiesce_actor :: "nat \<Rightarrow> actor_ref \<Rightarrow> actor \<Rightarrow> actor" where
  "quiesce_actor cutoff root a =
     a\<lparr>a_state := Quiescing,
       a_publication_cutoff := Some (case a_publication_cutoff a of None \<Rightarrow> cutoff | Some c \<Rightarrow> c),
       a_drain_root := Some root, a_drain_deadline := None\<rparr>"

fun quiesce_loop :: "inner \<Rightarrow> nat \<Rightarrow> actor_ref \<Rightarrow> actor_ref \<Rightarrow> instant \<Rightarrow> state \<Rightarrow> instant rstep"
  and quiesce_children :: "inner \<Rightarrow> nat \<Rightarrow> actor_ref list \<Rightarrow> actor_ref \<Rightarrow> instant \<Rightarrow> state \<Rightarrow> instant rstep" where
  "quiesce_loop w 0 r root deadline s = None"
| "quiesce_loop w (Suc fuel) r root deadline s =
     try_in s (check_ref w s r) (\<lambda>a.
       if a_state a = Stopping \<or> a_state a = Stopped then Some (s, Inr deadline)
       else
         (let deadline1 = (case a_drain_deadline a of None \<Rightarrow> deadline | Some previous \<Rightarrow> min deadline previous);
              s1 = upd_actor r (quiesce_actor (pb_last_issued (st_publications s)) root) s;
              s2 = s1\<lparr>st_drain_roots := bm_remove (ar_slot r) (st_drain_roots s1)\<rparr>
          in do {
            (s3, x) \<leftarrow> quiesce_children w fuel (a_children a) root deadline1 s2;
            try_in s3 x (\<lambda>deadline2. do {
              s4 \<leftarrow> refresh_python_ready_locked w r s3;
              s5 \<leftarrow> mark_activity_dependents_locked w r s4;
              Some (s5, Inr deadline2)
            })
          }))"
| "quiesce_children w fuel [] root deadline s = Some (s, Inr deadline)"
| "quiesce_children w fuel (c # cs) root deadline s = do {
     (s1, x) \<leftarrow> quiesce_loop w fuel c root deadline s;
     try_in s1 x (\<lambda>d. quiesce_children w fuel cs root d s1)
   }"

definition mark_quiescing :: "inner \<Rightarrow> actor_ref \<Rightarrow> actor_ref \<Rightarrow> instant \<Rightarrow> state \<Rightarrow> instant rstep" where
  "mark_quiescing w r root deadline s = quiesce_loop w (chain_fuel s) r root deadline s"

definition drain_locked :: "inner \<Rightarrow> actor_ref \<Rightarrow> instant \<Rightarrow> state \<Rightarrow> unit rstep" where
  "drain_locked w r deadline s =
     try_in s (check_ref w s r) (\<lambda>a.
       case a_state a of
         Stopped \<Rightarrow> Some (s, Inr ())
       | Stopping \<Rightarrow> Some (s, Inr ())
       | Starting \<Rightarrow> do {
           (s1, x) \<leftarrow> stop_locked w r s;
           try_in s1 x (\<lambda>_. Some (s1, Inr ()))
         }
       | Quiescing \<Rightarrow>
           (let root = (case a_drain_root a of None \<Rightarrow> r | Some x \<Rightarrow> x)
            in try_in s (check_upd w root (\<lambda>a. a\<lparr>a_drain_deadline :=
                 Some (case a_drain_deadline a of None \<Rightarrow> deadline | Some old \<Rightarrow> min old deadline)\<rparr>) s) (\<lambda>s1.
               map_option (\<lambda>s2. (s2, Inr ())) (mark_activity_dependents_locked w root s1)))
       | Active \<Rightarrow> do {
           (s1, x) \<leftarrow> mark_quiescing w r r deadline s;
           try_in s1 x (\<lambda>d.
           try_in s1 (check_upd w r (\<lambda>a. a\<lparr>a_drain_deadline := Some d\<rparr>) s1) (\<lambda>s2.
             Some (s2\<lparr>st_drain_roots := bm_insert (ar_slot r) r (st_drain_roots s2)\<rparr>, Inr ())))
         })"

definition idle_actor :: "state \<Rightarrow> actor_ref \<Rightarrow> actor \<Rightarrow> bool" where
  "idle_actor s r a \<longleftrightarrow>
     a_queue a = [] \<and> a_staged a = [] \<and> pb_pending_for (st_publications s) r = 0
     \<and> \<not> a_in_flight a \<and> \<not> a_control_in_flight a \<and> a_notification a = None \<and> a_native_tasks a = 0
     \<and> op_pending_for (st_operations s) (a_reference a) = 0
     \<and> op_pending_for_target (st_operations s) (a_reference a) = 0"

fun drained_loop :: "inner \<Rightarrow> state \<Rightarrow> nat \<Rightarrow> actor_ref \<Rightarrow> bool option"
  and drained_all :: "inner \<Rightarrow> state \<Rightarrow> nat \<Rightarrow> actor_ref list \<Rightarrow> bool option" where
  "drained_loop w s 0 r = None"
| "drained_loop w s (Suc fuel) r =
     (case check_ref w s r of
        Inl e \<Rightarrow> Some True
      | Inr a \<Rightarrow> if idle_actor s r a then drained_all w s fuel (a_children a) else Some False)"
| "drained_all w s fuel [] = Some True"
| "drained_all w s fuel (c # cs) = do {
     x \<leftarrow> drained_loop w s fuel c;
     (if x then drained_all w s fuel cs else Some False)
   }"

definition drained_locked :: "inner \<Rightarrow> actor_ref \<Rightarrow> state \<Rightarrow> bool option" where
  "drained_locked w r s = drained_loop w s (chain_fuel s) r"

definition drain_expired :: "inner \<Rightarrow> instant \<Rightarrow> actor_ref \<Rightarrow> state \<Rightarrow> bool" where
  "drain_expired w now r s =
     (case check_ref w s r of
        Inl e \<Rightarrow> False
      | Inr a \<Rightarrow> (case a_drain_deadline a of None \<Rightarrow> False | Some d \<Rightarrow> now \<ge> d))"

definition settle_drain_root :: "inner \<Rightarrow> instant \<Rightarrow> actor_ref \<Rightarrow> state \<Rightarrow> state option" where
  "settle_drain_root w now root s =
     (if bm_get (st_drain_roots s) (ar_slot root) \<noteq> Some root then Some s
      else do {
        drained \<leftarrow> drained_locked w root s;
        let expired = drain_expired w now root s;
        (if \<not> (expired \<or> drained) then Some s
         else do {
           s1 \<leftarrow> (if expired \<and> \<not> drained
                   then (case check_upd w root (\<lambda>a. a\<lparr>a_drain_timed_out := True\<rparr>) s of
                           Inl e \<Rightarrow> None
                         | Inr s' \<Rightarrow> Some (diagnostic w DCDrainTimeout (Some root) None
                             (upd_metrics (\<lambda>m. m\<lparr>m_drain_timeouts := m_drain_timeouts m + 1\<rparr>) s')))
                   else Some s);
           map_option fst (stop_locked w root s1)
         })
      })"

fun settle_drain_roots :: "inner \<Rightarrow> instant \<Rightarrow> actor_ref list \<Rightarrow> state \<Rightarrow> state option" where
  "settle_drain_roots w now [] s = Some s"
| "settle_drain_roots w now (r # rs) s = Option.bind (settle_drain_root w now r s) (settle_drain_roots w now rs)"

fun diagnose_timeouts :: "inner \<Rightarrow> operation_id list \<Rightarrow> state \<Rightarrow> state" where
  "diagnose_timeouts w [] s = s"
| "diagnose_timeouts w (oid # ids) s =
     diagnose_timeouts w ids (diagnostic w DCOperationTimedOut None (Some oid) s)"

definition maintain_locked :: "inner \<Rightarrow> instant \<Rightarrow> state \<Rightarrow> state option" where
  "maintain_locked w now s = do {
     s1 \<leftarrow> expire_events_locked w now s;
     s2 \<leftarrow> expire_publications_locked w now s1;
     let participants = due_participants (st_operations s2) now;
     (t, expired) \<leftarrow> op_expire_ids now (st_operations s2);
     s3 \<leftarrow> mark_participants w participants (s2\<lparr>st_operations := t\<rparr>);
     let s4 = diagnose_timeouts w expired
        (upd_metrics (\<lambda>m. m\<lparr>m_operation_timed_out := m_operation_timed_out m + length expired\<rparr>) s3);
     settle_drain_roots w now (map snd (st_drain_roots s4)) s4
   }"

text \<open>\<^verbatim>\<open>World::maintain\<close> wakes observers only when its stamp changed.\<close>

definition maintain_stamp :: "state \<Rightarrow> nat \<times> nat \<times> nat \<times> nat" where
  "maintain_stamp s =
     (m_expired (st_metrics s), m_operation_timed_out (st_metrics s), m_publication_expired (st_metrics s),
      length (st_drain_roots s))"

definition maintain :: "inner \<Rightarrow> instant \<Rightarrow> state \<Rightarrow> state option" where
  "maintain w now s = do {
     s1 \<leftarrow> maintain_locked w now s;
     Some (if maintain_stamp s \<noteq> maintain_stamp s1 then touch_activity s1 else s1)
   }"

definition request_drain :: "inner \<Rightarrow> actor_ref \<Rightarrow> instant \<Rightarrow> state \<Rightarrow> stop_report rstep" where
  "request_drain w r deadline s = do {
     (s1, x) \<leftarrow> drain_locked w r deadline s;
     try_in s1 x (\<lambda>_. do {
       let (s2, now) = read_now w s1;
       s3 \<leftarrow> maintain_locked w now s2;
       y \<leftarrow> report_locked w r s3;
       Some (touch_activity s3, y)
     })
   }"

fun drain_roots :: "inner \<Rightarrow> instant \<Rightarrow> actor_ref list \<Rightarrow> state \<Rightarrow> state option" where
  "drain_roots w deadline [] s = Some s"
| "drain_roots w deadline (r # rs) s =
     Option.bind (map_option fst (drain_locked w r deadline s)) (drain_roots w deadline rs)"

definition root_refs :: "state \<Rightarrow> actor_ref list" where
  "root_refs s = map a_reference (filter (\<lambda>a. a_parent a = None) (all_actors s))"

definition drain_all :: "inner \<Rightarrow> instant \<Rightarrow> state \<Rightarrow> stop_report step" where
  "drain_all w deadline s = do {
     let s0 = s\<lparr>st_closed := True\<rparr>;
     let roots = map a_reference (filter (\<lambda>a. a_parent a = None \<and> a_state a \<noteq> Stopped) (all_actors s0));
     s1 \<leftarrow> drain_roots w deadline roots s0;
     let (s2, now) = read_now w s1;
     s3 \<leftarrow> maintain_locked w now s2;
     Some (touch_activity s3, (world_report_locked s3)
       \<lparr>sp_discarded := m_discarded (st_metrics s3) - m_discarded (st_metrics s)\<rparr>)
   }"

fun fence_refs :: "inner \<Rightarrow> actor_ref list \<Rightarrow> state \<Rightarrow> state option" where
  "fence_refs w [] s = Some s"
| "fence_refs w (r # rs) s = Option.bind (map_option fst (fence_locked w r s)) (fence_refs w rs)"

definition close_locked :: "inner \<Rightarrow> state \<Rightarrow> stop_report step" where
  "close_locked w s = do {
     let s0 = close_routing_locked (s\<lparr>st_closed := True\<rparr>);
     s1 \<leftarrow> fence_refs w (root_refs s0) s0;
     Some (s1, (world_report_locked s1)
       \<lparr>sp_discarded := m_discarded (st_metrics s1) - m_discarded (st_metrics s)\<rparr>)
   }"

definition close :: "inner \<Rightarrow> state \<Rightarrow> stop_report step" where
  "close w s = map_option touch_all (close_locked w s)"

section \<open>Leases and tasks\<close>

definition clear_in_flight :: "actor_ref \<Rightarrow> state \<Rightarrow> state" where
  "clear_in_flight r s = (if live_at s (ar_slot r) = None then s else upd_actor r (\<lambda>a. a\<lparr>a_in_flight := False\<rparr>) s)"

text \<open>\<^verbatim>\<open>DeliveryLease::finish\<close>: the delivery is dropped, then the outcome is recorded.\<close>

definition lease_finish :: "inner \<Rightarrow> delivery_lease \<Rightarrow> bool \<Rightarrow> state \<Rightarrow> state option" where
  "lease_finish w lease success s = do {
     let r = dl_target lease;
     let s1 = clear_in_flight r (drop_handle (d_payload (dl_delivery lease)) s);
     let s2 = upd_metrics (\<lambda>m. m\<lparr>m_completed := m_completed m + (if success then 1 else 0),
                m_failed := m_failed m + (if success then 0 else 1)\<rparr>) s1;
     s3 \<leftarrow> (if success then Some s2
             else if ar_slot r \<ge> length (st_actors s2) then None
             else if (case live_at s2 (ar_slot r) of None \<Rightarrow> True
                      | Some a \<Rightarrow> a_reported_failure a \<noteq> Some (d_event_id (dl_delivery lease)))
             then Some (diagnostic w DCHandlerFailed (Some r) (dl_operation lease) s2)
             else Some s2);
     s4 \<leftarrow> (case dl_operation lease of
              None \<Rightarrow> Some s3
            | Some oid \<Rightarrow>
                if success then Some s3
                else map_option (\<lambda>(s', x). if unwrap_or False x then count_completed s' else s')
                       (complete_operation_locked w oid handler_failed s3));
     s5 \<leftarrow> try_finalize w r s4;
     Some (touch_activity s5)
   }"

text \<open>\<^verbatim>\<open>Drop for DeliveryLease\<close>: an unfinished delivery is cancelled.\<close>

definition lease_drop :: "inner \<Rightarrow> delivery_lease \<Rightarrow> state \<Rightarrow> state option" where
  "lease_drop w lease s = do {
     let r = dl_target lease;
     let s1 = count_cancelled 1 (clear_in_flight r (drop_handle (d_payload (dl_delivery lease)) s));
     s2 \<leftarrow> (case dl_operation lease of
              None \<Rightarrow> Some s1
            | Some oid \<Rightarrow>
                map_option (\<lambda>(s', x).
                  if unwrap_or False x
                  then diagnostic w DCCancelled (Some r) (Some oid)
                         (upd_metrics (\<lambda>m. m\<lparr>m_operation_cancelled := m_operation_cancelled m + 1\<rparr>) s')
                  else s')
                  (complete_operation_locked w oid Cancelled s1));
     s3 \<leftarrow> try_finalize w r s2;
     Some (touch_activity s3)
   }"

definition track_task :: "inner \<Rightarrow> actor_ref \<Rightarrow> state \<Rightarrow> actor_ref rstep" where
  "track_task w r s =
     try_in s (check_ref w s r) (\<lambda>a.
       if \<not> open_state (a_state a) then Some (s, Inl ActorStopped)
       else map_option (\<lambda>s1. (touch_activity s1, Inr r))
              (mark_activity_dependents_locked w r
                (upd_actor r (\<lambda>a. a\<lparr>a_native_tasks := a_native_tasks a + 1\<rparr>) s)))"

text \<open>\<^verbatim>\<open>Drop for TaskRegistration\<close>, with the generation check the delivery lease does without.\<close>

definition task_drop :: "inner \<Rightarrow> actor_ref \<Rightarrow> state \<Rightarrow> state option" where
  "task_drop w r s = do {
     let s1 = (case live_at s (ar_slot r) of
                 None \<Rightarrow> s
               | Some a \<Rightarrow>
                   if a_reference a = r \<and> a_native_tasks a > 0
                   then upd_actor r (\<lambda>a. a\<lparr>a_native_tasks := a_native_tasks a - 1\<rparr>) s else s);
     s2 \<leftarrow> try_finalize w r s1;
     Some (touch_activity s2)
   }"

definition finish_python :: "inner \<Rightarrow> actor_ref \<Rightarrow> state \<Rightarrow> unit rstep" where
  "finish_python w r s =
     map_option touch_all
       (try_in s (check_upd w r (\<lambda>a. a\<lparr>a_python_done := True\<rparr>) s) (\<lambda>s1.
          map_option (\<lambda>s2. (s2, Inr ())) (try_finalize w r s1)))"

end
