(* ===== verification/World_Components.thy ===== *)
theory World_Components
  imports World_Lifecycle
begin

text \<open>
  The World operations on components and services, \<^verbatim>\<open>components.rs\<close> and \<^verbatim>\<open>services.rs\<close>: registration
  of a component's ports, typed links and sends, the drain query \<^verbatim>\<open>upstream_done\<close>, completion
  publications of claimed work, and service registration, leases and calls.
\<close>

section \<open>Components\<close>

definition register_component ::
  "inner \<Rightarrow> actor_ref \<Rightarrow> component_descriptor \<Rightarrow> state \<Rightarrow> port_ref list rstep" where
  "register_component w owner descriptor s =
     try_in s (check_ref w s owner) (\<lambda>a.
       if st_closed s \<or> a_state a \<noteq> Starting \<or> a_component a \<noteq> None then Some (s, Inl ActorNotReady)
       else do {
         x \<leftarrow> execution_state_locked w s owner;
         try_in s x (\<lambda>execution.
           if \<not> open_state execution then Some (s, Inl ActorStopped)
           else try_in s (admit_descriptor (st_schemas s) descriptor (st_interfaces s)) (\<lambda>interfaces.
                try_in s (check_upd w owner (\<lambda>a. a\<lparr>a_component := Some descriptor\<rparr>)
                           (s\<lparr>st_interfaces := interfaces\<rparr>)) (\<lambda>s1.
                  Some (s1, Inr (map (PortRef owner) [0..<length (cd_ports descriptor)])))))
       })"

definition component :: "inner \<Rightarrow> actor_ref \<Rightarrow> state \<Rightarrow> component_descriptor option result" where
  "component w owner s = bindR (check_ref w s owner) (\<lambda>a. Inr (a_component a))"

definition require_interface :: "inner \<Rightarrow> actor_ref \<Rightarrow> interface_spec \<Rightarrow> state \<Rightarrow> unit result" where
  "require_interface w owner required s =
     bindR (validate_ports (st_schemas s) (is_ports required)) (\<lambda>_.
     bindR (check_ref w s owner) (\<lambda>a.
     bindR (ok_or InterfaceMismatch (a_component a)) (\<lambda>descriptor.
       if list_ex (contract_fits required) (cd_interfaces descriptor) then Inr () else Inl InterfaceMismatch)))"

definition port :: "inner \<Rightarrow> actor_ref \<Rightarrow> bytes \<Rightarrow> state \<Rightarrow> port_ref result" where
  "port w owner name s =
     bindR (check_ref w s owner) (\<lambda>a.
     bindR (ok_or InvalidPort (a_component a)) (\<lambda>descriptor.
     bindR (ok_or InvalidPort (position (\<lambda>p. ps_name p = name) (cd_ports descriptor))) (\<lambda>index.
       Inr (PortRef owner index))))"

text \<open>The three actors of a link must all be Starting or Active.\<close>

fun all_open :: "inner \<Rightarrow> state \<Rightarrow> actor_ref list \<Rightarrow> unit result option" where
  "all_open w s [] = Some (Inr ())"
| "all_open w s (r # rs) = do {
     x \<leftarrow> execution_state_locked w s r;
     (case x of
        Inl e \<Rightarrow> Some (Inl e)
      | Inr l \<Rightarrow> if open_state l then all_open w s rs else Some (Inl ActorStopped))
   }"

definition link_check :: "inner \<Rightarrow> port_ref \<Rightarrow> port_ref \<Rightarrow> state \<Rightarrow> unit result" where
  "link_check w source target s =
     bindR (port_locked w source s) (\<lambda>src.
     bindR (port_locked w target s) (\<lambda>dst.
       if ps_direction src \<noteq> Output \<or> ps_direction dst \<noteq> Input then Inl InvalidPort
       else if ps_schema src \<noteq> ps_schema dst then Inl SchemaMismatch
       else if rt_active_len (st_subs s) \<ge> cfg_max_subscriptions (in_cfg w) then Inl LimitExceeded
       else if typed_duplicate (st_subs s) source target then Inl DuplicateSubscription
       else Inr ()))"

definition link :: "inner \<Rightarrow> actor_ref \<Rightarrow> port_ref \<Rightarrow> port_ref \<Rightarrow> state \<Rightarrow> nat rstep" where
  "link w owner source target s =
     map_option touch_all (do {
       x \<leftarrow> all_open w s [owner, pr_owner source, pr_owner target];
       try_in s x (\<lambda>_.
       try_in s (link_check w source target s) (\<lambda>_.
         map_option (\<lambda>(s1, n). (s1, Inr n))
           (insert_route w \<lparr>sub_owner = owner, sub_source = pr_owner source, sub_target = pr_owner target,
              sub_source_port = Some (pr_index source), sub_target_port = Some (pr_index target)\<rparr> s)))
     })"

definition send_port_body :: "inner \<Rightarrow> port_ref \<Rightarrow> payload \<Rightarrow> message_options \<Rightarrow> state \<Rightarrow> nat rstep" where
  "send_port_body w p payload opts s =
     try_in s (port_locked w p s) (\<lambda>spec.
       if ps_direction spec \<noteq> Input then Some (s, Inl InvalidPort)
       else if \<not> pt_matches (ps_schema spec) payload then Some (s, Inl SchemaMismatch)
       else
         (let (s1, m) = make_stored_with w payload opts None s
          in try_in s1 m (\<lambda>st. do {
               (s2, r) \<leftarrow> admit w (pr_owner p) st None False None s1;
               try_in s2 r (\<lambda>event_id. do {
                 x \<leftarrow> address_back w (pr_owner p) p s2;
                 try_in s2 x (\<lambda>s3. Some (s3, Inr event_id))
               })
             })))"

definition send_port_with :: "inner \<Rightarrow> port_ref \<Rightarrow> payload \<Rightarrow> message_options \<Rightarrow> state \<Rightarrow> nat rstep" where
  "send_port_with w p payload opts s =
     map_option (touch_all \<circ> or_reject w (pr_owner p)) (send_port_body w p payload opts (count_submitted s))"

definition publish_port_with :: "inner \<Rightarrow> port_ref \<Rightarrow> payload \<Rightarrow> message_options \<Rightarrow> state \<Rightarrow> nat rstep" where
  "publish_port_with w source payload opts s =
     publish_internal w (pr_owner source) payload None (Some (pr_index source)) opts s"

record link_snapshot =
  ls_id :: nat
  ls_owner :: actor_ref
  ls_source :: port_ref
  ls_target :: port_ref

text \<open>The typed routes; \<open>None\<close> is \<^verbatim>\<open>expect("typed link target")\<close>.\<close>

fun link_snapshots :: "(nat \<times> sub) list \<Rightarrow> link_snapshot list option" where
  "link_snapshots [] = Some []"
| "link_snapshots ((n, route) # rest) =
     (case sub_source_port route of
        None \<Rightarrow> link_snapshots rest
      | Some index \<Rightarrow> do {
          target_index \<leftarrow> sub_target_port route;
          others \<leftarrow> link_snapshots rest;
          Some (\<lparr>ls_id = n, ls_owner = sub_owner route, ls_source = PortRef (sub_source route) index,
                 ls_target = PortRef (sub_target route) target_index\<rparr> # others)
        })"

definition links :: "state \<Rightarrow> link_snapshot list option" where
  "links s = link_snapshots (rt_entries (st_subs s))"

definition producer_done :: "inner \<Rightarrow> state \<Rightarrow> actor_ref \<Rightarrow> bool" where
  "producer_done w s source =
     (case check_ref w s source of
        Inl e \<Rightarrow> False
      | Inr a \<Rightarrow>
          a_state a \<in> {Quiescing, Stopping, Stopped} \<and> a_native_tasks a = 0
          \<and> pb_pending_for (st_publications s) (a_reference a) = 0 \<and> a_queue a = [] \<and> \<not> a_in_flight a)"

text \<open>\<^verbatim>\<open>.all(..)\<close> over the target's routes; \<open>None\<close> is \<^verbatim>\<open>expect("indexed route")\<close>.\<close>

fun all_producers_done :: "inner \<Rightarrow> state \<Rightarrow> nat list \<Rightarrow> bool option" where
  "all_producers_done w s [] = Some True"
| "all_producers_done w s (n # ns) = do {
     route \<leftarrow> rt_get (st_subs s) n;
     (if producer_done w s (sub_source route) then all_producers_done w s ns else Some False)
   }"

definition upstream_done :: "inner \<Rightarrow> actor_ref \<Rightarrow> state \<Rightarrow> bool result option" where
  "upstream_done w target s =
     (case check_ref w s target of
        Inl e \<Rightarrow> Some (Inl e)
      | Inr a \<Rightarrow>
          if a_queue a = [] \<and> \<not> a_in_flight a \<and> pb_pending_for (st_publications s) (a_reference a) = 0
          then map_option Inr (all_producers_done w s (rt_target_ids (st_subs s) (a_reference a)))
          else Some (Inr False))"

text \<open>Completions of tracked tasks and of claimed deliveries; the latter inherit the delivery's
  metadata.\<close>

definition task_publish_completion :: "inner \<Rightarrow> actor_ref \<Rightarrow> actor_ref \<Rightarrow> payload \<Rightarrow> state \<Rightarrow> nat rstep" where
  "task_publish_completion w task_owner source p s =
     publish_internal w source p (Some task_owner) None default_options s"

definition task_publish_port_completion_with ::
  "inner \<Rightarrow> actor_ref \<Rightarrow> port_ref \<Rightarrow> payload \<Rightarrow> message_options \<Rightarrow> state \<Rightarrow> nat rstep" where
  "task_publish_port_completion_with w task_owner source p opts s =
     publish_internal w (pr_owner source) p (Some task_owner) (Some (pr_index source)) opts s"

definition lease_publish_port_completion_with ::
  "inner \<Rightarrow> delivery_lease \<Rightarrow> port_ref \<Rightarrow> payload \<Rightarrow> message_options \<Rightarrow> state \<Rightarrow> nat rstep" where
  "lease_publish_port_completion_with w lease source p opts s =
     try_in s (options_validate opts) (\<lambda>_.
       if (case mo_source opts of None \<Rightarrow> False | Some owner \<Rightarrow> owner \<noteq> pr_owner source)
       then Some (s, Inl InvalidMetadata)
       else publish_internal w (pr_owner source) p (Some (dl_target lease)) (Some (pr_index source))
              (merge_options (child_options (d_envelope (dl_delivery lease)) (pr_owner source)) opts) s)"

section \<open>Services\<close>

definition lease_crosses :: "inner \<Rightarrow> service_lease \<Rightarrow> bool" where
  "lease_crosses w lease \<longleftrightarrow>
     ar_world (sl_scope lease) \<noteq> in_id w \<or> ar_world (sl_owner lease) \<noteq> in_id w
     \<or> ar_world (sl_service lease) \<noteq> in_id w"

definition validate_lease_locked :: "inner \<Rightarrow> service_lease \<Rightarrow> state \<Rightarrow> service_record result option" where
  "validate_lease_locked w lease s =
     (if lease_crosses w lease then Some (Inl CrossWorld)
      else if bm_get (sx_leases (st_services s)) (sl_scope lease) \<noteq> Some lease then Some (Inl StaleReference)
      else do {
        x \<leftarrow> execution_state_locked w s (sl_scope lease);
        (case x of Inl e \<Rightarrow> Some (Inl e)
         | Inr l \<Rightarrow>
             if \<not> open_state l then Some (Inl ActorStopped)
             else do {
               y \<leftarrow> execution_state_locked w s (sl_service lease);
               Some (bindR y (\<lambda>l'.
                 if l' \<noteq> Active then Inl ActorStopped
                 else bindR (ok_or StaleReference (sx_by_target (st_services s) (sl_service lease))) (\<lambda>name.
                      bindR (ok_or StaleReference (bm_get (sx_records (st_services s)) name)) (\<lambda>record.
                        if sl_scope lease \<notin> set (sv_scopes record) then Inl StaleReference else Inr record))))
             })
      })"

definition named_port :: "bytes \<Rightarrow> port_direction \<Rightarrow> port_spec \<Rightarrow> bool" where
  "named_port name direction spec \<longleftrightarrow> ps_name spec = name \<and> ps_direction spec = direction"

text \<open>The port checks of \<^verbatim>\<open>service_request\<close>: in the contract, then in the component.\<close>

definition service_port ::
  "inner \<Rightarrow> service_record \<Rightarrow> bytes \<Rightarrow> payload \<Rightarrow> state \<Rightarrow> port_ref result" where
  "service_port w record name p s =
     bindR (ok_or InvalidPort (List.find (named_port name Input) (is_ports (sv_contract record)))) (\<lambda>declared.
       if \<not> pt_matches (ps_schema declared) p then Inl SchemaMismatch
       else bindR (check_ref w s (sv_service record)) (\<lambda>a.
            bindR (ok_or InterfaceMismatch (a_component a)) (\<lambda>descriptor.
            bindR (ok_or InvalidPort (position (named_port name Input) (cd_ports descriptor))) (\<lambda>index.
            bindR (ok_or InvalidPort (vec_get (cd_ports descriptor) index)) (\<lambda>spec.
              if \<not> pt_matches (ps_schema spec) p then Inl SchemaMismatch
              else Inr (PortRef (sv_service record) index))))))"

definition service_request ::
  "inner \<Rightarrow> service_lease \<Rightarrow> bytes \<Rightarrow> payload \<Rightarrow> instant \<Rightarrow> message_options \<Rightarrow> state \<Rightarrow> operation_id rstep" where
  "service_request w lease name p deadline opts s = do {
     v \<leftarrow> validate_lease_locked w lease s;
     try_in s v (\<lambda>record. do {
       x \<leftarrow> execution_state_locked w s (sl_scope lease);
       try_in s x (\<lambda>l.
         if l \<noteq> Active then Some (s, Inl ActorNotReady)
         else try_in s (service_port w record name p s) (\<lambda>port.
                request_with_port w (sl_scope lease) (sl_service lease) p deadline opts (Some port) s))
     })
   }"

definition service_link :: "inner \<Rightarrow> service_lease \<Rightarrow> bytes \<Rightarrow> port_ref \<Rightarrow> state \<Rightarrow> nat rstep" where
  "service_link w lease output target s = do {
     v \<leftarrow> validate_lease_locked w lease s;
     try_in s v (\<lambda>record.
       if \<not> list_ex (named_port output Output) (is_ports (sv_contract record)) then Some (s, Inl InvalidPort)
       else try_in s (check_ref w s (sv_service record)) (\<lambda>a.
            try_in s (ok_or InterfaceMismatch (a_component a)) (\<lambda>descriptor.
            try_in s (ok_or InvalidPort (position (named_port output Output) (cd_ports descriptor))) (\<lambda>index.
              link w (sl_scope lease) (PortRef (sv_service record) index) target s))))
   }"

definition register_service :: "inner \<Rightarrow> bytes \<Rightarrow> actor_ref \<Rightarrow> interface_spec \<Rightarrow> state \<Rightarrow> unit rstep" where
  "register_service w name target required s =
     (if \<not> valid_name name then Some (s, Inl InvalidConfig)
      else if bm_get (sx_records (st_services s)) name \<noteq> None \<or> sx_by_target (st_services s) target \<noteq> None
      then Some (s, Inl InvalidConfig)
      else if length (sx_records (st_services s)) \<ge> cfg_max_services (in_cfg w)
      then Some (s, Inl LimitExceeded)
      else try_in s (check_ref w s target) (\<lambda>a.
        if a_kind a \<noteq> Native \<or> a_parent a \<noteq> None \<or> a_state a \<noteq> Active
        then Some (s, Inl InterfaceMismatch)
        else try_in s (ok_or InterfaceMismatch (a_component a)) (\<lambda>descriptor.
          if \<not> contract_matches descriptor required then Some (s, Inl InterfaceMismatch)
          else map_option (\<lambda>s1. (touch_activity s1, Inr ()))
                 (mark_activity_dependents_locked w target
                   (s\<lparr>st_services := sx_register name target required (st_services s)\<rparr>)))))"

text \<open>The checks of \<^verbatim>\<open>acquire_service_locked_target\<close> before a scope is allocated.\<close>

definition acquire_check ::
  "inner \<Rightarrow> actor_ref \<Rightarrow> bytes \<Rightarrow> interface_spec \<Rightarrow> actor_ref option \<Rightarrow> state \<Rightarrow> actor_ref result option" where
  "acquire_check w owner name required expected s =
     (if st_closed s then Some (Inl ActorStopped)
      else if \<not> valid_name name then Some (Inl InvalidConfig)
      else do {
        x \<leftarrow> execution_state_locked w s owner;
        Some (bindR x (\<lambda>l.
          if \<not> open_state l then Inl ActorStopped
          else bindR (ok_or (if expected \<noteq> None then StaleReference else NotFound)
                       (bm_get (sx_records (st_services s)) name)) (\<lambda>record.
            if (case expected of None \<Rightarrow> False | Some e \<Rightarrow> e \<noteq> sv_service record) then Inl StaleReference
            else if \<not> contracts_equal (sv_contract record) required then Inl InterfaceMismatch
            else bindR (check_ref w s (sv_service record)) (\<lambda>a.
              if a_state a \<noteq> Active then Inl ActorStopped
              else if length (sx_leases (st_services s)) \<ge> cfg_max_service_leases (in_cfg w)
                   \<or> sx_holder_count (st_services s) owner \<ge> cfg_max_leases_per_actor (in_cfg w)
              then Inl LimitExceeded
              else Inr (sv_service record)))))
      })"

definition acquire_service_locked_target ::
  "inner \<Rightarrow> actor_ref \<Rightarrow> bytes \<Rightarrow> interface_spec \<Rightarrow> actor_ref option \<Rightarrow> state \<Rightarrow> service_lease rstep" where
  "acquire_service_locked_target w owner name required expected s = do {
     c \<leftarrow> acquire_check w owner name required expected s;
     try_in s c (\<lambda>service. do {
       (s1, r) \<leftarrow> allocate_locked w Native (Some owner) s;
       try_in s1 r (\<lambda>scope.
       try_in s1 (check_upd w scope (\<lambda>a. a\<lparr>a_state := Active\<rparr>) s1) (\<lambda>s2. do {
         s3 \<leftarrow> refresh_python_ready_locked w scope s2;
         let lease = ServiceLease scope owner service;
         g \<leftarrow> sx_acquire name lease (st_services s3);
         s4 \<leftarrow> mark_activity_dependents_locked w scope (s3\<lparr>st_services := g\<rparr>);
         s5 \<leftarrow> mark_activity_dependents_locked w service s4;
         Some (touch_activity s5, Inr lease)
       }))
     })
   }"

definition acquire_service :: "inner \<Rightarrow> actor_ref \<Rightarrow> bytes \<Rightarrow> interface_spec \<Rightarrow> state \<Rightarrow> service_lease rstep" where
  "acquire_service w owner name required s = acquire_service_locked_target w owner name required None s"

definition acquire_service_from ::
  "inner \<Rightarrow> actor_ref \<Rightarrow> bytes \<Rightarrow> interface_spec \<Rightarrow> actor_ref \<Rightarrow> state \<Rightarrow> service_lease rstep" where
  "acquire_service_from w owner name required expected s =
     (if ar_world expected \<noteq> in_id w then Some (s, Inl CrossWorld)
      else acquire_service_locked_target w owner name required (Some expected) s)"

definition release_service :: "inner \<Rightarrow> service_lease \<Rightarrow> state \<Rightarrow> bool rstep" where
  "release_service w lease s =
     (if lease_crosses w lease then Some (s, Inl CrossWorld)
      else case bm_get (sx_leases (st_services s)) (sl_scope lease) of
        None \<Rightarrow> Some (s, Inr False)
      | Some current \<Rightarrow>
          if current \<noteq> lease then Some (s, Inl StaleReference)
          else do {
            (s1, r) \<leftarrow> stop_locked w (sl_scope lease) s;
            try_in s1 r (\<lambda>_. Some (touch_activity s1, Inr True))
          })"

definition services :: "state \<Rightarrow> service_snapshot list" where
  "services s = sx_services (st_services s)"

definition service_leases :: "state \<Rightarrow> service_lease list" where
  "service_leases s = sx_service_leases (st_services s)"

end
