(* ===== verification/World_Supervision.thy ===== *)
theory World_Supervision
  imports World_Components Buffers
begin

text \<open>
  Supervision, \<^verbatim>\<open>supervision.rs\<close>: failure reports, the one pending notification per child, its claim by
  the supervisor, and the failure actions. Native callback claims, \<^verbatim>\<open>callbacks.rs\<close>, share the control
  slot. The World snapshot of \<^verbatim>\<open>lib.rs\<close>.
\<close>

section \<open>Failure reports\<close>

definition apply_failure_action :: "inner \<Rightarrow> actor_ref \<Rightarrow> failure_action \<Rightarrow> state \<Rightarrow> unit rstep" where
  "apply_failure_action w r action s =
     (case action of
        Continue \<Rightarrow> Some (s, Inr ())
      | StopWorld \<Rightarrow> map_option (\<lambda>(s1, _). (s1, Inr ())) (close_locked w s)
      | StopActor \<Rightarrow>
          map_option (\<lambda>(s1, x). (s1, case x of
              Inr _ \<Rightarrow> Inr ()
            | Inl e \<Rightarrow> if e = StaleReference then Inr () else Inl e)) (stop_locked w r s))"

text \<open>The operation must be served by the reporting actor or one of its descendants: the walk from the
  target upwards finds it.\<close>

fun reporter_owns :: "inner \<Rightarrow> state \<Rightarrow> nat \<Rightarrow> actor_ref \<Rightarrow> actor_ref \<Rightarrow> bool result option" where
  "reporter_owns w s fuel reporter current =
     (if current = reporter then Some (Inr True)
      else case fuel of
        0 \<Rightarrow> None
      | Suc n \<Rightarrow>
          (case check_ref w s current of
             Inl e \<Rightarrow> Some (Inl e)
           | Inr a \<Rightarrow>
               (case a_parent a of
                  None \<Rightarrow> Some (Inr False)
                | Some parent \<Rightarrow> reporter_owns w s n reporter parent)))"

declare reporter_owns.simps [simp del]

definition report_check :: "inner \<Rightarrow> actor_ref \<Rightarrow> operation_id option \<Rightarrow> state \<Rightarrow> unit result option" where
  "report_check w r operation s =
     (case operation of
        None \<Rightarrow> Some (Inr ())
      | Some oid \<Rightarrow>
          if op_world oid \<noteq> in_id w then Some (Inl CrossWorld)
          else (case op_status (st_operations s) oid of
             Inr (OpPending pending) \<Rightarrow>
               map_option (\<lambda>x. bindR x (\<lambda>owned. if owned then Inr () else Inl InvalidConfig))
                 (reporter_owns w s (Suc (chain_fuel s)) r (po_target pending))
           | _ \<Rightarrow> Some (Inr ())))"

text \<open>Whether the failure is announced to a supervisor that can still claim it.\<close>

definition notifies :: "inner \<Rightarrow> failure_details \<Rightarrow> actor_ref option \<Rightarrow> state \<Rightarrow> bool" where
  "notifies w details parent s \<longleftrightarrow>
     fd_phase details \<noteq> Supervisor
     \<and> (case parent of
          None \<Rightarrow> False
        | Some p \<Rightarrow>
            (case check_ref w s p of
               Inl e \<Rightarrow> False
             | Inr pa \<Rightarrow> a_state pa \<in> {Starting, Active, Quiescing}))"

definition settle_failed_operation :: "inner \<Rightarrow> operation_id option \<Rightarrow> state \<Rightarrow> state option" where
  "settle_failed_operation w operation s =
     (case operation of
        None \<Rightarrow> Some s
      | Some oid \<Rightarrow> do {
          let (s1, now) = read_now w s;
          s2 \<leftarrow> expire_and_count w None oid now s1;
          (s3, x) \<leftarrow> complete_operation_locked w oid handler_failed s2;
          Some (if unwrap_or False x then count_completed s3 else s3)
        })"

definition note_failure :: "nat option \<Rightarrow> failure_record \<Rightarrow> actor \<Rightarrow> actor" where
  "note_failure event_id record a =
     a\<lparr>a_reported_failure := event_id, a_errors := saturating_add u64_max (a_errors a) 1,
       a_last_error := Some record\<rparr>"

text \<open>One pending notification per child: a second failure is counted on it.\<close>

definition post_notification :: "failure_record \<Rightarrow> actor_ref \<Rightarrow> actor_ref option \<Rightarrow> state \<Rightarrow> inner \<Rightarrow> unit rstep" where
  "post_notification record r parent s w =
     try_in s (check_ref w s r) (\<lambda>a.
       case a_notification a of
         Some pending \<Rightarrow>
           Some (upd_metrics (\<lambda>m. m\<lparr>m_notifications_coalesced := m_notifications_coalesced m + 1\<rparr>)
             (upd_actor r (\<lambda>a. a\<lparr>a_notification :=
                Some (pending\<lparr>nt_coalesced := saturating_add u64_max (nt_coalesced pending) 1\<rparr>)\<rparr>) s), Inr ())
       | None \<Rightarrow>
           (let s1 = upd_actor r (\<lambda>a. a\<lparr>a_notification := Some \<lparr>nt_failure = record, nt_coalesced = 0\<rparr>\<rparr>) s
            in case parent of
                 None \<Rightarrow> None
               | Some p \<Rightarrow>
                   try_in s1 (check_upd w p (\<lambda>a. a\<lparr>a_pending_failures := a_pending_failures a + 1\<rparr>) s1)
                     (\<lambda>s2. Some (s2, Inr ()))))"

definition report_failure ::
  "inner \<Rightarrow> actor_ref \<Rightarrow> nat option \<Rightarrow> nat option \<Rightarrow> operation_id option \<Rightarrow> failure_details \<Rightarrow>
   failure_action \<Rightarrow> state \<Rightarrow> failure_record rstep" where
  "report_failure w r event_id schema operation details action s =
     map_option touch_all (try_in s (check_ref w s r) (\<lambda>actor.
       if a_state actor = Stopped then Some (s, Inl ActorStopped)
       else do {
         c \<leftarrow> report_check w r operation s;
         try_in s c (\<lambda>_.
         try_in s (ok_or LimitExceeded (checked_add u64_max (st_next_failure s) 1)) (\<lambda>next_failure. do {
           let notify = notifies w details (a_parent actor) s;
           let (s1, now) = read_now w (s\<lparr>st_next_failure := next_failure\<rparr>);
           let record = \<lparr>fr_sequence = st_next_failure s, fr_elapsed_ns = elapsed_ns (st_failure_epoch s) now,
              fr_actor = r, fr_event_id = event_id, fr_schema = schema, fr_operation = operation,
              fr_details = details, fr_action = action\<rparr>;
           let (s2, at) = read_now w (upd_metrics (\<lambda>m. m\<lparr>m_failures := m_failures m + 1\<rparr>) s1);
           let s3 = s2\<lparr>st_diagnostics := record_failure at record (st_diagnostics s2),
                       st_last_error := Some record\<rparr>;
           s4 \<leftarrow> settle_failed_operation w operation s3;
           try_in s4 (check_upd w r (note_failure event_id record) s4) (\<lambda>s5. do {
             (s6, n) \<leftarrow> (if notify then post_notification record r (a_parent actor) s5 w else Some (s5, Inr ()));
             try_in s6 n (\<lambda>_. do {
               s7 \<leftarrow> mark_activity_dependents_locked w r s6;
               (s8, x) \<leftarrow> apply_failure_action w r action s7;
               try_in s8 x (\<lambda>_. do {
                 s9 \<leftarrow> (case a_parent actor of
                          None \<Rightarrow> Some s8
                        | Some p \<Rightarrow> refresh_python_ready_locked w p s8);
                 Some (s9, Inr record)
               })
             })
           })
         }))
       }))"

section \<open>Notifications\<close>

record failure_lease =
  fl_supervisor :: actor_ref
  fl_notification :: notification

text \<open>The child with the oldest pending notification; \<^verbatim>\<open>min_by_key\<close> keeps the first minimum.\<close>

fun oldest_notification :: "(actor_ref \<times> nat) list \<Rightarrow> (actor_ref \<times> nat) option" where
  "oldest_notification [] = None"
| "oldest_notification ((c, n) # rest) =
     (case oldest_notification rest of
        None \<Rightarrow> Some (c, n)
      | Some (c', n') \<Rightarrow> if n \<le> n' then Some (c, n) else Some (c', n'))"

definition pending_notification :: "inner \<Rightarrow> state \<Rightarrow> actor_ref \<Rightarrow> (actor_ref \<times> nat) option" where
  "pending_notification w s child =
     (case check_ref w s child of
        Inl e \<Rightarrow> None
      | Inr a \<Rightarrow> map_option (\<lambda>nt. (child, fr_sequence (nt_failure nt))) (a_notification a))"

definition take_control :: "actor \<Rightarrow> actor" where
  "take_control a = a\<lparr>a_pending_failures := a_pending_failures a - 1, a_control_in_flight := True\<rparr>"

definition claim_failure :: "inner \<Rightarrow> actor_ref \<Rightarrow> state \<Rightarrow> failure_lease option rstep" where
  "claim_failure w supervisor s =
     map_option touch_all (try_in s (check_ref w s supervisor) (\<lambda>actor.
       if a_in_flight actor \<or> a_control_in_flight actor then Some (s, Inr None)
       else do {
         x \<leftarrow> execution_state_locked w s supervisor;
         try_in s x (\<lambda>l.
           if \<not> running l then Some (s, Inr None)
           else case oldest_notification (List.map_filter (pending_notification w s) (a_children actor)) of
             None \<Rightarrow> Some (s, Inr None)
           | Some (source, _) \<Rightarrow>
               try_in s (check_ref w s source) (\<lambda>child. do {
                 nt \<leftarrow> a_notification child;
                 let s1 = upd_actor source (\<lambda>a. a\<lparr>a_notification := None\<rparr>) s;
                 try_in s1 (check_upd w supervisor take_control s1) (\<lambda>s2. do {
                   s3 \<leftarrow> mark_activity_dependents_locked w supervisor s2;
                   s4 \<leftarrow> refresh_python_ready_locked w supervisor s3;
                   s5 \<leftarrow> try_finalize w source
                     (upd_metrics (\<lambda>m. m\<lparr>m_notifications_delivered := m_notifications_delivered m + 1\<rparr>) s4);
                   Some (s5, Inr (Some \<lparr>fl_supervisor = supervisor, fl_notification = nt\<rparr>))
                 })
               }))
       }))"

text \<open>\<^verbatim>\<open>FailureLease::finish\<close> and its drop.\<close>

definition failure_lease_finish :: "inner \<Rightarrow> failure_lease \<Rightarrow> failure_action option \<Rightarrow> state \<Rightarrow> unit rstep" where
  "failure_lease_finish w lease action s =
     map_option touch_all (do {
       (s1, result) \<leftarrow> (case action of
            None \<Rightarrow> Some (s, Inr ())
          | Some act \<Rightarrow> apply_failure_action w (fr_actor (nt_failure (fl_notification lease))) act s);
       try_in s1 (check_upd w (fl_supervisor lease) (\<lambda>a. a\<lparr>a_control_in_flight := False\<rparr>) s1) (\<lambda>s2. do {
         s3 \<leftarrow> try_finalize w (fl_supervisor lease) s2;
         Some (s3, result)
       })
     })"

definition clear_control :: "inner \<Rightarrow> actor_ref \<Rightarrow> state \<Rightarrow> state" where
  "clear_control w r s =
     (case check_upd w r (\<lambda>a. a\<lparr>a_control_in_flight := False\<rparr>) s of Inl e \<Rightarrow> s | Inr s1 \<Rightarrow> s1)"

definition failure_lease_drop :: "inner \<Rightarrow> failure_lease \<Rightarrow> state \<Rightarrow> state option" where
  "failure_lease_drop w lease s =
     map_option touch_activity (try_finalize w (fl_supervisor lease)
       (upd_metrics (\<lambda>m. m\<lparr>m_notifications_discarded := m_notifications_discarded m + 1\<rparr>)
         (clear_control w (fl_supervisor lease) s)))"

section \<open>Native callbacks\<close>

definition claim_native_hook :: "inner \<Rightarrow> actor_ref \<Rightarrow> lifecycle \<Rightarrow> state \<Rightarrow> bool rstep" where
  "claim_native_hook w owner expected s =
     map_option touch_all (do {
       x \<leftarrow> execution_state_locked w s owner;
       try_in s x (\<lambda>execution.
       try_in s (check_ref w s owner) (\<lambda>a.
         let eligible = (execution = expected \<and> (expected \<noteq> Starting \<or> a_state a = Starting))
         in if a_kind a \<noteq> Native \<or> \<not> eligible \<or> a_in_flight a \<or> a_control_in_flight a \<or> a_notification a \<noteq> None
            then Some (s, Inr False)
            else do {
              s1 \<leftarrow> mark_activity_dependents_locked w owner
                     (upd_actor owner (\<lambda>a. a\<lparr>a_control_in_flight := True\<rparr>) s);
              s2 \<leftarrow> refresh_python_ready_locked w owner s1;
              Some (s2, Inr True)
            }))
     })"

definition claim_native_callback :: "inner \<Rightarrow> actor_ref \<Rightarrow> bool \<Rightarrow> state \<Rightarrow> bool rstep" where
  "claim_native_callback w owner startup s =
     claim_native_hook w owner (if startup then Starting else Active) s"

definition claim_native_drain_callback :: "inner \<Rightarrow> actor_ref \<Rightarrow> state \<Rightarrow> bool rstep" where
  "claim_native_drain_callback w owner s = claim_native_hook w owner Quiescing s"

definition native_callback_drop :: "inner \<Rightarrow> actor_ref \<Rightarrow> state \<Rightarrow> state option" where
  "native_callback_drop w owner s =
     map_option touch_activity (try_finalize w owner (clear_control w owner s))"

section \<open>Snapshot\<close>

record actor_snapshot =
  sn_reference :: actor_ref
  sn_kind :: endpoint_kind
  sn_state :: lifecycle
  sn_queue_entries :: nat
  sn_queue_bytes :: nat
  sn_staged_entries :: nat
  sn_staged_bytes :: nat
  sn_component :: "component_descriptor option"
  sn_in_flight :: bool
  sn_control_in_flight :: bool
  sn_failure_pending :: bool
  sn_native_tasks :: nat
  sn_python_done :: bool
  sn_parent :: "actor_ref option"
  sn_drain_deadline :: "instant option"

record world_snapshot =
  wn_actors :: "actor_snapshot list"
  wn_retained_payload_bytes :: nat
  wn_subscriptions :: nat
  wn_metrics :: metrics
  wn_operation_pending :: nat
  wn_operation_retained :: nat
  wn_publications_pending :: nat
  wn_publications_retained :: nat
  wn_routing_snapshot_entries :: nat

definition snapshot_actor :: "actor \<Rightarrow> actor_snapshot" where
  "snapshot_actor a =
     \<lparr>sn_reference = a_reference a, sn_kind = a_kind a, sn_state = a_state a,
      sn_queue_entries = length (a_queue a), sn_queue_bytes = a_queue_bytes a,
      sn_staged_entries = length (a_staged a), sn_staged_bytes = a_staged_bytes a,
      sn_component = a_component a, sn_in_flight = a_in_flight a,
      sn_control_in_flight = a_control_in_flight a, sn_failure_pending = (a_notification a \<noteq> None),
      sn_native_tasks = a_native_tasks a, sn_python_done = a_python_done a, sn_parent = a_parent a,
      sn_drain_deadline = a_drain_deadline a\<rparr>"

definition snapshot :: "state \<Rightarrow> world_snapshot" where
  "snapshot s =
     \<lparr>wn_actors = map snapshot_actor (all_actors s), wn_retained_payload_bytes = retained s,
      wn_subscriptions = rt_active_len (st_subs s), wn_metrics = st_metrics s,
      wn_operation_pending = ot_pending (st_operations s),
      wn_operation_retained = retained_terminal_count (st_operations s),
      wn_publications_pending = pb_pending (st_publications s),
      wn_publications_retained = pb_retained (st_publications s),
      wn_routing_snapshot_entries = pb_snapshot_entries (st_publications s)\<rparr>"

section \<open>Native buffers\<close>

text \<open>\<^verbatim>\<open>native_buffer_budget().reserve(n)\<close> and the end of its permit, from \<^verbatim>\<open>buffers.rs\<close>: the reservation shares the
  counter of retained payload bytes.\<close>

definition buffer_reserve :: "inner \<Rightarrow> nat \<Rightarrow> state \<Rightarrow> state \<times> unit result" where
  "buffer_reserve w n s =
     (case reserve_alone (cfg_native_payload_budget (in_cfg w)) n (retained s) of
        Inl e \<Rightarrow> (s, Inl e)
      | Inr _ \<Rightarrow> (s\<lparr>st_buffer_bytes := st_buffer_bytes s + n\<rparr>, Inr ()))"

definition buffer_release :: "nat \<Rightarrow> state \<Rightarrow> state" where
  "buffer_release n s = s\<lparr>st_buffer_bytes := st_buffer_bytes s - n\<rparr>"

end
