(* ===== verification/World_Steps.thy ===== *)
theory World_Steps
  imports World_Supervision Operations_Correct
begin

text \<open>
  Every World operation is a sequence of guarded primitive steps. \<open>wstep\<close> has one rule per primitive
  change of the state: an update of one actor under the guard the code checks, an operation of the
  operation table, the retirement of an actor, and changes of the fields no guard depends on. Locale \<open>step_closed\<close> has a lemma per operation: a predicate that every step keeps is kept by the
  operation, so that an invariant of the primitives is an invariant of the World.
  \<open>alloc_step\<close> adds an actor; \<open>hold_step\<close> changes what an actor is waiting for: a claimed delivery or
  control slot, or a tracked task.
\<close>

section \<open>Results of a method\<close>

text \<open>\<open>post Q x\<close>: if \<open>x\<close> returns, what it returns satisfies \<open>Q\<close>. One rule per combinator, so that goals
  are taken apart along the definition of the method.\<close>

definition post :: "('a \<Rightarrow> bool) \<Rightarrow> 'a option \<Rightarrow> bool" where
  "post Q x \<longleftrightarrow> (\<forall>y. x = Some y \<longrightarrow> Q y)"

named_theorems post_intros \<open>rules that take a postcondition apart along a method\<close>
named_theorems step_intros \<open>how methods and state updates keep a predicate on states\<close>

lemma postD: "post Q x \<Longrightarrow> x = Some y \<Longrightarrow> Q y"
  by (simp add: post_def)

lemma post_mono: "post P x \<Longrightarrow> (\<And>y. P y \<Longrightarrow> Q y) \<Longrightarrow> post Q x"
  by (simp add: post_def)

lemma post_None [post_intros]: "post Q None"
  by (simp add: post_def)

lemma post_Some [post_intros]: "Q y \<Longrightarrow> post Q (Some y)"
  by (simp add: post_def)

lemma post_bind: "(\<And>y. x = Some y \<Longrightarrow> post Q (k y)) \<Longrightarrow> post Q (Option.bind x k)"
  by (cases x) (auto simp: post_def)

lemma post_map: "(\<And>y. x = Some y \<Longrightarrow> Q (f y)) \<Longrightarrow> post Q (map_option f x)"
  by (cases x) (auto simp: post_def)

lemma post_if [post_intros]: "(b \<Longrightarrow> post Q x) \<Longrightarrow> (\<not> b \<Longrightarrow> post Q y) \<Longrightarrow> post Q (if b then x else y)"
  by simp

lemma post_case_option [post_intros]:
  "(z = None \<Longrightarrow> post Q x) \<Longrightarrow> (\<And>a. z = Some a \<Longrightarrow> post Q (f a)) \<Longrightarrow>
   post Q (case z of None \<Rightarrow> x | Some a \<Rightarrow> f a)"
  by (cases z) auto

lemma post_case_sum [post_intros]:
  "(\<And>e. z = Inl e \<Longrightarrow> post Q (f e)) \<Longrightarrow> (\<And>a. z = Inr a \<Longrightarrow> post Q (g a)) \<Longrightarrow>
   post Q (case z of Inl e \<Rightarrow> f e | Inr a \<Rightarrow> g a)"
  by (cases z) auto

lemma post_pair [post_intros]: "post Q (f a b) \<Longrightarrow> post Q (case (a, b) of (a, b) \<Rightarrow> f a b)"
  by simp

lemma post_case_prod: "(\<And>a b. z = (a, b) \<Longrightarrow> post Q (f a b)) \<Longrightarrow> post Q (case z of (a, b) \<Rightarrow> f a b)"
  by (cases z) auto

lemma post_case_list [post_intros]:
  "(z = [] \<Longrightarrow> post Q x) \<Longrightarrow> (\<And>a as. z = a # as \<Longrightarrow> post Q (f a as)) \<Longrightarrow>
   post Q (case z of [] \<Rightarrow> x | a # as \<Rightarrow> f a as)"
  by (cases z) auto

lemma post_case_entry [post_intros]:
  "(\<And>p. z = OpPending p \<Longrightarrow> post Q (f p)) \<Longrightarrow> (\<And>out. z = OpTerminal out \<Longrightarrow> post Q (g out)) \<Longrightarrow>
   post Q (case z of OpPending p \<Rightarrow> f p | OpTerminal out \<Rightarrow> g out)"
  by (cases z) auto

lemma post_case_lifecycle:
  "(l = Starting \<Longrightarrow> post Q x1) \<Longrightarrow> (l = Active \<Longrightarrow> post Q x2) \<Longrightarrow> (l = Quiescing \<Longrightarrow> post Q x3) \<Longrightarrow>
   (l = Stopping \<Longrightarrow> post Q x4) \<Longrightarrow> (l = Stopped \<Longrightarrow> post Q x5) \<Longrightarrow>
   post Q (case l of Starting \<Rightarrow> x1 | Active \<Rightarrow> x2 | Quiescing \<Rightarrow> x3 | Stopping \<Rightarrow> x4 | Stopped \<Rightarrow> x5)"
  by (cases l) auto

lemma post_Let [post_intros]: "post Q (k x) \<Longrightarrow> post Q (let y = x in k y)"
  by simp

lemma post_try [post_intros]:
  "(\<And>e. r = Inl e \<Longrightarrow> Q (s, Inl e)) \<Longrightarrow> (\<And>a. r = Inr a \<Longrightarrow> post Q (k a)) \<Longrightarrow> post Q (try_in s r k)"
  by (cases r) (auto simp: post_def)

section \<open>Primitive steps\<close>

text \<open>What an update of bookkeeping fields leaves alone.\<close>

definition same_core :: "actor \<Rightarrow> actor \<Rightarrow> bool" where
  "same_core a b \<longleftrightarrow> a_reference b = a_reference a \<and> a_ready_order b = a_ready_order a
     \<and> a_kind b = a_kind a \<and> a_state b = a_state a \<and> a_parent b = a_parent a
     \<and> a_children b = a_children a \<and> a_queue b = a_queue a \<and> a_queue_bytes b = a_queue_bytes a
     \<and> a_staged b = a_staged a \<and> a_staged_bytes b = a_staged_bytes a
     \<and> a_in_flight b = a_in_flight a \<and> a_control_in_flight b = a_control_in_flight a
     \<and> a_native_tasks b = a_native_tasks a \<and> (a_python_done a \<longrightarrow> a_python_done b)"

definition fenced :: "lifecycle \<Rightarrow> bool" where
  "fenced l \<longleftrightarrow> l = Stopping \<or> l = Stopped"

inductive actor_step :: "inner \<Rightarrow> actor \<Rightarrow> actor \<Rightarrow> bool" for w where
  as_misc: "same_core a b \<Longrightarrow> actor_step w a b"
| as_push:
    "length (a_queue a) < cfg_mailbox_capacity (in_cfg w) \<Longrightarrow>
     a_queue_bytes a + s_bytes (d_payload d) \<le> cfg_mailbox_bytes (in_cfg w) \<Longrightarrow>
     \<not> fenced (a_state a) \<Longrightarrow> actor_step w a (push_delivery d a)"
| as_port: "a_queue a \<noteq> [] \<Longrightarrow> actor_step w a (set_back_port p a)"
| as_stage:
    "length (a_staged a) < cfg_mailbox_capacity (in_cfg w) \<Longrightarrow>
     s_bytes st \<le> cfg_mailbox_bytes (in_cfg w) - a_staged_bytes a \<Longrightarrow>
     \<not> fenced (a_state a) \<Longrightarrow> actor_step w a (stage_publication prt st n a)"
| as_pop:
    "a_queue a = d # rest \<Longrightarrow>
     actor_step w a (a\<lparr>a_queue := rest, a_queue_bytes := a_queue_bytes a - s_bytes (d_payload d)\<rparr>)"
| as_keep_queue: "actor_step w a (keep_queue now a)"
| as_keep_staged: "actor_step w a (keep_staged now ds a)"
| as_flush: "actor_step w a (a\<lparr>a_staged := [], a_staged_bytes := 0, a_deadlines := ds\<rparr>)"
| as_activate: "a_state a = Starting \<Longrightarrow> actor_step w a (a\<lparr>a_state := Active\<rparr>)"
| as_quiesce: "\<not> fenced (a_state a) \<Longrightarrow> actor_step w a (quiesce_actor cutoff root a)"
| as_fence: "a_state a \<noteq> Stopped \<Longrightarrow> actor_step w a (clear_mailbox a)"

text \<open>The state that results from a successful allocation, and from retiring \<open>r\<close>.\<close>

definition alloc_state ::
  "inner \<Rightarrow> endpoint_kind \<Rightarrow> actor_ref option \<Rightarrow> nat \<Rightarrow> nat \<Rightarrow> state \<Rightarrow> state" where
  "alloc_state w kind parent slot next_order s1 =
     (let r = ActorRef (in_id w) slot (slot_generation s1 slot);
          s2 = put_actor slot (new_actor r (st_next_ready_order s1) kind parent) s1;
          s3 = (case parent of
                  None \<Rightarrow> s2
                | Some p \<Rightarrow> upd_actor p (\<lambda>a. a\<lparr>a_children := a_children a @ [r]\<rparr>) s2)
      in s3\<lparr>st_live_actors := st_live_actors s3 + 1, st_next_ready_order := next_order\<rparr>)"

definition retire_state :: "actor_ref \<Rightarrow> actor \<Rightarrow> state \<Rightarrow> state" where
  "retire_state r a s =
     (let s1 = retire_slot r (upd_actor r (\<lambda>a. a\<lparr>a_state := Stopped\<rparr>) s)
      in case a_parent a of None \<Rightarrow> s1 | Some p \<Rightarrow> absorb_at p r a s1)"

text \<open>Fields that no guard of an actor or operation step reads.\<close>

definition soft_eq :: "state \<Rightarrow> state \<Rightarrow> bool" where
  "soft_eq s t \<longleftrightarrow> st_actors t = st_actors s \<and> st_live_actors t = st_live_actors s
     \<and> st_next_ready_order t = st_next_ready_order s \<and> st_free t = st_free s
     \<and> st_operations t = st_operations s"

inductive wstep :: "inner \<Rightarrow> state \<Rightarrow> state \<Rightarrow> bool" for w where
  ws_soft: "soft_eq s t \<Longrightarrow> wstep w s t"
| ws_operations: "op_step (st_operations s) t \<Longrightarrow> wstep w s (s\<lparr>st_operations := t\<rparr>)"
| ws_actor: "live_at s i = Some a \<Longrightarrow> actor_step w a b \<Longrightarrow> wstep w s (upd_slot i (\<lambda>_. b) s)"
| ws_retire:
    "live_at s (ar_slot r) = Some a \<Longrightarrow> a_reference a = r \<Longrightarrow> finalizable s a \<Longrightarrow>
     wstep w s (retire_state r a s)"

text \<open>The growth of the tree.\<close>

inductive alloc_step :: "inner \<Rightarrow> state \<Rightarrow> state \<Rightarrow> bool" for w where
  ws_alloc:
    "st_live_actors s < cfg_max_actors (in_cfg w) \<Longrightarrow>
     (case parent of None \<Rightarrow> True | Some p \<Rightarrow> \<exists>pa. check_ref w s p = Inr pa \<and> open_state (a_state pa)) \<Longrightarrow>
     checked_add u64_max (st_next_ready_order s) 1 = Some next_order \<Longrightarrow> pop_slot s = (slot, s1) \<Longrightarrow>
     alloc_step w s (alloc_state w kind parent slot next_order s1)"

text \<open>A change of what an actor is waiting for: a claimed delivery, a claimed control slot, a task.\<close>

definition same_but_holds :: "actor \<Rightarrow> actor \<Rightarrow> bool" where
  "same_but_holds a b \<longleftrightarrow> b = a\<lparr>a_in_flight := a_in_flight b, a_control_in_flight := a_control_in_flight b,
     a_native_tasks := a_native_tasks b\<rparr>"

inductive hold_step :: "inner \<Rightarrow> state \<Rightarrow> state \<Rightarrow> bool" for w where
  hs_take:
    "live_at s i = Some a \<Longrightarrow> same_but_holds a b \<Longrightarrow> \<not> fenced (a_state a) \<Longrightarrow>
     hold_step w s (upd_slot i (\<lambda>_. b) s)"
| hs_give:
    "live_at s i = Some a \<Longrightarrow> same_but_holds a b \<Longrightarrow>
     (a_in_flight b \<longrightarrow> a_in_flight a) \<Longrightarrow> (a_control_in_flight b \<longrightarrow> a_control_in_flight a) \<Longrightarrow>
     a_native_tasks b \<le> a_native_tasks a \<Longrightarrow> hold_step w s (upd_slot i (\<lambda>_. b) s)"

text \<open>The hold steps that leave claimed deliveries alone.\<close>

inductive control_step :: "inner \<Rightarrow> state \<Rightarrow> state \<Rightarrow> bool" for w where
  cs_take:
    "live_at s i = Some a \<Longrightarrow> same_but_holds a b \<Longrightarrow> a_in_flight b = a_in_flight a \<Longrightarrow> \<not> fenced (a_state a) \<Longrightarrow>
     control_step w s (upd_slot i (\<lambda>_. b) s)"
| cs_give:
    "live_at s i = Some a \<Longrightarrow> same_but_holds a b \<Longrightarrow> a_in_flight b = a_in_flight a \<Longrightarrow>
     (a_control_in_flight b \<longrightarrow> a_control_in_flight a) \<Longrightarrow>
     a_native_tasks b \<le> a_native_tasks a \<Longrightarrow> control_step w s (upd_slot i (\<lambda>_. b) s)"

lemma control_hold: "control_step w s t \<Longrightarrow> hold_step w s t"
  by (induction rule: control_step.induct) (auto intro: hold_step.intros)

text \<open>The kinds of step together: those that leave claims and tasks alone, those that leave claimed
  deliveries alone, and all.\<close>

definition work_step :: "inner \<Rightarrow> state \<Rightarrow> state \<Rightarrow> bool" where
  "work_step w s t \<longleftrightarrow> wstep w s t \<or> alloc_step w s t"

definition quiet_step :: "inner \<Rightarrow> state \<Rightarrow> state \<Rightarrow> bool" where
  "quiet_step w s t \<longleftrightarrow> work_step w s t \<or> control_step w s t"

definition any_step :: "inner \<Rightarrow> state \<Rightarrow> state \<Rightarrow> bool" where
  "any_step w s t \<longleftrightarrow> work_step w s t \<or> hold_step w s t"

lemma work_steps_any: "(work_step w)\<^sup>*\<^sup>* s t \<Longrightarrow> (any_step w)\<^sup>*\<^sup>* s t"
  by (erule mono_rtranclp [rule_format, rotated]) (simp add: any_step_def)

section \<open>Predicates closed under steps\<close>

lemma live_at_upd: "live_at s i = Some a \<Longrightarrow> upd_slot i f s = upd_slot i (\<lambda>_. f a) s"
  by (simp add: upd_slot_def live_at_def split: option.splits)

lemma upd_slot_none:
  assumes "live_at s i = None"
  shows "upd_slot i f s = s"
proof -
  consider "length (st_actors s) \<le> i" | "i < length (st_actors s)" "st_actors s ! i = None"
    using assms by (auto simp: live_at_def vec_get_def split: option.splits if_splits)
  then show ?thesis
    by cases (simp_all add: upd_slot_def list_update_beyond list_update_same_conv)
qed

lemma check_ref_live: "check_ref w s r = Inr a \<Longrightarrow> live_at s (ar_slot r) = Some a"
  by (auto simp: check_ref_def live_at_def split: if_splits option.splits)

lemma check_ref_actors: "st_actors s = st_actors t \<Longrightarrow> check_ref w s r = check_ref w t r"
  by (simp add: check_ref_def)

lemma refresh_only: "refresh_python_ready_locked w r s = Some s' \<Longrightarrow> \<exists>x. s' = s\<lparr>st_python_ready := x\<rparr>"
  by (auto simp: refresh_python_ready_locked_def Let_def bind_eq_Some_conv
      split: sum.splits if_splits intro: exI [of _ "st_python_ready s"])

lemma mark_only: "mark_activity_dependents_locked w r s = Some s' \<Longrightarrow> \<exists>g. s' = s\<lparr>st_activity := g\<rparr>"
  by (auto simp: mark_activity_dependents_locked_def)

lemma remove_routes_actors: "remove_routes w ns s = Some s' \<Longrightarrow> st_actors s' = st_actors s"
proof (induction ns arbitrary: s)
  case (Cons n ns)
  then show ?case
    by (auto simp: Let_def mark_route_activity_locked_def bind_eq_Some_conv
        split: prod.splits option.splits if_splits dest!: mark_only)
qed simp

lemma execution_not_fenced:
  "execution_state_locked w s r = Some (Inr l) \<Longrightarrow> l \<noteq> Stopping \<Longrightarrow> check_ref w s r = Inr a \<Longrightarrow>
   \<not> fenced (a_state a)"
  by (cases "chain_fuel s") (auto simp: execution_state_locked_def fenced_def)

lemma op_moves:
  "op_reserve owner target deadline t = (t', x1) \<Longrightarrow> op_step t t'"
  "op_set_context oid ctx t = (t', x2) \<Longrightarrow> op_step t t'"
  "op_complete oid outcome t = (t', x3) \<Longrightarrow> op_step t t'"
  "op_take oid t = (t', x4) \<Longrightarrow> op_step t t'"
  "op_release_unsubmitted oid t = (t', x5) \<Longrightarrow> op_step t t'"
  "op_cancel_owner owner t = (t', x6) \<Longrightarrow> op_step t t'"
  "op_stop_target target t = (t', x7) \<Longrightarrow> op_step t t'"
  "op_expire_one oid now t = (t', x8) \<Longrightarrow> op_step t t'"
  by (metis op_step.intros fst_conv)+

text \<open>The client's view: a predicate on states that every primitive step keeps. Each operation keeps it.\<close>

locale step_closed =
  fixes w :: inner and I :: "state \<Rightarrow> bool"
  assumes step: "I s \<Longrightarrow> wstep w s t \<Longrightarrow> I t"
begin

lemma soft: "I s \<Longrightarrow> soft_eq s t \<Longrightarrow> I t"
  by (blast intro: step ws_soft)

lemma bind_state [post_intros]:
  "post I x \<Longrightarrow> (\<And>s. x = Some s \<Longrightarrow> I s \<Longrightarrow> post Q (k s)) \<Longrightarrow> post Q (Option.bind x k)"
  by (cases x) (auto simp: post_def)

lemma bind_pair [post_intros]:
  "post (\<lambda>y. I (fst y)) x \<Longrightarrow> (\<And>s r. x = Some (s, r) \<Longrightarrow> I s \<Longrightarrow> post Q (k (s, r))) \<Longrightarrow>
   post Q (Option.bind x k)"
  by (cases x) (auto simp: post_def)

lemma map_state [post_intros]:
  "post I x \<Longrightarrow> (\<And>s. x = Some s \<Longrightarrow> I s \<Longrightarrow> Q (f s)) \<Longrightarrow> post Q (map_option f x)"
  by (cases x) (auto simp: post_def)

lemma map_pair [post_intros]:
  "post (\<lambda>y. I (fst y)) x \<Longrightarrow> (\<And>s r. x = Some (s, r) \<Longrightarrow> I s \<Longrightarrow> Q (f (s, r))) \<Longrightarrow>
   post Q (map_option f x)"
  by (cases x) (auto simp: post_def)

lemma case_state [post_intros]:
  "I (fst z) \<Longrightarrow> (\<And>s r. z = (s, r) \<Longrightarrow> I s \<Longrightarrow> post Q (f s r)) \<Longrightarrow> post Q (case z of (s, r) \<Rightarrow> f s r)"
  by (cases z) auto

lemmas rest_intros [post_intros] = post_bind post_map post_case_prod

lemma fst_intros [step_intros]:
  "I s \<Longrightarrow> I (fst (s, r))"
  "(b \<Longrightarrow> I (fst x)) \<Longrightarrow> (\<not> b \<Longrightarrow> I (fst y)) \<Longrightarrow> I (fst (if b then x else y))"
  "(\<And>e. z = Inl e \<Longrightarrow> I (fst (f e))) \<Longrightarrow> (\<And>a. z = Inr a \<Longrightarrow> I (fst (g a))) \<Longrightarrow>
   I (fst (case z of Inl e \<Rightarrow> f e | Inr a \<Rightarrow> g a))"
  "I (fst (h a c)) \<Longrightarrow> I (fst (case (a, c) of (a, c) \<Rightarrow> h a c))"
  by (auto split: sum.splits)

lemma state_intros [step_intros]:
  "(b \<Longrightarrow> I s) \<Longrightarrow> (\<not> b \<Longrightarrow> I t) \<Longrightarrow> I (if b then s else t)"
  "(z = None \<Longrightarrow> I s) \<Longrightarrow> (\<And>a. z = Some a \<Longrightarrow> I (f a)) \<Longrightarrow> I (case z of None \<Rightarrow> s | Some a \<Rightarrow> f a)"
  "I (h a c) \<Longrightarrow> I (case (a, c) of (a, c) \<Rightarrow> h a c)"
  by (auto split: option.splits)

lemma fields [step_intros]:
  assumes "I s"
  shows "I (st_metrics_update f1 s)" "I (st_clock_reads_update f2 s)" "I (st_diagnostics_update f3 s)"
    "I (st_activity_update f4 s)" "I (st_python_ready_update f5 s)" "I (st_routing_signal_update f6 s)"
    "I (st_woken_update f7 s)" "I (st_next_addr_update f2 s)" "I (st_next_event_update f2 s)"
    "I (st_next_sub_update f2 s)" "I (st_next_failure_update f2 s)" "I (st_last_error_update f8 s)"
    "I (st_external_update f9 s)" "I (st_closed_update f10 s)" "I (st_interfaces_update f11 s)"
    "I (st_schemas_update f12 s)" "I (st_event_deadlines_update f13 s)"
    "I (st_staged_actors_update f14 s)" "I (st_drain_roots_update f14 s)" "I (st_subs_update f15 s)"
    "I (st_publications_update f16 s)" "I (st_services_update f17 s)" "I (st_buffer_bytes_update f2 s)"
  by (rule soft [OF assms], simp add: soft_eq_def)+

lemma upd_live:
  assumes "I s" "live_at s i = Some a" "actor_step w a (f a)"
  shows "I (upd_slot i f s)"
  using step [OF assms(1) ws_actor [OF assms(2,3)]] live_at_upd [OF assms(2), of f] by simp

text \<open>Bookkeeping updates need no guard, whether or not the slot is taken.\<close>

lemma upd_misc:
  assumes "I s" "\<And>a. same_core a (f a)"
  shows "I (upd_slot i f s)"
proof (cases "live_at s i")
  case None
  then show ?thesis using assms(1) by (simp add: upd_slot_none)
next
  case (Some a)
  show ?thesis by (rule upd_live [OF assms(1) Some]) (rule as_misc [OF assms(2)])
qed

lemma check_misc:
  assumes "check_upd w r f s = Inr s'" "I s" "\<And>a. same_core a (f a)"
  shows "I s'"
  using assms upd_misc [OF assms(2,3)] by (auto simp: check_upd_def bindR_Inr_iff)

lemma operations [step_intros]:
  assumes "I s" "op_step (st_operations s) t"
  shows "I (s\<lparr>st_operations := t\<rparr>)"
  by (rule step [OF assms(1)]) (rule ws_operations [OF assms(2)])

text \<open>Reads, diagnostics, activity and readiness.\<close>

lemma reads [step_intros]:
  assumes "I s"
  shows "I (fst (read_now w s))" "I (fst (next_event_id s))" "I (fst (fetch_sub_id s))"
    "I (fst (make_stored_with w p opts dispatcher s))" "I (drop_handle st s)"
  using fields [OF assms] assms
  by (simp_all add: read_now_def next_event_id_def fetch_sub_id_def make_stored_with_def drop_handle_def
      split: option.splits sum.splits)

lemma diagnostics [step_intros]: "I s \<Longrightarrow> I (diagnostic w code r oid s)"
  by (simp add: diagnostic_def read_now_def fields)

lemma rejects [step_intros]: "I s \<Longrightarrow> I (reject w e r s)"
  by (simp add: reject_def fields diagnostics)

lemma repeats [step_intros]: "I s \<Longrightarrow> I (repeat_diagnostic n w code r oid s)"
  by (induction n arbitrary: s) (simp_all add: diagnostics)

lemma signals [step_intros]:
  assumes "I s"
  shows "I (mark_routing_locked s)" "I (wake_routing s)" "I (close_routing_locked s)"
  using fields [OF assms] assms
  by (simp_all add: mark_routing_locked_def wake_routing_def close_routing_locked_def Let_def fields)

lemma touches [step_intros]: "I s \<Longrightarrow> I (touch_activity s)"
  by (simp add: touch_activity_def Let_def fields signals split: prod.splits)

lemma touch_pairs [step_intros]:
  "I s \<Longrightarrow> I (fst (touch_ok (s, r)))" "I s \<Longrightarrow> I (fst (touch_all (s, x)))"
  "I s \<Longrightarrow> I (fst (or_reject w actor (s, r)))"
  "I s \<Longrightarrow> I (fst ((touch_ok \<circ> or_reject w actor) (s, r)))"
  "I s \<Longrightarrow> I (fst ((touch_all \<circ> or_reject w actor) (s, r)))"
  by (simp_all add: touch_ok_def touch_all_def or_reject_def touches rejects split: sum.splits)

lemma marks [step_intros]: "I s \<Longrightarrow> post I (mark_activity_dependents_locked w r s)"
  unfolding mark_activity_dependents_locked_def
  by (assumption | rule post_intros step_intros)+

lemma route_marks [step_intros]: "I s \<Longrightarrow> post I (mark_route_activity_locked w route s)"
  unfolding mark_route_activity_locked_def
  by (assumption | rule post_intros step_intros)+

lemma operation_marks [step_intros]: "I s \<Longrightarrow> post I (mark_operation_activity_locked w owner target s)"
  unfolding mark_operation_activity_locked_def
  by (assumption | rule post_intros step_intros)+

lemma tree_marks:
  "v = w \<Longrightarrow> I s \<Longrightarrow> post I (mark_tree v fuel r s)" "v = w \<Longrightarrow> I s \<Longrightarrow> post I (mark_trees v fuel rs s)"
proof (induction v fuel r s and v fuel rs s rule: mark_tree_mark_trees.induct)
qed (simp_all, (assumption | rule post_intros step_intros | simp)+)

lemma refreshes [step_intros]: "I s \<Longrightarrow> post I (refresh_python_ready_locked w r s)"
  unfolding refresh_python_ready_locked_def
  by (assumption | rule post_intros step_intros)+

lemma tree_refreshes:
  "v = w \<Longrightarrow> I s \<Longrightarrow> post I (refresh_tree v fuel r s)" "v = w \<Longrightarrow> I s \<Longrightarrow> post I (refresh_trees v fuel rs s)"
proof (induction v fuel r s and v fuel rs s rule: refresh_tree_refresh_trees.induct)
qed (simp_all, (assumption | rule post_intros step_intros | simp)+)

lemma trees [step_intros]:
  "I s \<Longrightarrow> post I (mark_activity_tree_locked w r s)"
  "I s \<Longrightarrow> post I (refresh_python_subtree_locked w r s)"
  by (simp_all add: mark_activity_tree_locked_def refresh_python_subtree_locked_def tree_marks
      tree_refreshes)

lemma syncs [step_intros]: "I s \<Longrightarrow> I (sync_deadline r s)"
  by (simp add: sync_deadline_def fields split: option.splits)

section \<open>Operations and messages\<close>

lemma completions [step_intros]: "I s \<Longrightarrow> post (\<lambda>y. I (fst y)) (complete_operation_locked w oid outcome s)"
  unfolding complete_operation_locked_def
  by (assumption | rule post_intros step_intros | erule op_moves)+

lemma expirations [step_intros]: "I s \<Longrightarrow> post (\<lambda>y. I (fst y)) (expire_operation_locked w oid now s)"
  unfolding expire_operation_locked_def
  by (assumption | rule post_intros step_intros | erule op_moves)+

lemma counts [step_intros]:
  "I s \<Longrightarrow> I (count_timed_out w r oid s)" "I s \<Longrightarrow> I (count_late w target oid s)"
  "I s \<Longrightarrow> I (count_expired n s)"
  by (simp_all add: count_timed_out_def count_late_def count_expired_def fields diagnostics)

lemma expire_counts [step_intros]: "I s \<Longrightarrow> post I (expire_and_count w r oid now s)"
  unfolding expire_and_count_def
  by (assumption | rule post_intros step_intros)+

lemma holds [step_intros]: "I s \<Longrightarrow> post (\<lambda>y. I (fst y)) (hold_with w p opts s)"
  unfolding hold_with_def
  by (assumption | rule post_intros step_intros)+

lemma time_outs [step_intros]: "I s \<Longrightarrow> post (\<lambda>y. I (fst y)) (time_out_result w target oid s)"
  unfolding time_out_result_def
  by (assumption | rule post_intros step_intros)+

lemma finishes [step_intros]: "I s \<Longrightarrow> post (\<lambda>y. I (fst y)) (finish_result w oid target result s)"
  unfolding finish_result_def
  by (assumption | rule post_intros step_intros)+

lemma settles [step_intros]: "I s \<Longrightarrow> post (\<lambda>y. I (fst y)) (settle_result w oid target pending p metadata s)"
  unfolding settle_result_def
  by (assumption | rule post_intros step_intros)+

lemma complete_withs [step_intros]:
  "I s \<Longrightarrow> post (\<lambda>y. I (fst y)) (complete_operation_with w oid target p options s)"
  unfolding complete_operation_with_def
  by (assumption | rule post_intros step_intros)+

lemma cancels [step_intros]: "I s \<Longrightarrow> post (\<lambda>y. I (fst y)) (cancel_operation w oid s)"
  unfolding cancel_operation_def
  by (assumption | rule post_intros step_intros)+

lemma takes [step_intros]: "I s \<Longrightarrow> post (\<lambda>y. I (fst y)) (take_operation w oid s)"
  unfolding take_operation_def
  by (assumption | rule post_intros step_intros | erule op_moves)+

lemma pushes:
  assumes "execution_state_locked w s r = Some x" "x = Inr execution" "check_ref w s r = Inr a"
    and "mailbox_check w execution a (d_payload d) completion = Inr u" "I s"
  shows "I (upd_actor r (push_delivery d) s)"
proof (rule upd_live [where a = a])
  have "execution \<noteq> Stopping" using assms(4) by (auto simp: mailbox_check_def split: if_splits)
  then have "\<not> fenced (a_state a)" using assms(1-3) by (auto dest: execution_not_fenced)
  then show "actor_step w a (push_delivery d a)"
    using assms(4) by (intro as_push) (auto simp: mailbox_check_def split: if_splits)
qed (use assms check_ref_live in auto)

lemma admits [step_intros]:
  "I s \<Longrightarrow> post (\<lambda>y. I (fst y)) (admit w r st sub completion operation s)"
  unfolding admit_def
  by (assumption | rule pushes post_intros step_intros | simp)+

lemma sends [step_intros]: "I s \<Longrightarrow> post (\<lambda>y. I (fst y)) (send_with w r p opts s)"
  unfolding send_with_def
  by (assumption | rule post_intros step_intros)+

lemma send_helds [step_intros]: "I s \<Longrightarrow> post (\<lambda>y. I (fst y)) (send_held w r held s)"
  unfolding send_held_def
  by (assumption | rule post_intros step_intros)+

lemma send_held_froms [step_intros]: "I s \<Longrightarrow> post (\<lambda>y. I (fst y)) (send_held_from w owner target held s)"
  unfolding send_held_from_def
  by (assumption | rule post_intros step_intros)+

lemma ports:
  assumes "check_ref w s r = Inr a" "a_queue a \<noteq> []" "I s"
  shows "I (upd_actor r (set_back_port p) s)"
  by (rule upd_live [OF assms(3) check_ref_live [OF assms(1)]]) (rule as_port [OF assms(2)])

lemma addresses: "address_back w r p s = Some (Inr s') \<Longrightarrow> I s \<Longrightarrow> I s'"
  by (auto simp: address_back_def intro: ports split: sum.splits if_splits)

lemma unsubmitted [step_intros]: "I s \<Longrightarrow> I (release_unsubmitted oid s)"
  unfolding release_unsubmitted_def by (rule operations) (auto intro: op_step.intros)

lemma requests_bound [step_intros]:
  assumes "I s"
  shows "post (\<lambda>y. I (fst y)) (bind_request w owner target oid st destination_port s)"
proof -
  have tail: "post (\<lambda>y. I (fst y))
     (try_in s1 (check_ref w s1 target) (\<lambda>a.
       if a_queue a = [] then None
       else
         (let env = d_envelope (last (a_queue a));
              (t, r) = op_set_context oid
                 \<lparr>hp_stored = st, hp_world = in_id w, hp_envelope = Some env\<rparr> (st_operations s1);
              s2 = s1\<lparr>st_operations := t\<rparr>
          in try_in s2 r (\<lambda>_.
               map_option (\<lambda>s3. (s3, Inr oid)) (mark_activity_dependents_locked w owner s2)))))"
    if "I s1" for s1
    using that by - (assumption | rule post_intros step_intros | erule op_moves)+
  show ?thesis
    unfolding bind_request_def using assms
    by (cases destination_port) (auto intro!: post_bind post_try tail dest: addresses)
qed

lemma requests_locked [step_intros]:
  "I s \<Longrightarrow> post (\<lambda>y. I (fst y)) (request_locked w owner target p opts destination_port s)"
  unfolding request_locked_def
  by (assumption | rule post_intros step_intros | erule op_moves)+

lemma requests [step_intros]:
  "I s \<Longrightarrow> post (\<lambda>y. I (fst y)) (request_with_port w owner target p deadline opts destination_port s)"
  unfolding request_with_port_def
  by (assumption | rule post_intros step_intros)+

section \<open>Routes and publications\<close>

lemma inserts [step_intros]: "I s \<Longrightarrow> post (\<lambda>y. I (fst y)) (insert_route w route s)"
  unfolding insert_route_def
  by (assumption | rule post_intros step_intros)+

lemma subscriptions [step_intros]: "I s \<Longrightarrow> post (\<lambda>y. I (fst y)) (subscribe w source target s)"
  unfolding subscribe_def
  by (assumption | rule post_intros step_intros)+

lemma unsubscriptions [step_intros]: "I s \<Longrightarrow> post (\<lambda>y. I (fst y)) (unsubscribe w n s)"
  unfolding unsubscribe_def
  by (assumption | rule post_intros step_intros)+

lemma enqueues [step_intros]: "I s \<Longrightarrow> post I (enqueue_publication_locked w n s)"
  unfolding enqueue_publication_locked_def
  by (assumption | rule post_intros step_intros)+

lemma abandons [step_intros]: "I s \<Longrightarrow> I (abandon_ticket n s)"
  unfolding abandon_ticket_def by (rule fields)

lemma stages:
  assumes "execution_state_locked w s0 r = Some (Inr Starting)" "st_actors s = st_actors s0"
    and "check_ref w s r = Inr a" "\<not> (length (a_staged a) \<ge> cfg_mailbox_capacity (in_cfg w)
      \<or> s_bytes st > cfg_mailbox_bytes (in_cfg w) - a_staged_bytes a)" "I s"
  shows "I (upd_actor r (stage_publication prt st n) s)"
proof (rule upd_live [where a = a])
  have "check_ref w s0 r = Inr a" using assms(2,3) check_ref_actors by metis
  then have "\<not> fenced (a_state a)" using assms(1) by (auto dest: execution_not_fenced)
  then show "actor_step w a (stage_publication prt st n a)"
    using assms(4) by (intro as_stage) auto
qed (use assms check_ref_live in auto)

lemma make_stored_actors: "make_stored_with w p opts dispatcher s = (s', m) \<Longrightarrow> st_actors s' = st_actors s"
  by (auto simp: make_stored_with_def split: sum.splits)

lemma submits [step_intros]:
  "I s \<Longrightarrow> post (\<lambda>y. I (fst y)) (submit_publication_locked w source source_port p opts completion s)"
  unfolding submit_publication_locked_def
  by (assumption | rule stages post_intros step_intros | simp add: make_stored_actors)+

lemma finish_publications [step_intros]: "I s \<Longrightarrow> post I (finish_publication_locked w p outcome s)"
  unfolding finish_publication_locked_def
  by (assumption | rule post_intros step_intros)+

lemma cancel_publication [step_intros]: "I s \<Longrightarrow> post I (cancel_publication_locked w n outcome s)"
  unfolding cancel_publication_locked_def
  by (assumption | rule post_intros step_intros)+

lemma cancel_each [step_intros]: "I s \<Longrightarrow> post I (cancel_publications w ns outcome s)"
proof (induction ns arbitrary: s)
  case (Cons n ns)
  then show ?case by simp (assumption | rule post_intros step_intros)+
qed (simp add: post_Some)

lemma cancel_sources [step_intros]:
  "I s \<Longrightarrow> post I (cancel_source_publications_locked w source s)"
  "I s \<Longrightarrow> post I (expire_publications_locked w now s)"
  by (simp_all add: cancel_source_publications_locked_def expire_publications_locked_def cancel_each)

section \<open>Expiry and staged publications\<close>

lemma expire_delivery [step_intros]: "I s \<Longrightarrow> post I (expire_delivery_locked w d now s)"
  unfolding expire_delivery_locked_def
  by (assumption | rule post_intros step_intros)+

lemma deadline_removals [step_intros]: "I s \<Longrightarrow> post I (remove_deadline deadline i s)"
  unfolding remove_deadline_def
  by (assumption | rule post_intros step_intros upd_misc | simp add: same_core_def)+

lemma expire_each [step_intros]: "I s \<Longrightarrow> post I (expire_deliveries w now i ds s)"
proof (induction ds arbitrary: s)
  case (Cons d ds)
  then show ?case by simp (assumption | rule post_intros step_intros)+
qed (simp add: post_Some)

text \<open>Updates that only shrink an actor's queues.\<close>

lemma shrinks:
  assumes "\<And>a. actor_step w a (f a)" "I s"
  shows "I (upd_slot i f s)"
proof (cases "live_at s i")
  case None
  then show ?thesis using assms(2) by (simp add: upd_slot_none)
next
  case (Some a)
  show ?thesis by (rule upd_live [OF assms(2) Some]) (rule assms(1))
qed

lemma keeps [step_intros]:
  "I s \<Longrightarrow> I (upd_slot i (keep_queue now) s)"
  "I s \<Longrightarrow> I (upd_slot i (keep_staged now ds) s)"
  "I s \<Longrightarrow> I (upd_slot i (\<lambda>a. a\<lparr>a_staged := [], a_staged_bytes := 0, a_deadlines := ds\<rparr>) s)"
  by (rule shrinks, rule as_keep_queue as_keep_staged as_flush, assumption)+

lemma expire_actors [step_intros]: "I s \<Longrightarrow> post I (expire_actor_events w now owner s)"
  unfolding expire_actor_events_def
  by (assumption | rule post_intros step_intros)+

lemma owner_expiries [step_intros]: "I s \<Longrightarrow> post I (expire_owners w now rs s)"
proof (induction rs arbitrary: s)
  case (Cons r rs)
  then show ?case by simp (assumption | rule post_intros step_intros)+
qed (simp add: post_Some)

lemma event_expiries [step_intros]: "I s \<Longrightarrow> post I (expire_events_locked w now s)"
  unfolding expire_events_locked_def
  by (assumption | rule post_intros step_intros)+

lemma enqueue_each [step_intros]: "I s \<Longrightarrow> post I (enqueue_publications w ns s)"
proof (induction ns arbitrary: s)
  case (Cons n ns)
  then show ?case by simp (assumption | rule post_intros step_intros)+
qed (simp add: post_Some)

lemma flushes [step_intros]: "I s \<Longrightarrow> post I (flush_source w source s)"
  unfolding flush_source_def
  by (assumption | rule post_intros step_intros)+

lemma flush_each [step_intros]: "I s \<Longrightarrow> post I (flush_sources w rs s)"
proof (induction rs arbitrary: s)
  case (Cons r rs)
  then show ?case by simp (assumption | rule post_intros step_intros)+
qed (simp add: post_Some)

lemma flush_all [step_intros]: "I s \<Longrightarrow> post I (flush_staged_locked w s)"
  unfolding flush_staged_locked_def
  by (assumption | rule post_intros step_intros)+

section \<open>Publishing and routing\<close>

lemma publish_bodies [step_intros]:
  "I s \<Longrightarrow> post (\<lambda>y. I (fst y)) (publish_body w source p completion_owner source_port opts s)"
  unfolding publish_body_def
  by (assumption | rule post_intros step_intros)+

lemma publishes [step_intros]:
  "I s \<Longrightarrow> post (\<lambda>y. I (fst y)) (publish_internal w source p completion_owner source_port opts s)"
  unfolding publish_internal_def
  by (assumption | rule post_intros step_intros)+

lemma route_ones [step_intros]: "I s \<Longrightarrow> post (\<lambda>y. I (fst y)) (route_one w p route target s)"
  unfolding route_one_def
  by (assumption | rule post_intros step_intros)+

lemma route_loops [step_intros]:
  "I s \<Longrightarrow> post (\<lambda>y. I (fst y)) (route_loop w routes fuel p destinations s)"
proof (induction fuel arbitrary: p destinations s)
  case 0
  then show ?case by (simp add: post_Some)
next
  case (Suc fuel)
  show ?case
    unfolding route_loop.simps using Suc.prems
    by - (assumption | rule post_intros step_intros Suc.IH)+
qed

lemma route_prepares [step_intros]: "I s \<Longrightarrow> post (\<lambda>y. I (fst y)) (route_prepare w source p s)"
  unfolding route_prepare_def
  by (assumption | rule post_intros step_intros)+

lemma route_batches [step_intros]: "I s \<Longrightarrow> post (\<lambda>y. I (fst y)) (route_batch w s)"
  unfolding route_batch_def
  by (assumption | rule post_intros step_intros)+

section \<open>Finalisation\<close>

lemma retires:
  assumes "live_at s (ar_slot r) = Some a" "a_reference a = r" "finalizable s a" "I s"
    and "refresh_python_ready_locked w r (upd_actor r (\<lambda>a. a\<lparr>a_state := Stopped\<rparr>) s) = Some s'"
  shows "a_parent a = None \<Longrightarrow> I (retire_slot r s')" "a_parent a = Some p \<Longrightarrow> I (absorb_at p r a (retire_slot r s'))"
proof -
  have kept: "I (retire_state r a s)" by (rule step [OF assms(4) ws_retire [OF assms(1-3)]])
  obtain x where s': "s' = (upd_actor r (\<lambda>a. a\<lparr>a_state := Stopped\<rparr>) s)\<lparr>st_python_ready := x\<rparr>"
    using refresh_only [OF assms(5)] by blast
  show "a_parent a = None \<Longrightarrow> I (retire_slot r s')"
    by (rule soft [OF kept]) (simp add: s' soft_eq_def retire_state_def retire_slot_def)
  show "a_parent a = Some p \<Longrightarrow> I (absorb_at p r a (retire_slot r s'))"
    by (rule soft [OF kept])
      (simp add: s' soft_eq_def retire_state_def retire_slot_def absorb_at_def live_at_def upd_slot_def
        split: option.splits)
qed

lemma finalizes: "I s \<Longrightarrow> post I (finalize_loop w fuel r s)"
proof (induction fuel arbitrary: r s)
  case 0
  then show ?case by (simp add: post_None)
next
  case (Suc fuel)
  show ?case
    unfolding finalize_loop.simps using Suc.prems
    by - (rule bind_state, rule refreshes, assumption, rule bind_state, rule marks, assumption,
      (assumption | rule post_bind Suc.IH retires post_intros | blast)+)
qed

lemma try_finalizes [step_intros]: "I s \<Longrightarrow> post I (try_finalize w r s)"
  unfolding try_finalize_def by (rule finalizes)

section \<open>The stop fence\<close>

lemma detaches [step_intros]: "I s \<Longrightarrow> post I (detach_scope w scope s)"
  unfolding detach_scope_def
  by (assumption | rule post_intros step_intros)+

lemma discards_each [step_intros]: "I s \<Longrightarrow> post I (discard_each w supervisor sources s)"
proof (induction sources arbitrary: s)
  case (Cons source sources)
  show ?case
    unfolding discard_each.simps using Cons.prems
    by - (assumption | rule Cons.IH post_intros step_intros | erule check_misc | simp add: same_core_def)+
qed (simp add: post_Some)

lemma discards [step_intros]: "I s \<Longrightarrow> post I (discard_notifications_for w supervisor s)"
  unfolding discard_notifications_for_def
  by (assumption | rule post_intros step_intros)+

lemma participants [step_intros]: "I s \<Longrightarrow> post I (mark_participants w ps s)"
proof (induction ps arbitrary: s)
  case (Cons p ps)
  then show ?case by simp (assumption | rule post_intros step_intros)+
qed (simp add: post_Some)

lemma two_operations:
  assumes "op_step (st_operations s) t1" "op_step t1 t2" "I s"
  shows "I (s\<lparr>st_operations := t2\<rparr>)"
  using operations [OF operations [OF assms(3,1)], of t2] assms(2) by simp

lemma settle_ops [step_intros]: "I s \<Longrightarrow> post I (settle_operations w r s)"
  unfolding settle_operations_def
  by (assumption | rule two_operations post_intros step_intros | erule op_moves)+

lemma route_removals [step_intros]: "I s \<Longrightarrow> post I (remove_routes w ns s)"
proof (induction ns arbitrary: s)
  case (Cons n ns)
  show ?case
    unfolding remove_routes.simps using Cons.prems
    by - (assumption | rule Cons.IH post_intros step_intros)+
qed (simp add: post_Some)

lemma fence_enters [step_intros]: "I s \<Longrightarrow> post I (fence_enter w r s)"
  unfolding fence_enter_def
  by (assumption | rule post_intros step_intros)+

lemma clears:
  assumes "check_ref w s r = Inr a" "a_state a \<noteq> Stopped" "remove_routes w ns s = Some s1" "I s1"
  shows "I (upd_actor r clear_mailbox s1)"
proof (rule upd_live [OF assms(4)])
  show "live_at s1 (ar_slot r) = Some a"
    using check_ref_live assms(1) check_ref_actors [OF remove_routes_actors [OF assms(3)]] by metis
qed (rule as_fence [OF assms(2)])

lemma fence_leaves [step_intros]: "I s \<Longrightarrow> post (\<lambda>y. I (fst y)) (fence_leave w r s)"
  unfolding fence_leave_def
  by (assumption | rule clears post_intros step_intros)+

lemma fence_childs:
  assumes "\<And>r s. I s \<Longrightarrow> post (\<lambda>y. I (fst y)) (fence_loop w fuel r s)"
  shows "I s \<Longrightarrow> post (\<lambda>y. I (fst y)) (fence_children w fuel rs s)"
proof (induction rs arbitrary: s)
  case (Cons r rs)
  show ?case
    unfolding fence_children.simps(2) using Cons.prems
    by - (assumption | rule Cons.IH assms post_intros step_intros)+
qed (simp add: post_Some)

lemma fence_scope_each:
  assumes "\<And>r s. I s \<Longrightarrow> post (\<lambda>y. I (fst y)) (fence_loop w fuel r s)"
  shows "I s \<Longrightarrow> post I (fence_scopes w fuel service rs s)"
proof (induction rs arbitrary: s)
  case (Cons r rs)
  show ?case
    unfolding fence_scopes.simps(2) using Cons.prems
    by - (assumption | rule Cons.IH assms post_intros step_intros)+
qed (simp add: post_Some)

lemma fence_loops: "I s \<Longrightarrow> post (\<lambda>y. I (fst y)) (fence_loop w fuel r s)"
proof (induction fuel arbitrary: r s)
  case 0
  then show ?case by (simp add: post_None)
next
  case (Suc fuel)
  show ?case
    unfolding fence_loop.simps using Suc.prems
    by - (assumption | rule fence_childs [OF Suc.IH] fence_scope_each [OF Suc.IH] post_intros step_intros)+
qed

lemma fences [step_intros]: "I s \<Longrightarrow> post (\<lambda>y. I (fst y)) (fence_locked w r s)"
  unfolding fence_locked_def by (rule fence_loops)

lemma stops [step_intros]:
  "I s \<Longrightarrow> post (\<lambda>y. I (fst y)) (stop_locked w r s)" "I s \<Longrightarrow> post (\<lambda>y. I (fst y)) (stop w r s)"
  unfolding stop_locked_def stop_def
  by (assumption | rule post_intros step_intros)+

section \<open>Drain, maintenance, close\<close>

lemma quiesces:
  assumes "check_ref w s r = Inr a" "\<not> (a_state a = Stopping \<or> a_state a = Stopped)" "I s"
  shows "I (upd_actor r (quiesce_actor cutoff root) s)"
  by (rule upd_live [OF assms(3) check_ref_live [OF assms(1)]]) (use assms(2) in \<open>simp add: as_quiesce fenced_def\<close>)

lemma quiesce_childs:
  assumes "\<And>r d s. I s \<Longrightarrow> post (\<lambda>y. I (fst y)) (quiesce_loop w fuel r root d s)"
  shows "I s \<Longrightarrow> post (\<lambda>y. I (fst y)) (quiesce_children w fuel rs root d s)"
proof (induction rs arbitrary: d s)
  case (Cons r rs)
  show ?case
    unfolding quiesce_children.simps(2) using Cons.prems
    by - (assumption | rule Cons.IH assms post_intros step_intros)+
qed (simp add: post_Some)

lemma quiesce_loops: "I s \<Longrightarrow> post (\<lambda>y. I (fst y)) (quiesce_loop w fuel r root d s)"
proof (induction fuel arbitrary: r d s)
  case 0
  then show ?case by (simp add: post_None)
next
  case (Suc fuel)
  show ?case
    unfolding quiesce_loop.simps using Suc.prems
    by - (assumption | rule quiesces quiesce_childs [OF Suc.IH] post_intros step_intros)+
qed

lemma drains_marked [step_intros]: "I s \<Longrightarrow> post (\<lambda>y. I (fst y)) (mark_quiescing w r root deadline s)"
  unfolding mark_quiescing_def by (rule quiesce_loops)

lemma drains [step_intros]: "I s \<Longrightarrow> post (\<lambda>y. I (fst y)) (drain_locked w r deadline s)"
  unfolding drain_locked_def
  by (assumption | rule post_intros step_intros post_case_lifecycle | erule check_misc | simp add: same_core_def)+

lemma drain_root_settled [step_intros]: "I s \<Longrightarrow> post I (settle_drain_root w now root s)"
  unfolding settle_drain_root_def
  by (assumption | rule post_intros step_intros | erule check_misc | simp add: same_core_def)+

lemma drain_roots_settled [step_intros]: "I s \<Longrightarrow> post I (settle_drain_roots w now rs s)"
proof (induction rs arbitrary: s)
  case (Cons r rs)
  then show ?case by simp (assumption | rule post_intros step_intros)+
qed (simp add: post_Some)

lemma timeouts_diagnosed [step_intros]: "I s \<Longrightarrow> I (diagnose_timeouts w ids s)"
  by (induction ids arbitrary: s) (simp_all add: diagnostics)

lemma operations_expired:
  assumes "op_expire_ids now (st_operations s) = Some y" "y = (t, ids)" "I s"
  shows "I (s\<lparr>st_operations := t\<rparr>)"
  using assms by (auto intro: operations step_expire)

lemma maintenance [step_intros]: "I s \<Longrightarrow> post I (maintain_locked w now s)"
  unfolding maintain_locked_def
  by (assumption | rule operations_expired post_intros step_intros)+

lemma maintains [step_intros]: "I s \<Longrightarrow> post I (maintain w now s)"
  unfolding maintain_def
  by (assumption | rule post_intros step_intros)+

lemma drain_requests [step_intros]: "I s \<Longrightarrow> post (\<lambda>y. I (fst y)) (request_drain w r deadline s)"
  unfolding request_drain_def
  by (assumption | rule post_intros step_intros)+

lemma root_drains [step_intros]: "I s \<Longrightarrow> post I (drain_roots w deadline rs s)"
proof (induction rs arbitrary: s)
  case (Cons r rs)
  then show ?case by simp (assumption | rule post_intros step_intros)+
qed (simp add: post_Some)

lemma drain_alls [step_intros]: "I s \<Longrightarrow> post (\<lambda>y. I (fst y)) (drain_all w deadline s)"
  unfolding drain_all_def
  by (assumption | rule post_intros step_intros)+

lemma fence_each [step_intros]: "I s \<Longrightarrow> post I (fence_refs w rs s)"
proof (induction rs arbitrary: s)
  case (Cons r rs)
  then show ?case by simp (assumption | rule post_intros step_intros)+
qed (simp add: post_Some)

lemma closes [step_intros]:
  "I s \<Longrightarrow> post (\<lambda>y. I (fst y)) (close_locked w s)" "I s \<Longrightarrow> post (\<lambda>y. I (fst y)) (close w s)"
  unfolding close_locked_def close_def
  by (assumption | rule post_intros step_intros)+

end

end
