(* ===== verification/World_Moves.thy ===== *)
theory World_Moves
  imports World_Steps
begin

text \<open>
  The rest of the operations along the steps of \<open>World_Steps\<close>: allocation, activation, components,
  services and failure reports, which rely on free slots being retired, and the operations that claim a
  delivery, the control slot or a task, or give one back.
\<close>

section \<open>Slots\<close>

lemma check_ref_alt:
  "check_ref w s r =
     (if ar_world r \<noteq> in_id w then Inl CrossWorld
      else case live_at s (ar_slot r) of
        None \<Rightarrow> Inl StaleReference
      | Some a \<Rightarrow> if ar_generation (a_reference a) \<noteq> ar_generation r then Inl StaleReference else Inr a)"
  by (auto simp: check_ref_def live_at_def split: option.splits)

lemma check_ref_same: "live_at s (ar_slot r) = live_at t (ar_slot r) \<Longrightarrow> check_ref w s r = check_ref w t r"
  by (simp only: check_ref_alt)

lemma live_put_actor: "i \<noteq> slot \<Longrightarrow> live_at (put_actor slot a s) i = live_at s i"
  by (auto simp: live_at_def put_actor_def vec_get_def nth_append split: option.splits)

lemma live_put_same: "slot \<le> length (st_actors s) \<Longrightarrow> live_at (put_actor slot a s) slot = Some a"
  by (simp add: live_at_def put_actor_def vec_get_def)

lemma live_upd:
  "live_at (upd_slot i f s) j = (if i = j then map_option f (live_at s j) else live_at s j)"
  by (auto simp: live_at_def upd_slot_def vec_get_def split: option.splits)

lemma live_at_bound: "live_at s i = Some a \<Longrightarrow> i < length (st_actors s)"
  by (auto simp: live_at_def vec_get_def split: option.splits if_splits)

lemma live_at_actors: "st_actors s = st_actors t \<Longrightarrow> live_at s i = live_at t i"
  by (simp add: live_at_def)

lemma mark_actors: "mark_activity_dependents_locked w r s = Some s' \<Longrightarrow> st_actors s' = st_actors s"
  by (auto dest: mark_only)

lemma refresh_actors: "refresh_python_ready_locked w r s = Some s' \<Longrightarrow> st_actors s' = st_actors s"
  by (auto dest: refresh_only)

lemma pop_slot_actors: "pop_slot s = (slot, s1) \<Longrightarrow> st_actors s1 = st_actors s"
  by (auto simp: pop_slot_def split: list.splits)

section \<open>Allocation and activation\<close>

locale world_closed = step_closed +
  assumes alloc: "I s \<Longrightarrow> alloc_step w s t \<Longrightarrow> I t"
    and free_stopped: "I s \<Longrightarrow> i \<in> set (st_free s) \<Longrightarrow> live_at s i = Some a \<Longrightarrow> a_state a = Stopped"
begin

lemma fresh_slot:
  assumes "I s" "pop_slot s = (slot, s1)" "live_at s i = Some a" "a_state a \<noteq> Stopped"
  shows "i \<noteq> slot"
proof
  assume "i = slot"
  show False
  proof (cases "st_free s")
    case Nil
    then show False using assms(2,3) \<open>i = slot\<close> by (auto simp: pop_slot_def dest: live_at_bound)
  next
    case (Cons x xs)
    then have "slot \<in> set (st_free s)" using assms(2) by (auto simp: pop_slot_def)
    then show False using free_stopped [OF assms(1)] assms(3,4) \<open>i = slot\<close> by blast
  qed
qed

lemma parent_kept:
  assumes "I s" "pop_slot s = (slot, s1)" "parent_check w (Some p) s = Some (Inr u)"
  obtains pa where "check_ref w s p = Inr pa" "open_state (a_state pa)" "ar_slot p \<noteq> slot"
    "\<And>x. check_ref w (put_actor slot x s1) p = Inr pa"
proof -
  obtain pa where pa: "check_ref w s p = Inr pa" "open_state (a_state pa)"
    using assms(3) by (auto simp: parent_check_def split: sum.splits if_splits)
  then have "ar_slot p \<noteq> slot"
    using fresh_slot [OF assms(1,2) check_ref_live [OF pa(1)]] by (auto simp: open_state_def)
  moreover from this have "check_ref w (put_actor slot x s1) p = Inr pa" for x
    using pa(1) live_put_actor [of "ar_slot p" slot x s1] live_at_actors [OF pop_slot_actors [OF assms(2)]]
    by (metis check_ref_same)
  ultimately show ?thesis using that pa by blast
qed

lemma alloc_children:
  assumes "I s" "pop_slot s = (slot, s1)" "parent_check w parent s = Some (Inr u)"
  shows "(case parent of None \<Rightarrow> Inr (put_actor slot x s1)
          | Some p \<Rightarrow> check_upd w p f (put_actor slot x s1))
         = Inr (case parent of None \<Rightarrow> put_actor slot x s1
                | Some p \<Rightarrow> upd_actor p f (put_actor slot x s1))"
proof (cases parent)
  case (Some p)
  with assms(3) have "parent_check w (Some p) s = Some (Inr u)" by simp
  from parent_kept [OF assms(1,2) this] obtain pa where "\<And>x. check_ref w (put_actor slot x s1) p = Inr pa"
    by metis
  then show ?thesis using Some by (simp add: check_upd_def)
qed simp

lemma allocs:
  assumes "\<not> st_live_actors s \<ge> cfg_max_actors (in_cfg w)" "parent_check w parent s = Some (Inr u)"
    and "checked_add u64_max (st_next_ready_order s) 1 = Some next_order" "pop_slot s = (slot, s1)" "I s"
  shows "I (alloc_state w kind parent slot next_order s1)"
proof (rule alloc [OF assms(5)], rule ws_alloc [OF _ _ assms(3,4)])
  show "case parent of None \<Rightarrow> True | Some p \<Rightarrow> \<exists>pa. check_ref w s p = Inr pa \<and> open_state (a_state pa)"
    using assms(2) by (auto simp: parent_check_def split: option.splits sum.splits if_splits)
qed (use assms(1) in simp)

lemma allocate_eq:
  assumes "I s" "\<not> st_live_actors s \<ge> cfg_max_actors (in_cfg w)" "parent_check w parent s = Some (Inr u)"
    and "checked_add u64_max (st_next_ready_order s) 1 = Some next_order" "pop_slot s = (slot, s1)"
    and r: "r = ActorRef (in_id w) slot (slot_generation s1 slot)"
  shows "allocate_locked w kind parent s = do {
      s5 \<leftarrow> refresh_python_ready_locked w r (alloc_state w kind parent slot next_order s1);
      s6 \<leftarrow> mark_activity_dependents_locked w r s5;
      Some (s6, Inr r) }"
proof -
  let ?x = "new_actor r (st_next_ready_order s1) kind parent"
  have ok: "ok_or LimitExceeded (checked_add u64_max (st_next_ready_order s) 1) = Inr next_order"
    using assms(4) by (metis ok_or_simps(2))
  show ?thesis
    unfolding allocate_locked_def using assms(2,3)
    by (simp only: if_False Option.bind_lunit try_in_simps ok assms(5) Let_def prod.case
        alloc_children [OF assms(1,5,3)] alloc_state_def r not_True_eq_False)
qed

lemma allocates [step_intros]:
  assumes "I s"
  shows "post (\<lambda>y. I (fst y)) (allocate_locked w kind parent s)"
proof (cases "\<not> st_live_actors s \<ge> cfg_max_actors (in_cfg w) \<and> parent_check w parent s = Some (Inr ())
    \<and> checked_add u64_max (st_next_ready_order s) 1 \<noteq> None")
  case True
  then obtain n slot s1 where *: "checked_add u64_max (st_next_ready_order s) 1 = Some n"
    "pop_slot s = (slot, s1)" by (cases "pop_slot s") auto
  note eq = allocate_eq [OF assms _ _ * refl, of parent "()"]
  have "I (alloc_state w kind parent slot n s1)" by (rule allocs [OF _ _ * assms]) (use True in auto)
  then show ?thesis using True by (simp add: eq) (assumption | rule post_intros step_intros)+
next
  case False
  show ?thesis
  proof (cases "parent_check w parent s")
    case (Some x)
    then show ?thesis using False assms
      by (cases x) (auto simp: allocate_locked_def ok_or_def split: option.splits intro!: post_intros)
  qed (use assms in \<open>simp add: allocate_locked_def post_intros\<close>)
qed

lemma allocations [step_intros]: "I s \<Longrightarrow> post (\<lambda>y. I (fst y)) (allocate w kind parent s)"
  unfolding allocate_def
  by (assumption | rule post_intros step_intros)+

lemma activates:
  assumes "check_ref w s r = Inr a" "a_state a = Starting" "I s"
  shows "I (upd_actor r (\<lambda>a. a\<lparr>a_state := Active\<rparr>) s)"
  by (rule upd_live [OF assms(3) check_ref_live [OF assms(1)]]) (rule as_activate [OF assms(2)])

lemma activations [step_intros]: "I s \<Longrightarrow> post (\<lambda>y. I (fst y)) (activate w r s)"
  unfolding activate_def
  by (assumption | rule activates post_intros step_intros | simp)+

section \<open>Components and services\<close>

lemma components_registered [step_intros]:
  "I s \<Longrightarrow> post (\<lambda>y. I (fst y)) (register_component w owner descriptor s)"
  unfolding register_component_def
  by (assumption | rule post_intros step_intros | erule check_misc | simp add: same_core_def)+

lemma links_made [step_intros]: "I s \<Longrightarrow> post (\<lambda>y. I (fst y)) (link w owner source target s)"
  unfolding link_def
  by (assumption | rule post_intros step_intros)+

lemma port_sends [step_intros]: "I s \<Longrightarrow> post (\<lambda>y. I (fst y)) (send_port_body w p payload opts s)"
  unfolding send_port_body_def
  by (assumption | rule post_intros step_intros | erule addresses | hypsubst)+

lemma port_messages [step_intros]: "I s \<Longrightarrow> post (\<lambda>y. I (fst y)) (send_port_with w p payload opts s)"
  unfolding send_port_with_def
  by (assumption | rule post_intros step_intros)+

text \<open>What a successful allocation did.\<close>

lemma allocate_success:
  assumes "I s" "allocate_locked w kind parent s = Some (s', Inr r)"
  obtains slot s1 next_order where
    "\<not> st_live_actors s \<ge> cfg_max_actors (in_cfg w)" "parent_check w parent s = Some (Inr ())"
    "checked_add u64_max (st_next_ready_order s) 1 = Some next_order" "pop_slot s = (slot, s1)"
    "r = ActorRef (in_id w) slot (slot_generation s1 slot)"
    "soft_eq (alloc_state w kind parent slot next_order s1) s'"
proof -
  obtain slot s1 where slot: "pop_slot s = (slot, s1)" by (cases "pop_slot s")
  have pre: "\<not> st_live_actors s \<ge> cfg_max_actors (in_cfg w)" "parent_check w parent s = Some (Inr ())"
    "checked_add u64_max (st_next_ready_order s) 1 \<noteq> None"
    using assms(2)
    by (cases "parent_check w parent s", simp add: allocate_locked_def split: if_splits,
        case_tac a, auto simp: allocate_locked_def ok_or_def split: if_splits option.splits)+
  then obtain n where n: "checked_add u64_max (st_next_ready_order s) 1 = Some n" by blast
  have "soft_eq (alloc_state w kind parent slot n s1) s'" "r = ActorRef (in_id w) slot (slot_generation s1 slot)"
    using assms(2) allocate_eq [OF assms(1) pre(1,2) n slot refl]
    by (auto simp: bind_eq_Some_conv soft_eq_def dest!: refresh_only mark_only)
  then show ?thesis using that pre(1,2) n slot by blast
qed

lemma live_put_only: "live_at (put_actor slot a s) slot = Some b \<Longrightarrow> b = a"
  by (auto simp: live_at_def put_actor_def vec_get_def split: option.splits if_splits)

lemma new_starting:
  assumes "I s" "allocate_locked w kind parent s = Some (s', Inr r)" "check_ref w s' r = Inr a"
  shows "a_state a = Starting"
proof (rule allocate_success [OF assms(1,2)])
  fix slot s1 n
  assume *: "parent_check w parent s = Some (Inr ())" "pop_slot s = (slot, s1)"
    "r = ActorRef (in_id w) slot (slot_generation s1 slot)"
    "soft_eq (alloc_state w kind parent slot n s1) s'"
  let ?x = "new_actor r (st_next_ready_order s1) kind parent"
  have "live_at (alloc_state w kind parent slot n s1) slot = Some a"
    using check_ref_live [OF assms(3)] *(3,4) by (simp add: soft_eq_def live_at_def)
  moreover have "live_at (alloc_state w kind parent slot n s1) slot = live_at (put_actor slot ?x s1) slot"
  proof (cases parent)
    case (Some p)
    with * have "parent_check w (Some p) s = Some (Inr ())" by simp
    from parent_kept [OF assms(1) *(2) this] have "ar_slot p \<noteq> slot" by blast
    then have "live_at (upd_actor p f t) slot = live_at t slot" for f t by (simp add: live_upd)
    then show ?thesis using Some *(3) by (simp add: alloc_state_def Let_def live_at_def)
  qed (simp add: alloc_state_def Let_def live_at_def *(3))
  ultimately have "a = ?x" using live_put_only by metis
  then show ?thesis by (simp add: new_actor_def)
qed

lemma scope_activates:
  assumes "check_upd w r (\<lambda>a. a\<lparr>a_state := Active\<rparr>) s' = Inr t"
    and "allocate_locked w kind parent s = Some (s', Inr r)" "I s" "I s'"
  shows "I t"
  using assms activates new_starting [OF assms(3,2)] by (auto simp: check_upd_def bindR_Inr_iff)

lemma acquires [step_intros]:
  "I s \<Longrightarrow> post (\<lambda>y. I (fst y)) (acquire_service_locked_target w owner name required expected s)"
  unfolding acquire_service_locked_target_def
  by (assumption | rule post_intros step_intros | erule scope_activates | hypsubst)+

lemma services_registered [step_intros]:
  "I s \<Longrightarrow> post (\<lambda>y. I (fst y)) (register_service w name target required s)"
  unfolding register_service_def
  by (assumption | rule post_intros step_intros)+

lemma service_requests [step_intros]:
  "I s \<Longrightarrow> post (\<lambda>y. I (fst y)) (service_request w lease name p deadline opts s)"
  unfolding service_request_def
  by (assumption | rule post_intros step_intros)+

lemma service_links [step_intros]:
  "I s \<Longrightarrow> post (\<lambda>y. I (fst y)) (service_link w lease output target s)"
  unfolding service_link_def
  by (assumption | rule post_intros step_intros)+

lemma releases [step_intros]: "I s \<Longrightarrow> post (\<lambda>y. I (fst y)) (release_service w lease s)"
  unfolding release_service_def
  by (assumption | rule post_intros step_intros)+

section \<open>Failures\<close>

lemma actions [step_intros]: "I s \<Longrightarrow> post (\<lambda>y. I (fst y)) (apply_failure_action w r action s)"
  unfolding apply_failure_action_def
  by (cases action; simp) (assumption | rule post_intros step_intros)+

lemma failed_operations [step_intros]: "I s \<Longrightarrow> post I (settle_failed_operation w operation s)"
  unfolding settle_failed_operation_def
  by (assumption | rule post_intros step_intros)+

lemma notices [step_intros]: "I s \<Longrightarrow> post (\<lambda>y. I (fst y)) (post_notification record r parent s w)"
  unfolding post_notification_def
  by (assumption | rule post_intros step_intros upd_misc | erule check_misc | simp add: same_core_def)+

lemma failures_reported [step_intros]:
  "I s \<Longrightarrow> post (\<lambda>y. I (fst y)) (report_failure w r event_id schema operation details action s)"
  unfolding report_failure_def
  by (assumption | rule post_intros step_intros | erule check_misc | simp add: same_core_def note_failure_def)+

lemma python_finishes [step_intros]: "I s \<Longrightarrow> post (\<lambda>y. I (fst y)) (finish_python w r s)"
  unfolding finish_python_def
  by (assumption | rule post_intros step_intros | erule check_misc | simp add: same_core_def)+

end

section \<open>Claims and tasks\<close>

text \<open>What the claim of a delivery touches of the actors: only the queue and deadlines of the target.\<close>

lemma expire_operation_actors:
  "expire_operation_locked w oid now s = Some (s', r) \<Longrightarrow> st_actors s' = st_actors s"
  by (auto simp: expire_operation_locked_def try_in_def Let_def mark_operation_activity_locked_def
      bind_eq_Some_conv split: sum.splits prod.splits option.splits if_splits dest!: mark_only)

lemma count_timed_out_actors: "st_actors (count_timed_out w r oid s) = st_actors s"
  by (simp add: count_timed_out_def diagnostic_def read_now_def)

lemma expire_and_count_actors: "expire_and_count w r oid now s = Some s' \<Longrightarrow> st_actors s' = st_actors s"
  by (auto simp: expire_and_count_def count_timed_out_actors dest!: expire_operation_actors
      split: if_splits)

lemma expire_delivery_actors: "expire_delivery_locked w d now s = Some s' \<Longrightarrow> st_actors s' = st_actors s"
  by (auto simp: expire_delivery_locked_def Let_def read_now_def count_expired_def
      split: option.splits dest!: expire_and_count_actors)

lemma screen_delivery_actors: "screen_delivery w r d s = Some (s', keep) \<Longrightarrow> st_actors s' = st_actors s"
  by (auto simp: screen_delivery_def Let_def read_now_def bind_eq_Some_conv
      split: option.splits if_splits dest!: expire_delivery_actors expire_and_count_actors)

definition lifecycle_at :: "state \<Rightarrow> nat \<Rightarrow> lifecycle option" where
  "lifecycle_at s i = map_option a_state (live_at s i)"

lemma lifecycle_upd: "(\<And>a. a_state (f a) = a_state a) \<Longrightarrow> lifecycle_at (upd_slot i f s) j = lifecycle_at s j"
  by (auto simp: lifecycle_at_def live_upd option.map_comp o_def)

lemma lifecycle_actors: "st_actors s = st_actors t \<Longrightarrow> lifecycle_at s i = lifecycle_at t i"
  by (simp add: lifecycle_at_def live_at_def)

lemma lifecycle_sync: "lifecycle_at (sync_deadline r s) i = lifecycle_at s i"
  by (rule lifecycle_actors) (simp add: sync_deadline_def split: option.splits)

lemma lifecycle_pop:
  assumes "pop_delivery r d rest s = Some s'"
  shows "lifecycle_at s' i = lifecycle_at s i"
  using assms
  by (auto simp: pop_delivery_def remove_deadline_def lifecycle_sync lifecycle_upd split: option.splits)

lemma claim_lifecycle:
  assumes "screen_delivery w r d s3 = Some (s4, keep)" "mark_activity_dependents_locked w r s2 = Some s3"
    and "refresh_python_ready_locked w r s1 = Some s2" "pop_delivery r d rest s = Some s1"
    and "lifecycle_at s i = Some l"
  shows "lifecycle_at s4 i = Some l"
  using lifecycle_actors [OF screen_delivery_actors [OF assms(1)]] lifecycle_actors [OF mark_actors [OF assms(2)]]
    lifecycle_actors [OF refresh_actors [OF assms(3)]] lifecycle_pop [OF assms(4)] assms(5) by simp

lemma running_lifecycle:
  assumes "execution_state_locked w s r = Some x" "x = Inr l" "check_ref w s r = Inr a"
    "\<not> (\<not> running l \<or> a_in_flight a \<or> a_control_in_flight a)"
  shows "lifecycle_at s (ar_slot r) = Some (a_state a)" "\<not> fenced (a_state a)"
  using assms check_ref_live [OF assms(3)] execution_not_fenced [of w s r l a]
  by (auto simp: lifecycle_at_def running_def)

lemma upd_slot_twice: "upd_slot i f (upd_slot i g s) = upd_slot i (f \<circ> g) s"
  by (cases "i < length (st_actors s)") (auto simp: upd_slot_def option.map_comp list_update_beyond)

lemma running_not_fenced:
  "execution_state_locked w s r = Some x \<Longrightarrow> x = Inr l \<Longrightarrow> \<not> \<not> running l \<Longrightarrow> check_ref w s r = Inr a \<Longrightarrow>
   \<not> fenced (a_state a)"
  using execution_not_fenced [of w s r l a] by (auto simp: running_def)

lemma notified_lifecycle:
  "check_ref w s r = Inr a \<Longrightarrow>
   lifecycle_at (upd_slot i (\<lambda>a. a\<lparr>a_notification := None\<rparr>) s) (ar_slot r) = Some (a_state a)"
  using check_ref_live [of w s r a] by (simp add: lifecycle_upd) (simp add: lifecycle_at_def)

context step_closed
begin

lemma pops:
  assumes "check_ref w s r = Inr a" "a_queue a = d # rest" "I s"
  shows "post I (pop_delivery r d rest s)"
proof -
  let ?t = "upd_actor r (\<lambda>a. a\<lparr>a_queue := rest, a_queue_bytes := a_queue_bytes a - s_bytes (d_payload d)\<rparr>) s"
  have "I ?t" by (rule upd_live [OF assms(3) check_ref_live [OF assms(1)]]) (rule as_pop [OF assms(2)])
  then show ?thesis
    unfolding pop_delivery_def by - (assumption | rule post_intros step_intros)+
qed

lemma screens [step_intros]: "I s \<Longrightarrow> post (\<lambda>y. I (fst y)) (screen_delivery w r d s)"
  unfolding screen_delivery_def
  by (assumption | rule post_intros step_intros)+

end

locale control_closed = world_closed +
  assumes control: "I s \<Longrightarrow> control_step w s t \<Longrightarrow> I t"
begin

lemma control_taken:
  assumes "I s" "lifecycle_at s i = Some l" "\<not> fenced l"
    and "\<And>a. same_but_holds a (f a) \<and> a_in_flight (f a) = a_in_flight a"
  shows "I (upd_slot i f s)"
proof -
  from assms(2) obtain a where a: "live_at s i = Some a" "a_state a = l" by (auto simp: lifecycle_at_def)
  then show ?thesis
    using control [OF assms(1) cs_take [OF a(1)]] assms(3,4) live_at_upd [OF a(1), of f] by simp
qed

lemma control_given:
  assumes "I s" "\<And>a. same_but_holds a (f a) \<and> a_in_flight (f a) = a_in_flight a"
    and "\<And>a. (a_control_in_flight (f a) \<longrightarrow> a_control_in_flight a) \<and> a_native_tasks (f a) \<le> a_native_tasks a"
  shows "I (upd_slot i f s)"
proof (cases "live_at s i")
  case None
  then show ?thesis using assms(1) by (simp add: upd_slot_none)
next
  case (Some a)
  then show ?thesis
    using control [OF assms(1) cs_give [OF Some]] assms(2,3) [of a] live_at_upd [OF Some, of f] by simp
qed

lemma gives [step_intros]:
  "I s \<Longrightarrow> I (clear_control w r s)"
  "I s \<Longrightarrow> I (upd_slot i (\<lambda>a. a\<lparr>a_native_tasks := a_native_tasks a - 1\<rparr>) s)"
  "I s \<Longrightarrow> I (upd_slot i (\<lambda>a. a\<lparr>a_control_in_flight := False\<rparr>) s)"
  unfolding clear_control_def check_upd_def
  by (auto intro!: control_given simp: same_but_holds_def bindR_def split: sum.splits)

lemma open_taken:
  assumes "check_ref w s r = Inr a" "\<not> \<not> open_state (a_state a)" "I s"
    "\<And>a. same_but_holds a (f a) \<and> a_in_flight (f a) = a_in_flight a"
  shows "I (upd_actor r f s)"
  by (rule control_taken [OF assms(3), of _ "a_state a"])
    (use assms check_ref_live [OF assms(1)] in \<open>auto simp: lifecycle_at_def open_state_def fenced_def\<close>)

lemma tracks [step_intros]: "I s \<Longrightarrow> post (\<lambda>y. I (fst y)) (track_task w r s)"
  unfolding track_task_def
  by (assumption | rule open_taken post_intros step_intros | simp add: same_but_holds_def)+

lemma task_drops [step_intros]: "I s \<Longrightarrow> post I (task_drop w r s)"
  unfolding task_drop_def
  by (assumption | rule post_intros step_intros)+

lemma controls_taken:
  assumes "check_upd w r take_control s = Inr s'" "lifecycle_at s (ar_slot r) = Some l" "\<not> fenced l" "I s"
  shows "I s'"
proof -
  let ?t = "upd_actor r (\<lambda>a. a\<lparr>a_pending_failures := a_pending_failures a - 1\<rparr>) s"
  have "s' = upd_actor r (\<lambda>a. a\<lparr>a_control_in_flight := True\<rparr>) ?t"
    using assms(1) by (auto simp: check_upd_def bindR_Inr_iff upd_slot_twice take_control_def [abs_def] o_def)
  moreover have "I ?t" by (rule upd_misc [OF assms(4)]) (simp add: same_core_def)
  then have "I (upd_actor r (\<lambda>a. a\<lparr>a_control_in_flight := True\<rparr>) ?t)"
    by (rule control_taken [OF _ _ assms(3)]) (simp_all add: lifecycle_upd assms(2) same_but_holds_def)
  ultimately show ?thesis by simp
qed

lemma hooks_taken:
  assumes "execution_state_locked w s r = Some x" "x = Inr l" "check_ref w s r = Inr a" "l \<noteq> Stopping" "I s"
  shows "I (upd_actor r (\<lambda>a. a\<lparr>a_control_in_flight := True\<rparr>) s)"
  by (rule control_taken [OF assms(5), of _ "a_state a"])
    (use assms execution_not_fenced check_ref_live [OF assms(3)] in \<open>auto simp: lifecycle_at_def same_but_holds_def\<close>)

lemma claims_failure [step_intros]: "I s \<Longrightarrow> post (\<lambda>y. I (fst y)) (claim_failure w supervisor s)"
  unfolding claim_failure_def
  by (assumption | rule running_not_fenced notified_lifecycle post_intros step_intros upd_misc
    | erule controls_taken | simp add: same_core_def)+

lemma check_given:
  assumes "check_upd w r (\<lambda>a. a\<lparr>a_control_in_flight := False\<rparr>) s = Inr s'" "I s"
  shows "I s'"
  using assms gives(3) [OF assms(2)] by (auto simp: check_upd_def bindR_Inr_iff)

lemma failure_finishes [step_intros]: "I s \<Longrightarrow> post (\<lambda>y. I (fst y)) (failure_lease_finish w lease action s)"
  unfolding failure_lease_finish_def
  by (assumption | rule post_intros step_intros | erule check_given)+

lemma failure_drops [step_intros]: "I s \<Longrightarrow> post I (failure_lease_drop w lease s)"
  unfolding failure_lease_drop_def
  by (assumption | rule post_intros step_intros)+

lemma hook_claims:
  assumes "expected \<noteq> Stopping" "I s"
  shows "post (\<lambda>y. I (fst y)) (claim_native_hook w owner expected s)"
  unfolding claim_native_hook_def using assms
  by - (assumption | rule hooks_taken post_intros step_intros | simp)+

lemma callback_claims [step_intros]:
  "I s \<Longrightarrow> post (\<lambda>y. I (fst y)) (claim_native_callback w owner startup s)"
  "I s \<Longrightarrow> post (\<lambda>y. I (fst y)) (claim_native_drain_callback w owner s)"
  by (simp_all add: claim_native_callback_def claim_native_drain_callback_def hook_claims)

lemma callback_drops [step_intros]: "I s \<Longrightarrow> post I (native_callback_drop w owner s)"
  unfolding native_callback_drop_def
  by (assumption | rule post_intros step_intros)+

end

locale hold_closed = world_closed +
  assumes hold: "I s \<Longrightarrow> hold_step w s t \<Longrightarrow> I t"
begin

lemma hold_control: "I s \<Longrightarrow> control_step w s t \<Longrightarrow> I t"
  by (blast intro: hold control_hold)

end

sublocale hold_closed \<subseteq> control_closed
  by unfold_locales (rule hold_control)

context hold_closed
begin

lemma hold_taken:
  assumes "I s" "lifecycle_at s i = Some l" "\<not> fenced l" "\<And>a. same_but_holds a (f a)"
  shows "I (upd_slot i f s)"
proof -
  from assms(2) obtain a where a: "live_at s i = Some a" "a_state a = l" by (auto simp: lifecycle_at_def)
  then show ?thesis
    using hold [OF assms(1) hs_take [OF a(1) assms(4)]] assms(3) live_at_upd [OF a(1), of f] by simp
qed

lemma hold_given:
  assumes "I s" "\<And>a. same_but_holds a (f a)"
    and "\<And>a. (a_in_flight (f a) \<longrightarrow> a_in_flight a) \<and> (a_control_in_flight (f a) \<longrightarrow> a_control_in_flight a)
      \<and> a_native_tasks (f a) \<le> a_native_tasks a"
  shows "I (upd_slot i f s)"
proof (cases "live_at s i")
  case None
  then show ?thesis using assms(1) by (simp add: upd_slot_none)
next
  case (Some a)
  then show ?thesis
    using hold [OF assms(1) hs_give [OF Some assms(2)]] assms(3) [of a] live_at_upd [OF Some, of f] by simp
qed

lemma check_taken:
  assumes "check_upd w r f s = Inr s'" "I s" "lifecycle_at s (ar_slot r) = Some l" "\<not> fenced l"
    and "\<And>a. same_but_holds a (f a)"
  shows "I s'"
  using assms hold_taken [OF assms(2-5)] by (auto simp: check_upd_def bindR_Inr_iff)

lemma claim_loops:
  "I s \<Longrightarrow> lifecycle_at s (ar_slot r) = Some l \<Longrightarrow> \<not> fenced l \<Longrightarrow>
   post (\<lambda>y. I (fst y)) (claim_loop w r fuel s)"
proof (induction fuel arbitrary: s)
  case 0
  then show ?case by (simp add: post_None)
next
  case (Suc fuel)
  show ?case
    unfolding claim_loop.simps using Suc.prems
    by - (assumption | rule pops Suc.IH claim_lifecycle post_intros step_intros | erule check_taken
      | simp add: same_but_holds_def)+
qed

lemma claims [step_intros]: "I s \<Longrightarrow> post (\<lambda>y. I (fst y)) (claim w r s)"
  unfolding claim_def
  by (assumption | rule claim_loops running_lifecycle post_intros step_intros | simp)+

lemma flight_given [step_intros]: "I s \<Longrightarrow> I (clear_in_flight r s)"
  unfolding clear_in_flight_def by (auto intro!: hold_given simp: same_but_holds_def)

lemma lease_finishes [step_intros]: "I s \<Longrightarrow> post I (lease_finish w lease success s)"
  unfolding lease_finish_def
  by (assumption | rule post_intros step_intros)+

lemma lease_drops [step_intros]: "I s \<Longrightarrow> post I (lease_drop w lease s)"
  unfolding lease_drop_def
  by (assumption | rule post_intros step_intros)+

end

end
