(* ===== verification/World_Inv.thy ===== *)
theory World_Inv
  imports World_Moves
begin

text \<open>
  The invariant of a World: what is true of its slots, handles, ownership links, free list and
  mailboxes in every state its operations reach. The clauses speak of \<open>live_at\<close>, the map from slots to
  actors.
\<close>

section \<open>The invariant\<close>

type_synonym slots = "nat \<Rightarrow> actor option"

abbreviation gen :: "actor \<Rightarrow> nat" where
  "gen a \<equiv> ar_generation (a_reference a)"

text \<open>An occupant carries the World and slot of its place; its generation is bounded by its readiness
  order, which counts allocations and is checked against overflow.\<close>

definition refs_ok :: "nat \<Rightarrow> nat \<Rightarrow> slots \<Rightarrow> bool" where
  "refs_ok world next_order L \<longleftrightarrow> (\<forall>i a. L i = Some a \<longrightarrow>
     ar_world (a_reference a) = world \<and> ar_slot (a_reference a) = i \<and> 1 \<le> gen a
     \<and> gen a \<le> a_ready_order a \<and> a_ready_order a < next_order)"

definition orders_ok :: "slots \<Rightarrow> bool" where
  "orders_ok L \<longleftrightarrow> (\<forall>i j a b. L i = Some a \<longrightarrow> L j = Some b \<longrightarrow> a_ready_order a = a_ready_order b \<longrightarrow> i = j)"

text \<open>A parent link leads to a slot whose occupant is the parent, older than the child, or a later
  occupant. A child that has not stopped keeps its parent from stopping and is among its children.\<close>

definition parent_ok :: "nat \<Rightarrow> slots \<Rightarrow> actor \<Rightarrow> actor_ref \<Rightarrow> bool" where
  "parent_ok world L a p \<longleftrightarrow> ar_world p = world \<and> (\<exists>pa. L (ar_slot p) = Some pa
     \<and> ar_generation p \<le> gen pa
     \<and> (gen pa = ar_generation p \<longrightarrow> a_ready_order pa < a_ready_order a)
     \<and> (a_state a \<noteq> Stopped \<longrightarrow> a_reference pa = p \<and> a_state pa \<noteq> Stopped \<and> a_reference a \<in> set (a_children pa)))"

definition parents_ok :: "nat \<Rightarrow> slots \<Rightarrow> bool" where
  "parents_ok world L \<longleftrightarrow> (\<forall>i a p. L i = Some a \<longrightarrow> a_parent a = Some p \<longrightarrow> parent_ok world L a p)"

definition children_ok :: "slots \<Rightarrow> bool" where
  "children_ok L \<longleftrightarrow> (\<forall>i a. L i = Some a \<longrightarrow> distinct (a_children a) \<and> (\<forall>c \<in> set (a_children a).
     \<exists>ca. L (ar_slot c) = Some ca \<and> a_reference ca = c \<and> a_parent ca = Some (a_reference a)
       \<and> a_state ca \<noteq> Stopped))"

definition actor_ok :: "inner \<Rightarrow> actor \<Rightarrow> bool" where
  "actor_ok w a \<longleftrightarrow>
     length (a_queue a) \<le> cfg_mailbox_capacity (in_cfg w) \<and> a_queue_bytes a = delivery_bytes (a_queue a)
     \<and> a_queue_bytes a \<le> cfg_mailbox_bytes (in_cfg w)
     \<and> length (a_staged a) \<le> cfg_mailbox_capacity (in_cfg w)
     \<and> a_staged_bytes a = staged_entry_bytes (a_staged a)
     \<and> a_staged_bytes a \<le> cfg_mailbox_bytes (in_cfg w)
     \<and> (fenced (a_state a) \<longrightarrow> a_queue a = [] \<and> a_staged a = [])
     \<and> (a_state a = Stopped \<longrightarrow> \<not> a_in_flight a \<and> \<not> a_control_in_flight a \<and> a_native_tasks a = 0
        \<and> a_python_done a)"

definition mailboxes_ok :: "inner \<Rightarrow> slots \<Rightarrow> bool" where
  "mailboxes_ok w L \<longleftrightarrow> (\<forall>i a. L i = Some a \<longrightarrow> actor_ok w a)"

text \<open>Every slot has had an occupant; the free list holds the stopped ones, once each; the live count
  is the rest and within the limit.\<close>

definition slots_ok :: "inner \<Rightarrow> state \<Rightarrow> bool" where
  "slots_ok w s \<longleftrightarrow> (\<forall>i < length (st_actors s). live_at s i \<noteq> None)
     \<and> distinct (st_free s)
     \<and> (\<forall>i. i \<in> set (st_free s) \<longleftrightarrow> lifecycle_at s i = Some Stopped)
     \<and> st_live_actors s + length (st_free s) = length (st_actors s)
     \<and> st_live_actors s \<le> cfg_max_actors (in_cfg w)
     \<and> 1 \<le> st_next_ready_order s \<and> st_next_ready_order s \<le> u64_max"

definition world_inv :: "inner \<Rightarrow> state \<Rightarrow> bool" where
  "world_inv w s \<longleftrightarrow> refs_ok (in_id w) (st_next_ready_order s) (live_at s) \<and> orders_ok (live_at s)
     \<and> parents_ok (in_id w) (live_at s) \<and> children_ok (live_at s) \<and> mailboxes_ok w (live_at s)
     \<and> slots_ok w s \<and> optable_inv (st_operations s)"

section \<open>Updates of one actor\<close>

definition frame :: "actor \<Rightarrow> actor \<Rightarrow> bool" where
  "frame a b \<longleftrightarrow> a_reference b = a_reference a \<and> a_ready_order b = a_ready_order a
     \<and> a_kind b = a_kind a \<and> a_parent b = a_parent a \<and> a_children b = a_children a
     \<and> (a_state b = Stopped \<longleftrightarrow> a_state a = Stopped)"

lemma upd_slot_fields [simp]:
  "length (st_actors (upd_slot i f s)) = length (st_actors s)" "st_free (upd_slot i f s) = st_free s"
  "st_live_actors (upd_slot i f s) = st_live_actors s"
  "st_next_ready_order (upd_slot i f s) = st_next_ready_order s"
  "st_operations (upd_slot i f s) = st_operations s"
  by (simp_all add: upd_slot_def)

lemma live_upd_const: "live_at s i = Some a \<Longrightarrow> live_at (upd_slot i (\<lambda>_. b) s) = (live_at s)(i \<mapsto> b)"
  by (auto simp: live_upd fun_eq_iff)

lemma refs_ok_upd: "refs_ok world n L \<Longrightarrow> L i = Some a \<Longrightarrow> frame a b \<Longrightarrow> refs_ok world n (L(i \<mapsto> b))"
  by (auto simp: refs_ok_def frame_def)

lemma orders_ok_upd: "orders_ok L \<Longrightarrow> L i = Some a \<Longrightarrow> frame a b \<Longrightarrow> orders_ok (L(i \<mapsto> b))"
  by (auto simp: orders_ok_def frame_def)

lemma parent_ok_upd:
  assumes "parent_ok world L c p" "L i = Some a" "frame a b" "frame c d"
  shows "parent_ok world (L(i \<mapsto> b)) d p"
  using assms by (cases "ar_slot p = i") (auto simp: parent_ok_def frame_def)

lemma frame_refl: "frame a a"
  by (simp add: frame_def)

lemma parents_ok_upd:
  assumes "parents_ok world L" "L i = Some a" "frame a b"
  shows "parents_ok world (L(i \<mapsto> b))"
  unfolding parents_ok_def
proof (intro allI impI)
  fix j c p
  assume "(L(i \<mapsto> b)) j = Some c" "a_parent c = Some p"
  then obtain d where "L j = Some d" "a_parent d = Some p" "frame d c"
    using assms(2,3) by (cases "j = i") (auto simp: frame_def)
  then show "parent_ok world (L(i \<mapsto> b)) c p"
    using assms parent_ok_upd by (metis parents_ok_def)
qed

lemma children_ok_upd:
  assumes "children_ok L" "L i = Some a" "frame a b"
  shows "children_ok (L(i \<mapsto> b))"
  unfolding children_ok_def
proof (intro allI impI)
  fix j c
  assume "(L(i \<mapsto> b)) j = Some c"
  then obtain d where "L j = Some d" "a_children c = a_children d" "a_reference c = a_reference d"
    using assms(2,3) by (cases "j = i") (auto simp: frame_def)
  then show "distinct (a_children c) \<and> (\<forall>k \<in> set (a_children c).
      \<exists>ca. (L(i \<mapsto> b)) (ar_slot k) = Some ca \<and> a_reference ca = k \<and> a_parent ca = Some (a_reference c)
        \<and> a_state ca \<noteq> Stopped)"
    using assms unfolding children_ok_def frame_def by (metis fun_upd_other fun_upd_same option.inject)
qed

lemma mailboxes_ok_upd: "mailboxes_ok w L \<Longrightarrow> actor_ok w b \<Longrightarrow> mailboxes_ok w (L(i \<mapsto> b))"
  by (auto simp: mailboxes_ok_def)

lemma slots_ok_upd:
  assumes "slots_ok w s" "live_at s i = Some a" "frame a b"
  shows "slots_ok w (upd_slot i (\<lambda>_. b) s)"
  using assms
  by (auto simp: slots_ok_def lifecycle_at_def live_upd frame_def)

lemma world_inv_upd:
  assumes "world_inv w s" "live_at s i = Some a" "frame a b" "actor_ok w b"
  shows "world_inv w (upd_slot i (\<lambda>_. b) s)"
  using assms slots_ok_upd [of w s i a b] unfolding world_inv_def live_upd_const [OF assms(2)]
  by (auto intro: refs_ok_upd orders_ok_upd parents_ok_upd children_ok_upd mailboxes_ok_upd)

lemma actor_step_frame: "actor_step w a b \<Longrightarrow> frame a b"
  by (induction rule: actor_step.induct)
    (auto simp: frame_def same_core_def push_delivery_def set_back_port_def stage_publication_def
      keep_queue_def keep_staged_def quiesce_actor_def clear_mailbox_def fenced_def)

lemma filter_bytes:
  "delivery_bytes (filter (\<lambda>d. \<not> P d) ds) + delivery_bytes (filter P ds) = delivery_bytes ds"
  by (induction ds) (auto simp: delivery_bytes_def)

lemma filter_staged_bytes:
  "staged_entry_bytes (filter (\<lambda>d. \<not> P d) ds) + staged_entry_bytes (filter P ds) = staged_entry_bytes ds"
  by (induction ds) (auto simp: staged_entry_bytes_def)

lemma delivery_bytes_append: "delivery_bytes (xs @ ys) = delivery_bytes xs + delivery_bytes ys"
  by (simp add: delivery_bytes_def)

lemma delivery_bytes_port:
  "ds \<noteq> [] \<Longrightarrow> delivery_bytes (butlast ds @ [(last ds)\<lparr>d_envelope := e\<rparr>]) = delivery_bytes ds"
  by (induction ds rule: rev_induct) (simp_all add: delivery_bytes_def)

lemma actor_step_ok: "actor_step w a b \<Longrightarrow> actor_ok w a \<Longrightarrow> actor_ok w b"
proof (induction rule: actor_step.induct)
  case (as_misc a b)
  then show ?case by (auto simp: actor_ok_def same_core_def)
next
  case (as_push a d)
  then show ?case by (auto simp: actor_ok_def push_delivery_def delivery_bytes_def fenced_def)
next
  case (as_port a p)
  then show ?case by (auto simp: actor_ok_def set_back_port_def delivery_bytes_port)
next
  case (as_stage a st prt n)
  then show ?case by (auto simp: actor_ok_def stage_publication_def staged_entry_bytes_def fenced_def)
next
  case (as_pop a d rest)
  then show ?case by (auto simp: actor_ok_def delivery_bytes_def)
next
  case (as_keep_queue a now)
  then show ?case
    using filter_bytes [of "due_delivery now" "a_queue a"]
    by (auto simp: actor_ok_def keep_queue_def intro: le_trans [OF length_filter_le])
next
  case (as_keep_staged a now ds)
  then show ?case
    using filter_staged_bytes [of "due_staged now" "a_staged a"]
    by (auto simp: actor_ok_def keep_staged_def intro: le_trans [OF length_filter_le])
qed (auto simp: actor_ok_def staged_entry_bytes_def delivery_bytes_def quiesce_actor_def clear_mailbox_def fenced_def)

lemma holds_fields:
  assumes "same_but_holds a b"
  shows "a_reference b = a_reference a" "a_ready_order b = a_ready_order a" "a_kind b = a_kind a"
    "a_state b = a_state a" "a_parent b = a_parent a" "a_children b = a_children a"
    "a_queue b = a_queue a" "a_queue_bytes b = a_queue_bytes a" "a_staged b = a_staged a"
    "a_staged_bytes b = a_staged_bytes a" "a_python_done b = a_python_done a"
  using assms [unfolded same_but_holds_def, THEN arg_cong [where f = a_reference]]
    assms [unfolded same_but_holds_def, THEN arg_cong [where f = a_ready_order]]
    assms [unfolded same_but_holds_def, THEN arg_cong [where f = a_kind]]
    assms [unfolded same_but_holds_def, THEN arg_cong [where f = a_state]]
    assms [unfolded same_but_holds_def, THEN arg_cong [where f = a_parent]]
    assms [unfolded same_but_holds_def, THEN arg_cong [where f = a_children]]
    assms [unfolded same_but_holds_def, THEN arg_cong [where f = a_queue]]
    assms [unfolded same_but_holds_def, THEN arg_cong [where f = a_queue_bytes]]
    assms [unfolded same_but_holds_def, THEN arg_cong [where f = a_staged]]
    assms [unfolded same_but_holds_def, THEN arg_cong [where f = a_staged_bytes]]
    assms [unfolded same_but_holds_def, THEN arg_cong [where f = a_python_done]]
  by simp_all

lemma holds_frame: "same_but_holds a b \<Longrightarrow> frame a b"
  by (simp add: frame_def holds_fields)

section \<open>Steps\<close>

lemma soft_inv: "soft_eq s t \<Longrightarrow> world_inv w s \<Longrightarrow> world_inv w t"
proof -
  assume *: "soft_eq s t" "world_inv w s"
  then have "live_at t = live_at s" "lifecycle_at t = lifecycle_at s"
    by (simp_all add: soft_eq_def live_at_def lifecycle_at_def fun_eq_iff)
  then show ?thesis using * by (simp add: soft_eq_def world_inv_def slots_ok_def)
qed

lemma operations_inv: "op_step (st_operations s) t \<Longrightarrow> world_inv w s \<Longrightarrow> world_inv w (s\<lparr>st_operations := t\<rparr>)"
proof -
  assume *: "op_step (st_operations s) t" "world_inv w s"
  have "live_at (s\<lparr>st_operations := t\<rparr>) = live_at s" "lifecycle_at (s\<lparr>st_operations := t\<rparr>) = lifecycle_at s"
    by (simp_all add: live_at_def lifecycle_at_def fun_eq_iff)
  then show ?thesis using * op_step_inv by (auto simp: world_inv_def slots_ok_def)
qed

lemma hold_inv: "hold_step w s t \<Longrightarrow> world_inv w s \<Longrightarrow> world_inv w t"
proof (induction rule: hold_step.induct)
  case (hs_take s i a b)
  then have "actor_ok w a" by (auto simp: world_inv_def mailboxes_ok_def)
  then have "actor_ok w b" using hs_take(2,3) by (simp add: actor_ok_def holds_fields fenced_def)
  then show ?case using world_inv_upd hs_take holds_frame by blast
next
  case (hs_give s i a b)
  then have "actor_ok w a" by (auto simp: world_inv_def mailboxes_ok_def)
  then have "actor_ok w b" using hs_give(2-5) by (auto simp: actor_ok_def holds_fields)
  then show ?case using world_inv_upd hs_give holds_frame by blast
qed

section \<open>Retirement\<close>

text \<open>Slot by slot, what a retirement does: the retired actor has stopped, and no actor lists it as a child.\<close>

definition retired_slots :: "actor_ref \<Rightarrow> slots \<Rightarrow> slots \<Rightarrow> bool" where
  "retired_slots r L L' \<longleftrightarrow> (\<forall>j. (L j = None \<longrightarrow> L' j = None) \<and> (\<forall>c. L j = Some c \<longrightarrow> (\<exists>d. L' j = Some d
     \<and> a_reference d = a_reference c \<and> a_ready_order d = a_ready_order c \<and> a_parent d = a_parent c
     \<and> a_kind d = a_kind c \<and> a_in_flight d = a_in_flight c \<and> a_control_in_flight d = a_control_in_flight c
     \<and> a_native_tasks d = a_native_tasks c
     \<and> a_children d = filter (\<lambda>x. x \<noteq> r) (a_children c)
     \<and> a_state d = (if j = ar_slot r then Stopped else a_state c))))"

lemma retired_back:
  assumes "retired_slots r L L'" "L' j = Some d"
  obtains c where "L j = Some c" "a_reference d = a_reference c" "a_ready_order d = a_ready_order c"
    "a_parent d = a_parent c" "a_children d = filter (\<lambda>x. x \<noteq> r) (a_children c)"
    "a_state d = (if j = ar_slot r then Stopped else a_state c)"
  using assms that unfolding retired_slots_def
  by (metis option.distinct(1) option.exhaust option.inject)

lemma retired_forth:
  assumes "retired_slots r L L'" "L j = Some c"
  obtains d where "L' j = Some d" "a_reference d = a_reference c" "a_ready_order d = a_ready_order c"
    "a_parent d = a_parent c" "a_children d = filter (\<lambda>x. x \<noteq> r) (a_children c)"
    "a_state d = (if j = ar_slot r then Stopped else a_state c)"
  using assms that unfolding retired_slots_def by metis

lemma retired_refs:
  assumes "retired_slots r L L'" "refs_ok world n L"
  shows "refs_ok world n L'"
  unfolding refs_ok_def
proof (intro allI impI)
  fix j d assume "L' j = Some d"
  then show "ar_world (a_reference d) = world \<and> ar_slot (a_reference d) = j \<and> 1 \<le> gen d
     \<and> gen d \<le> a_ready_order d \<and> a_ready_order d < n"
    using retired_back [OF assms(1)] assms(2) unfolding refs_ok_def by metis
qed

lemma retired_orders:
  assumes "retired_slots r L L'" "orders_ok L"
  shows "orders_ok L'"
  unfolding orders_ok_def
proof (intro allI impI)
  fix i j a b
  assume "L' i = Some a" "L' j = Some b" "a_ready_order a = a_ready_order b"
  moreover obtain c where "L i = Some c" "a_ready_order a = a_ready_order c"
    using retired_back [OF assms(1) calculation(1)] by metis
  moreover obtain d where "L j = Some d" "a_ready_order b = a_ready_order d"
    using retired_back [OF assms(1) calculation(2)] by metis
  ultimately show "i = j" using assms(2) by (auto simp: orders_ok_def)
qed

lemma retired_parents:
  assumes "retired_slots r L L'" "parents_ok world L" "refs_ok world n L" "L (ar_slot r) = Some a"
    and "a_children a = []"
  shows "parents_ok world L'"
  unfolding parents_ok_def
proof (intro allI impI)
  fix j d p
  assume "L' j = Some d" "a_parent d = Some p"
  with assms(1) obtain c where c: "L j = Some c" "a_reference d = a_reference c"
    "a_ready_order d = a_ready_order c" "a_parent c = Some p"
    "a_state d = (if j = ar_slot r then Stopped else a_state c)"
    by (metis retired_back)
  have "parent_ok world L c p" using assms(2) c by (auto simp: parents_ok_def)
  then obtain pa where pa: "ar_world p = world" "L (ar_slot p) = Some pa" "ar_generation p \<le> gen pa"
    "gen pa = ar_generation p \<longrightarrow> a_ready_order pa < a_ready_order c"
    "a_state c \<noteq> Stopped \<longrightarrow> a_reference pa = p \<and> a_state pa \<noteq> Stopped \<and> a_reference c \<in> set (a_children pa)"
    by (auto simp: parent_ok_def)
  obtain qa where qa: "L' (ar_slot p) = Some qa" "a_reference qa = a_reference pa"
    "a_ready_order qa = a_ready_order pa" "a_children qa = filter (\<lambda>x. x \<noteq> r) (a_children pa)"
    "a_state qa = (if ar_slot p = ar_slot r then Stopped else a_state pa)"
    using retired_forth [OF assms(1) pa(2)] by metis
  have "a_reference qa = p \<and> a_state qa \<noteq> Stopped \<and> a_reference d \<in> set (a_children qa)"
    if st: "a_state d \<noteq> Stopped"
  proof -
    have j: "j \<noteq> ar_slot r" "a_state c \<noteq> Stopped" using st c(5) by (auto split: if_splits)
    then have "ar_slot p \<noteq> ar_slot r" using pa(2,5) assms(4,5) by auto
    moreover have "a_reference c \<noteq> r" using c(1) j(1) assms(3) by (auto simp: refs_ok_def)
    ultimately show ?thesis using pa(5) j(2) qa c(2) by auto
  qed
  then show "parent_ok world L' d p" using pa qa c by (auto simp: parent_ok_def)
qed

lemma retired_children:
  assumes "retired_slots r L L'" "children_ok L" "refs_ok world n L" "L (ar_slot r) = Some a" "a_reference a = r"
  shows "children_ok L'"
  unfolding children_ok_def
proof (intro allI impI conjI ballI)
  fix j d
  assume "L' j = Some d"
  with assms(1) obtain c where c: "L j = Some c" "a_reference d = a_reference c"
    "a_children d = filter (\<lambda>x. x \<noteq> r) (a_children c)"
    by (rule retired_back)
  have "distinct (a_children c)" using assms(2) c(1) unfolding children_ok_def by blast
  then show "distinct (a_children d)" by (simp add: c(3))
  fix k assume "k \<in> set (a_children d)"
  then have k: "k \<in> set (a_children c)" "k \<noteq> r" using c(3) by auto
  then obtain ca where ca: "L (ar_slot k) = Some ca" "a_reference ca = k"
    "a_parent ca = Some (a_reference c)" "a_state ca \<noteq> Stopped"
    using assms(2) c(1) unfolding children_ok_def by blast
  have "ar_slot k \<noteq> ar_slot r"
  proof
    assume "ar_slot k = ar_slot r"
    then have "ca = a" using ca(1) assms(4) by simp
    then show False using ca(2) assms(5) k(2) by simp
  qed
  moreover obtain ea where "L' (ar_slot k) = Some ea" "a_reference ea = a_reference ca"
    "a_parent ea = a_parent ca" "a_state ea = (if ar_slot k = ar_slot r then Stopped else a_state ca)"
    using retired_forth [OF assms(1) ca(1)] by blast
  ultimately show "\<exists>ca. L' (ar_slot k) = Some ca \<and> a_reference ca = k \<and> a_parent ca = Some (a_reference d)
      \<and> a_state ca \<noteq> Stopped"
    using ca c(2) by simp
qed

text \<open>A finalizable actor has no children left.\<close>

lemma finalizable_childless:
  assumes "children_ok (live_at s)" "live_at s i = Some a" "finalizable s a"
  shows "a_children a = []"
proof (rule ccontr)
  assume "a_children a \<noteq> []"
  then obtain c where "c \<in> set (a_children a)" by (cases "a_children a") auto
  then obtain ca where "live_at s (ar_slot c) = Some ca" "a_reference ca = c" "a_state ca \<noteq> Stopped"
    using assms(1,2) unfolding children_ok_def by blast
  moreover have "child_done s c"
    using assms(3) \<open>c \<in> set (a_children a)\<close> by (simp add: finalizable_def list_all_iff)
  ultimately show False by (simp add: child_done_def)
qed

lemma children_unique_parent:
  assumes "children_ok L" "L j = Some c" "r \<in> set (a_children c)" "L (ar_slot r) = Some a"
  shows "a_parent a = Some (a_reference c)"
  using assms unfolding children_ok_def by (metis option.inject)

lemma retire_live:
  "live_at (retire_state r a s) = live_at (case a_parent a of
      None \<Rightarrow> upd_actor r (\<lambda>a. a\<lparr>a_state := Stopped\<rparr>) s
    | Some p \<Rightarrow> absorb_at p r a (upd_actor r (\<lambda>a. a\<lparr>a_state := Stopped\<rparr>) s))"
  by (auto simp: retire_state_def retire_slot_def absorb_at_def live_at_def upd_slot_def Let_def fun_eq_iff
      split: option.splits)

lemma filter_absent: "r \<notin> set xs \<Longrightarrow> filter (\<lambda>x. x \<noteq> r) xs = xs"
  by (induction xs) auto

lemma retire_slots:
  assumes inv: "world_inv w s" and a: "live_at s (ar_slot r) = Some a" "a_reference a = r" "finalizable s a"
  shows "retired_slots r (live_at s) (live_at (retire_state r a s))"
proof -
  have kids: "children_ok (live_at s)" and refs: "refs_ok (in_id w) (st_next_ready_order s) (live_at s)"
    and pars: "parents_ok (in_id w) (live_at s)"
    using inv by (auto simp: world_inv_def)
  have none: "a_children a = []" by (rule finalizable_childless [OF kids a(1,3)])
  have absent: "r \<notin> set (a_children c)" if "live_at s j = Some c" "a_parent a \<noteq> Some (a_reference c)" for j c
    using children_unique_parent [OF kids that(1) _ a(1)] that(2) by blast
  show ?thesis
  proof (cases "a_parent a")
    case None
    then show ?thesis
      using none absent a(1)
      by (auto simp: retired_slots_def retire_live live_upd filter_absent)
  next
    case (Some p)
    then obtain pa where pa: "live_at s (ar_slot p) = Some pa" "a_reference pa = p"
      "a_ready_order pa < a_ready_order a"
      using pars a(1,3) by (fastforce simp: parents_ok_def parent_ok_def finalizable_def)
    then have ne: "ar_slot p \<noteq> ar_slot r" using a(1) by auto
    have other: "a_parent a \<noteq> Some (a_reference c)" if "live_at s j = Some c" "j \<noteq> ar_slot p" for j c
      using that refs Some by (auto simp: refs_ok_def)
    show ?thesis
      using Some pa ne none absent other a(1)
      by (auto simp: retired_slots_def retire_live live_upd absorb_at_def filter_absent absorb_child_def)
  qed
qed

lemma retire_mailboxes:
  assumes "mailboxes_ok w (live_at s)" "live_at s (ar_slot r) = Some a" "finalizable s a"
  shows "mailboxes_ok w (live_at (retire_state r a s))"
proof -
  let ?t = "upd_actor r (\<lambda>a. a\<lparr>a_state := Stopped\<rparr>) s"
  have "actor_ok w a" using assms(1,2) by (auto simp: mailboxes_ok_def)
  then have "actor_ok w (a\<lparr>a_state := Stopped\<rparr>)"
    using assms(3) by (auto simp: actor_ok_def finalizable_def fenced_def)
  then have ok: "mailboxes_ok w (live_at ?t)"
    using assms(1,2) by (auto simp: mailboxes_ok_def live_upd split: if_splits)
  have "actor_ok w (absorb_child r a b)" if "actor_ok w b" for b
    using that by (auto simp: actor_ok_def absorb_child_def)
  then have "mailboxes_ok w (live_at (absorb_at p r a ?t))" for p
    using ok by (auto simp: mailboxes_ok_def absorb_at_def live_upd [of _ _ ?t] split: option.splits if_splits)
  then show ?thesis using ok by (simp add: retire_live split: option.splits)
qed

lemma retire_fields:
  "st_free (retire_state r a s) = ar_slot r # st_free s"
  "st_live_actors (retire_state r a s) = st_live_actors s - 1"
  "length (st_actors (retire_state r a s)) = length (st_actors s)"
  "st_next_ready_order (retire_state r a s) = st_next_ready_order s"
  "st_operations (retire_state r a s) = fst (op_retire_owner r (st_operations s))"
  by (simp_all add: retire_state_def retire_slot_def absorb_at_def Let_def upd_slot_def split: option.splits)

lemma retired_lifecycle:
  assumes "retired_slots r (live_at s) (live_at t)" "live_at s (ar_slot r) \<noteq> None"
  shows "lifecycle_at t j = (if j = ar_slot r then Some Stopped else lifecycle_at s j)"
proof (cases "live_at s j")
  case None
  then show ?thesis using assms by (auto simp: retired_slots_def lifecycle_at_def)
next
  case (Some c)
  then obtain d where "live_at t j = Some d" "a_state d = (if j = ar_slot r then Stopped else a_state c)"
    using retired_forth [OF assms(1) Some] by blast
  then show ?thesis using Some by (simp add: lifecycle_at_def)
qed

text \<open>Whoever has not stopped is not on the free list, so the live count is positive.\<close>

lemma live_positive:
  assumes "slots_ok w s" "live_at s i = Some a" "a_state a \<noteq> Stopped"
  shows "i \<notin> set (st_free s)" "0 < st_live_actors s"
proof -
  show i: "i \<notin> set (st_free s)" using assms by (simp add: slots_ok_def lifecycle_at_def)
  have "insert i (set (st_free s)) \<subseteq> {..<length (st_actors s)}"
    using assms by (auto simp: slots_ok_def lifecycle_at_def dest: live_at_bound)
  then have "card (insert i (set (st_free s))) \<le> length (st_actors s)"
    by (metis card_lessThan card_mono finite_lessThan)
  then have "length (st_free s) < length (st_actors s)"
    using i assms(1) by (simp add: slots_ok_def distinct_card)
  then show "0 < st_live_actors s" using assms(1) by (auto simp: slots_ok_def)
qed

lemma retire_inv:
  assumes inv: "world_inv w s" and a: "live_at s (ar_slot r) = Some a" "a_reference a = r" "finalizable s a"
  shows "world_inv w (retire_state r a s)"
proof -
  note parts = inv [unfolded world_inv_def]
  have slots: "slots_ok w s" using parts by blast
  note rel = retire_slots [OF inv a]
  have pos: "ar_slot r \<notin> set (st_free s)" "0 < st_live_actors s"
    using live_positive [OF slots a(1)] a(3) by (auto simp: finalizable_def)
  have "slots_ok w (retire_state r a s)"
    unfolding slots_ok_def retire_fields
  proof (intro conjI)
    show "\<forall>i<length (st_actors s). live_at (retire_state r a s) i \<noteq> None"
      using slots rel unfolding slots_ok_def retired_slots_def by (metis option.distinct(1) option.exhaust)
    show "\<forall>i. (i \<in> set (ar_slot r # st_free s)) = (lifecycle_at (retire_state r a s) i = Some Stopped)"
      using slots a(1) by (auto simp: retired_lifecycle [OF rel] slots_ok_def)
  qed (use slots pos in \<open>auto simp: slots_ok_def\<close>)
  moreover have "optable_inv (fst (op_retire_owner r (st_operations s)))"
    using parts op_step_inv [OF step_retire_owner] by blast
  ultimately show ?thesis
    unfolding world_inv_def retire_fields
    using parts retired_refs [OF rel] retired_orders [OF rel] retire_mailboxes [OF _ a(1,3)]
      retired_parents [OF rel _ _ a(1) finalizable_childless [OF _ a(1,3)]]
      retired_children [OF rel _ _ a(1,2)] by blast
qed

lemma wstep_inv: "wstep w s t \<Longrightarrow> world_inv w s \<Longrightarrow> world_inv w t"
proof (induction rule: wstep.induct)
  case (ws_actor s i a b)
  then have "actor_ok w a" by (auto simp: world_inv_def mailboxes_ok_def)
  then show ?case
    using ws_actor world_inv_upd actor_step_frame actor_step_ok by blast
qed (auto intro: soft_inv operations_inv retire_inv)

section \<open>Allocation\<close>

text \<open>Slot by slot, what an allocation does.\<close>

definition grown_slots :: "actor_ref option \<Rightarrow> actor_ref \<Rightarrow> actor \<Rightarrow> slots \<Rightarrow> slots \<Rightarrow> bool" where
  "grown_slots parent r x L L' \<longleftrightarrow> L' (ar_slot r) = Some x \<and> (\<forall>j. j \<noteq> ar_slot r \<longrightarrow>
     L' j = map_option (\<lambda>c. if parent = Some (a_reference c) then c\<lparr>a_children := a_children c @ [r]\<rparr> else c) (L j))"

text \<open>The slot was never used, or its occupant has stopped and has a smaller generation.\<close>

definition fresh_slot_for :: "actor_ref \<Rightarrow> slots \<Rightarrow> bool" where
  "fresh_slot_for r L \<longleftrightarrow> (\<forall>old. L (ar_slot r) = Some old \<longrightarrow> a_state old = Stopped \<and> gen old < ar_generation r)"

definition grows :: "actor_ref option \<Rightarrow> actor_ref \<Rightarrow> actor \<Rightarrow> actor \<Rightarrow> bool" where
  "grows parent r c d \<longleftrightarrow> a_reference d = a_reference c \<and> a_ready_order d = a_ready_order c
     \<and> a_parent d = a_parent c \<and> a_state d = a_state c \<and> a_kind d = a_kind c
     \<and> a_in_flight d = a_in_flight c \<and> a_control_in_flight d = a_control_in_flight c
     \<and> a_native_tasks d = a_native_tasks c
     \<and> a_children d = (if parent = Some (a_reference c) then a_children c @ [r] else a_children c)"

lemma grown_back:
  assumes "grown_slots parent r x L L'" "L' j = Some d" "j \<noteq> ar_slot r"
  shows "\<exists>c. L j = Some c \<and> grows parent r c d"
  using assms by (auto simp: grown_slots_def grows_def)

lemma grown_forth:
  assumes "grown_slots parent r x L L'" "L j = Some c" "j \<noteq> ar_slot r"
  shows "\<exists>d. L' j = Some d \<and> grows parent r c d"
  using assms by (auto simp: grown_slots_def grows_def)

lemma grown_refs:
  assumes "grown_slots parent r x L L'" "refs_ok world n L" "a_reference x = r" "ar_world r = world"
    and "1 \<le> ar_generation r" "ar_generation r \<le> n" "a_ready_order x = n"
  shows "refs_ok world (Suc n) L'"
  unfolding refs_ok_def
proof (intro allI impI)
  fix j d assume d: "L' j = Some d"
  show "ar_world (a_reference d) = world \<and> ar_slot (a_reference d) = j \<and> 1 \<le> gen d
     \<and> gen d \<le> a_ready_order d \<and> a_ready_order d < Suc n"
  proof (cases "j = ar_slot r")
    case True
    then show ?thesis using d assms by (simp add: grown_slots_def)
  next
    case False
    from grown_back [OF assms(1) d this] obtain c where c: "L j = Some c" "a_reference d = a_reference c"
      "a_ready_order d = a_ready_order c" by (auto simp: grows_def)
    then show ?thesis using assms(2) unfolding refs_ok_def by (metis less_SucI)
  qed
qed

lemma grown_orders:
  assumes "grown_slots parent r x L L'" "refs_ok world n L" "orders_ok L" "a_ready_order x = n"
  shows "orders_ok L'"
proof -
  have old: "\<exists>c. L j = Some c \<and> a_ready_order d = a_ready_order c" if "L' j = Some d" "j \<noteq> ar_slot r" for j d
    using grown_back [OF assms(1) that] by (auto simp: grows_def)
  have less: "a_ready_order d < n" if "L' j = Some d" "j \<noteq> ar_slot r" for j d
    using old [OF that] assms(2) by (auto simp: refs_ok_def)
  have new: "a_ready_order d = n" if "L' (ar_slot r) = Some d" for d
    using that assms(1,4) by (auto simp: grown_slots_def)
  show ?thesis
    unfolding orders_ok_def
  proof (intro allI impI)
    fix i j a b
    assume *: "L' i = Some a" "L' j = Some b" "a_ready_order a = a_ready_order b"
    consider "i = ar_slot r" "j = ar_slot r" | "i = ar_slot r" "j \<noteq> ar_slot r"
      | "i \<noteq> ar_slot r" "j = ar_slot r" | "i \<noteq> ar_slot r" "j \<noteq> ar_slot r" by blast
    then show "i = j"
    proof cases
      case 4
      then show ?thesis using old [OF *(1)] old [OF *(2)] *(3) assms(3) by (auto simp: orders_ok_def)
    qed (use * less new in fastforce)+
  qed
qed

lemma grown_parents:
  assumes grown: "grown_slots parent r x L L'" and "parents_ok world L" "refs_ok world n L" "fresh_slot_for r L"
    and x: "a_reference x = r" "a_parent x = parent" "a_ready_order x = n"
    and up: "\<And>p. parent = Some p \<Longrightarrow> ar_world p = world
      \<and> (\<exists>pa. L (ar_slot p) = Some pa \<and> a_reference pa = p \<and> a_state pa \<noteq> Stopped)"
  shows "parents_ok world L'"
  unfolding parents_ok_def
proof (intro allI impI)
  fix j d p
  assume d: "L' j = Some d" "a_parent d = Some p"
  show "parent_ok world L' d p"
  proof (cases "j = ar_slot r")
    case True
    then have dx: "d = x" using d(1) grown by (simp add: grown_slots_def)
    then obtain pa where pa: "ar_world p = world" "L (ar_slot p) = Some pa" "a_reference pa = p"
      "a_state pa \<noteq> Stopped" "parent = Some p"
      using up d(2) x(2) by auto
    then have "ar_slot p \<noteq> ar_slot r" using assms(4) by (auto simp: fresh_slot_for_def)
    then obtain qa where "L' (ar_slot p) = Some qa" "grows parent r pa qa"
      using grown_forth [OF grown pa(2)] by blast
    moreover have "a_ready_order pa < n" using assms(3) pa(2) by (auto simp: refs_ok_def)
    ultimately show ?thesis using pa x dx by (auto simp: parent_ok_def grows_def)
  next
    case False
    from grown_back [OF grown d(1) this] obtain c where c: "L j = Some c" "grows parent r c d" by blast
    then have "parent_ok world L c p" using assms(2) d(2) by (auto simp: parents_ok_def grows_def)
    then obtain pa where pa: "ar_world p = world" "L (ar_slot p) = Some pa" "ar_generation p \<le> gen pa"
      "gen pa = ar_generation p \<longrightarrow> a_ready_order pa < a_ready_order c"
      "a_state c \<noteq> Stopped \<longrightarrow> a_reference pa = p \<and> a_state pa \<noteq> Stopped \<and> a_reference c \<in> set (a_children pa)"
      by (auto simp: parent_ok_def)
    show ?thesis
    proof (cases "ar_slot p = ar_slot r")
      case True
      then have "a_state pa = Stopped" "gen pa < ar_generation r" "L' (ar_slot p) = Some x"
        using pa(2) assms(4) grown by (auto simp: fresh_slot_for_def grown_slots_def)
      then show ?thesis using pa c(2) x(1) by (auto simp: parent_ok_def grows_def)
    next
      case False
      then obtain qa where "L' (ar_slot p) = Some qa" "grows parent r pa qa"
        using grown_forth [OF grown pa(2)] by blast
      then show ?thesis using pa c(2) by (auto simp: parent_ok_def grows_def)
    qed
  qed
qed

lemma grown_children:
  assumes grown: "grown_slots parent r x L L'" and kids: "children_ok L" and "fresh_slot_for r L"
    and x: "a_reference x = r" "a_parent x = parent" "a_children x = []" "a_state x \<noteq> Stopped"
  shows "children_ok L'"
  unfolding children_ok_def
proof (intro allI impI)
  fix j d
  assume d: "L' j = Some d"
  show "distinct (a_children d) \<and> (\<forall>k \<in> set (a_children d).
      \<exists>ca. L' (ar_slot k) = Some ca \<and> a_reference ca = k \<and> a_parent ca = Some (a_reference d)
        \<and> a_state ca \<noteq> Stopped)"
  proof (cases "j = ar_slot r")
    case True
    then show ?thesis using d grown x(3) by (simp add: grown_slots_def)
  next
    case False
    from grown_back [OF grown d this] obtain c where c: "L j = Some c" "grows parent r c d" by blast
    have old: "ar_slot k \<noteq> ar_slot r \<and> k \<noteq> r \<and> (\<exists>ca. L' (ar_slot k) = Some ca \<and> a_reference ca = k
        \<and> a_parent ca = Some (a_reference d) \<and> a_state ca \<noteq> Stopped)" if k: "k \<in> set (a_children c)" for k
    proof -
      obtain ca where ca: "L (ar_slot k) = Some ca" "a_reference ca = k" "a_parent ca = Some (a_reference c)"
        "a_state ca \<noteq> Stopped"
        using kids c(1) k unfolding children_ok_def by blast
      then have "ar_slot k \<noteq> ar_slot r" using assms(3) by (auto simp: fresh_slot_for_def)
      moreover from this obtain ea where "L' (ar_slot k) = Some ea" "grows parent r ca ea"
        using grown_forth [OF grown ca(1)] by blast
      ultimately show ?thesis using ca c(2) by (auto simp: grows_def)
    qed
    have "distinct (a_children c)" using kids c(1) unfolding children_ok_def by blast
    then have "distinct (a_children d)" using old c(2) by (auto simp: grows_def)
    moreover have "\<exists>ca. L' (ar_slot k) = Some ca \<and> a_reference ca = k \<and> a_parent ca = Some (a_reference d)
        \<and> a_state ca \<noteq> Stopped" if "k \<in> set (a_children d)" for k
    proof (cases "k \<in> set (a_children c)")
      case False
      then have "k = r" "parent = Some (a_reference d)" using that c(2) by (auto simp: grows_def split: if_splits)
      then show ?thesis using grown x by (auto simp: grown_slots_def)
    qed (use old in blast)
    ultimately show ?thesis by blast
  qed
qed

text \<open>The slot a World in order hands out.\<close>

lemma pop_slot_fresh:
  assumes slots: "slots_ok w s" and refs: "refs_ok world (st_next_ready_order s) (live_at s)"
    and pop: "pop_slot s = (slot, s1)"
  defines "g \<equiv> slot_generation s1 slot"
  shows "slot \<le> length (st_actors s)" "1 \<le> g" "g \<le> st_next_ready_order s"
    "fresh_slot_for (ActorRef world' slot g) (live_at s)"
proof -
  have live: "live_at s1 = live_at s"
    using pop_slot_actors [OF pop] by (simp add: live_at_def fun_eq_iff)
  consider (new) "slot = length (st_actors s)" "live_at s slot = None"
    | (old) old where "live_at s slot = Some old" "a_state old = Stopped"
  proof (cases "st_free s")
    case Nil
    then show ?thesis using pop new by (auto simp: pop_slot_def live_at_def vec_get_def)
  next
    case (Cons i rest)
    then have "slot \<in> set (st_free s)" using pop by (auto simp: pop_slot_def)
    then show ?thesis using slots old by (auto simp: slots_ok_def lifecycle_at_def)
  qed
  then have "slot \<le> length (st_actors s) \<and> 1 \<le> g \<and> g \<le> st_next_ready_order s
      \<and> fresh_slot_for (ActorRef world' slot g) (live_at s)"
  proof cases
    case new
    then show ?thesis using slots by (simp add: g_def slot_generation_def live fresh_slot_for_def slots_ok_def)
  next
    case (old x)
    have "gen x \<le> a_ready_order x" "a_ready_order x < st_next_ready_order s"
      using old(1) refs by (auto simp: refs_ok_def)
    moreover have "st_next_ready_order s \<le> u64_max" using slots by (simp add: slots_ok_def)
    ultimately have "g = Suc (gen x)" "g \<le> st_next_ready_order s"
      using old(1) by (simp_all add: g_def slot_generation_def live wrapping_add_def)
    then show ?thesis using old live_at_bound [OF old(1)] by (simp add: fresh_slot_for_def)
  qed
  then show "slot \<le> length (st_actors s)" "1 \<le> g" "g \<le> st_next_ready_order s"
    "fresh_slot_for (ActorRef world' slot g) (live_at s)" by blast+
qed

lemma alloc_fields:
  "st_free (alloc_state w kind parent slot n s1) = st_free s1"
  "st_live_actors (alloc_state w kind parent slot n s1) = Suc (st_live_actors s1)"
  "st_next_ready_order (alloc_state w kind parent slot n s1) = n"
  "st_operations (alloc_state w kind parent slot n s1) = st_operations s1"
  "length (st_actors (alloc_state w kind parent slot n s1)) =
     (if slot = length (st_actors s1) then Suc slot else length (st_actors s1))"
  by (simp_all add: alloc_state_def Let_def put_actor_def split: option.splits)

lemma pop_slot_fields:
  assumes "pop_slot s = (slot, s1)"
  shows "live_at s1 = live_at s" "st_live_actors s1 = st_live_actors s" "st_operations s1 = st_operations s"
    "st_next_ready_order s1 = st_next_ready_order s" "st_actors s1 = st_actors s"
  using assms by (auto simp: pop_slot_def live_at_def fun_eq_iff split: list.splits)

lemma alloc_grown:
  assumes refs: "refs_ok world n0 (live_at s1)" and "slot \<le> length (st_actors s1)"
    and r: "r = ActorRef (in_id w) slot (slot_generation s1 slot)"
    and up: "\<And>p. parent = Some p \<Longrightarrow> ar_slot p \<noteq> slot \<and> (\<exists>pa. live_at s1 (ar_slot p) = Some pa \<and> a_reference pa = p)"
  shows "grown_slots parent r (new_actor r (st_next_ready_order s1) kind parent) (live_at s1)
     (live_at (alloc_state w kind parent slot n s1))"
proof -
  let ?x = "new_actor r (st_next_ready_order s1) kind parent"
  let ?f = "\<lambda>a. a\<lparr>a_children := a_children a @ [r]\<rparr>"
  have rs: "ar_slot r = slot" by (simp add: r)
  have put: "live_at (put_actor slot ?x s1) j = (if j = slot then Some ?x else live_at s1 j)" for j
    using assms(2) by (simp add: live_put_same live_put_actor)
  show ?thesis
  proof (cases parent)
    case None
    then have "live_at (alloc_state w kind parent slot n s1) = live_at (put_actor slot ?x s1)"
      by (simp add: alloc_state_def Let_def r live_at_def fun_eq_iff)
    then show ?thesis using None rs put by (simp add: grown_slots_def option.map_ident)
  next
    case (Some p)
    have live: "live_at (alloc_state w kind parent slot n s1) = live_at (upd_actor p ?f (put_actor slot ?x s1))"
      by (simp add: alloc_state_def Let_def Some r live_at_def fun_eq_iff)
    have one: "a_reference c = p \<longleftrightarrow> ar_slot p = j" if "live_at s1 j = Some c" for j c
      using that up [OF Some] refs unfolding refs_ok_def by (metis option.inject)
    show ?thesis
      unfolding grown_slots_def live live_upd put
    proof (intro conjI allI impI)
      fix j assume "j \<noteq> ar_slot r"
      then show "(if ar_slot p = j then map_option ?f (if j = slot then Some ?x else live_at s1 j)
          else if j = slot then Some ?x else live_at s1 j)
        = map_option (\<lambda>c. if parent = Some (a_reference c) then ?f c else c) (live_at s1 j)"
        using one [of j] Some rs by (cases "live_at s1 j") auto
    qed (use up [OF Some] rs in simp)
  qed
qed

lemma check_ref_reference:
  assumes "refs_ok (in_id w) n (live_at s)" "check_ref w s r = Inr a"
  shows "a_reference a = r" "live_at s (ar_slot r) = Some a" "ar_world r = in_id w"
proof -
  show live: "live_at s (ar_slot r) = Some a" by (rule check_ref_live [OF assms(2)])
  have g: "gen a = ar_generation r" and wd: "ar_world r = in_id w"
    using assms(2) live by (auto simp: check_ref_alt split: if_splits)
  show "ar_world r = in_id w" by (rule wd)
  have "ar_world (a_reference a) = in_id w" "ar_slot (a_reference a) = ar_slot r"
    using assms(1) live unfolding refs_ok_def by blast+
  then show "a_reference a = r" using g wd by (simp add: actor_ref.expand)
qed

lemma grown_mailboxes:
  assumes "grown_slots parent r x L L'" "mailboxes_ok w L" "actor_ok w x"
  shows "mailboxes_ok w L'"
  unfolding mailboxes_ok_def
proof (intro allI impI)
  fix j d assume d: "L' j = Some d"
  show "actor_ok w d"
  proof (cases "j = ar_slot r")
    case True
    then show ?thesis using d assms(1,3) by (simp add: grown_slots_def)
  next
    case False
    then obtain c where c: "L j = Some c"
      "d = (if parent = Some (a_reference c) then c\<lparr>a_children := a_children c @ [r]\<rparr> else c)"
      using d assms(1) by (auto simp: grown_slots_def)
    moreover have "actor_ok w c" using c(1) assms(2) unfolding mailboxes_ok_def by blast
    moreover have "actor_ok w (c\<lparr>a_children := cs\<rparr>) \<longleftrightarrow> actor_ok w c" for cs by (simp add: actor_ok_def)
    ultimately show ?thesis by simp
  qed
qed

lemma new_actor_ok: "actor_ok w (new_actor r n kind parent)"
  by (simp add: actor_ok_def new_actor_def delivery_bytes_def staged_entry_bytes_def fenced_def)

lemma alloc_slots:
  assumes slots: "slots_ok w s" and "st_live_actors s < cfg_max_actors (in_cfg w)" "pop_slot s = (slot, s1)"
    and grown: "grown_slots parent r x (live_at s) (live_at t)" "a_state x \<noteq> Stopped" "ar_slot r = slot"
    and t: "t = alloc_state w kind parent slot n s1" "1 \<le> n" "n \<le> u64_max"
  shows "slots_ok w t"
proof -
  have same: "lifecycle_at t j = (if j = slot then Some (a_state x) else lifecycle_at s j)" for j
    using grown by (cases "live_at s j") (auto simp: grown_slots_def lifecycle_at_def)
  have live: "live_at t j \<noteq> None" if "j = slot \<or> j < length (st_actors s)" for j
    using that slots grown by (cases "j = slot") (auto simp: grown_slots_def slots_ok_def)
  have free: "i \<in> set (st_free s) \<longleftrightarrow> lifecycle_at s i = Some Stopped" for i
    using slots by (simp add: slots_ok_def)
  note count = slots [unfolded slots_ok_def]
  show ?thesis
  proof (cases "st_free s")
    case Nil
    then have p: "slot = length (st_actors s)" "s1 = s" using assms(3) by (auto simp: pop_slot_def)
    have "i \<in> set (st_free s) \<longleftrightarrow> lifecycle_at t i = Some Stopped" for i
      using free [of i] Nil same grown(2) by simp
    then show ?thesis
      using live count Nil p assms(2) t(2,3) unfolding slots_ok_def t(1) [symmetric]
      by (simp add: t(1) alloc_fields less_Suc_eq)
  next
    case (Cons i rest)
    then have p: "slot = i" "s1 = s\<lparr>st_free := rest\<rparr>" using assms(3) by (auto simp: pop_slot_def)
    have "i \<notin> set rest" using count Cons by auto
    then have iff: "j \<in> set rest \<longleftrightarrow> lifecycle_at t j = Some Stopped" for j
      using free [of j] Cons same grown(2) p by (cases "j = i") auto
    have "i < length (st_actors s)"
      using free [of i] Cons by (auto simp: lifecycle_at_def dest: live_at_bound)
    then show ?thesis
      using live iff count Cons p assms(2) t(2,3) unfolding slots_ok_def
      by (simp add: t(1) alloc_fields)
  qed
qed

lemma alloc_facts:
  assumes inv: "world_inv w s"
    and "case parent of None \<Rightarrow> True | Some p \<Rightarrow> \<exists>pa. check_ref w s p = Inr pa \<and> open_state (a_state pa)"
    and pop: "pop_slot s = (slot, s1)"
  defines "r \<equiv> ActorRef (in_id w) slot (slot_generation s1 slot)"
  shows "parent = Some p \<Longrightarrow> ar_world p = in_id w
      \<and> (\<exists>pa. live_at s (ar_slot p) = Some pa \<and> a_reference pa = p \<and> a_state pa \<noteq> Stopped)"
    and "fresh_slot_for r (live_at s)" "1 \<le> ar_generation r" "ar_generation r \<le> st_next_ready_order s"
    and "grown_slots parent r (new_actor r (st_next_ready_order s) kind parent) (live_at s)
      (live_at (alloc_state w kind parent slot n s1))"
proof -
  have slots: "slots_ok w s" and refs: "refs_ok (in_id w) (st_next_ready_order s) (live_at s)"
    using inv by (auto simp: world_inv_def)
  note fresh = pop_slot_fresh [OF slots refs pop]
  note f = pop_slot_fields [OF pop]
  show up: "ar_world p = in_id w
      \<and> (\<exists>pa. live_at s (ar_slot p) = Some pa \<and> a_reference pa = p \<and> a_state pa \<noteq> Stopped)"
    if p: "parent = Some p" for p
  proof -
    obtain pa where pa: "check_ref w s p = Inr pa" "open_state (a_state pa)" using assms(2) p by auto
    then show ?thesis using check_ref_reference [OF refs pa(1)] by (auto simp: open_state_def)
  qed
  show new: "fresh_slot_for r (live_at s)" "1 \<le> ar_generation r" "ar_generation r \<le> st_next_ready_order s"
    using fresh by (auto simp: r_def)
  have off: "ar_slot p \<noteq> slot" if "parent = Some p" for p
    using up [OF that] new(1) by (auto simp: fresh_slot_for_def r_def)
  have "grown_slots parent r (new_actor r (st_next_ready_order s1) kind parent) (live_at s1)
      (live_at (alloc_state w kind parent slot n s1))"
    unfolding r_def by (rule alloc_grown [OF _ _ refl]) (use refs fresh(1) up off f in \<open>auto simp: f\<close>)
  then show "grown_slots parent r (new_actor r (st_next_ready_order s) kind parent) (live_at s)
      (live_at (alloc_state w kind parent slot n s1))"
    by (simp add: f)
qed

lemma alloc_inv: "alloc_step w s t \<Longrightarrow> world_inv w s \<Longrightarrow> world_inv w t"
proof (induction rule: alloc_step.induct)
  case (ws_alloc s parent n slot s1 kind)
  note parts = ws_alloc(5) [unfolded world_inv_def]
  have slots: "slots_ok w s" and refs: "refs_ok (in_id w) (st_next_ready_order s) (live_at s)"
    using parts by auto
  note f = pop_slot_fields [OF ws_alloc(4)]
  let ?r = "ActorRef (in_id w) slot (slot_generation s1 slot)"
  let ?x = "new_actor ?r (st_next_ready_order s) kind parent"
  let ?t = "alloc_state w kind parent slot n s1"
  note facts = alloc_facts [OF ws_alloc(5,2,4)]
  note grown = facts(5) [of kind n]
  have n: "n = Suc (st_next_ready_order s)" "n \<le> u64_max" using ws_alloc(3) by auto
  have x: "a_reference ?x = ?r" "a_parent ?x = parent" "a_ready_order ?x = st_next_ready_order s"
    "a_children ?x = []" "a_state ?x \<noteq> Stopped"
    by (simp_all add: new_actor_def f)
  have "slots_ok w ?t"
    using alloc_slots [OF slots ws_alloc(1,4) grown x(5) _ refl] n by simp
  moreover have "mailboxes_ok w (live_at ?t)"
    using grown_mailboxes [OF grown _ new_actor_ok] parts by blast
  moreover have "refs_ok (in_id w) (Suc (st_next_ready_order s)) (live_at ?t)"
    using grown_refs [OF grown refs x(1)] facts(3,4) x(3) by simp
  moreover have "orders_ok (live_at ?t)" using grown_orders [OF grown refs _ x(3)] parts by blast
  moreover have "parents_ok (in_id w) (live_at ?t)"
    using grown_parents [OF grown _ refs facts(2) x(1-3) facts(1)] parts by blast
  moreover have "children_ok (live_at ?t)"
    using grown_children [OF grown _ facts(2) x(1,2,4,5)] parts by blast
  ultimately show ?case using parts unfolding world_inv_def alloc_fields n(1) f by blast
qed

lemma any_step_inv: "any_step w s t \<Longrightarrow> world_inv w s \<Longrightarrow> world_inv w t"
  by (auto simp: any_step_def work_step_def intro: wstep_inv alloc_inv hold_inv)

lemma any_steps_inv: "(any_step w)\<^sup>*\<^sup>* s t \<Longrightarrow> world_inv w s \<Longrightarrow> world_inv w t"
  by (induction rule: rtranclp_induct) (auto intro: any_step_inv)

end
