(* ===== verification/World_System.thy ===== *)
theory World_System
  imports World_Inv
begin

text \<open>
  The World as a transition system: its public methods as steps, with every argument and every clock
  reading free. The interpretations below discharge the closure laws for the model's own states, so the
  invariant holds in every reachable state and each method moves along the primitive steps.
\<close>

section \<open>The invariant is closed under steps\<close>

lemma inv_free_stopped: "world_inv w s \<Longrightarrow> i \<in> set (st_free s) \<Longrightarrow> live_at s i = Some a \<Longrightarrow> a_state a = Stopped"
  by (auto simp: world_inv_def slots_ok_def lifecycle_at_def)

definition core_from :: "inner \<Rightarrow> state \<Rightarrow> state \<Rightarrow> bool" where
  "core_from w s t \<longleftrightarrow> world_inv w t \<and> (wstep w)\<^sup>*\<^sup>* s t"

definition work_from :: "inner \<Rightarrow> state \<Rightarrow> state \<Rightarrow> bool" where
  "work_from w s t \<longleftrightarrow> world_inv w t \<and> (work_step w)\<^sup>*\<^sup>* s t"

definition quiet_from :: "inner \<Rightarrow> state \<Rightarrow> state \<Rightarrow> bool" where
  "quiet_from w s t \<longleftrightarrow> world_inv w t \<and> (quiet_step w)\<^sup>*\<^sup>* s t"

definition any_from :: "inner \<Rightarrow> state \<Rightarrow> state \<Rightarrow> bool" where
  "any_from w s t \<longleftrightarrow> world_inv w t \<and> (any_step w)\<^sup>*\<^sup>* s t"

interpretation core: step_closed w "core_from w s" for w s
  by unfold_locales (auto simp: core_from_def intro: wstep_inv rtranclp.rtrancl_into_rtrancl)

interpretation work: world_closed w "work_from w s" for w s
  by unfold_locales
    (auto simp: work_from_def work_step_def intro: wstep_inv alloc_inv rtranclp.rtrancl_into_rtrancl inv_free_stopped)

interpretation quiet: control_closed w "quiet_from w s" for w s
  by unfold_locales
    (auto simp: quiet_from_def quiet_step_def work_step_def intro: wstep_inv alloc_inv hold_inv control_hold
      rtranclp.rtrancl_into_rtrancl inv_free_stopped)

interpretation any: hold_closed w "any_from w s" for w s
  by unfold_locales
    (auto simp: any_from_def any_step_def work_step_def intro: wstep_inv alloc_inv hold_inv
      rtranclp.rtrancl_into_rtrancl inv_free_stopped)

section \<open>Methods\<close>

text \<open>The methods that leave claims and tasks alone. \<open>wk_publish\<close> is \<^verbatim>\<open>publish_internal\<close>, which the
  publish methods of the World, of ports, of tasks and of leases call.\<close>

inductive work_op :: "inner \<Rightarrow> state \<Rightarrow> state \<Rightarrow> bool" for w where
  wk_allocate: "allocate w kind parent s = Some (t, x1) \<Longrightarrow> work_op w s t"
| wk_activate: "activate w r s = Some (t, x2) \<Longrightarrow> work_op w s t"
| wk_subscribe: "subscribe w source target s = Some (t, x3) \<Longrightarrow> work_op w s t"
| wk_unsubscribe: "unsubscribe w n s = Some (t, x4) \<Longrightarrow> work_op w s t"
| wk_schemas: "register_schemas schemas s = (t, x5) \<Longrightarrow> work_op w s t"
| wk_hold: "hold_with w p opts s = Some (t, x6) \<Longrightarrow> work_op w s t"
| wk_drop: "work_op w s (drop_handle st s)"
| wk_send: "send_with w r p opts s = Some (t, x7) \<Longrightarrow> work_op w s t"
| wk_send_held: "send_held w r held s = Some (t, x8) \<Longrightarrow> work_op w s t"
| wk_send_held_from: "send_held_from w owner target held s = Some (t, x9) \<Longrightarrow> work_op w s t"
| wk_request: "request_with_port w owner target p deadline opts dp s = Some (t, x10) \<Longrightarrow> work_op w s t"
| wk_complete: "complete_operation_with w oid target p options s = Some (t, x11) \<Longrightarrow> work_op w s t"
| wk_cancel: "cancel_operation w oid s = Some (t, x12) \<Longrightarrow> work_op w s t"
| wk_take: "take_operation w oid s = Some (t, x13) \<Longrightarrow> work_op w s t"
| wk_status: "operation_status oid s = (t, x14) \<Longrightarrow> work_op w s t"
| wk_publish: "publish_internal w source p completion_owner source_port opts s = Some (t, x15) \<Longrightarrow> work_op w s t"
| wk_route: "route_batch w s = Some (t, x16) \<Longrightarrow> work_op w s t"
| wk_poll_routing: "poll_routing_ready incoming s = (t, x17) \<Longrightarrow> work_op w s t"
| wk_activity: "world_activity w r s = Some (t, x18) \<Longrightarrow> work_op w s t"
| wk_poll_activity: "poll_activity w r observed incoming s = (t, x19) \<Longrightarrow> work_op w s t"
| wk_finish_python: "finish_python w r s = Some (t, x20) \<Longrightarrow> work_op w s t"
| wk_stop: "stop w r s = Some (t, x21) \<Longrightarrow> work_op w s t"
| wk_drain: "request_drain w r deadline s = Some (t, x22) \<Longrightarrow> work_op w s t"
| wk_drain_all: "drain_all w deadline s = Some (t, x23) \<Longrightarrow> work_op w s t"
| wk_maintain: "maintain w now s = Some t \<Longrightarrow> work_op w s t"
| wk_close: "close w s = Some (t, x24) \<Longrightarrow> work_op w s t"
| wk_component: "register_component w owner descriptor s = Some (t, x25) \<Longrightarrow> work_op w s t"
| wk_link: "link w owner out inp s = Some (t, x26) \<Longrightarrow> work_op w s t"
| wk_send_port: "send_port_with w prt p opts s = Some (t, x27) \<Longrightarrow> work_op w s t"
| wk_service: "register_service w name target required s = Some (t, x28) \<Longrightarrow> work_op w s t"
| wk_acquire: "acquire_service w owner name required s = Some (t, x29) \<Longrightarrow> work_op w s t"
| wk_acquire_from: "acquire_service_from w owner name required expected s = Some (t, x30) \<Longrightarrow> work_op w s t"
| wk_release: "release_service w lease s = Some (t, x31) \<Longrightarrow> work_op w s t"
| wk_service_request: "service_request w lease name p deadline opts s = Some (t, x32) \<Longrightarrow> work_op w s t"
| wk_service_link: "service_link w lease output inp s = Some (t, x33) \<Longrightarrow> work_op w s t"
| wk_failure: "report_failure w r event_id schema operation details action s = Some (t, x34) \<Longrightarrow> work_op w s t"
| wk_now: "read_now w s = (t, x35) \<Longrightarrow> work_op w s t"
| wk_buffer_reserve: "buffer_reserve w n s = (t, x36) \<Longrightarrow> work_op w s t"
| wk_buffer_release: "buffer_release n s = t \<Longrightarrow> work_op w s t"

text \<open>The methods that claim a delivery, a control slot or a task, and what ends such a claim.\<close>

inductive claim_op :: "inner \<Rightarrow> state \<Rightarrow> state \<Rightarrow> bool" for w where
  ck_claim: "claim w r s = Some (t, x1) \<Longrightarrow> claim_op w s t"
| ck_finish: "lease_finish w lease success s = Some t \<Longrightarrow> claim_op w s t"
| ck_drop: "lease_drop w lease s = Some t \<Longrightarrow> claim_op w s t"
| ck_track: "track_task w r s = Some (t, x2) \<Longrightarrow> claim_op w s t"
| ck_task_drop: "task_drop w r s = Some t \<Longrightarrow> claim_op w s t"
| ck_claim_failure: "claim_failure w r s = Some (t, x3) \<Longrightarrow> claim_op w s t"
| ck_failure_finish: "failure_lease_finish w flease act s = Some (t, x4) \<Longrightarrow> claim_op w s t"
| ck_failure_drop: "failure_lease_drop w flease s = Some t \<Longrightarrow> claim_op w s t"
| ck_callback: "claim_native_callback w r startup s = Some (t, x5) \<Longrightarrow> claim_op w s t"
| ck_drain_callback: "claim_native_drain_callback w r s = Some (t, x6) \<Longrightarrow> claim_op w s t"
| ck_callback_drop: "native_callback_drop w r s = Some t \<Longrightarrow> claim_op w s t"

definition world_op :: "inner \<Rightarrow> state \<Rightarrow> state \<Rightarrow> bool" where
  "world_op w s t \<longleftrightarrow> work_op w s t \<or> claim_op w s t"

definition world_initial :: "inner \<Rightarrow> state \<Rightarrow> bool" where
  "world_initial w s \<longleftrightarrow> (\<exists>world_id cfg reads will_wake. world_new world_id cfg reads will_wake = Inr (w, s))"

abbreviation world_reachable :: "inner \<Rightarrow> state \<Rightarrow> bool" where
  "world_reachable w \<equiv> reachable (world_initial w) (world_op w)"

lemma work_from_refl: "world_inv w s \<Longrightarrow> work_from w s s"
  by (simp add: work_from_def)

lemma any_from_refl: "world_inv w s \<Longrightarrow> any_from w s s"
  by (simp add: any_from_def)

lemma soft_work: "world_inv w s \<Longrightarrow> soft_eq s t \<Longrightarrow> work_from w s t"
  by (rule work.soft [OF work_from_refl])

text \<open>Methods that change only fields no guard reads.\<close>

lemma soft_methods:
  "register_schemas schemas s = (t, x1) \<Longrightarrow> soft_eq s t"
  "operation_status oid s = (t, x2) \<Longrightarrow> soft_eq s t"
  "poll_routing_ready incoming s = (t, x3) \<Longrightarrow> soft_eq s t"
  "poll_activity w r observed incoming s = (t, x4) \<Longrightarrow> soft_eq s t"
  "world_activity w r s = Some (t, x5) \<Longrightarrow> soft_eq s t"
  "read_now w s = (t, x6) \<Longrightarrow> soft_eq s t"
  "buffer_reserve w n s = (t, x7) \<Longrightarrow> soft_eq s t"
  "buffer_release n s = t \<Longrightarrow> soft_eq s t"
  by (auto simp: soft_eq_def register_schemas_def operation_status_def poll_routing_ready_def poll_activity_def
      world_activity_def read_now_def buffer_reserve_def buffer_release_def try_in_def Let_def split: prod.splits sum.splits if_splits)

lemma post_fstD: "post (\<lambda>y. Q (fst y)) x \<Longrightarrow> x = Some (s, r) \<Longrightarrow> Q s"
  by (simp add: post_def)

lemma acquire_work:
  "world_inv w s \<Longrightarrow> post (\<lambda>y. work_from w s (fst y)) (acquire_service w owner name required s)"
  "world_inv w s \<Longrightarrow> post (\<lambda>y. work_from w s (fst y)) (acquire_service_from w owner name required expected s)"
  unfolding acquire_service_def acquire_service_from_def
  by (simp_all add: work.acquires work_from_refl post_Some)

lemmas work_methods =
  work.allocations work.activations work.subscriptions work.unsubscriptions work.holds work.sends
  work.send_helds work.send_held_froms work.requests work.complete_withs work.cancels work.takes
  work.publishes work.route_batches work.python_finishes work.stops(2) work.drain_requests
  work.drain_alls work.closes(2) work.components_registered work.links_made work.port_messages
  work.services_registered work.releases work.service_requests work.service_links work.failures_reported

lemmas claim_methods =
  any.claims any.tracks any.claims_failure any.failure_finishes any.callback_claims

lemmas claim_ends =
  any.lease_finishes any.lease_drops any.task_drops any.failure_drops any.callback_drops

lemma work_op_from: "work_op w s t \<Longrightarrow> world_inv w s \<Longrightarrow> work_from w s t"
proof (induction rule: work_op.induct)
  case (wk_drop s st)
  then show ?case by (simp add: work.reads(5) work_from_refl)
next
  case (wk_maintain now s t)
  then show ?case using postD [OF work.maintains [OF work_from_refl]] by blast
qed ((erule post_fstD [rotated], rule work_methods, erule work_from_refl)
  | (erule post_fstD [rotated], erule acquire_work) | (rule soft_work, assumption, erule soft_methods))+

lemma claim_op_from: "claim_op w s t \<Longrightarrow> world_inv w s \<Longrightarrow> any_from w s t"
  by (induction rule: claim_op.induct)
    ((erule post_fstD [rotated], rule claim_methods, erule any_from_refl)
      | (erule postD [rotated], rule claim_ends, erule any_from_refl))+

lemma work_from_any: "work_from w s t \<Longrightarrow> any_from w s t"
  by (simp add: work_from_def any_from_def work_steps_any)

lemma world_op_from: "world_op w s t \<Longrightarrow> world_inv w s \<Longrightarrow> any_from w s t"
  by (auto simp: world_op_def intro: work_from_any work_op_from claim_op_from)

lemma world_initial_fields:
  assumes "world_initial w s"
  shows "op_initial (st_operations s)" "st_actors s = []" "st_live_actors s = 0" "st_next_ready_order s = 1"
    "st_free s = []"
proof -
  obtain i cfg reads ww where new: "world_new i cfg reads ww = Inr (w, s)" using assms by (auto simp: world_initial_def)
  then show "op_initial (st_operations s)" "st_actors s = []" "st_live_actors s = 0" "st_next_ready_order s = 1"
    "st_free s = []"
    by (cases "sg_new (cfg_max_schemas cfg)";
        auto simp: world_new_def op_initial_def bindR_Inr_iff Let_def split: if_splits)+
qed

lemma world_initial_inv: "world_initial w s \<Longrightarrow> world_inv w s"
proof -
  assume s: "world_initial w s"
  note f = world_initial_fields [OF s]
  have "live_at s = Map.empty" "lifecycle_at s = Map.empty"
    by (simp_all add: live_at_def lifecycle_at_def vec_get_def fun_eq_iff f)
  then show ?thesis
    using op_initial_inv [OF f(1)]
    by (simp add: world_inv_def refs_ok_def orders_ok_def parents_ok_def children_ok_def mailboxes_ok_def
        slots_ok_def u64_max_def f)
qed

interpretation world: invariant_system "world_initial w" "world_op w" "world_inv w" for w
  by unfold_locales (auto intro: world_initial_inv world_op_from [unfolded any_from_def, THEN conjunct1])

lemma world_ops_steps: "(world_op w)\<^sup>*\<^sup>* s t \<Longrightarrow> world_inv w s \<Longrightarrow> (any_step w)\<^sup>*\<^sup>* s t \<and> world_inv w t"
proof (induction rule: rtranclp_induct)
  case (step t u)
  then show ?case using world_op_from [OF step(2)] by (auto simp: any_from_def)
qed simp

end
