(* ===== verification/World_Demo.thy ===== *)
theory World_Demo
  imports World_System
begin

text \<open>
  A small World for the witnesses: one native actor that is allocated, activated, sent a pulse, claims
  it, and is stopped. Every state is computed from the operations by the simplifier.
\<close>

section \<open>Construction\<close>

definition demo_config :: config where
  "demo_config = default_config\<lparr>cfg_max_actors := 2, cfg_mailbox_capacity := 2, cfg_mailbox_bytes := 64,
     cfg_native_payload_budget := 64, cfg_max_event_bytes := 64\<rparr>"

definition demo_world :: inner where
  "demo_world = \<lparr>in_id = 1, in_cfg = demo_config, in_epoch = 0, in_reads = \<lambda>_. 0, in_will_wake = \<lambda>_ _. False\<rparr>"

definition demo_new :: state where
  "demo_new = snd (projr (world_new 1 demo_config (\<lambda>_. 0) (\<lambda>_ _. False)))"

lemma demo_initial: "world_new 1 demo_config (\<lambda>_. 0) (\<lambda>_ _. False) = Inr (demo_world, demo_new)"
  by (simp add: demo_new_def world_new_def demo_world_def demo_config_def default_config_def config_ok_def
      u32_max_def optable_new_def sg_new_def Let_def)

lemma small_u64:
  "Suc 0 \<le> u64_max" "Suc (Suc 0) \<le> u64_max" "Suc (Suc (Suc 0)) \<le> u64_max" "Suc 0 < u64_max"
  "8 \<le> usize_max"
  by (simp_all add: u64_max_def usize_max_def)

lemmas demo_base = demo_new_def world_new_def demo_world_def demo_config_def default_config_def config_ok_def
  u32_max_def optable_new_def sg_new_def Let_def vec_get_def live_at_def touch_all_def touch_activity_def
  refresh_python_ready_locked_def check_ref_def new_actor_def mark_activity_dependents_locked_def
  wake_routing_def ok_or_def checked_add_def numeral_2_eq_2 small_u64 ag_mark_def ag_new_def
  ag_notify_marked_def

section \<open>A life\<close>

abbreviation demo_ref :: actor_ref where
  "demo_ref \<equiv> ActorRef 1 0 1"

definition demo_started :: state where
  "demo_started = demo_new\<lparr>st_actors := [Some (new_actor demo_ref 1 Native None)], st_live_actors := 1,
     st_next_ready_order := 2\<rparr>"

lemma demo_allocate: "allocate demo_world Native None demo_new = Some (demo_started, Inr demo_ref)"
  by (simp add: demo_base demo_started_def allocate_def allocate_locked_def parent_check_def pop_slot_def
      slot_generation_def put_actor_def)

definition demo_active :: state where
  "demo_active = demo_started\<lparr>st_actors := [Some ((new_actor demo_ref 1 Native None)\<lparr>a_state := Active\<rparr>)],
     st_clock_reads := 2\<rparr>"

lemma demo_activate: "activate demo_world demo_ref demo_started = Some (demo_active, Inr ())"
  by (simp add: demo_base demo_started_def demo_active_def activate_def upd_slot_def
      refresh_python_subtree_locked_def mark_activity_tree_locked_def flush_staged_locked_def read_now_def
      expire_events_locked_def di_new_def di_take_due_def)

lemmas demo_send_eval = demo_base demo_started_def demo_active_def send_with_def make_stored_with_def upd_slot_def
  options_validate_def default_options_def charged_bytes_def reserve_def retained_def live_stored_def
  all_actors_def operations_stored_def publications_stored_def actor_stored_def pb_new_def admit_def read_now_def
  check_deadline_def validate_source_def next_event_id_def envelope_for_def world_schema_identity_def
  execution_state_locked_def mailbox_check_def sync_deadline_def push_delivery_def touch_ok_def or_reject_def

definition demo_queued :: state where
  "demo_queued = fst (the (send_with demo_world demo_ref (Pulse 7) default_options demo_active))"

lemma demo_send:
  "send_with demo_world demo_ref (Pulse 7) default_options demo_active = Some (demo_queued, Inr 1)"
  "\<exists>a. live_at demo_queued 0 = Some a \<and> a_reference a = demo_ref \<and> length (a_queue a) = 1 \<and> a_queue_bytes a = 8
     \<and> a_state a = Active"
  by (simp_all add: demo_queued_def demo_send_eval)

definition demo_stopped :: state where
  "demo_stopped = fst (the (stop demo_world demo_ref demo_active))"

lemmas demo_stop_eval = demo_base demo_started_def demo_active_def upd_slot_def stop_def stop_locked_def
  fence_locked_def fence_enter_def cancel_source_publications_locked_def deque_of_def pb_new_def
  detach_scope_def sx_new_def sx_detach_scope_def sx_take_service_def discard_notifications_for_def
  settle_operations_def pending_participants_for_def op_cancel_owner_def op_stop_target_def
  fence_leave_def rt_new_def rt_actor_route_ids_def clear_mailbox_def try_finalize_def finalizable_def
  retire_slot_def op_retire_owner_def report_locked_def counts_for_scope_def pb_counts_for_scope_def
  idx_get_def cnt_get_def report_zero_def add_actor_def finish_counts_def rt_source_actor_ids_def
  op_pending_for_def

lemma demo_stop:
  "\<exists>x. stop demo_world demo_ref demo_active = Some (demo_stopped, Inr x)"
  "st_free demo_stopped = [0]" "st_live_actors demo_stopped = 0" "lifecycle_at demo_stopped 0 = Some Stopped"
  by (simp_all add: demo_stopped_def demo_stop_eval lifecycle_at_def)

definition demo_reused :: state where
  "demo_reused = fst (the (allocate demo_world Native None demo_stopped))"

lemma demo_reuse:
  "allocate demo_world Native None demo_stopped = Some (demo_reused, Inr (ActorRef 1 0 2))"
  "check_ref demo_world demo_reused demo_ref = Inl StaleReference"
  by (simp_all add: demo_reused_def demo_stopped_def demo_stop_eval allocate_def allocate_locked_def
      parent_check_def pop_slot_def slot_generation_def put_actor_def wrapping_add_def)

definition demo_claimed :: state where
  "demo_claimed = fst (the (claim demo_world demo_ref demo_queued))"

lemma demo_claim:
  "\<exists>l. claim demo_world demo_ref demo_queued = Some (demo_claimed, Inr (Some l)) \<and> dl_target l = demo_ref"
  "\<exists>a. live_at demo_claimed 0 = Some a \<and> a_in_flight a \<and> a_queue a = []"
  by (simp_all add: demo_claimed_def demo_queued_def demo_send_eval claim_def running_def pop_delivery_def
      remove_deadline_def screen_delivery_def due_def check_upd_def adl_add_def adl_remove_def)

lemma demo_claimed_ref: "\<exists>b. check_ref demo_world demo_claimed demo_ref = Inr b \<and> a_in_flight b"
  by (simp add: demo_claimed_def demo_queued_def demo_send_eval claim_def running_def pop_delivery_def
      remove_deadline_def screen_delivery_def due_def check_upd_def adl_add_def adl_remove_def)

definition demo_reactivated :: state where
  "demo_reactivated = fst (the (activate demo_world (ActorRef 1 0 2) demo_reused))"

lemma demo_reactivate:
  "activate demo_world (ActorRef 1 0 2) demo_reused = Some (demo_reactivated, Inr ())"
  by (simp add: demo_reactivated_def demo_reused_def demo_stopped_def demo_stop_eval allocate_def
      allocate_locked_def parent_check_def pop_slot_def slot_generation_def put_actor_def wrapping_add_def
      activate_def refresh_python_subtree_locked_def mark_activity_tree_locked_def flush_staged_locked_def
      read_now_def expire_events_locked_def di_new_def di_take_due_def numeral_3_eq_3 di_remove_def
      bm_remove_def)

section \<open>Reachability\<close>

lemma demo_ops:
  "world_op demo_world demo_new demo_started" "world_op demo_world demo_started demo_active"
  "world_op demo_world demo_active demo_queued" "world_op demo_world demo_active demo_stopped"
  "world_op demo_world demo_stopped demo_reused" "world_op demo_world demo_reused demo_reactivated"
  "world_op demo_world demo_queued demo_claimed"
  using demo_allocate demo_activate demo_send(1) demo_stop(1) demo_reuse(1) demo_reactivate demo_claim(1)
  by (auto simp: world_op_def intro: work_op.intros claim_op.intros)

lemma demo_reachable:
  "world_reachable demo_world demo_new" "world_reachable demo_world demo_started"
  "world_reachable demo_world demo_active" "world_reachable demo_world demo_queued"
  "world_reachable demo_world demo_stopped" "world_reachable demo_world demo_reused"
  "world_reachable demo_world demo_claimed"
proof -
  show new: "world_reachable demo_world demo_new"
    by (rule reachable_init) (unfold world_initial_def, intro exI, rule demo_initial)
  show started: "world_reachable demo_world demo_started" by (rule reachable_step [OF new demo_ops(1)])
  show active: "world_reachable demo_world demo_active" by (rule reachable_step [OF started demo_ops(2)])
  show queued: "world_reachable demo_world demo_queued" by (rule reachable_step [OF active demo_ops(3)])
  show stopped: "world_reachable demo_world demo_stopped" by (rule reachable_step [OF active demo_ops(4)])
  show "world_reachable demo_world demo_reused" by (rule reachable_step [OF stopped demo_ops(5)])
  show "world_reachable demo_world demo_claimed" by (rule reachable_step [OF queued demo_ops(7)])
qed

lemma demo_paths:
  "(world_op demo_world)\<^sup>*\<^sup>* demo_active demo_claimed" "(world_op demo_world)\<^sup>*\<^sup>* demo_active demo_reused"
  "(world_op demo_world)\<^sup>*\<^sup>* demo_reused demo_reactivated"
  using demo_ops by (meson r_into_rtranclp rtranclp.rtrancl_into_rtrancl)+

lemma demo_active_ref: "\<exists>a. check_ref demo_world demo_active demo_ref = Inr a"
  by (simp add: demo_base demo_started_def demo_active_def)

lemma demo_stopped_ref:
  "\<exists>x. check_ref demo_world demo_stopped demo_ref = Inr x \<and> a_parent x = None \<and> a_reference x = demo_ref"
  by (simp add: demo_stopped_def demo_stop_eval)

end
