(* ===== verification/World_Correct.thy ===== *)
theory World_Correct
  imports World_Demo
begin

text \<open>
  What every sequence of World operations guarantees: bounded mailboxes, exact slot accounting, handles
  that denote one actor for ever, and lifecycles that only move forward.
\<close>

section \<open>Incarnations\<close>

fun lifecycle_rank :: "lifecycle \<Rightarrow> nat" where
  "lifecycle_rank Starting = 0"
| "lifecycle_rank Active = 1"
| "lifecycle_rank Quiescing = 2"
| "lifecycle_rank Stopping = 3"
| "lifecycle_rank Stopped = 4"

definition same_actor :: "actor \<Rightarrow> actor \<Rightarrow> bool" where
  "same_actor a b \<longleftrightarrow> a_reference b = a_reference a \<and> a_ready_order b = a_ready_order a
     \<and> a_kind b = a_kind a \<and> a_parent b = a_parent a
     \<and> lifecycle_rank (a_state a) \<le> lifecycle_rank (a_state b)"

text \<open>The occupant of a slot is the same actor later, or the slot has a later generation.\<close>

definition follows :: "actor \<Rightarrow> actor \<Rightarrow> bool" where
  "follows a b \<longleftrightarrow> gen a < gen b \<or> same_actor a b"

lemma same_actor_refl: "same_actor a a"
  by (simp add: same_actor_def)

lemma follows_trans: "follows a b \<Longrightarrow> follows b c \<Longrightarrow> follows a c"
  by (auto simp: follows_def same_actor_def)

lemma actor_step_rank: "actor_step w a b \<Longrightarrow> lifecycle_rank (a_state a) \<le> lifecycle_rank (a_state b)"
proof (induction rule: actor_step.induct)
  case (as_quiesce a cutoff root)
  then show ?case by (cases "a_state a") (auto simp: quiesce_actor_def fenced_def)
next
  case (as_fence a)
  then show ?case by (cases "a_state a") (auto simp: clear_mailbox_def)
qed (auto simp: same_core_def push_delivery_def set_back_port_def stage_publication_def keep_queue_def
    keep_staged_def)

lemma actor_step_same: "actor_step w a b \<Longrightarrow> same_actor a b"
  using actor_step_frame actor_step_rank by (auto simp: same_actor_def frame_def)

lemma upd_const_follows:
  assumes "live_at s i = Some a" "same_actor a b" "live_at s j = Some c"
  shows "\<exists>d. live_at (upd_slot i (\<lambda>_. b) s) j = Some d \<and> follows c d"
  using assms by (cases "i = j") (auto simp: live_upd follows_def same_actor_refl)

lemma rank_Stopped: "lifecycle_rank l \<le> 4"
  by (cases l) auto

lemma retired_follows:
  assumes "retired_slots r L L'" "L j = Some c"
  shows "\<exists>d. L' j = Some d \<and> follows c d"
proof -
  obtain d where "L' j = Some d" "a_reference d = a_reference c" "a_ready_order d = a_ready_order c"
    "a_parent d = a_parent c" "a_kind d = a_kind c" "a_state d = (if j = ar_slot r then Stopped else a_state c)"
    using assms unfolding retired_slots_def by blast
  then show ?thesis using rank_Stopped by (auto simp: follows_def same_actor_def)
qed

lemma any_step_follows:
  assumes "any_step w s t" "world_inv w s" "live_at s j = Some c"
  shows "\<exists>d. live_at t j = Some d \<and> follows c d"
proof -
  have refl: "live_at t j = Some c \<Longrightarrow> ?thesis" by (auto simp: follows_def same_actor_refl)
  from assms(1) consider "wstep w s t" | "alloc_step w s t" | "hold_step w s t"
    by (auto simp: any_step_def work_step_def)
  then show ?thesis
  proof cases
    case 1
    then show ?thesis
      using assms(2,3) refl
    proof (induction rule: wstep.induct)
      case (ws_actor s i a b)
      then show ?case using upd_const_follows actor_step_same by blast
    next
      case (ws_retire s r a)
      then show ?case using retired_follows [OF retire_slots] by blast
    qed (auto simp: soft_eq_def live_at_def)
  next
    case 2
    then show ?thesis
      using assms(2,3)
    proof (induction rule: alloc_step.induct)
      case (ws_alloc s parent n slot s1 kind)
      let ?r = "ActorRef (in_id w) slot (slot_generation s1 slot)"
      note facts = alloc_facts [OF ws_alloc(5,2,4)]
      note grown = facts(5) [of kind n]
      show ?case
      proof (cases "j = ar_slot ?r")
        case True
        then show ?thesis
          using grown facts(2) ws_alloc(6) by (auto simp: grown_slots_def fresh_slot_for_def follows_def new_actor_def)
      next
        case False
        then show ?thesis
          using grown_forth [OF grown ws_alloc(6)] by (auto simp: grows_def follows_def same_actor_def)
      qed
    qed
  next
    case 3
    then show ?thesis
      using assms(3)
      by (induction rule: hold_step.induct) (auto intro!: upd_const_follows simp: same_actor_def holds_fields)
  qed
qed

lemma any_steps_follows:
  assumes "(any_step w)\<^sup>*\<^sup>* s t" "world_inv w s" "live_at s j = Some c"
  shows "\<exists>d. live_at t j = Some d \<and> follows c d"
  using assms
proof (induction rule: rtranclp_induct)
  case base
  then show ?case by (auto simp: follows_def same_actor_refl)
next
  case (step t u)
  then obtain d where "live_at t j = Some d" "follows c d" by blast
  moreover have "world_inv w t" by (rule any_steps_inv [OF step(1,4)])
  ultimately show ?case using any_step_follows [OF step(2)] follows_trans by blast
qed

lemma check_ref_iff:
  assumes "world_inv w s"
  shows "check_ref w s r = Inr a \<longleftrightarrow> live_at s (ar_slot r) = Some a \<and> a_reference a = r"
proof -
  have refs: "refs_ok (in_id w) (st_next_ready_order s) (live_at s)" using assms by (simp add: world_inv_def)
  show ?thesis
  proof
    assume "check_ref w s r = Inr a"
    from check_ref_reference [OF refs this] show "live_at s (ar_slot r) = Some a \<and> a_reference a = r" by blast
  next
    assume *: "live_at s (ar_slot r) = Some a \<and> a_reference a = r"
    then have "ar_world r = in_id w" using refs unfolding refs_ok_def by blast
    then show "check_ref w s r = Inr a" using * by (simp add: check_ref_alt)
  qed
qed

section \<open>Handles\<close>

text \<open>A handle denotes one actor for ever. Whatever methods run between two uses of a handle, if it
  resolves both times it resolves to the same actor: the same handle, readiness order, kind and parent,
  whose lifecycle has only moved forward.\<close>

theorem handle_denotes_one_actor:
  assumes "world_reachable w s" "(world_op w)\<^sup>*\<^sup>* s t"
    and "check_ref w s r = Inr a" "check_ref w t r = Inr b"
  shows "a_reference a = r \<and> a_reference b = r \<and> a_ready_order b = a_ready_order a \<and> a_kind b = a_kind a
    \<and> a_parent b = a_parent a \<and> lifecycle_rank (a_state a) \<le> lifecycle_rank (a_state b)"
proof -
  have inv: "world_inv w s" by (rule world.reachable_invar [OF assms(1)])
  have steps: "(any_step w)\<^sup>*\<^sup>* s t" "world_inv w t" using world_ops_steps [OF assms(2) inv] by auto
  have a: "live_at s (ar_slot r) = Some a" "a_reference a = r" using assms(3) check_ref_iff [OF inv] by auto
  have b: "live_at t (ar_slot r) = Some b" "a_reference b = r" using assms(4) check_ref_iff [OF steps(2)] by auto
  from any_steps_follows [OF steps(1) inv a(1)] b(1) have "follows a b" by simp
  then show ?thesis using a(2) b(2) by (auto simp: follows_def same_actor_def)
qed

theorem handle_denotes_one_actor_witness:
  "\<exists>a b. check_ref demo_world demo_active demo_ref = Inr a \<and> check_ref demo_world demo_claimed demo_ref = Inr b
     \<and> a_ready_order b = a_ready_order a \<and> a_kind b = a_kind a"
proof -
  obtain a b where ab: "check_ref demo_world demo_active demo_ref = Inr a"
    "check_ref demo_world demo_claimed demo_ref = Inr b"
    using demo_active_ref demo_claimed_ref by blast
  from handle_denotes_one_actor [OF demo_reachable(3) demo_paths(1) ab] show ?thesis using ab by blast
qed

text \<open>C1. A stale handle stays stale. Once the slot of a handle that resolved has been given to another
  actor, the handle is refused in every later state.\<close>

theorem stale_handle_stays_stale:
  assumes "world_reachable w s" "(world_op w)\<^sup>*\<^sup>* s t" "(world_op w)\<^sup>*\<^sup>* t u"
    and "check_ref w s r = Inr a" "check_ref w t r = Inl e"
  shows "check_ref w u r = Inl StaleReference"
proof -
  have inv: "world_inv w s" by (rule world.reachable_invar [OF assms(1)])
  have t: "(any_step w)\<^sup>*\<^sup>* s t" "world_inv w t" using world_ops_steps [OF assms(2) inv] by auto
  have u: "(any_step w)\<^sup>*\<^sup>* t u" "world_inv w u" using world_ops_steps [OF assms(3) t(2)] by auto
  have a: "live_at s (ar_slot r) = Some a" "a_reference a = r" using assms(4) check_ref_iff [OF inv] by auto
  obtain b where b: "live_at t (ar_slot r) = Some b" "follows a b" using any_steps_follows [OF t(1) inv a(1)] by blast
  then have "a_reference b \<noteq> r" using assms(5) check_ref_iff [OF t(2), of r b] by auto
  then have "ar_generation r < gen b" using b(2) a(2) by (auto simp: follows_def same_actor_def)
  moreover obtain c where c: "live_at u (ar_slot r) = Some c" "follows b c"
    using any_steps_follows [OF u(1) t(2) b(1)] by blast
  ultimately have "ar_generation r < gen c" by (auto simp: follows_def same_actor_def)
  moreover have "ar_world r = in_id w" using assms(4) by (auto simp: check_ref_alt split: if_splits)
  ultimately show ?thesis using c(1) by (simp add: check_ref_alt)
qed

theorem stale_handle_stays_stale_witness:
  "check_ref demo_world demo_reused demo_ref = Inl StaleReference
   \<and> check_ref demo_world demo_reactivated demo_ref = Inl StaleReference"
proof -
  obtain a where a: "check_ref demo_world demo_active demo_ref = Inr a" using demo_active_ref by blast
  show ?thesis
    using stale_handle_stays_stale [OF demo_reachable(3) demo_paths(2,3) a demo_reuse(2)] demo_reuse(2) by simp
qed

section \<open>Bounds\<close>

text \<open>C6. Mailboxes are bounded and their byte counters exact. In every reachable state an actor's queue
  and its staged publications are within the configured count and bytes, the byte counters are the sums
  over the entries, and an actor that has been fenced has neither.\<close>

theorem world_mailboxes_bounded:
  assumes "world_reachable w s" "check_ref w s r = Inr a"
  shows "length (a_queue a) \<le> cfg_mailbox_capacity (in_cfg w)
    \<and> a_queue_bytes a = delivery_bytes (a_queue a) \<and> a_queue_bytes a \<le> cfg_mailbox_bytes (in_cfg w)
    \<and> length (a_staged a) \<le> cfg_mailbox_capacity (in_cfg w)
    \<and> a_staged_bytes a = staged_entry_bytes (a_staged a) \<and> a_staged_bytes a \<le> cfg_mailbox_bytes (in_cfg w)
    \<and> (a_state a = Stopping \<or> a_state a = Stopped \<longrightarrow> a_queue a = [] \<and> a_staged a = [])"
proof -
  have inv: "world_inv w s" by (rule world.reachable_invar [OF assms(1)])
  then have "live_at s (ar_slot r) = Some a" using assms(2) check_ref_iff by blast
  then have "actor_ok w a" using inv unfolding world_inv_def mailboxes_ok_def by blast
  then show ?thesis by (simp add: actor_ok_def fenced_def)
qed

theorem world_mailboxes_bounded_witness:
  "\<exists>a. check_ref demo_world demo_claimed demo_ref = Inr a \<and> a_in_flight a \<and> length (a_queue a) \<le> 2"
proof -
  obtain a where a: "check_ref demo_world demo_claimed demo_ref = Inr a" "a_in_flight a"
    using demo_claimed_ref by blast
  from world_mailboxes_bounded [OF demo_reachable(7) a(1)] have "length (a_queue a) \<le> 2"
    by (simp add: demo_world_def demo_config_def)
  then show ?thesis using a by blast
qed

text \<open>C8. Slot accounting is exact. In every reachable state the live count is the number of actors that
  have not stopped and is within the limit; the free list holds exactly the slots of the stopped ones,
  once each; and no generation can wrap: each is bounded by the readiness order of its actor, which the
  allocation checks against overflow, and the next one is always its successor.\<close>

theorem world_slots_exact:
  assumes "world_reachable w s"
  shows "st_live_actors s = card {i. \<exists>a. live_at s i = Some a \<and> a_state a \<noteq> Stopped}
    \<and> st_live_actors s \<le> cfg_max_actors (in_cfg w)
    \<and> distinct (st_free s) \<and> set (st_free s) = {i. \<exists>a. live_at s i = Some a \<and> a_state a = Stopped}
    \<and> (\<forall>i. case live_at s i of None \<Rightarrow> length (st_actors s) \<le> i
          | Some a \<Rightarrow> 1 \<le> gen a \<and> gen a < u64_max \<and> slot_generation s i = gen a + 1)"
proof -
  have inv: "world_inv w s" by (rule world.reachable_invar [OF assms])
  then have slots: "slots_ok w s" and refs: "refs_ok (in_id w) (st_next_ready_order s) (live_at s)"
    by (auto simp: world_inv_def)
  let ?live = "{i. \<exists>a. live_at s i = Some a \<and> a_state a \<noteq> Stopped}"
  have free: "set (st_free s) = {i. \<exists>a. live_at s i = Some a \<and> a_state a = Stopped}"
    using slots by (auto simp: slots_ok_def lifecycle_at_def)
  have split: "{..<length (st_actors s)} = ?live \<union> set (st_free s)" "?live \<inter> set (st_free s) = {}"
    using slots live_at_bound by (auto simp: free slots_ok_def lifecycle_at_def)
  have "?live \<subseteq> {..<length (st_actors s)}" unfolding split(1) by (rule Un_upper1)
  then have "finite ?live" by (rule finite_subset) (rule finite_lessThan)
  then have "card (?live \<union> set (st_free s)) = card ?live + card (set (st_free s))"
    by (rule card_Un_disjoint) (simp_all add: split(2))
  then have "length (st_actors s) = card ?live + card (set (st_free s))"
    by (simp add: split(1) [symmetric])
  moreover have count: "st_live_actors s + length (st_free s) = length (st_actors s)" "distinct (st_free s)"
    "st_live_actors s \<le> cfg_max_actors (in_cfg w)"
    using slots unfolding slots_ok_def by blast+
  ultimately have "st_live_actors s = card ?live" using distinct_card [of "st_free s"] by linarith
  moreover have "case live_at s i of None \<Rightarrow> length (st_actors s) \<le> i
      | Some a \<Rightarrow> 1 \<le> gen a \<and> gen a < u64_max \<and> slot_generation s i = gen a + 1" for i
  proof (cases "live_at s i")
    case None
    then have "\<not> i < length (st_actors s)" using slots unfolding slots_ok_def by blast
    then show ?thesis using None by simp
  next
    case (Some a)
    then have "1 \<le> gen a" "gen a \<le> a_ready_order a" "a_ready_order a < st_next_ready_order s"
      using refs unfolding refs_ok_def by blast+
    moreover have "st_next_ready_order s \<le> u64_max" using slots by (simp add: slots_ok_def)
    ultimately show ?thesis using Some by (simp add: slot_generation_def wrapping_add_def)
  qed
  ultimately show ?thesis using count(2,3) free by simp
qed

theorem world_slots_exact_witness:
  "st_live_actors demo_stopped = 0 \<and> set (st_free demo_stopped) = {0}
   \<and> {i. \<exists>a. live_at demo_stopped i = Some a \<and> a_state a = Stopped} = {0}"
  using world_slots_exact [OF demo_reachable(5)] by (simp add: demo_stop)

end
