(* ===== verification/World_Sends.thy ===== *)
theory World_Sends
  imports World_Correct
begin

text \<open>
  What a send does, on every branch: admission to a mailbox and \<^verbatim>\<open>send_with\<close>, from the checks in their
  order to the one delivery at the back of the target's queue.
\<close>

section \<open>Admission\<close>

text \<open>The fields a refused admission must leave alone.\<close>

definition same_world :: "state \<Rightarrow> state \<Rightarrow> bool" where
  "same_world s t \<longleftrightarrow> soft_eq s t \<and> st_publications t = st_publications s \<and> st_subs t = st_subs s
     \<and> st_services t = st_services s \<and> st_external t = st_external s \<and> st_schemas t = st_schemas s
     \<and> st_python_ready t = st_python_ready s \<and> st_event_deadlines t = st_event_deadlines s
     \<and> st_activity t = st_activity s"

lemma same_world_refl: "same_world s s"
  by (simp add: same_world_def soft_eq_def)

lemma same_world_trans: "same_world s t \<Longrightarrow> same_world t u \<Longrightarrow> same_world s u"
  by (simp add: same_world_def soft_eq_def)

lemma same_world_reads:
  "same_world s (fst (read_now w s))" "same_world s (fst (next_event_id s))"
  "same_world s (fst (make_stored_with w p opts dispatcher s))"
  by (auto simp: same_world_def soft_eq_def read_now_def next_event_id_def make_stored_with_def
      split: option.splits sum.splits)

lemma same_world_metrics: "same_world s (upd_metrics f s)"
  by (simp add: same_world_def soft_eq_def)

lemma same_world_reject: "same_world s (reject w e r s)"
  by (simp add: same_world_def soft_eq_def reject_def diagnostic_def read_now_def)

lemma execution_loop_same:
  "st_actors s = st_actors t \<Longrightarrow> execution_loop w s fuel a ss sq = execution_loop w t fuel a ss sq"
proof (induction fuel arbitrary: a ss sq)
  case (Suc fuel)
  then show ?case using check_ref_actors [OF Suc.prems] by (simp add: Let_def split: option.splits sum.splits)
qed simp

lemma execution_state_same: "soft_eq s t \<Longrightarrow> execution_state_locked w t r = execution_state_locked w s r"
  using execution_loop_same [of s t] check_ref_actors [of s t]
  by (simp add: execution_state_locked_def soft_eq_def split: sum.splits)

text \<open>The outcome of an admission.\<close>

definition admitted :: "inner \<Rightarrow> actor_ref \<Rightarrow> stored \<Rightarrow> nat option \<Rightarrow> bool \<Rightarrow> operation_id option \<Rightarrow> state \<Rightarrow> state \<Rightarrow>
  nat result \<Rightarrow> bool" where
  "admitted w r st sub completion operation s t z \<longleftrightarrow>
     (case z of
        Inl e \<Rightarrow> same_world s t \<and> st_metrics t = st_metrics s
      | Inr i \<Rightarrow> (\<exists>a d l. execution_state_locked w s r = Some (Inr l) \<and> (l = Active \<or> completion \<and> l = Quiescing)
          \<and> check_ref w s r = Inr a \<and> i = st_next_event s
          \<and> length (a_queue a) < cfg_mailbox_capacity (in_cfg w)
          \<and> a_queue_bytes a + s_bytes st \<le> cfg_mailbox_bytes (in_cfg w)
          \<and> d_event_id d = i \<and> d_payload d = st \<and> d_subscription d = sub \<and> d_operation d = operation
          \<and> st_actors t = st_actors (upd_actor r (push_delivery d) s)
          \<and> st_metrics t = (st_metrics s)\<lparr>m_admitted := m_admitted (st_metrics s) + 1\<rparr>
          \<and> st_operations t = st_operations s \<and> st_publications t = st_publications s \<and> st_subs t = st_subs s
          \<and> st_services t = st_services s \<and> st_external t = st_external s))"

lemma sync_fields [simp]:
  "st_metrics (sync_deadline r s) = st_metrics s" "st_operations (sync_deadline r s) = st_operations s"
  "st_publications (sync_deadline r s) = st_publications s" "st_subs (sync_deadline r s) = st_subs s"
  "st_services (sync_deadline r s) = st_services s" "st_external (sync_deadline r s) = st_external s"
  "st_actors (sync_deadline r s) = st_actors s"
  by (simp_all add: sync_deadline_def split: option.splits)

lemma upd_slot_rest [simp]:
  "st_metrics (upd_slot i f s) = st_metrics s" "st_publications (upd_slot i f s) = st_publications s"
  "st_subs (upd_slot i f s) = st_subs s" "st_services (upd_slot i f s) = st_services s"
  "st_external (upd_slot i f s) = st_external s"
  by (simp_all add: upd_slot_def)

lemma admit_success:
  assumes "same_world s s2" "st_metrics s2 = st_metrics s" "st_next_event s = i"
    and "execution_state_locked w s2 r = Some (Inr l)" "check_ref w s2 r = Inr a"
    and "mailbox_check w l a st completion = Inr u"
    and "d_event_id d = i" "d_payload d = st" "d_subscription d = sub" "d_operation d = operation"
    and "refresh_python_ready_locked w r (sync_deadline r (upd_actor r (push_delivery d) s2)) = Some s4"
    and "mark_activity_dependents_locked w r (upd_metrics (\<lambda>m. m\<lparr>m_admitted := m_admitted m + 1\<rparr>) s4) = Some s5"
  shows "admitted w r st sub completion operation s s5 (Inr i)"
proof -
  have soft: "soft_eq s s2" using assms(1) by (simp add: same_world_def)
  have ex: "execution_state_locked w s r = Some (Inr l)" using assms(4) execution_state_same [OF soft] by simp
  have ref: "check_ref w s r = Inr a" using assms(5) check_ref_actors [of s s2] soft by (simp add: soft_eq_def)
  obtain x g where "s4 = (sync_deadline r (upd_actor r (push_delivery d) s2))\<lparr>st_python_ready := x\<rparr>"
    "s5 = (upd_metrics (\<lambda>m. m\<lparr>m_admitted := m_admitted m + 1\<rparr>) s4)\<lparr>st_activity := g\<rparr>"
    using refresh_only [OF assms(11)] mark_only [OF assms(12)] by blast
  moreover have "st_actors (upd_actor r (push_delivery d) s2) = st_actors (upd_actor r (push_delivery d) s)"
    using soft by (simp add: soft_eq_def upd_slot_def)
  moreover have "l = Active \<or> completion \<and> l = Quiescing" "length (a_queue a) < cfg_mailbox_capacity (in_cfg w)"
    "a_queue_bytes a + s_bytes st \<le> cfg_mailbox_bytes (in_cfg w)"
    using assms(6) by (auto simp: mailbox_check_def split: if_splits)
  ultimately show ?thesis
    unfolding admitted_def using assms(1-3,7-10) soft ex ref
    by (auto simp: same_world_def soft_eq_def)
qed

lemmas plain_post = post_None post_Some post_if post_case_option post_case_sum post_pair post_case_list
  post_case_entry post_Let post_try post_bind post_map post_case_prod

lemma admit_admitted: "post (\<lambda>y. admitted w r st sub completion operation s (fst y) (snd y))
    (admit w r st sub completion operation s)"
proof -
  have now: "same_world s s1 \<and> st_metrics s1 = st_metrics s \<and> st_next_event s1 = st_next_event s"
    if "read_now w s = (s1, n)" for s1 n
    using that by (auto simp: same_world_def soft_eq_def read_now_def)
  have event: "same_world s s2 \<and> st_metrics s2 = st_metrics s"
    if "next_event_id s1 = (s2, x)" "read_now w s = (s1, n)" for s1 n s2 x
    using that same_world_trans [of s s1 s2] now [of s1 n] same_world_reads(2) [of s1]
    by (auto simp: next_event_id_def split: option.splits)
  have fail: "admitted w r st sub completion operation s t (Inl e)"
    if "same_world s t \<and> st_metrics t = st_metrics s" for t e
    using that by (simp add: admitted_def)
  have next1: "st_next_event s = i" if "next_event_id s1 = (s2, Inr i)" "read_now w s = (s1, n)" for s1 n s2 i
    using that by (auto simp: next_event_id_def read_now_def split: option.splits if_splits)
  show ?thesis
    unfolding admit_def
    by (rule plain_post
      | (unfold fst_conv snd_conv, rule fail, drule now, blast)
      | (unfold fst_conv snd_conv, rule fail, erule event, assumption)
      | (unfold fst_conv snd_conv, hypsubst, rule admit_success,
          (erule (1) event [THEN conjunct1])+, (erule (1) event [THEN conjunct2])+, erule (1) next1, assumption+, simp_all))+
qed

section \<open>Sends\<close>

lemma touch_fields:
  "st_actors (touch_activity s) = st_actors s" "st_operations (touch_activity s) = st_operations s"
  "st_publications (touch_activity s) = st_publications s" "st_subs (touch_activity s) = st_subs s"
  "st_services (touch_activity s) = st_services s" "st_external (touch_activity s) = st_external s"
  "st_metrics (touch_activity s) = st_metrics s"
  by (simp_all add: touch_activity_def wake_routing_def Let_def case_prod_beta)

lemma reject_metrics:
  "st_metrics (reject w e r s) = (st_metrics s)\<lparr>m_rejected := m_rejected (st_metrics s) + 1\<rparr>"
  by (simp add: reject_def diagnostic_def read_now_def)

lemma make_stored_Inr:
  assumes "make_stored_with w p opts dispatcher s = (s', Inr st)"
  shows "s_payload st = p" "s_options st = opts" "s_bytes st = payload_bytes p + charged_bytes opts"
    "s_bytes st \<le> cfg_max_event_bytes (in_cfg w)" "s_bytes st \<le> cfg_native_payload_budget (in_cfg w) - retained s"
    "s_addr st = st_next_addr s"
  using assms
  by (auto simp: make_stored_with_def reserve_def bindR_Inr_iff ok_or_def split: sum.splits if_splits option.splits)

lemma make_stored_fields:
  assumes "make_stored_with w p opts dispatcher s = (s', m)"
  shows "same_world s s'" "st_metrics s' = st_metrics s" "st_next_event s' = st_next_event s"
  using assms same_world_reads(3) [of s w p opts dispatcher] by (auto simp: make_stored_with_def split: sum.splits)

lemma live_push:
  assumes "st_actors t = st_actors (upd_actor r (push_delivery d) s)" "check_ref w s r = Inr a"
  shows "check_ref w t r = Inr (push_delivery d a)" "j \<noteq> ar_slot r \<Longrightarrow> live_at t j = live_at s j"
proof -
  have t: "live_at t j = live_at (upd_actor r (push_delivery d) s) j" for j by (rule live_at_actors [OF assms(1)])
  show "check_ref w t r = Inr (push_delivery d a)"
    using assms(2) check_ref_live [OF assms(2)]
    by (auto simp: check_ref_alt t live_upd push_delivery_def split: if_splits)
  show "j \<noteq> ar_slot r \<Longrightarrow> live_at t j = live_at s j" by (simp add: t live_upd)
qed

text \<open>Every branch of \<^verbatim>\<open>send_with\<close>.\<close>

lemma send_effect:
  assumes "send_with w r p opts s = Some (t, z)"
  shows "case z of
      Inl e \<Rightarrow> st_actors t = st_actors s \<and> st_operations t = st_operations s
        \<and> st_publications t = st_publications s \<and> st_subs t = st_subs s \<and> st_services t = st_services s
        \<and> st_external t = st_external s \<and> st_event_deadlines t = st_event_deadlines s
        \<and> st_metrics t = (st_metrics s)\<lparr>m_submitted := m_submitted (st_metrics s) + 1,
            m_rejected := m_rejected (st_metrics s) + 1\<rparr>
    | Inr i \<Rightarrow> (\<exists>a d. execution_state w r s = Some (Inr Active) \<and> check_ref w s r = Inr a \<and> i = st_next_event s
        \<and> length (a_queue a) < cfg_mailbox_capacity (in_cfg w)
        \<and> payload_bytes p + charged_bytes opts \<le> cfg_max_event_bytes (in_cfg w)
        \<and> payload_bytes p + charged_bytes opts \<le> cfg_native_payload_budget (in_cfg w) - retained s
        \<and> a_queue_bytes a + (payload_bytes p + charged_bytes opts) \<le> cfg_mailbox_bytes (in_cfg w)
        \<and> d_event_id d = i \<and> s_payload (d_payload d) = p \<and> s_options (d_payload d) = opts
        \<and> check_ref w t r = Inr (push_delivery d a) \<and> (\<forall>j. j \<noteq> ar_slot r \<longrightarrow> live_at t j = live_at s j)
        \<and> st_operations t = st_operations s \<and> st_publications t = st_publications s \<and> st_subs t = st_subs s
        \<and> st_metrics t = (st_metrics s)\<lparr>m_submitted := m_submitted (st_metrics s) + 1,
            m_admitted := m_admitted (st_metrics s) + 1\<rparr>)"
proof -
  obtain s1 m where s1: "make_stored_with w p opts None (count_submitted s) = (s1, m)" by force
  note f = make_stored_fields [OF s1]
  have cs: "same_world s s1" using f(1) by (simp add: same_world_def soft_eq_def)
  have ret: "retained (count_submitted s) = retained s"
    by (simp add: retained_def live_stored_def all_actors_def)
  show ?thesis
  proof (cases m)
    case (Inl e)
    then have "t = reject w e r s1" "z = Inl e" using assms s1 by (auto simp: send_with_def)
    then show ?thesis
      using same_world_trans [OF cs same_world_reject] f(2) by (auto simp: reject_metrics same_world_def soft_eq_def)
  next
    case (Inr st)
    then obtain u y where u: "admit w r st None False None s1 = Some (u, y)"
      and tz: "(t, z) = touch_ok (or_reject w r (u, y))"
      using assms s1 by (auto simp: send_with_def)
    have adm: "admitted w r st None False None s1 u y" using postD [OF admit_admitted u] by simp
    show ?thesis
    proof (cases y)
      case (Inl e)
      then have "t = reject w e r u" "z = Inl e" using tz by (auto simp: touch_ok_def or_reject_def is_ok_def)
      moreover have "same_world s (reject w e r u)"
        using adm Inl same_world_trans cs same_world_reject by (auto simp: admitted_def)
      ultimately show ?thesis
        using adm Inl f(2) by (auto simp: reject_metrics same_world_def soft_eq_def admitted_def)
    next
      case (Inr i)
      then have t: "t = touch_activity u" "z = Inr i" using tz by (auto simp: touch_ok_def or_reject_def is_ok_def)
      from adm Inr obtain a d where ad: "execution_state_locked w s1 r = Some (Inr Active)"
        "check_ref w s1 r = Inr a" "i = st_next_event s1" "length (a_queue a) < cfg_mailbox_capacity (in_cfg w)"
        "a_queue_bytes a + s_bytes st \<le> cfg_mailbox_bytes (in_cfg w)" "d_event_id d = i" "d_payload d = st"
        "st_actors u = st_actors (upd_actor r (push_delivery d) s1)"
        "st_metrics u = (st_metrics s1)\<lparr>m_admitted := m_admitted (st_metrics s1) + 1\<rparr>"
        "st_operations u = st_operations s1" "st_publications u = st_publications s1" "st_subs u = st_subs s1"
        by (auto simp: admitted_def)
      have soft: "soft_eq s s1" using cs by (simp add: same_world_def)
      have acts: "st_actors t = st_actors (upd_actor r (push_delivery d) s)"
        using soft ad(8) t(1) by (simp add: touch_fields soft_eq_def upd_slot_def)
      have ref: "check_ref w s r = Inr a" using ad(2) check_ref_actors [of s s1] soft by (simp add: soft_eq_def)
      have "execution_state w r s = Some (Inr Active)"
        using ad(1) execution_state_same [OF soft] by (simp add: execution_state_def)
      moreover note make_stored_Inr [OF s1 [unfolded \<open>m = Inr st\<close>]]
      moreover have "st_metrics t = (st_metrics s)\<lparr>m_submitted := m_submitted (st_metrics s) + 1,
            m_admitted := m_admitted (st_metrics s) + 1\<rparr>"
        using ad(9) f(2) t(1) by (simp add: touch_fields)
      moreover have "st_operations t = st_operations s" "st_publications t = st_publications s" "st_subs t = st_subs s"
        using ad(10-12) t(1) cs by (simp_all add: touch_fields same_world_def soft_eq_def)
      moreover note live_push [OF acts ref] ad(3-7) f(3) ret
      ultimately show ?thesis using t(2) ref by auto
    qed
  qed
qed

text \<open>C5. A send is all or nothing. When \<^verbatim>\<open>send_with\<close> fails, no actor, operation, publication, route,
  lease or deadline has changed, and the World has counted one submission and one rejection. When it
  succeeds, the target and all its owners were active, the payload was within the event limit and what
  was left of the budget, the target's mailbox had room for it, and the one change to the actors is a
  new delivery of that payload at the back of the target's queue, under the next event identifier.\<close>

theorem send_all_or_nothing:
  assumes "send_with w r p opts s = Some (t, z)"
  shows "case z of
      Inl e \<Rightarrow> st_actors t = st_actors s \<and> st_operations t = st_operations s
        \<and> st_publications t = st_publications s \<and> st_subs t = st_subs s \<and> st_services t = st_services s
        \<and> st_external t = st_external s \<and> st_event_deadlines t = st_event_deadlines s
        \<and> st_metrics t = (st_metrics s)\<lparr>m_submitted := m_submitted (st_metrics s) + 1,
            m_rejected := m_rejected (st_metrics s) + 1\<rparr>
    | Inr i \<Rightarrow> (\<exists>a d. execution_state w r s = Some (Inr Active) \<and> check_ref w s r = Inr a \<and> i = st_next_event s
        \<and> length (a_queue a) < cfg_mailbox_capacity (in_cfg w)
        \<and> payload_bytes p + charged_bytes opts \<le> cfg_max_event_bytes (in_cfg w)
        \<and> payload_bytes p + charged_bytes opts \<le> cfg_native_payload_budget (in_cfg w) - retained s
        \<and> a_queue_bytes a + (payload_bytes p + charged_bytes opts) \<le> cfg_mailbox_bytes (in_cfg w)
        \<and> d_event_id d = i \<and> s_payload (d_payload d) = p \<and> s_options (d_payload d) = opts
        \<and> check_ref w t r = Inr (push_delivery d a) \<and> (\<forall>j. j \<noteq> ar_slot r \<longrightarrow> live_at t j = live_at s j)
        \<and> st_operations t = st_operations s \<and> st_publications t = st_publications s \<and> st_subs t = st_subs s
        \<and> st_metrics t = (st_metrics s)\<lparr>m_submitted := m_submitted (st_metrics s) + 1,
            m_admitted := m_admitted (st_metrics s) + 1\<rparr>)"
  by (rule send_effect [OF assms])

theorem send_all_or_nothing_witness:
  "\<exists>a d. check_ref demo_world demo_active demo_ref = Inr a
     \<and> check_ref demo_world demo_queued demo_ref = Inr (push_delivery d a) \<and> d_event_id d = 1
     \<and> s_payload (d_payload d) = Pulse 7 \<and> m_submitted (st_metrics demo_queued) = m_submitted (st_metrics demo_active) + 1"
  using send_all_or_nothing [OF demo_send(1)] by auto

text \<open>A target that is not active refuses, and no actor changes.\<close>

lemma send_refused:
  assumes "execution_state_locked w s r = Some (Inr l)" "l \<noteq> Active"
  shows "post (\<lambda>y. \<not> is_ok (snd y) \<and> st_actors (fst y) = st_actors s) (send_with w r p opts s)"
  unfolding post_def
proof (intro allI impI)
  fix y assume y: "send_with w r p opts s = Some y"
  obtain t z where tz: "y = (t, z)" by (cases y)
  show "\<not> is_ok (snd y) \<and> st_actors (fst y) = st_actors s"
  proof (cases z)
    case (Inl e)
    then show ?thesis using send_effect [OF y [unfolded tz]] tz by (simp add: is_ok_def)
  next
    case (Inr i)
    then show ?thesis
      using send_effect [OF y [unfolded tz]] assms by (auto simp: execution_state_def)
  qed
qed

end
