(* ===== verification/World_Execution.thy ===== *)
theory World_Execution
  imports World_Sends
begin

text \<open>
  The execution state of an actor is decided by its ownership chain. In a reachable World the walk along
  the parent links ends within its fuel, and its result is the reading of the whole chain given here.
  From this follow the guarantees of \<^verbatim>\<open>stop\<close>.
\<close>

section \<open>Ownership chains\<close>

text \<open>The actors from \<open>a\<close> up to its root, or up to a parent link that no longer resolves.\<close>

inductive chain :: "inner \<Rightarrow> state \<Rightarrow> actor \<Rightarrow> actor list \<Rightarrow> bool" for w s where
  chain_root: "a_parent a = None \<Longrightarrow> chain w s a [a]"
| chain_cut: "a_parent a = Some p \<Longrightarrow> check_ref w s p = Inl e \<Longrightarrow> chain w s a [a]"
| chain_up: "a_parent a = Some p \<Longrightarrow> check_ref w s p = Inr pa \<Longrightarrow> chain w s pa cs \<Longrightarrow> chain w s a (a # cs)"

definition chain_state :: "lifecycle list \<Rightarrow> lifecycle" where
  "chain_state ls =
     (if Stopping \<in> set ls \<or> Stopped \<in> set ls then Stopping
      else if Quiescing \<in> set ls then Quiescing
      else if Starting \<in> set ls then Starting else Active)"

lemma parent_link:
  assumes "world_inv w s" "live_at s i = Some a" "a_parent a = Some p"
  shows "a_state a \<noteq> Stopped \<Longrightarrow> \<exists>pa. check_ref w s p = Inr pa"
    and "check_ref w s p = Inr pa \<Longrightarrow> live_at s (ar_slot p) = Some pa \<and> a_ready_order pa < a_ready_order a"
proof -
  have "parent_ok (in_id w) (live_at s) a p" using assms unfolding world_inv_def parents_ok_def by blast
  then obtain qa where qa: "live_at s (ar_slot p) = Some qa"
    "gen qa = ar_generation p \<longrightarrow> a_ready_order qa < a_ready_order a"
    "a_state a \<noteq> Stopped \<longrightarrow> a_reference qa = p"
    by (auto simp: parent_ok_def)
  show "\<exists>pa. check_ref w s p = Inr pa" if "a_state a \<noteq> Stopped"
    using qa that check_ref_iff [OF assms(1), of p qa] by blast
  show "live_at s (ar_slot p) = Some pa \<and> a_ready_order pa < a_ready_order a" if "check_ref w s p = Inr pa"
    using qa that check_ref_iff [OF assms(1), of p pa] by auto
qed

lemma chain_exists:
  assumes "world_inv w s"
  shows "live_at s i = Some a \<Longrightarrow> \<exists>cs. chain w s a cs"
proof (induction "a_ready_order a" arbitrary: i a rule: less_induct)
  case less
  show ?case
  proof (cases "a_parent a")
    case (Some p)
    show ?thesis
    proof (cases "check_ref w s p")
      case (Inr pa)
      then show ?thesis
        using less.hyps [of pa "ar_slot p"] parent_link(2) [OF assms less.prems Some Inr] Some chain_up by blast
    qed (use Some chain_cut in blast)
  qed (use chain_root in blast)
qed

lemma chain_length:
  assumes "world_inv w s"
  shows "chain w s a cs \<Longrightarrow> live_at s i = Some a \<Longrightarrow> 0 < length cs \<and> length cs \<le> a_ready_order a"
proof (induction arbitrary: i rule: chain.induct)
  case (chain_up a p pa cs)
  then show ?case using parent_link(2) [OF assms chain_up.prems chain_up.hyps(1,2)] by fastforce
qed (use assms in \<open>fastforce simp: world_inv_def refs_ok_def\<close>)+

lemma chain_state_Cons:
  "chain_state (l # ls) =
     (if l = Stopping \<or> l = Stopped then Stopping
      else if l = Quiescing \<and> chain_state ls \<noteq> Stopping then Quiescing
      else if l = Starting \<and> chain_state ls = Active then Starting else chain_state ls)"
  by (cases l) (auto simp: chain_state_def)

lemma chain_state_range: "chain_state ls \<in> {Stopping, Quiescing, Starting, Active}"
  by (simp add: chain_state_def)

text \<open>The loop reads the chain; the flags are what it has seen below.\<close>

lemma execution_loop_chain:
  assumes inv: "world_inv w s"
  shows "chain w s a cs \<Longrightarrow> live_at s i = Some a \<Longrightarrow> length cs \<le> fuel \<Longrightarrow>
    execution_loop w s fuel a st qu =
      Some (Inr (if chain_state (map a_state cs) = Stopping then Stopping
                 else if qu \<or> chain_state (map a_state cs) = Quiescing then Quiescing
                 else if st \<or> chain_state (map a_state cs) = Starting then Starting else Active))"
proof (induction arbitrary: i fuel st qu rule: chain.induct)
  case (chain_root a)
  then obtain n where "fuel = Suc n" by (cases fuel) auto
  then show ?case using chain_root by (cases "a_state a") (auto simp: chain_state_def Let_def)
next
  case (chain_cut a p e)
  then have "a_state a = Stopped" using parent_link(1) [OF inv] by fastforce
  moreover obtain n where "fuel = Suc n" using chain_cut by (cases fuel) auto
  ultimately show ?case by (simp add: chain_state_def)
next
  case (chain_up a p pa cs)
  obtain n where n: "fuel = Suc n" "length cs \<le> n" using chain_up.prems(2) by (cases fuel) auto
  have "live_at s (ar_slot p) = Some pa" using parent_link(2) [OF inv chain_up.prems(1) chain_up.hyps(1,2)] by blast
  note IH = chain_up.IH [OF this n(2)]
  show ?case
    unfolding n(1) execution_loop.simps
    using chain_state_range [of "map a_state cs"]
    by (cases "a_state a") (auto simp: Let_def chain_up.hyps IH chain_state_Cons)
qed

lemma execution_state_chain:
  assumes inv: "world_inv w s" and "check_ref w s r = Inr a" "chain w s a cs"
  shows "execution_state_locked w s r = Some (Inr (chain_state (map a_state cs)))"
proof -
  have live: "live_at s (ar_slot r) = Some a" using assms check_ref_iff by blast
  have "a_ready_order a < chain_fuel s" using inv live unfolding world_inv_def refs_ok_def by blast
  then have "length cs \<le> chain_fuel s" using chain_length [OF inv assms(3) live] by linarith
  from execution_loop_chain [OF inv assms(3) live this, of False False] show ?thesis
    using assms(2) by (auto simp: execution_state_locked_def chain_state_def)
qed


text \<open>C7. The execution state is the state of the ownership chain. In every reachable state the walk of
  \<^verbatim>\<open>execution_state\<close> along the parent links of a live handle ends: the chain is no longer than the
  readiness order of the actor. Its result is \<^verbatim>\<open>Stopping\<close> if anyone on the chain has been fenced, else
  \<^verbatim>\<open>Quiescing\<close> if anyone is draining, else \<^verbatim>\<open>Starting\<close> if anyone has not been activated, else
  \<^verbatim>\<open>Active\<close>.\<close>

theorem execution_state_exact:
  assumes "world_reachable w s" "check_ref w s r = Inr a"
  shows "\<exists>cs. chain w s a cs \<and> length cs \<le> a_ready_order a \<and> a_ready_order a < st_next_ready_order s
    \<and> execution_state w r s = Some (Inr (chain_state (map a_state cs)))"
proof -
  have inv: "world_inv w s" by (rule world.reachable_invar [OF assms(1)])
  then have live: "live_at s (ar_slot r) = Some a" using assms(2) check_ref_iff by blast
  then obtain cs where cs: "chain w s a cs" using chain_exists [OF inv] by blast
  moreover have "a_ready_order a < st_next_ready_order s"
    using inv live unfolding world_inv_def refs_ok_def by blast
  ultimately show ?thesis
    using chain_length [OF inv cs live] execution_state_chain [OF inv assms(2) cs]
    by (auto simp: execution_state_def)
qed

theorem execution_state_exact_witness:
  "\<exists>a cs. check_ref demo_world demo_active demo_ref = Inr a \<and> chain demo_world demo_active a cs
     \<and> execution_state demo_world demo_ref demo_active = Some (Inr (chain_state (map a_state cs)))"
proof -
  obtain a where "check_ref demo_world demo_active demo_ref = Inr a" using demo_active_ref by blast
  with execution_state_exact [OF demo_reachable(3) this] show ?thesis by blast
qed

section \<open>After a stop\<close>

text \<open>The slot of \<open>r\<close> holds a fenced \<open>r\<close>, or a later occupant.\<close>

definition fenced_slot :: "actor_ref \<Rightarrow> state \<Rightarrow> bool" where
  "fenced_slot r s \<longleftrightarrow> (\<exists>b. live_at s (ar_slot r) = Some b
     \<and> (ar_generation r < gen b \<or> a_reference b = r \<and> fenced (a_state b)))"

lemma fenced_rank: "fenced l \<longleftrightarrow> 3 \<le> lifecycle_rank l"
  by (cases l) (auto simp: fenced_def)

lemma fenced_slot_steps:
  assumes "(any_step w)\<^sup>*\<^sup>* s t" "world_inv w s" "fenced_slot r s"
  shows "fenced_slot r t"
proof -
  obtain b where b: "live_at s (ar_slot r) = Some b"
    "ar_generation r < gen b \<or> a_reference b = r \<and> fenced (a_state b)"
    using assms(3) by (auto simp: fenced_slot_def)
  from any_steps_follows [OF assms(1,2) b(1)] obtain c where "live_at t (ar_slot r) = Some c" "follows b c" by blast
  then show ?thesis using b(2) by (auto simp: fenced_slot_def follows_def same_actor_def fenced_rank)
qed

lemma core_steps_any: "(wstep w)\<^sup>*\<^sup>* s t \<Longrightarrow> (any_step w)\<^sup>*\<^sup>* s t"
  by (erule mono_rtranclp [rule_format, rotated]) (simp add: any_step_def work_step_def)

lemma try_in_Inr: "try_in s r k = Some (t, Inr b) \<longleftrightarrow> (\<exists>a. r = Inr a \<and> k a = Some (t, Inr b))"
  by (cases r) auto

lemma fence_leave_fences:
  assumes inv: "world_inv w s" and "fence_leave w r s = Some (t, Inr u)"
  shows "fenced_slot r t"
proof -
  obtain a where a: "check_ref w s r = Inr a"
    using assms(2) by (auto simp: fence_leave_def try_in_def split: sum.splits)
  then have live: "live_at s (ar_slot r) = Some a" "a_reference a = r" using check_ref_iff [OF inv] by auto
  show ?thesis
  proof (cases "a_state a = Stopped")
    case True
    then have "t = s" using assms(2) a by (auto simp: fence_leave_def)
    then show ?thesis using live True by (auto simp: fenced_slot_def fenced_def)
  next
    case False
    obtain s1 where s1: "remove_routes w (rt_actor_route_ids (st_subs s) r) s = Some s1"
      using assms(2) a False by (auto simp: fence_leave_def bind_eq_Some_conv)
    have inv1: "core_from w s s1"
      by (rule postD [OF core.route_removals s1]) (simp add: core_from_def inv)
    let ?s2 = "\<lambda>m. upd_metrics m (upd_actor r clear_mailbox s1)"
    obtain m where t: "try_finalize w r (?s2 m) = Some t"
      using assms(2) a False s1 by (auto simp: fence_leave_def try_in_def Let_def split: sum.splits)
    have live1: "live_at s1 (ar_slot r) = Some a"
      using live(1) live_at_actors [OF remove_routes_actors [OF s1]] by simp
    have "core_from w s (?s2 m)"
      using core.clears [OF a False s1 inv1] core.fields(1) by blast
    then have inv2: "world_inv w (?s2 m)" by (simp add: core_from_def)
    have "live_at (?s2 m) (ar_slot r) = live_at (upd_actor r clear_mailbox s1) (ar_slot r)"
      by (rule live_at_actors) simp
    then have "fenced_slot r (?s2 m)"
      using live1 live(2) by (auto simp: fenced_slot_def live_upd clear_mailbox_def fenced_def)
    moreover have "core_from w (?s2 m) t"
      by (rule postD [OF core.try_finalizes t]) (use inv2 in \<open>simp add: core_from_def\<close>)
    ultimately show ?thesis
      using fenced_slot_steps [OF core_steps_any inv2] by (auto simp: core_from_def)
  qed
qed

lemma core_from_inv: "core_from w s t \<Longrightarrow> world_inv w t"
  by (simp add: core_from_def)

lemma fence_leave_post: "core_from w s0 s \<Longrightarrow> post (\<lambda>y. is_ok (snd y) \<longrightarrow> fenced_slot r (fst y)) (fence_leave w r s)"
  using fence_leave_fences [OF core_from_inv] by (fastforce simp: post_def is_ok_def split: sum.splits)

lemma fence_loop_fences:
  assumes inv: "world_inv w s" and "fence_loop w fuel r s = Some (t, Inr u)"
  shows "fenced_slot r t"
proof -
  obtain n where n: "fuel = Suc n" using assms(2) by (cases fuel) auto
  have "core_from w s s" by (simp add: core_from_def inv)
  then have "post (\<lambda>y. is_ok (snd y) \<longrightarrow> fenced_slot r (fst y)) (fence_loop w fuel r s)"
    unfolding n fence_loop.simps
    by - (rule post_try, simp, rule core.bind_state, rule core.fence_enters, assumption, rule post_Let,
      rule post_case_prod, rule core.bind_state, rule core.fence_scope_each [OF core.fence_loops], assumption,
      rule core.fields(22), assumption, rule core.bind_state, rule core.discards, assumption, rule core.bind_state,
      rule core.settle_ops, assumption, rule post_try, simp, rule core.bind_pair,
      rule core.fence_childs [OF core.fence_loops], assumption+, rule post_pair, rule post_try, simp,
      erule fence_leave_post)
  from postD [OF this assms(2)] show ?thesis by simp
qed

lemma stop_fences:
  assumes inv: "world_inv w s" and "stop w r s = Some (t, Inr p)"
  shows "fenced_slot r t"
proof -
  obtain s1 q where s1: "stop_locked w r s = Some (s1, Inr q)" "t = touch_activity s1"
    using assms(2) by (auto simp: stop_def touch_all_def)
  then obtain u where u: "fence_locked w r s = Some (s1, Inr u)"
    by (auto simp: stop_locked_def bind_eq_Some_conv try_in_Inr)
  have "fenced_slot r s1" using fence_loop_fences [OF inv] u unfolding fence_locked_def by blast
  moreover have "core_from w s s1"
    by (rule post_fstD [OF core.fences u]) (simp add: core_from_def inv)
  then have "core_from w s1 s1" by (simp add: core_from_def)
  then have "core_from w s1 t" unfolding s1(2) by (rule core.touches)
  ultimately show ?thesis
    using fenced_slot_steps [OF core_steps_any] \<open>core_from w s s1\<close> by (auto simp: core_from_def)
qed

text \<open>A chain through a fenced actor reads as stopping.\<close>

lemma chain_live:
  assumes "world_inv w s"
  shows "chain w s x cs \<Longrightarrow> live_at s i = Some x \<Longrightarrow> b \<in> set cs \<Longrightarrow> \<exists>j. live_at s j = Some b"
proof (induction arbitrary: i rule: chain.induct)
  case (chain_up a p pa cs)
  then show ?case using check_ref_iff [OF assms, of p pa] by auto
qed auto

lemma fenced_chain:
  assumes inv: "world_inv w s" and "fenced_slot r s" and d: "check_ref w s d = Inr x"
    and "chain w s x cs" "b \<in> set cs" "a_reference b = r"
  shows "execution_state_locked w s d = Some (Inr Stopping)"
proof -
  have "live_at s (ar_slot d) = Some x" using d check_ref_iff [OF inv] by blast
  then obtain j where j: "live_at s j = Some b" using chain_live [OF inv] assms(4,5) by blast
  then have "ar_slot (a_reference b) = j" using inv unfolding world_inv_def refs_ok_def by blast
  then have "fenced (a_state b)" using assms(2,6) j by (auto simp: fenced_slot_def)
  then have "chain_state (map a_state cs) = Stopping"
    using assms(5) by (force simp: chain_state_def fenced_def)
  then show ?thesis using execution_state_chain [OF inv d assms(4)] by simp
qed

text \<open>C3. A stopped subtree is silent for ever. After \<^verbatim>\<open>stop\<close> has returned for an actor, whatever runs
  later: every live actor whose ownership chain passes through it executes as \<^verbatim>\<open>Stopping\<close>, a claim
  hands it no delivery and changes no actor, and a message sent to it is refused and changes no actor.\<close>

theorem stop_silences_subtree:
  assumes "world_reachable w s" "stop w r s = Some (s1, Inr report)" "(world_op w)\<^sup>*\<^sup>* s1 t"
    and "check_ref w t d = Inr x" "chain w t x cs" "\<exists>b \<in> set cs. a_reference b = r"
  shows "execution_state w d t = Some (Inr Stopping)
    \<and> claim w d t = Some (touch_activity t, Inr None)
    \<and> post (\<lambda>y. \<not> is_ok (snd y) \<and> st_actors (fst y) = st_actors t) (send_with w d p opts t)"
proof -
  have inv: "world_inv w s" by (rule world.reachable_invar [OF assms(1)])
  have inv1: "world_inv w s1"
    by (rule world.step_invar [OF _ inv]) (use assms(2) in \<open>auto simp: world_op_def intro: work_op.intros\<close>)
  have t: "(any_step w)\<^sup>*\<^sup>* s1 t" "world_inv w t" using world_ops_steps [OF assms(3) inv1] by auto
  have "fenced_slot r t" by (rule fenced_slot_steps [OF t(1) inv1 stop_fences [OF inv assms(2)]])
  with assms(4-6) have ex: "execution_state_locked w t d = Some (Inr Stopping)"
    using fenced_chain [OF t(2)] by blast
  have "claim w d t = Some (touch_activity t, Inr None)"
    using assms(4) ex by (simp add: claim_def running_def touch_all_def)
  moreover note send_refused [OF ex, of p opts]
  ultimately show ?thesis using ex by (simp add: execution_state_def)
qed

theorem stop_silences_subtree_witness:
  "\<exists>x. check_ref demo_world demo_stopped demo_ref = Inr x \<and> chain demo_world demo_stopped x [x]
     \<and> execution_state demo_world demo_ref demo_stopped = Some (Inr Stopping)
     \<and> claim demo_world demo_ref demo_stopped = Some (touch_activity demo_stopped, Inr None)"
proof -
  obtain x where x: "check_ref demo_world demo_stopped demo_ref = Inr x" "a_parent x = None" "a_reference x = demo_ref"
    using demo_stopped_ref by blast
  obtain y where y: "stop demo_world demo_ref demo_active = Some (demo_stopped, Inr y)" using demo_stop(1) by blast
  have chain: "chain demo_world demo_stopped x [x]" using x(2) by (rule chain_root)
  have "\<exists>b \<in> set [x]. a_reference b = demo_ref" using x(3) by simp
  from stop_silences_subtree [OF demo_reachable(3) y rtranclp.rtrancl_refl x(1) chain this]
  show ?thesis using x(1) chain by blast
qed

end
