(* ===== verification/World_Leases.thy ===== *)
theory World_Leases
  imports World_Execution
begin

text \<open>
  Claimed deliveries. A \<^verbatim>\<open>DeliveryLease\<close> names its target by slot and clears the in-flight flag of
  whoever occupies that slot when it ends. Here the World runs together with the leases it has handed
  out, and each lease is shown to hold its own actor in the slot until it ends.
\<close>

section \<open>The in-flight actors\<close>

definition flight_ref :: "state \<Rightarrow> nat \<Rightarrow> actor_ref option" where
  "flight_ref s i =
     (case live_at s i of
        None \<Rightarrow> None
      | Some a \<Rightarrow> if a_in_flight a then Some (a_reference a) else None)"

lemma flight_actors: "st_actors s = st_actors t \<Longrightarrow> flight_ref s = flight_ref t"
  by (simp add: flight_ref_def live_at_def fun_eq_iff)

lemma flight_upd:
  assumes "live_at s i = Some a" "a_reference b = a_reference a" "a_in_flight b = a_in_flight a"
  shows "flight_ref (upd_slot i (\<lambda>_. b) s) = flight_ref s"
  using assms by (auto simp: flight_ref_def live_upd fun_eq_iff)

lemma actor_step_flight: "actor_step w a b \<Longrightarrow> a_in_flight b = a_in_flight a"
  by (induction rule: actor_step.induct)
    (auto simp: same_core_def push_delivery_def set_back_port_def stage_publication_def keep_queue_def
      keep_staged_def quiesce_actor_def clear_mailbox_def)

lemma actor_step_reference: "actor_step w a b \<Longrightarrow> a_reference b = a_reference a"
  using actor_step_frame by (simp add: frame_def)

lemma retired_flight: "retired_slots r (live_at s) (live_at t) \<Longrightarrow> flight_ref t = flight_ref s"
proof
  fix i assume *: "retired_slots r (live_at s) (live_at t)"
  show "flight_ref t i = flight_ref s i"
  proof (cases "live_at s i")
    case None
    then show ?thesis using * by (auto simp: retired_slots_def flight_ref_def)
  next
    case (Some c)
    then obtain d where "live_at t i = Some d" "a_reference d = a_reference c" "a_in_flight d = a_in_flight c"
      using * unfolding retired_slots_def by blast
    then show ?thesis using Some by (simp add: flight_ref_def)
  qed
qed

text \<open>A slot that is handed out again has nothing in flight.\<close>

lemma alloc_flight: "alloc_step w s t \<Longrightarrow> world_inv w s \<Longrightarrow> flight_ref t = flight_ref s"
proof (induction rule: alloc_step.induct)
  case (ws_alloc s parent n slot s1 kind)
  let ?r = "ActorRef (in_id w) slot (slot_generation s1 slot)"
  note facts = alloc_facts [OF ws_alloc(5,2,4)]
  note grown = facts(5) [of kind n]
  show ?case
  proof
    fix i
    show "flight_ref (alloc_state w kind parent slot n s1) i = flight_ref s i"
    proof (cases "i = slot")
      case True
      have "\<not> a_in_flight old" if "live_at s slot = Some old" for old
      proof -
        have "a_state old = Stopped" using facts(2) that by (simp add: fresh_slot_for_def)
        moreover have "actor_ok w old" using ws_alloc(5) that unfolding world_inv_def mailboxes_ok_def by blast
        ultimately show ?thesis by (simp add: actor_ok_def)
      qed
      then show ?thesis
        using True grown by (auto simp: flight_ref_def grown_slots_def new_actor_def split: option.splits)
    next
      case False
      then show ?thesis
        using grown by (auto simp: flight_ref_def grown_slots_def split: option.splits)
    qed
  qed
qed

lemma quiet_step_flight: "quiet_step w s t \<Longrightarrow> world_inv w s \<Longrightarrow> flight_ref t = flight_ref s"
proof -
  assume inv: "world_inv w s" and "quiet_step w s t"
  then consider "wstep w s t" | "alloc_step w s t" | "control_step w s t"
    by (auto simp: quiet_step_def work_step_def)
  then show ?thesis
  proof cases
    case 1
    then show ?thesis
      using inv
    proof (induction rule: wstep.induct)
      case (ws_actor s i a b)
      show ?case
        by (rule flight_upd [OF ws_actor(1) actor_step_reference actor_step_flight]) (rule ws_actor(2))+
    next
      case (ws_retire s r a)
      show ?case by (rule retired_flight [OF retire_slots [OF ws_retire(4,1-3)]])
    qed (rule flight_actors, simp add: soft_eq_def)+
  next
    case 2
    then show ?thesis using inv by (rule alloc_flight)
  next
    case 3
    then show ?thesis
      by (induction rule: control_step.induct) (auto intro!: flight_upd simp: holds_fields)
  qed
qed

lemma quiet_from_flight: "quiet_from w s t \<Longrightarrow> world_inv w s \<Longrightarrow> flight_ref t = flight_ref s"
proof -
  assume "quiet_from w s t" and inv: "world_inv w s"
  then have "(quiet_step w)\<^sup>*\<^sup>* s t" by (simp add: quiet_from_def)
  then have "flight_ref t = flight_ref s \<and> world_inv w t"
  proof (induction rule: rtranclp_induct)
    case (step t u)
    have "any_step w t u" using step(2) control_hold by (auto simp: quiet_step_def any_step_def)
    then show ?case using step quiet_step_flight any_step_inv by metis
  qed (simp add: inv)
  then show ?thesis by blast
qed

lemma core_quiet: "core_from w s t \<Longrightarrow> quiet_from w s t"
proof -
  assume "core_from w s t"
  moreover have "(quiet_step w)\<^sup>*\<^sup>* s t" if "(wstep w)\<^sup>*\<^sup>* s t"
    using that by (rule mono_rtranclp [rule_format, rotated]) (simp add: quiet_step_def work_step_def)
  ultimately show ?thesis by (auto simp: core_from_def quiet_from_def)
qed

lemma work_quiet: "work_from w s t \<Longrightarrow> quiet_from w s t"
proof -
  assume "work_from w s t"
  moreover have "(quiet_step w)\<^sup>*\<^sup>* s t" if "(work_step w)\<^sup>*\<^sup>* s t"
    using that by (rule mono_rtranclp [rule_format, rotated]) (simp add: quiet_step_def)
  ultimately show ?thesis by (auto simp: work_from_def quiet_from_def)
qed

section \<open>Claims and their ends\<close>

lemma flight_take:
  assumes "world_inv w s" "check_upd w r (\<lambda>a. a\<lparr>a_in_flight := True\<rparr>) s = Inr t"
  shows "flight_ref t = (flight_ref s)(ar_slot r \<mapsto> r)"
proof -
  obtain a where a: "check_ref w s r = Inr a" and t: "t = upd_actor r (\<lambda>a. a\<lparr>a_in_flight := True\<rparr>) s"
    using assms(2) by (auto simp: check_upd_def bindR_Inr_iff)
  then have "live_at s (ar_slot r) = Some a" "a_reference a = r" using check_ref_iff [OF assms(1)] by auto
  then show ?thesis by (auto simp: t flight_ref_def live_upd fun_eq_iff)
qed

lemma flight_clear: "flight_ref (clear_in_flight r s) = (flight_ref s)(ar_slot r := None)"
  by (auto simp: clear_in_flight_def flight_ref_def live_upd fun_eq_iff split: option.splits)

definition claim_outcome :: "actor_ref \<Rightarrow> state \<Rightarrow> state \<Rightarrow> delivery_lease option result \<Rightarrow> bool" where
  "claim_outcome r s t z \<longleftrightarrow>
     (case z of
        Inr (Some l) \<Rightarrow> dl_target l = r \<and> flight_ref t = (flight_ref s)(ar_slot r \<mapsto> r)
      | _ \<Rightarrow> flight_ref t = flight_ref s)"

lemma claim_loop_outcome:
  assumes inv: "world_inv w s0"
  shows "quiet_from w s0 s \<Longrightarrow> post (\<lambda>y. claim_outcome r s0 (fst y) (snd y)) (claim_loop w r fuel s)"
proof (induction fuel arbitrary: s)
  case 0
  then show ?case by (simp add: post_None)
next
  case (Suc fuel)
  have same: "claim_outcome r s0 u z" if "quiet_from w s0 u" "\<not> (\<exists>l. z = Inr (Some l))" for u z
    using that quiet_from_flight [OF that(1) inv]
    by (auto simp: claim_outcome_def split: sum.splits option.splits)
  have taken: "claim_outcome r s0 ((upd_metrics f s6)\<lparr>st_external := e\<rparr>)
      (Inr (Some \<lparr>dl_target = r, dl_operation = oid, dl_delivery = d\<rparr>))"
    if s5: "quiet_from w s0 s4" "check_upd w r (\<lambda>a. a\<lparr>a_in_flight := True\<rparr>) s4 = Inr s5"
      and s6: "refresh_python_ready_locked w r s5 = Some s6" for f s6 e oid d s4 s5
  proof -
    have "flight_ref ((upd_metrics f s6)\<lparr>st_external := e\<rparr>) = flight_ref s5"
      using refresh_actors [OF s6] by (intro flight_actors) simp
    moreover have "world_inv w s4" using s5(1) by (simp add: quiet_from_def)
    ultimately show ?thesis
      using flight_take [OF _ s5(2)] quiet_from_flight [OF s5(1) inv] by (simp add: claim_outcome_def)
  qed
  show ?case
    unfolding claim_loop.simps using Suc.prems
    by - ((rule post_try post_case_list)
      | (rule post_Some, unfold fst_conv snd_conv, rule same, assumption, simp)
      | (unfold fst_conv snd_conv, rule same, assumption, simp)
      | (rule quiet.bind_state, rule quiet.pops, assumption+)
      | (rule quiet.bind_state, rule quiet.refreshes, assumption)
      | (rule quiet.bind_state, rule quiet.marks, assumption)
      | (rule quiet.bind_pair, rule quiet.screens, assumption) | rule post_pair post_if Suc.IH post_Let
      | (rule post_bind) | (rule post_Some, unfold fst_conv snd_conv, rule taken) | assumption)+
qed

lemma claim_outcomes:
  assumes inv: "world_inv w s" and claim: "claim w r s = Some (t, z)"
  shows "claim_outcome r s t z" "z = Inr (Some l) \<Longrightarrow> flight_ref s (ar_slot r) = None"
proof -
  define Q where "Q y \<longleftrightarrow> claim_outcome r s (fst y) (snd y)
      \<and> (\<forall>l. snd y = Inr (Some l) \<longrightarrow> flight_ref s (ar_slot r) = None)" for y
  have fail: "Q (s, z)" if "\<not> (\<exists>l. z = Inr (Some l))" for z
    using that by (auto simp: Q_def claim_outcome_def split: sum.splits option.splits)
  have loop: "post Q (claim_loop w r fuel s)" if "check_ref w s r = Inr a" "\<not> a_in_flight a" for a fuel
  proof (rule post_mono [OF claim_loop_outcome [OF inv]])
    show "quiet_from w s s" by (simp add: quiet_from_def inv)
    have "flight_ref s (ar_slot r) = None" using that check_ref_live [OF that(1)] by (simp add: flight_ref_def)
    then show "Q y" if "claim_outcome r s (fst y) (snd y)" for y using that by (simp add: Q_def)
  qed
  have "post Q (try_in s (check_ref w s r) (\<lambda>a. do {
          x \<leftarrow> execution_state_locked w s r;
          try_in s x (\<lambda>execution.
            if \<not> running execution \<or> a_in_flight a \<or> a_control_in_flight a then Some (s, Inr None)
            else claim_loop w r (Suc (length (a_queue a))) s)
        }))"
    by (intro post_try post_bind post_if post_Some fail loop) auto
  moreover obtain s1 where "t = touch_activity s1" "try_in s (check_ref w s r) (\<lambda>a. do {
          x \<leftarrow> execution_state_locked w s r;
          try_in s x (\<lambda>execution.
            if \<not> running execution \<or> a_in_flight a \<or> a_control_in_flight a then Some (s, Inr None)
            else claim_loop w r (Suc (length (a_queue a))) s)
        }) = Some (s1, z)"
    using claim by (auto simp: claim_def touch_all_def)
  ultimately have "Q (s1, z)" "flight_ref t = flight_ref s1"
    by (auto simp: touch_fields intro: postD flight_actors)
  then show "claim_outcome r s t z" "z = Inr (Some l) \<Longrightarrow> flight_ref s (ar_slot r) = None"
    by (auto simp: Q_def claim_outcome_def split: sum.splits option.splits)
qed

text \<open>Ending a lease clears the flag at its slot and is otherwise quiet.\<close>

lemma lease_end_flight:
  assumes inv: "world_inv w s"
  shows "lease_finish w l success s = Some t \<Longrightarrow> flight_ref t = (flight_ref s)(ar_slot (dl_target l) := None)"
    "lease_drop w l s = Some t \<Longrightarrow> flight_ref t = (flight_ref s)(ar_slot (dl_target l) := None)"
proof -
  let ?s1 = "clear_in_flight (dl_target l) (drop_handle (d_payload (dl_delivery l)) s)"
  have "any_from w s (drop_handle (d_payload (dl_delivery l)) s)"
    by (rule any.reads(5)) (rule any_from_refl [OF inv])
  then have "any_from w s ?s1" by (rule any.flight_given)
  then have inv1: "world_inv w ?s1" by (simp add: any_from_def)
  then have q: "quiet_from w ?s1 ?s1" by (simp add: quiet_from_def)
  have drop: "flight_ref (drop_handle st s) = flight_ref s" for st by (rule flight_actors) (simp add: drop_handle_def)
  have "post (quiet_from w ?s1) (lease_finish w l success s)"
    unfolding lease_finish_def using q
    by - (assumption | rule post_intros step_intros)+
  then show "lease_finish w l success s = Some t \<Longrightarrow> flight_ref t = (flight_ref s)(ar_slot (dl_target l) := None)"
    using quiet_from_flight [OF _ inv1] by (auto simp: post_def flight_clear drop)
  have "post (quiet_from w ?s1) (lease_drop w l s)"
    unfolding lease_drop_def using q
    by - (assumption | rule post_intros step_intros)+
  then show "lease_drop w l s = Some t \<Longrightarrow> flight_ref t = (flight_ref s)(ar_slot (dl_target l) := None)"
    using quiet_from_flight [OF _ inv1] by (auto simp: post_def flight_clear drop)
qed

section \<open>A World with its leases\<close>

text \<open>\<open>control_op\<close>: the claims of control slots and tasks and their ends.\<close>

inductive control_op :: "inner \<Rightarrow> state \<Rightarrow> state \<Rightarrow> bool" for w where
  co_track: "track_task w r s = Some (t, x2) \<Longrightarrow> control_op w s t"
| co_task_drop: "task_drop w r s = Some t \<Longrightarrow> control_op w s t"
| co_claim_failure: "claim_failure w r s = Some (t, x3) \<Longrightarrow> control_op w s t"
| co_failure_finish: "failure_lease_finish w flease act s = Some (t, x4) \<Longrightarrow> control_op w s t"
| co_failure_drop: "failure_lease_drop w flease s = Some t \<Longrightarrow> control_op w s t"
| co_callback: "claim_native_callback w r startup s = Some (t, x5) \<Longrightarrow> control_op w s t"
| co_drain_callback: "claim_native_drain_callback w r s = Some (t, x6) \<Longrightarrow> control_op w s t"
| co_callback_drop: "native_callback_drop w r s = Some t \<Longrightarrow> control_op w s t"

text \<open>The World and the leases callers hold: a claim adds one, and only a held lease can end.\<close>

inductive lease_step :: "inner \<Rightarrow> state \<times> delivery_lease list \<Rightarrow> state \<times> delivery_lease list \<Rightarrow> bool" for w where
  ls_work: "work_op w s t \<Longrightarrow> lease_step w (s, ls) (t, ls)"
| ls_control: "control_op w s t \<Longrightarrow> lease_step w (s, ls) (t, ls)"
| ls_claim: "claim w r s = Some (t, Inr (Some l)) \<Longrightarrow> lease_step w (s, ls) (t, l # ls)"
| ls_idle: "claim w r s = Some (t, z) \<Longrightarrow> \<not> (\<exists>l. z = Inr (Some l)) \<Longrightarrow> lease_step w (s, ls) (t, ls)"
| ls_finish: "l \<in> set ls \<Longrightarrow> lease_finish w l success s = Some t \<Longrightarrow> lease_step w (s, ls) (t, remove1 l ls)"
| ls_drop: "l \<in> set ls \<Longrightarrow> lease_drop w l s = Some t \<Longrightarrow> lease_step w (s, ls) (t, remove1 l ls)"

definition lease_initial :: "inner \<Rightarrow> state \<times> delivery_lease list \<Rightarrow> bool" where
  "lease_initial w c \<longleftrightarrow> world_initial w (fst c) \<and> snd c = []"

abbreviation lease_slot :: "delivery_lease \<Rightarrow> nat" where
  "lease_slot l \<equiv> ar_slot (dl_target l)"

text \<open>The in-flight actors are the targets of the leases, one lease each.\<close>

definition lease_inv :: "inner \<Rightarrow> state \<times> delivery_lease list \<Rightarrow> bool" where
  "lease_inv w c \<longleftrightarrow> world_inv w (fst c) \<and> distinct (map lease_slot (snd c))
     \<and> flight_ref (fst c) = map_of (map (\<lambda>l. (lease_slot l, dl_target l)) (snd c))"

lemma quiet_from_refl: "world_inv w s \<Longrightarrow> quiet_from w s s"
  by (simp add: quiet_from_def)

lemma control_op_quiet: "control_op w s t \<Longrightarrow> world_inv w s \<Longrightarrow> quiet_from w s t"
  by (induction rule: control_op.induct)
    ((erule post_fstD [rotated], rule quiet.tracks quiet.claims_failure quiet.failure_finishes
        quiet.callback_claims, erule quiet_from_refl)
      | (erule postD [rotated], rule quiet.task_drops quiet.failure_drops quiet.callback_drops,
        erule quiet_from_refl))+

lemma map_of_remove_lease:
  assumes "distinct (map lease_slot ls)" "l \<in> set ls"
  shows "map_of (map (\<lambda>l. (lease_slot l, dl_target l)) (remove1 l ls)) =
    (map_of (map (\<lambda>l. (lease_slot l, dl_target l)) ls))(lease_slot l := None)"
  using assms
proof (induction ls)
  case (Cons x ls)
  show ?case
  proof (cases "x = l")
    case True
    then have "map_of (map (\<lambda>l. (lease_slot l, dl_target l)) ls) (lease_slot l) = None"
      using Cons.prems by (auto simp: map_of_eq_None_iff)
    then show ?thesis using True by (auto simp: fun_eq_iff)
  next
    case False
    then have "lease_slot x \<noteq> lease_slot l" using Cons.prems by auto
    then show ?thesis using Cons False by (auto simp: fun_eq_iff)
  qed
qed simp

lemma lease_end_inv:
  assumes "lease_inv w (s, ls)" "l \<in> set ls" "world_inv w t"
    and "flight_ref t = (flight_ref s)(lease_slot l := None)"
  shows "lease_inv w (t, remove1 l ls)"
proof -
  have "distinct (map lease_slot (remove1 l ls))"
    using assms(1) by (auto simp: lease_inv_def distinct_map inj_on_def dest: notin_set_remove1)
  then show ?thesis using assms map_of_remove_lease [of ls l] by (simp add: lease_inv_def)
qed

lemma lease_step_inv: "lease_step w c d \<Longrightarrow> lease_inv w c \<Longrightarrow> lease_inv w d"
proof (induction rule: lease_step.induct)
  case (ls_work s t ls)
  then have "quiet_from w s t" using work_quiet work_op_from by (auto simp: lease_inv_def)
  then show ?case using ls_work quiet_from_flight by (auto simp: lease_inv_def quiet_from_def)
next
  case (ls_control s t ls)
  then have "quiet_from w s t" using control_op_quiet by (auto simp: lease_inv_def)
  then show ?case using ls_control quiet_from_flight by (auto simp: lease_inv_def quiet_from_def)
next
  case (ls_claim r s t l ls)
  then have inv: "world_inv w s" by (simp add: lease_inv_def)
  have "any_from w s t" using claim_op_from [OF ck_claim [OF ls_claim(1)] inv] .
  moreover have "dl_target l = r" "flight_ref t = (flight_ref s)(ar_slot r \<mapsto> r)" "flight_ref s (ar_slot r) = None"
    using claim_outcomes [OF inv ls_claim(1)] by (auto simp: claim_outcome_def)
  ultimately show ?case
    using ls_claim(2) by (auto simp: lease_inv_def any_from_def map_of_eq_None_iff image_image)
next
  case (ls_idle r s t z ls)
  then have inv: "world_inv w s" by (simp add: lease_inv_def)
  have "any_from w s t" using claim_op_from [OF ck_claim [OF ls_idle(1)] inv] .
  moreover have "flight_ref t = flight_ref s"
    using claim_outcomes(1) [OF inv ls_idle(1)] ls_idle(2)
    by (auto simp: claim_outcome_def split: sum.splits option.splits)
  ultimately show ?case using ls_idle(3) by (auto simp: lease_inv_def any_from_def)
next
  case (ls_finish l ls success s t)
  then have inv: "world_inv w s" by (simp add: lease_inv_def)
  have "any_from w s t" using claim_op_from [OF ck_finish [OF ls_finish(2)] inv] .
  then show ?case
    using lease_end_inv [OF ls_finish(3,1)] lease_end_flight(1) [OF inv ls_finish(2)] by (simp add: any_from_def)
next
  case (ls_drop l ls s t)
  then have inv: "world_inv w s" by (simp add: lease_inv_def)
  have "any_from w s t" using claim_op_from [OF ck_drop [OF ls_drop(2)] inv] .
  then show ?case
    using lease_end_inv [OF ls_drop(3,1)] lease_end_flight(2) [OF inv ls_drop(2)] by (simp add: any_from_def)
qed

lemma lease_initial_inv: "lease_initial w c \<Longrightarrow> lease_inv w c"
proof -
  assume c: "lease_initial w c"
  then have inv: "world_inv w (fst c)" by (simp add: lease_initial_def world_initial_inv)
  have "st_actors (fst c) = []"
    using c world_initial_fields(2) by (auto simp: lease_initial_def)
  then show ?thesis using inv c by (auto simp: lease_inv_def lease_initial_def flight_ref_def live_at_def vec_get_def fun_eq_iff)
qed

interpretation leases: invariant_system "lease_initial w" "lease_step w" "lease_inv w" for w
  by unfold_locales (auto intro: lease_initial_inv lease_step_inv)

lemma length_filter_one:
  "distinct (map f xs) \<Longrightarrow> y \<in> set (map f xs) \<Longrightarrow> length (filter (\<lambda>x. f x = y) xs) = 1"
  by (induction xs) (auto simp: filter_empty_conv, metis imageI)

text \<open>C4. A lease keeps its actor. Run the World with the leases it hands out, in any order and with any
  interleaving of other methods. While a lease is held, its handle resolves, to the actor the delivery
  was claimed for, which is marked in flight and has not stopped; so the end of the lease, which checks
  no generation, clears the flag of that actor and of no later occupant of the slot. Conversely, every
  actor in flight has exactly one lease.\<close>

theorem lease_keeps_its_actor:
  assumes "reachable (lease_initial w) (lease_step w) (s, ls)"
  shows "(\<forall>l \<in> set ls. \<exists>a. check_ref w s (dl_target l) = Inr a \<and> a_reference a = dl_target l
      \<and> a_in_flight a \<and> a_state a \<noteq> Stopped)
    \<and> (\<forall>i a. live_at s i = Some a \<longrightarrow>
        length (filter (\<lambda>l. dl_target l = a_reference a) ls) = (if a_in_flight a then 1 else 0))"
proof -
  have inv: "lease_inv w (s, ls)" by (rule leases.reachable_invar [OF assms])
  then have w: "world_inv w s" and d: "distinct (map lease_slot ls)"
    and fl: "flight_ref s = map_of (map (\<lambda>l. (lease_slot l, dl_target l)) ls)"
    by (auto simp: lease_inv_def)
  have held: "flight_ref s (lease_slot l) = Some (dl_target l)" if "l \<in> set ls" for l
    unfolding fl by (rule map_of_is_SomeI) (use d that in \<open>auto simp: comp_def\<close>)
  have leased: "\<exists>l \<in> set ls. dl_target l = r" if "flight_ref s i = Some r" for i r
    using map_of_SomeD [OF that [unfolded fl]] by auto
  have "\<exists>a. check_ref w s (dl_target l) = Inr a \<and> a_reference a = dl_target l \<and> a_in_flight a
      \<and> a_state a \<noteq> Stopped" if l: "l \<in> set ls" for l
  proof -
    obtain a where a: "live_at s (lease_slot l) = Some a" "a_in_flight a" "a_reference a = dl_target l"
      using held [OF l] by (auto simp: flight_ref_def split: option.splits if_splits)
    have "actor_ok w a" using w a(1) unfolding world_inv_def mailboxes_ok_def by blast
    then have "a_state a \<noteq> Stopped" using a(2) by (auto simp: actor_ok_def)
    then show ?thesis using a check_ref_iff [OF w] by blast
  qed
  moreover have "length (filter (\<lambda>l. dl_target l = a_reference a) ls) = (if a_in_flight a then 1 else 0)"
    if a: "live_at s i = Some a" for i a
  proof -
    have slot: "ar_slot (a_reference a) = i" using w a unfolding world_inv_def refs_ok_def by blast
    have dis: "distinct (map dl_target ls)" using d by (auto simp: distinct_map inj_on_def)
    show ?thesis
    proof (cases "a_in_flight a")
      case True
      then obtain l where "l \<in> set ls" "dl_target l = a_reference a"
        using leased [of i] a by (auto simp: flight_ref_def)
      then have "a_reference a \<in> set (map dl_target ls)" by (metis image_eqI image_set)
      then show ?thesis using True length_filter_one [OF dis] by simp
    next
      case False
      have "dl_target l \<noteq> a_reference a" if "l \<in> set ls" for l
        using held [OF that] False a slot by (auto simp: flight_ref_def)
      then show ?thesis using False by (simp add: filter_empty_conv)
    qed
  qed
  ultimately show ?thesis by blast
qed

theorem lease_keeps_its_actor_witness:
  "\<exists>l a. reachable (lease_initial demo_world) (lease_step demo_world) (demo_claimed, [l])
     \<and> check_ref demo_world demo_claimed (dl_target l) = Inr a \<and> a_in_flight a \<and> a_state a \<noteq> Stopped"
proof -
  obtain l where l: "claim demo_world demo_ref demo_queued = Some (demo_claimed, Inr (Some l))"
    using demo_claim(1) by blast
  let ?R = "\<lambda>c. reachable (lease_initial demo_world) (lease_step demo_world) c"
  have "lease_initial demo_world (demo_new, [])"
    unfolding lease_initial_def world_initial_def fst_conv snd_conv using demo_initial by blast
  then have "?R (demo_new, [])" by (rule reachable_init)
  then have "?R (demo_started, [])"
    by (rule reachable_step) (rule ls_work [OF wk_allocate [OF demo_allocate]])
  then have "?R (demo_active, [])"
    by (rule reachable_step) (rule ls_work [OF wk_activate [OF demo_activate]])
  then have "?R (demo_queued, [])"
    by (rule reachable_step) (rule ls_work [OF wk_send [OF demo_send(1)]])
  then have r: "?R (demo_claimed, [l])"
    by (rule reachable_step) (rule ls_claim [OF l])
  from lease_keeps_its_actor [OF r] show ?thesis using r by auto
qed

end
