(* ===== verification/World_Outcomes.thy ===== *)
theory World_Outcomes
  imports World_Execution
begin

text \<open>
  Operations seen through the World: every method moves the operation table along the steps of the
  table, so what is proved of the table holds of requests, completions, cancellations, deadlines, stops
  and retirements together.
\<close>

lemma any_step_operations: "any_step w s t \<Longrightarrow> op_step\<^sup>*\<^sup>* (st_operations s) (st_operations t)"
proof -
  assume "any_step w s t"
  then consider "wstep w s t" | "alloc_step w s t" | "hold_step w s t"
    by (auto simp: any_step_def work_step_def)
  then show ?thesis
  proof cases
    case 1
    then show ?thesis
    proof (induction rule: wstep.induct)
      case (ws_retire s r a)
      show ?case unfolding retire_fields by (rule r_into_rtranclp) (rule step_retire_owner)
    qed (auto simp: soft_eq_def)
  next
    case 2
    then show ?thesis by (induction rule: alloc_step.induct) (simp add: alloc_fields pop_slot_fields(3))
  next
    case 3
    then show ?thesis by (induction rule: hold_step.induct) simp_all
  qed
qed

lemma any_steps_operations: "(any_step w)\<^sup>*\<^sup>* s t \<Longrightarrow> op_step\<^sup>*\<^sup>* (st_operations s) (st_operations t)"
  by (induction rule: rtranclp_induct) (auto intro: rtranclp_trans any_step_operations)

section \<open>Settled operations\<close>

lemma settled_status:
  "op_settled oid out t \<Longrightarrow> op_status t oid = Inr (OpTerminal out) \<or> op_status t oid = Inl StaleReference"
  by (auto simp: op_settled_def op_dead_stale)

lemma settled_complete: "op_settled oid out t \<Longrightarrow> snd (op_complete oid outcome t) \<noteq> Inr True"
  by (cases rule: op_complete_cases [of oid outcome t]) (auto simp: op_settled_def op_dead_def op_status_iff)

lemma settled_take:
  assumes "op_settled oid out t" "op_take oid t = (t', Inr (Some out'))" "optable_base t"
  shows "out' = out"
proof (rule op_take_cases [OF assms(3), of oid])
  fix i c out2
  assume taken: "op_take oid t = (retire_generation i c, Inr (Some out2))" "oid = op_id_at t i"
    "i < length (ot_slots t)" "ot_slots t ! i = Some (OpTerminal out2)"
  then have "out' = out2" using assms(2) by simp
  moreover have "op_status t oid = Inr (OpTerminal out2)" using taken by (simp add: op_status_iff)
  ultimately show ?thesis using assms(1) settled_status by fastforce
qed (use assms(2) in auto)

lemma expire_and_count_operations:
  assumes "expire_and_count w r oid now s = Some s'" "world_inv w s"
  shows "op_step\<^sup>*\<^sup>* (st_operations s) (st_operations s')"
proof -
  have "any_from w s s'"
    using any.expire_counts [OF any_from_refl [OF assms(2)]] assms(1) by (auto simp: post_def)
  then show ?thesis by (auto simp: any_from_def intro: any_steps_operations)
qed

lemma settled_complete_locked:
  "op_settled oid out (st_operations s) \<Longrightarrow> post (\<lambda>y. snd y \<noteq> Inr True) (complete_operation_locked w oid outcome s)"
  using settled_complete [of oid out "st_operations s" outcome]
  by (auto simp: complete_operation_locked_def post_def Let_def try_in_def split: sum.splits prod.splits if_splits)

lemma settled_cancel:
  "op_settled oid out (st_operations s) \<Longrightarrow> post (\<lambda>y. snd y \<noteq> Inr True) (cancel_operation w oid s)"
  using settled_complete_locked [of oid out s w Cancelled]
  by (auto simp: cancel_operation_def post_def try_in_def touch_all_def split: sum.splits prod.splits
      bind_splits)

lemma settled_take_operation:
  assumes "op_settled oid out (st_operations s)" "optable_base (st_operations s)"
  shows "post (\<lambda>y. \<forall>o'. snd y = Inr (Some o') \<longrightarrow> o' = out) (take_operation w oid s)"
  using settled_take [OF assms(1) _ assms(2)]
  by (auto simp: take_operation_def post_def Let_def try_in_def touch_all_def split: sum.splits prod.splits
      option.splits)

lemma settled_complete_with:
  assumes "op_settled oid out (st_operations s)" "world_inv w s"
  shows "post (\<lambda>y. snd y \<noteq> Inr True) (complete_operation_with w oid target p options s)"
proof -
  obtain s0 now where now: "read_now w s = (s0, now)" by fastforce
  then have same: "st_operations s0 = st_operations s" and inv: "world_inv w s0"
    using any.reads(1) [OF any_from_refl [OF assms(2)]] by (auto simp: read_now_def any_from_def)
  have "op_status (st_operations s1) oid = Inr (OpTerminal out) \<or> op_status (st_operations s1) oid = Inl StaleReference"
    if e: "expire_and_count w (Some target) oid now s0 = Some s1" for s1
    using op_steps_settled [OF expire_and_count_operations [OF e inv]] assms settled_status
    by (simp add: same world_inv_def)
  then show ?thesis
    by (auto simp: complete_operation_with_def post_def now touch_all_def split: bind_splits)
qed

section \<open>A request\<close>

text \<open>The demo World again: its actor requests something of itself and cancels it.\<close>

abbreviation demo_operation :: operation_id where
  "demo_operation \<equiv> OperationId 1 0 1"

definition demo_requested :: state where
  "demo_requested =
     fst (the (request_with_port demo_world demo_ref demo_ref (Pulse 7) 5 default_options None demo_active))"

definition demo_cancelled :: state where
  "demo_cancelled = fst (the (cancel_operation demo_world demo_operation demo_requested))"

lemmas demo_request_eval = demo_send_eval request_with_port_def request_locked_def request_options_def
  op_reserve_def bind_request_def op_pop_slot_def index_pending_def op_id_at_def cnt_inc_def idx_insert_def
  address_back_def op_set_context_def op_locate_def bindR_def di_new_def adl_new_def adl_add_def cnt_get_def
  idx_get_def demo_requested_def

lemma demo_request:
  "request_with_port demo_world demo_ref demo_ref (Pulse 7) 5 default_options None demo_active
     = Some (demo_requested, Inr demo_operation)"
  by (simp add: demo_request_eval)

lemmas demo_cancel_eval = demo_request_eval demo_cancelled_def cancel_operation_def complete_operation_locked_def
  op_participants_def op_complete_def remove_index_def remove_target_index_def remove_pending_owner_def idx_remove_def
  cnt_dec_def mark_operation_activity_locked_def op_status_def

lemma demo_cancel:
  "cancel_operation demo_world demo_operation demo_requested = Some (demo_cancelled, Inr True)"
  "op_status (st_operations demo_cancelled) demo_operation = Inr (OpTerminal Cancelled)"
  by (simp_all add: demo_cancel_eval)

lemma demo_take: "\<exists>t' o'. take_operation demo_world demo_operation demo_cancelled = Some (t', Inr (Some o'))"
  by (simp add: demo_cancel_eval take_operation_def op_take_def)

lemma demo_cancelled_reachable:
  "world_reachable demo_world demo_cancelled" "(world_op demo_world)\<^sup>*\<^sup>* demo_cancelled demo_cancelled"
proof -
  have "world_op demo_world demo_active demo_requested" "world_op demo_world demo_requested demo_cancelled"
    using demo_request demo_cancel(1) by (auto simp: world_op_def intro: work_op.intros)
  then show "world_reachable demo_world demo_cancelled"
    using demo_reachable(3) by (blast intro: reachable_step)
qed simp

section \<open>Outcomes\<close>

text \<open>C2. Exactly one terminal outcome, through every path of the World. Once an operation has reached a
  terminal outcome, then whatever the World does next -- late replies, cancellation, deadlines, stop and
  retirement of either end, reuse of the slot -- its status is that outcome until it is taken or its owner
  retires and stale from then on; no later completion or cancellation wins, and \<^verbatim>\<open>take_operation\<close> can
  return that outcome only.\<close>

theorem world_outcome_final:
  assumes "world_reachable w s" "op_status (st_operations s) oid = Inr (OpTerminal out)" "(world_op w)\<^sup>*\<^sup>* s t"
  shows "(op_status (st_operations t) oid = Inr (OpTerminal out) \<or> op_status (st_operations t) oid = Inl StaleReference)
     \<and> (\<forall>t' r. complete_operation_with w oid target p options t = Some (t', r) \<longrightarrow> r \<noteq> Inr True)
     \<and> (\<forall>t' r. cancel_operation w oid t = Some (t', r) \<longrightarrow> r \<noteq> Inr True)
     \<and> (\<forall>t' o'. take_operation w oid t = Some (t', Inr (Some o')) \<longrightarrow> o' = out)"
proof -
  have inv: "world_inv w s" by (rule world.reachable_invar [OF assms(1)])
  have steps: "(any_step w)\<^sup>*\<^sup>* s t" "world_inv w t" using world_ops_steps [OF assms(3) inv] by auto
  have "op_settled oid out (st_operations s)" using assms(2) by (simp add: op_settled_def)
  moreover have "optable_inv (st_operations s)" using inv by (simp add: world_inv_def)
  ultimately have "op_settled oid out (st_operations t)"
    using op_steps_settled [OF any_steps_operations [OF steps(1)]] by blast
  moreover have "optable_base (st_operations t)" using steps(2) by (simp add: world_inv_def optable_inv_def)
  ultimately show ?thesis
    using settled_status settled_complete_with [OF _ steps(2)] settled_cancel settled_take_operation
    by (fastforce simp: post_def)
qed

theorem world_outcome_final_witness:
  "\<exists>t'. take_operation demo_world demo_operation demo_cancelled = Some (t', Inr (Some Cancelled))"
proof -
  obtain t' o' where "take_operation demo_world demo_operation demo_cancelled = Some (t', Inr (Some o'))"
    using demo_take by blast
  moreover from this have "o' = Cancelled"
    using world_outcome_final [OF demo_cancelled_reachable(1) demo_cancel(2) demo_cancelled_reachable(2)] by blast
  ultimately show ?thesis by blast
qed

end
