(* ===== verification/Schema_Types.thy ===== *)
theory Schema_Types
  imports Schema_Correct
begin

text \<open>
  Schemas as types. \<open>has_type\<close> is the typing of values that a schema of
  \<^verbatim>\<open>crates/runtime-core/src/schema.rs\<close> declares: ranges, byte limits, enum indexes, sequence lengths and the
  fields of records in order. The encoder and the decoder both enforce it.
\<close>

section \<open>Typing\<close>

fun has_type :: "field_type \<Rightarrow> val \<Rightarrow> bool"
  and record_type :: "schema \<Rightarrow> val \<Rightarrow> bool"
  and fields_type :: "field list \<Rightarrow> val list \<Rightarrow> bool"
  and field_has :: "field \<Rightarrow> val \<Rightarrow> bool" where
  "has_type (TInt mn mx) v = (case v of VInt x \<Rightarrow> mn \<le> x \<and> x \<le> mx | _ \<Rightarrow> False)"
| "has_type (TUInt umn umx) v = (case v of VUInt x \<Rightarrow> umn \<le> x \<and> x \<le> umx | _ \<Rightarrow> False)"
| "has_type (TFloat allow_non_finite) v =
     (case v of VFloat x \<Rightarrow> allow_non_finite \<or> f64_is_finite x | _ \<Rightarrow> False)"
| "has_type TBool v = (case v of VBool _ \<Rightarrow> True | _ \<Rightarrow> False)"
| "has_type (TString max_bytes) v = (case v of VString x \<Rightarrow> length x \<le> max_bytes | _ \<Rightarrow> False)"
| "has_type (TBytes max_bytes) v = (case v of VBytes x \<Rightarrow> length x \<le> max_bytes | _ \<Rightarrow> False)"
| "has_type (TEnum name variants) v = (case v of VEnum n \<Rightarrow> n < length variants | _ \<Rightarrow> False)"
| "has_type (TOptional x) v =
     (case v of VOptional None \<Rightarrow> True | VOptional (Some y) \<Rightarrow> has_type x y | _ \<Rightarrow> False)"
| "has_type (TSequence item max_len) v =
     (case v of VSequence xs \<Rightarrow> length xs \<le> max_len \<and> list_all (has_type item) xs | _ \<Rightarrow> False)"
| "has_type (TRecord s) v = record_type s v"
| "record_type (Schema name version flds) v = (case v of VRecord vs \<Rightarrow> fields_type flds vs | _ \<Rightarrow> False)"
| "fields_type [] [] = True"
| "fields_type (f # fs) (x # xs) = (field_has f x \<and> fields_type fs xs)"
| "fields_type _ _ = False"
| "field_has (Field fname fty) x = has_type fty x"

lemma typed_many:
  assumes "wr_many item i xs w = Inr w'" "\<And>x w w'. x \<in> set xs \<Longrightarrow> item x w = Inr w' \<Longrightarrow> P x"
  shows "list_all P xs"
  using assms by (induction xs arbitrary: i w) (auto simp: bindR_Inr_iff)

lemma written_typed:
  "wr_val t v d w = Inr w' \<Longrightarrow> has_type t v"
  "wr_record s v d w = Inr w' \<Longrightarrow> record_type s v"
  "length vs = length fs \<Longrightarrow> wr_fields fs vs d w = Inr w' \<Longrightarrow> fields_type fs vs"
  "wr_field f v d w = Inr w' \<Longrightarrow> field_has f v"
proof (induction t v d w and s v d w and fs vs d w and f v d w arbitrary: w' and w' and w' and w'
    rule: wr_val_wr_record_wr_fields_wr_field.induct)
  case (9 x v d w)
  then obtain w1 y where y: "wr_node d w = Inr w1" "v = VOptional y"
    by (cases v) (auto simp: bindR_Inr_iff)
  show ?case
  proof (cases y)
    case None
    then show ?thesis using y by simp
  next
    case (Some z)
    with 9(2) y obtain w2 where "wr_val x z (d + 1) w2 = Inr w'" by (auto simp: bindR_Inr_iff)
    with 9(1) [OF y(2) Some] show ?thesis using y Some by simp
  qed
next
  case (10 item max_len v d w)
  then obtain w1 xs w2 where n: "wr_node d w = Inr w1" "wr_add (le_bytes 4 (length xs)) w1 = Inr w2"
    and x: "v = VSequence xs" "length xs \<le> max_len" "length xs \<le> 4096 - w_nodes w1"
      "wr_many (\<lambda>y w. wr_val item y (d + 1) w) 0 xs w2 = Inr w'"
    by (cases v) (auto simp: bindR_Inr_iff split: if_splits)
  have "list_all (has_type item) xs"
    by (rule typed_many [OF x(4)]) (use 10(1) [OF x(1,2), of w1] x(3) in auto)
  with x show ?case by simp
next
  case (11 name version flds v d w)
  then obtain w1 vals where x: "v = VRecord vals" "length vals = length flds" "wr_fields flds vals d w1 = Inr w'"
    by (cases v) (auto simp: bindR_Inr_iff split: if_splits)
  with 11(1) [OF x(1)] show ?case by simp
qed (auto simp: bindR_Inr_iff split: val.splits if_splits)

lemma encode_typed: "schema_encode s v mx = Inr bs \<Longrightarrow> record_type s v"
  by (auto simp: schema_encode_def bindR_Inr_iff split: if_splits intro: written_typed(2))

lemma decode_typed: "schema_decode s bs = Inr v \<Longrightarrow> record_type s v"
  using decode_encodes [OF _ decode_length order_refl] encode_typed by blast

section \<open>Properties\<close>

text \<open>C24. Schemas are sound types. Only values of the schema's type are ever encoded, and whatever bytes
  decode, the decoder yields a value of that type whose strings are valid UTF-8 and whose numbers fit their
  width: a handler that receives a decoded record needs no check of its own.\<close>

theorem schema_type_sound:
  "(\<forall>v mx bs. schema_encode s v mx = Inr bs \<longrightarrow> record_type s v)
   \<and> (\<forall>bs v. schema_decode s bs = Inr v \<longrightarrow> record_type s v \<and> value_ok v)"
  using encode_typed decode_typed decode_encodes [OF _ decode_length order_refl] by blast

theorem schema_type_sound_witness: "record_type demo_schema demo_value \<and> value_ok demo_value"
  using schema_type_sound [of demo_schema] demo_decoded by blast

end
