(* ===== verification/Framing.thy ===== *)
theory Framing
  imports Buffers Schema_Correct
begin

text \<open>
  Framed byte streams, \<^verbatim>\<open>crates/runtime-native/src/io/framing.rs\<close>: a frame is a big-endian \<^verbatim>\<open>u32\<close> length
  and that many bytes, read into a buffer whose capacity is charged to a budget before it is filled.

  The asynchronous reader and writer and the allocator are arguments: \<open>rd r n\<close> is one \<^verbatim>\<open>read\<close> into a
  buffer of \<open>n\<close> bytes, \<open>wa w bs\<close> one \<^verbatim>\<open>write_all\<close>, \<open>alloc n\<close> the capacity that \<^verbatim>\<open>try_reserve_exact(n)\<close>
  yields, if any. What is documented of them is named below as \<open>reads_stream\<close>, \<open>writes_stream\<close> and
  \<open>allocates\<close>. The compare-exchange loops are those of \<open>Buffers\<close>; here each is read without interference.
\<close>

section \<open>Budgets and permits\<close>

type_synonym error_kind = nat

datatype frame_error =
    FrameIo error_kind
  | FrameTooLarge
  | FrameBudgetExceeded
  | FrameAllocationFailed
  | FrameInvalidConfig
  | FrameTruncated

text \<open>The local counter, and limit and counter of the World's budget where there is one.\<close>

record buffer_budget =
  bb_limit :: nat
  bb_used :: nat
  bb_native :: "(nat \<times> nat) option"

record buffer_permit =
  bp_charged :: nat
  bp_native :: "nat option"

definition budget_new :: "nat \<Rightarrow> buffer_budget" where
  "budget_new limit = \<lparr>bb_limit = limit, bb_used = 0, bb_native = None\<rparr>"

definition budget_with_world :: "nat \<Rightarrow> nat \<Rightarrow> nat \<Rightarrow> buffer_budget" where
  "budget_with_world limit native_limit retained =
     (budget_new limit)\<lparr>bb_native := Some (native_limit, retained)\<rparr>"

definition reserve_local :: "nat \<Rightarrow> buffer_budget \<Rightarrow> frame_error + buffer_budget" where
  "reserve_local bytes b =
     (case reserve_attempt (bb_limit b) bytes (bb_used b) of
        Refused _ \<Rightarrow> Inl FrameBudgetExceeded
      | Exchange nxt \<Rightarrow> Inr (b\<lparr>bb_used := nxt\<rparr>))"

text \<open>\<^verbatim>\<open>fetch_sub\<close> wraps.\<close>

definition fetch_sub :: "nat \<Rightarrow> nat \<Rightarrow> nat" where
  "fetch_sub a n = (a + (usize_max + 1) - n) mod (usize_max + 1)"

definition release_local :: "nat \<Rightarrow> buffer_budget \<Rightarrow> buffer_budget" where
  "release_local bytes b = b\<lparr>bb_used := fetch_sub (bb_used b) bytes\<rparr>"

definition permit_drop :: "buffer_permit \<Rightarrow> buffer_budget \<Rightarrow> buffer_budget" where
  "permit_drop p b =
     (let b1 = release_local (bp_charged p) b
      in case (bp_native p, bb_native b1) of
           (Some n, Some (limit, retained)) \<Rightarrow> b1\<lparr>bb_native := Some (limit, fetch_sub retained n)\<rparr>
         | _ \<Rightarrow> b1)"

definition budget_reserve :: "nat \<Rightarrow> buffer_budget \<Rightarrow> buffer_budget \<times> (frame_error + buffer_permit)" where
  "budget_reserve bytes b =
     (case reserve_local bytes b of
        Inl e \<Rightarrow> (b, Inl e)
      | Inr b1 \<Rightarrow>
          (let permit = \<lparr>bp_charged = bytes, bp_native = None\<rparr>
           in case bb_native b1 of
                None \<Rightarrow> (b1, Inr permit)
              | Some (limit, retained) \<Rightarrow>
                  (case reserve_alone limit bytes retained of
                     Inl _ \<Rightarrow> (permit_drop permit b1, Inl FrameBudgetExceeded)
                   | Inr nxt \<Rightarrow>
                       (b1\<lparr>bb_native := Some (limit, nxt)\<rparr>, Inr (permit\<lparr>bp_native := Some bytes\<rparr>)))))"

text \<open>\<^verbatim>\<open>NativeBufferPermit::try_grow\<close> on the World's limit and counter.\<close>

definition native_try_grow :: "nat \<Rightarrow> nat \<Rightarrow> nat \<Rightarrow> nat \<Rightarrow> error + (nat \<times> nat)" where
  "native_try_grow additional held limit retained =
     (if additional = 0 then Inr (held, retained)
      else case checked_add usize_max held additional of
        None \<Rightarrow> Inl BudgetExceeded
      | Some grown \<Rightarrow> bindR (reserve_alone limit additional retained) (\<lambda>nxt. Inr (grown, nxt)))"

definition permit_grow ::
  "nat \<Rightarrow> buffer_permit \<Rightarrow> buffer_budget \<Rightarrow> buffer_budget \<times> buffer_permit \<times> (frame_error + unit)" where
  "permit_grow bytes p b =
     (if bytes = 0 then (b, p, Inr ())
      else case checked_add usize_max (bp_charged p) bytes of
        None \<Rightarrow> (b, p, Inl FrameBudgetExceeded)
      | Some charged \<Rightarrow>
          (case reserve_local bytes b of
             Inl e \<Rightarrow> (b, p, Inl e)
           | Inr b1 \<Rightarrow>
               (case (bp_native p, bb_native b1) of
                  (Some held, Some (limit, retained)) \<Rightarrow>
                    (case native_try_grow bytes held limit retained of
                       Inl _ \<Rightarrow>
                         (permit_drop \<lparr>bp_charged = bytes, bp_native = None\<rparr> b1, p, Inl FrameBudgetExceeded)
                     | Inr (grown, nxt) \<Rightarrow>
                         (b1\<lparr>bb_native := Some (limit, nxt)\<rparr>, \<lparr>bp_charged = charged, bp_native = Some grown\<rparr>,
                          Inr ()))
                | _ \<Rightarrow> (b1, p\<lparr>bp_charged := charged\<rparr>, Inr ()))))"

section \<open>Reading\<close>

type_synonym 'r read = "'r \<Rightarrow> nat \<Rightarrow> (error_kind + bytes) \<times> 'r"

text \<open>\<^verbatim>\<open>read_exact_frame\<close>: \<open>acc\<close> holds the first \<^verbatim>\<open>offset\<close> bytes. \<open>Inr None\<close> is \<^verbatim>\<open>Ok(false)\<close>, the end of the
  stream before the first byte.\<close>

function read_exact_loop ::
  "'r read \<Rightarrow> nat \<Rightarrow> bytes \<Rightarrow> 'r \<Rightarrow> (frame_error + bytes option) \<times> 'r" where
  "read_exact_loop rd want acc r =
     (if length acc < want then
        (case rd r (want - length acc) of
           (Inl kind, r1) \<Rightarrow> (Inl (FrameIo kind), r1)
         | (Inr chunk, r1) \<Rightarrow>
             if chunk = [] then (if acc = [] then Inr None else Inl FrameTruncated, r1)
             else read_exact_loop rd want (acc @ chunk) r1)
      else (Inr (Some acc), r))"
  by pat_completeness auto
termination
  by (relation "measure (\<lambda>(rd, want, acc, r). want - length acc)") (auto simp: neq_Nil_conv)

declare read_exact_loop.simps [simp del]

definition read_exact_frame :: "'r read \<Rightarrow> nat \<Rightarrow> 'r \<Rightarrow> (frame_error + bytes option) \<times> 'r" where
  "read_exact_frame rd want r = read_exact_loop rd want [] r"

definition from_be :: "bytes \<Rightarrow> nat" where
  "from_be bs = from_le (rev bs)"

definition be_bytes :: "nat \<Rightarrow> nat \<Rightarrow> bytes" where
  "be_bytes k n = rev (le_bytes k n)"

definition isize_max :: nat where
  "isize_max = 9223372036854775807"

record frame_buffer =
  fb_bytes :: bytes
  fb_permit :: buffer_permit

text \<open>From the charged permit on: allocate, charge what the allocator gave beyond the request, fill.\<close>

definition fill_frame ::
  "'r read \<Rightarrow> (nat \<Rightarrow> nat option) \<Rightarrow> nat \<Rightarrow> buffer_permit \<Rightarrow> buffer_budget \<Rightarrow> 'r \<Rightarrow>
   buffer_budget \<times> (frame_error + frame_buffer option) \<times> 'r" where
  "fill_frame rd alloc len permit b r =
     (case alloc len of
        None \<Rightarrow> (permit_drop permit b, Inl FrameAllocationFailed, r)
      | Some actual \<Rightarrow>
          (let (b1, p1, g) = (if actual > len then permit_grow (actual - len) permit b else (b, permit, Inr ()))
           in case g of
                Inl e \<Rightarrow> (permit_drop p1 b1, Inl e, r)
              | Inr _ \<Rightarrow>
                  (case read_exact_frame rd len r of
                     (Inl e, r1) \<Rightarrow> (permit_drop p1 b1, Inl e, r1)
                   | (Inr None, r1) \<Rightarrow> (permit_drop p1 b1, Inl FrameTruncated, r1)
                   | (Inr (Some body), r1) \<Rightarrow> (b1, Inr (Some \<lparr>fb_bytes = body, fb_permit = p1\<rparr>), r1))))"

definition read_frame ::
  "'r read \<Rightarrow> (nat \<Rightarrow> nat option) \<Rightarrow> nat \<Rightarrow> buffer_budget \<Rightarrow> 'r \<Rightarrow>
   buffer_budget \<times> (frame_error + frame_buffer option) \<times> 'r" where
  "read_frame rd alloc max_frame_bytes b r =
     (case read_exact_frame rd 4 r of
        (Inl e, r1) \<Rightarrow> (b, Inl e, r1)
      | (Inr None, r1) \<Rightarrow> (b, Inr None, r1)
      | (Inr (Some header), r1) \<Rightarrow>
          (let len = from_be header
           in if len > max_frame_bytes then (b, Inl FrameTooLarge, r1)
              else if len > isize_max then (b, Inl FrameInvalidConfig, r1)
              else case budget_reserve len b of
                (b1, Inl e) \<Rightarrow> (b1, Inl e, r1)
              | (b1, Inr permit) \<Rightarrow> fill_frame rd alloc len permit b1 r1))"

section \<open>Writing\<close>

type_synonym 'w write_all = "'w \<Rightarrow> bytes \<Rightarrow> (error_kind + unit) \<times> 'w"

definition write_frame :: "'w write_all \<Rightarrow> bytes \<Rightarrow> nat \<Rightarrow> 'w \<Rightarrow> (frame_error + unit) \<times> 'w" where
  "write_frame wa payload max_frame_bytes w =
     (if length payload > max_frame_bytes \<or> length payload > u32_max then (Inl FrameTooLarge, w)
      else case wa w (be_bytes 4 (length payload)) of
        (Inl kind, w1) \<Rightarrow> (Inl (FrameIo kind), w1)
      | (Inr _, w1) \<Rightarrow>
          (case wa w1 payload of
             (Inl kind, w2) \<Rightarrow> (Inl (FrameIo kind), w2)
           | (Inr _, w2) \<Rightarrow> (Inr (), w2)))"

section \<open>What the environment promises\<close>

text \<open>\<open>str\<close> is what a reader has still to deliver. A read returns a prefix of it that fits the buffer, and
  returns nothing only at the end; \<open>quiet\<close> excludes I/O errors.\<close>

definition reads_stream :: "'r read \<Rightarrow> ('r \<Rightarrow> bytes) \<Rightarrow> bool" where
  "reads_stream rd str \<longleftrightarrow> (\<forall>r n bs r'. rd r n = (Inr bs, r') \<longrightarrow>
     str r = bs @ str r' \<and> length bs \<le> n \<and> (bs = [] \<longrightarrow> n = 0 \<or> str r = []))"

definition quiet :: "'r read \<Rightarrow> bool" where
  "quiet rd \<longleftrightarrow> (\<forall>r n. is_ok (fst (rd r n)))"

definition writes_stream :: "'w write_all \<Rightarrow> ('w \<Rightarrow> bytes) \<Rightarrow> bool" where
  "writes_stream wa out \<longleftrightarrow> (\<forall>w bs w'. wa w bs = (Inr (), w') \<longrightarrow> out w' = out w @ bs)"

definition allocates :: "(nat \<Rightarrow> nat option) \<Rightarrow> bool" where
  "allocates alloc \<longleftrightarrow> (\<forall>n c. alloc n = Some c \<longrightarrow> n \<le> c)"

section \<open>Budget arithmetic\<close>

text \<open>A budget within its limits; taking \<open>n\<close> bytes of it; the permit for them.\<close>

definition budget_ok :: "buffer_budget \<Rightarrow> bool" where
  "budget_ok b \<longleftrightarrow> bb_used b \<le> bb_limit b \<and> bb_limit b \<le> usize_max
     \<and> (case bb_native b of None \<Rightarrow> True | Some (limit, n) \<Rightarrow> n \<le> limit \<and> limit \<le> usize_max)"

definition fits :: "nat \<Rightarrow> buffer_budget \<Rightarrow> bool" where
  "fits n b \<longleftrightarrow> bb_used b + n \<le> bb_limit b
     \<and> (case bb_native b of None \<Rightarrow> True | Some (limit, m) \<Rightarrow> m + n \<le> limit)"

definition charge :: "nat \<Rightarrow> buffer_budget \<Rightarrow> buffer_budget" where
  "charge n b = b\<lparr>bb_used := bb_used b + n, bb_native := map_option (\<lambda>(limit, m). (limit, m + n)) (bb_native b)\<rparr>"

definition permit_of :: "nat \<Rightarrow> buffer_budget \<Rightarrow> buffer_permit" where
  "permit_of n b = \<lparr>bp_charged = n, bp_native = map_option (\<lambda>_. n) (bb_native b)\<rparr>"

lemma fetch_sub_add: "a + n \<le> usize_max \<Longrightarrow> fetch_sub (a + n) n = a"
proof -
  assume "a + n \<le> usize_max"
  then have "a < usize_max + 1" by simp
  moreover have "a + n + (usize_max + 1) - n = a + (usize_max + 1)" by simp
  ultimately show ?thesis unfolding fetch_sub_def by (simp only: mod_add_self2 mod_less)
qed

lemma fits_mono: "fits n b \<Longrightarrow> m \<le> n \<Longrightarrow> fits m b"
  by (auto simp: fits_def split: option.splits)

lemma fits_max: "budget_ok b \<Longrightarrow> fits n b \<Longrightarrow> bb_used b + n \<le> usize_max"
  by (auto simp: fits_def budget_ok_def)

lemma charge_ok: "budget_ok b \<Longrightarrow> fits n b \<Longrightarrow> budget_ok (charge n b)"
  by (auto simp: fits_def budget_ok_def charge_def split: option.splits)

lemma charge_native: "bb_native (charge n b) = map_option (\<lambda>(limit, m). (limit, m + n)) (bb_native b)"
  by (simp add: charge_def)

lemma budget_update_same: "b\<lparr>bb_used := bb_used b\<rparr> = b" "b\<lparr>bb_used := bb_used b, bb_native := bb_native b\<rparr> = b"
  by simp_all

lemma drop_charge: "budget_ok b \<Longrightarrow> fits n b \<Longrightarrow> permit_drop (permit_of n b) (charge n b) = b"
  by (cases b) (auto simp: permit_drop_def release_local_def permit_of_def charge_def fits_def budget_ok_def
      fetch_sub_add split: option.splits)

lemma reserve_local_exact:
  "budget_ok b \<Longrightarrow> reserve_local n b =
     (if bb_used b + n \<le> bb_limit b then Inr (b\<lparr>bb_used := bb_used b + n\<rparr>) else Inl FrameBudgetExceeded)"
  by (auto simp: reserve_local_def reserve_attempt_def budget_ok_def checked_add_def)

lemma reserve_native_exact:
  "m \<le> limit \<Longrightarrow> limit \<le> usize_max \<Longrightarrow>
     reserve_alone limit n m = (if m + n \<le> limit then Inr (m + n) else Inl BudgetExceeded)"
  by (auto simp: reserve_alone_def reserve_attempt_def checked_add_def)

lemma drop_local:
  "bb_used b + n \<le> usize_max \<Longrightarrow>
     permit_drop \<lparr>bp_charged = n, bp_native = None\<rparr> (b\<lparr>bb_used := bb_used b + n\<rparr>) = b"
  by (cases b) (simp add: permit_drop_def release_local_def fetch_sub_add)

lemma budget_reserve_exact:
  assumes "budget_ok b"
  shows "budget_reserve n b = (if fits n b then (charge n b, Inr (permit_of n b)) else (b, Inl FrameBudgetExceeded))"
proof (cases "bb_used b + n \<le> bb_limit b")
  case True
  then have "bb_used b + n \<le> usize_max" using assms by (simp add: budget_ok_def)
  note big = this and drop = drop_local [OF this]
  show ?thesis
  proof (cases "bb_native b")
    case None
    then show ?thesis
      using True big by (cases b) (simp add: budget_reserve_def reserve_local_def reserve_attempt_def checked_add_def
          fits_def charge_def permit_of_def)
  next
    case (Some x)
    obtain limit m where x: "x = (limit, m)" by (cases x)
    have "m \<le> limit" "limit \<le> usize_max" using assms Some x by (simp_all add: budget_ok_def)
    then show ?thesis
      using True Some x drop big
      by (cases b) (simp add: budget_reserve_def reserve_local_def reserve_attempt_def checked_add_def fits_def
          charge_def permit_of_def reserve_native_exact)
  qed
next
  case False
  then show ?thesis by (simp add: budget_reserve_def reserve_local_exact [OF assms] fits_def)
qed

lemma native_try_grow_exact:
  assumes "held \<le> m" "m \<le> limit" "limit \<le> usize_max" "0 < n"
  shows "native_try_grow n held limit m = (if m + n \<le> limit then Inr (held + n, m + n) else Inl BudgetExceeded)"
proof -
  have "m + n \<le> limit \<Longrightarrow> held + n \<le> usize_max" using assms by linarith
  then show ?thesis
    using assms(4) by (auto simp: native_try_grow_def reserve_native_exact [OF assms(2,3)] checked_add_def)
qed

lemma permit_grow_exact:
  assumes "budget_ok b" "fits n b"
  shows "permit_grow k (permit_of n b) (charge n b) =
    (if fits (n + k) b then (charge (n + k) b, permit_of (n + k) b, Inr ())
     else (charge n b, permit_of n b, Inl FrameBudgetExceeded))"
proof (cases "k = 0")
  case True
  then show ?thesis using assms(2) by (simp add: permit_grow_def)
next
  case k: False
  have ok: "budget_ok (charge n b)" by (rule charge_ok [OF assms])
  show ?thesis
  proof (cases "bb_used b + n + k \<le> bb_limit b")
    case True
    then have big: "bb_used b + n + k \<le> usize_max" "n + k \<le> usize_max" using assms(1) by (simp_all add: budget_ok_def)
    have drop: "permit_drop \<lparr>bp_charged = k, bp_native = None\<rparr> ((charge n b)\<lparr>bb_used := bb_used (charge n b) + k\<rparr>)
        = charge n b"
      by (rule drop_local) (use big in \<open>simp add: charge_def\<close>)
    show ?thesis
    proof (cases "bb_native b")
      case None
      then show ?thesis
        using True k big by (cases b) (simp add: permit_grow_def reserve_local_def reserve_attempt_def checked_add_def fits_def
            charge_def permit_of_def add.assoc)
    next
      case (Some x)
      obtain limit m where x: "x = (limit, m)" by (cases x)
      have lim: "m + n \<le> limit" "limit \<le> usize_max" using assms Some x by (auto simp: budget_ok_def fits_def)
      have "native_try_grow k n limit (m + n)
          = (if m + n + k \<le> limit then Inr (n + k, m + n + k) else Inl BudgetExceeded)"
        by (rule native_try_grow_exact) (use lim k in auto)
      then show ?thesis
        using True k big Some x drop
        by (cases b) (simp add: permit_grow_def reserve_local_def reserve_attempt_def checked_add_def fits_def
            charge_def permit_of_def add.assoc)
    qed
  next
    case False
    have "reserve_local k (charge n b) = Inl FrameBudgetExceeded"
      using False by (simp add: reserve_local_exact [OF ok]) (simp add: charge_def)
    then show ?thesis using False k by (auto simp: permit_grow_def checked_add_def fits_def permit_of_def)
  qed
qed

section \<open>One frame\<close>

lemma be_round_trip: "n \<le> u32_max \<Longrightarrow> from_be (be_bytes 4 n) = n" "length (be_bytes k n) = k"
  by (simp_all add: from_be_def be_bytes_def from_le_le_bytes u32_max_def)

lemma from_be_less: "length h = 4 \<Longrightarrow> from_be h \<le> isize_max"
  using from_le_less [of "rev h"] by (simp add: from_be_def isize_max_def)

lemma fill_frame_exact:
  assumes "budget_ok b" "fits len b" "allocates alloc"
  shows "fill_frame rd alloc len (permit_of len b) (charge len b) r =
    (case alloc len of
       None \<Rightarrow> (b, Inl FrameAllocationFailed, r)
     | Some c \<Rightarrow>
         if \<not> fits c b then (b, Inl FrameBudgetExceeded, r)
         else (case read_exact_frame rd len r of
             (Inl e, r1) \<Rightarrow> (b, Inl e, r1)
           | (Inr None, r1) \<Rightarrow> (b, Inl FrameTruncated, r1)
           | (Inr (Some body), r1) \<Rightarrow> (charge c b, Inr (Some \<lparr>fb_bytes = body, fb_permit = permit_of c b\<rparr>), r1)))"
proof (cases "alloc len")
  case None
  then show ?thesis by (simp add: fill_frame_def drop_charge [OF assms(1,2)])
next
  case (Some c)
  then have le: "len \<le> c" using assms(3) by (simp add: allocates_def)
  have g: "(if c > len then permit_grow (c - len) (permit_of len b) (charge len b)
       else (charge len b, permit_of len b, Inr ())) =
    (if fits c b then (charge c b, permit_of c b, Inr ()) else (charge len b, permit_of len b, Inl FrameBudgetExceeded))"
    using le assms(2) permit_grow_exact [OF assms(1,2), of "c - len"] by auto
  show ?thesis
  proof (cases "fits c b")
    case True
    show ?thesis unfolding fill_frame_def Some option.simps g
      using True by (auto simp: Some drop_charge [OF assms(1) True] split: prod.splits sum.splits option.splits)
  next
    case False
    show ?thesis unfolding fill_frame_def Some option.simps g
      using False by (simp add: Some drop_charge [OF assms(1,2)])
  qed
qed

lemma read_exact_length:
  "read_exact_loop rd want acc r = (Inr (Some bs), r') \<Longrightarrow> length acc \<le> want \<Longrightarrow>
     \<forall>r n bs r'. rd r n = (Inr bs, r') \<longrightarrow> length bs \<le> n \<Longrightarrow> length bs = want"
proof (induction rd want acc r rule: read_exact_loop.induct)
  case (1 rd want acc r)
  show ?case
  proof (cases "length acc < want")
    case True
    obtain x r1 where x: "rd r (want - length acc) = (x, r1)" by fastforce
    show ?thesis
    proof (cases x)
      case (Inl e)
      then show ?thesis using 1(2) True x by (simp add: read_exact_loop.simps [of rd want acc])
    next
      case (Inr chunk)
      then have "length chunk \<le> want - length acc" using 1(4) x by blast
      moreover have "chunk \<noteq> []"
        using 1(2) True x Inr by (auto simp: read_exact_loop.simps [of rd want acc] split: if_splits)
      ultimately show ?thesis
        using 1(1) [OF True x [symmetric] Inr] 1(2,4) True x Inr
        by (simp add: read_exact_loop.simps [of rd want acc])
    qed
  qed (use 1(2,3) in \<open>simp add: read_exact_loop.simps [of rd want acc]\<close>)
qed

lemma read_exact_stream:
  assumes "reads_stream rd str" "quiet rd" "length acc \<le> want"
  shows "\<exists>r'. read_exact_loop rd want acc r =
     (if want \<le> length acc + length (str r) then Inr (Some (acc @ take (want - length acc) (str r)))
      else if acc @ str r = [] then Inr None else Inl FrameTruncated, r')
     \<and> str r' = drop (want - length acc) (str r)"
  using assms(3)
proof (induction "want - length acc" arbitrary: acc r rule: less_induct)
  case less
  show ?case
  proof (cases "length acc < want")
    case True
    obtain x r1 where x: "rd r (want - length acc) = (x, r1)" by fastforce
    moreover have "is_ok x" using assms(2) x by (metis fst_conv quiet_def)
    ultimately obtain chunk where chunk: "rd r (want - length acc) = (Inr chunk, r1)" by (cases x) auto
    have s: "str r = chunk @ str r1" "length chunk \<le> want - length acc" "chunk = [] \<Longrightarrow> str r = []"
      using assms(1) chunk True unfolding reads_stream_def by (metis diff_is_0_eq not_le)+
    show ?thesis
    proof (cases "chunk = []")
      case e: True
      then have "str r = []" "str r1 = []" using s by simp_all
      then show ?thesis using True chunk e by (subst read_exact_loop.simps) auto
    next
      case False
      then have "want - length (acc @ chunk) < want - length acc" "length (acc @ chunk) \<le> want" using True s(2) False
        by (auto simp: neq_Nil_conv)
      from less.hyps [OF this, of r1] obtain r' where
        r': "read_exact_loop rd want (acc @ chunk) r1 =
          (if want \<le> length (acc @ chunk) + length (str r1)
           then Inr (Some ((acc @ chunk) @ take (want - length (acc @ chunk)) (str r1)))
           else if (acc @ chunk) @ str r1 = [] then Inr None else Inl FrameTruncated, r')"
        "str r' = drop (want - length (acc @ chunk)) (str r1)" by blast
      have "read_exact_loop rd want acc r = read_exact_loop rd want (acc @ chunk) r1"
        using True chunk False by (subst read_exact_loop.simps) simp
      then show ?thesis using r' s False by (auto simp: add.assoc)
    qed
  next
    case False
    then show ?thesis using less.prems by (subst read_exact_loop.simps) auto
  qed
qed

text \<open>What a frame read does, as a function of the bytes that are left in the stream.\<close>

definition frame_spec ::
  "(nat \<Rightarrow> nat option) \<Rightarrow> nat \<Rightarrow> buffer_budget \<Rightarrow> bytes \<Rightarrow> buffer_budget \<times> (frame_error + frame_buffer option)" where
  "frame_spec alloc max_frame_bytes b bs =
     (if bs = [] then (b, Inr None)
      else if length bs < 4 then (b, Inl FrameTruncated)
      else
        (let len = from_be (take 4 bs); body = drop 4 bs
         in if len > max_frame_bytes then (b, Inl FrameTooLarge)
            else if \<not> fits len b then (b, Inl FrameBudgetExceeded)
            else case alloc len of
              None \<Rightarrow> (b, Inl FrameAllocationFailed)
            | Some c \<Rightarrow>
                if \<not> fits c b then (b, Inl FrameBudgetExceeded)
                else if length body < len then (b, Inl FrameTruncated)
                else (charge c b, Inr (Some \<lparr>fb_bytes = take len body, fb_permit = permit_of c b\<rparr>))))"

lemma read_frame_spec:
  assumes "reads_stream rd str" "quiet rd" "budget_ok b" "allocates alloc"
  shows "\<exists>b' res r'. read_frame rd alloc mx b r = (b', res, r') \<and> frame_spec alloc mx b (str r) = (b', res)
    \<and> (\<forall>f. res = Inr (Some f) \<longrightarrow> str r' = drop (4 + length (fb_bytes f)) (str r))"
proof -
  obtain r1 where r1: "read_exact_frame rd 4 r =
      (if 4 \<le> length (str r) then Inr (Some (take 4 (str r)))
       else if str r = [] then Inr None else Inl FrameTruncated, r1)" "str r1 = drop 4 (str r)"
    using read_exact_stream [OF assms(1,2), of "[]" 4 r] by (auto simp: read_exact_frame_def)
  show ?thesis
  proof (cases "4 \<le> length (str r)")
    case True
    define len where "len = from_be (take 4 (str r))"
    have small: "\<not> len > isize_max" using from_be_less [of "take 4 (str r)"] True by (simp add: len_def)
    obtain r2 where r2: "read_exact_frame rd len r1 =
        (if len \<le> length (str r1) then Inr (Some (take len (str r1)))
         else if str r1 = [] then Inr None else Inl FrameTruncated, r2)" "str r2 = drop len (str r1)"
      using read_exact_stream [OF assms(1,2), of "[]" len r1] by (auto simp: read_exact_frame_def)
    show ?thesis
    proof (cases "len > mx \<or> \<not> fits len b")
      case True
      then show ?thesis
        using \<open>4 \<le> length (str r)\<close> small r1(1)
        by (auto simp: read_frame_def frame_spec_def len_def Let_def budget_reserve_exact [OF assms(3)])
    next
      case False
      then have "read_frame rd alloc mx b r = fill_frame rd alloc len (permit_of len b) (charge len b) r1"
        using True small r1(1) by (simp add: read_frame_def len_def Let_def budget_reserve_exact [OF assms(3)])
      also note fill_frame_exact [OF assms(3) _ assms(4)]
      finally show ?thesis
        using False True r1(2) r2
        by (auto simp: frame_spec_def len_def Let_def add.commute split: option.splits)
    qed
  next
    case False
    then show ?thesis using r1 by (auto simp: read_frame_def frame_spec_def)
  qed
qed

section \<open>Many frames\<close>

text \<open>A connection's frames one after the other: what a peer writes, and what a reader takes that drops each
  buffer before the next.\<close>

fun write_frames :: "'w write_all \<Rightarrow> nat \<Rightarrow> bytes list \<Rightarrow> 'w \<Rightarrow> (frame_error + unit) \<times> 'w" where
  "write_frames wa mx [] w = (Inr (), w)"
| "write_frames wa mx (p # ps) w =
     (case write_frame wa p mx w of (Inl e, w1) \<Rightarrow> (Inl e, w1) | (Inr _, w1) \<Rightarrow> write_frames wa mx ps w1)"

fun read_frames ::
  "'r read \<Rightarrow> (nat \<Rightarrow> nat option) \<Rightarrow> nat \<Rightarrow> nat \<Rightarrow> buffer_budget \<Rightarrow> 'r \<Rightarrow>
   buffer_budget \<times> (frame_error + bytes list) \<times> 'r" where
  "read_frames rd alloc mx 0 b r = (b, Inr [], r)"
| "read_frames rd alloc mx (Suc n) b r =
     (case read_frame rd alloc mx b r of
        (b1, Inl e, r1) \<Rightarrow> (b1, Inl e, r1)
      | (b1, Inr None, r1) \<Rightarrow> (b1, Inr [], r1)
      | (b1, Inr (Some f), r1) \<Rightarrow>
          (case read_frames rd alloc mx n (permit_drop (fb_permit f) b1) r1 of
             (b2, Inl e, r2) \<Rightarrow> (b2, Inl e, r2)
           | (b2, Inr fs, r2) \<Rightarrow> (b2, Inr (fb_bytes f # fs), r2)))"

definition frame_of :: "bytes \<Rightarrow> bytes" where
  "frame_of p = be_bytes 4 (length p) @ p"

lemma write_frame_out:
  assumes "writes_stream wa out" "write_frame wa p mx w = (Inr (), w')"
  shows "out w' = out w @ frame_of p \<and> length p \<le> mx \<and> length p \<le> u32_max"
proof -
  have "\<not> (length p > mx \<or> length p > u32_max)" using assms(2) by (auto simp: write_frame_def)
  then obtain w1 where "wa w (be_bytes 4 (length p)) = (Inr (), w1)" "wa w1 p = (Inr (), w')"
    using assms(2) by (auto simp: write_frame_def split: prod.splits sum.splits)
  then show ?thesis
    using assms(1) \<open>\<not> _\<close> unfolding writes_stream_def by (auto simp: frame_of_def)
qed

lemma write_frames_out:
  assumes "writes_stream wa out"
  shows "write_frames wa mx ps w = (Inr (), w') \<Longrightarrow>
    out w' = out w @ concat (map frame_of ps) \<and> (\<forall>p \<in> set ps. length p \<le> mx \<and> length p \<le> u32_max)"
proof (induction ps arbitrary: w)
  case (Cons p ps)
  then obtain w1 where w1: "write_frame wa p mx w = (Inr (), w1)" "write_frames wa mx ps w1 = (Inr (), w')"
    by (auto split: prod.splits sum.splits)
  from write_frame_out [OF assms w1(1)] Cons.IH [OF w1(2)] show ?case by auto
qed simp

lemma frame_spec_frame:
  assumes "length p \<le> mx" "length p \<le> u32_max" "alloc (length p) = Some c" "fits c b" "allocates alloc"
  shows "frame_spec alloc mx b (frame_of p @ rest) =
    (charge c b, Inr (Some \<lparr>fb_bytes = p, fb_permit = permit_of c b\<rparr>))"
proof -
  have "length p \<le> c" using assms(3,5) by (simp add: allocates_def)
  then have "fits (length p) b" using fits_mono [OF assms(4)] by blast
  moreover have "frame_of p @ rest \<noteq> []" using be_round_trip(2) [of 4 "length p"] by (auto simp: frame_of_def)
  ultimately show ?thesis
    using assms by (simp add: frame_spec_def frame_of_def be_round_trip Let_def)
qed

lemma read_frames_concat:
  assumes "reads_stream rd str" "quiet rd" "budget_ok b" "allocates alloc"
  shows "\<forall>p \<in> set ps. length p \<le> mx \<and> length p \<le> u32_max \<and> (\<exists>c. alloc (length p) = Some c \<and> fits c b) \<Longrightarrow>
    str r = concat (map frame_of ps) @ rest \<Longrightarrow>
    \<exists>r'. read_frames rd alloc mx (length ps) b r = (b, Inr ps, r') \<and> str r' = rest"
proof (induction ps arbitrary: r)
  case (Cons p ps)
  then obtain c where p: "length p \<le> mx" "length p \<le> u32_max" "alloc (length p) = Some c" "fits c b" by auto
  have str: "str r = frame_of p @ (concat (map frame_of ps) @ rest)" using Cons.prems(2) by simp
  from read_frame_spec [OF assms, of mx r, unfolded str frame_spec_frame [OF p assms(4)]]
  obtain r1 where r1: "read_frame rd alloc mx b r = (charge c b, Inr (Some \<lparr>fb_bytes = p, fb_permit = permit_of c b\<rparr>), r1)"
    "str r1 = drop (4 + length p) (str r)" by (auto simp: str)
  then have "str r1 = concat (map frame_of ps) @ rest" by (simp add: str frame_of_def be_round_trip)
  from Cons.IH [OF _ this] Cons.prems(1) obtain r' where
    "read_frames rd alloc mx (length ps) b r1 = (b, Inr ps, r')" "str r' = rest" by auto
  then show ?case using r1(1) by (simp add: drop_charge [OF assms(3) p(4)])
qed simp

section \<open>Properties\<close>

text \<open>A reader that delivers its chunks one by one and splits one that exceeds the buffer, a writer that
  collects, and an allocator that rounds up to a multiple of eight.\<close>

definition chunk_read :: "bytes list read" where
  "chunk_read r n =
     (case filter (\<lambda>c. c \<noteq> []) r of [] \<Rightarrow> (Inr [], []) | c # cs \<Rightarrow> (Inr (take n c), drop n c # cs))"

definition list_write :: "bytes write_all" where
  "list_write w bs = (Inr (), w @ bs)"

definition round_alloc :: "nat \<Rightarrow> nat option" where
  "round_alloc n = Some ((n + 7) div 8 * 8)"

lemma concat_filter_nonempty: "concat (filter (\<lambda>c. c \<noteq> []) r) = concat r"
  by (induction r) auto

lemma chunk_read_stream: "reads_stream chunk_read concat" "quiet chunk_read"
proof -
  have "concat r = bs @ concat r' \<and> length bs \<le> n \<and> (bs = [] \<longrightarrow> n = 0 \<or> concat r = [])"
    if a: "chunk_read r n = (Inr bs, r')" for r n bs r'
  proof (cases "filter (\<lambda>c. c \<noteq> []) r")
    case Nil
    then show ?thesis using a concat_filter_nonempty [of r] by (auto simp: chunk_read_def)
  next
    case (Cons c cs)
    then have "c \<noteq> []" by (metis (mono_tags) filter_eq_ConsD)
    moreover have "concat r = c @ concat cs" using concat_filter_nonempty [of r] Cons by simp
    moreover have "c @ concat cs = take n c @ drop n c @ concat cs" by (simp flip: append_assoc)
    ultimately show ?thesis using a Cons by (auto simp: chunk_read_def)
  qed
  then show "reads_stream chunk_read concat" unfolding reads_stream_def by blast
  show "quiet chunk_read" by (auto simp: quiet_def chunk_read_def split: list.splits)
qed

lemma list_write_stream: "writes_stream list_write (\<lambda>w. w)"
  by (simp add: writes_stream_def list_write_def)

lemma round_alloc_allocates: "allocates round_alloc"
  by (auto simp: allocates_def round_alloc_def)

lemma demo_headers:
  "be_bytes 4 0 = [CHR 0x00, CHR 0x00, CHR 0x00, CHR 0x00]"
  "be_bytes 4 (Suc (Suc (Suc 0))) = [CHR 0x00, CHR 0x00, CHR 0x00, CHR 0x03]"
  by code_simp+

text \<open>C28. Frames survive the transport. Whatever payloads a peer writes with \<^verbatim>\<open>write_frame\<close>, and however the
  stream is cut into reads, \<^verbatim>\<open>read_frame\<close> returns exactly these payloads in order, then \<^verbatim>\<open>None\<close> at the end of
  the stream, and with each buffer dropped the budget ends as it began. The budget must have room for
  the capacity of each single buffer.\<close>

theorem frames_round_trip:
  assumes "writes_stream wa out" "write_frames wa mx ps w = (Inr (), w')"
    and "reads_stream rd str" "quiet rd" "out w' = out w @ str r"
    and "budget_ok b" "allocates alloc" "\<forall>p \<in> set ps. \<exists>c. alloc (length p) = Some c \<and> fits c b"
  shows "\<exists>r' r''. read_frames rd alloc mx (length ps) b r = (b, Inr ps, r')
    \<and> read_frame rd alloc mx b r' = (b, Inr None, r'')"
proof -
  note out = write_frames_out [OF assms(1,2)]
  then have "str r = concat (map frame_of ps) @ []" using assms(5) by simp
  from read_frames_concat [OF assms(3,4,6,7) _ this] out assms(8) obtain r' where
    r': "read_frames rd alloc mx (length ps) b r = (b, Inr ps, r')" "str r' = []" by blast
  from read_frame_spec [OF assms(3,4,6,7), of mx r'] r' show ?thesis by (auto simp: frame_spec_def)
qed

theorem frames_round_trip_witness:
  "\<exists>r' r''. read_frames chunk_read round_alloc 16 2 (budget_new 32)
       [[CHR 0x00, CHR 0x00], [CHR 0x00, CHR 0x03, CHR ''a'', CHR ''b''], [CHR ''c'', CHR 0x00, CHR 0x00],
        [CHR 0x00, CHR 0x00]] = (budget_new 32, Inr [''abc'', []], r')
     \<and> read_frame chunk_read round_alloc 16 (budget_new 32) r' = (budget_new 32, Inr None, r'')"
proof -
  have w: "write_frames list_write 16 [''abc'', []] [] = (Inr (),
      [CHR 0x00, CHR 0x00, CHR 0x00, CHR 0x03, CHR ''a'', CHR ''b'', CHR ''c'', CHR 0x00, CHR 0x00, CHR 0x00, CHR 0x00])"
    by (simp add: write_frame_def list_write_def u32_max_def demo_headers)
  have b: "budget_ok (budget_new 32)" by (simp add: budget_ok_def budget_new_def usize_max_def u64_max_def)
  have f: "\<forall>p \<in> set [''abc'', []]. \<exists>c. round_alloc (length p) = Some c \<and> fits c (budget_new 32)"
    by (simp add: round_alloc_def fits_def budget_new_def)
  show ?thesis
    using frames_round_trip [OF list_write_stream w chunk_read_stream _ b round_alloc_allocates f,
        of "[[CHR 0x00, CHR 0x00], [CHR 0x00, CHR 0x03, CHR ''a'', CHR ''b''], [CHR ''c'', CHR 0x00, CHR 0x00],
        [CHR 0x00, CHR 0x00]]"] by (simp add: numeral_2_eq_2)
qed

text \<open>Reading a frame is a function of the stream. On a stream without I/O errors the outcome of
  \<^verbatim>\<open>read_frame\<close> depends on the remaining bytes only, not on how they arrive: the end of the stream, a header or
  body cut short, a length above the maximum, a budget or allocation refusal, or the body, each exactly as
  \<open>frame_spec\<close> says; and a frame consumes exactly its header and body.\<close>

theorem read_frame_exact:
  assumes "reads_stream rd str" "quiet rd" "budget_ok b" "allocates alloc"
  shows "\<exists>b' res r'. read_frame rd alloc mx b r = (b', res, r') \<and> frame_spec alloc mx b (str r) = (b', res)
    \<and> (\<forall>f. res = Inr (Some f) \<longrightarrow> str r' = drop (4 + length (fb_bytes f)) (str r))"
  by (rule read_frame_spec [OF assms])

theorem read_frame_exact_witness:
  "\<exists>r'. read_frame chunk_read round_alloc 8 (budget_new 8) [[CHR 0x00, CHR 0x00], [CHR 0x00, CHR 0x04, CHR ''x'']]
     = (budget_new 8, Inl FrameTruncated, r')"
proof -
  have b: "budget_ok (budget_new 8)" by (simp add: budget_ok_def budget_new_def usize_max_def u64_max_def)
  have "frame_spec round_alloc 8 (budget_new 8) [CHR 0x00, CHR 0x00, CHR 0x00, CHR 0x04, CHR ''x'']
      = (budget_new 8, Inl FrameTruncated)"
    by (simp add: frame_spec_def from_be_def Let_def fits_def budget_new_def round_alloc_def)
  then show ?thesis
    using read_frame_exact [OF chunk_read_stream b round_alloc_allocates, of 8
        "[[CHR 0x00, CHR 0x00], [CHR 0x00, CHR 0x04, CHR ''x'']]"] by auto
qed

text \<open>C29. No read leaks its budget. Whatever the reader does, I/O errors and early ends included, a
  \<^verbatim>\<open>read_frame\<close> that returns no frame leaves the local and the World's counter as they were. One that returns
  a frame has charged both with the capacity of its buffer, which holds the frame, within both limits;
  dropping the frame returns exactly that.\<close>

theorem read_frame_budget:
  assumes "budget_ok b" "allocates alloc" "\<forall>r n bs r'. rd r n = (Inr bs, r') \<longrightarrow> length bs \<le> n"
  shows "case read_frame rd alloc mx b r of (b', res, r') \<Rightarrow>
    (case res of
       Inr (Some f) \<Rightarrow> (\<exists>c. length (fb_bytes f) \<le> mx \<and> length (fb_bytes f) \<le> c \<and> b' = charge c b \<and> budget_ok b')
         \<and> permit_drop (fb_permit f) b' = b
     | _ \<Rightarrow> b' = b)"
proof -
  have len: "length bs = want" if "read_exact_frame rd want r = (Inr (Some bs), r')" for want r bs r'
    using read_exact_length [of rd want "[]" r bs r'] that assms(3) by (simp add: read_exact_frame_def)
  obtain x r1 where x: "read_exact_frame rd 4 r = (x, r1)" by fastforce
  consider "\<not> (\<exists>h. x = Inr (Some h))" | h where "x = Inr (Some h)" by blast
  then show ?thesis
  proof cases
    case 1
    then show ?thesis using x by (auto simp: read_frame_def split: sum.splits option.splits)
  next
    case 2
    define l where "l = from_be h"
    have hd: "read_frame rd alloc mx b r =
        (if l > mx then (b, Inl FrameTooLarge, r1) else if l > isize_max then (b, Inl FrameInvalidConfig, r1)
         else if \<not> fits l b then (b, Inl FrameBudgetExceeded, r1)
         else fill_frame rd alloc l (permit_of l b) (charge l b) r1)"
      using x 2 by (simp add: read_frame_def Let_def l_def budget_reserve_exact [OF assms(1)])
    show ?thesis
    proof (cases "l > mx \<or> l > isize_max \<or> \<not> fits l b")
      case True
      then show ?thesis unfolding hd by auto
    next
      case False
      obtain y r2 where y: "read_exact_frame rd l r1 = (y, r2)" by fastforce
      show ?thesis
      proof (cases "\<exists>c body. alloc l = Some c \<and> fits c b \<and> y = Inr (Some body)")
        case True
        then obtain c body where c: "alloc l = Some c" "fits c b" "y = Inr (Some body)" by blast
        then have "length body = l" "l \<le> c" using len y assms(2) by (auto simp: allocates_def)
        then show ?thesis
          unfolding hd using False c y
          by (auto simp: fill_frame_exact [OF assms(1) _ assms(2)] drop_charge [OF assms(1)] charge_ok [OF assms(1)])
      next
        case no: False
        then show ?thesis
          unfolding hd using False y
          by (auto simp: fill_frame_exact [OF assms(1) _ assms(2)] split: option.splits sum.splits)
      qed
    qed
  qed
qed

theorem read_frame_budget_witness:
  "case read_frame chunk_read round_alloc 8 (budget_with_world 8 64 40) [[CHR 0x00, CHR 0x00, CHR 0x00, CHR 0x01], ''a''] of
     (b', res, r') \<Rightarrow> (\<exists>f. res = Inr (Some f) \<and> permit_drop (fb_permit f) b' = budget_with_world 8 64 40)"
proof -
  have b: "budget_ok (budget_with_world 8 64 40)"
    by (simp add: budget_ok_def budget_with_world_def budget_new_def usize_max_def u64_max_def)
  have l: "\<forall>r n bs r'. chunk_read r n = (Inr bs, r') \<longrightarrow> length bs \<le> n"
    using chunk_read_stream(1) by (auto simp: reads_stream_def)
  let ?r = "[[CHR 0x00, CHR 0x00, CHR 0x00, CHR 0x01], ''a'']"
  have s: "frame_spec round_alloc 8 (budget_with_world 8 64 40) (concat ?r)
      = (charge 8 (budget_with_world 8 64 40),
         Inr (Some \<lparr>fb_bytes = ''a'', fb_permit = permit_of 8 (budget_with_world 8 64 40)\<rparr>))"
    by (simp add: frame_spec_def from_be_def Let_def fits_def budget_with_world_def budget_new_def round_alloc_def)
  obtain r' where "read_frame chunk_read round_alloc 8 (budget_with_world 8 64 40) ?r = (charge 8 (budget_with_world 8 64 40),
         Inr (Some \<lparr>fb_bytes = ''a'', fb_permit = permit_of 8 (budget_with_world 8 64 40)\<rparr>), r')"
    using read_frame_spec [OF chunk_read_stream b round_alloc_allocates, of 8 ?r] s by auto
  then show ?thesis using read_frame_budget [OF b round_alloc_allocates l, of 8 ?r] by auto
qed

end
