(* ===== verification/Cpu.thy ===== *)
theory Cpu
  imports World_Outcomes
begin

text \<open>
  Blocking jobs, \<^verbatim>\<open>crates/runtime-native/src/cpu.rs\<close>: admission to a bounded pool, and the counters that a monitor
  may read at any moment. Each atomic access is one step, so that a reader sees every intermediate state; a job is
  known by how far it has got. The semaphores of the async runtime are counts of free permits. What the job's
  closures do, panics included, is free.
\<close>

section \<open>Executor\<close>

datatype cpu_outcome = CpuCompleted | CpuCancelled | CpuPanicked

record cpu_counters =
  cc_queued :: nat
  cc_running :: nat
  cc_submitted :: nat
  cc_completed :: nat
  cc_cancelled :: nat
  cc_panicked :: nat
  cc_rejected :: nat

record cpu_executor =
  ce_workers_free :: nat
  ce_jobs_free :: nat
  ce_counters :: cpu_counters
  ce_workers_limit :: nat
  ce_jobs_limit :: nat

definition counters_zero :: cpu_counters where
  "counters_zero = \<lparr>cc_queued = 0, cc_running = 0, cc_submitted = 0, cc_completed = 0, cc_cancelled = 0,
     cc_panicked = 0, cc_rejected = 0\<rparr>"

definition cpu_new :: "nat \<Rightarrow> nat \<Rightarrow> cpu_executor" where
  "cpu_new workers max_jobs =
     \<lparr>ce_workers_free = workers, ce_jobs_free = max_jobs, ce_counters = counters_zero,
      ce_workers_limit = workers, ce_jobs_limit = max_jobs\<rparr>"

text \<open>\<^verbatim>\<open>fetch_add(1)\<close> and \<^verbatim>\<open>fetch_sub(1)\<close> on an \<^verbatim>\<open>AtomicU64\<close>.\<close>

definition atomic_inc :: "nat \<Rightarrow> nat" where
  "atomic_inc n = wrapping_add u64_max n 1"

definition atomic_dec :: "nat \<Rightarrow> nat" where
  "atomic_dec n = wrapping_add u64_max n u64_max"

abbreviation upd_counters :: "(cpu_counters \<Rightarrow> cpu_counters) \<Rightarrow> cpu_executor \<Rightarrow> cpu_executor" where
  "upd_counters f e \<equiv> e\<lparr>ce_counters := f (ce_counters e)\<rparr>"

definition count_outcome :: "cpu_outcome \<Rightarrow> cpu_counters \<Rightarrow> cpu_counters" where
  "count_outcome o' c =
     (case o' of
        CpuCompleted \<Rightarrow> c\<lparr>cc_completed := atomic_inc (cc_completed c)\<rparr>
      | CpuCancelled \<Rightarrow> c\<lparr>cc_cancelled := atomic_inc (cc_cancelled c)\<rparr>
      | CpuPanicked \<Rightarrow> c\<lparr>cc_panicked := atomic_inc (cc_panicked c)\<rparr>)"

section \<open>What a job does\<close>

text \<open>\<^verbatim>\<open>execute\<close>: a panicking cancellation check counts as cancelled and is reported; \<open>None\<close> is a panic.\<close>

definition execute_outcome :: "bool option \<Rightarrow> cpu_outcome option \<Rightarrow> cpu_outcome" where
  "execute_outcome cancelled work =
     (case cancelled of
        None \<Rightarrow> CpuPanicked
      | Some True \<Rightarrow> CpuCancelled
      | Some False \<Rightarrow> (case work of None \<Rightarrow> CpuPanicked | Some o' \<Rightarrow> o'))"

text \<open>\<^verbatim>\<open>drop\<close> of a job first destroys the captures, which may panic.\<close>

definition dropped_outcome :: "bool \<Rightarrow> bool \<Rightarrow> cpu_outcome \<Rightarrow> cpu_outcome" where
  "dropped_outcome work_panicked cancel_panicked o' =
     (if work_panicked \<or> cancel_panicked then CpuPanicked else o')"

definition cpu_report_panic :: "inner \<Rightarrow> actor_ref \<Rightarrow> state \<Rightarrow> failure_record rstep" where
  "cpu_report_panic w owner s =
     report_failure w owner None None None
       (failure_details_new Handler ''native_cpu'' ''RustPanic'' []) StopActor s"

section \<open>Jobs\<close>

text \<open>How far a reservation has got, between two atomic accesses.\<close>

datatype job_phase =
    JpPermitted
    \<comment> \<open>\<^verbatim>\<open>reserve\<close> holds a job permit\<close>
  | JpReserved
    \<comment> \<open>and is counted as queued\<close>
  | JpWaiting cpu_outcome
    \<comment> \<open>a \<^verbatim>\<open>CpuJob\<close>, counted as submitted\<close>
  | JpAcquired cpu_outcome
    \<comment> \<open>with a worker permit\<close>
  | JpLeaving cpu_outcome
    \<comment> \<open>in \<^verbatim>\<open>start\<close>, no longer queued\<close>
  | JpRunning cpu_outcome
    \<comment> \<open>counted as running\<close>
  | JpRan cpu_outcome
    \<comment> \<open>in \<^verbatim>\<open>drop\<close>, no longer running\<close>
  | JpAbandoned
    \<comment> \<open>dropped before it started, outcome counted, still queued\<close>
  | JpReleasing bool
    \<comment> \<open>only permits are left; with a worker permit?\<close>
  | JpWorker
    \<comment> \<open>the job permit is back, the worker permit is not\<close>

record cpu_system =
  cs_executor :: cpu_executor
  cs_jobs :: "job_phase list"

abbreviation move_job :: "nat \<Rightarrow> job_phase \<Rightarrow> (cpu_executor \<Rightarrow> cpu_executor) \<Rightarrow> cpu_system \<Rightarrow> cpu_system" where
  "move_job i p f x \<equiv> \<lparr>cs_executor = f (cs_executor x), cs_jobs = (cs_jobs x)[i := p]\<rparr>"

definition remove_job :: "nat \<Rightarrow> 'a list \<Rightarrow> 'a list" where
  "remove_job i xs = take i xs @ drop (Suc i) xs"

inductive cpu_step :: "cpu_system \<Rightarrow> cpu_system \<Rightarrow> bool" where
  reject:
    "ce_jobs_free (cs_executor x) = 0 \<Longrightarrow>
     cpu_step x (x\<lparr>cs_executor := upd_counters (\<lambda>c. c\<lparr>cc_rejected := atomic_inc (cc_rejected c)\<rparr>) (cs_executor x)\<rparr>)"
| permit:
    "ce_jobs_free (cs_executor x) = Suc n \<Longrightarrow>
     cpu_step x \<lparr>cs_executor = (cs_executor x)\<lparr>ce_jobs_free := n\<rparr>, cs_jobs = cs_jobs x @ [JpPermitted]\<rparr>"
| count_queued:
    "i < length (cs_jobs x) \<Longrightarrow> cs_jobs x ! i = JpPermitted \<Longrightarrow>
     cpu_step x (move_job i JpReserved (upd_counters (\<lambda>c. c\<lparr>cc_queued := atomic_inc (cc_queued c)\<rparr>)) x)"
| submit:
    "i < length (cs_jobs x) \<Longrightarrow> cs_jobs x ! i = JpReserved \<Longrightarrow>
     cpu_step x (move_job i (JpWaiting CpuCancelled)
       (upd_counters (\<lambda>c. c\<lparr>cc_submitted := atomic_inc (cc_submitted c)\<rparr>)) x)"
| unused:
    "i < length (cs_jobs x) \<Longrightarrow> cs_jobs x ! i = JpReserved \<Longrightarrow>
     cpu_step x (move_job i (JpReleasing False) (upd_counters (\<lambda>c. c\<lparr>cc_queued := atomic_dec (cc_queued c)\<rparr>)) x)"
| acquire:
    "i < length (cs_jobs x) \<Longrightarrow> cs_jobs x ! i = JpWaiting o' \<Longrightarrow> ce_workers_free (cs_executor x) = Suc n \<Longrightarrow>
     cpu_step x (move_job i (JpAcquired o') (\<lambda>e. e\<lparr>ce_workers_free := n\<rparr>) x)"
| leave_queue:
    "i < length (cs_jobs x) \<Longrightarrow> cs_jobs x ! i = JpAcquired o' \<Longrightarrow>
     cpu_step x (move_job i (JpLeaving o') (upd_counters (\<lambda>c. c\<lparr>cc_queued := atomic_dec (cc_queued c)\<rparr>)) x)"
| start:
    "i < length (cs_jobs x) \<Longrightarrow> cs_jobs x ! i = JpLeaving o' \<Longrightarrow>
     cpu_step x (move_job i (JpRunning o') (upd_counters (\<lambda>c. c\<lparr>cc_running := atomic_inc (cc_running c)\<rparr>)) x)"
| execute:
    "i < length (cs_jobs x) \<Longrightarrow> cs_jobs x ! i = JpRunning o' \<Longrightarrow>
     cpu_step x (move_job i (JpRan (dropped_outcome wp cp (execute_outcome cancelled work)))
       (upd_counters (\<lambda>c. c\<lparr>cc_running := atomic_dec (cc_running c)\<rparr>)) x)"
| abort_running:
    "i < length (cs_jobs x) \<Longrightarrow> cs_jobs x ! i = JpRunning o' \<Longrightarrow>
     cpu_step x (move_job i (JpRan (dropped_outcome wp cp o'))
       (upd_counters (\<lambda>c. c\<lparr>cc_running := atomic_dec (cc_running c)\<rparr>)) x)"
| abandon:
    "i < length (cs_jobs x) \<Longrightarrow> cs_jobs x ! i = JpWaiting o' \<Longrightarrow>
     cpu_step x (move_job i JpAbandoned (upd_counters (count_outcome (dropped_outcome wp cp o'))) x)"
| check_panics:
    "i < length (cs_jobs x) \<Longrightarrow> cs_jobs x ! i = JpWaiting o' \<Longrightarrow>
     cpu_step x (move_job i JpAbandoned (upd_counters (count_outcome CpuPanicked)) x)"
| count_result:
    "i < length (cs_jobs x) \<Longrightarrow> cs_jobs x ! i = JpRan o' \<Longrightarrow>
     cpu_step x (move_job i (JpReleasing True) (upd_counters (count_outcome o')) x)"
| leave_abandoned:
    "i < length (cs_jobs x) \<Longrightarrow> cs_jobs x ! i = JpAbandoned \<Longrightarrow>
     cpu_step x (move_job i (JpReleasing False) (upd_counters (\<lambda>c. c\<lparr>cc_queued := atomic_dec (cc_queued c)\<rparr>)) x)"
| return_permit:
    "i < length (cs_jobs x) \<Longrightarrow> cs_jobs x ! i = JpReleasing True \<Longrightarrow>
     cpu_step x (move_job i JpWorker (\<lambda>e. e\<lparr>ce_jobs_free := ce_jobs_free e + 1\<rparr>) x)"
| return_only_permit:
    "i < length (cs_jobs x) \<Longrightarrow> cs_jobs x ! i = JpReleasing False \<Longrightarrow>
     cpu_step x \<lparr>cs_executor = (cs_executor x)\<lparr>ce_jobs_free := ce_jobs_free (cs_executor x) + 1\<rparr>,
       cs_jobs = remove_job i (cs_jobs x)\<rparr>"
| return_worker:
    "i < length (cs_jobs x) \<Longrightarrow> cs_jobs x ! i = JpWorker \<Longrightarrow>
     cpu_step x \<lparr>cs_executor = (cs_executor x)\<lparr>ce_workers_free := ce_workers_free (cs_executor x) + 1\<rparr>,
       cs_jobs = remove_job i (cs_jobs x)\<rparr>"

text \<open>\<^verbatim>\<open>new_with_cpu_config\<close> bounds the configuration.\<close>

definition cpu_config_ok :: "nat \<Rightarrow> nat \<Rightarrow> bool" where
  "cpu_config_ok workers max_jobs \<longleftrightarrow> 1 \<le> workers \<and> workers \<le> 64 \<and> 1 \<le> max_jobs \<and> max_jobs \<le> 4096"

definition cpu_init :: "nat \<Rightarrow> nat \<Rightarrow> cpu_system \<Rightarrow> bool" where
  "cpu_init workers max_jobs x \<longleftrightarrow> cpu_config_ok workers max_jobs
     \<and> x = \<lparr>cs_executor = cpu_new workers max_jobs, cs_jobs = []\<rparr>"

section \<open>Accounting\<close>

fun is_queued :: "job_phase \<Rightarrow> bool" where
  "is_queued JpReserved = True"
| "is_queued (JpWaiting o') = True"
| "is_queued (JpAcquired o') = True"
| "is_queued JpAbandoned = True"
| "is_queued _ = False"

fun is_running :: "job_phase \<Rightarrow> bool" where
  "is_running (JpRunning o') = True"
| "is_running _ = False"

fun has_permit :: "job_phase \<Rightarrow> bool" where
  "has_permit JpWorker = False"
| "has_permit _ = True"

fun has_worker :: "job_phase \<Rightarrow> bool" where
  "has_worker (JpAcquired o') = True"
| "has_worker (JpLeaving o') = True"
| "has_worker (JpRunning o') = True"
| "has_worker (JpRan o') = True"
| "has_worker (JpReleasing b) = b"
| "has_worker JpWorker = True"
| "has_worker _ = False"

fun is_undecided :: "job_phase \<Rightarrow> bool" where
  "is_undecided (JpWaiting o') = True"
| "is_undecided (JpAcquired o') = True"
| "is_undecided (JpLeaving o') = True"
| "is_undecided (JpRunning o') = True"
| "is_undecided (JpRan o') = True"
| "is_undecided _ = False"

definition tally :: "('a \<Rightarrow> bool) \<Rightarrow> 'a list \<Rightarrow> nat" where
  "tally P xs = length (filter P xs)"

definition decided :: "cpu_counters \<Rightarrow> nat" where
  "decided c = cc_completed c + cc_cancelled c + cc_panicked c"

definition cpu_inv :: "nat \<Rightarrow> nat \<Rightarrow> cpu_system \<Rightarrow> bool" where
  "cpu_inv workers max_jobs x \<longleftrightarrow>
     (let e = cs_executor x; c = ce_counters e; js = cs_jobs x
      in cpu_config_ok workers max_jobs
         \<and> ce_workers_limit e = workers \<and> ce_jobs_limit e = max_jobs
         \<and> ce_jobs_free e + tally has_permit js = max_jobs
         \<and> ce_workers_free e + tally has_worker js = workers
         \<and> cc_queued c = tally is_queued js \<and> cc_running c = tally is_running js
         \<and> (decided c + tally is_undecided js) mod (u64_max + 1) = cc_submitted c)"

lemma tally_update:
  "i < length xs \<Longrightarrow> tally P (xs[i := p]) + (if P (xs ! i) then 1 else 0) = tally P xs + (if P p then 1 else 0)"
  unfolding tally_def by (rule length_filter_update)

lemma tally_remove:
  assumes "i < length xs"
  shows "tally P (remove_job i xs) + (if P (xs ! i) then 1 else 0) = tally P xs"
proof -
  have "xs = take i xs @ xs ! i # drop (Suc i) xs" using assms by (rule id_take_nth_drop)
  then have "tally P xs = length (filter P (take i xs)) + length (filter P (xs ! i # drop (Suc i) xs))"
    unfolding tally_def by (metis filter_append length_append)
  then show ?thesis by (simp add: remove_job_def tally_def)
qed

lemma tally_append [simp]: "tally P (xs @ [p]) = tally P xs + (if P p then 1 else 0)"
  by (simp add: tally_def)

lemma tally_mono: "(\<And>x. P x \<Longrightarrow> Q x) \<Longrightarrow> tally P xs \<le> tally Q xs"
  by (induction xs) (auto simp: tally_def le_SucI)

lemma tally_pos: "i < length xs \<Longrightarrow> P (xs ! i) \<Longrightarrow> 0 < tally P xs"
  by (auto simp: tally_def filter_empty_conv)

lemma queued_permit: "is_queued p \<Longrightarrow> has_permit p"
  by (cases p) simp_all

lemma running_worker: "is_running p \<Longrightarrow> has_worker p"
  by (cases p) simp_all

lemma atomic_inc_small: "n < u64_max \<Longrightarrow> atomic_inc n = n + 1"
  by (simp add: atomic_inc_def wrapping_add_def)

lemma atomic_dec_small: "0 < n \<Longrightarrow> n \<le> u64_max \<Longrightarrow> atomic_dec n = n - 1"
  by (cases n) (simp_all add: atomic_dec_def wrapping_add_def flip: add_Suc_right)

lemma decided_count: "(decided (count_outcome o' c) + k) mod (u64_max + 1) = (decided c + (k + 1)) mod (u64_max + 1)"
proof -
  have "\<exists>m. decided c + (k + 1) = decided (count_outcome o' c) + k + m * (u64_max + 1)"
  proof -
    have inc: "\<exists>m. n + 1 = atomic_inc n + m * (u64_max + 1)" for n
      using mod_div_mult_eq [of "n + 1" "Suc u64_max"] unfolding atomic_inc_def wrapping_add_def
      by (metis Suc_eq_plus1)
    show ?thesis
      using inc [of "cc_completed c"] inc [of "cc_cancelled c"] inc [of "cc_panicked c"]
      by (cases o') (auto simp: count_outcome_def decided_def)
  qed
  then show ?thesis by (metis mod_mult_self1)
qed

lemma decided_fields [simp]:
  "decided (c\<lparr>cc_queued := n\<rparr>) = decided c" "decided (c\<lparr>cc_running := n\<rparr>) = decided c"
  "decided (c\<lparr>cc_submitted := n\<rparr>) = decided c" "decided (c\<lparr>cc_rejected := n\<rparr>) = decided c"
  by (simp_all add: decided_def)

lemma count_outcome_fields [simp]:
  "cc_queued (count_outcome o' c) = cc_queued c" "cc_running (count_outcome o' c) = cc_running c"
  "cc_submitted (count_outcome o' c) = cc_submitted c"
  by (simp_all add: count_outcome_def split: cpu_outcome.splits)

lemma bounded_tallies:
  assumes "cpu_inv workers max_jobs x"
  shows "tally is_queued (cs_jobs x) \<le> 4096" "tally is_running (cs_jobs x) \<le> 64"
    "tally is_running (cs_jobs x) \<le> workers" "tally is_queued (cs_jobs x) \<le> max_jobs"
  using assms tally_mono [of is_queued has_permit "cs_jobs x", OF queued_permit]
    tally_mono [of is_running has_worker "cs_jobs x", OF running_worker]
  by (auto simp: cpu_inv_def cpu_config_ok_def Let_def)

text \<open>A job that moves changes the tallies by what it gains and loses; the counters follow.\<close>

lemma move_inv:
  assumes inv: "cpu_inv workers max_jobs x" and i: "i < length (cs_jobs x)" "cs_jobs x ! i = q"
    and p: "has_permit p = has_permit q"
    and limits: "ce_workers_limit (f (cs_executor x)) = ce_workers_limit (cs_executor x)"
      "ce_jobs_limit (f (cs_executor x)) = ce_jobs_limit (cs_executor x)"
      "ce_jobs_free (f (cs_executor x)) = ce_jobs_free (cs_executor x)"
    and workers: "ce_workers_free (f (cs_executor x)) + (if has_worker p then 1 else 0)
        = ce_workers_free (cs_executor x) + (if has_worker q then 1 else 0)"
    and queued: "cc_queued (ce_counters (f (cs_executor x))) + (if is_queued q then 1 else 0)
        = cc_queued (ce_counters (cs_executor x)) + (if is_queued p then 1 else 0)"
    and running: "cc_running (ce_counters (f (cs_executor x))) + (if is_running q then 1 else 0)
        = cc_running (ce_counters (cs_executor x)) + (if is_running p then 1 else 0)"
    and dec: "\<And>k. (decided (ce_counters (cs_executor x)) + (k + (if is_undecided q then 1 else 0))) mod (u64_max + 1)
          = cc_submitted (ce_counters (cs_executor x)) \<Longrightarrow>
        (decided (ce_counters (f (cs_executor x))) + (k + (if is_undecided p then 1 else 0))) mod (u64_max + 1)
          = cc_submitted (ce_counters (f (cs_executor x)))"
  shows "cpu_inv workers max_jobs (move_job i p f x)"
proof -
  let ?js = "cs_jobs x" and ?us = "(cs_jobs x)[i := p]"
  note u = tally_update [OF i(1), of _ p, unfolded i(2)]
  define k where "k = tally is_undecided ?js - (if is_undecided q then 1 else 0)"
  have k: "tally is_undecided ?js = k + (if is_undecided q then 1 else 0)"
    using tally_pos [OF i(1), of is_undecided] i(2) by (auto simp: k_def)
  then have k': "tally is_undecided ?us = k + (if is_undecided p then 1 else 0)" using u [of is_undecided] by simp
  have d: "(decided (ce_counters (f (cs_executor x))) + tally is_undecided ?us) mod (u64_max + 1)
      = cc_submitted (ce_counters (f (cs_executor x)))"
    unfolding k' by (rule dec) (use inv in \<open>simp add: cpu_inv_def Let_def k\<close>)
  show ?thesis
    using inv u [of has_permit] u [of has_worker] u [of is_queued] u [of is_running] d p limits workers queued running
    unfolding cpu_inv_def Let_def by simp
qed

lemma inc_counter: "n \<le> 4096 \<Longrightarrow> atomic_inc n = n + 1"
  by (rule atomic_inc_small) (simp add: u64_max_def)

lemma dec_counter: "0 < n \<Longrightarrow> n \<le> 4096 \<Longrightarrow> atomic_dec n = n - 1"
  by (rule atomic_dec_small) (simp_all add: u64_max_def)

lemma counters_small:
  assumes "cpu_inv workers max_jobs x"
  shows "cc_queued (ce_counters (cs_executor x)) \<le> 4096" "cc_running (ce_counters (cs_executor x)) \<le> 4096"
    "\<And>i. i < length (cs_jobs x) \<Longrightarrow> is_queued (cs_jobs x ! i) \<Longrightarrow> 0 < cc_queued (ce_counters (cs_executor x))"
    "\<And>i. i < length (cs_jobs x) \<Longrightarrow> is_running (cs_jobs x ! i) \<Longrightarrow> 0 < cc_running (ce_counters (cs_executor x))"
  using assms bounded_tallies [OF assms] tally_pos [of _ "cs_jobs x"]
  by (auto simp: cpu_inv_def Let_def)

lemma decided_submit:
  "(decided c + k) mod (u64_max + 1) = n \<Longrightarrow> (decided c + (k + 1)) mod (u64_max + 1) = atomic_inc n"
  unfolding atomic_inc_def wrapping_add_def by (auto simp: mod_Suc_eq)

lemma cpu_step_inv: "cpu_step x y \<Longrightarrow> cpu_inv workers max_jobs x \<Longrightarrow> cpu_inv workers max_jobs y"
proof (induction rule: cpu_step.induct)
  case (reject x)
  then show ?case by (simp add: cpu_inv_def Let_def)
next
  case (permit x n)
  then show ?case by (simp add: cpu_inv_def Let_def)
next
  case (count_queued i x)
  show ?case
    by (rule move_inv [OF count_queued(3,1,2)]) (simp_all add: inc_counter counters_small [OF count_queued(3)])
next
  case (submit i x)
  show ?case
    by (rule move_inv [OF submit(3,1,2)]) (simp_all add: decided_submit [simplified])
next
  case (unused i x)
  have "0 < cc_queued (ce_counters (cs_executor x))" using counters_small(3) [OF unused(3,1)] unused(2) by simp
  then show ?case
    by (intro move_inv [OF unused(3,1,2)]) (simp_all add: dec_counter counters_small [OF unused(3)])
next
  case (acquire i x o' n)
  show ?case by (rule move_inv [OF acquire(4,1,2)]) (use acquire(3) in simp_all)
next
  case (leave_queue i x o')
  have "0 < cc_queued (ce_counters (cs_executor x))" using counters_small(3) [OF leave_queue(3,1)] leave_queue(2) by simp
  then show ?case
    by (intro move_inv [OF leave_queue(3,1,2)]) (simp_all add: dec_counter counters_small [OF leave_queue(3)])
next
  case (start i x o')
  show ?case
    by (rule move_inv [OF start(3,1,2)]) (simp_all add: inc_counter counters_small [OF start(3)])
next
  case (execute i x o' wp cp cancelled work)
  have "0 < cc_running (ce_counters (cs_executor x))" using counters_small(4) [OF execute(3,1)] execute(2) by simp
  then show ?case
    by (intro move_inv [OF execute(3,1,2)]) (simp_all add: dec_counter counters_small [OF execute(3)])
next
  case (abort_running i x o' wp cp)
  have "0 < cc_running (ce_counters (cs_executor x))" using counters_small(4) [OF abort_running(3,1)] abort_running(2) by simp
  then show ?case
    by (intro move_inv [OF abort_running(3,1,2)]) (simp_all add: dec_counter counters_small [OF abort_running(3)])
next
  case (abandon i x o' wp cp)
  show ?case by (rule move_inv [OF abandon(3,1,2)]) (simp_all add: decided_count [simplified])
next
  case (check_panics i x o')
  show ?case by (rule move_inv [OF check_panics(3,1,2)]) (simp_all add: decided_count [simplified])
next
  case (count_result i x o')
  show ?case by (rule move_inv [OF count_result(3,1,2)]) (simp_all add: decided_count [simplified])
next
  case (leave_abandoned i x)
  have "0 < cc_queued (ce_counters (cs_executor x))" using counters_small(3) [OF leave_abandoned(3,1)] leave_abandoned(2) by simp
  then show ?case
    by (intro move_inv [OF leave_abandoned(3,1,2)]) (simp_all add: dec_counter counters_small [OF leave_abandoned(3)])
next
  case (return_permit i x)
  note u = tally_update [OF return_permit(1), of _ JpWorker, unfolded return_permit(2)]
  show ?case
    using return_permit(3) u [of has_permit] u [of has_worker] u [of is_queued] u [of is_running] u [of is_undecided]
    by (simp add: cpu_inv_def Let_def)
next
  case (return_only_permit i x)
  note u = tally_remove [OF return_only_permit(1), unfolded return_only_permit(2)]
  show ?case
    using return_only_permit(3) u [of has_permit] u [of has_worker] u [of is_queued] u [of is_running] u [of is_undecided]
    by (simp add: cpu_inv_def Let_def)
next
  case (return_worker i x)
  note u = tally_remove [OF return_worker(1), unfolded return_worker(2)]
  show ?case
    using return_worker(3) u [of has_permit] u [of has_worker] u [of is_queued] u [of is_running] u [of is_undecided]
    by (simp add: cpu_inv_def Let_def)
qed

interpretation cpu: invariant_system "cpu_init workers max_jobs" cpu_step "cpu_inv workers max_jobs"
  for workers max_jobs
proof unfold_locales
  show "cpu_init workers max_jobs x \<Longrightarrow> cpu_inv workers max_jobs x" for x
    by (auto simp: cpu_init_def cpu_inv_def cpu_new_def counters_zero_def tally_def decided_def Let_def)
qed (rule cpu_step_inv)

section \<open>Properties\<close>

text \<open>C27. The pool's counters never lie. Under any interleaving of submitters, workers, cancellations, aborts and
  panics, at most \<^verbatim>\<open>max_jobs\<close> reservations hold a permit and at most \<^verbatim>\<open>workers\<close> jobs run; the queued and running
  counters equal the jobs in those phases and never underflow; every submitted job is counted under exactly one
  outcome or still undecided (modulo the width of the counters); and when no job is left, the pool is as new.\<close>

theorem cpu_counters_exact:
  assumes "reachable (cpu_init workers max_jobs) cpu_step x"
  shows "cc_queued (ce_counters (cs_executor x)) = tally is_queued (cs_jobs x)
    \<and> cc_running (ce_counters (cs_executor x)) = tally is_running (cs_jobs x)
    \<and> tally is_running (cs_jobs x) \<le> workers \<and> tally has_permit (cs_jobs x) \<le> max_jobs
    \<and> (decided (ce_counters (cs_executor x)) + tally is_undecided (cs_jobs x)) mod (u64_max + 1)
        = cc_submitted (ce_counters (cs_executor x))
    \<and> (cs_jobs x = [] \<longrightarrow> ce_jobs_free (cs_executor x) = max_jobs \<and> ce_workers_free (cs_executor x) = workers)"
  using cpu.reachable_invar [OF assms] bounded_tallies(3) [OF cpu.reachable_invar [OF assms]]
  by (auto simp: cpu_inv_def Let_def tally_def)

definition cpu_demo :: cpu_system where
  "cpu_demo = \<lparr>cs_executor = \<lparr>ce_workers_free = 1, ce_jobs_free = 0,
       ce_counters = counters_zero\<lparr>cc_queued := 1, cc_submitted := 1\<rparr>, ce_workers_limit = 1, ce_jobs_limit = 1\<rparr>,
     cs_jobs = [JpWaiting CpuCancelled]\<rparr>"

lemma cpu_demo_reachable: "reachable (cpu_init 1 1) cpu_step cpu_demo"
proof -
  let ?x = "\<lparr>cs_executor = cpu_new 1 1, cs_jobs = []\<rparr>"
  have "reachable (cpu_init 1 1) cpu_step ?x" by (rule reachable_init) (simp add: cpu_init_def cpu_config_ok_def)
  from reachable_step [OF this permit [of ?x 0]]
  have "reachable (cpu_init 1 1) cpu_step
      \<lparr>cs_executor = (cpu_new 1 1)\<lparr>ce_jobs_free := 0\<rparr>, cs_jobs = [JpPermitted]\<rparr>" by (simp add: cpu_new_def)
  from reachable_step [OF this count_queued [of 0]]
  have "reachable (cpu_init 1 1) cpu_step \<lparr>cs_executor = upd_counters (\<lambda>c. c\<lparr>cc_queued := 1\<rparr>)
      ((cpu_new 1 1)\<lparr>ce_jobs_free := 0\<rparr>), cs_jobs = [JpReserved]\<rparr>"
    by (simp add: cpu_new_def counters_zero_def inc_counter)
  from reachable_step [OF this submit [of 0]] show ?thesis
    by (simp add: cpu_demo_def cpu_new_def counters_zero_def inc_counter)
qed

theorem cpu_counters_exact_witness:
  "cc_queued (ce_counters (cs_executor cpu_demo)) = tally is_queued [JpWaiting CpuCancelled]
   \<and> cc_submitted (ce_counters (cs_executor cpu_demo)) = 1"
  using cpu_counters_exact [OF cpu_demo_reachable] by (simp add: cpu_demo_def)

end
