(* ===== verification/Native_Config.thy ===== *)
theory Native_Config
  imports Schema_Types Components Failures
begin

text \<open>
  Configuration of native components, \<^verbatim>\<open>crates/runtime-native/src/sdk_config.rs\<close>: the limits of a component, its
  specification, and the validation of a configuration value, which the component receives re-decoded from
  its canonical bytes. A \<^verbatim>\<open>Duration\<close> is its number of nanoseconds.
\<close>

section \<open>Limits and errors\<close>

type_synonym duration = nat

definition DAY :: duration where
  "DAY = 86400000000000"

datatype native_error =
    NeCore error
  | NeSchema schema_error
  | NeLimit bytes
  | NeApplication bytes
  | NePanic

type_synonym 'a native_result = "native_error + 'a"

definition error_code :: "native_error \<Rightarrow> bytes" where
  "error_code e =
     (case e of NeCore _ \<Rightarrow> ''CoreError'' | NeSchema _ \<Rightarrow> ''SchemaError'' | NeLimit _ \<Rightarrow> ''LimitExceeded''
      | NeApplication code \<Rightarrow> code | NePanic \<Rightarrow> ''NativePanic'')"

text \<open>\<^verbatim>\<open>?\<close> through the two \<^verbatim>\<open>From\<close> implementations.\<close>

definition core_err :: "'a result \<Rightarrow> 'a native_result" where
  "core_err r = (case r of Inl e \<Rightarrow> Inl (NeCore e) | Inr a \<Rightarrow> Inr a)"

definition schema_err :: "'a sresult \<Rightarrow> 'a native_result" where
  "schema_err r = (case r of Inl e \<Rightarrow> Inl (NeSchema e) | Inr a \<Rightarrow> Inr a)"

lemma err_simps [simp]:
  "core_err (Inl e) = Inl (NeCore e)" "core_err (Inr a) = Inr a"
  "schema_err (Inl e') = Inl (NeSchema e')" "schema_err (Inr a) = Inr a"
  by (simp_all add: core_err_def schema_err_def)

record native_limits =
  nl_events_per_turn :: nat
  nl_effects_per_callback :: nat
  nl_max_jobs :: nat
  nl_max_job_input_bytes :: nat
  nl_max_config_bytes :: nat

definition default_limits :: native_limits where
  "default_limits = \<lparr>nl_events_per_turn = 32, nl_effects_per_callback = 64, nl_max_jobs = 8,
     nl_max_job_input_bytes = 32768, nl_max_config_bytes = 16384\<rparr>"

definition limits_validate :: "native_limits \<Rightarrow> unit native_result" where
  "limits_validate l =
     (if \<not> (1 \<le> nl_events_per_turn l \<and> nl_events_per_turn l \<le> 1024) then Inl (NeLimit ''events_per_turn'')
      else if \<not> (1 \<le> nl_effects_per_callback l \<and> nl_effects_per_callback l \<le> 1024)
      then Inl (NeLimit ''effects_per_callback'')
      else if nl_max_jobs l > 1024 then Inl (NeLimit ''max_jobs'')
      else if nl_max_jobs l > 0 \<and> nl_max_job_input_bytes l = 0 then Inl (NeLimit ''max_job_input_bytes'')
      else if nl_max_job_input_bytes l > 1048576 then Inl (NeLimit ''max_job_input_bytes'')
      else if \<not> (1 \<le> nl_max_config_bytes l \<and> nl_max_config_bytes l \<le> 65536) then Inl (NeLimit ''max_config_bytes'')
      else Inr ())"

section \<open>Specifications\<close>

datatype drain_policy = Producer | Consumer

record native_spec =
  ns_descriptor :: component_descriptor
  ns_configuration :: schema
  ns_limits :: native_limits
  ns_period :: "duration option"
  ns_drain :: drain_policy
  ns_failure_action :: failure_action

definition native_spec_new :: "component_descriptor \<Rightarrow> schema \<Rightarrow> native_spec" where
  "native_spec_new descriptor configuration =
     \<lparr>ns_descriptor = descriptor, ns_configuration = configuration, ns_limits = default_limits,
      ns_period = None, ns_drain = Consumer, ns_failure_action = StopActor\<rparr>"

definition validate_config :: "native_spec \<Rightarrow> val \<Rightarrow> val native_result" where
  "validate_config spec v =
     bindR (limits_validate (ns_limits spec)) (\<lambda>_.
       if ns_drain spec = Producer \<and> list_ex (\<lambda>p. ps_direction p = Input) (cd_ports (ns_descriptor spec))
       then Inl (NeApplication ''ProducerHasInputPorts'')
       else if (case ns_period spec of None \<Rightarrow> False | Some period \<Rightarrow> period = 0 \<or> period > DAY)
       then Inl (NeLimit ''period'')
       else
         bindR (schema_err (schema_validate (ns_configuration spec))) (\<lambda>_.
         bindR (schema_err (schema_encode (ns_configuration spec) v (nl_max_config_bytes (ns_limits spec)))) (\<lambda>bytes.
           schema_err (schema_decode (ns_configuration spec) bytes))))"

lemma schema_err_Inr [simp]: "schema_err r = Inr a \<longleftrightarrow> r = Inr a"
  by (cases r) simp_all

lemma validate_config_Inr:
  "validate_config spec v = Inr v' \<longleftrightarrow>
     is_ok (limits_validate (ns_limits spec))
     \<and> \<not> (ns_drain spec = Producer \<and> list_ex (\<lambda>p. ps_direction p = Input) (cd_ports (ns_descriptor spec)))
     \<and> (case ns_period spec of None \<Rightarrow> True | Some period \<Rightarrow> 0 < period \<and> period \<le> DAY)
     \<and> is_ok (schema_validate (ns_configuration spec))
     \<and> (\<exists>bs. schema_encode (ns_configuration spec) v (nl_max_config_bytes (ns_limits spec)) = Inr bs
          \<and> schema_decode (ns_configuration spec) bs = Inr v')"
  by (cases "limits_validate (ns_limits spec)"; cases "schema_validate (ns_configuration spec)")
    (auto simp: validate_config_def bindR_Inr_iff split: option.splits)

lemma limits_config_bytes: "is_ok (limits_validate l) \<Longrightarrow> nl_max_config_bytes l \<le> 65536"
  by (auto simp: limits_validate_def split: if_splits)

section \<open>Properties\<close>

text \<open>A component receives its configuration in canonical form. When \<^verbatim>\<open>validate_config\<close> accepts a value, the
  component gets that value with NaNs made canonical, of the type of the configuration schema; its bytes are
  within the component's limit; and validating the result again returns it unchanged, so that the handle's
  specification can be reused.\<close>

theorem validate_config_canonical:
  assumes "validate_config spec v = Inr v'" "value_ok v"
  shows "v' = canon v \<and> record_type (ns_configuration spec) v' \<and> validate_config spec v' = Inr v'
    \<and> (\<exists>bs. schema_encode (ns_configuration spec) v' (nl_max_config_bytes (ns_limits spec)) = Inr bs
         \<and> length bs \<le> nl_max_config_bytes (ns_limits spec) \<and> length bs \<le> 65536)"
proof -
  from assms(1) obtain bs where bs: "is_ok (limits_validate (ns_limits spec))"
      "schema_encode (ns_configuration spec) v (nl_max_config_bytes (ns_limits spec)) = Inr bs"
      "schema_decode (ns_configuration spec) bs = Inr v'" by (auto simp: validate_config_Inr)
  note e = encode_decodes [OF bs(2) assms(2)]
  have lim: "nl_max_config_bytes (ns_limits spec) \<le> 65536" by (rule limits_config_bytes [OF bs(1)])
  have "schema_encode (ns_configuration spec) v' (nl_max_config_bytes (ns_limits spec)) = Inr bs"
    using decode_encodes [OF bs(3)] e lim by (simp add: EVENT_MAX_def)
  moreover from this have "validate_config spec v' = Inr v'" using assms(1) bs by (simp add: validate_config_Inr)
  ultimately show ?thesis using e bs lim decode_typed by auto
qed

definition demo_spec :: native_spec where
  "demo_spec = native_spec_new \<lparr>cd_name = ''c'', cd_version = 1, cd_ports = [], cd_interfaces = []\<rparr> demo_schema"

theorem validate_config_canonical_witness: "validate_config demo_spec demo_value = Inr (canon demo_value)"
proof -
  have "\<exists>v'. validate_config demo_spec demo_value = Inr v'"
    unfolding validate_config_Inr
    by (simp add: demo_spec_def native_spec_new_def default_limits_def limits_validate_def demo_bytes_def
        schema_encode_def schema_validate_def demo_schema_def demo_value_def
        schema_decode_def schema_read_def rd_node_def rd_take_def rd_u32_def from_le_le_bytes i64_of_def
        utf8_valid.simps scalar_def utf8_width_def
        EVENT_MAX_def wr_node_def wr_add_def checked_add_def usize_max_def u64_max_def u64_of_def numeral_2_eq_2)
  then obtain v' where v': "validate_config demo_spec demo_value = Inr v'" ..
  with validate_config_canonical [OF v' demo_value_ok] show ?thesis by simp
qed

end
