(* ===== verification/Native_Context.thy ===== *)
theory Native_Context
  imports Cpu Native_Config
begin

text \<open>
  What a native component may do, \<^verbatim>\<open>NativeContext\<close> of \<^verbatim>\<open>crates/runtime-native/src/sdk.rs\<close> and the task service of
  \<^verbatim>\<open>tasks.rs\<close>: every effect of a hook passes a gate that charges the callback's allowance, inherits the metadata of
  the delivery that is being handled, and reserves every bounded resource before it hands work over.

  The state of a runtime is the World's state with the permits of its semaphores. A hook reads and writes it through
  the methods below; each World call in a method is one step of the World, read here without interference.
\<close>

section \<open>State\<close>

datatype phase = PhStartup | PhEvent | PhTick | PhSupervisor | PhQuiesce | PhDrain | PhStop

record native_stats =
  nst_turns :: nat
  nst_handled :: nat
  nst_ticks :: nat
  nst_effects_attempted :: nat
  nst_jobs_submitted :: nat

definition stats_zero :: native_stats where
  "stats_zero = \<lparr>nst_turns = 0, nst_handled = 0, nst_ticks = 0, nst_effects_attempted = 0, nst_jobs_submitted = 0\<rparr>"

text \<open>Work handed to the runtime: a deferred reply, on an async task or a blocking thread, or a timer. Each holds a
  runtime permit and a tracked task of its owner; replies and component timers hold a job permit.\<close>

record job =
  jb_owner :: actor_ref
  jb_operation :: operation_id
  jb_deadline :: instant
  jb_input :: held_payload
  jb_envelope :: "envelope option"
  jb_output :: "nat option"

record timer =
  tm_owner :: actor_ref
  tm_target :: actor_ref
  tm_delay :: duration
  tm_held :: held_payload
  tm_local :: bool

datatype work_item = WiJob job | WiCpu job | WiTimer timer

record native =
  nt_world :: state
  nt_stats :: native_stats
  nt_jobs :: nat
  nt_slots :: nat
  nt_slots_closed :: bool
  nt_cpu :: "cpu_executor option"
  nt_tasks :: "work_item list"

record execution =
  ex_owner :: actor_ref
  ex_spec :: native_spec

record native_context =
  cx_phase :: phase
  cx_delivery :: "delivery_lease option"
  cx_remaining :: nat
  cx_deferred :: bool

definition new_context :: "execution \<Rightarrow> phase \<Rightarrow> delivery_lease option \<Rightarrow> native_context" where
  "new_context ex phase delivery =
     \<lparr>cx_phase = phase, cx_delivery = delivery,
      cx_remaining = nl_effects_per_callback (ns_limits (ex_spec ex)), cx_deferred = False\<rparr>"

definition cx_envelope :: "native_context \<Rightarrow> envelope option" where
  "cx_envelope cx = map_option (\<lambda>l. d_envelope (dl_delivery l)) (cx_delivery cx)"

definition cx_operation :: "native_context \<Rightarrow> operation_id option" where
  "cx_operation cx = Option.bind (cx_delivery cx) dl_operation"

text \<open>A method on runtime and context; \<open>None\<close> is a panic of the runtime itself. \<open>nthen\<close> is \<^verbatim>\<open>?\<close>.\<close>

type_synonym 'a nstep = "(native \<times> native_context \<times> 'a native_result) option"

definition nthen :: "'a nstep \<Rightarrow> (native \<Rightarrow> native_context \<Rightarrow> 'a \<Rightarrow> 'b nstep) \<Rightarrow> 'b nstep" where
  "nthen m k = (case m of None \<Rightarrow> None
     | Some (n, cx, r) \<Rightarrow> (case r of Inl e \<Rightarrow> Some (n, cx, Inl e) | Inr a \<Rightarrow> k n cx a))"

text \<open>A World method, and a query of the World.\<close>

definition ncall :: "(state \<Rightarrow> 'a rstep) \<Rightarrow> native \<Rightarrow> native_context \<Rightarrow> 'a nstep" where
  "ncall f n cx = map_option (\<lambda>(s, r). (n\<lparr>nt_world := s\<rparr>, cx, core_err r)) (f (nt_world n))"

definition nask :: "'a native_result \<Rightarrow> native \<Rightarrow> native_context \<Rightarrow> 'a nstep" where
  "nask r n cx = Some (n, cx, r)"

lemma nthen_simps [simp]:
  "nthen None k = None" "nthen (Some (n, cx, Inl e)) k = Some (n, cx, Inl e)" "nthen (Some (n, cx, Inr a)) k = k n cx a"
  by (simp_all add: nthen_def)

section \<open>The gate\<close>

definition effect :: "native \<Rightarrow> native_context \<Rightarrow> unit nstep" where
  "effect n cx =
     (let st = nt_stats n;
          n1 = n\<lparr>nt_stats := st\<lparr>nst_effects_attempted := saturating_add u64_max (nst_effects_attempted st) 1\<rparr>\<rparr>
      in if cx_phase cx = PhStop then Some (n1, cx, Inl (NeCore ActorStopped))
         else if cx_remaining cx = 0 then Some (n1, cx, Inl (NeLimit ''callback effects''))
         else Some (n1, cx\<lparr>cx_remaining := cx_remaining cx - 1\<rparr>, Inr ()))"

text \<open>\<^verbatim>\<open>NativeContext::options\<close>: the delivery's metadata, overridden where the caller says so; a deadline can only move
  earlier, and the source is the owner.\<close>

definition cx_options ::
  "execution \<Rightarrow> native_context \<Rightarrow> message_options \<Rightarrow> message_options native_result" where
  "cx_options ex cx opts =
     bindR (core_err (options_validate opts)) (\<lambda>_.
       if (case mo_source opts of None \<Rightarrow> False | Some source \<Rightarrow> source \<noteq> ex_owner ex)
       then Inl (NeCore InvalidMetadata)
       else
         (let base = (case cx_envelope cx of None \<Rightarrow> default_options | Some e \<Rightarrow> child_options e (ex_owner ex))
          in Inr (merge_options (base\<lparr>mo_source := Some (ex_owner ex)\<rparr>) opts)))"

definition new_work :: "inner \<Rightarrow> execution \<Rightarrow> native \<Rightarrow> native_context \<Rightarrow> unit nstep" where
  "new_work w ex n cx =
     (if cx_phase cx \<notin> {PhStartup, PhEvent, PhTick, PhSupervisor} then nask (Inl (NeCore ActorStopped)) n cx
      else case execution_state w (ex_owner ex) (nt_world n) of
        None \<Rightarrow> None
      | Some r \<Rightarrow>
          nthen (nask (core_err r) n cx) (\<lambda>n cx l.
            nask (if l = Starting \<or> l = Active then Inr () else Inl (NeCore ActorStopped)) n cx))"

section \<open>Messages\<close>

definition emit_with ::
  "inner \<Rightarrow> execution \<Rightarrow> bytes \<Rightarrow> payload \<Rightarrow> message_options \<Rightarrow> native \<Rightarrow> native_context \<Rightarrow> nat nstep" where
  "emit_with w ex name p opts n cx =
     nthen (effect n cx) (\<lambda>n cx _.
     nthen (nask (core_err (port w (ex_owner ex) name (nt_world n))) n cx) (\<lambda>n cx output.
     nthen (nask (cx_options ex cx opts) n cx) (\<lambda>n cx opts.
       case cx_delivery cx of
         Some delivery \<Rightarrow> ncall (lease_publish_port_completion_with w delivery output p opts) n cx
       | None \<Rightarrow>
           if cx_phase cx \<in> {PhTick, PhDrain, PhQuiesce}
           then ncall (task_publish_port_completion_with w (ex_owner ex) output p opts) n cx
           else ncall (publish_port_with w output p opts) n cx)))"

definition emit :: "inner \<Rightarrow> execution \<Rightarrow> bytes \<Rightarrow> payload \<Rightarrow> native \<Rightarrow> native_context \<Rightarrow> nat nstep" where
  "emit w ex name p n cx = emit_with w ex name p default_options n cx"

definition cx_send ::
  "inner \<Rightarrow> execution \<Rightarrow> actor_ref \<Rightarrow> payload \<Rightarrow> message_options \<Rightarrow> native \<Rightarrow> native_context \<Rightarrow> nat nstep" where
  "cx_send w ex target p opts n cx =
     nthen (effect n cx) (\<lambda>n cx _.
     nthen (new_work w ex n cx) (\<lambda>n cx _.
     nthen (nask (cx_options ex cx opts) n cx) (\<lambda>n cx opts.
       ncall (send_with w target p opts) n cx)))"

definition reply :: "inner \<Rightarrow> execution \<Rightarrow> payload \<Rightarrow> native \<Rightarrow> native_context \<Rightarrow> bool nstep" where
  "reply w ex p n cx =
     nthen (effect n cx) (\<lambda>n cx _.
       if cx_deferred cx then nask (Inl (NeApplication ''ReplyAlreadyDeferred'')) n cx
       else nthen (nask (ok_or (NeApplication ''NotARequest'') (cx_operation cx)) n cx) (\<lambda>n cx oid.
              ncall (complete_operation_with w oid (ex_owner ex) p None) n cx))"

section \<open>Permits\<close>

text \<open>\<^verbatim>\<open>try_acquire_owned\<close> of the component's and of the runtime's semaphore, and their release.\<close>

definition take_job :: "native \<Rightarrow> native_context \<Rightarrow> unit nstep" where
  "take_job n cx =
     (if nt_jobs n = 0 then Some (n, cx, Inl (NeLimit ''component jobs''))
      else Some (n\<lparr>nt_jobs := nt_jobs n - 1\<rparr>, cx, Inr ()))"

definition take_slot :: "native \<Rightarrow> native_context \<Rightarrow> unit nstep" where
  "take_slot n cx =
     (if nt_slots_closed n \<or> nt_slots n = 0 then Some (n, cx, Inl (NeLimit ''runtime tasks''))
      else Some (n\<lparr>nt_slots := nt_slots n - 1\<rparr>, cx, Inr ()))"

definition give_job :: "native \<Rightarrow> native" where
  "give_job n = n\<lparr>nt_jobs := nt_jobs n + 1\<rparr>"

definition give_slot :: "native \<Rightarrow> native" where
  "give_slot n = n\<lparr>nt_slots := nt_slots n + 1\<rparr>"

definition drop_held :: "held_payload \<Rightarrow> native \<Rightarrow> native" where
  "drop_held held n = n\<lparr>nt_world := drop_handle (hp_stored held) (nt_world n)\<rparr>"

text \<open>\<^verbatim>\<open>reserve\<close> of the pool without interference: a permit and the queued count.\<close>

definition take_cpu :: "native \<Rightarrow> native_context \<Rightarrow> unit nstep" where
  "take_cpu n cx =
     (case nt_cpu n of
        None \<Rightarrow> Some (n, cx, Inl (NeApplication ''CpuUnavailableInTestWorld''))
      | Some e \<Rightarrow>
          if ce_jobs_free e = 0
          then Some (n\<lparr>nt_cpu := Some (upd_counters (\<lambda>c. c\<lparr>cc_rejected := atomic_inc (cc_rejected c)\<rparr>) e)\<rparr>, cx,
                     Inl (NeLimit ''CPU job limit reached''))
          else Some (n\<lparr>nt_cpu := Some (upd_counters (\<lambda>c. c\<lparr>cc_queued := atomic_inc (cc_queued c)\<rparr>)
                       (e\<lparr>ce_jobs_free := ce_jobs_free e - 1\<rparr>))\<rparr>, cx, Inr ()))"

definition give_cpu :: "native \<Rightarrow> native" where
  "give_cpu n = n\<lparr>nt_cpu := map_option (\<lambda>e. upd_counters (\<lambda>c. c\<lparr>cc_queued := atomic_dec (cc_queued c)\<rparr>)
     (e\<lparr>ce_jobs_free := ce_jobs_free e + 1\<rparr>)) (nt_cpu n)\<rparr>"

text \<open>On an error, give back what was taken: the destructors of an early return.\<close>

definition undo :: "(native \<Rightarrow> native) \<Rightarrow> 'a nstep \<Rightarrow> 'a nstep" where
  "undo f m = map_option (\<lambda>(n, cx, r). (if is_ok r then n else f n, cx, r)) m"

section \<open>Timers\<close>

definition MAX_PERIOD :: duration where
  "MAX_PERIOD = DAY"

text \<open>\<^verbatim>\<open>TaskService::after_inner\<close>; \<open>local\<close>: does the caller's job permit go with the timer?\<close>

definition after_inner ::
  "inner \<Rightarrow> actor_ref \<Rightarrow> actor_ref \<Rightarrow> duration \<Rightarrow> payload \<Rightarrow> message_options \<Rightarrow> bool \<Rightarrow> native \<Rightarrow> native_context \<Rightarrow>
   unit nstep" where
  "after_inner w owner target delay p opts local n cx =
     (if delay > MAX_PERIOD then nask (Inl (NeLimit ''timer delay'')) n cx
      else if (case mo_source opts of None \<Rightarrow> False | Some source \<Rightarrow> source \<noteq> owner)
      then nask (Inl (NeCore InvalidMetadata)) n cx
      else
        (let opts = opts\<lparr>mo_source := Some owner\<rparr>
         in nthen (nask (core_err (options_validate opts)) n cx) (\<lambda>n cx _.
            nthen (nask (core_err (check_ref w (nt_world n) target)) n cx) (\<lambda>n cx a.
              if a_state a \<noteq> Starting \<and> a_state a \<noteq> Active then nask (Inl (NeCore ActorStopped)) n cx
              else
                nthen (take_slot n cx) (\<lambda>n cx _.
                undo give_slot (
                  nthen (ncall (hold_with w p opts) n cx) (\<lambda>n cx held.
                  undo (drop_held held) (
                    nthen (ncall (track_task w owner) n cx) (\<lambda>n cx _.
                      nask (Inr ()) (n\<lparr>nt_tasks := nt_tasks n @ [WiTimer \<lparr>tm_owner = owner, tm_target = target,
                        tm_delay = delay, tm_held = held, tm_local = local\<rparr>]\<rparr>) cx)))))))))"

definition cx_after ::
  "inner \<Rightarrow> execution \<Rightarrow> duration \<Rightarrow> actor_ref \<Rightarrow> payload \<Rightarrow> message_options \<Rightarrow> native \<Rightarrow> native_context \<Rightarrow>
   unit nstep" where
  "cx_after w ex delay target p opts n cx =
     nthen (effect n cx) (\<lambda>n cx _.
     nthen (new_work w ex n cx) (\<lambda>n cx _.
     nthen (take_job n cx) (\<lambda>n cx _.
     undo give_job (
       nthen (nask (cx_options ex cx opts) n cx) (\<lambda>n cx opts.
         after_inner w (ex_owner ex) target delay p opts True n cx)))))"

section \<open>Deferred replies\<close>

text \<open>The closure \<^verbatim>\<open>retired\<close>: the outcome of the request is already decided, or its slot reused.\<close>

definition retired :: "operation_id \<Rightarrow> native \<Rightarrow> bool" where
  "retired oid n =
     (case op_status (st_operations (nt_world n)) oid of
        Inr (OpTerminal _) \<Rightarrow> True | Inl e \<Rightarrow> e = StaleReference | _ \<Rightarrow> False)"

text \<open>The closure \<^verbatim>\<open>prepared\<close>: input, job permit, runtime permit and task, in this order; with a pool reservation
  first when \<open>blocking\<close>.\<close>

definition prepare_input ::
  "inner \<Rightarrow> execution \<Rightarrow> payload \<Rightarrow> native \<Rightarrow> native_context \<Rightarrow> held_payload nstep" where
  "prepare_input w ex p n cx =
     nthen (nask (cx_options ex cx default_options) n cx) (\<lambda>n cx opts.
     nthen (ncall (hold_with w p opts) n cx) (\<lambda>n cx input.
     undo (drop_held input) (
       if s_bytes (hp_stored input) > nl_max_job_input_bytes (ns_limits (ex_spec ex))
       then nask (Inl (NeLimit ''operation input bytes'')) n cx
       else
         nthen (take_job n cx) (\<lambda>n cx _.
         undo give_job (
           nthen (take_slot n cx) (\<lambda>n cx _.
           undo give_slot (
             nthen (ncall (track_task w (ex_owner ex)) n cx) (\<lambda>n cx _. nask (Inr input) n cx))))))))"

definition prepare_job ::
  "bool \<Rightarrow> inner \<Rightarrow> execution \<Rightarrow> payload \<Rightarrow> native \<Rightarrow> native_context \<Rightarrow> held_payload nstep" where
  "prepare_job blocking w ex p n cx =
     nthen (new_work w ex n cx) (\<lambda>n cx _.
       if blocking
       then nthen (take_cpu n cx) (\<lambda>n cx _. undo give_cpu (prepare_input w ex p n cx))
       else prepare_input w ex p n cx)"

text \<open>\<^verbatim>\<open>spawn_cpu\<close> counts the job as submitted when it builds it.\<close>

definition spawn_job :: "bool \<Rightarrow> job \<Rightarrow> native \<Rightarrow> native" where
  "spawn_job blocking jb n =
     (if blocking
      then n\<lparr>nt_cpu := map_option (upd_counters (\<lambda>c. c\<lparr>cc_submitted := atomic_inc (cc_submitted c)\<rparr>)) (nt_cpu n),
             nt_tasks := nt_tasks n @ [WiCpu jb]\<rparr>
      else n\<lparr>nt_tasks := nt_tasks n @ [WiJob jb]\<rparr>)"

text \<open>\<^verbatim>\<open>defer_reply\<close> and \<^verbatim>\<open>defer_cpu_reply\<close>. A request without a deadline would panic at \<^verbatim>\<open>expect("job deadline")\<close>.\<close>

definition defer_body ::
  "bool \<Rightarrow> inner \<Rightarrow> execution \<Rightarrow> operation_id \<Rightarrow> payload \<Rightarrow> native \<Rightarrow> native_context \<Rightarrow> unit nstep" where
  "defer_body blocking w ex oid p n cx =
     (case prepare_job blocking w ex p n cx of
        None \<Rightarrow> None
      | Some (n, cx, Inl e) \<Rightarrow>
          if retired oid n then Some (n, cx\<lparr>cx_deferred := True\<rparr>, Inr ()) else Some (n, cx, Inl e)
      | Some (n, cx, Inr input) \<Rightarrow>
          (case mo_deadline (s_options (hp_stored input)) of
             None \<Rightarrow> None
           | Some deadline \<Rightarrow>
               (let n1 = spawn_job blocking \<lparr>jb_owner = ex_owner ex, jb_operation = oid, jb_deadline = deadline,
                           jb_input = input, jb_envelope = cx_envelope cx, jb_output = None\<rparr> n;
                    st = nt_stats n1
                in Some (n1\<lparr>nt_stats := st\<lparr>nst_jobs_submitted := saturating_add u64_max (nst_jobs_submitted st) 1\<rparr>\<rparr>,
                         cx\<lparr>cx_deferred := True\<rparr>, Inr ()))))"

definition defer_reply ::
  "bool \<Rightarrow> inner \<Rightarrow> execution \<Rightarrow> payload \<Rightarrow> native \<Rightarrow> native_context \<Rightarrow> unit nstep" where
  "defer_reply blocking w ex p n cx =
     nthen (effect n cx) (\<lambda>n cx _.
       if cx_deferred cx then nask (Inl (NeApplication ''ReplyAlreadyDeferred'')) n cx
       else nthen (nask (ok_or (NeApplication ''NotARequest'') (cx_operation cx)) n cx) (\<lambda>n cx oid.
              if retired oid n then Some (n, cx\<lparr>cx_deferred := True\<rparr>, Inr ())
              else defer_body blocking w ex oid p n cx))"

end
