(* ===== verification/Native_Effects.thy ===== *)
theory Native_Effects
  imports Native_Context
begin

text \<open>
  What the context guarantees whatever a hook calls: a bounded number of effects, every permit given back on every
  error path, and a World that moves by its own methods only.
\<close>

section \<open>Calls\<close>

text \<open>The calls a hook can make. Hooks choose the next call from earlier results; what is shown of every list of
  calls holds of every such choice.\<close>

datatype call =
    CallEmit bytes payload message_options
  | CallSend actor_ref payload message_options
  | CallReply payload
  | CallAfter duration actor_ref payload message_options
  | CallDefer bool payload

definition forget :: "'a nstep \<Rightarrow> bool nstep" where
  "forget m = map_option (\<lambda>(n, cx, r). (n, cx, Inr (is_ok r))) m"

fun run_call :: "inner \<Rightarrow> execution \<Rightarrow> call \<Rightarrow> native \<Rightarrow> native_context \<Rightarrow> bool nstep" where
  "run_call w ex (CallEmit name p opts) n cx = forget (emit_with w ex name p opts n cx)"
| "run_call w ex (CallSend target p opts) n cx = forget (cx_send w ex target p opts n cx)"
| "run_call w ex (CallReply p) n cx = forget (reply w ex p n cx)"
| "run_call w ex (CallAfter delay target p opts) n cx = forget (cx_after w ex delay target p opts n cx)"
| "run_call w ex (CallDefer blocking p) n cx = forget (defer_reply blocking w ex p n cx)"

fun run_calls :: "inner \<Rightarrow> execution \<Rightarrow> call list \<Rightarrow> native \<Rightarrow> native_context \<Rightarrow> bool list nstep" where
  "run_calls w ex [] n cx = Some (n, cx, Inr [])"
| "run_calls w ex (c # cs) n cx =
     nthen (run_call w ex c n cx) (\<lambda>n cx ok.
     nthen (run_calls w ex cs n cx) (\<lambda>n cx oks. Some (n, cx, Inr (ok # oks))))"

section \<open>Postconditions\<close>

definition npost :: "(native \<Rightarrow> native_context \<Rightarrow> 'a native_result \<Rightarrow> bool) \<Rightarrow> 'a nstep \<Rightarrow> bool" where
  "npost P m \<longleftrightarrow> (\<forall>n cx r. m = Some (n, cx, r) \<longrightarrow> P n cx r)"

lemma npost_None [simp]: "npost P None"
  by (simp add: npost_def)

lemma npost_Some [simp]: "npost P (Some (n, cx, r)) \<longleftrightarrow> P n cx r"
  by (simp add: npost_def)

lemma npost_nask [simp]: "npost P (nask r n cx) \<longleftrightarrow> P n cx r"
  by (simp add: nask_def)

lemma npost_nthen:
  "npost P (nthen m k) \<longleftrightarrow>
     npost (\<lambda>n cx r. (\<forall>e. r = Inl e \<longrightarrow> P n cx (Inl e)) \<and> (\<forall>a. r = Inr a \<longrightarrow> npost P (k n cx a))) m"
  by (cases m) (auto simp: nthen_def split: sum.splits)

lemma npost_undo: "npost P (undo f m) \<longleftrightarrow> npost (\<lambda>n cx r. P (if is_ok r then n else f n) cx r) m"
  by (cases m) (auto simp: undo_def)

lemma npost_forget: "npost P (forget m) \<longleftrightarrow> npost (\<lambda>n cx r. P n cx (Inr (is_ok r))) m"
  by (cases m) (auto simp: forget_def)

lemma npost_ncall:
  "npost P (ncall f n cx) \<longleftrightarrow> (\<forall>s r. f (nt_world n) = Some (s, r) \<longrightarrow> P (n\<lparr>nt_world := s\<rparr>) cx (core_err r))"
  by (cases "f (nt_world n)") (auto simp: ncall_def)

lemma npost_mono: "npost P m \<Longrightarrow> (\<And>n cx r. P n cx r \<Longrightarrow> Q n cx r) \<Longrightarrow> npost Q m"
  by (auto simp: npost_def)

lemma npost_conj: "npost P m \<Longrightarrow> npost Q m \<Longrightarrow> npost (\<lambda>n cx r. P n cx r \<and> Q n cx r) m"
  by (auto simp: npost_def)

lemmas npost_simps = npost_nthen npost_undo npost_forget npost_ncall


text \<open>The permits of a runtime: free ones and those that accepted work holds.\<close>

fun holds_job :: "work_item \<Rightarrow> bool" where
  "holds_job (WiJob jb) = True"
| "holds_job (WiCpu jb) = True"
| "holds_job (WiTimer tm) = tm_local tm"

fun holds_cpu :: "work_item \<Rightarrow> bool" where
  "holds_cpu (WiCpu jb) = True"
| "holds_cpu _ = False"

definition job_permits :: "native \<Rightarrow> nat" where
  "job_permits n = nt_jobs n + tally holds_job (nt_tasks n)"

definition slot_permits :: "native \<Rightarrow> nat" where
  "slot_permits n = nt_slots n + length (nt_tasks n)"

definition cpu_permits :: "native \<Rightarrow> nat option" where
  "cpu_permits n = map_option (\<lambda>e. ce_jobs_free e + tally holds_cpu (nt_tasks n)) (nt_cpu n)"

text \<open>\<open>owes j k c n n'\<close>: on the way from \<open>n\<close> to \<open>n'\<close>, \<open>j\<close> job permits, \<open>k\<close> runtime permits and \<open>c\<close> pool permits have been
  taken and are not accounted for yet.\<close>

definition owes :: "nat \<Rightarrow> nat \<Rightarrow> nat \<Rightarrow> native \<Rightarrow> native \<Rightarrow> bool" where
  "owes j k c n n' \<longleftrightarrow> job_permits n' + j = job_permits n \<and> slot_permits n' + k = slot_permits n
     \<and> map_option (\<lambda>x. x + c) (cpu_permits n') = cpu_permits n"

lemmas permit_defs = owes_def job_permits_def slot_permits_def cpu_permits_def tally_def

lemma owes_refl [simp]: "owes 0 0 0 n n"
  by (simp add: owes_def option.map_ident)

lemma owes_world [simp]:
  "owes j k c n (m\<lparr>nt_world := s\<rparr>) \<longleftrightarrow> owes j k c n m" "owes j k c (n\<lparr>nt_world := s\<rparr>) m \<longleftrightarrow> owes j k c n m"
  "owes j k c n (m\<lparr>nt_stats := x\<rparr>) \<longleftrightarrow> owes j k c n m" "owes j k c n (drop_held held m) \<longleftrightarrow> owes j k c n m"
  by (simp_all add: permit_defs drop_held_def)

lemma owes_give:
  "owes (Suc j) k c n m \<Longrightarrow> owes j k c n (give_job m)" "owes j (Suc k) c n m \<Longrightarrow> owes j k c n (give_slot m)"
  "owes j k (Suc c) n m \<Longrightarrow> owes j k c n (give_cpu m)"
  by (cases "nt_cpu m"; simp add: permit_defs give_job_def give_slot_def give_cpu_def)+

lemma owes_take:
  "npost (\<lambda>n' cx' r. owes (if is_ok r then 1 else 0) 0 0 n n') (take_job n cx)"
  "npost (\<lambda>n' cx' r. owes 0 (if is_ok r then 1 else 0) 0 n n') (take_slot n cx)"
  "npost (\<lambda>n' cx' r. owes 0 0 (if is_ok r then 1 else 0) n n') (take_cpu n cx)"
  by (auto simp: take_job_def take_slot_def take_cpu_def permit_defs option.map_ident split: option.splits)

lemma effect_owes: "npost (\<lambda>n' cx' r. owes 0 0 0 n n') (effect n cx)"
  by (simp add: effect_def Let_def)

lemma new_work_frame: "npost (\<lambda>n' cx' r. n' = n \<and> cx' = cx) (new_work w ex n cx)"
  by (auto simp: new_work_def npost_simps split: option.splits)

lemmas take_defs = take_job_def take_slot_def give_job_def give_slot_def drop_held_def

lemma prepare_input_owes:
  "npost (\<lambda>n' cx' r. if is_ok r then owes 1 1 0 n n' else owes 0 0 0 n n') (prepare_input w ex p n cx)"
  unfolding prepare_input_def
  by (auto simp: npost_simps take_defs permit_defs option.map_ident split: if_splits)

lemma after_inner_owes:
  "npost (\<lambda>n' cx' r. if is_ok r \<and> local
       then job_permits n' = job_permits n + 1 \<and> slot_permits n' = slot_permits n \<and> cpu_permits n' = cpu_permits n
       else owes 0 0 0 n n')
    (after_inner w owner target delay p opts local n cx)"
  unfolding after_inner_def
  by (auto simp: npost_simps Let_def take_defs permit_defs option.map_ident)

text \<open>The gate and the lifecycle check in front of a continuation.\<close>

definition attempted :: "native \<Rightarrow> native" where
  "attempted n = n\<lparr>nt_stats := (nt_stats n)\<lparr>nst_effects_attempted :=
     saturating_add u64_max (nst_effects_attempted (nt_stats n)) 1\<rparr>\<rparr>"

lemma npost_effect:
  "npost P (nthen (effect n cx) k) \<longleftrightarrow>
     (if cx_phase cx = PhStop then P (attempted n) cx (Inl (NeCore ActorStopped))
      else if cx_remaining cx = 0 then P (attempted n) cx (Inl (NeLimit ''callback effects''))
      else npost P (k (attempted n) (cx\<lparr>cx_remaining := cx_remaining cx - 1\<rparr>) ()))"
  by (simp add: npost_nthen effect_def Let_def attempted_def)

lemma npost_new_work:
  "(\<And>e. P n cx (Inl e)) \<Longrightarrow> npost P (k n cx ()) \<Longrightarrow> npost P (nthen (new_work w ex n cx) k)"
  unfolding npost_nthen by (rule npost_mono [OF new_work_frame]) auto

lemma attempted_simps [simp]:
  "nt_world (attempted n) = nt_world n" "owes j k c m (attempted n) \<longleftrightarrow> owes j k c m n"
  "owes j k c (attempted n) m \<longleftrightarrow> owes j k c n m"
  "job_permits (attempted n) = job_permits n" "slot_permits (attempted n) = slot_permits n"
  "cpu_permits (attempted n) = cpu_permits n"
  by (simp_all add: attempted_def permit_defs)

lemma prepare_job_owes:
  "npost (\<lambda>n' cx' r. if is_ok r then owes 1 1 (if blocking then 1 else 0) n n' else owes 0 0 0 n n')
    (prepare_job blocking w ex p n cx)"
  unfolding prepare_job_def
proof (rule npost_new_work)
  show "npost (\<lambda>n' cx' r. if is_ok r then owes 1 1 (if blocking then 1 else 0) n n' else owes 0 0 0 n n')
      (if blocking then nthen (take_cpu n cx) (\<lambda>n cx _. undo give_cpu (prepare_input w ex p n cx))
       else prepare_input w ex p n cx)"
  proof (cases blocking)
    case True
    have "npost (\<lambda>n' cx' r. if is_ok r then owes 1 1 1 n n' else owes 0 0 0 n n')
        (nthen (take_cpu n cx) (\<lambda>n cx _. undo give_cpu (prepare_input w ex p n cx)))"
      unfolding npost_nthen
    proof (rule npost_mono [OF owes_take(3)], intro conjI allI impI)
      fix n1 cx1 r a
      assume o': "owes 0 0 (if is_ok r then 1 else 0) n n1" and r: "r = Inr a"
      show "npost (\<lambda>n' cx' r. if is_ok r then owes 1 1 1 n n' else owes 0 0 0 n n') (undo give_cpu (prepare_input w ex p n1 cx1))"
        unfolding npost_undo
        by (rule npost_mono [OF prepare_input_owes [of n1 w ex p cx1]])
          (use o' r in \<open>cases "nt_cpu n"; auto simp: permit_defs give_cpu_def option.map_comp comp_def\<close>)
    qed simp
    then show ?thesis using True by simp
  next
    case False
    then show ?thesis using prepare_input_owes [of n w ex p cx] by simp
  qed
qed simp

section \<open>Permits\<close>

lemma message_permits:
  "npost (\<lambda>n' cx' r. owes 0 0 0 n n') (emit_with w ex name p opts n cx)"
  "npost (\<lambda>n' cx' r. owes 0 0 0 n n') (cx_send w ex target p opts n cx)"
  "npost (\<lambda>n' cx' r. owes 0 0 0 n n') (reply w ex p n cx)"
proof -
  show "npost (\<lambda>n' cx' r. owes 0 0 0 n n') (cx_send w ex target p opts n cx)"
    unfolding cx_send_def npost_effect
    by (auto intro!: npost_new_work) (auto simp: npost_simps)
  show "npost (\<lambda>n' cx' r. owes 0 0 0 n n') (emit_with w ex name p opts n cx)"
    unfolding emit_with_def npost_effect by (auto simp: npost_simps split: option.splits)
  show "npost (\<lambda>n' cx' r. owes 0 0 0 n n') (reply w ex p n cx)"
    unfolding reply_def npost_effect by (auto simp: npost_simps)
qed

lemma after_permits: "npost (\<lambda>n' cx' r. owes 0 0 0 n n') (cx_after w ex delay target p opts n cx)"
proof -
  have "npost (\<lambda>n' cx' r. owes 0 0 0 n n') (nthen (take_job m cx') (\<lambda>n cx _. undo give_job (
       nthen (nask (cx_options ex cx opts) n cx) (\<lambda>n cx opts. after_inner w (ex_owner ex) target delay p opts True n cx))))"
    if m: "owes 0 0 0 n m" for m cx'
    unfolding npost_nthen
  proof (rule npost_mono [OF owes_take(1)], intro conjI allI impI)
    fix n1 cx1 r a
    assume o': "owes (if is_ok r then 1 else 0) 0 0 m n1" and r: "r = Inr a"
    have n1: "owes 1 0 0 n n1"
      using o' r m by (cases "cpu_permits n1"; cases "cpu_permits m") (auto simp: owes_def)
    have "owes 0 0 0 n (if is_ok r' then n2 else give_job n2)"
      if "if is_ok r' \<and> True then job_permits n2 = job_permits n1 + 1 \<and> slot_permits n2 = slot_permits n1
          \<and> cpu_permits n2 = cpu_permits n1 else owes 0 0 0 n1 n2" for n2 and r' :: "unit native_result"
    proof (cases "is_ok r'")
      case True
      then show ?thesis using that n1 by (simp add: owes_def)
    next
      case False
      then have "owes 1 0 0 n n2"
        using that n1 by (cases "cpu_permits n2"; cases "cpu_permits n1") (auto simp: owes_def)
      then show ?thesis using False owes_give(1) [of 0 0 0 n n2] by simp
    qed
    note sub = this
    have err: "owes 0 0 0 n (give_job n1)" using owes_give(1) [of 0 0 0 n n1] n1 by simp
    show "npost (\<lambda>n' cx' r. owes 0 0 0 n n') (undo give_job (nthen (nask (cx_options ex cx1 opts) n1 cx1)
        (\<lambda>n cx opts. after_inner w (ex_owner ex) target delay p opts True n cx)))"
      unfolding npost_undo npost_nthen npost_nask
    proof (intro conjI allI impI)
      fix o'' assume "cx_options ex cx1 opts = Inr o''"
      show "npost (\<lambda>n' cx r. owes 0 0 0 n (if is_ok r then n' else give_job n'))
          (after_inner w (ex_owner ex) target delay p o'' True n1 cx1)"
        by (rule npost_mono [OF after_inner_owes]) (rule sub)
    qed (simp add: err)
  qed (use m in \<open>cases "cpu_permits m"; auto simp: owes_def\<close>)
  note body = this
  show ?thesis
    unfolding cx_after_def npost_effect by (auto intro!: npost_new_work body)
qed

lemma spawn_permits:
  assumes "owes 1 1 (if blocking then 1 else 0) n m"
  shows "owes 0 0 0 n (spawn_job blocking jb m)"
  using assms by (cases "nt_cpu m") (auto simp: spawn_job_def permit_defs option.map_comp comp_def)

lemma defer_permits: "npost (\<lambda>n' cx' r. owes 0 0 0 n n') (defer_reply blocking w ex p n cx)"
proof -
  have "npost (\<lambda>n' cx' r. owes 0 0 0 m n') (defer_body blocking w ex oid p m cx')" for m cx' oid
  proof (cases "prepare_job blocking w ex p m cx'")
    case (Some x)
    obtain n1 cx1 r where x: "x = (n1, cx1, r)" by (cases x)
    have o': "if is_ok r then owes 1 1 (if blocking then 1 else 0) m n1 else owes 0 0 0 m n1"
      using prepare_job_owes [of blocking m w ex p cx'] Some x by (simp add: npost_def)
    show ?thesis
    proof (cases r)
      case (Inr input)
      then show ?thesis
        using Some x o' by (auto simp: defer_body_def Let_def spawn_permits split: option.splits)
    qed (use Some x o' in \<open>auto simp: defer_body_def\<close>)
  qed (simp add: defer_body_def)
  note body = this
  have "npost (\<lambda>n' cx' r. owes 0 0 0 n n') (defer_body blocking w ex oid p (attempted n) cx')" for cx' oid
    using body [of "attempted n"] by simp
  then show ?thesis
    unfolding defer_reply_def npost_effect by (auto simp: npost_simps)
qed

lemma call_permits: "npost (\<lambda>n' cx' r. owes 0 0 0 n n') (run_call w ex c n cx)"
  by (cases c) (simp_all add: npost_forget message_permits after_permits defer_permits)

lemma owes_trans: "owes 0 0 0 n m \<Longrightarrow> owes 0 0 0 m l \<Longrightarrow> owes 0 0 0 n l"
  by (simp add: owes_def option.map_ident)

text \<open>From one call to all.\<close>

lemma run_calls_induct:
  assumes "\<And>n cx. R n cx n cx []"
    and "\<And>c n cx n1 cx1 ok n2 cx2 oks. run_call w ex c n cx = Some (n1, cx1, Inr ok) \<Longrightarrow> R n1 cx1 n2 cx2 oks \<Longrightarrow>
      R n cx n2 cx2 (ok # oks)"
    and "run_calls w ex cs n cx = Some (n', cx', Inr oks)"
  shows "R n cx n' cx' oks"
  using assms(3)
proof (induction cs arbitrary: n cx oks)
  case Nil
  then show ?case using assms(1) by simp
next
  case (Cons c cs)
  then obtain n1 cx1 ok oks' where "run_call w ex c n cx = Some (n1, cx1, Inr ok)"
    "run_calls w ex cs n1 cx1 = Some (n', cx', Inr oks')" "oks = ok # oks'"
    by (auto simp: nthen_def split: option.splits sum.splits)
  then show ?case using Cons.IH assms(2) by blast
qed

section \<open>The allowance\<close>

definition same_cx :: "native_context \<Rightarrow> native_context \<Rightarrow> bool" where
  "same_cx cx cx' \<longleftrightarrow> cx_remaining cx' = cx_remaining cx \<and> cx_phase cx' = cx_phase cx \<and> cx_delivery cx' = cx_delivery cx"

lemma same_cx_simps [simp]: "same_cx cx cx" "same_cx cx (cx'\<lparr>cx_deferred := b\<rparr>) \<longleftrightarrow> same_cx cx cx'"
  by (simp_all add: same_cx_def)

lemma permits_cx:
  "npost (\<lambda>n' cx' r. cx' = cx) (take_job n cx)" "npost (\<lambda>n' cx' r. cx' = cx) (take_slot n cx)"
  "npost (\<lambda>n' cx' r. cx' = cx) (take_cpu n cx)"
  by (simp_all add: take_job_def take_slot_def take_cpu_def split: option.splits)

lemma after_inner_cx: "npost (\<lambda>n' cx' r. cx' = cx) (after_inner w owner target delay p opts local n cx)"
  unfolding after_inner_def by (auto simp: npost_simps Let_def take_slot_def)

lemma prepare_cx:
  "npost (\<lambda>n' cx' r. cx' = cx) (prepare_input w ex p n cx)"
  "npost (\<lambda>n' cx' r. cx' = cx) (prepare_job blocking w ex p n cx)"
proof -
  show input: "npost (\<lambda>n' cx' r. cx' = cx) (prepare_input w ex p n cx)" for n cx
    unfolding prepare_input_def by (auto simp: npost_simps take_job_def take_slot_def)
  show "npost (\<lambda>n' cx' r. cx' = cx) (prepare_job blocking w ex p n cx)"
    unfolding prepare_job_def
    by (rule npost_new_work) (auto simp: npost_simps take_cpu_def input split: option.splits)
qed

text \<open>A call that passes the gate takes one effect off the allowance; one that does not changes only the count of
  attempts.\<close>

definition gated :: "native \<Rightarrow> native_context \<Rightarrow> native \<Rightarrow> native_context \<Rightarrow> bool \<Rightarrow> bool" where
  "gated n cx n' cx' ok \<longleftrightarrow>
     (if cx_phase cx = PhStop \<or> cx_remaining cx = 0 then n' = attempted n \<and> cx' = cx \<and> \<not> ok
      else same_cx (cx\<lparr>cx_remaining := cx_remaining cx - 1\<rparr>) cx')"

lemma gate:
  assumes "\<And>n' cx'. npost (\<lambda>l cx'' r. same_cx cx' cx'') (k n' cx' ())"
  shows "npost (\<lambda>n' cx' r. gated n cx n' cx' (is_ok r)) (nthen (effect n cx) k)"
  unfolding npost_effect using assms [of "cx\<lparr>cx_remaining := cx_remaining cx - 1\<rparr>" "attempted n"]
  by (auto simp: gated_def)

lemma body_cx:
  "npost (\<lambda>l cx'' r. same_cx cx' cx'') (defer_body blocking w ex oid p m cx')"
  using prepare_cx(2) [of cx' blocking w ex p m]
  by (auto simp: defer_body_def npost_def Let_def split: option.splits sum.splits if_splits)

lemma call_gated: "npost (\<lambda>n' cx' r. gated n cx n' cx' (r = Inr True)) (run_call w ex c n cx)"
proof -
  have after: "npost (\<lambda>l cx'' r. same_cx cx' cx'') (nthen (take_job m cx') (\<lambda>n cx _. undo give_job (
       nthen (nask (cx_options ex cx opts) n cx) (\<lambda>n cx opts. after_inner w owner target delay p opts True n cx))))"
    for m cx' opts owner target delay p
    unfolding npost_nthen
  proof (rule npost_mono [OF permits_cx(1)], intro conjI allI impI)
    fix n1 cx1 r a assume c: "cx1 = cx'"
    show "npost (\<lambda>l cx'' r. same_cx cx' cx'') (undo give_job (nthen (nask (cx_options ex cx1 opts) n1 cx1)
        (\<lambda>n cx opts. after_inner w owner target delay p opts True n cx)))"
      unfolding npost_undo npost_nthen npost_nask c
      by (auto intro: npost_mono [OF after_inner_cx])
  qed simp
  have "npost (\<lambda>n' cx' r. gated n cx n' cx' (is_ok r)) (emit_with w ex name p opts n cx)" for name p opts
    unfolding emit_with_def by (rule gate) (auto simp: npost_simps split: option.splits)
  moreover have "npost (\<lambda>n' cx' r. gated n cx n' cx' (is_ok r)) (cx_send w ex target p opts n cx)" for target p opts
    unfolding cx_send_def by (rule gate, rule npost_new_work) (auto simp: npost_simps)
  moreover have "npost (\<lambda>n' cx' r. gated n cx n' cx' (is_ok r)) (reply w ex p n cx)" for p
    unfolding reply_def by (rule gate) (auto simp: npost_simps)
  moreover have "npost (\<lambda>n' cx' r. gated n cx n' cx' (is_ok r)) (cx_after w ex delay target p opts n cx)"
    for delay target p opts
    unfolding cx_after_def by (rule gate, rule npost_new_work) (simp_all add: after)
  moreover have "npost (\<lambda>n' cx' r. gated n cx n' cx' (is_ok r)) (defer_reply blocking w ex p n cx)" for blocking p
    unfolding defer_reply_def by (rule gate) (auto simp: npost_simps body_cx)
  ultimately show ?thesis by (cases c) (simp_all add: npost_forget)
qed

section \<open>The World\<close>

text \<open>The World moves along its own methods.\<close>

definition along :: "inner \<Rightarrow> native \<Rightarrow> native \<Rightarrow> bool" where
  "along w n n' \<longleftrightarrow> (world_op w)\<^sup>*\<^sup>* (nt_world n) (nt_world n')"

lemma along_simps [simp]:
  "along w n n" "along w n (attempted m) \<longleftrightarrow> along w n m" "along w (attempted n) m \<longleftrightarrow> along w n m"
  "along w n (give_job m) \<longleftrightarrow> along w n m" "along w n (give_slot m) \<longleftrightarrow> along w n m" "along w n (give_cpu m) \<longleftrightarrow> along w n m"
  "along w n (m\<lparr>nt_tasks := ts\<rparr>) \<longleftrightarrow> along w n m" "along w n (m\<lparr>nt_slots := k\<rparr>) \<longleftrightarrow> along w n m"
  "along w n (m\<lparr>nt_jobs := k\<rparr>) \<longleftrightarrow> along w n m" "along w n (m\<lparr>nt_stats := x\<rparr>) \<longleftrightarrow> along w n m"
  "along w n (m\<lparr>nt_cpu := c\<rparr>) \<longleftrightarrow> along w n m" "along w n (spawn_job blocking jb m) \<longleftrightarrow> along w n m"
  by (simp_all add: along_def give_job_def give_slot_def give_cpu_def spawn_job_def)

lemma along_drop: "along w n m \<Longrightarrow> along w n (drop_held held m)"
  unfolding drop_held_def along_def
  by (simp, erule rtranclp.rtrancl_into_rtrancl) (simp add: world_op_def wk_drop)

lemma along_ncall:
  assumes "along w n m" "\<And>s r. f (nt_world m) = Some (s, r) \<Longrightarrow> s = nt_world m \<or> world_op w (nt_world m) s"
  shows "npost (\<lambda>n' cx' r. along w n n') (ncall f m cx)"
  using assms by (auto simp: npost_ncall along_def intro: rtranclp.rtrancl_into_rtrancl)

lemma along_nthen:
  assumes "npost (\<lambda>n' cx' r. along w n n') m" "\<And>n' cx' a. along w n n' \<Longrightarrow> npost (\<lambda>n' cx' r. along w n n') (k n' cx' a)"
  shows "npost (\<lambda>n' cx' r. along w n n') (nthen m k)"
  unfolding npost_nthen using assms(1) by (rule npost_mono) (simp add: assms(2))

lemma along_undo:
  assumes "npost (\<lambda>n' cx' r. along w n n') m" "\<And>n'. along w n n' \<Longrightarrow> along w n (f n')"
  shows "npost (\<lambda>n' cx' r. along w n n') (undo f m)"
  unfolding npost_undo using assms(1) by (rule npost_mono) (simp add: assms(2))

lemma along_basic:
  "along w n m \<Longrightarrow> npost (\<lambda>n' cx' r. along w n n') (nask x m cx)"
  "along w n m \<Longrightarrow> npost (\<lambda>n' cx' r. along w n n') (effect m cx)"
  "along w n m \<Longrightarrow> npost (\<lambda>n' cx' r. along w n n') (new_work w' ex m cx)"
  "along w n m \<Longrightarrow> npost (\<lambda>n' cx' r. along w n n') (take_job m cx)"
  "along w n m \<Longrightarrow> npost (\<lambda>n' cx' r. along w n n') (take_slot m cx)"
  "along w n m \<Longrightarrow> npost (\<lambda>n' cx' r. along w n n') (take_cpu m cx)"
  by (auto simp: effect_def Let_def take_job_def take_slot_def take_cpu_def intro: npost_mono [OF new_work_frame]
      split: option.splits)

lemma native_world_calls:
  "hold_with w p opts s = Some (t, r1) \<Longrightarrow> world_op w s t"
  "track_task w owner s = Some (t, r2) \<Longrightarrow> world_op w s t"
  "send_with w target p opts s = Some (t, r3) \<Longrightarrow> world_op w s t"
  "complete_operation_with w oid target p options s = Some (t, r4) \<Longrightarrow> world_op w s t"
  "publish_port_with w output p opts s = Some (t, r5) \<Longrightarrow> world_op w s t"
  "task_publish_port_completion_with w owner output p opts s = Some (t, r6) \<Longrightarrow> world_op w s t"
  by (auto simp: world_op_def publish_port_with_def task_publish_port_completion_with_def
      intro: work_op.intros claim_op.intros)

lemma lease_publish_calls:
  "lease_publish_port_completion_with w delivery output p opts s = Some (t, r) \<Longrightarrow> t = s \<or> world_op w s t"
  by (auto simp: lease_publish_port_completion_with_def try_in_def world_op_def split: sum.splits if_splits
      intro: work_op.intros)

lemmas along_intros = along_nthen along_undo along_basic along_ncall along_drop

lemma message_along:
  "npost (\<lambda>n' cx' r. along w n n') (emit_with w ex name p opts n cx)"
  "npost (\<lambda>n' cx' r. along w n n') (cx_send w ex target p opts n cx)"
  "npost (\<lambda>n' cx' r. along w n n') (reply w ex p n cx)"
  unfolding emit_with_def cx_send_def reply_def
  by (auto intro!: along_intros dest: native_world_calls lease_publish_calls split: option.splits)

lemma after_inner_along:
  "along w n m \<Longrightarrow> npost (\<lambda>n' cx' r. along w n n') (after_inner w owner target delay p opts local m cx)"
  unfolding after_inner_def Let_def by (auto intro!: along_intros dest: native_world_calls)

lemma prepare_input_along:
  "along w n m \<Longrightarrow> npost (\<lambda>n' cx' r. along w n n') (prepare_input w ex p m cx)"
  unfolding prepare_input_def by (auto intro!: along_intros dest: native_world_calls)

lemma prepare_job_along:
  "along w n m \<Longrightarrow> npost (\<lambda>n' cx' r. along w n n') (prepare_job blocking w ex p m cx)"
  unfolding prepare_job_def by (auto intro!: along_intros prepare_input_along)

lemma after_along: "npost (\<lambda>n' cx' r. along w n n') (cx_after w ex delay target p opts n cx)"
  unfolding cx_after_def by (auto intro!: along_intros after_inner_along)

lemma defer_body_along:
  "along w n m \<Longrightarrow> npost (\<lambda>n' cx' r. along w n n') (defer_body blocking w ex oid p m cx)"
  using prepare_job_along [of w n m blocking ex p cx]
  by (auto simp: defer_body_def npost_def Let_def split: option.splits sum.splits if_splits)

lemma defer_along: "npost (\<lambda>n' cx' r. along w n n') (defer_reply blocking w ex p n cx)"
  unfolding defer_reply_def by (auto intro!: along_intros defer_body_along)

lemma call_along: "npost (\<lambda>n' cx' r. along w n n') (run_call w ex c n cx)"
  by (cases c) (simp_all add: npost_forget message_along after_along defer_along)

section \<open>Properties\<close>

text \<open>The demo World with a component that sends itself a pulse, then replies to no request, then sends again with an
  allowance of two effects.\<close>

definition demo_native :: native where
  "demo_native = \<lparr>nt_world = demo_active, nt_stats = stats_zero, nt_jobs = 8, nt_slots = 4, nt_slots_closed = False,
     nt_cpu = Some (cpu_new 1 1), nt_tasks = []\<rparr>"

definition demo_execution :: execution where
  "demo_execution = \<lparr>ex_owner = demo_ref,
     ex_spec = demo_spec\<lparr>ns_limits := default_limits\<lparr>nl_effects_per_callback := 2\<rparr>\<rparr>\<rparr>"

definition demo_calls :: "call list" where
  "demo_calls = [CallSend demo_ref (Pulse 7) default_options, CallReply (Pulse 1),
     CallSend demo_ref (Pulse 8) default_options]"

lemmas demo_native_eval = demo_native_def demo_execution_def demo_calls_def demo_spec_def native_spec_new_def
  new_context_def forget_def cx_send_def reply_def effect_def new_work_def nask_def ncall_def cx_options_def
  cx_envelope_def cx_operation_def execution_state_def merge_options_def earlier_deadline_def option_or_def stats_zero_def

lemma demo_run:
  "\<exists>n' cx'. run_calls demo_world demo_execution demo_calls demo_native (new_context demo_execution PhEvent None)
     = Some (n', cx', Inr [True, False, False])"
  by (simp add: demo_native_eval demo_send_eval)

lemma demo_native_reachable: "world_reachable demo_world (nt_world demo_native)"
  using demo_reachable(3) by (simp add: demo_native_def)



text \<open>C26. No permit is lost. Whatever a hook calls, and whichever of the calls fail half-way, the free permits of the
  component, of the runtime and of the blocking pool together with those held by accepted work stay the same: each
  error path gives back exactly what it had taken.\<close>

theorem callback_permits_conserved:
  assumes "run_calls w ex cs n cx = Some (n', cx', Inr oks)"
  shows "job_permits n' = job_permits n \<and> slot_permits n' = slot_permits n \<and> cpu_permits n' = cpu_permits n"
proof -
  have "owes 0 0 0 n n'"
  proof (rule run_calls_induct [where R = "\<lambda>n cx n' cx' oks. owes 0 0 0 n n'", OF _ _ assms])
    fix c n cx n1 cx1 ok n2
    assume "run_call w ex c n cx = Some (n1, cx1, Inr ok)" "owes 0 0 0 n1 n2"
    then show "owes 0 0 0 n n2" using call_permits [of n w ex c cx] owes_trans by (auto simp: npost_def)
  qed simp
  then show ?thesis by (simp add: owes_def option.map_ident)
qed

theorem callback_permits_conserved_witness:
  "\<exists>n' cx' oks. run_calls demo_world demo_execution demo_calls demo_native (new_context demo_execution PhEvent None)
       = Some (n', cx', Inr oks) \<and> job_permits n' = 8 \<and> slot_permits n' = 4 \<and> cpu_permits n' = Some 1"
proof -
  obtain n' cx' where r: "run_calls demo_world demo_execution demo_calls demo_native (new_context demo_execution PhEvent None)
     = Some (n', cx', Inr [True, False, False])" using demo_run by blast
  from callback_permits_conserved [OF r] r show ?thesis
    by (auto simp: permit_defs demo_native_def cpu_new_def)
qed

text \<open>Native components cannot break the World. From a reachable World, whatever a hook calls through its
  context, the World's state has moved along its public methods and is reachable: all that is shown of reachable
  Worlds holds while native components run.\<close>

theorem native_calls_keep_world:
  assumes "world_reachable w (nt_world n)" "run_calls w ex cs n cx = Some (n', cx', Inr oks)"
  shows "(world_op w)\<^sup>*\<^sup>* (nt_world n) (nt_world n') \<and> world_reachable w (nt_world n')"
proof -
  have "along w n n'"
  proof (rule run_calls_induct [where R = "\<lambda>n cx n' cx' oks. along w n n'", OF _ _ assms(2)])
    fix c n cx n1 cx1 ok n2
    assume "run_call w ex c n cx = Some (n1, cx1, Inr ok)" "along w n1 n2"
    then show "along w n n2"
      using call_along [of w n ex c cx] by (auto simp: npost_def along_def intro: rtranclp_trans)
  qed simp
  then show ?thesis using world.reachable_steps [OF _ assms(1)] by (simp add: along_def)
qed

theorem native_calls_keep_world_witness:
  "\<exists>n' cx' oks. run_calls demo_world demo_execution demo_calls demo_native (new_context demo_execution PhEvent None)
       = Some (n', cx', Inr oks) \<and> world_reachable demo_world (nt_world n')"
proof -
  obtain n' cx' where r: "run_calls demo_world demo_execution demo_calls demo_native (new_context demo_execution PhEvent None)
     = Some (n', cx', Inr [True, False, False])" using demo_run by blast
  from native_calls_keep_world [OF demo_native_reachable r] r show ?thesis by blast
qed

end
