(* ===== verification/Native_Loop.thy ===== *)
theory Native_Loop
  imports Native_Effects
begin

text \<open>
  The task of a native component, \<^verbatim>\<open>run_component\<close> of \<^verbatim>\<open>crates/runtime-native/src/sdk.rs\<close>. It is a state machine: a
  control point is a place of the source between two calls of the World or of a hook, and \<open>task_next\<close> makes one such
  call. Between any two of them the rest of the program may move the World (\<open>task_step\<close>, rule \<open>env\<close>). The hooks are
  arguments, with no assumption on what they do; a hook that panics is an outcome like any other.

  Shown: the hooks are called in the order that the SDK promises (\<open>proto_next\<close>), a turn is bounded, and periodic
  ticks keep their cadence.
\<close>

section \<open>Behaviours\<close>

text \<open>A hook changes the component and the runtime; \<open>Some None\<close> is a panic of the hook, caught by \<^verbatim>\<open>catch_unwind\<close>.\<close>

type_synonym ('c, 'a) hook_fun = "'c \<Rightarrow> native \<Rightarrow> native_context \<Rightarrow> ('c \<times> native \<times> 'a native_result option) option"

text \<open>\<^verbatim>\<open>trait NativeBehavior\<close>; \<open>bh_drop\<close>: does the destructor panic?\<close>

record 'c behavior =
  bh_start :: "('c, unit) hook_fun"
  bh_event :: "payload \<Rightarrow> ('c, unit) hook_fun"
  bh_tick :: "('c, unit) hook_fun"
  bh_quiesce :: "('c, unit) hook_fun"
  bh_failure :: "failure_record \<Rightarrow> nat \<Rightarrow> ('c, failure_action) hook_fun"
  bh_drain :: "('c, unit) hook_fun"
  bh_stop :: "('c, unit) hook_fun"
  bh_drop :: "'c \<Rightarrow> bool"

text \<open>The hooks that the trait provides.\<close>

definition default_hook :: "'a \<Rightarrow> ('c, 'a) hook_fun" where
  "default_hook a c n cx = Some (c, n, Some (Inr a))"

definition default_behavior :: "(payload \<Rightarrow> ('c, unit) hook_fun) \<Rightarrow> 'c behavior" where
  "default_behavior on_event =
     \<lparr>bh_start = default_hook (), bh_event = on_event, bh_tick = default_hook (), bh_quiesce = default_hook (),
      bh_failure = (\<lambda>_ _. default_hook StopWorld), bh_drain = default_hook (), bh_stop = default_hook (),
      bh_drop = (\<lambda>_. False)\<rparr>"

text \<open>\<^verbatim>\<open>Execution::failure\<close>.\<close>

definition ex_failure ::
  "inner \<Rightarrow> execution \<Rightarrow> failure_phase \<Rightarrow> delivery_lease option \<Rightarrow> native_error \<Rightarrow> bool \<Rightarrow> native \<Rightarrow> native option" where
  "ex_failure w ex phase delivery e panic n =
     map_option (\<lambda>(s, _). n\<lparr>nt_world := s\<rparr>)
       (report_failure w (ex_owner ex) (map_option (\<lambda>l. en_event_id (d_envelope (dl_delivery l))) delivery)
          (map_option (\<lambda>l. si_id (en_schema (d_envelope (dl_delivery l)))) delivery)
          (Option.bind delivery dl_operation)
          (failure_details_new phase (cd_name (ns_descriptor (ex_spec ex))) (error_code e) [])
          (if panic \<or> phase \<noteq> Handler then StopActor else ns_failure_action (ex_spec ex)) (nt_world n))"

section \<open>The task\<close>

datatype hook = HkFailure | HkQuiesce | HkEvent | HkDrain | HkTick | HkStop | HkDrop

datatype hook_end = HeOk | HeErr | HePanic

datatype task_pc =
    PcTop
  | PcState
  | PcSleep
  | PcFailure
  | PcSupervise failure_lease
  | PcFinishFailure failure_lease failure_action
  | PcSupervised
  | PcQuiesce
  | PcOnQuiesce
  | PcEvents
  | PcOnEvent delivery_lease
  | PcFinish delivery_lease bool bool
  | PcChecked
  | PcDrain
  | PcDrainClaim
  | PcOnDrain
  | PcTick
  | PcDue
  | PcTickClaim
  | PcOnTick
  | PcTicked
  | PcYield
  | PcWait
  | PcLeave
  | PcCleanup
  | PcDispose
  | PcRelease
  | PcDone
  | PcUnclaim task_pc
  | PcReport failure_phase "delivery_lease option" native_error bool task_pc

text \<open>The local variables of \<^verbatim>\<open>run_component\<close>, with the component and the runtime.\<close>

record 'c task =
  tk_pc :: task_pc
  tk_native :: native
  tk_component :: 'c
  tk_quiescing :: bool
  tk_panicked :: bool
  tk_next_tick :: "nat option"
  tk_observed :: nat
  tk_state :: "lifecycle result"
  tk_consumed :: nat
  tk_blocked :: bool

definition task_new :: "native \<Rightarrow> 'c \<Rightarrow> 'c task" where
  "task_new n c =
     \<lparr>tk_pc = PcTop, tk_native = n, tk_component = c, tk_quiescing = False, tk_panicked = False, tk_next_tick = None,
      tk_observed = 0, tk_state = Inr Starting, tk_consumed = 0, tk_blocked = False\<rparr>"

text \<open>What a step reads from outside: the clock of the async runtime, the identity of the waker, and which branch of
  a \<^verbatim>\<open>select!\<close> is polled first.\<close>

record step_input =
  in_now :: nat
  in_waker :: nat
  in_timer_first :: bool

type_synonym 'c task_result = "('c task \<times> (hook \<times> hook_end) option) option"

definition goto :: "task_pc \<Rightarrow> 'c task \<Rightarrow> 'c task_result" where
  "goto pc t = Some (t\<lparr>tk_pc := pc\<rparr>, None)"

abbreviation set_world :: "state \<Rightarrow> 'c task \<Rightarrow> 'c task" where
  "set_world s t \<equiv> t\<lparr>tk_native := (tk_native t)\<lparr>nt_world := s\<rparr>\<rparr>"

abbreviation upd_stats :: "(native_stats \<Rightarrow> native_stats) \<Rightarrow> 'c task \<Rightarrow> 'c task" where
  "upd_stats f t \<equiv> t\<lparr>tk_native := (tk_native t)\<lparr>nt_stats := f (nt_stats (tk_native t))\<rparr>\<rparr>"

text \<open>A call of the World, and a query.\<close>

definition on_world :: "(state \<Rightarrow> 'a step) \<Rightarrow> ('a \<Rightarrow> 'c task \<Rightarrow> 'c task_result) \<Rightarrow> 'c task \<Rightarrow> 'c task_result" where
  "on_world f k t = Option.bind (f (nt_world (tk_native t))) (\<lambda>(s, r). k r (set_world s t))"

definition ask_world :: "(state \<Rightarrow> 'a option) \<Rightarrow> ('a \<Rightarrow> 'c task \<Rightarrow> 'c task_result) \<Rightarrow> 'c task \<Rightarrow> 'c task_result" where
  "ask_world f k t = Option.bind (f (nt_world (tk_native t))) (\<lambda>r. k r t)"

text \<open>\<^verbatim>\<open>invoke\<close>: the hook's result, and whether it panicked.\<close>

definition hook_end_of :: "'a native_result \<Rightarrow> bool \<Rightarrow> hook_end" where
  "hook_end_of r panic = (if panic then HePanic else if is_ok r then HeOk else HeErr)"

definition invoke ::
  "hook \<Rightarrow> ('c, 'a) hook_fun \<Rightarrow> native_context \<Rightarrow> ('a native_result \<Rightarrow> bool \<Rightarrow> 'c task \<Rightarrow> 'c task) \<Rightarrow> 'c task \<Rightarrow> 'c task_result"
  where
  "invoke h f cx k t =
     Option.bind (f (tk_component t) (tk_native t) cx) (\<lambda>(c, n, x).
       (let r = (case x of None \<Rightarrow> Inl NePanic | Some r \<Rightarrow> r); panic = (x = None)
        in Some (k r panic (t\<lparr>tk_component := c, tk_native := n\<rparr>), Some (h, hook_end_of r panic))))"

definition reporting :: "failure_phase \<Rightarrow> delivery_lease option \<Rightarrow> 'a native_result \<Rightarrow> bool \<Rightarrow> task_pc \<Rightarrow> task_pc" where
  "reporting phase delivery r panic nxt =
     (case r of Inl e \<Rightarrow> PcReport phase delivery e panic nxt | Inr _ \<Rightarrow> nxt)"

definition runs :: "lifecycle result \<Rightarrow> bool" where
  "runs st \<longleftrightarrow> st = Inr Active \<or> st = Inr Quiescing"

definition bump :: "nat \<Rightarrow> nat" where
  "bump n = saturating_add u64_max n 1"

subsection \<open>Top of the loop and supervision\<close>

definition next_top :: "inner \<Rightarrow> execution \<Rightarrow> 'c task \<Rightarrow> 'c task_result" where
  "next_top w ex t =
     on_world (world_activity w (ex_owner ex)) (\<lambda>r t.
       case r of
         Inl e \<Rightarrow> goto (PcReport Stop None (NeCore e) False PcLeave) t
       | Inr observed \<Rightarrow> goto PcState (t\<lparr>tk_observed := observed\<rparr>)) t"

definition next_state :: "inner \<Rightarrow> execution \<Rightarrow> 'c task \<Rightarrow> 'c task_result" where
  "next_state w ex t =
     ask_world (execution_state w (ex_owner ex)) (\<lambda>st t.
       if st = Inr Starting then goto PcSleep (t\<lparr>tk_state := st\<rparr>)
       else if runs st
       then goto PcFailure (upd_stats (\<lambda>x. x\<lparr>nst_turns := bump (nst_turns x)\<rparr>) (t\<lparr>tk_state := st\<rparr>))
       else goto PcLeave (t\<lparr>tk_state := st\<rparr>)) t"

definition next_sleep :: "inner \<Rightarrow> execution \<Rightarrow> step_input \<Rightarrow> 'c task \<Rightarrow> 'c task_result" where
  "next_sleep w ex i t =
     on_world (\<lambda>s. Some (poll_activity w (ex_owner ex) (tk_observed t) (in_waker i) s)) (\<lambda>p t.
       case p of Ready _ \<Rightarrow> goto PcTop t | Pending \<Rightarrow> goto PcSleep t) t"

definition next_failure :: "inner \<Rightarrow> execution \<Rightarrow> 'c task \<Rightarrow> 'c task_result" where
  "next_failure w ex t =
     on_world (claim_failure w (ex_owner ex)) (\<lambda>r t.
       case r of Inr (Some lease) \<Rightarrow> goto (PcSupervise lease) t | _ \<Rightarrow> goto PcQuiesce t) t"

definition next_supervise :: "execution \<Rightarrow> 'c behavior \<Rightarrow> failure_lease \<Rightarrow> 'c task \<Rightarrow> 'c task_result" where
  "next_supervise ex b lease t =
     invoke HkFailure (bh_failure b (nt_failure (fl_notification lease)) (nt_coalesced (fl_notification lease)))
       (new_context ex PhSupervisor None)
       (\<lambda>r panic t.
          case r of
            Inr act \<Rightarrow> t\<lparr>tk_pc := PcFinishFailure lease act\<rparr>
          | Inl e \<Rightarrow> t\<lparr>tk_panicked := panic, tk_pc := PcReport Supervisor None e panic (PcFinishFailure lease StopWorld)\<rparr>) t"

definition next_finish_failure ::
  "inner \<Rightarrow> failure_lease \<Rightarrow> failure_action \<Rightarrow> 'c task \<Rightarrow> 'c task_result" where
  "next_finish_failure w lease act t =
     on_world (failure_lease_finish w lease (Some act)) (\<lambda>_. goto PcSupervised) t"

definition next_supervised :: "inner \<Rightarrow> execution \<Rightarrow> 'c task \<Rightarrow> 'c task_result" where
  "next_supervised w ex t =
     (if tk_panicked t then goto PcLeave t
      else ask_world (execution_state w (ex_owner ex)) (\<lambda>st. goto (if runs st then PcQuiesce else PcLeave)) t)"

subsection \<open>Quiescing\<close>

definition next_quiesce :: "inner \<Rightarrow> execution \<Rightarrow> 'c task \<Rightarrow> 'c task_result" where
  "next_quiesce w ex t =
     (if tk_state t = Inr Quiescing \<and> \<not> tk_quiescing t
      then on_world (claim_native_drain_callback w (ex_owner ex)) (\<lambda>r t.
             if r = Inr True then goto PcOnQuiesce (t\<lparr>tk_quiescing := True\<rparr>) else goto PcSleep t) t
      else goto PcEvents (t\<lparr>tk_consumed := 0\<rparr>))"

definition next_on_quiesce :: "execution \<Rightarrow> 'c behavior \<Rightarrow> 'c task \<Rightarrow> 'c task_result" where
  "next_on_quiesce ex b t =
     invoke HkQuiesce (bh_quiesce b) (new_context ex PhQuiesce None)
       (\<lambda>r panic t.
          case r of
            Inl e \<Rightarrow> t\<lparr>tk_panicked := panic, tk_pc := PcReport Stop None e panic (PcUnclaim PcLeave)\<rparr>
          | Inr _ \<Rightarrow>
              if ns_drain (ex_spec ex) = Producer then t\<lparr>tk_pc := PcUnclaim PcLeave\<rparr>
              else t\<lparr>tk_consumed := 0, tk_pc := PcUnclaim PcEvents\<rparr>) t"

definition next_unclaim :: "inner \<Rightarrow> execution \<Rightarrow> task_pc \<Rightarrow> 'c task \<Rightarrow> 'c task_result" where
  "next_unclaim w ex pc t =
     on_world (\<lambda>s. map_option (\<lambda>s. (s, ())) (native_callback_drop w (ex_owner ex) s)) (\<lambda>_. goto pc) t"

subsection \<open>Events\<close>

definition next_events :: "inner \<Rightarrow> execution \<Rightarrow> 'c task \<Rightarrow> 'c task_result" where
  "next_events w ex t =
     (if tk_consumed t < nl_events_per_turn (ns_limits (ex_spec ex))
      then on_world (claim w (ex_owner ex)) (\<lambda>r t.
             case r of Inr (Some lease) \<Rightarrow> goto (PcOnEvent lease) t | _ \<Rightarrow> goto PcChecked t) t
      else goto PcChecked t)"

definition next_on_event :: "execution \<Rightarrow> 'c behavior \<Rightarrow> delivery_lease \<Rightarrow> 'c task \<Rightarrow> 'c task_result" where
  "next_on_event ex b lease t =
     invoke HkEvent (bh_event b (s_payload (d_payload (dl_delivery lease)))) (new_context ex PhEvent (Some lease))
       (\<lambda>r panic t. t\<lparr>tk_pc := reporting Handler (Some lease) r panic (PcFinish lease (is_ok r) panic)\<rparr>) t"

definition next_finish :: "inner \<Rightarrow> delivery_lease \<Rightarrow> bool \<Rightarrow> bool \<Rightarrow> 'c task \<Rightarrow> 'c task_result" where
  "next_finish w lease ok panic t =
     on_world (\<lambda>s. map_option (\<lambda>s. (s, ())) (lease_finish w lease ok s)) (\<lambda>_ t.
       (let t1 = upd_stats (\<lambda>x. x\<lparr>nst_handled := bump (nst_handled x)\<rparr>) (t\<lparr>tk_consumed := tk_consumed t + 1\<rparr>)
        in if panic then goto PcLeave (t1\<lparr>tk_panicked := True\<rparr>) else goto PcEvents t1)) t"

definition next_checked :: "inner \<Rightarrow> execution \<Rightarrow> 'c task \<Rightarrow> 'c task_result" where
  "next_checked w ex t =
     ask_world (execution_state w (ex_owner ex)) (\<lambda>st. goto (if runs st then PcDrain else PcLeave)) t"

subsection \<open>Drain\<close>

definition next_drain :: "inner \<Rightarrow> execution \<Rightarrow> 'c task \<Rightarrow> 'c task_result" where
  "next_drain w ex t =
     (if tk_quiescing t
      then ask_world (upstream_done w (ex_owner ex)) (\<lambda>r t.
             if r = Inr True \<and> nt_jobs (tk_native t) = nl_max_jobs (ns_limits (ex_spec ex))
             then goto PcDrainClaim t else goto PcYield (t\<lparr>tk_blocked := False\<rparr>)) t
      else goto PcTick t)"

definition next_drain_claim :: "inner \<Rightarrow> execution \<Rightarrow> 'c task \<Rightarrow> 'c task_result" where
  "next_drain_claim w ex t =
     on_world (claim_native_drain_callback w (ex_owner ex)) (\<lambda>r.
       goto (if r = Inr True then PcOnDrain else PcSleep)) t"

definition next_on_drain :: "execution \<Rightarrow> 'c behavior \<Rightarrow> 'c task \<Rightarrow> 'c task_result" where
  "next_on_drain ex b t =
     invoke HkDrain (bh_drain b) (new_context ex PhDrain None)
       (\<lambda>r panic t. t\<lparr>tk_panicked := panic, tk_pc := reporting Stop None r panic (PcUnclaim PcLeave)\<rparr>) t"

subsection \<open>Ticks\<close>

text \<open>The next deadline after a tick that ran at \<open>now\<close>.\<close>

definition next_deadline :: "duration \<Rightarrow> nat \<Rightarrow> nat \<Rightarrow> nat" where
  "next_deadline period now deadline = now + period - (now - deadline) mod period"

definition next_tick :: "execution \<Rightarrow> step_input \<Rightarrow> 'c task \<Rightarrow> 'c task_result" where
  "next_tick ex i t =
     (case ns_period (ex_spec ex) of
        None \<Rightarrow> goto PcYield (t\<lparr>tk_blocked := False\<rparr>)
      | Some period \<Rightarrow>
          goto PcDue (t\<lparr>tk_next_tick := Some (case tk_next_tick t of None \<Rightarrow> in_now i + period | Some d \<Rightarrow> d)\<rparr>))"

definition next_due :: "step_input \<Rightarrow> 'c task \<Rightarrow> 'c task_result" where
  "next_due i t =
     (case tk_next_tick t of
        None \<Rightarrow> None
      | Some deadline \<Rightarrow>
          (if deadline \<le> in_now i then goto PcTickClaim (t\<lparr>tk_blocked := True\<rparr>)
           else goto PcYield (t\<lparr>tk_blocked := False\<rparr>)))"

definition next_tick_claim :: "inner \<Rightarrow> execution \<Rightarrow> 'c task \<Rightarrow> 'c task_result" where
  "next_tick_claim w ex t =
     on_world (claim_native_callback w (ex_owner ex) False) (\<lambda>r t.
       if r = Inr True then goto PcOnTick (t\<lparr>tk_blocked := False\<rparr>) else goto PcYield t) t"

definition next_on_tick :: "execution \<Rightarrow> 'c behavior \<Rightarrow> 'c task \<Rightarrow> 'c task_result" where
  "next_on_tick ex b t =
     invoke HkTick (bh_tick b) (new_context ex PhTick None)
       (\<lambda>r panic t. t\<lparr>tk_panicked := panic, tk_pc := reporting Handler None r panic PcTicked\<rparr>) t"

definition next_ticked :: "execution \<Rightarrow> step_input \<Rightarrow> 'c task \<Rightarrow> 'c task_result" where
  "next_ticked ex i t =
     (case (ns_period (ex_spec ex), tk_next_tick t) of
        (Some period, Some deadline) \<Rightarrow>
          goto (PcUnclaim PcYield)
            (upd_stats (\<lambda>x. x\<lparr>nst_ticks := bump (nst_ticks x)\<rparr>)
               (t\<lparr>tk_next_tick := Some (next_deadline period (in_now i) deadline)\<rparr>))
      | _ \<Rightarrow> None)"

subsection \<open>End of a turn and of the task\<close>

definition next_yield :: "execution \<Rightarrow> 'c task \<Rightarrow> 'c task_result" where
  "next_yield ex t =
     (if tk_panicked t then goto PcLeave t
      else if tk_consumed t = nl_events_per_turn (ns_limits (ex_spec ex)) then goto PcTop t
      else goto PcWait t)"

text \<open>The \<^verbatim>\<open>select!\<close> of a change and the tick; without a tick to wait for, only of a change.\<close>

definition tick_elapsed :: "step_input \<Rightarrow> 'c task \<Rightarrow> bool" where
  "tick_elapsed i t \<longleftrightarrow> \<not> tk_quiescing t \<and> \<not> tk_blocked t
     \<and> (case tk_next_tick t of None \<Rightarrow> False | Some deadline \<Rightarrow> deadline \<le> in_now i)"

definition next_wait :: "inner \<Rightarrow> execution \<Rightarrow> step_input \<Rightarrow> 'c task \<Rightarrow> 'c task_result" where
  "next_wait w ex i t =
     (if tick_elapsed i t \<and> in_timer_first i then goto PcTop t
      else on_world (\<lambda>s. Some (poll_activity w (ex_owner ex) (tk_observed t) (in_waker i) s)) (\<lambda>p t.
             case p of Ready _ \<Rightarrow> goto PcTop t
                     | Pending \<Rightarrow> goto (if tick_elapsed i t then PcTop else PcWait) t) t)"

text \<open>\<^verbatim>\<open>cleanup\<close> and \<^verbatim>\<open>dispose\<close>.\<close>

definition next_cleanup :: "execution \<Rightarrow> 'c behavior \<Rightarrow> 'c task \<Rightarrow> 'c task_result" where
  "next_cleanup ex b t =
     invoke HkStop (bh_stop b) (new_context ex PhStop None)
       (\<lambda>r panic t. t\<lparr>tk_pc := reporting Stop None r panic PcDispose\<rparr>) t"

definition next_dispose :: "'c behavior \<Rightarrow> 'c task \<Rightarrow> 'c task_result" where
  "next_dispose b t =
     (let panic = bh_drop b (tk_component t)
      in Some (t\<lparr>tk_pc := (if panic then PcReport Stop None NePanic True PcRelease else PcRelease)\<rparr>,
               Some (HkDrop, if panic then HePanic else HeOk)))"

text \<open>The future ends: its task lease and its runtime permit go.\<close>

definition next_release :: "inner \<Rightarrow> execution \<Rightarrow> 'c task \<Rightarrow> 'c task_result" where
  "next_release w ex t =
     on_world (\<lambda>s. map_option (\<lambda>s. (s, ())) (task_drop w (ex_owner ex) s)) (\<lambda>_ t.
       goto PcDone (t\<lparr>tk_native := give_slot (tk_native t)\<rparr>)) t"

definition next_report ::
  "inner \<Rightarrow> execution \<Rightarrow> failure_phase \<Rightarrow> delivery_lease option \<Rightarrow> native_error \<Rightarrow> bool \<Rightarrow> task_pc \<Rightarrow> 'c task \<Rightarrow>
   'c task_result" where
  "next_report w ex phase delivery e panic pc t =
     Option.bind (ex_failure w ex phase delivery e panic (tk_native t)) (\<lambda>n. goto pc (t\<lparr>tk_native := n\<rparr>))"

fun task_next :: "inner \<Rightarrow> execution \<Rightarrow> 'c behavior \<Rightarrow> step_input \<Rightarrow> 'c task \<Rightarrow> 'c task_result" where
  "task_next w ex b i t =
     (case tk_pc t of
        PcTop \<Rightarrow> next_top w ex t
      | PcState \<Rightarrow> next_state w ex t
      | PcSleep \<Rightarrow> next_sleep w ex i t
      | PcFailure \<Rightarrow> next_failure w ex t
      | PcSupervise lease \<Rightarrow> next_supervise ex b lease t
      | PcFinishFailure lease act \<Rightarrow> next_finish_failure w lease act t
      | PcSupervised \<Rightarrow> next_supervised w ex t
      | PcQuiesce \<Rightarrow> next_quiesce w ex t
      | PcOnQuiesce \<Rightarrow> next_on_quiesce ex b t
      | PcEvents \<Rightarrow> next_events w ex t
      | PcOnEvent lease \<Rightarrow> next_on_event ex b lease t
      | PcFinish lease ok panic \<Rightarrow> next_finish w lease ok panic t
      | PcChecked \<Rightarrow> next_checked w ex t
      | PcDrain \<Rightarrow> next_drain w ex t
      | PcDrainClaim \<Rightarrow> next_drain_claim w ex t
      | PcOnDrain \<Rightarrow> next_on_drain ex b t
      | PcTick \<Rightarrow> next_tick ex i t
      | PcDue \<Rightarrow> next_due i t
      | PcTickClaim \<Rightarrow> next_tick_claim w ex t
      | PcOnTick \<Rightarrow> next_on_tick ex b t
      | PcTicked \<Rightarrow> next_ticked ex i t
      | PcYield \<Rightarrow> next_yield ex t
      | PcWait \<Rightarrow> next_wait w ex i t
      | PcLeave \<Rightarrow> goto (if tk_panicked t then PcDispose else PcCleanup) t
      | PcCleanup \<Rightarrow> next_cleanup ex b t
      | PcDispose \<Rightarrow> next_dispose b t
      | PcRelease \<Rightarrow> next_release w ex t
      | PcDone \<Rightarrow> None
      | PcUnclaim pc \<Rightarrow> next_unclaim w ex pc t
      | PcReport phase delivery e panic pc \<Rightarrow> next_report w ex phase delivery e panic pc t)"

text \<open>The task among the rest of the program, with the hooks it has called.\<close>

inductive task_step ::
  "inner \<Rightarrow> execution \<Rightarrow> 'c behavior \<Rightarrow> 'c task \<times> (hook \<times> hook_end) list \<Rightarrow> 'c task \<times> (hook \<times> hook_end) list \<Rightarrow> bool"
  for w ex b where
  own: "task_next w ex b i t = Some (t', ev) \<Longrightarrow>
     task_step w ex b (t, tr) (t', tr @ (case ev of None \<Rightarrow> [] | Some e \<Rightarrow> [e]))"
| env: "nt_world n = nt_world (tk_native t) \<or> world_op w (nt_world (tk_native t)) (nt_world n) \<Longrightarrow>
     task_step w ex b (t, tr) (t\<lparr>tk_native := n\<rparr>, tr)"

end
