(* ===== verification/Native_Protocol.thy ===== *)
theory Native_Protocol
  imports Native_Loop
begin

text \<open>
  The order of the hooks of a component. \<open>proto_next\<close> is the contract of \<^verbatim>\<open>NativeBehavior\<close> as an automaton; the task
  of \<open>Native_Loop\<close> refines it under every interference and whatever the hooks do. The length of a turn is bounded by
  the component's limits.
\<close>

section \<open>The contract\<close>

text \<open>Live, quiescing or not; ending, only \<^verbatim>\<open>on_stop\<close> is left; dropping, only the destructor is left; over.\<close>

datatype proto = PrLive bool | PrEnding | PrDropping | PrOver

fun proto_next :: "drain_policy \<Rightarrow> proto \<Rightarrow> hook \<times> hook_end \<Rightarrow> proto option" where
  "proto_next d (PrLive q) (HkFailure, e) = Some (if e = HePanic then PrDropping else PrLive q)"
| "proto_next d (PrLive q) (HkEvent, e) = Some (if e = HePanic then PrDropping else PrLive q)"
| "proto_next d (PrLive q) (HkTick, e) =
     (if q then None else Some (if e = HePanic then PrDropping else PrLive False))"
| "proto_next d (PrLive q) (HkQuiesce, e) =
     (if q then None
      else Some (if e = HePanic then PrDropping
                 else if e = HeErr \<or> d = Producer then PrEnding else PrLive True))"
| "proto_next d (PrLive q) (HkDrain, e) =
     (if q then Some (if e = HePanic then PrDropping else PrEnding) else None)"
| "proto_next d (PrLive q) (HkStop, e) = Some PrDropping"
| "proto_next d PrEnding (HkStop, e) = Some PrDropping"
| "proto_next d PrDropping (HkDrop, e) = Some PrOver"
| "proto_next d p ev = None"

fun proto_run :: "drain_policy \<Rightarrow> proto \<Rightarrow> (hook \<times> hook_end) list \<Rightarrow> proto option" where
  "proto_run d p [] = Some p"
| "proto_run d p (ev # evs) = Option.bind (proto_next d p ev) (\<lambda>p'. proto_run d p' evs)"

lemma proto_run_append: "proto_run d p (xs @ ys) = Option.bind (proto_run d p xs) (\<lambda>p'. proto_run d p' ys)"
  by (induction xs arbitrary: p) (auto split: Option.bind_split)

section \<open>Simulation\<close>

text \<open>Which contract states a control point may be in.\<close>

fun pc_proto :: "task_pc \<Rightarrow> bool \<Rightarrow> bool \<Rightarrow> proto \<Rightarrow> bool" where
  "pc_proto (PcReport phase delivery e panic pc) q x p = pc_proto pc q x p"
| "pc_proto (PcUnclaim pc) q x p = pc_proto pc q x p"
| "pc_proto (PcFinish lease ok panic) q x p = (\<not> x \<and> p = (if panic then PrDropping else PrLive q))"
| "pc_proto (PcFinishFailure lease act) q x p = (p = (if x then PrDropping else PrLive q))"
| "pc_proto PcSupervised q x p = (p = (if x then PrDropping else PrLive q))"
| "pc_proto PcOnQuiesce q x p = (q \<and> \<not> x \<and> p = PrLive False)"
| "pc_proto PcDrainClaim q x p = (q \<and> \<not> x \<and> p = PrLive q)"
| "pc_proto PcOnDrain q x p = (q \<and> \<not> x \<and> p = PrLive q)"
| "pc_proto PcTick q x p = (\<not> q \<and> \<not> x \<and> p = PrLive q)"
| "pc_proto PcDue q x p = (\<not> q \<and> \<not> x \<and> p = PrLive q)"
| "pc_proto PcTickClaim q x p = (\<not> q \<and> \<not> x \<and> p = PrLive q)"
| "pc_proto PcOnTick q x p = (\<not> q \<and> \<not> x \<and> p = PrLive q)"
| "pc_proto PcTicked q x p = (\<not> q \<and> p = (if x then PrDropping else PrLive q))"
| "pc_proto PcYield q x p = (p = (if x then PrDropping else PrLive q))"
| "pc_proto PcLeave q x p = (if x then p = PrDropping else p = PrEnding \<or> (\<exists>q'. p = PrLive q'))"
| "pc_proto PcCleanup q x p = (p = PrEnding \<or> (\<exists>q'. p = PrLive q'))"
| "pc_proto PcDispose q x p = (p = PrDropping)"
| "pc_proto PcRelease q x p = (p = PrOver)"
| "pc_proto PcDone q x p = (p = PrOver)"
| "pc_proto pc q x p = (\<not> x \<and> p = PrLive q)"

abbreviation task_proto :: "'c task \<Rightarrow> proto \<Rightarrow> bool" where
  "task_proto t p \<equiv> pc_proto (tk_pc t) (tk_quiescing t) (tk_panicked t) p"

text \<open>One segment of the loop at a time: if its step calls no hook, the contract state is kept; if it calls one, the
  contract allows it.\<close>

definition obeys :: "drain_policy \<Rightarrow> proto \<Rightarrow> 'c task_result \<Rightarrow> bool" where
  "obeys d p r \<longleftrightarrow> (\<forall>t ev. r = Some (t, ev) \<longrightarrow>
     (case ev of None \<Rightarrow> task_proto t p | Some e \<Rightarrow> (\<exists>p'. proto_next d p e = Some p' \<and> task_proto t p')))"

lemma obeys_goto [simp]: "obeys d p (goto pc t) \<longleftrightarrow> pc_proto pc (tk_quiescing t) (tk_panicked t) p"
  by (simp add: obeys_def goto_def)

lemma obeys_None [simp]: "obeys d p None"
  by (simp add: obeys_def)

lemma obeys_world:
  assumes "\<And>r s. obeys d p (k r (set_world s t))"
  shows "obeys d p (on_world f k t)"
  using assms by (cases "f (nt_world (tk_native t))") (auto simp: on_world_def)

lemma obeys_ask:
  assumes "\<And>r. obeys d p (k r t)"
  shows "obeys d p (ask_world f k t)"
  using assms by (cases "f (nt_world (tk_native t))") (auto simp: ask_world_def)

lemma obeys_invoke:
  assumes "\<And>c n r panic. (panic \<longrightarrow> r = Inl NePanic) \<Longrightarrow> \<exists>p'. proto_next d p (h, hook_end_of r panic) = Some p'
    \<and> task_proto (k r panic (t\<lparr>tk_component := c, tk_native := n\<rparr>)) p'"
  shows "obeys d p (invoke h f cx k t)"
  unfolding obeys_def invoke_def
  by (auto simp: Let_def bind_eq_Some_conv split: option.splits intro!: assms)

lemmas proto_steps = next_top_def next_state_def next_sleep_def next_failure_def next_finish_failure_def
  next_supervised_def next_quiesce_def next_unclaim_def next_events_def next_checked_def next_drain_def
  next_drain_claim_def next_tick_def next_due_def next_tick_claim_def next_ticked_def next_yield_def
  next_wait_def next_release_def next_report_def next_finish_def

lemmas proto_hooks = next_supervise_def next_on_quiesce_def next_on_event_def next_on_drain_def next_on_tick_def
  next_cleanup_def

lemma world_steps_obey:
  "tk_pc t = PcTop \<Longrightarrow> task_proto t p \<Longrightarrow> obeys d p (next_top w ex t)"
  "tk_pc t = PcState \<Longrightarrow> task_proto t p \<Longrightarrow> obeys d p (next_state w ex t)"
  "tk_pc t = PcSleep \<Longrightarrow> task_proto t p \<Longrightarrow> obeys d p (next_sleep w ex i t)"
  "tk_pc t = PcFailure \<Longrightarrow> task_proto t p \<Longrightarrow> obeys d p (next_failure w ex t)"
  "tk_pc t = PcFinishFailure fl act \<Longrightarrow> task_proto t p \<Longrightarrow> obeys d p (next_finish_failure w fl act t)"
  "tk_pc t = PcSupervised \<Longrightarrow> task_proto t p \<Longrightarrow> obeys d p (next_supervised w ex t)"
  "tk_pc t = PcQuiesce \<Longrightarrow> task_proto t p \<Longrightarrow> obeys d p (next_quiesce w ex t)"
  "tk_pc t = PcEvents \<Longrightarrow> task_proto t p \<Longrightarrow> obeys d p (next_events w ex t)"
  "tk_pc t = PcFinish l ok panic \<Longrightarrow> task_proto t p \<Longrightarrow> obeys d p (next_finish w l ok panic t)"
  "tk_pc t = PcChecked \<Longrightarrow> task_proto t p \<Longrightarrow> obeys d p (next_checked w ex t)"
  "tk_pc t = PcDrain \<Longrightarrow> task_proto t p \<Longrightarrow> obeys d p (next_drain w ex t)"
  "tk_pc t = PcDrainClaim \<Longrightarrow> task_proto t p \<Longrightarrow> obeys d p (next_drain_claim w ex t)"
  "tk_pc t = PcTick \<Longrightarrow> task_proto t p \<Longrightarrow> obeys d p (next_tick ex i t)"
  "tk_pc t = PcDue \<Longrightarrow> task_proto t p \<Longrightarrow> obeys d p (next_due i t)"
  "tk_pc t = PcTickClaim \<Longrightarrow> task_proto t p \<Longrightarrow> obeys d p (next_tick_claim w ex t)"
  "tk_pc t = PcTicked \<Longrightarrow> task_proto t p \<Longrightarrow> obeys d p (next_ticked ex i t)"
  "tk_pc t = PcYield \<Longrightarrow> task_proto t p \<Longrightarrow> obeys d p (next_yield ex t)"
  "tk_pc t = PcWait \<Longrightarrow> task_proto t p \<Longrightarrow> obeys d p (next_wait w ex i t)"
  "tk_pc t = PcRelease \<Longrightarrow> task_proto t p \<Longrightarrow> obeys d p (next_release w ex t)"
  "tk_pc t = PcUnclaim pc \<Longrightarrow> task_proto t p \<Longrightarrow> obeys d p (next_unclaim w ex pc t)"
  unfolding proto_steps
  by (auto intro!: obeys_world obeys_ask simp: Let_def split: sum.splits option.splits poll.splits)

lemma report_obeys:
  "tk_pc t = PcReport phase delivery e panic pc \<Longrightarrow> task_proto t p \<Longrightarrow>
    obeys d p (next_report w ex phase delivery e panic pc t)"
  by (cases "ex_failure w ex phase delivery e panic (tk_native t)") (simp_all add: next_report_def)

lemma hook_steps_obey:
  "tk_pc t = PcSupervise fl \<Longrightarrow> task_proto t p \<Longrightarrow> obeys d p (next_supervise ex b fl t)"
  "tk_pc t = PcOnQuiesce \<Longrightarrow> task_proto t p \<Longrightarrow> obeys (ns_drain (ex_spec ex)) p (next_on_quiesce ex b t)"
  "tk_pc t = PcOnEvent l \<Longrightarrow> task_proto t p \<Longrightarrow> obeys d p (next_on_event ex b l t)"
  "tk_pc t = PcOnDrain \<Longrightarrow> task_proto t p \<Longrightarrow> obeys d p (next_on_drain ex b t)"
  "tk_pc t = PcOnTick \<Longrightarrow> task_proto t p \<Longrightarrow> obeys d p (next_on_tick ex b t)"
  "tk_pc t = PcCleanup \<Longrightarrow> task_proto t p \<Longrightarrow> obeys d p (next_cleanup ex b t)"
  unfolding proto_hooks
  by (auto intro!: obeys_invoke simp: hook_end_of_def reporting_def split: sum.splits)

lemma dispose_obeys: "tk_pc t = PcDispose \<Longrightarrow> task_proto t p \<Longrightarrow> obeys d p (next_dispose b t)"
  by (auto simp: next_dispose_def obeys_def Let_def)

lemma task_obeys:
  assumes "task_proto t p"
  shows "obeys (ns_drain (ex_spec ex)) p (task_next w ex b i t)"
  using assms
  by (cases "tk_pc t")
    (simp_all add: world_steps_obey report_obeys hook_steps_obey dispose_obeys)

definition task_initial :: "'c task \<times> (hook \<times> hook_end) list \<Rightarrow> bool" where
  "task_initial x \<longleftrightarrow> (\<exists>n c. x = (task_new n c, []))"

definition task_inv :: "execution \<Rightarrow> 'c task \<times> (hook \<times> hook_end) list \<Rightarrow> bool" where
  "task_inv ex x \<longleftrightarrow> (\<exists>p. proto_run (ns_drain (ex_spec ex)) (PrLive False) (snd x) = Some p \<and> task_proto (fst x) p)"

interpretation task: invariant_system task_initial "task_step w ex b" "task_inv ex" for w ex b
proof unfold_locales
  show "task_inv ex x" if "task_initial x" for x :: "'a task \<times> (hook \<times> hook_end) list"
    using that by (auto simp: task_initial_def task_inv_def task_new_def)
next
  fix x y :: "'a task \<times> (hook \<times> hook_end) list"
  assume "task_step w ex b x y" "task_inv ex x"
  then show "task_inv ex y"
  proof (induction rule: task_step.induct)
    case (own i t t' ev tr)
    then obtain p where p: "proto_run (ns_drain (ex_spec ex)) (PrLive False) tr = Some p" "task_proto t p"
      by (auto simp: task_inv_def)
    with task_obeys [OF p(2), of ex w b i] own(1) show ?case
      by (auto simp: obeys_def task_inv_def proto_run_append split: option.splits)
  next
    case (env n t tr)
    then show ?case by (simp add: task_inv_def)
  qed
qed

section \<open>What the contract means\<close>

definition calls :: "hook \<Rightarrow> (hook \<times> hook_end) list \<Rightarrow> nat" where
  "calls h tr = length (filter (\<lambda>e. fst e = h) tr)"

lemma calls_simps [simp]:
  "calls h [] = 0" "calls h (e # tr) = (if fst e = h then 1 else 0) + calls h tr" "calls h (xs @ ys) = calls h xs + calls h ys"
  by (simp_all add: calls_def)

text \<open>How often a hook can still be called in a contract state.\<close>

fun proto_left :: "proto \<Rightarrow> hook \<Rightarrow> nat" where
  "proto_left p HkStop = (case p of PrLive q \<Rightarrow> 1 | PrEnding \<Rightarrow> 1 | _ \<Rightarrow> 0)"
| "proto_left p HkQuiesce = (if p = PrLive False then 1 else 0)"
| "proto_left p HkDrain = (case p of PrLive q \<Rightarrow> 1 | _ \<Rightarrow> 0)"
| "proto_left p HkDrop = (if p = PrOver then 0 else 1)"
| "proto_left p h = 0"

definition once :: "hook \<Rightarrow> bool" where
  "once h \<longleftrightarrow> h \<in> {HkStop, HkQuiesce, HkDrain, HkDrop}"

lemma proto_next_left:
  assumes "proto_next d p e = Some p'" "once h"
  shows "proto_left p' h + (if fst e = h then 1 else 0) \<le> proto_left p h"
  using assms by (cases "(d, p, e)" rule: proto_next.cases; cases h) (auto simp: once_def split: if_splits)

lemma proto_run_left:
  "proto_run d p tr = Some p' \<Longrightarrow> once h \<Longrightarrow> calls h tr + proto_left p' h \<le> proto_left p h"
proof (induction tr arbitrary: p)
  case (Cons e tr)
  then obtain p1 where "proto_next d p e = Some p1" "proto_run d p1 tr = Some p'" by (auto simp: bind_eq_Some_conv)
  with Cons.IH [of p1] Cons.prems(2) proto_next_left [of d p e p1 h] show ?case by (auto split: if_splits)
qed simp

lemma proto_left_initial: "proto_left p h \<le> 1"
  by (cases h; cases p) auto

lemma proto_run_once: "proto_run d p tr = Some p' \<Longrightarrow> once h \<Longrightarrow> calls h tr \<le> 1"
  using proto_run_left [of d p tr p' h] proto_left_initial [of p h] by simp

text \<open>A component that is over was dropped last, and stopped unless a hook panicked.\<close>

lemma proto_over_drop:
  "proto_run d p tr = Some PrOver \<Longrightarrow> p \<noteq> PrOver \<Longrightarrow> \<exists>body e. tr = body @ [(HkDrop, e)]"
proof (induction tr arbitrary: p)
  case (Cons e tr)
  then obtain p1 where p1: "proto_next d p e = Some p1" "proto_run d p1 tr = Some PrOver" by (auto simp: bind_eq_Some_conv)
  show ?case
  proof (cases "p1 = PrOver")
    case True
    moreover have "fst e = HkDrop" using p1(1) True by (cases "(d, p, e)" rule: proto_next.cases) (auto split: if_splits)
    moreover have "tr = []" using p1(2) True by (cases tr) (auto simp: bind_eq_Some_conv)
    ultimately show ?thesis by (cases e) auto
  next
    case False
    from Cons.IH [OF p1(2) False] obtain body e' where "tr = body @ [(HkDrop, e')]" by blast
    then have "e # tr = (e # body) @ [(HkDrop, e')]" by simp
    then show ?thesis by blast
  qed
qed simp

lemma proto_over_stop:
  "proto_run d p tr = Some PrOver \<Longrightarrow> p = PrEnding \<or> (\<exists>q. p = PrLive q) \<Longrightarrow>
    calls HkStop tr = 1 \<or> (\<exists>h. (h, HePanic) \<in> set tr)"
proof (induction tr arbitrary: p)
  case (Cons e tr)
  then obtain p1 where p1: "proto_next d p e = Some p1" "proto_run d p1 tr = Some PrOver" by (auto simp: bind_eq_Some_conv)
  then consider "p1 = PrEnding \<or> (\<exists>q. p1 = PrLive q)" "fst e \<noteq> HkStop" | "snd e = HePanic" | "p1 = PrDropping" "fst e = HkStop"
    using Cons.prems(2) by (cases "(d, p, e)" rule: proto_next.cases) (auto split: if_splits)
  then show ?case
  proof cases
    case 1
    then show ?thesis using Cons.IH [OF p1(2)] by auto
  next
    case 2
    then show ?thesis by (cases e) auto
  next
    case 3
    then show ?thesis using proto_run_left [OF p1(2), of HkStop] by (simp add: once_def)
  qed
qed auto

section \<open>Turns\<close>

definition pausing :: "task_pc \<Rightarrow> bool" where
  "pausing pc \<longleftrightarrow> pc \<in> {PcTop, PcSleep, PcWait, PcDone}"

text \<open>How many steps a turn can still take: \<open>m\<close> is the limit of events, \<open>c\<close> those consumed.\<close>

fun pc_rank :: "nat \<Rightarrow> nat \<Rightarrow> task_pc \<Rightarrow> nat" where
  "pc_rank m c PcDone = 0"
| "pc_rank m c PcRelease = 1"
| "pc_rank m c PcDispose = 3"
| "pc_rank m c PcCleanup = 5"
| "pc_rank m c PcLeave = 6"
| "pc_rank m c PcYield = 7"
| "pc_rank m c PcTicked = 9"
| "pc_rank m c PcOnTick = 11"
| "pc_rank m c PcTickClaim = 12"
| "pc_rank m c PcDue = 13"
| "pc_rank m c PcTick = 14"
| "pc_rank m c PcOnDrain = 9"
| "pc_rank m c PcDrainClaim = 10"
| "pc_rank m c PcDrain = 15"
| "pc_rank m c PcChecked = 16"
| "pc_rank m c PcEvents = 17 + 4 * (m - c)"
| "pc_rank m c (PcFinish lease ok panic) = 18 + 4 * (m - Suc c)"
| "pc_rank m c (PcOnEvent lease) = 20 + 4 * (m - Suc c)"
| "pc_rank m c PcOnQuiesce = 19 + 4 * m"
| "pc_rank m c PcQuiesce = 20 + 4 * m"
| "pc_rank m c PcSupervised = 21 + 4 * m"
| "pc_rank m c (PcFinishFailure lease act) = 22 + 4 * m"
| "pc_rank m c (PcSupervise lease) = 24 + 4 * m"
| "pc_rank m c PcFailure = 25 + 4 * m"
| "pc_rank m c PcState = 26 + 4 * m"
| "pc_rank m c PcTop = 27 + 4 * m"
| "pc_rank m c PcSleep = 28 + 4 * m"
| "pc_rank m c PcWait = 28 + 4 * m"
| "pc_rank m c (PcUnclaim pc) = pc_rank m c pc + 1"
| "pc_rank m c (PcReport phase delivery e panic pc) = pc_rank m c pc + 1"

text \<open>How many events a turn can still handle.\<close>

fun pc_events :: "nat \<Rightarrow> nat \<Rightarrow> task_pc \<Rightarrow> nat" where
  "pc_events m c PcEvents = m - c"
| "pc_events m c (PcFinish lease ok panic) = m - Suc c"
| "pc_events m c (PcOnEvent lease) = Suc (m - Suc c)"
| "pc_events m c (PcUnclaim pc) = pc_events m c pc"
| "pc_events m c (PcReport phase delivery e panic pc) = pc_events m c pc"
| "pc_events m c pc =
     (if pc \<in> {PcOnQuiesce, PcQuiesce, PcSupervised, PcFailure, PcState, PcTop, PcSleep, PcWait} then m
      else case pc of PcFinishFailure l a \<Rightarrow> m | PcSupervise l \<Rightarrow> m | _ \<Rightarrow> 0)"

abbreviation task_limit :: "execution \<Rightarrow> nat" where
  "task_limit ex \<equiv> nl_events_per_turn (ns_limits (ex_spec ex))"

definition limited :: "nat \<Rightarrow> nat \<Rightarrow> nat \<Rightarrow> 'c task_result \<Rightarrow> bool" where
  "limited m steps events r \<longleftrightarrow> (\<forall>t ev. r = Some (t, ev) \<longrightarrow>
     pausing (tk_pc t) \<and> ev = None
     \<or> pc_rank m (tk_consumed t) (tk_pc t) < steps
       \<and> pc_events m (tk_consumed t) (tk_pc t) + (if map_option fst ev = Some HkEvent then 1 else 0) \<le> events)"

lemma limited_goto [simp]:
  "limited m steps events (goto pc t) \<longleftrightarrow>
     pausing pc \<or> pc_rank m (tk_consumed t) pc < steps \<and> pc_events m (tk_consumed t) pc \<le> events"
  by (auto simp: limited_def goto_def)

lemma limited_None [simp]: "limited m steps events None"
  by (simp add: limited_def)

lemma limited_world:
  assumes "\<And>r s. limited m steps events (k r (set_world s t))"
  shows "limited m steps events (on_world f k t)"
  using assms by (cases "f (nt_world (tk_native t))") (auto simp: on_world_def)

lemma limited_ask:
  assumes "\<And>r. limited m steps events (k r t)"
  shows "limited m steps events (ask_world f k t)"
  using assms by (cases "f (nt_world (tk_native t))") (auto simp: ask_world_def)

lemma limited_invoke:
  assumes "\<And>c n r panic u. u = k r panic (t\<lparr>tk_component := c, tk_native := n\<rparr>) \<Longrightarrow>
    pc_rank m (tk_consumed u) (tk_pc u) < steps
    \<and> pc_events m (tk_consumed u) (tk_pc u) + (if h = HkEvent then 1 else 0) \<le> events"
  shows "limited m steps events (invoke h f cx k t)"
  unfolding limited_def invoke_def using assms by (auto simp: Let_def bind_eq_Some_conv)

lemma world_steps_limited:
  "limited m (pc_rank m (tk_consumed t) PcTop) (pc_events m (tk_consumed t) PcTop) (next_top w ex t)"
  "limited m (pc_rank m (tk_consumed t) PcState) (pc_events m (tk_consumed t) PcState) (next_state w ex t)"
  "limited m (pc_rank m (tk_consumed t) PcSleep) (pc_events m (tk_consumed t) PcSleep) (next_sleep w ex i t)"
  "limited m (pc_rank m (tk_consumed t) PcFailure) (pc_events m (tk_consumed t) PcFailure) (next_failure w ex t)"
  "limited m (pc_rank m (tk_consumed t) (PcFinishFailure fl act)) (pc_events m (tk_consumed t) (PcFinishFailure fl act))
     (next_finish_failure w fl act t)"
  "limited m (pc_rank m (tk_consumed t) PcSupervised) (pc_events m (tk_consumed t) PcSupervised) (next_supervised w ex t)"
  "limited m (pc_rank m (tk_consumed t) PcQuiesce) (pc_events m (tk_consumed t) PcQuiesce) (next_quiesce w ex t)"
  "limited m (pc_rank m (tk_consumed t) (PcFinish l ok panic)) (pc_events m (tk_consumed t) (PcFinish l ok panic))
     (next_finish w l ok panic t)"
  "limited m (pc_rank m (tk_consumed t) PcChecked) (pc_events m (tk_consumed t) PcChecked) (next_checked w ex t)"
  "limited m (pc_rank m (tk_consumed t) PcDrain) (pc_events m (tk_consumed t) PcDrain) (next_drain w ex t)"
  "limited m (pc_rank m (tk_consumed t) PcDrainClaim) (pc_events m (tk_consumed t) PcDrainClaim) (next_drain_claim w ex t)"
  "limited m (pc_rank m (tk_consumed t) PcTick) (pc_events m (tk_consumed t) PcTick) (next_tick ex i t)"
  "limited m (pc_rank m (tk_consumed t) PcDue) (pc_events m (tk_consumed t) PcDue) (next_due i t)"
  "limited m (pc_rank m (tk_consumed t) PcTickClaim) (pc_events m (tk_consumed t) PcTickClaim) (next_tick_claim w ex t)"
  "limited m (pc_rank m (tk_consumed t) PcTicked) (pc_events m (tk_consumed t) PcTicked) (next_ticked ex i t)"
  "limited m (pc_rank m (tk_consumed t) PcYield) (pc_events m (tk_consumed t) PcYield) (next_yield ex t)"
  "limited m (pc_rank m (tk_consumed t) PcWait) (pc_events m (tk_consumed t) PcWait) (next_wait w ex i t)"
  "limited m (pc_rank m (tk_consumed t) PcRelease) (pc_events m (tk_consumed t) PcRelease) (next_release w ex t)"
  "limited m (pc_rank m (tk_consumed t) (PcUnclaim pc)) (pc_events m (tk_consumed t) (PcUnclaim pc)) (next_unclaim w ex pc t)"
  unfolding proto_steps
  by (auto intro!: limited_world limited_ask simp: Let_def pausing_def split: sum.splits option.splits poll.splits)

lemma events_limited:
  "limited (task_limit ex) (pc_rank (task_limit ex) (tk_consumed t) PcEvents)
     (pc_events (task_limit ex) (tk_consumed t) PcEvents) (next_events w ex t)"
  unfolding next_events_def
  by (auto intro!: limited_world split: sum.splits option.splits)

lemma report_limited:
  "limited m (pc_rank m (tk_consumed t) (PcReport phase delivery e panic pc))
     (pc_events m (tk_consumed t) (PcReport phase delivery e panic pc)) (next_report w ex phase delivery e panic pc t)"
  by (cases "ex_failure w ex phase delivery e panic (tk_native t)") (simp_all add: next_report_def)

lemma hook_steps_limited:
  "limited m (pc_rank m (tk_consumed t) (PcSupervise fl)) (pc_events m (tk_consumed t) (PcSupervise fl))
     (next_supervise ex b fl t)"
  "limited m (pc_rank m (tk_consumed t) PcOnQuiesce) (pc_events m (tk_consumed t) PcOnQuiesce) (next_on_quiesce ex b t)"
  "limited m (pc_rank m (tk_consumed t) (PcOnEvent l)) (pc_events m (tk_consumed t) (PcOnEvent l)) (next_on_event ex b l t)"
  "limited m (pc_rank m (tk_consumed t) PcOnDrain) (pc_events m (tk_consumed t) PcOnDrain) (next_on_drain ex b t)"
  "limited m (pc_rank m (tk_consumed t) PcOnTick) (pc_events m (tk_consumed t) PcOnTick) (next_on_tick ex b t)"
  "limited m (pc_rank m (tk_consumed t) PcCleanup) (pc_events m (tk_consumed t) PcCleanup) (next_cleanup ex b t)"
  unfolding proto_hooks
  by (auto intro!: limited_invoke simp: reporting_def split: sum.splits)

lemma dispose_limited:
  "limited m (pc_rank m (tk_consumed t) PcDispose) (pc_events m (tk_consumed t) PcDispose) (next_dispose b t)"
  by (simp add: next_dispose_def limited_def Let_def)

lemma leave_limited:
  "limited m (pc_rank m (tk_consumed t) PcLeave) (pc_events m (tk_consumed t) PcLeave)
     (goto (if x then PcDispose else PcCleanup) t)"
  by simp

lemma task_limited:
  "limited (task_limit ex) (pc_rank (task_limit ex) (tk_consumed t) (tk_pc t))
     (pc_events (task_limit ex) (tk_consumed t) (tk_pc t)) (task_next w ex b i t)"
  by (cases "tk_pc t")
    (simp_all only: task_next.simps task_pc.case world_steps_limited events_limited report_limited hook_steps_limited
      dispose_limited leave_limited limited_None)

text \<open>A turn: steps of the task between two pauses, with what the rest of the program does meanwhile.\<close>

inductive turn_run ::
  "inner \<Rightarrow> execution \<Rightarrow> 'c behavior \<Rightarrow> 'c task \<Rightarrow> nat \<Rightarrow> (hook \<times> hook_end) list \<Rightarrow> 'c task \<Rightarrow> bool" for w ex b t where
  turn_start: "turn_run w ex b t 0 [] t"
| turn_own: "turn_run w ex b t k tr t1 \<Longrightarrow> task_next w ex b i t1 = Some (t2, ev) \<Longrightarrow> \<not> pausing (tk_pc t2) \<Longrightarrow>
     turn_run w ex b t (Suc k) (tr @ (case ev of None \<Rightarrow> [] | Some e \<Rightarrow> [e])) t2"
| turn_env: "turn_run w ex b t k tr t1 \<Longrightarrow> turn_run w ex b t k tr (t1\<lparr>tk_native := n\<rparr>)"

lemma turn_run_left:
  assumes "turn_run w ex b t k tr t'"
  shows "k + pc_rank (task_limit ex) (tk_consumed t') (tk_pc t') \<le> pc_rank (task_limit ex) (tk_consumed t) (tk_pc t)
    \<and> calls HkEvent tr + pc_events (task_limit ex) (tk_consumed t') (tk_pc t')
        \<le> pc_events (task_limit ex) (tk_consumed t) (tk_pc t)"
  using assms
proof (induction rule: turn_run.induct)
  case (turn_own k tr t1 i t2 ev)
  then show ?case
    using task_limited [of ex t1 w b i] by (cases ev) (auto simp: limited_def split: if_splits)
qed simp_all

section \<open>The World under a component\<close>

text \<open>The interface of the task to the hooks: they act on the World through its methods only, and every permit they
  take is held by work they have handed over. What a behaviour is made of (\<open>Native_Effects\<close>) gives these laws; the
  behaviours of the runtime interpret the locale.\<close>

definition kept :: "inner \<Rightarrow> native \<Rightarrow> native \<Rightarrow> bool" where
  "kept w n n' \<longleftrightarrow> along w n n' \<and> owes 0 0 0 n n'"

lemma kept_along: "kept w n n' \<Longrightarrow> along w n n'"
  by (simp add: kept_def)

lemma kept_refl [simp]: "kept w n n"
  by (simp add: kept_def)

lemma kept_trans: "kept w n n' \<Longrightarrow> kept w n' n'' \<Longrightarrow> kept w n n''"
  unfolding kept_def using owes_trans by (auto simp: along_def intro: rtranclp_trans)

lemma kept_world: "world_op w (nt_world n) s \<Longrightarrow> kept w n (n\<lparr>nt_world := s\<rparr>)"
  by (simp add: kept_def along_def)

locale native_behavior =
  fixes w :: inner
    and b :: "'c behavior"
  assumes start_kept: "bh_start b c n cx = Some (c', n', r) \<Longrightarrow> kept w n n'"
    and event_kept: "bh_event b p c n cx = Some (c', n', r) \<Longrightarrow> kept w n n'"
    and tick_kept: "bh_tick b c n cx = Some (c', n', r) \<Longrightarrow> kept w n n'"
    and quiesce_kept: "bh_quiesce b c n cx = Some (c', n', r) \<Longrightarrow> kept w n n'"
    and failure_kept: "bh_failure b f k c n cx = Some (c', n', r') \<Longrightarrow> kept w n n'"
    and drain_kept: "bh_drain b c n cx = Some (c', n', r) \<Longrightarrow> kept w n n'"
    and stop_kept: "bh_stop b c n cx = Some (c', n', r) \<Longrightarrow> kept w n n'"

definition task_along :: "inner \<Rightarrow> 'c task \<Rightarrow> 'c task_result \<Rightarrow> bool" where
  "task_along w t r \<longleftrightarrow> (\<forall>t' ev. r = Some (t', ev) \<longrightarrow> along w (tk_native t) (tk_native t'))"

lemma task_along_None [simp]: "task_along w t None"
  by (simp add: task_along_def)

lemma task_along_goto [simp]: "task_along w t (goto pc t') \<longleftrightarrow> along w (tk_native t) (tk_native t')"
  by (simp add: task_along_def goto_def)

lemma task_along_ask: "(\<And>r. task_along w t (k r t)) \<Longrightarrow> task_along w t (ask_world f k t)"
  by (cases "f (nt_world (tk_native t))") (auto simp: ask_world_def)

lemma along_op: "world_op w (nt_world n) s \<Longrightarrow> along w n (n\<lparr>nt_world := s\<rparr>)"
  by (simp add: along_def)

lemma task_along_world:
  assumes "\<And>s r. f (nt_world (tk_native t)) = Some (s, r) \<Longrightarrow> world_op w (nt_world (tk_native t)) s"
    and "\<And>r s. along w (tk_native t) (tk_native (set_world s t)) \<Longrightarrow> task_along w t (k r (set_world s t))"
  shows "task_along w t (on_world f k t)"
proof (cases "f (nt_world (tk_native t))")
  case (Some x)
  then obtain s r where x: "f (nt_world (tk_native t)) = Some (s, r)" by (cases x) auto
  have "along w (tk_native t) (tk_native (set_world s t))" using along_op [OF assms(1) [OF x]] by simp
  then show ?thesis using x assms(2) by (simp add: on_world_def)
qed (simp add: on_world_def)

lemma task_along_invoke:
  assumes "\<And>c n r. f (tk_component t) (tk_native t) cx = Some (c, n, r) \<Longrightarrow> along w (tk_native t) n"
    and "\<And>r panic u. tk_native (k r panic u) = tk_native u"
  shows "task_along w t (invoke h f cx k t)"
  unfolding task_along_def invoke_def using assms by (auto simp: Let_def bind_eq_Some_conv)

lemma task_ops:
  "world_activity w r s = Some (t, x1) \<Longrightarrow> world_op w s t"
  "poll_activity w r observed incoming s = (t, x2) \<Longrightarrow> world_op w s t"
  "claim_failure w r s = Some (t, x3) \<Longrightarrow> world_op w s t"
  "failure_lease_finish w flease act s = Some (t, x4) \<Longrightarrow> world_op w s t"
  "claim_native_drain_callback w r s = Some (t, x5) \<Longrightarrow> world_op w s t"
  "native_callback_drop w r s = Some t \<Longrightarrow> world_op w s t"
  "claim w r s = Some (t, x6) \<Longrightarrow> world_op w s t"
  "lease_finish w lease ok s = Some t \<Longrightarrow> world_op w s t"
  "claim_native_callback w r startup s = Some (t, x7) \<Longrightarrow> world_op w s t"
  "report_failure w r event_id schema operation details action s = Some (t, x8) \<Longrightarrow> world_op w s t"
  "task_drop w r s = Some t \<Longrightarrow> world_op w s t"
  unfolding world_op_def by (blast intro: work_op.intros claim_op.intros)+

lemma along_stats [simp]:
  "along w n (m\<lparr>nt_stats := x\<rparr>) \<longleftrightarrow> along w n m" "along w n (give_slot m) \<longleftrightarrow> along w n m"
  by simp_all

lemma world_steps_along:
  "task_along w t (next_top w ex t)" "task_along w t (next_state w ex t)" "task_along w t (next_sleep w ex i t)"
  "task_along w t (next_failure w ex t)" "task_along w t (next_finish_failure w fl act t)"
  "task_along w t (next_supervised w ex t)" "task_along w t (next_quiesce w ex t)" "task_along w t (next_events w ex t)"
  "task_along w t (next_finish w l ok panic t)" "task_along w t (next_checked w ex t)" "task_along w t (next_drain w ex t)"
  "task_along w t (next_drain_claim w ex t)" "task_along w t (next_tick ex i t)" "task_along w t (next_due i t)"
  "task_along w t (next_tick_claim w ex t)" "task_along w t (next_ticked ex i t)" "task_along w t (next_yield ex t)"
  "task_along w t (next_wait w ex i t)" "task_along w t (next_release w ex t)" "task_along w t (next_unclaim w ex pc t)"
  unfolding proto_steps
  by (auto intro!: task_along_world task_along_ask dest: task_ops simp: Let_def split: sum.splits option.splits poll.splits)

lemma report_along: "task_along w t (next_report w ex phase delivery e panic pc t)"
  by (auto simp: task_along_def next_report_def ex_failure_def goto_def bind_eq_Some_conv
      intro!: along_op dest: task_ops)

context native_behavior
begin

lemma hook_steps_along:
  "task_along w t (next_supervise ex b fl t)" "task_along w t (next_on_quiesce ex b t)"
  "task_along w t (next_on_event ex b l t)" "task_along w t (next_on_drain ex b t)" "task_along w t (next_on_tick ex b t)"
  "task_along w t (next_cleanup ex b t)"
  unfolding proto_hooks
  by (auto intro!: task_along_invoke split: sum.splits
      intro: kept_along event_kept tick_kept quiesce_kept failure_kept drain_kept stop_kept)

lemma dispose_along: "task_along w t (next_dispose b t)"
  by (simp add: task_along_def next_dispose_def Let_def)

lemma task_next_along: "task_along w t (task_next w ex b i t)"
  by (cases "tk_pc t")
    (simp_all add: world_steps_along report_along hook_steps_along dispose_along)

lemma task_step_world:
  assumes "task_step w ex b x y"
  shows "(world_op w)\<^sup>*\<^sup>* (nt_world (tk_native (fst x))) (nt_world (tk_native (fst y)))"
  using assms
proof (induction rule: task_step.induct)
  case (own i t t' ev tr)
  then show ?case using task_next_along [of t ex i] by (simp add: task_along_def along_def)
qed auto

lemma task_steps_world:
  assumes "(task_step w ex b)\<^sup>*\<^sup>* x y"
  shows "(world_op w)\<^sup>*\<^sup>* (nt_world (tk_native (fst x))) (nt_world (tk_native (fst y)))"
  using assms by (induction rule: rtranclp_induct) (auto intro: rtranclp_trans task_step_world)

lemma task_keeps_reachable:
  "(task_step w ex b)\<^sup>*\<^sup>* x y \<Longrightarrow> world_reachable w (nt_world (tk_native (fst x))) \<Longrightarrow>
    world_reachable w (nt_world (tk_native (fst y)))"
  by (rule world.reachable_steps [OF task_steps_world])

end

section \<open>Cadence\<close>

lemma next_deadline_exact:
  assumes "0 < period" "deadline \<le> now"
  shows "now < next_deadline period now deadline \<and> next_deadline period now deadline \<le> now + period
    \<and> (\<exists>k. next_deadline period now deadline = deadline + Suc k * period)"
proof -
  define r where "r = (now - deadline) mod period"
  have r: "r < period" using assms(1) by (simp add: r_def)
  have "now - deadline = (now - deadline) div period * period + r" by (simp add: r_def)
  then have now: "now = deadline + (now - deadline) div period * period + r" using assms(2) by linarith
  have d: "next_deadline period now deadline = now + period - r" by (simp add: next_deadline_def r_def)
  have "next_deadline period now deadline = deadline + Suc ((now - deadline) div period) * period"
    unfolding d using now r by (simp add: algebra_simps)
  then show ?thesis using d r by auto
qed

section \<open>Properties\<close>

text \<open>A component of the demo World whose owner has been stopped: a life of one stop and one drop.\<close>

definition demo_behavior :: "unit behavior" where
  "demo_behavior = default_behavior (\<lambda>p. default_hook ())"

definition demo_input :: step_input where
  "demo_input = \<lparr>in_now = 5, in_waker = 0, in_timer_first = False\<rparr>"

definition demo_task :: "unit task" where
  "demo_task = task_new (demo_native\<lparr>nt_world := demo_stopped\<rparr>) ()"

fun task_steps :: "nat \<Rightarrow> 'c task \<times> (hook \<times> hook_end) list \<Rightarrow> inner \<Rightarrow> execution \<Rightarrow> 'c behavior \<Rightarrow> step_input \<Rightarrow>
    ('c task \<times> (hook \<times> hook_end) list) option" where
  "task_steps 0 x w ex b i = Some x"
| "task_steps (Suc k) x w ex b i =
     Option.bind (task_next w ex b i (fst x)) (\<lambda>(t, ev).
       task_steps k (t, snd x @ (case ev of None \<Rightarrow> [] | Some e \<Rightarrow> [e])) w ex b i)"

lemma task_steps_reach:
  "task_steps k x w ex b i = Some y \<Longrightarrow> reachable task_initial (task_step w ex b) x \<Longrightarrow>
    reachable task_initial (task_step w ex b) y"
proof (induction k arbitrary: x)
  case (Suc k)
  then obtain t ev where n: "task_next w ex b i (fst x) = Some (t, ev)"
      "task_steps k (t, snd x @ (case ev of None \<Rightarrow> [] | Some e \<Rightarrow> [e])) w ex b i = Some y"
    by (auto simp: bind_eq_Some_conv)
  have "task_step w ex b (fst x, snd x) (t, snd x @ (case ev of None \<Rightarrow> [] | Some e \<Rightarrow> [e]))"
    by (rule task_step.own [OF n(1)])
  then show ?case using Suc.IH [OF n(2)] Suc.prems(2) by (auto intro: reachable_step)
qed simp

lemma demo_stopped_activity: "\<exists>s v. world_activity demo_world demo_ref demo_stopped = Some (s, Inr v)
    \<and> execution_state demo_world demo_ref s = Some (Inr Stopping) \<and> (\<exists>s'. task_drop demo_world demo_ref s = Some s')"
  by (simp add: demo_stopped_def demo_stop_eval world_activity_def ag_version_def slot_or_insert_def fresh_slot_def
      execution_state_def execution_state_locked_def task_drop_def)

lemma demo_task_run:
  "\<exists>t. task_steps 6 (demo_task, []) demo_world demo_execution demo_behavior demo_input
      = Some (t, [(HkStop, HeOk), (HkDrop, HeOk)]) \<and> tk_pc t = PcDone \<and> tk_quiescing t = False"
proof -
  obtain s v s' where s: "world_activity demo_world demo_ref demo_stopped = Some (s, Inr v)"
      "execution_state demo_world demo_ref s = Some (Inr Stopping)" "task_drop demo_world demo_ref s = Some s'"
    using demo_stopped_activity by blast
  show ?thesis
    using s by (simp add: eval_nat_numeral demo_task_def task_new_def next_top_def next_state_def next_cleanup_def
        next_dispose_def next_release_def on_world_def ask_world_def goto_def invoke_def runs_def hook_end_of_def
        reporting_def demo_behavior_def default_behavior_def default_hook_def demo_native_def demo_execution_def
        give_slot_def)
qed

lemma demo_task_initial: "reachable task_initial (task_step w ex b) (demo_task, [])"
  by (rule reachable_init) (auto simp: task_initial_def demo_task_def)

text \<open>C30. The hooks of a native component are called in the promised order, whatever they return, whether or not they
  panic, and whatever the rest of the program does to the World in between. The calls of every run follow the
  contract \<open>proto_next\<close>: no tick after quiescing began, \<^verbatim>\<open>on_quiesce\<close> at most once, \<^verbatim>\<open>on_drain\<close> at most once and only
  after a successful \<^verbatim>\<open>on_quiesce\<close> of a consumer, nothing but \<^verbatim>\<open>on_stop\<close> after these end the component, nothing but the
  destructor after \<^verbatim>\<open>on_stop\<close> or a panic. When the task is done, the component has been dropped exactly once, as
  its last call, and stopped exactly once unless a hook panicked.\<close>

theorem component_hook_protocol:
  assumes "reachable task_initial (task_step w ex b) (t, tr)"
  shows "(\<exists>p. proto_run (ns_drain (ex_spec ex)) (PrLive False) tr = Some p)
    \<and> calls HkQuiesce tr \<le> 1 \<and> calls HkDrain tr \<le> 1 \<and> calls HkStop tr \<le> 1 \<and> calls HkDrop tr \<le> 1
    \<and> (tk_pc t = PcDone \<longrightarrow>
        calls HkDrop tr = 1 \<and> fst (last tr) = HkDrop \<and> (calls HkStop tr = 1 \<or> (\<exists>h. (h, HePanic) \<in> set tr)))"
proof -
  let ?d = "ns_drain (ex_spec ex)"
  from task.reachable_invar [OF assms] obtain p where p: "proto_run ?d (PrLive False) tr = Some p" "task_proto t p"
    by (auto simp: task_inv_def)
  have once: "calls h tr \<le> 1" if "once h" for h by (rule proto_run_once [OF p(1) that])
  have "calls HkDrop tr = 1 \<and> fst (last tr) = HkDrop \<and> (calls HkStop tr = 1 \<or> (\<exists>h. (h, HePanic) \<in> set tr))"
    if "tk_pc t = PcDone"
  proof -
    have over: "proto_run ?d (PrLive False) tr = Some PrOver" using p that by simp
    obtain body e where b: "tr = body @ [(HkDrop, e)]" using proto_over_drop [OF over] by blast
    then have "calls HkDrop tr = 1" using once [of HkDrop] by (simp add: once_def)
    then show ?thesis using b proto_over_stop [OF over] by auto
  qed
  then show ?thesis using p(1) once by (simp add: once_def)
qed

theorem component_hook_protocol_witness:
  "\<exists>t. reachable task_initial (task_step demo_world demo_execution demo_behavior) (t, [(HkStop, HeOk), (HkDrop, HeOk)])
     \<and> tk_pc t = PcDone \<and> calls HkDrop [(HkStop, HeOk), (HkDrop, HeOk)] = 1"
proof -
  obtain t where t: "task_steps 6 (demo_task, []) demo_world demo_execution demo_behavior demo_input
      = Some (t, [(HkStop, HeOk), (HkDrop, HeOk)])" "tk_pc t = PcDone" using demo_task_run by blast
  note r = task_steps_reach [OF t(1) demo_task_initial]
  from component_hook_protocol [OF r] t(2) r show ?thesis by blast
qed

text \<open>C31. A turn is bounded. From the top of the loop until the task pauses, ends or comes back to the top it makes at
  most \<open>4 * events_per_turn + 27\<close> calls of World and hooks and handles at most \<^verbatim>\<open>events_per_turn\<close> events, however the
  rest of the program interferes: a full mailbox cannot keep a component from yielding.\<close>

theorem component_turn_bounded:
  assumes "turn_run w ex b t k tr t'" "tk_pc t = PcTop"
  shows "k \<le> 4 * nl_events_per_turn (ns_limits (ex_spec ex)) + 27
    \<and> calls HkEvent tr \<le> nl_events_per_turn (ns_limits (ex_spec ex))"
  using turn_run_left [OF assms(1)] assms(2) by simp

theorem component_turn_bounded_witness:
  "\<exists>t'. turn_run demo_world demo_execution demo_behavior demo_task 1 [] t' \<and> 1 \<le> 4 * 32 + (27 :: nat)"
proof -
  obtain s v where "world_activity demo_world demo_ref demo_stopped = Some (s, Inr v)"
    using demo_stopped_activity by blast
  then have "\<exists>t1. task_next demo_world demo_execution demo_behavior demo_input demo_task = Some (t1, None) \<and> tk_pc t1 = PcState"
    by (simp add: demo_task_def task_new_def next_top_def on_world_def goto_def demo_native_def demo_execution_def)
  then obtain t1 where t1: "task_next demo_world demo_execution demo_behavior demo_input demo_task = Some (t1, None)"
      "tk_pc t1 = PcState" by blast
  have "turn_run demo_world demo_execution demo_behavior demo_task (Suc 0) ([] @ []) t1"
    using turn_own [OF turn_start t1(1)] t1(2) by (simp add: pausing_def)
  then have r: "turn_run demo_world demo_execution demo_behavior demo_task 1 [] t1" by simp
  have "tk_pc demo_task = PcTop" by (simp add: demo_task_def task_new_def)
  from component_turn_bounded [OF r this] r show ?thesis
    by (auto simp: demo_execution_def default_limits_def)
qed

text \<open>Ticks keep their cadence. After a tick that ran at or after its deadline, the next deadline is in the future, at
  most one period away, and a whole number of periods after the last: missed ticks are skipped, not made up for, and
  the schedule does not drift.\<close>

theorem tick_cadence:
  assumes "task_next w ex b i t = Some (t', ev)" "tk_pc t = PcTicked" "ns_period (ex_spec ex) = Some period"
    and "0 < period" "tk_next_tick t = Some deadline" "deadline \<le> in_now i"
  shows "\<exists>d k. tk_next_tick t' = Some d \<and> in_now i < d \<and> d \<le> in_now i + period \<and> d = deadline + Suc k * period"
proof -
  have "tk_next_tick t' = Some (next_deadline period (in_now i) deadline)"
    using assms(1-3,5) by (auto simp: next_ticked_def goto_def)
  then show ?thesis using next_deadline_exact [OF assms(4,6)] by auto
qed

theorem tick_cadence_witness:
  "\<exists>t'. task_next demo_world (demo_execution\<lparr>ex_spec := demo_spec\<lparr>ns_period := Some 3\<rparr>\<rparr>) demo_behavior
      (demo_input\<lparr>in_now := 11\<rparr>) (demo_task\<lparr>tk_pc := PcTicked, tk_next_tick := Some 4\<rparr>) = Some (t', None)
      \<and> tk_next_tick t' = Some 13"
proof -
  let ?ex = "demo_execution\<lparr>ex_spec := demo_spec\<lparr>ns_period := Some 3\<rparr>\<rparr>" and ?i = "demo_input\<lparr>in_now := 11\<rparr>"
  let ?t = "demo_task\<lparr>tk_pc := PcTicked, tk_next_tick := Some 4\<rparr>"
  have "\<exists>t'. task_next demo_world ?ex demo_behavior ?i ?t = Some (t', None)"
    by (simp add: next_ticked_def goto_def)
  then obtain t' where t': "task_next demo_world ?ex demo_behavior ?i ?t = Some (t', None)" ..
  have "\<exists>d k. tk_next_tick t' = Some d \<and> in_now ?i < d \<and> d \<le> in_now ?i + 3 \<and> d = 4 + Suc k * 3"
    by (rule tick_cadence [OF t']) (simp_all add: demo_input_def)
  then have "tk_next_tick t' = Some 13" by (auto simp: demo_input_def)
  then show ?thesis using t' by blast
qed

end
