(* ===== verification/Native_Prepare.thy ===== *)
theory Native_Prepare
  imports Native_Protocol
begin

text \<open>
  How a native component comes to life, \<^verbatim>\<open>prepare_native\<close> of \<^verbatim>\<open>crates/runtime-native/src/sdk.rs\<close>: validate the
  configuration, reserve a runtime permit, allocate the owner, register its ports, track its task, claim its startup
  callback, construct it, start it, and spawn its task. Each error path stops the owner and gives back what was
  taken, in the order of the destructors.
\<close>

section \<open>Results\<close>

type_synonym ('e, 'a) eres = "(native \<times> ('e + 'a)) option"

type_synonym 'a nres = "(native_error, 'a) eres"

definition rthen :: "('e, 'a) eres \<Rightarrow> (native \<Rightarrow> 'a \<Rightarrow> ('e, 'b) eres) \<Rightarrow> ('e, 'b) eres" where
  "rthen m k = Option.bind m (\<lambda>(n, r). case r of Inl e \<Rightarrow> Some (n, Inl e) | Inr a \<Rightarrow> k n a)"

definition wcall :: "(state \<Rightarrow> 'a rstep) \<Rightarrow> native \<Rightarrow> 'a nres" where
  "wcall f n = map_option (\<lambda>(s, r). (n\<lparr>nt_world := s\<rparr>, core_err r)) (f (nt_world n))"

text \<open>What runs when the result is an error.\<close>

definition on_err :: "(native \<Rightarrow> native option) \<Rightarrow> ('e, 'a) eres \<Rightarrow> ('e, 'a) eres" where
  "on_err f m = Option.bind m (\<lambda>(n, r). case r of Inl e \<Rightarrow> map_option (\<lambda>n. (n, Inl e)) (f n) | Inr a \<Rightarrow> Some (n, Inr a))"

definition wdo :: "(state \<Rightarrow> state option) \<Rightarrow> native \<Rightarrow> native option" where
  "wdo f n = map_option (\<lambda>s. n\<lparr>nt_world := s\<rparr>) (f (nt_world n))"

text \<open>\<^verbatim>\<open>let _ = world.stop(owner)\<close>\<close>

definition stop_owner :: "inner \<Rightarrow> actor_ref \<Rightarrow> native \<Rightarrow> native option" where
  "stop_owner w owner n = wdo (\<lambda>s. map_option fst (stop w owner s)) n"

section \<open>Cleanup\<close>

text \<open>\<^verbatim>\<open>invoke\<close> of a hook outside the task; a panic is the last component.\<close>

definition call_hook ::
  "('c, 'a) hook_fun \<Rightarrow> 'c \<Rightarrow> native \<Rightarrow> native_context \<Rightarrow> ('c \<times> native \<times> 'a native_result \<times> bool) option" where
  "call_hook f c n cx =
     map_option (\<lambda>(c, n, x). (c, n, case x of None \<Rightarrow> Inl NePanic | Some r \<Rightarrow> r, x = None)) (f c n cx)"

definition cleanup :: "inner \<Rightarrow> execution \<Rightarrow> 'c behavior \<Rightarrow> 'c \<Rightarrow> native \<Rightarrow> ('c \<times> native) option" where
  "cleanup w ex b c n =
     Option.bind (call_hook (bh_stop b) c n (new_context ex PhStop None)) (\<lambda>(c, n, r, panic).
       case r of Inr _ \<Rightarrow> Some (c, n) | Inl e \<Rightarrow> map_option (\<lambda>n. (c, n)) (ex_failure w ex Stop None e panic n))"

definition dispose :: "inner \<Rightarrow> execution \<Rightarrow> 'c behavior \<Rightarrow> 'c \<Rightarrow> native \<Rightarrow> native option" where
  "dispose w ex b c n = (if bh_drop b c then ex_failure w ex Stop None NePanic True n else Some n)"

section \<open>Preparation\<close>

text \<open>From the startup claim on: the factory and \<^verbatim>\<open>on_start\<close>.\<close>

definition construct ::
  "inner \<Rightarrow> execution \<Rightarrow> (val \<Rightarrow> 'c native_result option) \<Rightarrow> val \<Rightarrow> native \<Rightarrow> 'c nres" where
  "construct w ex factory cfg n =
     (case factory cfg of
        Some (Inr c) \<Rightarrow> Some (n, Inr c)
      | other \<Rightarrow>
          (let e = (case other of Some (Inl e) \<Rightarrow> e | _ \<Rightarrow> NePanic)
           in map_option (\<lambda>n. (n, Inl e)) (ex_failure w ex Construction None e True n)))"

definition start_component :: "inner \<Rightarrow> execution \<Rightarrow> 'c behavior \<Rightarrow> 'c \<Rightarrow> native \<Rightarrow> 'c nres" where
  "start_component w ex b c n =
     Option.bind (call_hook (bh_start b) c n (new_context ex PhStartup None)) (\<lambda>(c, n, r, panic).
       case r of
         Inl e \<Rightarrow>
           Option.bind (ex_failure w ex Start None e panic n) (\<lambda>n.
           Option.bind (if panic then Some (c, n) else cleanup w ex b c n) (\<lambda>(c, n).
             map_option (\<lambda>n. (n, Inl e)) (dispose w ex b c n)))
       | Inr _ \<Rightarrow>
           if world_state w (ex_owner ex) (nt_world n) = Inr Starting then Some (n, Inr c)
           else Option.bind (cleanup w ex b c n) (\<lambda>(c, n).
             map_option (\<lambda>n. (n, Inl (NeCore ActorStopped))) (dispose w ex b c n)))"

text \<open>The startup claim. An error after it drops the execution with its task lease, then the claim.\<close>

definition claim_startup :: "inner \<Rightarrow> actor_ref \<Rightarrow> native \<Rightarrow> unit nres" where
  "claim_startup w owner n =
     on_err (stop_owner w owner)
       (rthen (wcall (claim_native_callback w owner True) n) (\<lambda>n claimed.
          Some (n, if claimed then Inr () else Inl (NeCore ActorStopped))))"

definition start_owner ::
  "inner \<Rightarrow> execution \<Rightarrow> 'c behavior \<Rightarrow> (val \<Rightarrow> 'c native_result option) \<Rightarrow> val \<Rightarrow> native \<Rightarrow> 'c nres" where
  "start_owner w ex b factory cfg n =
     rthen (on_err (wdo (task_drop w (ex_owner ex))) (claim_startup w (ex_owner ex) n)) (\<lambda>n _.
       on_err (\<lambda>n. Option.bind (wdo (task_drop w (ex_owner ex)) n) (wdo (native_callback_drop w (ex_owner ex))))
         (rthen (construct w ex factory cfg n) (\<lambda>n c. start_component w ex b c n)))"

text \<open>From the allocated owner on: ports, task, start; then the startup claim is dropped.\<close>

definition prepare_owner ::
  "inner \<Rightarrow> execution \<Rightarrow> 'c behavior \<Rightarrow> (val \<Rightarrow> 'c native_result option) \<Rightarrow> val \<Rightarrow> native \<Rightarrow> (port_ref list \<times> 'c) nres" where
  "prepare_owner w ex b factory cfg n =
     rthen (on_err (stop_owner w (ex_owner ex))
              (wcall (register_component w (ex_owner ex) (ns_descriptor (ex_spec ex))) n)) (\<lambda>n ports.
     rthen (on_err (stop_owner w (ex_owner ex)) (wcall (track_task w (ex_owner ex)) n)) (\<lambda>n _.
     rthen (start_owner w ex b factory cfg n) (\<lambda>n c.
       map_option (\<lambda>n. (n, Inr (ports, c))) (wdo (native_callback_drop w (ex_owner ex)) n))))"

text \<open>The handle, with the component that its task will own.\<close>

record 'c prepared =
  pp_execution :: execution
  pp_ports :: "port_ref list"
  pp_component :: 'c

definition prepare_native ::
  "inner \<Rightarrow> actor_ref option \<Rightarrow> native_spec \<Rightarrow> val \<Rightarrow> (execution \<Rightarrow> 'c behavior) \<Rightarrow> (val \<Rightarrow> 'c native_result option) \<Rightarrow>
   native \<Rightarrow> 'c prepared nres" where
  "prepare_native w parent spec v b factory n =
     (case validate_config spec v of
        Inl e \<Rightarrow> Some (n, Inl e)
      | Inr cfg \<Rightarrow>
          if nt_slots_closed n then Some (n, Inl (NeLimit ''runtime closed''))
          else if nt_slots n = 0 then Some (n, Inl (NeLimit ''runtime tasks''))
          else
            on_err (\<lambda>n. Some (give_slot n))
              (rthen (wcall (allocate w Native parent)
                        (n\<lparr>nt_slots := nt_slots n - 1, nt_jobs := nl_max_jobs (ns_limits spec), nt_stats := stats_zero\<rparr>))
                 (\<lambda>n owner.
                    (let ex = \<lparr>ex_owner = owner,
                               ex_spec = spec\<lparr>ns_configuration := normalized_clone (ns_configuration spec)\<rparr>\<rparr>
                     in rthen (prepare_owner w ex (b ex) factory cfg n) (\<lambda>n (ports, c).
                          Some (n, Inr \<lparr>pp_execution = ex, pp_ports = ports, pp_component = c\<rparr>))))))"

text \<open>The task that \<^verbatim>\<open>prepare_native\<close> spawns. The hooks reach their execution through the context, so that a behaviour is
  given for every execution.\<close>

definition prepared_task :: "native \<Rightarrow> 'c prepared \<Rightarrow> 'c task" where
  "prepared_task n h = task_new n (pp_component h)"

section \<open>What preparation keeps\<close>

definition rpost :: "(native \<Rightarrow> 'e + 'a \<Rightarrow> bool) \<Rightarrow> ('e, 'a) eres \<Rightarrow> bool" where
  "rpost P m \<longleftrightarrow> (\<forall>n r. m = Some (n, r) \<longrightarrow> P n r)"

lemma rpost_simps [simp]:
  "rpost P None" "rpost P (Some (n, r)) \<longleftrightarrow> P n r"
  by (simp_all add: rpost_def)

lemma kept_rthen:
  assumes "rpost (\<lambda>n' r. kept w n n') m" "\<And>n' a. kept w n n' \<Longrightarrow> rpost (\<lambda>n'' r. kept w n n'') (k n' a)"
  shows "rpost (\<lambda>n' r. kept w n n') (rthen m k)"
  using assms by (cases m) (auto simp: rthen_def split: sum.splits)

lemma kept_wcall:
  assumes "kept w n m" "\<And>s r. f (nt_world m) = Some (s, r) \<Longrightarrow> world_op w (nt_world m) s"
  shows "rpost (\<lambda>n' r. kept w n n') (wcall f m)"
  using assms kept_trans [OF assms(1) kept_world] by (auto simp: rpost_def wcall_def)

lemma kept_wdo:
  assumes "wdo f m = Some m'" "kept w n m" "\<And>s. f (nt_world m) = Some s \<Longrightarrow> world_op w (nt_world m) s"
  shows "kept w n m'"
  using assms kept_trans [OF assms(2) kept_world] by (auto simp: wdo_def)

lemma kept_on_err:
  assumes "rpost (\<lambda>n' r. kept w n n') m" "\<And>n' n''. kept w n n' \<Longrightarrow> f n' = Some n'' \<Longrightarrow> kept w n n''"
  shows "rpost (\<lambda>n' r. kept w n n') (on_err f m)"
  using assms by (cases m) (auto simp: on_err_def rpost_def split: sum.splits)

lemma kept_drops:
  "wdo (task_drop w r) m = Some m' \<Longrightarrow> kept w n m \<Longrightarrow> kept w n m'"
  "wdo (native_callback_drop w r) m = Some m' \<Longrightarrow> kept w n m \<Longrightarrow> kept w n m'"
  "stop_owner w r m = Some m' \<Longrightarrow> kept w n m \<Longrightarrow> kept w n m'"
  by (erule kept_wdo, assumption, erule task_ops)+
    (unfold stop_owner_def, erule kept_wdo, assumption, auto simp: world_op_def intro: work_op.intros)

lemma kept_failure: "ex_failure w ex phase delivery e panic m = Some m' \<Longrightarrow> kept w n m \<Longrightarrow> kept w n m'"
  unfolding ex_failure_def using kept_trans kept_world task_ops(10) by (fastforce split: prod.splits)

lemma kept_dispose: "dispose w ex b c m = Some m' \<Longrightarrow> kept w n m \<Longrightarrow> kept w n m'"
  by (auto simp: dispose_def intro: kept_failure split: if_splits)

lemma kept_construct: "kept w n m \<Longrightarrow> rpost (\<lambda>n' r. kept w n n') (construct w ex factory cfg m)"
  by (auto simp: construct_def rpost_def Let_def intro: kept_failure split: option.splits sum.splits)

lemma kept_claim_startup: "kept w n m \<Longrightarrow> rpost (\<lambda>n' r. kept w n n') (claim_startup w owner m)"
  unfolding claim_startup_def
  by (intro kept_on_err kept_rthen kept_wcall) (auto intro: kept_drops task_ops)

lemma call_hook_kept:
  "call_hook f c n cx = Some (c', n', r, panic) \<Longrightarrow> (\<And>c' n' x. f c n cx = Some (c', n', x) \<Longrightarrow> kept w n n') \<Longrightarrow>
    kept w n n'"
  by (auto simp: call_hook_def)

context native_behavior
begin

lemma kept_cleanup:
  assumes "cleanup w ex b c m = Some (c', m')" "kept w n m"
  shows "kept w n m'"
proof -
  from assms(1) obtain c1 m1 r panic where h: "call_hook (bh_stop b) c m (new_context ex PhStop None) = Some (c1, m1, r, panic)"
      "(case r of Inr _ \<Rightarrow> Some (c1, m1) | Inl e \<Rightarrow> map_option (\<lambda>n. (c1, n)) (ex_failure w ex Stop None e panic m1))
        = Some (c', m')"
    by (auto simp: cleanup_def bind_eq_Some_conv)
  have "kept w n m1" by (rule kept_trans [OF assms(2) call_hook_kept [OF h(1) stop_kept]])
  then show ?thesis using h(2) by (cases r) (auto intro: kept_failure)
qed

lemma kept_start:
  assumes "kept w n m"
  shows "rpost (\<lambda>n' r. kept w n n') (start_component w ex b c m)"
proof (cases "call_hook (bh_start b) c m (new_context ex PhStartup None)")
  case (Some x)
  then obtain c1 m1 r panic where h: "call_hook (bh_start b) c m (new_context ex PhStartup None) = Some (c1, m1, r, panic)"
    by (cases x) auto
  have k: "kept w n m1" by (rule kept_trans [OF assms call_hook_kept [OF h start_kept]])
  show ?thesis
  proof (cases r)
    case (Inl e)
    show ?thesis
      by (auto simp: start_component_def h Inl rpost_def bind_eq_Some_conv split: if_splits
          dest!: kept_failure [OF _ k] intro: kept_dispose kept_cleanup)
  next
    case (Inr u)
    then show ?thesis
      using k by (auto simp: start_component_def h rpost_def bind_eq_Some_conv intro: kept_dispose kept_cleanup)
  qed
qed (simp add: start_component_def)

lemma kept_start_owner: "kept w n m \<Longrightarrow> rpost (\<lambda>n' r. kept w n n') (start_owner w ex b factory cfg m)"
  unfolding start_owner_def
  by (intro kept_on_err kept_rthen kept_claim_startup kept_construct kept_start)
    (auto simp: bind_eq_Some_conv intro: kept_drops)

lemma kept_prepare_owner: "kept w n m \<Longrightarrow> rpost (\<lambda>n' r. kept w n n') (prepare_owner w ex b factory cfg m)"
  unfolding prepare_owner_def
  by (intro kept_on_err kept_rthen kept_wcall kept_start_owner)
    (auto simp: rpost_def world_op_def intro: kept_drops work_op.intros claim_op.intros)

end

lemma prepare_native_kept:
  assumes "prepare_native w parent spec v b factory n = Some (n', r)" "\<And>ex. native_behavior w (b ex)"
  shows "along w n n' \<and> slot_permits n = slot_permits n' + (if is_ok r then 1 else 0)"
proof -
  let ?m = "n\<lparr>nt_slots := nt_slots n - 1, nt_jobs := nl_max_jobs (ns_limits spec), nt_stats := stats_zero\<rparr>"
  let ?body = "\<lambda>cfg. rthen (wcall (allocate w Native parent) ?m) (\<lambda>n owner.
      (let ex = \<lparr>ex_owner = owner, ex_spec = spec\<lparr>ns_configuration := normalized_clone (ns_configuration spec)\<rparr>\<rparr>
       in rthen (prepare_owner w ex (b ex) factory cfg n) (\<lambda>n (ports, c).
            Some (n, Inr \<lparr>pp_execution = ex, pp_ports = ports, pp_component = c\<rparr>))))"
  have body: "rpost (\<lambda>n' r. kept w ?m n') (?body cfg)" for cfg
    unfolding Let_def
    by (intro kept_rthen kept_wcall native_behavior.kept_prepare_owner [OF assms(2)])
      (auto simp: world_op_def intro: work_op.intros)
  from assms(1) consider (same) e where "n' = n" "r = Inl e"
    | (body) cfg where "0 < nt_slots n" "on_err (\<lambda>n. Some (give_slot n)) (?body cfg) = Some (n', r)"
    by (auto simp: prepare_native_def split: sum.splits if_splits)
  then show ?thesis
  proof cases
    case (body cfg)
    then obtain m where m: "?body cfg = Some (m, r)" "n' = (if is_ok r then m else give_slot m)"
      by (cases "?body cfg") (auto simp: on_err_def split: sum.splits)
    have k: "kept w ?m m" using \<open>rpost (\<lambda>n' r. kept w ?m n') (?body cfg)\<close> m(1) by (simp add: rpost_def)
    then have "slot_permits m = slot_permits ?m" "along w n m" by (simp_all add: kept_def owes_def along_def)
    then show ?thesis using m(2) body(1) by (auto simp: slot_permits_def give_slot_def along_def)
  qed simp
qed

end
