(* ===== verification/Native_Builtins.thy ===== *)
theory Native_Builtins
  imports Native_Prepare
begin

text \<open>
  The components that the runtime brings along: pulse source, window counter and snapshot sink of
  \<^verbatim>\<open>crates/runtime-native/src/components.rs\<close>, and the blocking sum of squares of \<^verbatim>\<open>computation.rs\<close>. Both behaviours
  interpret \<open>native_behavior\<close>, so that what is shown of component tasks holds of them without assumptions.
\<close>

section \<open>Source, counter and sink\<close>

datatype component_kind =
    PulseSource duration
  | WindowCounter duration
  | SnapshotSink

record component_stats =
  ks_generated :: nat
  ks_processed :: nat
  ks_summaries :: nat
  ks_sink_received :: nat
  ks_last_total :: int

definition kind_stats_zero :: component_stats where
  "kind_stats_zero = \<lparr>ks_generated = 0, ks_processed = 0, ks_summaries = 0, ks_sink_received = 0, ks_last_total = 0\<rparr>"

record builtin =
  bi_kind :: component_kind
  bi_stats :: component_stats
  bi_count :: nat
  bi_total :: int

definition kind_name :: "component_kind \<Rightarrow> bytes" where
  "kind_name k =
     (case k of PulseSource _ \<Rightarrow> ''actorplane.PulseSource'' | WindowCounter _ \<Rightarrow> ''actorplane.WindowCounter''
      | SnapshotSink \<Rightarrow> ''actorplane.SnapshotSink'')"

definition kind_ports :: "component_kind \<Rightarrow> port_spec list" where
  "kind_ports k =
     (case k of
        PulseSource _ \<Rightarrow> [\<lparr>ps_name = ''pulses'', ps_direction = Output, ps_schema = PtPulse\<rparr>]
      | WindowCounter _ \<Rightarrow> [\<lparr>ps_name = ''input'', ps_direction = Input, ps_schema = PtPulse\<rparr>,
                           \<lparr>ps_name = ''snapshots'', ps_direction = Output, ps_schema = PtCountSnapshot\<rparr>]
      | SnapshotSink \<Rightarrow> [\<lparr>ps_name = ''input'', ps_direction = Input, ps_schema = PtCountSnapshot\<rparr>])"

definition builtin_descriptor :: "component_kind \<Rightarrow> component_descriptor" where
  "builtin_descriptor k =
     \<lparr>cd_name = kind_name k, cd_version = 1, cd_ports = kind_ports k,
      cd_interfaces = [\<lparr>is_name = kind_name k, is_version = 1, is_ports = kind_ports k\<rparr>]\<rparr>"

text \<open>\<^verbatim>\<open>i64::checked_add\<close>\<close>

definition i64_checked_add :: "int \<Rightarrow> int \<Rightarrow> int option" where
  "i64_checked_add a b = (if - (2 ^ 63) \<le> a + b \<and> a + b < 2 ^ 63 then Some (a + b) else None)"

text \<open>A call of the context inside a hook.\<close>

definition with_cx :: "'a nstep \<Rightarrow> ('a native_result \<Rightarrow> native \<Rightarrow> 'b option) \<Rightarrow> 'b option" where
  "with_cx m k = Option.bind m (\<lambda>(n, cx, r). k r n)"

definition flush :: "inner \<Rightarrow> execution \<Rightarrow> (builtin, unit) hook_fun" where
  "flush w ex c n cx =
     (if bi_count c = 0 then Some (c, n, Some (Inr ()))
      else with_cx (emit w ex ''snapshots'' (CountSnapshot (bi_count c) (bi_total c)) n cx) (\<lambda>r n.
             case r of
               Inl e \<Rightarrow> Some (c, n, Some (Inl e))
             | Inr _ \<Rightarrow>
                 (let st = bi_stats c
                  in Some (c\<lparr>bi_stats := st\<lparr>ks_summaries := bump (ks_summaries st), ks_last_total := bi_total c\<rparr>,
                             bi_count := 0, bi_total := 0\<rparr>, n, Some (Inr ())))))"

definition builtin_event :: "payload \<Rightarrow> (builtin, unit) hook_fun" where
  "builtin_event p c n cx =
     (case (bi_kind c, p) of
        (WindowCounter _, Pulse v) \<Rightarrow>
          (case (checked_add u64_max (bi_count c) 1, i64_checked_add (bi_total c) v) of
             (Some k, Some t) \<Rightarrow>
               (let st = bi_stats c
                in Some (c\<lparr>bi_count := k, bi_total := t, bi_stats := st\<lparr>ks_processed := bump (ks_processed st)\<rparr>\<rparr>, n,
                         Some (Inr ())))
           | _ \<Rightarrow> Some (c, n, Some (Inl (NeApplication ''NativeCounterOverflow''))))
      | (SnapshotSink, CountSnapshot _ _) \<Rightarrow>
          (let st = bi_stats c
           in Some (c\<lparr>bi_stats := st\<lparr>ks_sink_received := bump (ks_sink_received st)\<rparr>\<rparr>, n, Some (Inr ())))
      | _ \<Rightarrow> Some (c, n, Some (Inl (NeApplication ''InvalidComponentInput''))))"

definition builtin_tick :: "inner \<Rightarrow> execution \<Rightarrow> (builtin, unit) hook_fun" where
  "builtin_tick w ex c n cx =
     (case bi_kind c of
        PulseSource _ \<Rightarrow>
          with_cx (emit w ex ''pulses'' (Pulse 1) n cx) (\<lambda>r n.
            case r of
              Inl e \<Rightarrow> Some (c, n, Some (Inl e))
            | Inr _ \<Rightarrow>
                (let st = bi_stats c
                 in Some (c\<lparr>bi_stats := st\<lparr>ks_generated := bump (ks_generated st)\<rparr>\<rparr>, n, Some (Inr ()))))
      | WindowCounter _ \<Rightarrow> flush w ex c n cx
      | SnapshotSink \<Rightarrow> Some (c, n, Some (Inr ())))"

definition builtin_drain :: "inner \<Rightarrow> execution \<Rightarrow> (builtin, unit) hook_fun" where
  "builtin_drain w ex c n cx =
     (case bi_kind c of WindowCounter _ \<Rightarrow> flush w ex c n cx | _ \<Rightarrow> Some (c, n, Some (Inr ())))"

definition builtin_behavior :: "inner \<Rightarrow> execution \<Rightarrow> builtin behavior" where
  "builtin_behavior w ex =
     (default_behavior builtin_event)\<lparr>bh_tick := builtin_tick w ex, bh_drain := builtin_drain w ex\<rparr>"

text \<open>\<^verbatim>\<open>prepare_component\<close>; an error is a message there, \<open>PeCore\<close> is the message of the error.\<close>

datatype prepare_error = PePeriod | PeCore native_error

definition kind_period :: "component_kind \<Rightarrow> duration option" where
  "kind_period k =
     (case k of PulseSource interval \<Rightarrow> Some interval | WindowCounter window \<Rightarrow> Some window | SnapshotSink \<Rightarrow> None)"

definition builtin_config :: "component_kind \<Rightarrow> schema" where
  "builtin_config k =
     Schema (kind_name k @ ''.Config'') 1
       (case kind_period k of None \<Rightarrow> [] | Some _ \<Rightarrow> [Field ''period_ns'' (TUInt 1 86400000000000)])"

definition builtin_spec :: "component_kind \<Rightarrow> native_spec" where
  "builtin_spec k =
     (native_spec_new (builtin_descriptor k) (builtin_config k))
       \<lparr>ns_period := kind_period k,
        ns_drain := (case k of PulseSource _ \<Rightarrow> Producer | _ \<Rightarrow> Consumer),
        ns_limits := default_limits\<lparr>nl_max_jobs := 0, nl_max_job_input_bytes := 0\<rparr>\<rparr>"

definition prepare_component ::
  "inner \<Rightarrow> actor_ref \<Rightarrow> component_kind \<Rightarrow> native \<Rightarrow> (native \<times> (prepare_error + builtin prepared)) option" where
  "prepare_component w parent k n =
     (if (case kind_period k of None \<Rightarrow> False | Some v \<Rightarrow> v = 0 \<or> v > DAY) then Some (n, Inl PePeriod)
      else map_option (\<lambda>(n, r). (n, case r of Inl e \<Rightarrow> Inl (PeCore e) | Inr h \<Rightarrow> Inr h))
        (prepare_native w (Some parent) (builtin_spec k)
           (VRecord (case kind_period k of None \<Rightarrow> [] | Some v \<Rightarrow> [VUInt v])) (builtin_behavior w)
           (\<lambda>_. Some (Inr \<lparr>bi_kind = k, bi_stats = kind_stats_zero, bi_count = 0, bi_total = 0\<rparr>)) n))"

section \<open>Sum of squares\<close>

text \<open>The closure of \<^verbatim>\<open>SumSquares::on_event\<close>: \<open>cancelled i\<close> is what \<^verbatim>\<open>is_cancelled\<close> answers at index \<open>i\<close>. The product is
  taken in \<^verbatim>\<open>u64\<close> and read as \<^verbatim>\<open>i64\<close>.\<close>

function sum_loop :: "(nat \<Rightarrow> bool) \<Rightarrow> nat \<Rightarrow> nat \<Rightarrow> int \<Rightarrow> int native_result" where
  "sum_loop cancelled n i tot =
     (if n < i then Inr tot
      else case i64_checked_add tot (i64_of (i * i mod (u64_max + 1))) of
        None \<Rightarrow> Inl (NeApplication ''CpuOverflow'')
      | Some tot' \<Rightarrow>
          if i mod 1024 = 0 \<and> cancelled i then Inl (NeApplication ''CpuCancelled'')
          else sum_loop cancelled n (i + 1) tot')"
  by pat_completeness auto
termination by (relation "measure (\<lambda>(cancelled, n, i, tot). Suc n - i)") auto

declare sum_loop.simps [simp del]

definition sum_squares :: "(nat \<Rightarrow> bool) \<Rightarrow> payload \<Rightarrow> payload native_result" where
  "sum_squares cancelled p =
     (case p of
        Pulse v \<Rightarrow>
          if \<not> (0 \<le> v \<and> v \<le> 1000000) then Inl (NeApplication ''CpuInputRange'')
          else bindR (sum_loop cancelled (nat v) 1 0) (\<lambda>t. Inr (CountSnapshot (nat v) t))
      | _ \<Rightarrow> Inl (NeApplication ''CpuInputSchema''))"

definition squares_event :: "inner \<Rightarrow> execution \<Rightarrow> payload \<Rightarrow> (unit, unit) hook_fun" where
  "squares_event w ex p c n cx = with_cx (defer_reply True w ex p n cx) (\<lambda>r n. Some (c, n, Some r))"

definition squares_behavior :: "inner \<Rightarrow> execution \<Rightarrow> unit behavior" where
  "squares_behavior w ex = default_behavior (squares_event w ex)"

definition squares_descriptor :: component_descriptor where
  "squares_descriptor =
     (let input = \<lparr>ps_name = ''requests'', ps_direction = Input, ps_schema = PtPulse\<rparr>
      in \<lparr>cd_name = ''actorplane.CpuSumSquares'', cd_version = 1, cd_ports = [input],
          cd_interfaces = [\<lparr>is_name = ''actorplane.CpuSumSquares'', is_version = 1, is_ports = [input]\<rparr>]\<rparr>)"

text \<open>\<open>virtual\<close>: a World under a manual clock, whose runtime has no blocking pool.\<close>

definition prepare_sum_squares :: "inner \<Rightarrow> bool \<Rightarrow> actor_ref option \<Rightarrow> native \<Rightarrow> unit prepared nres" where
  "prepare_sum_squares w virtual parent n =
     (if virtual then Some (n, Inl (NeApplication ''CpuUnavailableInTestWorld''))
      else prepare_native w parent
        (native_spec_new squares_descriptor (Schema ''actorplane.CpuSumSquares.Config'' 1 [])) (VRecord [])
        (squares_behavior w) (\<lambda>_. Some (Inr ())) n)"

section \<open>The behaviours keep World and permits\<close>

lemma call_kept:
  assumes "run_call w ex call n cx = Some (n', cx', r)"
  shows "kept w n n'"
  using assms call_along [of w n ex call cx] call_permits [of n w ex call cx] by (simp add: npost_def kept_def)

lemma emit_kept: "emit w ex name p n cx = Some (n', cx', r) \<Longrightarrow> kept w n n'"
  using call_kept [of w ex "CallEmit name p default_options" n cx n' cx' "Inr (is_ok r)"]
  by (simp add: emit_def forget_def)

lemma defer_kept: "defer_reply blocking w ex p n cx = Some (n', cx', r) \<Longrightarrow> kept w n n'"
  using call_kept [of w ex "CallDefer blocking p" n cx n' cx' "Inr (is_ok r)"] by (simp add: forget_def)

lemma default_hook_kept: "default_hook a c n cx = Some (c', n', r) \<Longrightarrow> kept w n n'"
  by (simp add: default_hook_def)

lemma with_cxE:
  assumes "with_cx m k = Some y"
  obtains n cx r where "m = Some (n, cx, r)" "k r n = Some y"
  using assms by (auto simp: with_cx_def bind_eq_Some_conv)

lemma flush_kept: "flush w ex c n cx = Some (c', n', r) \<Longrightarrow> kept w n n'"
  by (auto simp: flush_def Let_def split: if_split_asm sum.split_asm elim!: with_cxE dest: emit_kept)

lemma builtin_tick_kept: "builtin_tick w ex c n cx = Some (c', n', r) \<Longrightarrow> kept w n n'"
  by (auto simp: builtin_tick_def Let_def split: component_kind.split_asm sum.split_asm elim!: with_cxE
      dest: emit_kept flush_kept)

lemma builtin_hooks_kept:
  "builtin_drain w ex c n cx = Some (c', n', r) \<Longrightarrow> kept w n n'"
  "builtin_event p c n cx = Some (c', n', r) \<Longrightarrow> kept w n n'"
  by (auto simp: builtin_drain_def builtin_event_def Let_def split: component_kind.splits payload.splits option.splits
      dest: flush_kept)

interpretation builtins: native_behavior w "builtin_behavior w ex" for w ex
  by unfold_locales
    (auto simp: builtin_behavior_def default_behavior_def
      intro: builtin_hooks_kept builtin_tick_kept default_hook_kept)

interpretation squares: native_behavior w "squares_behavior w ex" for w ex
  by unfold_locales
    (auto simp: squares_behavior_def default_behavior_def squares_event_def with_cx_def bind_eq_Some_conv
      intro: default_hook_kept dest: defer_kept)

section \<open>The window counter over its life\<close>

text \<open>The snapshot that a flush in this state gets accepted, if any.\<close>

definition snapshots :: "inner \<Rightarrow> execution \<Rightarrow> builtin \<Rightarrow> native \<Rightarrow> native_context \<Rightarrow> (nat \<times> int) list" where
  "snapshots w ex c n cx =
     (if bi_count c = 0 then []
      else case emit w ex ''snapshots'' (CountSnapshot (bi_count c) (bi_total c)) n cx of
        Some (_, _, Inr _) \<Rightarrow> [(bi_count c, bi_total c)]
      | _ \<Rightarrow> [])"

text \<open>A counter with the pulses it accepted and the snapshots it published; runtime and context are whatever they are
  when a hook is called.\<close>

inductive window_step ::
  "inner \<Rightarrow> execution \<Rightarrow> builtin \<times> int list \<times> (nat \<times> int) list \<Rightarrow> builtin \<times> int list \<times> (nat \<times> int) list \<Rightarrow> bool"
  for w ex where
  event: "builtin_event p c n cx = Some (c', n', r) \<Longrightarrow>
     window_step w ex (c, acc, out)
       (c', acc @ (case (p, r) of (Pulse v, Some (Inr _)) \<Rightarrow> [v] | _ \<Rightarrow> []), out)"
| tick: "builtin_tick w ex c n cx = Some (c', n', r) \<Longrightarrow> window_step w ex (c, acc, out) (c', acc, out @ snapshots w ex c n cx)"
| drain: "builtin_drain w ex c n cx = Some (c', n', r) \<Longrightarrow> window_step w ex (c, acc, out) (c', acc, out @ snapshots w ex c n cx)"

definition window_init :: "builtin \<times> int list \<times> (nat \<times> int) list \<Rightarrow> bool" where
  "window_init x \<longleftrightarrow> (\<exists>window. x = (\<lparr>bi_kind = WindowCounter window, bi_stats = kind_stats_zero, bi_count = 0, bi_total = 0\<rparr>, [], []))"

definition window_inv :: "builtin \<times> int list \<times> (nat \<times> int) list \<Rightarrow> bool" where
  "window_inv x \<longleftrightarrow>
     (case x of (c, acc, out) \<Rightarrow>
        (\<exists>window. bi_kind c = WindowCounter window)
        \<and> sum_list (map fst out) + bi_count c = length acc
        \<and> sum_list (map snd out) + bi_total c = sum_list acc
        \<and> bi_count c \<le> u64_max \<and> - (2 ^ 63) \<le> bi_total c \<and> bi_total c < 2 ^ 63
        \<and> ks_processed (bi_stats c) = min u64_max (length acc)
        \<and> ks_summaries (bi_stats c) = min u64_max (length out))"

lemma window_flush:
  assumes "flush w ex c n cx = Some (c', n', r)" "window_inv (c, acc, out)"
  shows "window_inv (c', acc, out @ snapshots w ex c n cx)"
proof (cases "bi_count c = 0")
  case True
  then show ?thesis using assms by (simp add: flush_def snapshots_def)
next
  case False
  with assms(1) obtain n1 cx1 z where e: "emit w ex ''snapshots'' (CountSnapshot (bi_count c) (bi_total c)) n cx = Some (n1, cx1, z)"
    by (auto simp: flush_def elim!: with_cxE)
  show ?thesis
    using assms False e by (cases z) (auto simp: flush_def with_cx_def snapshots_def window_inv_def bump_def saturating_add_def)
qed

interpretation window: invariant_system window_init "window_step w ex" window_inv for w ex
proof unfold_locales
  show "window_inv x" if "window_init x" for x
    using that by (auto simp: window_init_def window_inv_def kind_stats_zero_def)
next
  fix x y
  assume "window_step w ex x y" "window_inv x"
  then show "window_inv y"
  proof (induction rule: window_step.induct)
    case (event p c n cx c' n' r acc out)
    then show ?case
      by (auto simp: builtin_event_def window_inv_def checked_add_def i64_checked_add_def bump_def saturating_add_def Let_def
          split: payload.splits option.splits if_splits)
  next
    case (tick c n cx c' n' r acc out)
    then have "flush w ex c n cx = Some (c', n', r)" by (auto simp: builtin_tick_def window_inv_def)
    then show ?case using tick by (simp add: window_flush)
  next
    case (drain c n cx c' n' r acc out)
    then have "flush w ex c n cx = Some (c', n', r)" by (auto simp: builtin_drain_def window_inv_def)
    then show ?case using drain by (simp add: window_flush)
  qed
qed

section \<open>Sums of squares\<close>

fun squares_upto :: "nat \<Rightarrow> nat" where
  "squares_upto 0 = 0"
| "squares_upto (Suc k) = squares_upto k + Suc k * Suc k"

lemma squares_closed: "6 * squares_upto k = k * (k + 1) * (2 * k + 1)"
  by (induction k) (simp_all add: algebra_simps)

lemma squares_bound: "k \<le> 1000000 \<Longrightarrow> squares_upto k \<le> k * 1000000000000"
proof (induction k)
  case (Suc k)
  have "Suc k * Suc k \<le> 1000000 * 1000000" using Suc.prems by (intro mult_le_mono) simp_all
  then show ?case using Suc by simp
qed simp

lemma square_i64:
  assumes "i \<le> 1000000"
  shows "i64_of (i * i mod (u64_max + 1)) = int (i * i)"
proof -
  have "i * i \<le> 1000000 * 1000000" using assms by (intro mult_le_mono)
  then show ?thesis by (simp add: i64_of_def u64_max_def)
qed

text \<open>The job looks for a cancellation at every 1024th index.\<close>

definition cancel_at :: "(nat \<Rightarrow> bool) \<Rightarrow> nat \<Rightarrow> bool" where
  "cancel_at cancelled j \<longleftrightarrow> j mod 1024 = 0 \<and> cancelled j"

lemma sum_loop_exact:
  assumes "n \<le> 1000000" "i \<le> n + 1" "0 < i"
  shows "sum_loop cancelled n i (int (squares_upto (i - 1))) =
    (if \<exists>j. i \<le> j \<and> j \<le> n \<and> cancel_at cancelled j then Inl (NeApplication ''CpuCancelled'')
     else Inr (int (squares_upto n)))"
  using assms(2,3)
proof (induction "n + 1 - i" arbitrary: i)
  case 0
  then have "i = n + 1" by simp
  then show ?case by (auto simp: sum_loop.simps)
next
  case (Suc k)
  then have i: "i \<le> n" "0 < i" by simp_all
  obtain m where m: "i = Suc m" using i(2) by (cases i) auto
  have "squares_upto i \<le> 1000000 * 1000000000000"
    by (rule order_trans [OF squares_bound mult_le_mono1]) (use i assms(1) in simp_all)
  then have "int (squares_upto i) \<le> 1000000000000000000" by (simp add: of_nat_le_iff [symmetric] del: of_nat_le_iff)
  moreover have "int (squares_upto (i - 1)) + int (i * i) = int (squares_upto i)" by (simp add: m)
  ultimately have add: "i64_checked_add (int (squares_upto (i - 1))) (i64_of (i * i mod (u64_max + 1))) = Some (int (squares_upto i))"
    using square_i64 [of i] i assms(1) by (simp add: i64_checked_add_def del: of_nat_mult)
  have IH: "sum_loop cancelled n (i + 1) (int (squares_upto i)) =
    (if \<exists>j. i + 1 \<le> j \<and> j \<le> n \<and> cancel_at cancelled j then Inl (NeApplication ''CpuCancelled'')
     else Inr (int (squares_upto n)))" using Suc.hyps(1) [of "i + 1"] Suc.hyps(2) i by simp
  have split: "(\<exists>j. i \<le> j \<and> j \<le> n \<and> cancel_at cancelled j) \<longleftrightarrow>
    cancel_at cancelled i \<or> (\<exists>j. i + 1 \<le> j \<and> j \<le> n \<and> cancel_at cancelled j)"
    using i(1) by (metis Suc_eq_plus1 Suc_leI le_neq_implies_less Suc_leD order_refl)
  show ?case
    unfolding split using i IH add by (subst sum_loop.simps) (auto simp: cancel_at_def [symmetric])
qed

section \<open>A sink in the demo World\<close>

text \<open>The states of the World on the way to a prepared snapshot sink under the demo actor.\<close>

abbreviation sink_ref :: actor_ref where
  "sink_ref \<equiv> ActorRef 1 1 1"

lemma sink_config: "validate_config (builtin_spec SnapshotSink) (VRecord []) = Inr (VRecord [])"
  by (simp add: validate_config_def builtin_spec_def native_spec_new_def default_limits_def limits_validate_def
      builtin_config_def kind_period_def kind_name_def builtin_descriptor_def kind_ports_def
      schema_encode_def schema_validate_def
        schema_decode_def schema_read_def rd_node_def rd_take_def rd_u32_def from_le_le_bytes i64_of_def
        utf8_valid.simps scalar_def utf8_width_def
        EVENT_MAX_def wr_node_def wr_add_def checked_add_def usize_max_def u64_max_def u64_of_def numeral_2_eq_2)

definition demo_sink1 :: state where
  "demo_sink1 = fst (the (allocate demo_world Native (Some demo_ref) demo_active))"


lemmas sink_eval = demo_base demo_started_def demo_active_def allocate_def allocate_locked_def parent_check_def
  pop_slot_def slot_generation_def put_actor_def upd_slot_def execution_state_locked_def register_component_def
  open_state_def check_upd_def admit_descriptor_def valid_name_def builtin_descriptor_def kind_name_def kind_ports_def
  validate_ports_def MAX_INTERFACES_def MAX_PORTS_def MAX_WORLD_INTERFACES_def normalize_interface_def interface_key_def
  track_task_def claim_native_callback_def claim_native_hook_def

lemma sink_allocate: "allocate demo_world Native (Some demo_ref) demo_active = Some (demo_sink1, Inr sink_ref)"
  by (simp add: demo_sink1_def sink_eval)


definition demo_sink2 :: state where
  "demo_sink2 = fst (the (register_component demo_world sink_ref (builtin_descriptor SnapshotSink) demo_sink1))"

lemma sink_register: "\<exists>ports. register_component demo_world sink_ref (builtin_descriptor SnapshotSink) demo_sink1 = Some (demo_sink2, Inr ports)"
  by (simp add: demo_sink2_def demo_sink1_def sink_eval)

definition demo_sink3 :: state where
  "demo_sink3 = fst (the (track_task demo_world sink_ref demo_sink2))"

lemma sink_track: "track_task demo_world sink_ref demo_sink2 = Some (demo_sink3, Inr sink_ref)"
  by (simp add: demo_sink3_def demo_sink2_def demo_sink1_def sink_eval)

definition demo_sink4 :: state where
  "demo_sink4 = fst (the (claim_native_callback demo_world sink_ref True demo_sink3))"

lemma sink_claim: "claim_native_callback demo_world sink_ref True demo_sink3 = Some (demo_sink4, Inr True)"
  "world_state demo_world sink_ref demo_sink4 = Inr Starting"
  by (simp_all add: demo_sink4_def demo_sink3_def demo_sink2_def demo_sink1_def sink_eval world_state_def)

lemma sink_unclaim: "\<exists>s. native_callback_drop demo_world sink_ref demo_sink4 = Some s"
  by (simp add: demo_sink4_def demo_sink3_def demo_sink2_def demo_sink1_def sink_eval
      native_callback_drop_def clear_control_def try_finalize_def finalizable_def)

lemma demo_prepare:
  "\<exists>n' h. prepare_component demo_world demo_ref SnapshotSink demo_native = Some (n', Inr h)"
proof -
  obtain ports where p: "register_component demo_world sink_ref (builtin_descriptor SnapshotSink) demo_sink1 = Some (demo_sink2, Inr ports)"
    using sink_register by blast
  obtain s where s: "native_callback_drop demo_world sink_ref demo_sink4 = Some s" using sink_unclaim by blast
  have d: "ns_descriptor (builtin_spec SnapshotSink) = builtin_descriptor SnapshotSink" by (simp add: builtin_spec_def native_spec_new_def)
  note e = sink_allocate p sink_track sink_claim s sink_config
  show ?thesis
    using e by (simp add: prepare_component_def kind_period_def prepare_native_def demo_native_def wcall_def rthen_def on_err_def
      prepare_owner_def d start_owner_def claim_startup_def construct_def start_component_def call_hook_def builtin_behavior_def
      default_behavior_def default_hook_def wdo_def)
qed

section \<open>Properties\<close>

text \<open>C33. A window counter neither loses nor invents a pulse. Over any sequence of events, ticks and drains, with runtime
  and context as they may be: the snapshots that were published together with the open window hold exactly the
  pulses that were accepted, in number and in sum; a snapshot that was refused stays in the window; a pulse that would
  overflow is refused and changes nothing; and the statistics count pulses and snapshots until they saturate.\<close>

theorem window_counter_conserves:
  assumes "reachable window_init (window_step w ex) (c, acc, out)"
  shows "sum_list (map fst out) + bi_count c = length acc \<and> sum_list (map snd out) + bi_total c = sum_list acc
    \<and> bi_count c \<le> u64_max \<and> - (2 ^ 63) \<le> bi_total c \<and> bi_total c < 2 ^ 63
    \<and> ks_processed (bi_stats c) = min u64_max (length acc) \<and> ks_summaries (bi_stats c) = min u64_max (length out)"
  using window.reachable_invar [OF assms] by (simp add: window_inv_def)

theorem window_counter_conserves_witness:
  "\<exists>c. reachable window_init (window_step demo_world demo_execution) (c, [7], []) \<and> bi_count c = 1 \<and> bi_total c = 7"
proof -
  let ?c = "\<lparr>bi_kind = WindowCounter 1, bi_stats = kind_stats_zero, bi_count = 0, bi_total = 0\<rparr>"
  have i: "reachable window_init (window_step demo_world demo_execution) (?c, [], [])"
    by (rule reachable_init) (auto simp: window_init_def)
  have "\<exists>c'. builtin_event (Pulse 7) ?c demo_native (new_context demo_execution PhEvent None) = Some (c', demo_native, Some (Inr ()))
      \<and> bi_count c' = 1"
    by (simp add: builtin_event_def checked_add_def u64_max_def i64_checked_add_def Let_def)
  then obtain c' where c': "builtin_event (Pulse 7) ?c demo_native (new_context demo_execution PhEvent None)
      = Some (c', demo_native, Some (Inr ()))" by blast
  have r: "reachable window_init (window_step demo_world demo_execution) (c', [7], [])"
    using reachable_step [OF i event [OF c']] by simp
  from window_counter_conserves [OF r] r show ?thesis by auto
qed

text \<open>The sum of squares is exact. For an input from 0 to 1000000 the job either was cancelled at one of its checks,
  every 1024 steps, or replies with the count and the sum by the closed formula: neither the product nor the sum
  overflows. Every other input is refused.\<close>

theorem sum_squares_exact:
  "sum_squares cancelled p =
    (case p of
       Pulse v \<Rightarrow>
         if v < 0 \<or> 1000000 < v then Inl (NeApplication ''CpuInputRange'')
         else if \<exists>j. 0 < j \<and> j \<le> nat v \<and> cancel_at cancelled j then Inl (NeApplication ''CpuCancelled'')
         else Inr (CountSnapshot (nat v) (v * (v + 1) * (2 * v + 1) div 6))
     | _ \<Rightarrow> Inl (NeApplication ''CpuInputSchema''))"
proof (cases p)
  case (Pulse v)
  have "int (squares_upto k) = int k * (int k + 1) * (2 * int k + 1) div 6" for k
  proof -
    have "int (6 * squares_upto k) = int (k * (k + 1) * (2 * k + 1))" by (simp only: squares_closed)
    then have "int k * (int k + 1) * (2 * int k + 1) = 6 * int (squares_upto k)"
      by (simp only: of_nat_mult of_nat_add of_nat_numeral of_nat_1)
    then show ?thesis by (simp only: nonzero_mult_div_cancel_left [OF zero_neq_numeral [symmetric]])
  qed
  moreover have "sum_loop cancelled (nat v) 1 0 =
    (if \<exists>j. 0 < j \<and> j \<le> nat v \<and> cancel_at cancelled j then Inl (NeApplication ''CpuCancelled'')
     else Inr (int (squares_upto (nat v))))" if "\<not> (v < 0 \<or> 1000000 < v)"
  proof -
    have "nat v \<le> 1000000" using that by linarith
    from sum_loop_exact [OF this, of 1 cancelled] show ?thesis
      by (simp only: squares_upto.simps diff_self_eq_0 of_nat_0 Suc_le_eq One_nat_def)
  qed
  moreover have "(\<not> (0 \<le> v \<and> v \<le> 1000000)) = (v < 0 \<or> 1000000 < v)" by auto
  ultimately show ?thesis
    by (cases "v < 0 \<or> 1000000 < v"; cases "\<exists>j. 0 < j \<and> j \<le> nat v \<and> cancel_at cancelled j")
      (simp_all only: Pulse sum_squares_def payload.case if_True if_False bindR_simps, simp_all)
qed (simp_all add: sum_squares_def)



end
