(* ===== verification/Native_Frames.thy ===== *)
theory Native_Frames
  imports Framing Native_Builtins
begin

text \<open>
  Frames as events, \<^verbatim>\<open>crates/runtime-native/src/io/mod.rs\<close>: the configuration of a TCP listener, the schema of a frame
  and the direct codec that the transport uses for it, and the echo component. The direct codec is the generic
  schema codec of \<open>Schema\<close> on the schema of frames.
\<close>

section \<open>Configuration\<close>

definition MAX_FRAME_BYTES :: nat where
  "MAX_FRAME_BYTES = 65536"

text \<open>The address to bind is an argument of the socket layer and has no part in the validation.\<close>

record tcp_config =
  tc_max_connections :: nat
  tc_max_frame_bytes :: nat
  tc_read_buffer_bytes :: nat
  tc_write_buffer_bytes :: nat
  tc_read_timeout :: duration
  tc_request_timeout :: duration
  tc_write_timeout :: duration

datatype tcp_error =
    TcpInvalidConfig
  | TcpVirtualRuntime
  | TcpClosed
  | TcpTaskLimit
  | TcpBind error_kind
  | TcpCore error
  | TcpSchema

definition SECOND :: duration where
  "SECOND = 1000000000"

definition default_tcp_config :: tcp_config where
  "default_tcp_config =
     \<lparr>tc_max_connections = 16, tc_max_frame_bytes = 16384, tc_read_buffer_bytes = 1048576,
      tc_write_buffer_bytes = 1048576, tc_read_timeout = 5 * SECOND, tc_request_timeout = SECOND,
      tc_write_timeout = 5 * SECOND\<rparr>"

definition tcp_validate :: "tcp_config \<Rightarrow> tcp_error + unit" where
  "tcp_validate c =
     (if \<not> (1 \<le> tc_max_connections c \<and> tc_max_connections c \<le> 1024)
         \<or> \<not> (1 \<le> tc_max_frame_bytes c \<and> tc_max_frame_bytes c \<le> MAX_FRAME_BYTES)
         \<or> \<not> (1 \<le> tc_read_buffer_bytes c \<and> tc_read_buffer_bytes c \<le> 64 * 1024 * 1024)
         \<or> \<not> (1 \<le> tc_write_buffer_bytes c \<and> tc_write_buffer_bytes c \<le> 64 * 1024 * 1024)
         \<or> list_ex (\<lambda>period. period = 0 \<or> period > DAY) [tc_read_timeout c, tc_request_timeout c, tc_write_timeout c]
      then Inl TcpInvalidConfig else Inr ())"

section \<open>Frames\<close>

definition frame_schema :: schema where
  "frame_schema = Schema ''actorplane.TcpFrame'' 1 [Field ''data'' (TBytes MAX_FRAME_BYTES)]"

definition register_frame :: "state \<Rightarrow> state \<times> (tcp_error + nat)" where
  "register_frame s =
     (let (s1, r) = register_schemas [frame_schema] s
      in (s1, case r of Inl _ \<Rightarrow> Inl TcpSchema | Inr ids \<Rightarrow> Inr (ids ! 0)))"

text \<open>\<open>alloc n\<close>: does \<^verbatim>\<open>try_reserve_exact(n)\<close> succeed?\<close>

definition frame_payload :: "(nat \<Rightarrow> bool) \<Rightarrow> inner \<Rightarrow> nat \<Rightarrow> bytes \<Rightarrow> state \<Rightarrow> tcp_error + payload" where
  "frame_payload alloc w sid data s =
     (if length data > MAX_FRAME_BYTES then Inl TcpInvalidConfig
      else if \<not> alloc (4 + length data) then Inl TcpInvalidConfig
      else case world_structured w sid (le_bytes 4 (length data) @ data) s of
        Inl _ \<Rightarrow> Inl TcpSchema
      | Inr p \<Rightarrow> Inr p)"

definition frame_bytes :: "payload \<Rightarrow> nat \<Rightarrow> tcp_error + bytes" where
  "frame_bytes p sid =
     (case p of
        Structured r \<Rightarrow>
          if sr_schema r \<noteq> sid \<or> length (sr_bytes r) < 4 then Inl TcpSchema
          else
            (let len = from_le (take 4 (sr_bytes r))
             in if len > MAX_FRAME_BYTES \<or> length (sr_bytes r) \<noteq> 4 + len then Inl TcpSchema
                else Inr (drop 4 (sr_bytes r)))
      | _ \<Rightarrow> Inl TcpSchema)"

section \<open>Echo\<close>

definition echo_event :: "inner \<Rightarrow> execution \<Rightarrow> payload \<Rightarrow> (unit, unit) hook_fun" where
  "echo_event w ex p c n cx =
     with_cx (reply w ex p n cx) (\<lambda>r n. Some (c, n, Some (case r of Inl e \<Rightarrow> Inl e | Inr _ \<Rightarrow> Inr ())))"

definition echo_behavior :: "inner \<Rightarrow> execution \<Rightarrow> unit behavior" where
  "echo_behavior w ex = default_behavior (echo_event w ex)"

definition echo_spec :: "nat \<Rightarrow> native_spec" where
  "echo_spec sid =
     native_spec_new
       \<lparr>cd_name = ''TcpEcho'', cd_version = 1,
        cd_ports = [\<lparr>ps_name = ''requests'', ps_direction = Input, ps_schema = PtStructured sid\<rparr>], cd_interfaces = []\<rparr>
       (Schema ''TcpEcho.Config'' 1 [])"

definition prepare_tcp_echo :: "inner \<Rightarrow> actor_ref option \<Rightarrow> native \<Rightarrow> unit prepared nres" where
  "prepare_tcp_echo w parent n =
     (let (s, r) = register_frame (nt_world n); n1 = n\<lparr>nt_world := s\<rparr>
      in case r of
           Inl _ \<Rightarrow> Some (n1, Inl (NeApplication ''TcpSchema''))
         | Inr sid \<Rightarrow> prepare_native w parent (echo_spec sid) (VRecord []) (echo_behavior w) (\<lambda>_. Some (Inr ())) n1)"

lemma reply_kept: "reply w ex p n cx = Some (n', cx', r) \<Longrightarrow> kept w n n'"
  using call_kept [of w ex "CallReply p" n cx n' cx' "Inr (is_ok r)"] by (simp add: forget_def)

interpretation echo: native_behavior w "echo_behavior w ex" for w ex
  by unfold_locales
    (auto simp: echo_behavior_def default_behavior_def echo_event_def intro: default_hook_kept elim!: with_cxE
      dest: reply_kept)

section \<open>The direct codec is the schema codec\<close>

lemma frame_schema_valid: "schema_validate frame_schema = Inr ()"
  by (simp add: frame_schema_def schema_validate_def MAX_FRAME_BYTES_def EVENT_MAX_def utf8_valid.simps scalar_def
      utf8_width_def)

lemma frame_read_iff:
  "schema_read build frame_schema bs = Inr v \<longleftrightarrow>
    4 \<le> length bs \<and> from_le (take 4 bs) \<le> MAX_FRAME_BYTES \<and> length bs = 4 + from_le (take 4 bs)
    \<and> v = VRecord (if build then [VBytes (drop 4 bs)] else [])"
  by (auto simp: schema_read_def frame_schema_def rd_node_def rd_u32_def rd_take_def EVENT_MAX_def MAX_FRAME_BYTES_def
      err_at_def bindR_def split: sum.splits if_splits)

lemma frame_decode_iff:
  "schema_decode frame_schema bs = Inr v \<longleftrightarrow>
    4 \<le> length bs \<and> from_le (take 4 bs) \<le> MAX_FRAME_BYTES \<and> length bs = 4 + from_le (take 4 bs)
    \<and> v = VRecord [VBytes (drop 4 bs)]"
  by (simp add: schema_decode_def frame_schema_valid frame_read_iff)

lemma frame_bytes_decodes:
  "frame_bytes (Structured r) sid = Inr d \<longleftrightarrow>
    sr_schema r = sid \<and> schema_decode frame_schema (sr_bytes r) = Inr (VRecord [VBytes d])"
  by (auto simp: frame_bytes_def frame_decode_iff Let_def)

lemma frame_payload_Inr:
  assumes "sg_schema (st_schemas s) sid = Inr frame_schema" "length data \<le> MAX_FRAME_BYTES" "alloc (4 + length data)"
    and "length data + 8 \<le> cfg_max_event_bytes (in_cfg w)"
  shows "frame_payload alloc w sid data s =
    Inr (Structured \<lparr>sr_world = in_id w, sr_schema = sid, sr_bytes = le_bytes 4 (length data) @ data\<rparr>)"
proof -
  have len: "from_le (le_bytes 4 (length data)) = length data"
    using assms(2) by (simp add: from_le_le_bytes MAX_FRAME_BYTES_def)
  have "saturating_add usize_max (4 + length data) 4 \<le> cfg_max_event_bytes (in_cfg w)"
    using assms(4) by (simp add: saturating_add_def)
  then show ?thesis
    using assms len by (simp add: frame_payload_def world_structured_def validate_registered_bytes_def frame_read_iff [THEN iffD2])
qed

section \<open>Properties\<close>

text \<open>A frame is an event and back. Under a configuration that \<^verbatim>\<open>listen_tcp\<close> accepts, every frame that the transport can
  read becomes an event of the registered frame schema, and its bytes come back unchanged; and what \<^verbatim>\<open>frame_bytes\<close>
  extracts from any event, also one that was built by somebody else, is exactly what the schema decoder finds there:
  the hand-written codec accepts and reads neither more nor less than the generic one.\<close>

theorem frame_event_codec:
  assumes "tcp_validate c = Inr ()" "tc_max_frame_bytes c + 8 \<le> cfg_max_event_bytes (in_cfg w)"
    and "sg_schema (st_schemas s) sid = Inr frame_schema" "\<And>n. alloc n"
  shows "(length data \<le> tc_max_frame_bytes c \<longrightarrow>
        (\<exists>p. frame_payload alloc w sid data s = Inr p \<and> frame_bytes p sid = Inr data))
    \<and> (frame_bytes p sid = Inr d \<longleftrightarrow>
        (\<exists>r. p = Structured r \<and> sr_schema r = sid \<and> schema_decode frame_schema (sr_bytes r) = Inr (VRecord [VBytes d])))"
proof (intro conjI impI)
  assume d: "length data \<le> tc_max_frame_bytes c"
  have "tc_max_frame_bytes c \<le> MAX_FRAME_BYTES" using assms(1) by (auto simp: tcp_validate_def split: if_splits)
  then have "length data \<le> MAX_FRAME_BYTES" using d by simp
  then show "\<exists>p. frame_payload alloc w sid data s = Inr p \<and> frame_bytes p sid = Inr data"
    using frame_payload_Inr [OF assms(3)] assms(2,4) d
    by (auto simp: frame_bytes_def Let_def from_le_le_bytes MAX_FRAME_BYTES_def)
next
  show "frame_bytes p sid = Inr d \<longleftrightarrow>
        (\<exists>r. p = Structured r \<and> sr_schema r = sid \<and> schema_decode frame_schema (sr_bytes r) = Inr (VRecord [VBytes d]))"
    by (cases p) (simp_all add: frame_bytes_decodes, simp_all add: frame_bytes_def)
qed

definition demo_framed :: state where
  "demo_framed = fst (register_frame demo_new)"

lemma demo_register: "register_frame demo_new = (demo_framed, Inr 1)" "sg_schema (st_schemas demo_framed) 1 = Inr frame_schema"
proof -
  note v = frame_schema_valid
  obtain m where m: "collect_schema frame_schema Map.empty = Inr m" by (simp add: frame_schema_def)
  have n: "normalized_clone frame_schema = frame_schema" by (simp add: frame_schema_def)
  show "register_frame demo_new = (demo_framed, Inr 1)" "sg_schema (st_schemas demo_framed) 1 = Inr frame_schema"
    using v m n by (simp_all add: demo_framed_def register_frame_def register_schemas_def register_batch_def sg_schema_def demo_base
        all_actors_def)
qed

theorem frame_event_codec_witness:
  "\<exists>p. frame_payload (\<lambda>_. True) demo_world 1 ''hello'' demo_framed = Inr p \<and> frame_bytes p 1 = Inr ''hello''"
proof -
  have c: "tcp_validate (default_tcp_config\<lparr>tc_max_frame_bytes := 16\<rparr>) = Inr ()"
    by (simp add: tcp_validate_def default_tcp_config_def SECOND_def DAY_def MAX_FRAME_BYTES_def)
  have m: "tc_max_frame_bytes (default_tcp_config\<lparr>tc_max_frame_bytes := 16\<rparr>) + 8 \<le> cfg_max_event_bytes (in_cfg demo_world)"
    by (simp add: demo_world_def demo_config_def)
  have "length ''hello'' \<le> tc_max_frame_bytes (default_tcp_config\<lparr>tc_max_frame_bytes := 16\<rparr>)" by simp
  with frame_event_codec [OF c m demo_register(2), of "\<lambda>_. True" "''hello''" "Pulse 0" "[]"] show ?thesis by blast
qed

end
