(* ===== verification/Native_Tcp.thy ===== *)
theory Native_Tcp
  imports Native_Frames
begin

text \<open>
  A connection of the TCP transport, \<^verbatim>\<open>connection_loop\<close> of \<^verbatim>\<open>crates/runtime-native/src/io/transport.rs\<close>: read a frame,
  submit it as a request, await the outcome, write the reply. One request is outstanding at a time. The connection is
  a state machine whose steps are the stretches between two suspensions that touch shared state; socket, allocator
  and the ends of the timed stages are arguments. A read that suspends several times touches only its stream in
  between and is one step. Budgets and counters are shared by the connections of a listener.
\<close>

section \<open>State\<close>

record tcp_stats =
  ts_accepted_connections :: nat
  ts_rejected_connections :: nat
  ts_closed_connections :: nat
  ts_cancelled_connections :: nat
  ts_drained_connections :: nat
  ts_frames_received :: nat
  ts_requests_admitted :: nat
  ts_frames_written :: nat
  ts_bytes_received :: nat
  ts_bytes_written :: nat
  ts_oversized_frames :: nat
  ts_truncated_frames :: nat
  ts_read_errors :: nat
  ts_write_errors :: nat
  ts_read_timeouts :: nat
  ts_request_timeouts :: nat
  ts_write_timeouts :: nat
  ts_budget_rejections :: nat
  ts_admission_rejections :: nat
  ts_failed_requests :: nat
  ts_invalid_replies :: nat
  ts_listener_errors :: nat

datatype conn_pc =
    CnTop
  | CnBody nat buffer_permit
  | CnAwait operation_id instant
  | CnReply held_payload
  | CnWrite held_payload bytes buffer_permit
  | CnClosed

text \<open>The World, what the listener's connections share, and the socket. The read budget is tied to the World's: its
  second counter is the World's retained memory and is kept there.\<close>

record 'r conn =
  cn_pc :: conn_pc
  cn_world :: state
  cn_stats :: tcp_stats
  cn_read :: buffer_budget
  cn_write :: buffer_budget
  cn_connections :: "(nat \<times> actor_ref) list"
  cn_stream :: 'r

text \<open>How a \<^verbatim>\<open>stage\<close> ends: with its value, because the owner left the allowed states, or by time.\<close>

datatype stage_end = StDone | StChanged | StTimeout

datatype conn_end = EndCancel | EndDrain | EndTimeout

text \<open>What the connection is given: configuration, endpoints, socket and allocator.\<close>

record 'r conn_env =
  ce_owner :: actor_ref
  ce_target :: actor_ref
  ce_config :: tcp_config
  ce_schema :: nat
  ce_rd :: "'r read"
  ce_wa :: "'r write_all"
  ce_capacity :: "nat \<Rightarrow> nat option"
  ce_alloc :: "nat \<Rightarrow> bool"

section \<open>Counters\<close>

abbreviation upd_tcp :: "(tcp_stats \<Rightarrow> tcp_stats) \<Rightarrow> 'r conn \<Rightarrow> 'r conn" where
  "upd_tcp f c \<equiv> c\<lparr>cn_stats := f (cn_stats c)\<rparr>"

definition count_end :: "conn_end \<Rightarrow> tcp_stats \<Rightarrow> tcp_stats" where
  "count_end e st =
     (case e of
        EndCancel \<Rightarrow> st\<lparr>ts_cancelled_connections := ts_cancelled_connections st + 1\<rparr>
      | EndDrain \<Rightarrow> st\<lparr>ts_drained_connections := ts_drained_connections st + 1\<rparr>
      | EndTimeout \<Rightarrow> st)"

definition count_frame_error :: "frame_error \<Rightarrow> tcp_stats \<Rightarrow> tcp_stats" where
  "count_frame_error e st =
     (case e of
        FrameTooLarge \<Rightarrow> st\<lparr>ts_oversized_frames := ts_oversized_frames st + 1\<rparr>
      | FrameTruncated \<Rightarrow> st\<lparr>ts_truncated_frames := ts_truncated_frames st + 1\<rparr>
      | FrameBudgetExceeded \<Rightarrow> st\<lparr>ts_budget_rejections := ts_budget_rejections st + 1\<rparr>
      | FrameAllocationFailed \<Rightarrow> st\<lparr>ts_budget_rejections := ts_budget_rejections st + 1\<rparr>
      | _ \<Rightarrow> st\<lparr>ts_read_errors := ts_read_errors st + 1\<rparr>)"

text \<open>\<^verbatim>\<open>stage\<close>: what an early end means to the owner.\<close>

definition stage_result :: "inner \<Rightarrow> actor_ref \<Rightarrow> stage_end \<Rightarrow> state \<Rightarrow> (conn_end option) option" where
  "stage_result w owner e s =
     (case e of
        StDone \<Rightarrow> Some None
      | StTimeout \<Rightarrow> Some (Some EndTimeout)
      | StChanged \<Rightarrow>
          map_option (\<lambda>st. Some (if st = Inr Quiescing then EndDrain else EndCancel)) (execution_state w owner s))"

section \<open>Guards\<close>

text \<open>The drop of an operation's status or outcome: its payload handle goes with it.\<close>

definition drop_entry :: "op_entry \<Rightarrow> state \<Rightarrow> state" where
  "drop_entry en s = fold drop_handle (entry_stored en) s"

definition drop_taken :: "terminal_outcome option result \<Rightarrow> state \<Rightarrow> state" where
  "drop_taken r s = (case r of Inr (Some outcome) \<Rightarrow> drop_entry (OpTerminal outcome) s | _ \<Rightarrow> s)"

text \<open>\<^verbatim>\<open>Drop for RequestGuard\<close> and \<^verbatim>\<open>Drop for ConnectionGuard\<close>.\<close>

definition request_guard_drop :: "inner \<Rightarrow> operation_id \<Rightarrow> state \<Rightarrow> state option" where
  "request_guard_drop w oid s =
     Option.bind (cancel_operation w oid s) (\<lambda>(s, _). map_option (\<lambda>(s, r). drop_taken r s) (take_operation w oid s))"

definition close_connection :: "inner \<Rightarrow> actor_ref \<Rightarrow> 'r conn \<Rightarrow> 'r conn option" where
  "close_connection w owner c =
     Option.bind (stop w owner (cn_world c)) (\<lambda>(s, _).
       Some (upd_tcp (\<lambda>st. st\<lparr>ts_closed_connections := ts_closed_connections st + 1\<rparr>)
         (c\<lparr>cn_pc := CnClosed, cn_world := s,
            cn_connections := bm_remove (ar_slot owner) (cn_connections c)\<rparr>)))"

section \<open>The read budget and the World\<close>

text \<open>The budget as the framing layer sees it, and what remains of it in connection and World afterwards.\<close>

definition lend :: "inner \<Rightarrow> state \<Rightarrow> buffer_budget \<Rightarrow> buffer_budget" where
  "lend w s b = b\<lparr>bb_native := Some (cfg_native_payload_budget (in_cfg w), retained s)\<rparr>"

definition lent_world :: "state \<Rightarrow> buffer_budget \<Rightarrow> state" where
  "lent_world s b =
     (case bb_native b of
        None \<Rightarrow> s
      | Some (_, n) \<Rightarrow> s\<lparr>st_buffer_bytes := st_buffer_bytes s + n - retained s\<rparr>)"

definition unlend :: "buffer_budget \<Rightarrow> buffer_budget" where
  "unlend b = b\<lparr>bb_native := None\<rparr>"

definition set_budget :: "buffer_budget \<Rightarrow> 'r conn \<Rightarrow> 'r conn" where
  "set_budget b c = c\<lparr>cn_world := lent_world (cn_world c) b, cn_read := unlend b\<rparr>"

text \<open>\<^verbatim>\<open>BufferBudget::reserve\<close> and the drop of a permit on the shared budget.\<close>

definition reserve_read :: "inner \<Rightarrow> nat \<Rightarrow> 'r conn \<Rightarrow> 'r conn \<times> (frame_error + buffer_permit)" where
  "reserve_read w n c =
     (case reserve_local n (cn_read c) of
        Inl err \<Rightarrow> (c, Inl err)
      | Inr b \<Rightarrow>
          (case buffer_reserve w n (cn_world c) of
             (s, Inl _) \<Rightarrow> (c\<lparr>cn_world := s, cn_read := release_local n b\<rparr>, Inl FrameBudgetExceeded)
           | (s, Inr _) \<Rightarrow> (c\<lparr>cn_world := s, cn_read := b\<rparr>, Inr \<lparr>bp_charged = n, bp_native = Some n\<rparr>)))"

definition release_read :: "buffer_permit \<Rightarrow> 'r conn \<Rightarrow> 'r conn" where
  "release_read p c =
     c\<lparr>cn_read := release_local (bp_charged p) (cn_read c),
       cn_world := (case bp_native p of None \<Rightarrow> cn_world c | Some n \<Rightarrow> buffer_release n (cn_world c))\<rparr>"

section \<open>A request\<close>

text \<open>From a frame in hand to an admitted request. The request's scratch is charged before it is built; on an error
  scratch and frame are dropped, in this order, and after the admission likewise.\<close>

definition reject_frame :: "inner \<Rightarrow> 'r conn_env \<Rightarrow> buffer_permit \<Rightarrow> buffer_permit \<Rightarrow> 'r conn \<Rightarrow> 'r conn option" where
  "reject_frame w e p scratch c =
     close_connection w (ce_owner e) (release_read p (release_read scratch
       (upd_tcp (\<lambda>st. st\<lparr>ts_admission_rejections := ts_admission_rejections st + 1\<rparr>) c)))"

definition admit_frame :: "inner \<Rightarrow> 'r conn_env \<Rightarrow> frame_buffer \<Rightarrow> buffer_permit \<Rightarrow> 'r conn \<Rightarrow> 'r conn option" where
  "admit_frame w e f scratch c =
     (case frame_payload (ce_alloc e) w (ce_schema e) (fb_bytes f) (cn_world c) of
        Inl _ \<Rightarrow> reject_frame w e (fb_permit f) scratch c
      | Inr p \<Rightarrow>
          (let (s1, now) = read_now w (cn_world c);
               deadline = now + tc_request_timeout (ce_config e)
           in Option.bind (request_with_port w (ce_owner e) (ce_target e) p deadline default_options None s1) (\<lambda>(s2, r).
                let c1 = c\<lparr>cn_world := s2\<rparr>
                in case r of
                     Inl _ \<Rightarrow> reject_frame w e (fb_permit f) scratch c1
                   | Inr oid \<Rightarrow>
                       Some ((upd_tcp (\<lambda>st. st\<lparr>ts_requests_admitted := ts_requests_admitted st + 1\<rparr>)
                          (release_read (fb_permit f) (release_read scratch c1)))\<lparr>cn_pc := CnAwait oid deadline\<rparr>))))"

definition submit_frame :: "inner \<Rightarrow> 'r conn_env \<Rightarrow> frame_buffer \<Rightarrow> 'r conn \<Rightarrow> 'r conn option" where
  "submit_frame w e f c =
     (case reserve_read w (2 * (length (fb_bytes f) + 4)) c of
        (c1, Inl err) \<Rightarrow>
          close_connection w (ce_owner e) (release_read (fb_permit f) (upd_tcp (count_frame_error err) c1))
      | (c1, Inr scratch) \<Rightarrow> admit_frame w e f scratch c1)"

text \<open>\<^verbatim>\<open>read_frame\<close> up to the charged buffer. The lemma \<open>read_frame_split\<close> puts the parts together again.\<close>

definition frame_open ::
  "'r read \<Rightarrow> (nat \<Rightarrow> nat option) \<Rightarrow> nat \<Rightarrow> buffer_budget \<Rightarrow> 'r \<Rightarrow>
   buffer_budget \<times> (frame_error + (nat \<times> buffer_permit) option) \<times> 'r" where
  "frame_open rd alloc max_frame_bytes b r =
     (case read_exact_frame rd 4 r of
        (Inl e, r1) \<Rightarrow> (b, Inl e, r1)
      | (Inr None, r1) \<Rightarrow> (b, Inr None, r1)
      | (Inr (Some header), r1) \<Rightarrow>
          (let len = from_be header
           in if len > max_frame_bytes then (b, Inl FrameTooLarge, r1)
              else if len > isize_max then (b, Inl FrameInvalidConfig, r1)
              else case budget_reserve len b of
                (b1, Inl e) \<Rightarrow> (b1, Inl e, r1)
              | (b1, Inr permit) \<Rightarrow>
                  (case alloc len of
                     None \<Rightarrow> (permit_drop permit b1, Inl FrameAllocationFailed, r1)
                   | Some actual \<Rightarrow>
                       (let (b2, p, g) = (if actual > len then permit_grow (actual - len) permit b1 else (b1, permit, Inr ()))
                        in case g of
                             Inl e \<Rightarrow> (permit_drop p b2, Inl e, r1)
                           | Inr _ \<Rightarrow> (b2, Inr (Some (len, p)), r1)))))"

text \<open>A read stage that ends early.\<close>

definition read_ended :: "conn_end \<Rightarrow> tcp_stats \<Rightarrow> tcp_stats" where
  "read_ended ended st =
     (let st1 = count_end ended st
      in if ended = EndTimeout then st1\<lparr>ts_read_timeouts := ts_read_timeouts st1 + 1\<rparr> else st1)"

definition step_open :: "inner \<Rightarrow> 'r conn_env \<Rightarrow> stage_end \<Rightarrow> 'r conn \<Rightarrow> 'r conn option" where
  "step_open w e i c =
     Option.bind (stage_result w (ce_owner e) i (cn_world c)) (\<lambda>x.
       case x of
         Some ended \<Rightarrow> close_connection w (ce_owner e) (upd_tcp (read_ended ended) c)
       | None \<Rightarrow>
           (let (b, r, rest) = frame_open (ce_rd e) (ce_capacity e) (tc_max_frame_bytes (ce_config e))
                  (lend w (cn_world c) (cn_read c)) (cn_stream c);
                c1 = (set_budget b c)\<lparr>cn_stream := rest\<rparr>
            in case r of
                 Inl err \<Rightarrow> close_connection w (ce_owner e) (upd_tcp (count_frame_error err) c1)
               | Inr None \<Rightarrow> close_connection w (ce_owner e) c1
               | Inr (Some (len, p)) \<Rightarrow> Some (c1\<lparr>cn_pc := CnBody len p\<rparr>)))"

definition step_body :: "inner \<Rightarrow> 'r conn_env \<Rightarrow> stage_end \<Rightarrow> nat \<Rightarrow> buffer_permit \<Rightarrow> 'r conn \<Rightarrow> 'r conn option" where
  "step_body w e i len p c =
     Option.bind (stage_result w (ce_owner e) i (cn_world c)) (\<lambda>x.
       case x of
         Some ended \<Rightarrow> close_connection w (ce_owner e) (upd_tcp (read_ended ended) (release_read p c))
       | None \<Rightarrow>
           (let (r, rest) = read_exact_frame (ce_rd e) len (cn_stream c); c1 = c\<lparr>cn_stream := rest\<rparr>
            in case r of
                 Inl err \<Rightarrow> close_connection w (ce_owner e) (upd_tcp (count_frame_error err) (release_read p c1))
               | Inr None \<Rightarrow> close_connection w (ce_owner e) (upd_tcp (count_frame_error FrameTruncated) (release_read p c1))
               | Inr (Some body) \<Rightarrow>
                   submit_frame w e \<lparr>fb_bytes = body, fb_permit = p\<rparr>
                     (upd_tcp (\<lambda>st. st\<lparr>ts_frames_received := ts_frames_received st + 1,
                        ts_bytes_received := ts_bytes_received st + length body\<rparr>) c1)))"

section \<open>The outcome\<close>

text \<open>One round of \<^verbatim>\<open>await_reply\<close>: \<open>None\<close> while the request is pending.\<close>

definition poll_reply ::
  "inner \<Rightarrow> actor_ref \<Rightarrow> operation_id \<Rightarrow> instant \<Rightarrow> state \<Rightarrow> (state \<times> terminal_outcome option option) option" where
  "poll_reply w owner oid deadline s =
     (let (s1, now) = read_now w s
      in Option.bind (if now \<ge> deadline then (let (s2, again) = read_now w s1 in maintain w again s2) else Some s1) (\<lambda>s.
         Option.bind (world_activity w owner s) (\<lambda>(s, v).
           case v of
             Inl _ \<Rightarrow> Some (s, Some None)
           | Inr _ \<Rightarrow>
               (case operation_status oid s of
                  (s, Inl _) \<Rightarrow> Some (s, Some None)
                | (s, Inr (OpPending p)) \<Rightarrow> Some (drop_entry (OpPending p) s, None)
                | (s, Inr (OpTerminal out)) \<Rightarrow>
                    map_option (\<lambda>(s, r). (drop_entry (OpTerminal out) s, Some (case r of Inl _ \<Rightarrow> None | Inr taken \<Rightarrow> taken)))
                      (take_operation w oid s)))))"

definition guarded_close :: "inner \<Rightarrow> actor_ref \<Rightarrow> operation_id \<Rightarrow> 'r conn \<Rightarrow> 'r conn option" where
  "guarded_close w owner oid c =
     Option.bind (request_guard_drop w oid (cn_world c)) (\<lambda>s. close_connection w owner (c\<lparr>cn_world := s\<rparr>))"

text \<open>An outcome other than a reply carries no payload.\<close>

definition step_await :: "inner \<Rightarrow> 'r conn_env \<Rightarrow> operation_id \<Rightarrow> instant \<Rightarrow> bool \<Rightarrow> 'r conn \<Rightarrow> 'r conn option" where
  "step_await w e oid deadline changed c =
     (if changed then guarded_close w (ce_owner e) oid (upd_tcp (count_end EndCancel) c)
      else Option.bind (poll_reply w (ce_owner e) oid deadline (cn_world c)) (\<lambda>(s, x).
        let c1 = c\<lparr>cn_world := s\<rparr>
        in case x of
             None \<Rightarrow> Some c1
           | Some (Some (Completed r)) \<Rightarrow>
               map_option (\<lambda>s. c1\<lparr>cn_world := s, cn_pc := CnReply r\<rparr>) (request_guard_drop w oid s)
           | Some (Some TimedOut) \<Rightarrow>
               guarded_close w (ce_owner e) oid
                 (upd_tcp (\<lambda>st. st\<lparr>ts_request_timeouts := ts_request_timeouts st + 1\<rparr>) c1)
           | Some _ \<Rightarrow>
               guarded_close w (ce_owner e) oid
                 (upd_tcp (\<lambda>st. st\<lparr>ts_failed_requests := ts_failed_requests st + 1\<rparr>) c1)))"

section \<open>The reply\<close>

definition drop_reply :: "held_payload \<Rightarrow> 'r conn \<Rightarrow> 'r conn" where
  "drop_reply r c = c\<lparr>cn_world := drop_handle (hp_stored r) (cn_world c)\<rparr>"

text \<open>The claim that fences the write: a callback of an active owner, or of a draining one.\<close>

definition claim_write :: "inner \<Rightarrow> actor_ref \<Rightarrow> state \<Rightarrow> (state \<times> bool) option" where
  "claim_write w owner s =
     Option.bind (claim_native_callback w owner False s) (\<lambda>(s, r).
       if r = Inr True then Some (s, True)
       else map_option (\<lambda>(s, r). (s, r = Inr True)) (claim_native_drain_callback w owner s))"

text \<open>The end of the claimed write. Claim, output permit and reply are dropped at the end of the iteration, in this
  order, and by an early exit in the reverse order of their declaration, which is the same.\<close>

definition step_write :: "inner \<Rightarrow> 'r conn_env \<Rightarrow> stage_end \<Rightarrow> held_payload \<Rightarrow> bytes \<Rightarrow> buffer_permit \<Rightarrow> 'r conn \<Rightarrow> 'r conn option" where
  "step_write w e i r out permit c =
     Option.bind (stage_result w (ce_owner e) i (cn_world c)) (\<lambda>x.
       let (c1, ok) =
         (case x of
            Some ended \<Rightarrow>
              (upd_tcp (\<lambda>st. if ended = EndTimeout then st\<lparr>ts_write_timeouts := ts_write_timeouts st + 1\<rparr> else st)
                 (upd_tcp (count_end ended) c), False)
          | None \<Rightarrow>
              (let (res, rest) = write_frame (ce_wa e) out (tc_max_frame_bytes (ce_config e)) (cn_stream c);
                   c1 = c\<lparr>cn_stream := rest\<rparr>
               in case res of
                    Inl _ \<Rightarrow> (upd_tcp (\<lambda>st. st\<lparr>ts_write_errors := ts_write_errors st + 1\<rparr>) c1, False)
                  | Inr _ \<Rightarrow>
                      (upd_tcp (\<lambda>st. st\<lparr>ts_frames_written := ts_frames_written st + 1,
                         ts_bytes_written := ts_bytes_written st + length out\<rparr>) c1, True)))
       in Option.bind (native_callback_drop w (ce_owner e) (cn_world c1)) (\<lambda>s.
            let c2 = drop_reply r (c1\<lparr>cn_world := s, cn_write := permit_drop permit (cn_write c1)\<rparr>)
            in if ok then Some (c2\<lparr>cn_pc := CnTop\<rparr>) else close_connection w (ce_owner e) c2))"

definition step_reply :: "inner \<Rightarrow> 'r conn_env \<Rightarrow> held_payload \<Rightarrow> 'r conn \<Rightarrow> 'r conn option" where
  "step_reply w e r c =
     (let refuse = (\<lambda>f c. close_connection w (ce_owner e) (drop_reply r (upd_tcp f c)))
      in case frame_bytes (s_payload (hp_stored r)) (ce_schema e) of
           Inl _ \<Rightarrow> refuse (\<lambda>st. st\<lparr>ts_invalid_replies := ts_invalid_replies st + 1\<rparr>) c
         | Inr out \<Rightarrow>
             if length out > tc_max_frame_bytes (ce_config e)
             then refuse (\<lambda>st. st\<lparr>ts_invalid_replies := ts_invalid_replies st + 1\<rparr>) c
             else
               (case budget_reserve (length out) (cn_write c) of
                  (b, Inl _) \<Rightarrow> refuse (\<lambda>st. st\<lparr>ts_budget_rejections := ts_budget_rejections st + 1\<rparr>) (c\<lparr>cn_write := b\<rparr>)
                | (b, Inr permit) \<Rightarrow>
                    Option.bind (claim_write w (ce_owner e) (cn_world c)) (\<lambda>(s, claimed).
                      let c1 = c\<lparr>cn_world := s, cn_write := b\<rparr>
                      in if claimed then Some (c1\<lparr>cn_pc := CnWrite r out permit\<rparr>)
                         else refuse (\<lambda>st. st\<lparr>ts_cancelled_connections := ts_cancelled_connections st + 1\<rparr>)
                                (c1\<lparr>cn_write := permit_drop permit (cn_write c1)\<rparr>))))"

section \<open>The connection\<close>

fun conn_next :: "inner \<Rightarrow> 'r conn_env \<Rightarrow> stage_end \<Rightarrow> 'r conn \<Rightarrow> 'r conn option" where
  "conn_next w e i c =
     (case cn_pc c of
        CnTop \<Rightarrow> step_open w e i c
      | CnBody len p \<Rightarrow> step_body w e i len p c
      | CnAwait oid deadline \<Rightarrow> step_await w e oid deadline (i = StChanged) c
      | CnReply r \<Rightarrow> step_reply w e r c
      | CnWrite r out permit \<Rightarrow> step_write w e i r out permit c
      | CnClosed \<Rightarrow> None)"

section \<open>The framing layer, split\<close>

lemma read_frame_split:
  "read_frame rd alloc mx b r =
     (case frame_open rd alloc mx b r of
        (b1, Inl err, r1) \<Rightarrow> (b1, Inl err, r1)
      | (b1, Inr None, r1) \<Rightarrow> (b1, Inr None, r1)
      | (b1, Inr (Some (len, p)), r1) \<Rightarrow>
          (case read_exact_frame rd len r1 of
             (Inl err, r2) \<Rightarrow> (permit_drop p b1, Inl err, r2)
           | (Inr None, r2) \<Rightarrow> (permit_drop p b1, Inl FrameTruncated, r2)
           | (Inr (Some body), r2) \<Rightarrow> (b1, Inr (Some \<lparr>fb_bytes = body, fb_permit = p\<rparr>), r2)))"
  by (auto simp: read_frame_def frame_open_def fill_frame_def Let_def split: prod.splits sum.splits option.splits)

section \<open>Budgets\<close>

text \<open>What a reservation of \<open>n\<close> bytes needs: room in both counters, below the width of a counter.\<close>

definition room :: "nat \<Rightarrow> buffer_budget \<Rightarrow> bool" where
  "room n b \<longleftrightarrow> fits n b \<and> bb_used b + n \<le> usize_max
     \<and> (case bb_native b of None \<Rightarrow> True | Some (limit, m) \<Rightarrow> m + n \<le> usize_max)"

lemma reserve_room:
  "budget_reserve n b = (if room n b then (charge n b, Inr (permit_of n b)) else (b, Inl FrameBudgetExceeded))"
  by (cases b) (auto simp: budget_reserve_def reserve_local_def reserve_attempt_def checked_add_def reserve_alone_def
      room_def fits_def charge_def permit_of_def permit_drop_def release_local_def fetch_sub_add split: option.splits)

lemma grow_room:
  assumes "room n b" "0 < k"
  shows "permit_grow k (permit_of n b) (charge n b) =
    (if room (n + k) b then (charge (n + k) b, permit_of (n + k) b, Inr ())
     else (charge n b, permit_of n b, Inl FrameBudgetExceeded))"
  using assms
  by (cases b) (auto simp: permit_grow_def reserve_local_def reserve_attempt_def checked_add_def reserve_alone_def
      native_try_grow_def bindR_def room_def fits_def charge_def permit_of_def permit_drop_def release_local_def
      fetch_sub_add add.assoc [symmetric] split: option.splits)

lemma drop_room: "room n b \<Longrightarrow> permit_drop (permit_of n b) (charge n b) = b"
  by (cases b) (auto simp: permit_drop_def release_local_def permit_of_def charge_def room_def fetch_sub_add
      split: option.splits)

lemma frame_open_cases:
  assumes "frame_open rd alloc mx b r = (b', res, r')"
  obtains (refused) "b' = b" "\<forall>x. res \<noteq> Inr (Some x)"
    | (charged) n len where "b' = charge n b" "room n b" "res = Inr (Some (len, permit_of n b))"
proof -
  obtain x r1 where x: "read_exact_frame rd 4 r = (x, r1)" by fastforce
  show thesis
  proof (cases "\<exists>h. x = Inr (Some h)")
    case False
    then show thesis using assms x refused by (auto simp: frame_open_def split: sum.splits option.splits)
  next
    case True
    then obtain h where h: "x = Inr (Some h)" by blast
    define len where "len = from_be h"
    have eq: "frame_open rd alloc mx b r =
       (if len > mx then (b, Inl FrameTooLarge, r1) else if len > isize_max then (b, Inl FrameInvalidConfig, r1)
        else if \<not> room len b then (b, Inl FrameBudgetExceeded, r1)
        else case alloc len of
          None \<Rightarrow> (b, Inl FrameAllocationFailed, r1)
        | Some actual \<Rightarrow>
            if actual \<le> len then (charge len b, Inr (Some (len, permit_of len b)), r1)
            else if room actual b then (charge actual b, Inr (Some (len, permit_of actual b)), r1)
            else (b, Inl FrameBudgetExceeded, r1))"
      using x h grow_room [of len b]
      by (auto simp: frame_open_def Let_def len_def reserve_room drop_room split: option.splits)
    show thesis
      using assms refused charged by (auto simp: eq split: if_splits option.splits)
  qed
qed

section \<open>What a step moves\<close>

text \<open>\<open>c'\<close> is reached from \<open>c\<close> along methods of the World, with the given use of the budgets, and with the same
  accepted and closed connections.\<close>

definition moved :: "inner \<Rightarrow> 'r conn \<Rightarrow> nat \<Rightarrow> nat \<Rightarrow> 'r conn \<Rightarrow> bool" where
  "moved w c r m c' \<longleftrightarrow> (world_op w)\<^sup>*\<^sup>* (cn_world c) (cn_world c')
     \<and> cn_read c' = (cn_read c)\<lparr>bb_used := r\<rparr> \<and> cn_write c' = (cn_write c)\<lparr>bb_used := m\<rparr>
     \<and> ts_accepted_connections (cn_stats c') = ts_accepted_connections (cn_stats c)
     \<and> ts_closed_connections (cn_stats c') = ts_closed_connections (cn_stats c)
     \<and> cn_connections c' = cn_connections c"

definition shut :: "inner \<Rightarrow> actor_ref \<Rightarrow> 'r conn \<Rightarrow> nat \<Rightarrow> nat \<Rightarrow> 'r conn \<Rightarrow> bool" where
  "shut w owner c r m c' \<longleftrightarrow> (\<exists>c1. moved w c r m c1 \<and> close_connection w owner c1 = Some c')"

lemma connection_ops:
  "stop w r s = Some (t, x1) \<Longrightarrow> world_op w s t"
  "cancel_operation w oid s = Some (t, x2) \<Longrightarrow> world_op w s t"
  "take_operation w oid s = Some (t, x3) \<Longrightarrow> world_op w s t"
  "operation_status oid s = (t, x4) \<Longrightarrow> world_op w s t"
  "read_now w s = (t, x5) \<Longrightarrow> world_op w s t"
  "maintain w now s = Some t \<Longrightarrow> world_op w s t"
  "request_with_port w owner target p deadline opts dp s = Some (t, x6) \<Longrightarrow> world_op w s t"
  "buffer_reserve w n s = (t, x7) \<Longrightarrow> world_op w s t"
  "world_op w s (buffer_release n s)"
  "world_op w s (drop_handle st s)"
  unfolding world_op_def by (blast intro: work_op.intros refl)+

lemma moved_refl: "moved w c (bb_used (cn_read c)) (bb_used (cn_write c)) c"
  by (simp add: moved_def)

lemma moved_simps [simp]:
  "moved w c r m (c'\<lparr>cn_pc := pc\<rparr>) \<longleftrightarrow> moved w c r m c'" "moved w c r m (c'\<lparr>cn_stream := x\<rparr>) \<longleftrightarrow> moved w c r m c'"
  by (simp_all add: moved_def)

lemma moved_stats:
  "moved w c r m c' \<Longrightarrow> ts_accepted_connections (f (cn_stats c')) = ts_accepted_connections (cn_stats c') \<Longrightarrow>
    ts_closed_connections (f (cn_stats c')) = ts_closed_connections (cn_stats c') \<Longrightarrow> moved w c r m (upd_tcp f c')"
  by (simp add: moved_def)

lemma moved_world: "moved w c r m c' \<Longrightarrow> (world_op w)\<^sup>*\<^sup>* (cn_world c') s \<Longrightarrow> moved w c r m (c'\<lparr>cn_world := s\<rparr>)"
  by (auto simp: moved_def intro: rtranclp_trans)

lemma budget_used_twice: "b'\<lparr>bb_used := x\<rparr> = (b :: buffer_budget)\<lparr>bb_used := y\<rparr> \<longleftrightarrow>
    x = y \<and> bb_limit b' = bb_limit b \<and> bb_native b' = bb_native b"
  by (cases b; cases b') auto

lemma moved_release:
  assumes "moved w c (r + bp_charged p) m c'" "r + bp_charged p \<le> usize_max"
  shows "moved w c r m (release_read p c')"
proof -
  have "(world_op w)\<^sup>*\<^sup>* (cn_world c') (case bp_native p of None \<Rightarrow> cn_world c' | Some n \<Rightarrow> buffer_release n (cn_world c'))"
    using connection_ops(9) by (auto split: option.splits)
  then show ?thesis
    using assms by (auto simp: moved_def release_read_def release_local_def fetch_sub_add intro: rtranclp_trans)
qed

lemma reserve_read_cases:
  assumes "reserve_read w n c = (c', x)"
  shows "(\<exists>err. x = Inl err) \<and> c' = c
    \<or> x = Inr \<lparr>bp_charged = n, bp_native = Some n\<rparr> \<and> bb_used (cn_read c) + n \<le> bb_limit (cn_read c)
      \<and> bb_used (cn_read c) + n \<le> usize_max
      \<and> (\<exists>s. world_op w (cn_world c) s \<and> c' = c\<lparr>cn_world := s, cn_read := (cn_read c)\<lparr>bb_used := bb_used (cn_read c) + n\<rparr>\<rparr>)"
proof (cases "buffer_reserve w n (cn_world c)")
  case (Pair s y)
  then have "world_op w (cn_world c) s" "is_ok y \<or> s = cn_world c"
    using connection_ops(8) by (auto simp: buffer_reserve_def split: sum.splits)
  then show ?thesis
    using assms Pair
    by (auto simp: reserve_read_def reserve_local_def reserve_attempt_def checked_add_def release_local_def fetch_sub_add
        split: sum.splits if_splits option.splits attempt.splits)
qed

lemma moved_reserve:
  assumes "moved w c r m c'" "reserve_read w n c' = (c'', x)"
  shows "(\<exists>err. x = Inl err) \<and> c'' = c'
    \<or> x = Inr \<lparr>bp_charged = n, bp_native = Some n\<rparr> \<and> r + n \<le> bb_limit (cn_read c) \<and> r + n \<le> usize_max
      \<and> moved w c (r + n) m c''"
  using assms(1) reserve_read_cases [OF assms(2)]
  by (auto simp: moved_def intro: rtranclp.rtrancl_into_rtrancl)

lemma moved_drop_write:
  "moved w c r (m + bp_charged p) c' \<Longrightarrow> bp_native p = None \<Longrightarrow> m + bp_charged p \<le> usize_max \<Longrightarrow>
    moved w c r m (c'\<lparr>cn_write := permit_drop p (cn_write c')\<rparr>)"
  by (auto simp: moved_def permit_drop_def release_local_def fetch_sub_add split: option.splits)

lemma moved_drop_reply: "moved w c r m c' \<Longrightarrow> moved w c r m (drop_reply x c')"
  unfolding drop_reply_def by (rule moved_world) (auto intro: connection_ops)

lemma drop_entry_steps: "(world_op w)\<^sup>*\<^sup>* s (drop_entry en s)"
proof -
  have "(world_op w)\<^sup>*\<^sup>* s (fold drop_handle xs s)" for xs
    by (induction xs arbitrary: s) (auto intro: connection_ops converse_rtranclp_into_rtranclp)
  then show ?thesis by (simp add: drop_entry_def)
qed

lemma drop_taken_steps: "(world_op w)\<^sup>*\<^sup>* s (drop_taken r s)"
  by (auto simp: drop_taken_def drop_entry_steps split: sum.splits option.splits)

lemma request_guard_steps: "request_guard_drop w oid s = Some t \<Longrightarrow> (world_op w)\<^sup>*\<^sup>* s t"
  by (auto simp: request_guard_drop_def bind_eq_Some_conv
      intro!: rtranclp_trans [OF converse_rtranclp_into_rtranclp [OF _ r_into_rtranclp] drop_taken_steps]
      dest: connection_ops(2,3))

lemma poll_reply_steps:
  assumes "poll_reply w owner oid deadline s = Some (t, x)"
  shows "(world_op w)\<^sup>*\<^sup>* s t"
proof -
  obtain s1 now where s1: "read_now w s = (s1, now)" by fastforce
  obtain s2 again where s2: "read_now w s1 = (s2, again)" by fastforce
  obtain s3 s4 v where s3: "(if now \<ge> deadline then (let (s2, again) = read_now w s1 in maintain w again s2) else Some s1) = Some s3"
      "world_activity w owner s3 = Some (s4, v)"
    using assms by (auto simp: poll_reply_def s1 bind_eq_Some_conv simp del: if_split split: if_split_asm)
  have "(world_op w)\<^sup>*\<^sup>* s s3"
    using connection_ops(5) [OF s1] connection_ops(5) [OF s2] s3(1)
    by (auto simp: s2 split: if_splits intro: converse_rtranclp_into_rtranclp dest: connection_ops(6))
  then have a: "(world_op w)\<^sup>*\<^sup>* s s4" using task_ops(1) [OF s3(2)] by (rule rtranclp.rtrancl_into_rtrancl)
  obtain s5 y where s5: "operation_status oid s4 = (s5, y)" by fastforce
  have b: "(world_op w)\<^sup>*\<^sup>* s s5" using a connection_ops(4) [OF s5] by (rule rtranclp.rtrancl_into_rtrancl)
  show ?thesis
    using assms a b s3(2)
    by (cases v; cases y) (auto simp: poll_reply_def s1 s3(1) s5 bind_eq_Some_conv split: op_entry.splits
        intro: rtranclp_trans [OF _ drop_entry_steps] rtranclp.rtrancl_into_rtrancl connection_ops(3))
qed

lemma claim_write_steps: "claim_write w owner s = Some (t, x) \<Longrightarrow> (world_op w)\<^sup>*\<^sup>* s t"
  by (auto simp: claim_write_def bind_eq_Some_conv split: if_splits
      intro: converse_rtranclp_into_rtranclp dest: task_ops(5,9))

section \<open>Accounts\<close>

text \<open>What the connection holds of the read and of the write budget where it suspends.\<close>

fun read_held :: "conn_pc \<Rightarrow> nat" where
  "read_held (CnBody len p) = bp_charged p"
| "read_held _ = 0"

fun write_held :: "conn_pc \<Rightarrow> nat" where
  "write_held (CnWrite r out p) = bp_charged p"
| "write_held _ = 0"

text \<open>A budget without a part of the World's: within its limit, and covering what is held of it.\<close>

definition covers :: "buffer_budget \<Rightarrow> nat \<Rightarrow> bool" where
  "covers b n \<longleftrightarrow> bb_native b = None \<and> n \<le> bb_used b \<and> bb_used b \<le> bb_limit b \<and> bb_limit b \<le> usize_max"

fun permit_fits :: "conn_pc \<Rightarrow> bool" where
  "permit_fits (CnWrite r out p) \<longleftrightarrow> bp_native p = None"
| "permit_fits _ \<longleftrightarrow> True"

definition conn_ok :: "'r conn \<Rightarrow> bool" where
  "conn_ok c \<longleftrightarrow> covers (cn_read c) (read_held (cn_pc c)) \<and> covers (cn_write c) (write_held (cn_pc c))
     \<and> permit_fits (cn_pc c)"

text \<open>A step's account: the books are kept if it goes on, or one connection is closed; what was held is exchanged for
  what is held.\<close>

definition accounts :: "inner \<Rightarrow> actor_ref \<Rightarrow> 'r conn \<Rightarrow> 'r conn \<Rightarrow> bool" where
  "accounts w owner c c' \<longleftrightarrow>
     (let r = bb_used (cn_read c) - read_held (cn_pc c) + read_held (cn_pc c');
          m = bb_used (cn_write c) - write_held (cn_pc c) + write_held (cn_pc c')
      in r \<le> bb_limit (cn_read c) \<and> m \<le> bb_limit (cn_write c) \<and> permit_fits (cn_pc c')
         \<and> (if cn_pc c' = CnClosed then shut w owner c r m c' else moved w c r m c'))"

lemma close_pc: "close_connection w owner c = Some c' \<Longrightarrow> cn_pc c' = CnClosed"
  by (auto simp: close_connection_def bind_eq_Some_conv)

lemma accounts_close:
  assumes "close_connection w owner c1 = Some c'" "conn_ok c"
    "moved w c (bb_used (cn_read c) - read_held (cn_pc c)) (bb_used (cn_write c) - write_held (cn_pc c)) c1"
  shows "accounts w owner c c'"
  using assms close_pc [OF assms(1)] by (auto simp: accounts_def shut_def conn_ok_def covers_def Let_def)

lemma accounts_goto:
  assumes "moved w c (bb_used (cn_read c) - read_held (cn_pc c)) (bb_used (cn_write c) - write_held (cn_pc c)) c1"
    "conn_ok c" "read_held pc = 0" "write_held pc = 0" "pc \<noteq> CnClosed" "permit_fits pc"
  shows "accounts w owner c (c1\<lparr>cn_pc := pc\<rparr>)"
  using assms by (auto simp: accounts_def conn_ok_def covers_def Let_def)

lemma held_back:
  assumes "conn_ok c"
  shows "bb_used (cn_read c) - read_held (cn_pc c) + read_held (cn_pc c) = bb_used (cn_read c)"
    "bb_used (cn_write c) - write_held (cn_pc c) + write_held (cn_pc c) = bb_used (cn_write c)"
    "bb_used (cn_read c) \<le> usize_max" "bb_used (cn_write c) \<le> usize_max"
  using assms by (auto simp: conn_ok_def covers_def)

lemma count_keeps [simp]:
  "ts_accepted_connections (count_end x st) = ts_accepted_connections st"
  "ts_closed_connections (count_end x st) = ts_closed_connections st"
  "ts_accepted_connections (count_frame_error y st) = ts_accepted_connections st"
  "ts_closed_connections (count_frame_error y st) = ts_closed_connections st"
  "ts_accepted_connections (read_ended x st) = ts_accepted_connections st"
  "ts_closed_connections (read_ended x st) = ts_closed_connections st"
  by (auto simp: count_end_def count_frame_error_def read_ended_def Let_def split: conn_end.splits frame_error.splits)

lemma set_budget_charge:
  assumes "room n (lend w (cn_world c) (cn_read c))" "bb_native (cn_read c) = None"
  shows "moved w c (bb_used (cn_read c) + n) (bb_used (cn_write c)) (set_budget (charge n (lend w (cn_world c) (cn_read c))) c)"
proof -
  have "buffer_reserve w n (cn_world c) = ((cn_world c)\<lparr>st_buffer_bytes := st_buffer_bytes (cn_world c) + n\<rparr>, Inr ())"
    using assms(1) by (auto simp: buffer_reserve_def reserve_alone_def reserve_attempt_def checked_add_def room_def
        lend_def fits_def)
  then have "world_op w (cn_world c) ((cn_world c)\<lparr>st_buffer_bytes := st_buffer_bytes (cn_world c) + n\<rparr>)"
    by (rule connection_ops(8))
  then show ?thesis
    using assms(2) by (cases "cn_read c")
      (auto simp: moved_def set_budget_def charge_def lend_def lent_world_def unlend_def add.commute)
qed

lemma set_budget_same:
  "bb_native (cn_read c) = None \<Longrightarrow> set_budget (lend w (cn_world c) (cn_read c)) c = c"
  by (cases c; cases "cn_read c") (auto simp: set_budget_def lend_def lent_world_def unlend_def)

lemma step_open_accounts:
  assumes "step_open w e i c = Some c'" "cn_pc c = CnTop" "conn_ok c"
  shows "accounts w (ce_owner e) c c'"
proof -
  have none: "bb_native (cn_read c) = None" "bb_native (cn_write c) = None" and ok: "covers (cn_read c) 0" "covers (cn_write c) 0"
    using assms by (auto simp: conn_ok_def covers_def)
  note close = accounts_close [OF _ assms(3), unfolded assms(2), simplified]
  obtain b r rest where fo: "frame_open (ce_rd e) (ce_capacity e) (tc_max_frame_bytes (ce_config e))
      (lend w (cn_world c) (cn_read c)) (cn_stream c) = (b, r, rest)" by (metis prod_cases3)
  obtain x where x: "stage_result w (ce_owner e) i (cn_world c) = Some x"
    using assms(1) by (auto simp: step_open_def bind_eq_Some_conv)
  show ?thesis
  proof (cases x)
    case (Some ended)
    then show ?thesis
      using assms(1) by (auto simp: step_open_def x intro!: close moved_stats moved_refl)
  next
    case None
    from fo show ?thesis
    proof (cases rule: frame_open_cases)
      case refused
      then show ?thesis
        using assms(1) none
        by (cases r) (auto simp: step_open_def x None fo set_budget_same Let_def moved_refl split: option.splits
            intro!: close moved_stats)
    next
      case (charged n len)
      have c': "c' = (set_budget b c)\<lparr>cn_stream := rest, cn_pc := CnBody len (permit_of n (lend w (cn_world c) (cn_read c)))\<rparr>"
        using assms(1) charged by (simp add: step_open_def x None fo)
      have m: "moved w c (bb_used (cn_read c) + n) (bb_used (cn_write c)) (set_budget b c)"
        unfolding charged(1) by (rule set_budget_charge [OF charged(2) none(1)])
      have "bb_used (cn_read c) + n \<le> bb_limit (cn_read c)" using charged(2) by (simp add: room_def fits_def lend_def)
      then show ?thesis using m ok c' assms(2) by (simp add: accounts_def permit_of_def covers_def)
    qed
  qed
qed

lemma admit_frame_accounts:
  assumes "admit_frame w e f scratch c1 = Some c'" "conn_ok c"
    and m: "moved w c (bb_used (cn_read c) - read_held (cn_pc c) + bp_charged (fb_permit f) + bp_charged scratch)
      (bb_used (cn_write c) - write_held (cn_pc c)) c1"
    and "bb_used (cn_read c) - read_held (cn_pc c) + bp_charged (fb_permit f) + bp_charged scratch \<le> usize_max"
  shows "accounts w (ce_owner e) c c'"
proof -
  let ?r = "bb_used (cn_read c) - read_held (cn_pc c)" and ?m = "bb_used (cn_write c) - write_held (cn_pc c)"
  let ?p = "fb_permit f"
  have gone: "moved w c ?r ?m (release_read ?p (release_read scratch d))"
    if "moved w c (?r + bp_charged ?p + bp_charged scratch) ?m d" for d
    using that assms(4) by (intro moved_release) simp_all
  have rej: "accounts w (ce_owner e) c c'" if "reject_frame w e ?p scratch d = Some c'"
    "moved w c (?r + bp_charged ?p + bp_charged scratch) ?m d" for d
    using that(1) unfolding reject_frame_def
    by (rule accounts_close [OF _ assms(2) gone [OF moved_stats [OF that(2)]]]) simp_all
  show ?thesis
  proof (cases "frame_payload (ce_alloc e) w (ce_schema e) (fb_bytes f) (cn_world c1)")
    case (Inl err)
    then have "reject_frame w e ?p scratch c1 = Some c'" using assms(1) by (simp add: admit_frame_def)
    then show ?thesis using m by (rule rej)
  next
    case fp: (Inr p)
    obtain s1 now where s1: "read_now w (cn_world c1) = (s1, now)" by fastforce
    let ?dl = "now + tc_request_timeout (ce_config e)"
    from assms(1) fp s1 obtain s2 y where
      s2: "request_with_port w (ce_owner e) (ce_target e) p ?dl default_options None s1 = Some (s2, y)"
      by (cases "request_with_port w (ce_owner e) (ce_target e) p ?dl default_options None s1") (auto simp: admit_frame_def)
    have m2: "moved w c (?r + bp_charged ?p + bp_charged scratch) ?m (c1\<lparr>cn_world := s2\<rparr>)"
      using connection_ops(5) [OF s1] connection_ops(7) [OF s2]
      by (intro moved_world [OF m]) (blast intro: converse_rtranclp_into_rtranclp)
    show ?thesis
    proof (cases y)
      case (Inl err)
      then have "reject_frame w e ?p scratch (c1\<lparr>cn_world := s2\<rparr>) = Some c'"
        using assms(1) fp s1 s2 by (simp add: admit_frame_def)
      then show ?thesis using m2 by (rule rej)
    next
      case y: (Inr oid)
      have "c' = (upd_tcp (\<lambda>st. st\<lparr>ts_requests_admitted := ts_requests_admitted st + 1\<rparr>)
          (release_read ?p (release_read scratch (c1\<lparr>cn_world := s2\<rparr>))))\<lparr>cn_pc := CnAwait oid ?dl\<rparr>"
        using assms(1) fp s1 s2 y by (simp add: admit_frame_def Let_def)
      then show ?thesis using accounts_goto [OF moved_stats [OF gone [OF m2]] assms(2), where pc = "CnAwait oid ?dl"] by simp
    qed
  qed
qed

lemma submit_frame_accounts:
  assumes "submit_frame w e f c1 = Some c'" "conn_ok c"
    and "moved w c (bb_used (cn_read c) - read_held (cn_pc c) + bp_charged (fb_permit f))
      (bb_used (cn_write c) - write_held (cn_pc c)) c1"
    and "bp_charged (fb_permit f) = read_held (cn_pc c)"
  shows "accounts w (ce_owner e) c c'"
proof -
  define n where "n = 2 * (length (fb_bytes f) + 4)"
  note sub = assms(1) [unfolded submit_frame_def, folded n_def]
  have u: "bb_used (cn_read c) - read_held (cn_pc c) + bp_charged (fb_permit f) \<le> usize_max"
    using held_back(1,3) [OF assms(2)] assms(4) by simp
  obtain c2 x where c2: "reserve_read w n c1 = (c2, x)" by fastforce
  from moved_reserve [OF assms(3) c2] show ?thesis
  proof (elim disjE conjE exE)
    fix err assume "x = Inl err" "c2 = c1"
    then show ?thesis
      using sub assms(3) u
      by (auto simp: c2 intro!: accounts_close [OF _ assms(2), of w "ce_owner e"
            "release_read (fb_permit f) (upd_tcp (count_frame_error err) c1)"] moved_release moved_stats)
  next
    assume "x = Inr \<lparr>bp_charged = n, bp_native = Some n\<rparr>"
      "bb_used (cn_read c) - read_held (cn_pc c) + bp_charged (fb_permit f) + n \<le> usize_max"
      "moved w c (bb_used (cn_read c) - read_held (cn_pc c) + bp_charged (fb_permit f) + n)
        (bb_used (cn_write c) - write_held (cn_pc c)) c2"
    then show ?thesis using sub by (intro admit_frame_accounts [OF _ assms(2)]) (auto simp: c2)
  qed
qed

lemma step_body_accounts:
  assumes "step_body w e i len p c = Some c'" "cn_pc c = CnBody len p" "conn_ok c"
  shows "accounts w (ce_owner e) c c'"
proof -
  let ?r = "bb_used (cn_read c) - read_held (cn_pc c)" and ?m = "bb_used (cn_write c) - write_held (cn_pc c)"
  note close = accounts_close [OF _ assms(3)]
  have r: "?r + bp_charged p = bb_used (cn_read c)" "?r + bp_charged p \<le> usize_max"
    using held_back [OF assms(3)] assms(2) by simp_all
  have m: "moved w c (?r + bp_charged p) ?m c" unfolding r(1) using moved_refl [of w c] assms(2) by simp
  obtain x where x: "stage_result w (ce_owner e) i (cn_world c) = Some x"
    using assms(1) by (auto simp: step_body_def bind_eq_Some_conv)
  obtain y rest where y: "read_exact_frame (ce_rd e) len (cn_stream c) = (y, rest)" by fastforce
  show ?thesis
  proof (cases x)
    case (Some ended)
    then show ?thesis
      using assms(1) m r(2) by (auto simp: step_body_def x intro!: close moved_stats moved_release)
  next
    case None
    consider err where "close_connection w (ce_owner e) (upd_tcp (count_frame_error err) (release_read p (c\<lparr>cn_stream := rest\<rparr>)))
        = Some c'" | body where "y = Inr (Some body)"
      using assms(1) by (cases y) (auto simp: step_body_def x None y Let_def split: option.splits)
    then show ?thesis
    proof cases
      case 1
      then show ?thesis by (rule close) (use m r(2) in \<open>auto intro!: moved_stats moved_release\<close>)
    next
      case 2
      let ?f = "\<lambda>st. st\<lparr>ts_frames_received := ts_frames_received st + 1,
          ts_bytes_received := ts_bytes_received st + length body\<rparr>"
      have sub: "submit_frame w e \<lparr>fb_bytes = body, fb_permit = p\<rparr> (upd_tcp ?f (c\<lparr>cn_stream := rest\<rparr>)) = Some c'"
        using assms(1) 2 by (simp add: step_body_def x None y)
      have "moved w c (?r + bp_charged p) ?m (upd_tcp ?f (c\<lparr>cn_stream := rest\<rparr>))"
        using m by (intro moved_stats) simp_all
      then show ?thesis by (intro submit_frame_accounts [OF sub assms(3)]) (simp_all add: assms(2))
    qed
  qed
qed

lemma guarded_close_accounts:
  assumes "guarded_close w owner oid c1 = Some c'" "conn_ok c"
    "moved w c (bb_used (cn_read c) - read_held (cn_pc c)) (bb_used (cn_write c) - write_held (cn_pc c)) c1"
  shows "accounts w owner c c'"
proof -
  obtain s where s: "request_guard_drop w oid (cn_world c1) = Some s" "close_connection w owner (c1\<lparr>cn_world := s\<rparr>) = Some c'"
    using assms(1) by (auto simp: guarded_close_def bind_eq_Some_conv)
  show ?thesis by (rule accounts_close [OF s(2) assms(2) moved_world [OF assms(3) request_guard_steps [OF s(1)]]])
qed

lemma step_await_accounts:
  assumes "step_await w e oid deadline changed c = Some c'" "cn_pc c = CnAwait oid deadline" "conn_ok c"
  shows "accounts w (ce_owner e) c c'"
proof (cases changed)
  case True
  then show ?thesis
    using assms by (auto simp: step_await_def intro!: guarded_close_accounts [OF _ assms(3)] moved_stats moved_refl)
next
  case False
  then obtain s x where s: "poll_reply w (ce_owner e) oid deadline (cn_world c) = Some (s, x)"
    using assms(1) by (auto simp: step_await_def bind_eq_Some_conv)
  let ?c1 = "c\<lparr>cn_world := s\<rparr>"
  have m: "moved w c (bb_used (cn_read c) - read_held (cn_pc c)) (bb_used (cn_write c) - write_held (cn_pc c)) ?c1"
    using moved_world [OF moved_refl poll_reply_steps [OF s]] assms(2) by simp
  note ended = guarded_close_accounts [OF _ assms(3) moved_stats [OF m]]
  show ?thesis
  proof (cases "\<exists>r. x = Some (Some (Completed r))")
    case True
    then obtain r t where t: "request_guard_drop w oid s = Some t" "c' = ?c1\<lparr>cn_world := t, cn_pc := CnReply r\<rparr>"
      using assms(1) False s by (auto simp: step_await_def Let_def)
    have "moved w c (bb_used (cn_read c) - read_held (cn_pc c)) (bb_used (cn_write c) - write_held (cn_pc c)) (?c1\<lparr>cn_world := t\<rparr>)"
      by (rule moved_world [OF m]) (simp add: request_guard_steps [OF t(1)])
    then show ?thesis unfolding t(2) by (rule accounts_goto [OF _ assms(3)]) simp_all
  next
    case no: False
    have same: "accounts w (ce_owner e) c ?c1" using m assms(2,3) by (simp add: accounts_def conn_ok_def covers_def)
    show ?thesis
      using assms(1) False s no same
      by (auto simp: step_await_def Let_def intro: ended split: option.splits terminal_outcome.splits)
  qed
qed

lemma step_reply_accounts:
  assumes "step_reply w e r c = Some c'" "cn_pc c = CnReply r" "conn_ok c"
  shows "accounts w (ce_owner e) c c'"
proof -
  have none: "bb_native (cn_write c) = None" "bb_used (cn_write c) \<le> bb_limit (cn_write c)"
      "bb_used (cn_read c) \<le> bb_limit (cn_read c)"
    using assms(3) by (simp_all add: conn_ok_def covers_def)
  have refuse: "accounts w (ce_owner e) c c'"
    if "close_connection w (ce_owner e) (drop_reply r (upd_tcp f d)) = Some c'"
      "moved w c (bb_used (cn_read c)) (bb_used (cn_write c)) d"
      "\<And>st. ts_accepted_connections (f st) = ts_accepted_connections st" "\<And>st. ts_closed_connections (f st) = ts_closed_connections st"
    for f d
    using that(1) by (rule accounts_close [OF _ assms(3)])
      (use that assms(2) in \<open>simp add: moved_drop_reply moved_stats\<close>)
  have step: "step_reply w e r c = Some c'" by fact
  show ?thesis
  proof (cases "frame_bytes (s_payload (hp_stored r)) (ce_schema e)")
    case (Inl err)
    then show ?thesis using step by (auto simp: step_reply_def moved_refl intro: refuse)
  next
    case (Inr out)
    let ?n = "length out"
    show ?thesis
    proof (cases "?n > tc_max_frame_bytes (ce_config e) \<or> \<not> room ?n (cn_write c)")
      case True
      then show ?thesis
        using step by (auto simp: step_reply_def Inr reserve_room moved_refl intro: refuse split: if_splits)
    next
      case False
      let ?p = "permit_of ?n (cn_write c)"
      have p: "bp_charged ?p = ?n" "bp_native ?p = None" using none by (simp_all add: permit_of_def)
      have fit: "bb_used (cn_write c) + ?n \<le> bb_limit (cn_write c)" "bb_used (cn_write c) + ?n \<le> usize_max"
        using False by (auto simp: room_def fits_def)
      obtain s claimed where s: "claim_write w (ce_owner e) (cn_world c) = Some (s, claimed)"
        using step False by (auto simp: step_reply_def Inr reserve_room bind_eq_Some_conv)
      let ?c1 = "c\<lparr>cn_world := s, cn_write := charge ?n (cn_write c)\<rparr>"
      have m: "moved w c (bb_used (cn_read c)) (bb_used (cn_write c) + ?n) ?c1"
        using moved_world [OF moved_refl claim_write_steps [OF s]] none by (simp add: moved_def charge_def)
      show ?thesis
      proof (cases claimed)
        case True
        then have "c' = ?c1\<lparr>cn_pc := CnWrite r out ?p\<rparr>" using step False s by (simp add: step_reply_def Inr reserve_room)
        then show ?thesis using m p none fit assms(2) by (simp add: accounts_def)
      next
        case no: False
        let ?d = "?c1\<lparr>cn_write := permit_drop ?p (cn_write ?c1)\<rparr>"
        have d: "moved w c (bb_used (cn_read c)) (bb_used (cn_write c)) ?d"
          by (rule moved_drop_write) (use m p fit in simp_all)
        show ?thesis
          by (rule refuse [where d = ?d and f = "\<lambda>st. st\<lparr>ts_cancelled_connections := ts_cancelled_connections st + 1\<rparr>"])
            (use step False s no d in \<open>simp_all add: step_reply_def Inr reserve_room\<close>)
      qed
    qed
  qed
qed

lemma step_write_accounts:
  assumes "step_write w e i r out p c = Some c'" "cn_pc c = CnWrite r out p" "conn_ok c"
  shows "accounts w (ce_owner e) c c'"
proof -
  let ?r = "bb_used (cn_read c) - read_held (cn_pc c)" and ?m = "bb_used (cn_write c) - write_held (cn_pc c)"
  have m: "?m + bp_charged p = bb_used (cn_write c)" "?m + bp_charged p \<le> usize_max" "bp_native p = None"
    using held_back [OF assms(3)] assms(2,3) by (simp_all add: conn_ok_def)
  from assms(1) obtain c1 ok s where step: "moved w c ?r (?m + bp_charged p) c1"
    "native_callback_drop w (ce_owner e) (cn_world c1) = Some s"
    "(let c2 = drop_reply r (c1\<lparr>cn_world := s, cn_write := permit_drop p (cn_write c1)\<rparr>)
      in if ok then Some (c2\<lparr>cn_pc := CnTop\<rparr>) else close_connection w (ce_owner e) c2) = Some c'"
  proof -
    have start: "moved w c ?r (?m + bp_charged p) c" unfolding m(1) using moved_refl [of w c] assms(2) by simp
    obtain x where x: "stage_result w (ce_owner e) i (cn_world c) = Some x"
      using assms(1) by (auto simp: step_write_def bind_eq_Some_conv)
    obtain res rest where wr: "write_frame (ce_wa e) out (tc_max_frame_bytes (ce_config e)) (cn_stream c) = (res, rest)"
      by fastforce
    show thesis
    proof (cases x)
      case (Some ended)
      let ?c1 = "upd_tcp (\<lambda>st. if ended = EndTimeout then st\<lparr>ts_write_timeouts := ts_write_timeouts st + 1\<rparr> else st)
          (upd_tcp (count_end ended) c)"
      have "moved w c ?r (?m + bp_charged p) ?c1" using start by (intro moved_stats) simp_all
      then show thesis
        using that [of ?c1 _ False] assms(1) Some by (auto simp: step_write_def x bind_eq_Some_conv)
    next
      case None
      let ?fail = "upd_tcp (\<lambda>st. st\<lparr>ts_write_errors := ts_write_errors st + 1\<rparr>) (c\<lparr>cn_stream := rest\<rparr>)"
      let ?good = "upd_tcp (\<lambda>st. st\<lparr>ts_frames_written := ts_frames_written st + 1,
          ts_bytes_written := ts_bytes_written st + length out\<rparr>) (c\<lparr>cn_stream := rest\<rparr>)"
      have "moved w c ?r (?m + bp_charged p) ?fail" "moved w c ?r (?m + bp_charged p) ?good"
        using start by (auto intro!: moved_stats [where c' = "c\<lparr>cn_stream := rest\<rparr>"])
      then show thesis
        using that [of ?fail _ False] that [of ?good _ True] assms(1) None
        by (cases res) (auto simp: step_write_def x wr bind_eq_Some_conv)
    qed
  qed
  let ?c2 = "drop_reply r (c1\<lparr>cn_world := s, cn_write := permit_drop p (cn_write c1)\<rparr>)"
  have "moved w c ?r (?m + bp_charged p) (c1\<lparr>cn_world := s\<rparr>)"
    by (rule moved_world [OF step(1)]) (use task_ops(6) [OF step(2)] in auto)
  from moved_drop_write [OF this m(3,2)] have c2: "moved w c ?r ?m ?c2" by (intro moved_drop_reply) simp
  show ?thesis
  proof (cases ok)
    case True
    then show ?thesis using step(3) accounts_goto [OF c2 assms(3), of CnTop] by auto
  next
    case False
    then show ?thesis using step(3) accounts_close [OF _ assms(3) c2] by simp
  qed
qed

lemma conn_next_accounts:
  assumes "conn_next w e i c = Some c'" "conn_ok c"
  shows "accounts w (ce_owner e) c c'"
  using assms
  by (cases "cn_pc c")
    (auto intro: step_open_accounts step_body_accounts step_await_accounts step_reply_accounts step_write_accounts)

text \<open>The account of a step, field by field.\<close>

lemma accounts_fields:
  assumes "accounts w owner c c'"
  shows "bb_used (cn_read c) - read_held (cn_pc c) + read_held (cn_pc c') \<le> bb_limit (cn_read c)"
    "bb_used (cn_write c) - write_held (cn_pc c) + write_held (cn_pc c') \<le> bb_limit (cn_write c)"
    "permit_fits (cn_pc c')"
    "(world_op w)\<^sup>*\<^sup>* (cn_world c) (cn_world c')"
    "cn_read c' = (cn_read c)\<lparr>bb_used := bb_used (cn_read c) - read_held (cn_pc c) + read_held (cn_pc c')\<rparr>"
    "cn_write c' = (cn_write c)\<lparr>bb_used := bb_used (cn_write c) - write_held (cn_pc c) + write_held (cn_pc c')\<rparr>"
    "ts_accepted_connections (cn_stats c') = ts_accepted_connections (cn_stats c)"
    "ts_closed_connections (cn_stats c') = ts_closed_connections (cn_stats c) + (if cn_pc c' = CnClosed then 1 else 0)"
    "cn_connections c' = (if cn_pc c' = CnClosed then bm_remove (ar_slot owner) (cn_connections c) else cn_connections c)"
proof -
  define r m where "r = bb_used (cn_read c) - read_held (cn_pc c) + read_held (cn_pc c')"
    and "m = bb_used (cn_write c) - write_held (cn_pc c) + write_held (cn_pc c')"
  note acc = assms [unfolded accounts_def Let_def, folded r_def m_def]
  obtain c1 where "moved w c r m c1" "if cn_pc c' = CnClosed then close_connection w owner c1 = Some c' else c1 = c'"
    using acc by (auto simp: shut_def split: if_splits)
  then have "(world_op w)\<^sup>*\<^sup>* (cn_world c) (cn_world c') \<and> cn_read c' = (cn_read c)\<lparr>bb_used := r\<rparr>
      \<and> cn_write c' = (cn_write c)\<lparr>bb_used := m\<rparr>
      \<and> ts_accepted_connections (cn_stats c') = ts_accepted_connections (cn_stats c)
      \<and> ts_closed_connections (cn_stats c') = ts_closed_connections (cn_stats c) + (if cn_pc c' = CnClosed then 1 else 0)
      \<and> cn_connections c' = (if cn_pc c' = CnClosed then bm_remove (ar_slot owner) (cn_connections c) else cn_connections c)"
    by (auto simp: moved_def close_connection_def bind_eq_Some_conv split: if_splits
        intro: rtranclp.rtrancl_into_rtrancl dest: connection_ops(1))
  then show "r \<le> bb_limit (cn_read c)" "m \<le> bb_limit (cn_write c)" "permit_fits (cn_pc c')"
    "(world_op w)\<^sup>*\<^sup>* (cn_world c) (cn_world c')"
    "cn_read c' = (cn_read c)\<lparr>bb_used := r\<rparr>" "cn_write c' = (cn_write c)\<lparr>bb_used := m\<rparr>"
    "ts_accepted_connections (cn_stats c') = ts_accepted_connections (cn_stats c)"
    "ts_closed_connections (cn_stats c') = ts_closed_connections (cn_stats c) + (if cn_pc c' = CnClosed then 1 else 0)"
    "cn_connections c' = (if cn_pc c' = CnClosed then bm_remove (ar_slot owner) (cn_connections c) else cn_connections c)"
    using acc by blast+
qed

end
