(* ===== verification/Native_Listener.thy ===== *)
theory Native_Listener
  imports Native_Tcp
begin

text \<open>
  The TCP listener, \<^verbatim>\<open>listen_tcp\<close> and \<^verbatim>\<open>listen\<close> of \<^verbatim>\<open>crates/runtime-native/src/io/transport.rs\<close>: its setup with the
  clean-up of every error path, the accept loop with its three admissions (connection slot, runtime permit, actor),
  and the connections it spawned, which share budgets, counters and the registry. Steps of loop and connections
  interleave with each other and with the rest of the program. The socket calls are arguments.
\<close>

section \<open>Setup\<close>

definition tcall :: "(state \<Rightarrow> 'a rstep) \<Rightarrow> native \<Rightarrow> (tcp_error, 'a) eres" where
  "tcall f n = map_option (\<lambda>(s, r). (n\<lparr>nt_world := s\<rparr>, case r of Inl e \<Rightarrow> Inl (TcpCore e) | Inr x \<Rightarrow> Inr x)) (f (nt_world n))"

definition register_frame_call :: "native \<Rightarrow> (tcp_error, nat) eres" where
  "register_frame_call n = (let (s, r) = register_frame (nt_world n) in Some (n\<lparr>nt_world := s\<rparr>, r))"

text \<open>The closure \<^verbatim>\<open>setup\<close>: track, claim, register, bind, activate. \<open>bound\<close> is the outcome of the socket calls. What was
  taken is dropped in the reverse order.\<close>

definition claim_listener :: "inner \<Rightarrow> actor_ref \<Rightarrow> native \<Rightarrow> (tcp_error, unit) eres" where
  "claim_listener w owner n =
     rthen (tcall (claim_native_callback w owner True) n) (\<lambda>n claimed.
       Some (n, if claimed then Inr () else Inl TcpClosed))"

definition bind_listener ::
  "inner \<Rightarrow> actor_ref \<Rightarrow> error_kind + 'l \<Rightarrow> native \<Rightarrow> (tcp_error, nat \<times> 'l) eres" where
  "bind_listener w owner bound n =
     rthen (register_frame_call n) (\<lambda>n sid.
       case bound of
         Inl kind \<Rightarrow> Some (n, Inl (TcpBind kind))
       | Inr l \<Rightarrow> rthen (tcall (activate w owner) n) (\<lambda>n _. Some (n, Inr (sid, l))))"

definition setup_listener ::
  "inner \<Rightarrow> actor_ref \<Rightarrow> error_kind + 'l \<Rightarrow> native \<Rightarrow> (tcp_error, nat \<times> 'l) eres" where
  "setup_listener w owner bound n =
     rthen (tcall (track_task w owner) n) (\<lambda>n _.
       on_err (wdo (task_drop w owner))
         (rthen (claim_listener w owner n) (\<lambda>n _.
            rthen (on_err (wdo (native_callback_drop w owner)) (bind_listener w owner bound n)) (\<lambda>n x.
              map_option (\<lambda>n. (n, Inr x)) (wdo (native_callback_drop w owner) n)))))"

text \<open>The handle and what the task is given: owner, schema and socket.\<close>

record 'l tcp_handle =
  th_owner :: actor_ref
  th_schema :: nat
  th_socket :: 'l

definition listen_tcp ::
  "inner \<Rightarrow> clock_state \<Rightarrow> actor_ref \<Rightarrow> actor_ref \<Rightarrow> tcp_config \<Rightarrow> error_kind + 'l \<Rightarrow> native \<Rightarrow>
   (tcp_error, 'l tcp_handle) eres" where
  "listen_tcp w clk parent target cfg bound n =
     (case tcp_validate cfg of
        Inl e \<Rightarrow> Some (n, Inl e)
      | Inr _ \<Rightarrow>
          if clock_is_virtual clk then Some (n, Inl TcpVirtualRuntime)
          else if tc_max_frame_bytes cfg + 8 > cfg_max_event_bytes (in_cfg w) then Some (n, Inl TcpInvalidConfig)
          else Option.bind (execution_state w target (nt_world n)) (\<lambda>x.
            case x of
              Inl e \<Rightarrow> Some (n, Inl (TcpCore e))
            | Inr st \<Rightarrow>
                if st \<noteq> Starting \<and> st \<noteq> Active then Some (n, Inl TcpClosed)
                else if nt_slots_closed n then Some (n, Inl TcpClosed)
                else if nt_slots n = 0 then Some (n, Inl TcpTaskLimit)
                else
                  on_err (\<lambda>n. Some (give_slot n))
                    (rthen (tcall (allocate w Native (Some parent)) (n\<lparr>nt_slots := nt_slots n - 1\<rparr>)) (\<lambda>n owner.
                       on_err (stop_owner w owner)
                         (rthen (setup_listener w owner bound n) (\<lambda>n (sid, l).
                            Some (n, Inr \<lparr>th_owner = owner, th_schema = sid, th_socket = l\<rparr>)))))))"

section \<open>State\<close>

text \<open>A spawned connection; it leaves the list when its task has ended.\<close>

record 'r live =
  lv_owner :: actor_ref
  lv_pc :: conn_pc
  lv_stream :: 'r

datatype listen_pc = LnStart | LnAccept | LnDone

text \<open>\<^verbatim>\<open>Shared\<close>, the semaphore of connections, the loop and the connections.\<close>

record 'r listener =
  ls_pc :: listen_pc
  ls_native :: native
  ls_stats :: tcp_stats
  ls_read :: buffer_budget
  ls_write :: buffer_budget
  ls_registry :: "(nat \<times> actor_ref) list"
  ls_slots :: nat
  ls_live :: "'r live list"

definition tcp_stats_zero :: tcp_stats where
  "tcp_stats_zero =
     \<lparr>ts_accepted_connections = 0, ts_rejected_connections = 0, ts_closed_connections = 0, ts_cancelled_connections = 0,
      ts_drained_connections = 0, ts_frames_received = 0, ts_requests_admitted = 0, ts_frames_written = 0,
      ts_bytes_received = 0, ts_bytes_written = 0, ts_oversized_frames = 0, ts_truncated_frames = 0,
      ts_read_errors = 0, ts_write_errors = 0, ts_read_timeouts = 0, ts_request_timeouts = 0,
      ts_write_timeouts = 0, ts_budget_rejections = 0, ts_admission_rejections = 0, ts_failed_requests = 0,
      ts_invalid_replies = 0, ts_listener_errors = 0\<rparr>"

definition listener_new :: "tcp_config \<Rightarrow> native \<Rightarrow> 'r listener" where
  "listener_new cfg n =
     \<lparr>ls_pc = LnStart, ls_native = n, ls_stats = tcp_stats_zero, ls_read = budget_new (tc_read_buffer_bytes cfg),
      ls_write = budget_new (tc_write_buffer_bytes cfg), ls_registry = [], ls_slots = tc_max_connections cfg, ls_live = []\<rparr>"

section \<open>The accept loop\<close>

datatype 'r accept_in = AcceptChanged | AcceptFailed | AcceptStream 'r

abbreviation upd_listener :: "(tcp_stats \<Rightarrow> tcp_stats) \<Rightarrow> 'r listener \<Rightarrow> 'r listener" where
  "upd_listener f l \<equiv> l\<lparr>ls_stats := f (ls_stats l)\<rparr>"

definition end_listen :: "inner \<Rightarrow> actor_ref \<Rightarrow> 'r listener \<Rightarrow> 'r listener option" where
  "end_listen w owner l =
     map_option (\<lambda>n. l\<lparr>ls_pc := LnDone, ls_native := give_slot n\<rparr>) (wdo (task_drop w owner) (ls_native l))"

definition reject_connection :: "'r listener \<Rightarrow> 'r listener" where
  "reject_connection l = upd_listener (\<lambda>st. st\<lparr>ts_rejected_connections := ts_rejected_connections st + 1\<rparr>) l"

text \<open>The connection's actor: allocated, tracked and activated, or stopped again.\<close>

definition open_connection :: "inner \<Rightarrow> actor_ref \<Rightarrow> native \<Rightarrow> (tcp_error, actor_ref) eres" where
  "open_connection w owner n =
     rthen (tcall (allocate w Native (Some owner)) n) (\<lambda>n conn.
       on_err (stop_owner w conn)
         (rthen (tcall (track_task w conn) n) (\<lambda>n _.
            on_err (wdo (task_drop w conn)) (rthen (tcall (activate w conn) n) (\<lambda>n _. Some (n, Inr conn))))))"

definition enter_connection :: "actor_ref \<Rightarrow> 'r \<Rightarrow> native \<Rightarrow> 'r listener \<Rightarrow> 'r listener" where
  "enter_connection conn stream n l =
     upd_listener (\<lambda>st. st\<lparr>ts_accepted_connections := ts_accepted_connections st + 1\<rparr>)
       (l\<lparr>ls_native := n, ls_slots := ls_slots l - 1, ls_registry := bm_insert (ar_slot conn) conn (ls_registry l),
          ls_live := ls_live l @ [\<lparr>lv_owner = conn, lv_pc = CnTop, lv_stream = stream\<rparr>]\<rparr>)"

definition accept_connection :: "inner \<Rightarrow> actor_ref \<Rightarrow> 'r \<Rightarrow> 'r listener \<Rightarrow> 'r listener option" where
  "accept_connection w owner stream l =
     (let n = ls_native l
      in if ls_slots l = 0 \<or> nt_slots_closed n \<or> nt_slots n = 0 then Some (reject_connection l)
         else
           map_option (\<lambda>(n, r).
             case r of
               Inl _ \<Rightarrow> reject_connection (l\<lparr>ls_native := give_slot n\<rparr>)
             | Inr conn \<Rightarrow> enter_connection conn stream n l)
             (open_connection w owner (n\<lparr>nt_slots := nt_slots n - 1\<rparr>)))"

definition accept_failed :: "inner \<Rightarrow> actor_ref \<Rightarrow> 'r listener \<Rightarrow> 'r listener option" where
  "accept_failed w owner l =
     Option.bind (report_failure w owner None None None
         (failure_details_new Handler ''tcp_listener'' ''AcceptFailed'' []) StopActor (nt_world (ls_native l))) (\<lambda>(s, _).
       end_listen w owner
         (upd_listener (\<lambda>st. st\<lparr>ts_listener_errors := ts_listener_errors st + 1\<rparr>)
           (l\<lparr>ls_native := (ls_native l)\<lparr>nt_world := s\<rparr>\<rparr>)))"

definition listen_next :: "inner \<Rightarrow> actor_ref \<Rightarrow> 'r accept_in \<Rightarrow> 'r listener \<Rightarrow> 'r listener option" where
  "listen_next w owner i l =
     (case ls_pc l of
        LnStart \<Rightarrow>
          Option.bind (execution_state w owner (nt_world (ls_native l))) (\<lambda>st.
            if st = Inr Active then Some (l\<lparr>ls_pc := LnAccept\<rparr>)
            else if st = Inr Starting then Some l
            else end_listen w owner l)
      | LnAccept \<Rightarrow>
          (case i of
             AcceptChanged \<Rightarrow> end_listen w owner l
           | AcceptFailed \<Rightarrow> accept_failed w owner l
           | AcceptStream stream \<Rightarrow> accept_connection w owner stream l)
      | LnDone \<Rightarrow> None)"

section \<open>The connections\<close>

definition conn_view :: "'r listener \<Rightarrow> 'r live \<Rightarrow> 'r conn" where
  "conn_view l v =
     \<lparr>cn_pc = lv_pc v, cn_world = nt_world (ls_native l), cn_stats = ls_stats l, cn_read = ls_read l,
      cn_write = ls_write l, cn_connections = ls_registry l, cn_stream = lv_stream v\<rparr>"

text \<open>The guard's slot is free once the connection is closed.\<close>

definition conn_put :: "nat \<Rightarrow> 'r live \<Rightarrow> 'r conn \<Rightarrow> 'r listener \<Rightarrow> 'r listener" where
  "conn_put j v c l =
     l\<lparr>ls_native := (ls_native l)\<lparr>nt_world := cn_world c\<rparr>, ls_stats := cn_stats c, ls_read := cn_read c,
       ls_write := cn_write c, ls_registry := cn_connections c,
       ls_slots := (if cn_pc c = CnClosed then ls_slots l + 1 else ls_slots l),
       ls_live := (ls_live l)[j := v\<lparr>lv_pc := cn_pc c, lv_stream := cn_stream c\<rparr>]\<rparr>"

definition run_connection :: "inner \<Rightarrow> 'r conn_env \<Rightarrow> stage_end \<Rightarrow> nat \<Rightarrow> 'r listener \<Rightarrow> 'r listener option" where
  "run_connection w e i j l =
     (if j < length (ls_live l)
      then map_option (\<lambda>c. conn_put j (ls_live l ! j) c l)
             (conn_next w (e\<lparr>ce_owner := lv_owner (ls_live l ! j)\<rparr>) i (conn_view l (ls_live l ! j)))
      else None)"

text \<open>The end of a connection's task: its lease, then its permit.\<close>

definition end_connection :: "inner \<Rightarrow> nat \<Rightarrow> 'r listener \<Rightarrow> 'r listener option" where
  "end_connection w j l =
     (if j < length (ls_live l) \<and> lv_pc (ls_live l ! j) = CnClosed
      then map_option (\<lambda>n. l\<lparr>ls_native := give_slot n, ls_live := take j (ls_live l) @ drop (Suc j) (ls_live l)\<rparr>)
             (wdo (task_drop w (lv_owner (ls_live l ! j))) (ls_native l))
      else None)"

text \<open>The rest of the program moves the World and takes and returns permits of the runtime.\<close>

inductive listener_step :: "inner \<Rightarrow> 'r conn_env \<Rightarrow> 'r listener \<Rightarrow> 'r listener \<Rightarrow> bool" for w e where
  ln_listen: "listen_next w (ce_owner e) i l = Some l' \<Longrightarrow> listener_step w e l l'"
| ln_connection: "run_connection w e i j l = Some l' \<Longrightarrow> listener_step w e l l'"
| ln_end: "end_connection w j l = Some l' \<Longrightarrow> listener_step w e l l'"
| ln_env: "along w (ls_native l) n \<Longrightarrow> listener_step w e l (l\<lparr>ls_native := n\<rparr>)"

text \<open>A listener starts where \<^verbatim>\<open>listen_tcp\<close> returned its handle.\<close>

definition listener_initial ::
  "inner \<Rightarrow> 'r conn_env \<Rightarrow> 'r listener \<Rightarrow> bool" where
  "listener_initial w e l \<longleftrightarrow>
     (\<exists>clk parent (bound :: error_kind + unit) n m h. world_reachable w (nt_world n)
        \<and> listen_tcp w clk parent (ce_target e) (ce_config e) bound n = Some (m, Inr h)
        \<and> ce_owner e = th_owner h \<and> ce_schema e = th_schema h \<and> l = listener_new (ce_config e) m)"

section \<open>Setup keeps the World and returns what it took\<close>

lemma kept_tcall:
  assumes "kept w n m" "\<And>s r. f (nt_world m) = Some (s, r) \<Longrightarrow> world_op w (nt_world m) s"
  shows "rpost (\<lambda>n' r. kept w n n') (tcall f m)"
  using assms kept_trans [OF assms(1) kept_world] by (auto simp: rpost_def tcall_def)

lemma listener_ops:
  "allocate w kind parent s = Some (t, x1) \<Longrightarrow> world_op w s t"
  "activate w r s = Some (t, x2) \<Longrightarrow> world_op w s t"
  "track_task w r s = Some (t, x3) \<Longrightarrow> world_op w s t"
  "register_frame s = (t, x4) \<Longrightarrow> world_op w s t"
  unfolding world_op_def register_frame_def Let_def
  by (auto intro: work_op.intros claim_op.intros split: prod.splits)

lemma kept_register_frame: "kept w n m \<Longrightarrow> rpost (\<lambda>n' r. kept w n n') (register_frame_call m)"
  using kept_trans kept_world listener_ops(4) by (fastforce simp: register_frame_call_def rpost_def split: prod.splits)

lemma kept_bind_listener: "kept w n m \<Longrightarrow> rpost (\<lambda>n' r. kept w n n') (bind_listener w owner bound m)"
  unfolding bind_listener_def
  by (cases bound; simp; intro kept_rthen kept_tcall kept_register_frame) (auto intro: listener_ops)

lemma kept_setup_listener: "kept w n m \<Longrightarrow> rpost (\<lambda>n' r. kept w n n') (setup_listener w owner bound m)"
  unfolding setup_listener_def claim_listener_def
  by (intro kept_rthen kept_on_err kept_tcall kept_bind_listener)
    (auto simp: rpost_def intro: kept_drops listener_ops task_ops)

lemma kept_open_connection: "kept w n m \<Longrightarrow> rpost (\<lambda>n' r. kept w n n') (open_connection w owner m)"
  unfolding open_connection_def
  by (intro kept_rthen kept_on_err kept_tcall) (auto intro: kept_drops listener_ops)

lemma slot_taken:
  assumes "rpost (\<lambda>n' r. kept w m n') body" "m = n\<lparr>nt_slots := nt_slots n - 1\<rparr>" "0 < nt_slots n"
    "on_err (\<lambda>n. Some (give_slot n)) body = Some (n', r)"
  shows "along w n n' \<and> slot_permits n = slot_permits n' + (if is_ok r then 1 else 0)"
proof -
  obtain m' where m': "body = Some (m', r)" "n' = (if is_ok r then m' else give_slot m')"
    using assms(4) by (cases body) (auto simp: on_err_def split: sum.splits)
  then have "kept w m m'" using assms(1) by (simp add: rpost_def)
  then have "slot_permits m' = slot_permits m" "along w n m'" using assms(2) by (simp_all add: kept_def owes_def along_def)
  then show ?thesis using m'(2) assms(2,3) by (auto simp: slot_permits_def give_slot_def along_def)
qed

lemma listen_tcp_kept:
  assumes "listen_tcp w clk parent target cfg bound n = Some (n', r)"
  shows "along w n n' \<and> slot_permits n = slot_permits n' + (if is_ok r then 1 else 0)"
    and "is_ok r \<Longrightarrow> is_ok (tcp_validate cfg)"
proof -
  let ?m = "n\<lparr>nt_slots := nt_slots n - 1\<rparr>"
  let ?body = "rthen (tcall (allocate w Native (Some parent)) ?m) (\<lambda>n owner.
      on_err (stop_owner w owner) (rthen (setup_listener w owner bound n) (\<lambda>n (sid, l).
        Some (n, Inr \<lparr>th_owner = owner, th_schema = sid, th_socket = l\<rparr>))))"
  have body: "rpost (\<lambda>n' r. kept w ?m n') ?body"
    by (intro kept_rthen kept_on_err kept_tcall kept_setup_listener) (auto intro: kept_drops listener_ops)
  from assms consider e where "n' = n" "r = Inl e"
    | "0 < nt_slots n" "on_err (\<lambda>n. Some (give_slot n)) ?body = Some (n', r)"
    by (cases "execution_state w target (nt_world n)")
      (auto simp: listen_tcp_def split: sum.split_asm if_split_asm)
  then show "along w n n' \<and> slot_permits n = slot_permits n' + (if is_ok r then 1 else 0)"
  proof cases
    case 2
    show ?thesis by (rule slot_taken [OF body refl 2])
  qed simp
  show "is_ok r \<Longrightarrow> is_ok (tcp_validate cfg)"
    using assms by (auto simp: listen_tcp_def is_ok_def split: sum.splits)
qed

section \<open>Accounts of the listener\<close>

definition held_by :: "(conn_pc \<Rightarrow> nat) \<Rightarrow> 'r live list \<Rightarrow> nat" where
  "held_by f vs = sum_list (map (\<lambda>v. f (lv_pc v)) vs)"

fun open_pc :: "conn_pc \<Rightarrow> nat" where
  "open_pc CnClosed = 0"
| "open_pc _ = 1"

text \<open>A budget of the given limit of which exactly \<open>n\<close> bytes are held.\<close>

definition budget_of :: "nat \<Rightarrow> nat \<Rightarrow> buffer_budget \<Rightarrow> bool" where
  "budget_of limit n b \<longleftrightarrow> b = \<lparr>bb_limit = limit, bb_used = n, bb_native = None\<rparr> \<and> n \<le> limit"

definition registered_open :: "'r live list \<Rightarrow> nat \<times> actor_ref \<Rightarrow> bool" where
  "registered_open vs x \<longleftrightarrow> fst x = ar_slot (snd x) \<and> (\<exists>v \<in> set vs. lv_owner v = snd x \<and> lv_pc v \<noteq> CnClosed)"

definition listener_inv :: "inner \<Rightarrow> 'r conn_env \<Rightarrow> 'r listener \<Rightarrow> bool" where
  "listener_inv w e l \<longleftrightarrow>
     budget_of (tc_read_buffer_bytes (ce_config e)) (held_by read_held (ls_live l)) (ls_read l)
     \<and> budget_of (tc_write_buffer_bytes (ce_config e)) (held_by write_held (ls_live l)) (ls_write l)
     \<and> ls_slots l + held_by open_pc (ls_live l) = tc_max_connections (ce_config e)
     \<and> ts_accepted_connections (ls_stats l) = ts_closed_connections (ls_stats l) + held_by open_pc (ls_live l)
     \<and> list_all (registered_open (ls_live l)) (ls_registry l)
     \<and> list_all (\<lambda>v. permit_fits (lv_pc v)) (ls_live l)
     \<and> is_ok (tcp_validate (ce_config e))
     \<and> world_reachable w (nt_world (ls_native l))"

lemma held_by_simps [simp]:
  "held_by f [] = 0" "held_by f (vs @ us) = held_by f vs + held_by f us" "held_by f (v # vs) = f (lv_pc v) + held_by f vs"
  by (simp_all add: held_by_def)

lemma held_by_update:
  "j < length vs \<Longrightarrow> held_by f (vs[j := v]) = held_by f vs - f (lv_pc (vs ! j)) + f (lv_pc v)"
  using sum_list_map_update [of j vs "\<lambda>v. f (lv_pc v)" v] member_le_sum_list [of "f (lv_pc (vs ! j))" "map (\<lambda>v. f (lv_pc v)) vs"]
  by (simp add: held_by_def)

lemma held_by_ge: "j < length vs \<Longrightarrow> f (lv_pc (vs ! j)) \<le> held_by f vs"
  unfolding held_by_def by (rule member_le_sum_list) simp_all

lemma held_by_delete:
  assumes "j < length vs" "f (lv_pc (vs ! j)) = 0"
  shows "held_by f (take j vs @ drop (Suc j) vs) = held_by f vs"
  using assms arg_cong [OF id_take_nth_drop [OF assms(1)], of "held_by f"] by simp

lemma validated_limits:
  assumes "is_ok (tcp_validate c)"
  shows "tc_read_buffer_bytes c \<le> usize_max" "tc_write_buffer_bytes c \<le> usize_max"
  using assms by (auto simp: tcp_validate_def usize_max_def u64_max_def is_ok_def split: if_splits)

lemma conn_view_simps [simp]:
  "cn_pc (conn_view l v) = lv_pc v" "cn_world (conn_view l v) = nt_world (ls_native l)" "cn_stats (conn_view l v) = ls_stats l"
  "cn_read (conn_view l v) = ls_read l" "cn_write (conn_view l v) = ls_write l" "cn_connections (conn_view l v) = ls_registry l"
  by (simp_all add: conn_view_def)

lemma inv_conn_ok:
  assumes "listener_inv w e l" "j < length (ls_live l)"
  shows "conn_ok (conn_view l (ls_live l ! j))"
  using assms held_by_ge [OF assms(2), of read_held] held_by_ge [OF assms(2), of write_held]
    validated_limits [of "ce_config e"]
  by (auto simp: listener_inv_def conn_ok_def covers_def budget_of_def list_all_length)

lemma registered_update:
  assumes "registered_open vs x" "j < length vs" "lv_owner v = lv_owner (vs ! j)"
    "lv_pc v = CnClosed \<Longrightarrow> fst x \<noteq> ar_slot (lv_owner v)"
  shows "registered_open (vs[j := v]) x"
proof -
  from assms(1) obtain u where u: "u \<in> set vs" "lv_owner u = snd x" "lv_pc u \<noteq> CnClosed" "fst x = ar_slot (snd x)"
    by (auto simp: registered_open_def)
  then obtain k where k: "k < length vs" "vs ! k = u" by (auto simp: in_set_conv_nth)
  show ?thesis
  proof (cases "k = j")
    case True
    then show ?thesis
      using assms u k by (auto simp: registered_open_def intro!: bexI [of _ v] set_update_memI)
  next
    case False
    then have "u \<in> set (vs[j := v])" using k by (metis length_list_update nth_list_update_neq nth_mem)
    then show ?thesis using u by (auto simp: registered_open_def)
  qed
qed

lemma run_connection_inv:
  assumes "run_connection w e i j l = Some l'" "listener_inv w e l"
  shows "listener_inv w e l'"
proof -
  let ?v = "ls_live l ! j"
  let ?c = "conn_view l ?v" and ?e = "e\<lparr>ce_owner := lv_owner ?v\<rparr>"
  from assms(1) obtain c' where j: "j < length (ls_live l)" and c': "conn_next w ?e i ?c = Some c'" "l' = conn_put j ?v c' l"
    by (auto simp: run_connection_def split: if_splits)
  note ok = inv_conn_ok [OF assms(2) j]
  let ?r = "held_by read_held (ls_live l) - read_held (lv_pc ?v) + read_held (cn_pc c')"
  let ?m = "held_by write_held (ls_live l) - write_held (lv_pc ?v) + write_held (cn_pc c')"
  have used: "bb_used (ls_read l) = held_by read_held (ls_live l)" "bb_used (ls_write l) = held_by write_held (ls_live l)"
      "bb_limit (ls_read l) = tc_read_buffer_bytes (ce_config e)" "bb_limit (ls_write l) = tc_write_buffer_bytes (ce_config e)"
      "bb_native (ls_read l) = None" "bb_native (ls_write l) = None"
    using assms(2) by (auto simp: listener_inv_def budget_of_def)
  have "conn_next w ?e i ?c = Some c' \<Longrightarrow> accounts w (ce_owner ?e) ?c c'" by (rule conn_next_accounts [OF _ ok])
  then have "accounts w (lv_owner ?v) ?c c'" using c'(1) by simp
  note acc = accounts_fields [OF this, simplified used conn_view_simps]
  have "lv_pc ?v \<noteq> CnClosed" using c'(1) by auto
  then have one: "open_pc (lv_pc ?v) = 1" "1 \<le> held_by open_pc (ls_live l)"
    using held_by_ge [OF j, of open_pc] by (cases "lv_pc ?v"; simp)+
  have "list_all (registered_open ((ls_live l)[j := ?v\<lparr>lv_pc := cn_pc c', lv_stream := cn_stream c'\<rparr>])) (cn_connections c')"
    using assms(2) j
    by (auto simp: acc(9) listener_inv_def bm_remove_def list_all_iff split: if_splits intro!: registered_update)
  moreover have "list_all (\<lambda>v. permit_fits (lv_pc v)) ((ls_live l)[j := ?v\<lparr>lv_pc := cn_pc c', lv_stream := cn_stream c'\<rparr>])"
    using assms(2) acc(3) set_update_subset_insert [of "ls_live l" j] by (fastforce simp: listener_inv_def list_all_iff)
  moreover have "ts_closed_connections (cn_stats c') = ts_closed_connections (ls_stats l) + (1 - open_pc (cn_pc c'))"
    unfolding acc(8) by (cases "cn_pc c'") simp_all
  moreover have "(if cn_pc c' = CnClosed then ls_slots l + 1 else ls_slots l) = ls_slots l + (1 - open_pc (cn_pc c'))"
      "open_pc (cn_pc c') \<le> 1"
    by (cases "cn_pc c'"; simp)+
  moreover have "world_reachable w (cn_world c')"
    using world.reachable_steps [OF acc(4)] assms(2) by (simp add: listener_inv_def)
  ultimately show ?thesis
    using assms(2) acc(1,2,5-7) one used j
    by (auto simp: c'(2) conn_put_def listener_inv_def budget_of_def held_by_update)
qed

lemma along_reachable: "along w n m \<Longrightarrow> world_reachable w (nt_world n) \<Longrightarrow> world_reachable w (nt_world m)"
  using world.reachable_steps by (simp add: along_def)

lemma inv_native:
  assumes "listener_inv w e l" "along w (ls_native l) n"
  shows "listener_inv w e (l\<lparr>ls_native := n\<rparr>)"
  using assms along_reachable by (auto simp: listener_inv_def)

lemma inv_stats:
  "listener_inv w e l \<Longrightarrow> ts_accepted_connections (f (ls_stats l)) = ts_accepted_connections (ls_stats l) \<Longrightarrow>
    ts_closed_connections (f (ls_stats l)) = ts_closed_connections (ls_stats l) \<Longrightarrow> listener_inv w e (upd_listener f l)"
  by (simp add: listener_inv_def)

lemma inv_pc [simp]: "listener_inv w e (l\<lparr>ls_pc := pc\<rparr>) \<longleftrightarrow> listener_inv w e l"
  by (simp add: listener_inv_def)

lemma inv_reject: "listener_inv w e l \<Longrightarrow> listener_inv w e (reject_connection l)"
  unfolding reject_connection_def by (rule inv_stats) simp_all

lemma task_drop_along: "wdo (task_drop w r) n = Some m \<Longrightarrow> along w n m"
  using task_ops(11) by (auto simp: wdo_def along_def)

lemma end_listen_inv: "end_listen w owner l = Some l' \<Longrightarrow> listener_inv w e l \<Longrightarrow> listener_inv w e l'"
  by (auto simp: end_listen_def dest!: task_drop_along intro!: inv_native)

lemma accept_failed_inv:
  assumes "accept_failed w owner l = Some l'" "listener_inv w e l"
  shows "listener_inv w e l'"
proof -
  obtain s x where s: "report_failure w owner None None None
         (failure_details_new Handler ''tcp_listener'' ''AcceptFailed'' []) StopActor (nt_world (ls_native l)) = Some (s, x)"
      "end_listen w owner (upd_listener (\<lambda>st. st\<lparr>ts_listener_errors := ts_listener_errors st + 1\<rparr>)
           (l\<lparr>ls_native := (ls_native l)\<lparr>nt_world := s\<rparr>\<rparr>)) = Some l'"
    using assms(1) by (auto simp: accept_failed_def bind_eq_Some_conv)
  have "along w (ls_native l) ((ls_native l)\<lparr>nt_world := s\<rparr>)" using task_ops(10) [OF s(1)] by (simp add: along_def)
  note n = inv_native [OF assms(2) this]
  show ?thesis by (rule end_listen_inv [OF s(2)], rule inv_stats [OF n]) simp_all
qed

lemma set_bm_insert_subset: "set (bm_insert k v m) \<subseteq> insert (k, v) (set m)"
  by (induction k v m rule: bm_insert.induct) auto

lemma accept_connection_inv:
  assumes "accept_connection w owner stream l = Some l'" "listener_inv w e l"
  shows "listener_inv w e l'"
proof -
  let ?n = "ls_native l"
  let ?m = "?n\<lparr>nt_slots := nt_slots ?n - 1\<rparr>"
  from assms(1) consider "l' = reject_connection l"
    | n r where "0 < ls_slots l" "open_connection w owner ?m = Some (n, r)"
      "l' = (case r of
               Inl _ \<Rightarrow> reject_connection (l\<lparr>ls_native := give_slot n\<rparr>)
             | Inr conn \<Rightarrow> enter_connection conn stream n l)"
    by (cases "ls_slots l = 0 \<or> nt_slots_closed ?n \<or> nt_slots ?n = 0"; cases "open_connection w owner ?m")
      (auto simp: accept_connection_def Let_def)
  then show ?thesis
  proof cases
    case 1
    then show ?thesis using inv_reject [OF assms(2)] by simp
  next
    case 2
    have "kept w ?m n" using kept_open_connection [OF kept_refl, of w ?m owner] 2(2) by (simp add: rpost_def)
    then have a: "along w ?n n" by (simp add: kept_def along_def)
    show ?thesis
    proof (cases r)
      case (Inl err)
      then show ?thesis using inv_reject inv_native [OF assms(2), of "give_slot n"] a 2(3) by simp
    next
      case (Inr conn)
      have "list_all (registered_open (ls_live l @ [\<lparr>lv_owner = conn, lv_pc = CnTop, lv_stream = stream\<rparr>]))
          (bm_insert (ar_slot conn) conn (ls_registry l))"
        using assms(2) set_bm_insert_subset [of "ar_slot conn" conn "ls_registry l"]
        by (fastforce simp: listener_inv_def list_all_iff registered_open_def)
      then show ?thesis
        using inv_native [OF assms(2) a] 2(1,3) Inr by (simp add: listener_inv_def enter_connection_def)
    qed
  qed
qed

lemma listen_next_inv: "listen_next w owner i l = Some l' \<Longrightarrow> listener_inv w e l \<Longrightarrow> listener_inv w e l'"
  by (auto simp: listen_next_def bind_eq_Some_conv split: listen_pc.splits accept_in.splits if_splits
      intro: end_listen_inv accept_failed_inv accept_connection_inv)

lemma end_connection_inv:
  assumes "end_connection w j l = Some l'" "listener_inv w e l"
  shows "listener_inv w e l'"
proof -
  let ?live = "take j (ls_live l) @ drop (Suc j) (ls_live l)"
  obtain n where j: "j < length (ls_live l)" "lv_pc (ls_live l ! j) = CnClosed"
    and n: "wdo (task_drop w (lv_owner (ls_live l ! j))) (ls_native l) = Some n"
    and l': "l' = l\<lparr>ls_native := give_slot n, ls_live := ?live\<rparr>"
    using assms(1) by (auto simp: end_connection_def split: if_splits)
  have "set (ls_live l) = set (take j (ls_live l) @ ls_live l ! j # drop (Suc j) (ls_live l))"
    by (rule arg_cong [OF id_take_nth_drop [OF j(1)]])
  then have sub: "set (ls_live l) = insert (ls_live l ! j) (set ?live)" by simp
  have "list_all (registered_open ?live) (ls_registry l)"
    using assms(2) j(2) unfolding listener_inv_def list_all_iff registered_open_def sub by auto
  moreover have "list_all (\<lambda>v. permit_fits (lv_pc v)) ?live"
    using assms(2) unfolding listener_inv_def list_all_iff sub by blast
  ultimately show ?thesis
    using inv_native [OF assms(2), of "give_slot n"] task_drop_along [OF n] j held_by_delete [OF j(1)]
    by (simp add: l' listener_inv_def del: held_by_simps(2))
qed

lemma listener_step_inv: "listener_step w e l l' \<Longrightarrow> listener_inv w e l \<Longrightarrow> listener_inv w e l'"
  by (induction rule: listener_step.induct)
    (auto intro: listen_next_inv run_connection_inv end_connection_inv inv_native)

lemma listener_initial_inv:
  assumes "listener_initial w e l"
  shows "listener_inv w e l"
proof -
  obtain clk parent and bound :: "error_kind + unit" and n m h where h: "world_reachable w (nt_world n)"
      "listen_tcp w clk parent (ce_target e) (ce_config e) bound n = Some (m, Inr h)" "l = listener_new (ce_config e) m"
    using assms by (auto simp: listener_initial_def)
  have "along w n m" "is_ok (tcp_validate (ce_config e))" using listen_tcp_kept [OF h(2)] by (simp_all add: is_ok_def)
  then show ?thesis
    using along_reachable h(1) by (simp add: h(3) listener_inv_def listener_new_def budget_of_def budget_new_def tcp_stats_zero_def)
qed

interpretation listener: invariant_system "listener_initial w e" "listener_step w e" "listener_inv w e" for w e
  by unfold_locales (auto intro: listener_initial_inv listener_step_inv)

section \<open>Property\<close>


section \<open>A listener in the demo World\<close>

definition demo_tcp :: tcp_config where
  "demo_tcp = default_tcp_config\<lparr>tc_max_frame_bytes := 16\<rparr>"

definition demo_listen1 :: state where
  "demo_listen1 = fst (the (track_task demo_world sink_ref demo_sink1))"

definition demo_listen2 :: state where
  "demo_listen2 = fst (the (claim_native_callback demo_world sink_ref True demo_listen1))"

definition demo_listen3 :: state where
  "demo_listen3 = fst (register_frame demo_listen2)"

definition demo_listen4 :: state where
  "demo_listen4 = fst (the (activate demo_world sink_ref demo_listen3))"

lemmas listen_states = demo_listen4_def demo_listen3_def demo_listen2_def demo_listen1_def demo_sink1_def

lemma listen_track: "track_task demo_world sink_ref demo_sink1 = Some (demo_listen1, Inr sink_ref)"
  by (simp add: listen_states sink_eval)

lemma listen_claim: "claim_native_callback demo_world sink_ref True demo_listen1 = Some (demo_listen2, Inr True)"
  by (simp add: listen_states sink_eval)

lemma listen_register: "register_frame demo_listen2 = (demo_listen3, Inr 1)"
proof -
  obtain m where m: "collect_schema frame_schema Map.empty = Inr m" by (simp add: frame_schema_def)
  have n: "normalized_clone frame_schema = frame_schema" by (simp add: frame_schema_def)
  show ?thesis
    using frame_schema_valid m n by (simp add: listen_states register_frame_def register_schemas_def register_batch_def
        sink_eval all_actors_def)
qed

lemma listen_registered: "\<exists>x. demo_listen3 = demo_listen2\<lparr>st_schemas := x\<rparr>"
  by (auto simp: demo_listen3_def register_frame_def register_schemas_def Let_def split: prod.splits
      intro: exI [of _ "st_schemas demo_listen2"])

lemmas listen_eval = demo_listen2_def demo_listen1_def demo_sink1_def sink_eval activate_def
  refresh_python_subtree_locked_def mark_activity_tree_locked_def flush_staged_locked_def read_now_def
  expire_events_locked_def di_new_def di_take_due_def

lemma listen_activate: "activate demo_world sink_ref demo_listen3 = Some (demo_listen4, Inr ())"
proof -
  obtain x where x: "demo_listen3 = demo_listen2\<lparr>st_schemas := x\<rparr>" using listen_registered by blast
  show ?thesis unfolding demo_listen4_def x by (simp add: listen_eval)
qed

lemma listen_release: "\<exists>s. native_callback_drop demo_world sink_ref demo_listen4 = Some s
    \<and> execution_state demo_world sink_ref s = Some (Inr Active)"
proof -
  obtain x where x: "demo_listen3 = demo_listen2\<lparr>st_schemas := x\<rparr>" using listen_registered by blast
  show ?thesis
    unfolding demo_listen4_def x
    by (simp add: listen_eval native_callback_drop_def clear_control_def try_finalize_def finalizable_def execution_state_def)
qed

definition demo_conn_env :: "bytes list conn_env" where
  "demo_conn_env = \<lparr>ce_owner = sink_ref, ce_target = demo_ref, ce_config = demo_tcp, ce_schema = 1, ce_rd = chunk_read,
     ce_wa = (\<lambda>r bs. (Inr (), r)), ce_capacity = round_alloc, ce_alloc = (\<lambda>_. True)\<rparr>"

lemma demo_listen:
  "\<exists>n. listen_tcp demo_world System demo_ref demo_ref demo_tcp (Inr ()) demo_native
     = Some (n, Inr \<lparr>th_owner = sink_ref, th_schema = 1, th_socket = ()\<rparr>)
     \<and> execution_state demo_world sink_ref (nt_world n) = Some (Inr Active)"
proof -
  obtain s where s: "native_callback_drop demo_world sink_ref demo_listen4 = Some s"
      "execution_state demo_world sink_ref s = Some (Inr Active)" using listen_release by blast
  have v: "tcp_validate demo_tcp = Inr ()"
    by (simp add: tcp_validate_def demo_tcp_def default_tcp_config_def SECOND_def DAY_def MAX_FRAME_BYTES_def)
  have m: "\<not> tc_max_frame_bytes demo_tcp + 8 > cfg_max_event_bytes (in_cfg demo_world)"
    by (simp add: demo_world_def demo_config_def demo_tcp_def)
  have a: "execution_state demo_world demo_ref demo_active = Some (Inr Active)"
    by (simp add: sink_eval execution_state_def)
  note e = sink_allocate listen_track listen_claim listen_register listen_activate s
  show ?thesis
    using v m a e by (simp add: listen_tcp_def demo_native_def tcall_def rthen_def on_err_def setup_listener_def
        claim_listener_def bind_listener_def register_frame_call_def wdo_def)
qed


end
