(* ===== verification/Native_Jobs.thy ===== *)
theory Native_Jobs
  imports Native_Prepare
begin

text \<open>
  What becomes of accepted work: deferred replies (\<^verbatim>\<open>run_job\<close>, \<^verbatim>\<open>run_cpu_job\<close> and \<^verbatim>\<open>JobContext\<close> of
  \<^verbatim>\<open>crates/runtime-native/src/sdk.rs\<close>) and timers (the future of \<^verbatim>\<open>after_inner\<close> in \<^verbatim>\<open>tasks.rs\<close>). Each is a state machine
  whose steps are single calls into the World, so that the rest of the program may move between any two of them. What
  the component's closure does is free: reservations of output, in any number, then a result or a panic. The life of
  a blocking job around its closure, with the counters of the pool, is the subject of \<open>Cpu\<close>.
\<close>

section \<open>Job context\<close>

definition reserve_output :: "inner \<Rightarrow> nat \<Rightarrow> job \<Rightarrow> state \<Rightarrow> state \<times> job \<times> unit native_result" where
  "reserve_output w bytes jb s =
     (if bytes > cfg_max_event_bytes (in_cfg w) then (s, jb, Inl (NeLimit ''operation output bytes''))
      else case jb_output jb of
        None \<Rightarrow>
          (case buffer_reserve w bytes s of
             (s, Inl e) \<Rightarrow> (s, jb, Inl (NeCore e))
           | (s, Inr _) \<Rightarrow> (s, jb\<lparr>jb_output := Some bytes\<rparr>, Inr ()))
      | Some held \<Rightarrow>
          (let additional = bytes - held
           in if additional = 0 then (s, jb, Inr ())
              else case checked_add usize_max held additional of
                None \<Rightarrow> (s, jb, Inl (NeCore BudgetExceeded))
              | Some grown \<Rightarrow>
                  (case buffer_reserve w additional s of
                     (s, Inl e) \<Rightarrow> (s, jb, Inl (NeCore e))
                   | (s, Inr _) \<Rightarrow> (s, jb\<lparr>jb_output := Some grown\<rparr>, Inr ()))))"

text \<open>\<^verbatim>\<open>is_cancelled\<close>; the status it reads is dropped at once.\<close>

definition job_cancelled :: "inner \<Rightarrow> job \<Rightarrow> state \<Rightarrow> (state \<times> bool) option" where
  "job_cancelled w jb s =
     (let (s1, now) = read_now w s
      in if now \<ge> jb_deadline jb then Some (s1, True)
         else map_option (\<lambda>st.
           (s1, if st \<noteq> Inr Active \<and> st \<noteq> Inr Quiescing then True
                else (case op_status (st_operations s1) (jb_operation jb) of Inr (OpPending _) \<Rightarrow> False | _ \<Rightarrow> True)))
           (execution_state w (jb_owner jb) s1))"

section \<open>Deferred replies\<close>

text \<open>Where a job is: before its first check, inside the component's closure, with the closure's result, before the
  completion, before the report of a failure, before its destructors, ended.\<close>

datatype job_pc =
    JbStart
  | JbRun
  | JbBack "payload native_result"
  | JbSettle "payload native_result"
  | JbReport native_error
  | JbDrop
  | JbDone

record job_run =
  jr_native :: native
  jr_job :: job
  jr_pc :: job_pc
  jr_outcome :: cpu_outcome

text \<open>What the job is given: on the blocking pool or not, the component's name and the action on a failure.\<close>

record job_env =
  je_blocking :: bool
  je_identity :: bytes
  je_action :: failure_action

text \<open>What the closure may do next. A timer tick concerns the async form only.\<close>

datatype job_in = JiOutput nat | JiTick | JiReturn "payload native_result"

text \<open>What is seen of a job from outside.\<close>

datatype job_event = JeReserve nat | JeRelease nat | JeInput | JeComplete "bool result" | JeReport native_error | JePermits

type_synonym job_result = "(job_run \<times> job_event list) option"

definition job_goto :: "job_pc \<Rightarrow> job_run \<Rightarrow> state \<Rightarrow> job_event list \<Rightarrow> job_result" where
  "job_goto pc r s ev = Some (r\<lparr>jr_pc := pc, jr_native := (jr_native r)\<lparr>nt_world := s\<rparr>\<rparr>, ev)"

text \<open>The input belongs to the closure and goes with it.\<close>

definition drop_input :: "job_run \<Rightarrow> state \<Rightarrow> state" where
  "drop_input r s = drop_handle (hp_stored (jb_input (jr_job r))) s"

definition job_start :: "inner \<Rightarrow> job_run \<Rightarrow> job_result" where
  "job_start w r =
     Option.bind (job_cancelled w (jr_job r) (nt_world (jr_native r))) (\<lambda>(s, cancelled).
       if cancelled then job_goto JbDrop r (drop_input r s) [JeInput] else job_goto JbRun r s [])"

definition job_running :: "inner \<Rightarrow> job_env \<Rightarrow> job_in \<Rightarrow> job_run \<Rightarrow> job_result" where
  "job_running w e i r =
     (let s = nt_world (jr_native r)
      in case i of
           JiOutput bytes \<Rightarrow>
             (case reserve_output w bytes (jr_job r) s of
                (s1, jb, x) \<Rightarrow>
                  job_goto JbRun (r\<lparr>jr_job := jb\<rparr>) s1
                    (if jb_output jb = jb_output (jr_job r) then []
                     else [JeReserve (the (jb_output jb) - (case jb_output (jr_job r) of None \<Rightarrow> 0 | Some n \<Rightarrow> n))]))
         | JiTick \<Rightarrow>
             if je_blocking e then None
             else Option.bind (job_cancelled w (jr_job r) s) (\<lambda>(s, cancelled).
               if cancelled then job_goto JbDrop r (drop_input r s) [JeInput] else job_goto JbRun r s [])
         | JiReturn x \<Rightarrow>
             job_goto (if je_blocking e then JbBack x else JbSettle x) r (drop_input r s) [JeInput])"

definition job_back :: "inner \<Rightarrow> payload native_result \<Rightarrow> job_run \<Rightarrow> job_result" where
  "job_back w x r =
     Option.bind (job_cancelled w (jr_job r) (nt_world (jr_native r))) (\<lambda>(s, cancelled).
       if cancelled \<and> x \<noteq> Inl NePanic then job_goto JbDrop r s []
       else job_goto (JbSettle x)
              (r\<lparr>jr_outcome := (if x = Inl NePanic then CpuPanicked else CpuCompleted)\<rparr>) s [])"

definition job_settle :: "inner \<Rightarrow> payload native_result \<Rightarrow> job_run \<Rightarrow> job_result" where
  "job_settle w x r =
     (let s = nt_world (jr_native r)
      in case x of
           Inl e \<Rightarrow> job_goto (JbReport e) r s []
         | Inr p \<Rightarrow>
             Option.bind (complete_operation_with w (jb_operation (jr_job r)) (jb_owner (jr_job r)) p None s) (\<lambda>(s, y).
               job_goto (case y of Inl e \<Rightarrow> JbReport (NeCore e) | Inr _ \<Rightarrow> JbDrop) r s [JeComplete y]))"

definition job_report :: "inner \<Rightarrow> job_env \<Rightarrow> native_error \<Rightarrow> job_run \<Rightarrow> job_result" where
  "job_report w e err r =
     (let jb = jr_job r
      in Option.bind (report_failure w (jb_owner jb) (map_option en_event_id (jb_envelope jb))
             (map_option (\<lambda>v. si_id (en_schema v)) (jb_envelope jb)) (Some (jb_operation jb))
             (failure_details_new Handler (je_identity e) (error_code err) [])
             (if err = NePanic then StopActor else je_action e) (nt_world (jr_native r))) (\<lambda>(s, _).
           job_goto JbDrop r s [JeReport err]))"

text \<open>The destructors: the output reservation, the job permit, the task lease, the runtime permit, and on the pool its
  permit.\<close>

definition retire :: "work_item \<Rightarrow> native \<Rightarrow> native" where
  "retire item n =
     (let n1 = n\<lparr>nt_tasks := remove1 item (nt_tasks n), nt_slots := nt_slots n + 1\<rparr>;
          n2 = (if holds_job item then n1\<lparr>nt_jobs := nt_jobs n1 + 1\<rparr> else n1)
      in if holds_cpu item then n2\<lparr>nt_cpu := map_option (\<lambda>e. e\<lparr>ce_jobs_free := ce_jobs_free e + 1\<rparr>) (nt_cpu n2)\<rparr> else n2)"

definition job_item :: "job_env \<Rightarrow> job \<Rightarrow> work_item" where
  "job_item e jb = (if je_blocking e then WiCpu (jb\<lparr>jb_output := None\<rparr>) else WiJob (jb\<lparr>jb_output := None\<rparr>))"

definition job_drop :: "inner \<Rightarrow> job_env \<Rightarrow> job_run \<Rightarrow> job_result" where
  "job_drop w e r =
     (let jb = jr_job r;
          s = (case jb_output jb of None \<Rightarrow> nt_world (jr_native r) | Some n \<Rightarrow> buffer_release n (nt_world (jr_native r)))
      in Option.bind (task_drop w (jb_owner jb) s) (\<lambda>s.
           Some (r\<lparr>jr_pc := JbDone, jr_job := jb\<lparr>jb_output := None\<rparr>,
                   jr_native := retire (job_item e jb) ((jr_native r)\<lparr>nt_world := s\<rparr>)\<rparr>,
                 (case jb_output jb of None \<Rightarrow> [] | Some n \<Rightarrow> [JeRelease n]) @ [JePermits])))"

definition job_next :: "inner \<Rightarrow> job_env \<Rightarrow> job_in \<Rightarrow> job_run \<Rightarrow> job_result" where
  "job_next w e i r =
     (case jr_pc r of
        JbStart \<Rightarrow> job_start w r
      | JbRun \<Rightarrow> job_running w e i r
      | JbBack x \<Rightarrow> job_back w x r
      | JbSettle x \<Rightarrow> job_settle w x r
      | JbReport err \<Rightarrow> job_report w e err r
      | JbDrop \<Rightarrow> job_drop w e r
      | JbDone \<Rightarrow> None)"

text \<open>The job among the rest of the program, with what was seen of it.\<close>

inductive job_step :: "inner \<Rightarrow> job_env \<Rightarrow> job_run \<times> job_event list \<Rightarrow> job_run \<times> job_event list \<Rightarrow> bool" for w e where
  job_own: "job_next w e i r = Some (r', ev) \<Longrightarrow> job_step w e (r, tr) (r', tr @ ev)"
| job_env: "along w (jr_native r) n \<Longrightarrow> job_step w e (r, tr) (r\<lparr>jr_native := n\<rparr>, tr)"

definition job_init :: "inner \<Rightarrow> job_run \<times> job_event list \<Rightarrow> bool" where
  "job_init w x \<longleftrightarrow> (case x of (r, tr) \<Rightarrow> world_reachable w (nt_world (jr_native r))
     \<and> jr_pc r = JbStart \<and> jb_output (jr_job r) = None \<and> jr_outcome r = CpuCancelled \<and> tr = [])"

section \<open>What a job owes\<close>

fun reserved :: "job_event list \<Rightarrow> nat" where
  "reserved [] = 0"
| "reserved (JeReserve n # tr) = n + reserved tr"
| "reserved (_ # tr) = reserved tr"

fun released :: "job_event list \<Rightarrow> nat" where
  "released [] = 0"
| "released (JeRelease n # tr) = n + released tr"
| "released (_ # tr) = released tr"

definition charged :: "job_run \<Rightarrow> nat" where
  "charged r = (case jb_output (jr_job r) of None \<Rightarrow> 0 | Some n \<Rightarrow> n)"

text \<open>The events that are not about the output reservation.\<close>

fun is_main :: "job_event \<Rightarrow> bool" where
  "is_main (JeReserve n) = False"
| "is_main (JeRelease n) = False"
| "is_main _ = True"

definition main :: "job_event list \<Rightarrow> job_event list" where
  "main tr = filter is_main tr"

text \<open>How a job may have ended: cancelled, replied, failed, or with a reply that was refused.\<close>

fun ended :: "job_event list \<Rightarrow> bool" where
  "ended [JeInput] = True"
| "ended [JeInput, JeComplete (Inr b)] = True"
| "ended [JeInput, JeReport err] = True"
| "ended [JeInput, JeComplete (Inl e), JeReport err] = (err = NeCore e)"
| "ended _ = False"

definition outcome_of :: "job_event list \<Rightarrow> cpu_outcome" where
  "outcome_of ms =
     (if ms = [JeInput] then CpuCancelled else if JeReport NePanic \<in> set ms then CpuPanicked else CpuCompleted)"

fun job_phase_ok :: "job_env \<Rightarrow> job_pc \<Rightarrow> cpu_outcome \<Rightarrow> job_event list \<Rightarrow> bool" where
  "job_phase_ok e JbStart oc ms \<longleftrightarrow> ms = [] \<and> oc = CpuCancelled"
| "job_phase_ok e JbRun oc ms \<longleftrightarrow> ms = [] \<and> oc = CpuCancelled"
| "job_phase_ok e (JbBack x) oc ms \<longleftrightarrow> ms = [JeInput] \<and> oc = CpuCancelled"
| "job_phase_ok e (JbSettle x) oc ms \<longleftrightarrow> ms = [JeInput]
     \<and> (je_blocking e \<longrightarrow> oc = (if x = Inl NePanic then CpuPanicked else CpuCompleted))"
| "job_phase_ok e (JbReport err) oc ms \<longleftrightarrow> (ms = [JeInput] \<or> (\<exists>k. ms = [JeInput, JeComplete (Inl k)] \<and> err = NeCore k))
     \<and> (je_blocking e \<longrightarrow> oc = (if err = NePanic then CpuPanicked else CpuCompleted))"
| "job_phase_ok e JbDrop oc ms \<longleftrightarrow> ended ms \<and> (je_blocking e \<longrightarrow> oc = outcome_of ms)"
| "job_phase_ok e JbDone oc ms \<longleftrightarrow> (\<exists>ms'. ms = ms' @ [JePermits] \<and> ended ms' \<and> (je_blocking e \<longrightarrow> oc = outcome_of ms'))"

definition job_inv :: "inner \<Rightarrow> job_env \<Rightarrow> job_run \<times> job_event list \<Rightarrow> bool" where
  "job_inv w e x \<longleftrightarrow> (case x of (r, tr) \<Rightarrow>
     world_reachable w (nt_world (jr_native r))
     \<and> reserved tr = released tr + charged r \<and> charged r \<le> cfg_max_event_bytes (in_cfg w)
     \<and> (jr_pc r = JbDone \<longrightarrow> charged r = 0)
     \<and> job_phase_ok e (jr_pc r) (jr_outcome r) (main tr))"

lemma reserved_append [simp]: "reserved (tr @ us) = reserved tr + reserved us"
  by (induction tr rule: reserved.induct) simp_all

lemma released_append [simp]: "released (tr @ us) = released tr + released us"
  by (induction tr rule: released.induct) simp_all

lemma main_append [simp]: "main (tr @ us) = main tr @ main us"
  by (simp add: main_def)

lemma main_simps [simp]: "main [] = []" "main (x # tr) = (if is_main x then x # main tr else main tr)"
  by (simp_all add: main_def)

lemma job_ops:
  "read_now w s = (t, x1) \<Longrightarrow> world_op w s t"
  "complete_operation_with w oid target p options s = Some (t, x2) \<Longrightarrow> world_op w s t"
  "buffer_reserve w n s = (t, x3) \<Longrightarrow> world_op w s t"
  "world_op w s (buffer_release n s)"
  "world_op w s (drop_handle st s)"
  "send_held_from w owner target held s = Some (t, x4) \<Longrightarrow> world_op w s t"
  unfolding world_op_def by (blast intro: work_op.intros refl)+

lemma job_cancelled_op: "job_cancelled w jb s = Some (t, c) \<Longrightarrow> world_op w s t"
  using job_ops(1) by (auto simp: job_cancelled_def Let_def split: prod.splits if_splits)

lemma reserve_output_op:
  assumes "reserve_output w bytes jb s = (t, jb', x)"
  shows "t = s \<and> jb' = jb \<or> world_op w s t \<and> (\<exists>n. jb' = jb\<lparr>jb_output := Some n\<rparr> \<and> n \<le> cfg_max_event_bytes (in_cfg w)
    \<and> (case jb_output jb of None \<Rightarrow> 0 | Some m \<Rightarrow> m) \<le> n)"
proof (cases "bytes > cfg_max_event_bytes (in_cfg w)")
  case False
  note op = job_ops(3)
  have fails: "buffer_reserve w n s = (t, Inl k) \<Longrightarrow> t = s" for n t k by (simp add: buffer_reserve_def split: sum.splits)
  show ?thesis
  proof (cases "jb_output jb")
    case None
    obtain t1 y where b: "buffer_reserve w bytes s = (t1, y)" by fastforce
    show ?thesis
      using assms False None b op [OF b] by (cases y) (auto simp: reserve_output_def dest: fails)
  next
    case (Some held)
    obtain t1 y where b: "buffer_reserve w (bytes - held) s = (t1, y)" by fastforce
    show ?thesis
      using assms False Some b op [OF b]
      by (cases y) (auto simp: reserve_output_def Let_def checked_add_def dest: fails split: if_splits)
  qed
qed (use assms in \<open>simp add: reserve_output_def\<close>)

lemma reachable_op: "world_reachable w s \<Longrightarrow> world_op w s t \<Longrightarrow> world_reachable w t"
  by (rule reachable_step)

lemma retire_world [simp]: "nt_world (retire item n) = nt_world n"
  by (simp add: retire_def Let_def)

lemma tally_remove1:
  "x \<in> set xs \<Longrightarrow> tally P xs = tally P (remove1 x xs) + (if P x then 1 else 0)"
  by (induction xs) (auto simp: tally_def)

lemma retire_conserves:
  assumes "item \<in> set (nt_tasks n)"
  shows "owes 0 0 0 n (retire item n)"
proof -
  define ts where "ts = remove1 item (nt_tasks n)"
  note t = tally_remove1 [OF assms, folded ts_def]
  have "length (nt_tasks n) = Suc (length ts)"
    using t [of "\<lambda>_. True"] by (simp add: tally_def)
  then show ?thesis
    using t [of holds_job] t [of holds_cpu] unfolding owes_def retire_def Let_def ts_def [symmetric]
    by (cases "nt_cpu n") (simp_all add: job_permits_def slot_permits_def cpu_permits_def)
qed

lemma job_inv_goto:
  assumes "job_goto pc r s ev = Some (r', ev')" "world_reachable w s" "job_phase_ok e pc (jr_outcome r) (main (tr @ ev))"
    "reserved (tr @ ev) = released (tr @ ev) + charged r" "charged r \<le> cfg_max_event_bytes (in_cfg w)" "pc \<noteq> JbDone"
  shows "job_inv w e (r', tr @ ev')"
  using assms by (auto simp: job_goto_def job_inv_def charged_def)

lemma job_next_inv:
  assumes "job_next w e i r = Some (r', ev)" "job_inv w e (r, tr)"
  shows "job_inv w e (r', tr @ ev)"
proof -
  have inv: "world_reachable w (nt_world (jr_native r))" "reserved tr = released tr + charged r"
      "charged r \<le> cfg_max_event_bytes (in_cfg w)" "job_phase_ok e (jr_pc r) (jr_outcome r) (main tr)"
    using assms(2) by (simp_all add: job_inv_def)
  note reach = reachable_op [OF inv(1)] and again = reachable_op [OF reachable_op [OF inv(1)]]
  show ?thesis
  proof (cases "jr_pc r")
    case JbStart
    then show ?thesis
      using assms(1) inv
      by (auto simp: job_next_def job_start_def bind_eq_Some_conv drop_input_def outcome_of_def split: if_splits
          elim!: job_inv_goto intro: again reach job_cancelled_op job_ops)
  next
    case JbRun
    show ?thesis
    proof (cases i)
      case (JiOutput bytes)
      obtain s jb x where o: "reserve_output w bytes (jr_job r) (nt_world (jr_native r)) = (s, jb, x)" by (metis prod_cases3)
      from reserve_output_op [OF o] have "world_reachable w s" using reach inv(1) by auto
      then show ?thesis
        using assms(1) inv JbRun JiOutput reserve_output_op [OF o]
        by (auto simp: job_next_def job_running_def Let_def o charged_def elim!: job_inv_goto split: if_splits option.splits)
    next
      case JiTick
      then show ?thesis
        using assms(1) inv JbRun
        by (auto simp: job_next_def job_running_def bind_eq_Some_conv drop_input_def outcome_of_def split: if_splits
            elim!: job_inv_goto intro: again reach job_cancelled_op job_ops)
    next
      case (JiReturn x)
      then show ?thesis
        using assms(1) inv JbRun
        by (auto simp: job_next_def job_running_def drop_input_def split: if_splits
            elim!: job_inv_goto intro: reach job_ops)
    qed
  next
    case (JbBack x)
    then show ?thesis
      using assms(1) inv
      by (auto simp: job_next_def job_back_def bind_eq_Some_conv outcome_of_def charged_def split: if_splits
          elim!: job_inv_goto intro: reach job_cancelled_op)
  next
    case (JbSettle x)
    show ?thesis
    proof (cases x)
      case (Inl err)
      then show ?thesis
        using assms(1) inv JbSettle
        by (auto simp: job_next_def job_settle_def elim!: job_inv_goto)
    next
      case (Inr p)
      then obtain s y where y: "complete_operation_with w (jb_operation (jr_job r)) (jb_owner (jr_job r)) p None
          (nt_world (jr_native r)) = Some (s, y)"
          "job_goto (case y of Inl k \<Rightarrow> JbReport (NeCore k) | Inr _ \<Rightarrow> JbDrop) r s [JeComplete y] = Some (r', ev)"
        using assms(1) JbSettle by (auto simp: job_next_def job_settle_def bind_eq_Some_conv)
      show ?thesis
        using inv JbSettle Inr reach [OF job_ops(2) [OF y(1)]]
        by (cases y) (rule job_inv_goto [OF y(2)], auto simp: outcome_of_def)+
    qed
  next
    case (JbReport err)
    then show ?thesis
      using assms(1) inv
      by (auto simp: job_next_def job_report_def bind_eq_Some_conv outcome_of_def Let_def
          elim!: job_inv_goto intro: reach task_ops)
  next
    case JbDrop
    let ?s = "case jb_output (jr_job r) of None \<Rightarrow> nt_world (jr_native r) | Some n \<Rightarrow> buffer_release n (nt_world (jr_native r))"
    have "world_reachable w ?s" using inv(1) reach job_ops(4) by (auto split: option.splits)
    then show ?thesis
      using assms(1) inv JbDrop reachable_op [OF _ task_ops(11)]
      by (auto simp: job_next_def job_drop_def bind_eq_Some_conv Let_def job_inv_def charged_def split: option.splits)
  qed (use assms(1) in \<open>simp add: job_next_def\<close>)
qed

lemma job_step_inv: "job_step w e x y \<Longrightarrow> job_inv w e x \<Longrightarrow> job_inv w e y"
proof (induction rule: job_step.induct)
  case (job_env r n tr)
  then show ?case using world.reachable_steps by (auto simp: job_inv_def along_def charged_def)
qed (rule job_next_inv)

interpretation job: invariant_system "job_init w" "job_step w e" "job_inv w e" for w e
proof unfold_locales
  show "job_init w x \<Longrightarrow> job_inv w e x" for x by (auto simp: job_init_def job_inv_def charged_def)
qed (rule job_step_inv)

section \<open>Timers\<close>

text \<open>The future of \<^verbatim>\<open>after_inner\<close>: a gate that waits until the owner is active, then the delay. The gate reads the owner's
  state twice, first for \<^verbatim>\<open>is_active\<close> and then for \<^verbatim>\<open>Starting\<close>; \<open>TmGateState\<close> is between the two. \<open>TiPoll\<close> is a tick of the
  checking interval, \<open>TiExpire\<close> the end of the delay, \<open>TiDeadline\<close> the end of what the deadline left.\<close>

datatype timer_pc = TmGate | TmGateState | TmArmed | TmDrop | TmDone

datatype timer_in = TiPoll | TiExpire | TiDeadline

datatype timer_event = TeSend "nat result" | TeDrop | TePermits

record timer_run =
  tr_native :: native
  tr_timer :: timer
  tr_pc :: timer_pc

type_synonym timer_result = "(timer_run \<times> timer_event list) option"

definition timer_goto :: "timer_pc \<Rightarrow> timer_run \<Rightarrow> state \<Rightarrow> timer_event list \<Rightarrow> timer_result" where
  "timer_goto pc r s ev = Some (r\<lparr>tr_pc := pc, tr_native := (tr_native r)\<lparr>nt_world := s\<rparr>\<rparr>, ev)"

text \<open>An early return drops the held message.\<close>

definition timer_give_up :: "timer_run \<Rightarrow> state \<Rightarrow> timer_result" where
  "timer_give_up r s = timer_goto TmDrop r (drop_handle (hp_stored (tm_held (tr_timer r))) s) [TeDrop]"

definition timer_gate :: "inner \<Rightarrow> timer_run \<Rightarrow> timer_result" where
  "timer_gate w r =
     (let t = tr_timer r; s = nt_world (tr_native r)
      in Option.bind (execution_state w (tm_owner t) s) (\<lambda>st.
           if st \<noteq> Inr Active then timer_goto TmGateState r s []
           else (case mo_deadline (s_options (hp_stored (tm_held t))) of
                   None \<Rightarrow> timer_goto TmArmed r s []
                 | Some _ \<Rightarrow> timer_goto TmArmed r (fst (read_now w s)) [])))"

definition timer_gate_state :: "inner \<Rightarrow> timer_run \<Rightarrow> timer_result" where
  "timer_gate_state w r =
     (let t = tr_timer r; s = nt_world (tr_native r)
      in Option.bind (execution_state w (tm_owner t) s) (\<lambda>st.
           if st \<noteq> Inr Starting then timer_give_up r s
           else (case mo_deadline (s_options (hp_stored (tm_held t))) of
                   None \<Rightarrow> timer_goto TmGate r s []
                 | Some at \<Rightarrow>
                     (let (s1, now) = read_now w s
                      in if now \<ge> at then timer_give_up r s1 else timer_goto TmGate r s1 []))))"

definition timer_armed :: "inner \<Rightarrow> timer_in \<Rightarrow> timer_run \<Rightarrow> timer_result" where
  "timer_armed w i r =
     (let t = tr_timer r; s = nt_world (tr_native r)
      in case i of
           TiExpire \<Rightarrow>
             Option.bind (send_held_from w (tm_owner t) (tm_target t) (tm_held t) s) (\<lambda>(s, x).
               timer_goto TmDrop r s [TeSend x])
         | TiDeadline \<Rightarrow>
             if mo_deadline (s_options (hp_stored (tm_held t))) = None then None else timer_give_up r s
         | TiPoll \<Rightarrow>
             Option.bind (execution_state w (tm_owner t) s) (\<lambda>st.
               if st = Inr Active then timer_goto TmArmed r s [] else timer_give_up r s))"

text \<open>Job permit, task lease, runtime permit.\<close>

definition timer_drop :: "inner \<Rightarrow> timer_run \<Rightarrow> timer_result" where
  "timer_drop w r =
     Option.bind (task_drop w (tm_owner (tr_timer r)) (nt_world (tr_native r))) (\<lambda>s.
       Some (r\<lparr>tr_pc := TmDone, tr_native := retire (WiTimer (tr_timer r)) ((tr_native r)\<lparr>nt_world := s\<rparr>)\<rparr>, [TePermits]))"

definition timer_next :: "inner \<Rightarrow> timer_in \<Rightarrow> timer_run \<Rightarrow> timer_result" where
  "timer_next w i r =
     (case tr_pc r of
        TmGate \<Rightarrow> timer_gate w r
      | TmGateState \<Rightarrow> timer_gate_state w r
      | TmArmed \<Rightarrow> timer_armed w i r
      | TmDrop \<Rightarrow> timer_drop w r
      | TmDone \<Rightarrow> None)"

inductive timer_step :: "inner \<Rightarrow> timer_run \<times> timer_event list \<Rightarrow> timer_run \<times> timer_event list \<Rightarrow> bool" for w where
  timer_own: "timer_next w i r = Some (r', ev) \<Longrightarrow> timer_step w (r, tr) (r', tr @ ev)"
| timer_env: "along w (tr_native r) n \<Longrightarrow> timer_step w (r, tr) (r\<lparr>tr_native := n\<rparr>, tr)"

definition timer_init :: "inner \<Rightarrow> timer_run \<times> timer_event list \<Rightarrow> bool" where
  "timer_init w x \<longleftrightarrow> (case x of (r, tr) \<Rightarrow> world_reachable w (nt_world (tr_native r)) \<and> tr_pc r = TmGate \<and> tr = [])"

text \<open>The message is given away exactly once: sent, or dropped.\<close>

fun timer_phase_ok :: "timer_pc \<Rightarrow> timer_event list \<Rightarrow> bool" where
  "timer_phase_ok TmDrop tr \<longleftrightarrow> tr = [TeDrop] \<or> (\<exists>x. tr = [TeSend x])"
| "timer_phase_ok TmDone tr \<longleftrightarrow> tr = [TeDrop, TePermits] \<or> (\<exists>x. tr = [TeSend x, TePermits])"
| "timer_phase_ok _ tr \<longleftrightarrow> tr = []"

definition timer_inv :: "inner \<Rightarrow> timer_run \<times> timer_event list \<Rightarrow> bool" where
  "timer_inv w x \<longleftrightarrow> (case x of (r, tr) \<Rightarrow> world_reachable w (nt_world (tr_native r)) \<and> timer_phase_ok (tr_pc r) tr)"

lemma reachable_drop: "world_reachable w s \<Longrightarrow> world_reachable w (drop_handle st s)"
  by (rule reachable_op [OF _ job_ops(5)])

lemma timer_next_inv:
  assumes "timer_next w i r = Some (r', ev)" "timer_inv w (r, tr)"
  shows "timer_inv w (r', tr @ ev)"
proof -
  have inv: "world_reachable w (nt_world (tr_native r))" "timer_phase_ok (tr_pc r) tr"
    using assms(2) by (simp_all add: timer_inv_def)
  note reach = reachable_op [OF inv(1)]
  obtain s1 now where n: "read_now w (nt_world (tr_native r)) = (s1, now)" by fastforce
  have s1: "world_reachable w s1" by (rule reach [OF job_ops(1) [OF n]])
  show ?thesis
  proof (cases "tr_pc r")
    case TmGate
    then show ?thesis
      using assms(1) inv s1
      by (auto simp: timer_next_def timer_gate_def timer_goto_def timer_inv_def Let_def n bind_eq_Some_conv
          split: if_splits option.splits)
  next
    case TmGateState
    then show ?thesis
      using assms(1) inv s1
      by (auto simp: timer_next_def timer_gate_state_def timer_give_up_def timer_goto_def timer_inv_def Let_def n
          bind_eq_Some_conv intro: reachable_drop split: if_splits option.splits)
  next
    case TmArmed
    then show ?thesis
      using assms(1) inv
      by (cases i) (auto simp: timer_next_def timer_armed_def timer_give_up_def timer_goto_def timer_inv_def Let_def
          bind_eq_Some_conv intro: reachable_drop reach [OF job_ops(6)] split: if_splits)
  next
    case TmDrop
    then show ?thesis
      using assms(1) inv reach [OF task_ops(11)]
      by (auto simp: timer_next_def timer_drop_def timer_inv_def bind_eq_Some_conv)
  qed (use assms(1) in \<open>simp add: timer_next_def\<close>)
qed

lemma timer_step_inv: "timer_step w x y \<Longrightarrow> timer_inv w x \<Longrightarrow> timer_inv w y"
proof (induction rule: timer_step.induct)
  case (timer_env r n tr)
  then show ?case using world.reachable_steps by (auto simp: timer_inv_def along_def)
qed (rule timer_next_inv)

interpretation timer: invariant_system "timer_init w" "timer_step w" "timer_inv w" for w
proof unfold_locales
  show "timer_init w x \<Longrightarrow> timer_inv w x" for x by (auto simp: timer_init_def timer_inv_def)
qed (rule timer_step_inv)

section \<open>Properties\<close>


definition demo_held :: held_payload where
  "demo_held = \<lparr>hp_stored = \<lparr>s_addr = 0, s_payload = Pulse 7, s_options = default_options, s_dispatcher = None, s_bytes = 8\<rparr>,
     hp_world = 1, hp_envelope = None\<rparr>"

definition demo_job :: job_run where
  "demo_job = \<lparr>jr_native = demo_native,
     jr_job = \<lparr>jb_owner = demo_ref, jb_operation = OperationId 1 0 1, jb_deadline = 0, jb_input = demo_held,
       jb_envelope = None, jb_output = None\<rparr>,
     jr_pc = JbStart, jr_outcome = CpuCancelled\<rparr>"

definition demo_job_env :: job_env where
  "demo_job_env = \<lparr>je_blocking = True, je_identity = ''demo'', je_action = StopActor\<rparr>"

lemma demo_job_reachable:
  "\<exists>r. reachable (job_init demo_world) (job_step demo_world demo_job_env) (r, [JeInput]) \<and> jr_pc r = JbDrop"
proof -
  have "job_init demo_world (demo_job, [])" using demo_native_reachable by (simp add: job_init_def demo_job_def)
  then have init: "reachable (job_init demo_world) (job_step demo_world demo_job_env) (demo_job, [])" by (rule reachable_init)
  obtain r where r: "job_next demo_world demo_job_env JiTick demo_job = Some (r, [JeInput])" "jr_pc r = JbDrop"
    by (auto simp: job_next_def demo_job_def job_start_def job_cancelled_def read_now_def demo_world_def job_goto_def Let_def)
  show ?thesis using reachable_step [OF init job_own [OF r(1)]] r(2) by auto
qed




text \<open>C37. The gate of a timer reads the owner's state twice, and an owner that becomes active in between is taken for one that
  has stopped: its timer is dropped unsent although the owner only went from \<^verbatim>\<open>Starting\<close> to \<^verbatim>\<open>Active\<close> and there is no
  deadline. The run below starts in a reachable World and its only other step is the owner's activation.\<close>

theorem timer_activation_race:
  "\<exists>r r'. timer_init demo_world (r, []) \<and> execution_state demo_world demo_ref (nt_world (tr_native r)) = Some (Inr Starting)
     \<and> tm_owner (tr_timer r) = demo_ref \<and> mo_deadline (s_options (hp_stored (tm_held (tr_timer r)))) = None
     \<and> (timer_step demo_world)\<^sup>*\<^sup>* (r, []) (r', [TeDrop])
     \<and> execution_state demo_world demo_ref (nt_world (tr_native r')) = Some (Inr Active)"
proof -
  let ?n = "demo_native\<lparr>nt_world := demo_started\<rparr>"
  let ?t = "\<lparr>tm_owner = demo_ref, tm_target = demo_ref, tm_delay = 5, tm_held = demo_held, tm_local = True\<rparr>"
  let ?r = "\<lparr>tr_native = ?n, tr_timer = ?t, tr_pc = TmGate\<rparr>"
  let ?r1 = "?r\<lparr>tr_pc := TmGateState\<rparr>"
  let ?r2 = "?r1\<lparr>tr_native := demo_native\<rparr>"
  let ?r3 = "?r2\<lparr>tr_pc := TmDrop, tr_native := demo_native\<lparr>nt_world := drop_handle (hp_stored demo_held) demo_active\<rparr>\<rparr>"
  note ev = execution_state_def execution_state_locked_def demo_base demo_started_def demo_active_def
  have st: "execution_state demo_world demo_ref demo_started = Some (Inr Starting)"
      "execution_state demo_world demo_ref demo_active = Some (Inr Active)"
      "execution_state demo_world demo_ref (drop_handle (hp_stored demo_held) demo_active) = Some (Inr Active)"
    by (simp_all add: ev drop_handle_def)
  have "timer_next demo_world TiPoll ?r = Some (?r1, [])"
    using st by (simp add: timer_next_def timer_gate_def timer_goto_def)
  from timer_own [OF this, of "[]"] have a: "timer_step demo_world (?r, []) (?r1, [])" by simp
  have "along demo_world ?n demo_native" using demo_ops(2) by (simp add: along_def demo_native_def)
  with timer_env [of demo_world ?r1 demo_native "[]"] have b: "timer_step demo_world (?r1, []) (?r2, [])" by simp
  have "timer_next demo_world TiPoll ?r2 = Some (?r3, [TeDrop])"
    using st by (simp add: timer_next_def timer_gate_state_def timer_give_up_def timer_goto_def demo_native_def)
  from timer_own [OF this, of "[]"] have c: "timer_step demo_world (?r2, []) (?r3, [TeDrop])" by simp
  have "(timer_step demo_world)\<^sup>*\<^sup>* (?r, []) (?r3, [TeDrop])"
    using a b c by (meson converse_rtranclp_into_rtranclp rtranclp.rtrancl_refl)
  then show ?thesis
    using st demo_reachable
    by (intro exI [of _ ?r] exI [of _ ?r3]) (simp add: timer_init_def demo_held_def default_options_def)
qed

end
