(* ===== verification/Native_Pipeline.thy ===== *)
theory Native_Pipeline
  imports Native_Builtins
begin

text \<open>
  The reference pipeline of \<^verbatim>\<open>crates/runtime-native/src/lib.rs\<close>, \<^verbatim>\<open>start_counter\<close>: a source that publishes a pulse per
  interval, a counter that adds up the pulses of a window and publishes a snapshot, and a sink. The three tasks are
  one machine whose steps are single World calls or single accesses to the shared statistics; any of the tasks, and
  the rest of the program, may move between two steps of another. A task can be aborted where it awaits.
\<close>

section \<open>Setup\<close>

text \<open>Errors are strings in the source; \<open>ReCore\<close> is the text of a core error.\<close>

datatype runtime_error = ReText string | ReCore error

record pipeline_snapshot =
  sn_generated :: nat
  sn_processed :: nat
  sn_summaries :: nat
  sn_sink_received :: nat
  sn_first_progress_ns :: "nat option"
  sn_last_progress_ns :: "nat option"
  sn_last_total :: int
  sn_total_ticks :: int

definition snapshot_zero :: pipeline_snapshot where
  "snapshot_zero = \<lparr>sn_generated = 0, sn_processed = 0, sn_summaries = 0, sn_sink_received = 0,
     sn_first_progress_ns = None, sn_last_progress_ns = None, sn_last_total = 0, sn_total_ticks = 0\<rparr>"

record counter_pipeline =
  cp_owner :: actor_ref
  cp_source :: actor_ref
  cp_counter :: actor_ref
  cp_sink :: actor_ref

definition pcall :: "(state \<Rightarrow> 'a rstep) \<Rightarrow> native \<Rightarrow> (runtime_error, 'a) eres" where
  "pcall f n = map_option (\<lambda>(s, r). (n\<lparr>nt_world := s\<rparr>, case r of Inl e \<Rightarrow> Inl (ReCore e) | Inr x \<Rightarrow> Inr x)) (f (nt_world n))"

text \<open>\<^verbatim>\<open>TaskService::permits\<close>, all or none; \<open>up\<close>: is the runtime still there?\<close>

definition permits :: "bool \<Rightarrow> nat \<Rightarrow> native \<Rightarrow> (runtime_error, unit) eres" where
  "permits up k n =
     (if \<not> up then Some (n, Inl (ReText ''native runtime is closed''))
      else if nt_slots_closed n \<or> nt_slots n < k then Some (n, Inl (ReText ''native task limit reached''))
      else Some (n\<lparr>nt_slots := nt_slots n - k\<rparr>, Inr ()))"

definition give_slots :: "nat \<Rightarrow> native \<Rightarrow> native" where
  "give_slots k n = n\<lparr>nt_slots := nt_slots n + k\<rparr>"

definition subscribe_target :: "inner \<Rightarrow> actor_ref \<Rightarrow> actor_ref option \<Rightarrow> native \<Rightarrow> (runtime_error, unit) eres" where
  "subscribe_target w counter target n =
     (case target of
        None \<Rightarrow> Some (n, Inr ())
      | Some t \<Rightarrow> rthen (pcall (subscribe w counter t) n) (\<lambda>n _. Some (n, Inr ())))"

fun activate_each :: "inner \<Rightarrow> actor_ref list \<Rightarrow> native \<Rightarrow> (runtime_error, unit) eres" where
  "activate_each w [] n = Some (n, Inr ())"
| "activate_each w (r # rs) n = rthen (pcall (activate w r) n) (\<lambda>n _. activate_each w rs n)"

text \<open>The three leases of the owner; an error drops those taken so far, the last one first.\<close>

fun with_leases :: "nat \<Rightarrow> inner \<Rightarrow> actor_ref \<Rightarrow> (native \<Rightarrow> (runtime_error, unit) eres) \<Rightarrow> native \<Rightarrow> (runtime_error, unit) eres" where
  "with_leases 0 w owner k n = k n"
| "with_leases (Suc j) w owner k n =
     rthen (pcall (track_task w owner) n) (\<lambda>n _.
       on_err (wdo (task_drop w owner)) (with_leases j w owner k n))"

definition setup_pipeline ::
  "inner \<Rightarrow> actor_ref \<Rightarrow> actor_ref option \<Rightarrow> native \<Rightarrow> (runtime_error, counter_pipeline) eres" where
  "setup_pipeline w owner target n =
     rthen (pcall (allocate w Native (Some owner)) n) (\<lambda>n source.
     rthen (pcall (allocate w Native (Some owner)) n) (\<lambda>n counter.
     rthen (pcall (allocate w Native (Some owner)) n) (\<lambda>n sink.
     rthen (pcall (subscribe w source counter) n) (\<lambda>n _.
     rthen (pcall (subscribe w counter sink) n) (\<lambda>n _.
     rthen (subscribe_target w counter target n) (\<lambda>n _.
     rthen (with_leases 3 w owner (activate_each w [source, counter, sink, owner]) n) (\<lambda>n _.
       Some (n, Inr \<lparr>cp_owner = owner, cp_source = source, cp_counter = counter, cp_sink = sink\<rparr>))))))))"

definition start_counter ::
  "inner \<Rightarrow> bool \<Rightarrow> actor_ref option \<Rightarrow> duration \<Rightarrow> duration \<Rightarrow> actor_ref option \<Rightarrow> native \<Rightarrow>
   (runtime_error, counter_pipeline) eres" where
  "start_counter w up parent interval window target n =
     (if interval = 0 \<or> window = 0 \<or> interval > MAX_PERIOD \<or> window > MAX_PERIOD
      then Some (n, Inl (ReText ''interval and window must be positive and at most 24 hours''))
      else rthen (permits up 3 n) (\<lambda>n _.
        on_err (\<lambda>n. Some (give_slots 3 n))
          (rthen (pcall (allocate w Native parent) n) (\<lambda>n owner.
             on_err (stop_owner w owner) (setup_pipeline w owner target n)))))"

section \<open>The tasks\<close>

definition BATCH :: nat where "BATCH = 32"

text \<open>Source: waiting for the owner, awaiting a tick, counting it, publishing it, before its destructors, ended.\<close>

datatype source_pc = SoGate | SoLoop | SoCount | SoPublish | SoDrop | SoOver

text \<open>Counter. \<open>CoBatch k st\<close> has \<open>k\<close> claims left in a poll that read the state \<open>st\<close>; \<open>CoPublish final\<close> and
  \<open>CoSummary final\<close> publish a snapshot and note it, at the end of a window or of the task.\<close>

datatype counter_pc =
    CoGate
  | CoLoop
  | CoBatch nat lifecycle
  | CoUpdate nat lifecycle delivery_lease
  | CoFinish nat lifecycle delivery_lease
  | CoFailed delivery_lease
  | CoReject delivery_lease
  | CoStop
  | CoUpstream
  | CoPublish bool
  | CoSummary bool
  | CoFlag
  | CoDrop
  | CoOver

datatype sink_pc =
    SkGate
  | SkLoop
  | SkBatch nat lifecycle
  | SkCheck nat lifecycle delivery_lease
  | SkFinish nat lifecycle delivery_lease
  | SkReject delivery_lease
  | SkStop
  | SkFlag
  | SkUpstream
  | SkDrop
  | SkOver

record pipe_run =
  pn_native :: native
  pn_stats :: pipeline_snapshot
  pn_source :: source_pc
  pn_counter :: counter_pc
  pn_sink :: sink_pc
  pn_count :: nat
  pn_total :: int
  pn_done :: bool

text \<open>What wakes a task that awaits: the checking interval, the task's own interval, or an abort.\<close>

datatype pipe_in = PiCheck | PiTick | PiAbort

text \<open>What is seen of the pipeline. \<open>PeSnapshot\<close>: a snapshot was handed to \<^verbatim>\<open>publish_completion\<close>, whose refusal the task
  ignores. \<open>PeSettled\<close>: the counter returns because everything before it has ended;
  \<open>PeDrained\<close>: so does the sink.\<close>

datatype pipe_event = PeGenerate | PePulse int | PeSnapshot nat int | PeSettled | PeReceive | PeDrained | PePermit

type_synonym pipe_result = "(pipe_run \<times> pipe_event list) option"

definition pn_world :: "pipe_run \<Rightarrow> state" where
  "pn_world r = nt_world (pn_native r)"

definition put_world :: "state \<Rightarrow> pipe_run \<Rightarrow> pipe_run" where
  "put_world s r = r\<lparr>pn_native := (pn_native r)\<lparr>nt_world := s\<rparr>\<rparr>"

text \<open>One look at the owner in \<^verbatim>\<open>wait_ready\<close>: ready, to be asked again, or given up.\<close>

datatype gate = GtReady | GtWait | GtGone

definition ready_look :: "inner \<Rightarrow> actor_ref \<Rightarrow> bool \<Rightarrow> state \<Rightarrow> gate option" where
  "ready_look w owner allow_drain s =
     map_option (\<lambda>st. case st of
         Inr Active \<Rightarrow> GtReady
       | Inr Quiescing \<Rightarrow> if allow_drain then GtReady else GtGone
       | Inr Starting \<Rightarrow> GtWait
       | _ \<Rightarrow> GtGone) (execution_state w owner s)"

definition after_gate :: "'a \<Rightarrow> 'a \<Rightarrow> 'a \<Rightarrow> gate \<Rightarrow> 'a" where
  "after_gate ready wait gone g = (case g of GtReady \<Rightarrow> ready | GtWait \<Rightarrow> wait | GtGone \<Rightarrow> gone)"

definition is_active :: "inner \<Rightarrow> actor_ref \<Rightarrow> state \<Rightarrow> bool option" where
  "is_active w owner s = map_option (\<lambda>st. st = Inr Active) (execution_state w owner s)"

text \<open>The end of a task: its lease, then its permit.\<close>

definition end_task :: "inner \<Rightarrow> actor_ref \<Rightarrow> pipe_run \<Rightarrow> pipe_run option" where
  "end_task w owner r = map_option (\<lambda>n. r\<lparr>pn_native := give_slots 1 n\<rparr>) (wdo (task_drop w owner) (pn_native r))"

subsection \<open>Source\<close>

definition note_tick :: "nat \<Rightarrow> pipeline_snapshot \<Rightarrow> pipeline_snapshot" where
  "note_tick t x = x\<lparr>sn_generated := bump (sn_generated x), sn_total_ticks := min (sn_total_ticks x + 1) (2 ^ 63 - 1),
     sn_first_progress_ns := (case sn_first_progress_ns x of None \<Rightarrow> Some t | Some u \<Rightarrow> Some u),
     sn_last_progress_ns := Some t\<rparr>"

definition source_goto :: "source_pc \<Rightarrow> pipe_run \<Rightarrow> pipe_result" where
  "source_goto pc r = Some (r\<lparr>pn_source := pc\<rparr>, [])"

definition source_next :: "inner \<Rightarrow> counter_pipeline \<Rightarrow> pipe_in \<Rightarrow> pipe_run \<Rightarrow> pipe_result" where
  "source_next w p i r =
     (case pn_source r of
        SoGate \<Rightarrow>
          if i = PiAbort then source_goto SoDrop r
          else Option.bind (ready_look w (cp_owner p) False (pn_world r)) (\<lambda>g.
            source_goto (after_gate SoLoop SoGate SoDrop g) r)
      | SoLoop \<Rightarrow>
          if i = PiAbort then source_goto SoDrop r
          else Option.bind (is_active w (cp_owner p) (pn_world r)) (\<lambda>active.
            source_goto (if \<not> active then SoDrop else if i = PiTick then SoCount else SoLoop) r)
      | SoCount \<Rightarrow>
          (let (s, now) = read_now w (pn_world r)
           in Some ((put_world s r)\<lparr>pn_stats := note_tick (instant_ns w now) (pn_stats r), pn_source := SoPublish\<rparr>, [PeGenerate]))
      | SoPublish \<Rightarrow>
          Option.bind (publish_with w (cp_source p) (Pulse 1) default_options (pn_world r)) (\<lambda>(s, _).
            source_goto SoLoop (put_world s r))
      | SoDrop \<Rightarrow> map_option (\<lambda>r. (r\<lparr>pn_source := SoOver\<rparr>, [PePermit])) (end_task w (cp_owner p) r)
      | SoOver \<Rightarrow> None)"

subsection \<open>Counter\<close>

definition counter_goto :: "counter_pc \<Rightarrow> pipe_run \<Rightarrow> pipe_result" where
  "counter_goto pc r = Some (r\<lparr>pn_counter := pc\<rparr>, [])"

definition counted :: "payload \<Rightarrow> pipe_run \<Rightarrow> (nat \<times> int) option" where
  "counted p r =
     (case p of
        Pulse v \<Rightarrow>
          (case (checked_add u64_max (pn_count r) 1, i64_checked_add (pn_total r) v) of
             (Some c, Some t) \<Rightarrow> Some (c, t)
           | _ \<Rightarrow> None)
      | _ \<Rightarrow> None)"

definition pulse_value :: "payload \<Rightarrow> int" where
  "pulse_value p = (case p of Pulse v \<Rightarrow> v | _ \<Rightarrow> 0)"

definition lease_payload :: "delivery_lease \<Rightarrow> payload" where
  "lease_payload l = s_payload (d_payload (dl_delivery l))"

text \<open>Where the counter goes after reading its owner's state, and after a claim.\<close>

definition counter_polled :: "pipe_in \<Rightarrow> nat \<Rightarrow> lifecycle result \<Rightarrow> counter_pc" where
  "counter_polled i cnt x =
     (case x of
        Inr st \<Rightarrow>
          if st \<noteq> Active \<and> st \<noteq> Quiescing then CoFlag
          else if i = PiCheck then CoBatch BATCH st
          else if cnt \<noteq> 0 then CoPublish False else CoLoop
      | Inl e \<Rightarrow> CoFlag)"

definition counter_claimed :: "nat \<Rightarrow> lifecycle \<Rightarrow> delivery_lease option result \<Rightarrow> counter_pc" where
  "counter_claimed k st x =
     (case x of
        Inr (Some l) \<Rightarrow> CoUpdate k st l
      | _ \<Rightarrow> if st = Quiescing then CoUpstream else CoLoop)"

definition counter_poll :: "inner \<Rightarrow> counter_pipeline \<Rightarrow> pipe_in \<Rightarrow> pipe_run \<Rightarrow> pipe_result" where
  "counter_poll w p i r =
     (if i = PiAbort then counter_goto CoFlag r
      else Option.bind (execution_state w (cp_owner p) (pn_world r)) (\<lambda>x.
        counter_goto (counter_polled i (pn_count r) x) r))"

definition counter_claim :: "inner \<Rightarrow> counter_pipeline \<Rightarrow> nat \<Rightarrow> lifecycle \<Rightarrow> pipe_run \<Rightarrow> pipe_result" where
  "counter_claim w p k st r =
     Option.bind (claim w (cp_counter p) (pn_world r)) (\<lambda>(s, x).
       counter_goto (counter_claimed k st x) (put_world s r))"

definition counter_update :: "nat \<Rightarrow> lifecycle \<Rightarrow> delivery_lease \<Rightarrow> pipe_run \<Rightarrow> pipe_result" where
  "counter_update k st l r =
     (case counted (lease_payload l) r of
        None \<Rightarrow> counter_goto (CoFailed l) r
      | Some (c, t) \<Rightarrow>
          Some (r\<lparr>pn_count := c, pn_total := t, pn_counter := CoFinish k st l,
                  pn_stats := (pn_stats r)\<lparr>sn_processed := sn_processed (pn_stats r) + 1\<rparr>\<rparr>, [PePulse (pulse_value (lease_payload l))]))"

definition counter_failed :: "inner \<Rightarrow> counter_pipeline \<Rightarrow> delivery_lease \<Rightarrow> pipe_run \<Rightarrow> pipe_result" where
  "counter_failed w p l r =
     Option.bind (report_failure w (cp_owner p) (Some (d_event_id (dl_delivery l))) None (dl_operation l)
         (failure_details_new Handler ''native_counter'' ''InvalidPulseOrOverflow'' []) StopActor (pn_world r)) (\<lambda>(s, _).
       counter_goto (CoReject l) (put_world s r))"

definition counter_summary :: "bool \<Rightarrow> pipe_run \<Rightarrow> pipe_result" where
  "counter_summary final r =
     (let x = pn_stats r;
          r1 = r\<lparr>pn_stats := x\<lparr>sn_summaries := bump (sn_summaries x), sn_last_total := pn_total r\<rparr>\<rparr>
      in if final then Some (r1\<lparr>pn_counter := CoFlag\<rparr>, [PeSettled]) else counter_goto CoLoop (r1\<lparr>pn_count := 0, pn_total := 0\<rparr>))"

definition counter_next :: "inner \<Rightarrow> counter_pipeline \<Rightarrow> pipe_in \<Rightarrow> pipe_run \<Rightarrow> pipe_result" where
  "counter_next w p i r =
     (case pn_counter r of
        CoGate \<Rightarrow>
          if i = PiAbort then counter_goto CoFlag r
          else Option.bind (ready_look w (cp_owner p) True (pn_world r)) (\<lambda>g.
            counter_goto (after_gate CoLoop CoGate CoFlag g) r)
      | CoLoop \<Rightarrow> counter_poll w p i r
      | CoBatch k st \<Rightarrow> (case k of 0 \<Rightarrow> counter_goto CoLoop r | Suc j \<Rightarrow> counter_claim w p j st r)
      | CoUpdate k st l \<Rightarrow> counter_update k st l r
      | CoFinish k st l \<Rightarrow>
          Option.bind (lease_finish w l True (pn_world r)) (\<lambda>s. counter_goto (CoBatch k st) (put_world s r))
      | CoFailed l \<Rightarrow> counter_failed w p l r
      | CoReject l \<Rightarrow> Option.bind (lease_finish w l False (pn_world r)) (\<lambda>s. counter_goto CoStop (put_world s r))
      | CoStop \<Rightarrow> Option.bind (stop w (cp_owner p) (pn_world r)) (\<lambda>(s, _). counter_goto CoFlag (put_world s r))
      | CoUpstream \<Rightarrow>
          Option.bind (upstream_done w (cp_counter p) (pn_world r)) (\<lambda>x.
            if \<not> unwrap_or False x then counter_goto CoLoop r
            else if pn_count r > 0 then counter_goto (CoPublish True) r
            else Some (r\<lparr>pn_counter := CoFlag\<rparr>, [PeSettled]))
      | CoPublish final \<Rightarrow>
          Option.bind (task_publish_completion w (cp_owner p) (cp_counter p) (CountSnapshot (pn_count r) (pn_total r))
              (pn_world r)) (\<lambda>(s, _).
            Some ((put_world s r)\<lparr>pn_counter := CoSummary final\<rparr>, [PeSnapshot (pn_count r) (pn_total r)]))
      | CoSummary final \<Rightarrow> counter_summary final r
      | CoFlag \<Rightarrow> Some (r\<lparr>pn_done := True, pn_counter := CoDrop\<rparr>, [])
      | CoDrop \<Rightarrow> map_option (\<lambda>r. (r\<lparr>pn_counter := CoOver\<rparr>, [PePermit])) (end_task w (cp_owner p) r)
      | CoOver \<Rightarrow> None)"

subsection \<open>Sink\<close>

definition sink_goto :: "sink_pc \<Rightarrow> pipe_run \<Rightarrow> pipe_result" where
  "sink_goto pc r = Some (r\<lparr>pn_sink := pc\<rparr>, [])"

definition sink_polled :: "lifecycle result \<Rightarrow> sink_pc" where
  "sink_polled x =
     (case x of Inr st \<Rightarrow> if st = Active \<or> st = Quiescing then SkBatch BATCH st else SkDrop | Inl e \<Rightarrow> SkDrop)"

definition sink_claimed :: "nat \<Rightarrow> lifecycle \<Rightarrow> delivery_lease option result \<Rightarrow> sink_pc" where
  "sink_claimed k st x =
     (case x of
        Inr (Some l) \<Rightarrow> SkCheck k st l
      | _ \<Rightarrow> if st = Quiescing then SkFlag else SkLoop)"

definition sink_claim :: "inner \<Rightarrow> counter_pipeline \<Rightarrow> nat \<Rightarrow> lifecycle \<Rightarrow> pipe_run \<Rightarrow> pipe_result" where
  "sink_claim w p k st r =
     Option.bind (claim w (cp_sink p) (pn_world r)) (\<lambda>(s, x).
       sink_goto (sink_claimed k st x) (put_world s r))"

definition sink_check :: "nat \<Rightarrow> lifecycle \<Rightarrow> delivery_lease \<Rightarrow> pipe_run \<Rightarrow> pipe_result" where
  "sink_check k st l r =
     (case lease_payload l of
        CountSnapshot c t \<Rightarrow>
          Some (r\<lparr>pn_sink := SkFinish k st l,
                  pn_stats := (pn_stats r)\<lparr>sn_sink_received := sn_sink_received (pn_stats r) + 1\<rparr>\<rparr>, [PeReceive])
      | _ \<Rightarrow> sink_goto (SkReject l) r)"

definition sink_next :: "inner \<Rightarrow> counter_pipeline \<Rightarrow> pipe_in \<Rightarrow> pipe_run \<Rightarrow> pipe_result" where
  "sink_next w p i r =
     (case pn_sink r of
        SkGate \<Rightarrow>
          if i = PiAbort then sink_goto SkDrop r
          else Option.bind (ready_look w (cp_owner p) True (pn_world r)) (\<lambda>g.
            sink_goto (after_gate SkLoop SkGate SkDrop g) r)
      | SkLoop \<Rightarrow>
          if i = PiAbort then sink_goto SkDrop r
          else Option.bind (execution_state w (cp_owner p) (pn_world r)) (\<lambda>x.
            sink_goto (sink_polled x) r)
      | SkBatch k st \<Rightarrow> (case k of 0 \<Rightarrow> sink_goto SkLoop r | Suc j \<Rightarrow> sink_claim w p j st r)
      | SkCheck k st l \<Rightarrow> sink_check k st l r
      | SkFinish k st l \<Rightarrow>
          Option.bind (lease_finish w l True (pn_world r)) (\<lambda>s. sink_goto (SkBatch k st) (put_world s r))
      | SkReject l \<Rightarrow> Option.bind (lease_finish w l False (pn_world r)) (\<lambda>s. sink_goto SkStop (put_world s r))
      | SkStop \<Rightarrow> Option.bind (stop w (cp_owner p) (pn_world r)) (\<lambda>(s, _). sink_goto SkDrop (put_world s r))
      | SkFlag \<Rightarrow> sink_goto (if pn_done r then SkUpstream else SkLoop) r
      | SkUpstream \<Rightarrow>
          Option.bind (upstream_done w (cp_sink p) (pn_world r)) (\<lambda>x.
            if unwrap_or False x then Some (r\<lparr>pn_sink := SkDrop\<rparr>, [PeDrained]) else sink_goto SkLoop r)
      | SkDrop \<Rightarrow> map_option (\<lambda>r. (r\<lparr>pn_sink := SkOver\<rparr>, [PePermit])) (end_task w (cp_owner p) r)
      | SkOver \<Rightarrow> None)"

section \<open>The pipeline\<close>

definition pipe_start :: "native \<Rightarrow> pipe_run" where
  "pipe_start n = \<lparr>pn_native = n, pn_stats = snapshot_zero, pn_source = SoGate, pn_counter = CoGate, pn_sink = SkGate,
     pn_count = 0, pn_total = 0, pn_done = False\<rparr>"

inductive pipe_step ::
  "inner \<Rightarrow> counter_pipeline \<Rightarrow> pipe_run \<times> pipe_event list \<Rightarrow> pipe_run \<times> pipe_event list \<Rightarrow> bool" for w p where
  pipe_source: "source_next w p i r = Some (r', ev) \<Longrightarrow> pipe_step w p (r, tr) (r', tr @ ev)"
| pipe_counter: "counter_next w p i r = Some (r', ev) \<Longrightarrow> pipe_step w p (r, tr) (r', tr @ ev)"
| pipe_sink: "sink_next w p i r = Some (r', ev) \<Longrightarrow> pipe_step w p (r, tr) (r', tr @ ev)"
| pipe_env: "along w (pn_native r) n \<Longrightarrow> pipe_step w p (r, tr) (r\<lparr>pn_native := n\<rparr>, tr)"

text \<open>The tasks start at their gates, in any reachable World.\<close>

definition pipe_init :: "inner \<Rightarrow> pipe_run \<times> pipe_event list \<Rightarrow> bool" where
  "pipe_init w x \<longleftrightarrow> (\<exists>n. world_reachable w (nt_world n) \<and> x = (pipe_start n, []))"

end
