(* ===== verification/Native_Pipeline_Correct.thy ===== *)
theory Native_Pipeline_Correct
  imports Native_Pipeline
begin

text \<open>
  The reference pipeline accounts for every pulse: what the counter has counted is what it has published and what its
  open window holds, a drained counter has published everything, and the sink drains only after the counter has ended.
\<close>

section \<open>Accounts of the pipeline\<close>

fun pulses :: "pipe_event list \<Rightarrow> int list" where
  "pulses [] = []"
| "pulses (PePulse v # tr) = v # pulses tr"
| "pulses (_ # tr) = pulses tr"

fun published :: "pipe_event list \<Rightarrow> (nat \<times> int) list" where
  "published [] = []"
| "published (PeSnapshot c t # tr) = (c, t) # published tr"
| "published (_ # tr) = published tr"

definition published_count :: "pipe_event list \<Rightarrow> nat" where
  "published_count tr = sum_list (map fst (published tr))"

definition published_total :: "pipe_event list \<Rightarrow> int" where
  "published_total tr = sum_list (map snd (published tr))"

definition i64_range :: "int \<Rightarrow> bool" where
  "i64_range t \<longleftrightarrow> - (2 ^ 63) \<le> t \<and> t < 2 ^ 63"

definition sound_snapshot :: "nat \<times> int \<Rightarrow> bool" where
  "sound_snapshot x \<longleftrightarrow> 0 < fst x \<and> fst x \<le> u64_max \<and> i64_range (snd x)"

text \<open>The counter is at work: its window is what it has counted and not yet published.\<close>

fun counting :: "counter_pc \<Rightarrow> bool" where
  "counting (CoSummary final) = False"
| "counting CoFlag = False"
| "counting CoDrop = False"
| "counting CoOver = False"
| "counting _ = True"

definition window_exact :: "pipe_run \<Rightarrow> pipe_event list \<Rightarrow> bool" where
  "window_exact r tr \<longleftrightarrow> published_count tr + pn_count r = length (pulses tr)
     \<and> published_total tr + pn_total r = sum_list (pulses tr)"

definition all_published :: "pipe_event list \<Rightarrow> bool" where
  "all_published tr \<longleftrightarrow> published_count tr = length (pulses tr) \<and> published_total tr = sum_list (pulses tr)"

fun noted :: "counter_pc \<Rightarrow> pipe_event list \<Rightarrow> nat" where
  "noted (CoSummary final) tr = length (published tr) - 1"
| "noted _ tr = length (published tr)"

fun counter_phase :: "counter_pc \<Rightarrow> pipe_run \<Rightarrow> pipe_event list \<Rightarrow> bool" where
  "counter_phase (CoPublish final) r tr \<longleftrightarrow> window_exact r tr \<and> PeSettled \<notin> set tr \<and> 0 < pn_count r"
| "counter_phase (CoSummary final) r tr \<longleftrightarrow> all_published tr \<and> PeSettled \<notin> set tr \<and> published tr \<noteq> []"
| "counter_phase pc r tr \<longleftrightarrow> (if counting pc then window_exact r tr \<and> PeSettled \<notin> set tr
     else (window_exact r tr \<or> all_published tr) \<and> (PeSettled \<in> set tr \<longrightarrow> all_published tr))"

definition counter_ok :: "pipe_run \<Rightarrow> pipe_event list \<Rightarrow> bool" where
  "counter_ok r tr \<longleftrightarrow>
     counter_phase (pn_counter r) r tr \<and> list_all sound_snapshot (published tr)
     \<and> pn_count r \<le> u64_max \<and> i64_range (pn_total r) \<and> (pn_count r = 0 \<longrightarrow> pn_total r = 0)
     \<and> sn_processed (pn_stats r) = length (pulses tr)
     \<and> sn_summaries (pn_stats r) = min u64_max (noted (pn_counter r) tr)
     \<and> pn_done r = (pn_counter r = CoDrop \<or> pn_counter r = CoOver)"

text \<open>After the sink has drained the counter is silent.\<close>

definition late :: "pipe_event list \<Rightarrow> pipe_event list" where
  "late tr = dropWhile (\<lambda>x. x \<noteq> PeDrained) tr"

definition sink_ok :: "pipe_run \<Rightarrow> pipe_event list \<Rightarrow> bool" where
  "sink_ok r tr \<longleftrightarrow>
     sn_sink_received (pn_stats r) = count_list tr PeReceive
     \<and> (pn_sink r = SkUpstream \<longrightarrow> pn_done r)
     \<and> (PeDrained \<in> set tr \<longrightarrow> pn_done r \<and> (pn_sink r = SkDrop \<or> pn_sink r = SkOver))
     \<and> pulses (late tr) = [] \<and> published (late tr) = []"

definition ended_tasks :: "pipe_run \<Rightarrow> nat" where
  "ended_tasks r = (if pn_source r = SoOver then 1 else 0) + (if pn_counter r = CoOver then 1 else 0)
     + (if pn_sink r = SkOver then 1 else 0)"

definition pipe_inv :: "inner \<Rightarrow> pipe_run \<times> pipe_event list \<Rightarrow> bool" where
  "pipe_inv w x \<longleftrightarrow> (case x of (r, tr) \<Rightarrow>
     world_reachable w (pn_world r) \<and> counter_ok r tr \<and> sink_ok r tr
     \<and> sn_generated (pn_stats r) = min u64_max (count_list tr PeGenerate)
     \<and> count_list tr PePermit = ended_tasks r)"

lemma pulses_append [simp]: "pulses (tr @ us) = pulses tr @ pulses us"
  by (induction tr rule: pulses.induct) simp_all

lemma published_append [simp]: "published (tr @ us) = published tr @ published us"
  by (induction tr rule: published.induct) simp_all

lemma published_sums [simp]:
  "published_count (tr @ us) = published_count tr + published_count us"
  "published_total (tr @ us) = published_total tr + published_total us"
  by (simp_all add: published_count_def published_total_def)

lemma late_append: "late (tr @ us) = (if PeDrained \<in> set tr then late tr @ us else late us)"
  by (induction tr) (auto simp: late_def)

lemma bump_min: "bump (min u64_max n) = min u64_max (Suc n)"
  by (simp add: bump_def saturating_add_def u64_max_def)

text \<open>A step that leaves the counter, and its part of the statistics and of the events, alone.\<close>

lemma counter_ok_frame:
  assumes "counter_ok r tr" "pn_counter r' = pn_counter r" "pn_count r' = pn_count r" "pn_total r' = pn_total r"
    "pn_done r' = pn_done r" "sn_processed (pn_stats r') = sn_processed (pn_stats r)"
    "sn_summaries (pn_stats r') = sn_summaries (pn_stats r)"
    "pulses ev = []" "published ev = []" "PeSettled \<notin> set ev"
  shows "counter_ok r' (tr @ ev)"
proof -
  have "window_exact r' (tr @ ev) = window_exact r tr" "all_published (tr @ ev) = all_published tr"
      "noted pc (tr @ ev) = noted pc tr" for pc
    using assms by (cases pc; simp add: window_exact_def all_published_def published_count_def published_total_def)+
  then show ?thesis
    using assms unfolding counter_ok_def by (cases "pn_counter r") auto
qed


section \<open>Every step keeps the accounts\<close>

lemma pipe_ops:
  "publish_with w source p opts s = Some (t, x1) \<Longrightarrow> world_op w s t"
  "task_publish_completion w owner source p s = Some (t, x2) \<Longrightarrow> world_op w s t"
  "stop w r s = Some (t, x3) \<Longrightarrow> world_op w s t"
  "read_now w s = (t, x4) \<Longrightarrow> world_op w s t"
  "allocate w kind parent s = Some (t, x5) \<Longrightarrow> world_op w s t"
  "activate w r s = Some (t, x6) \<Longrightarrow> world_op w s t"
  "subscribe w source target s = Some (t, x7) \<Longrightarrow> world_op w s t"
  "track_task w r s = Some (t, x8) \<Longrightarrow> world_op w s t"
  unfolding world_op_def publish_with_def task_publish_completion_def
  by (blast intro: work_op.intros claim_op.intros)+

lemmas pipe_calls = pipe_ops task_ops

lemma put_world_simps [simp]:
  "pn_world (put_world s r) = s" "pn_stats (put_world s r) = pn_stats r" "pn_source (put_world s r) = pn_source r"
  "pn_counter (put_world s r) = pn_counter r" "pn_sink (put_world s r) = pn_sink r" "pn_count (put_world s r) = pn_count r"
  "pn_total (put_world s r) = pn_total r" "pn_done (put_world s r) = pn_done r"
  by (simp_all add: put_world_def pn_world_def)

lemma pn_world_update [simp]:
  "pn_world (r\<lparr>pn_stats := x\<rparr>) = pn_world r" "pn_world (r\<lparr>pn_source := a\<rparr>) = pn_world r"
  "pn_world (r\<lparr>pn_counter := b\<rparr>) = pn_world r" "pn_world (r\<lparr>pn_sink := c\<rparr>) = pn_world r"
  "pn_world (r\<lparr>pn_count := k\<rparr>) = pn_world r" "pn_world (r\<lparr>pn_total := v\<rparr>) = pn_world r"
  "pn_world (r\<lparr>pn_done := d\<rparr>) = pn_world r"
  by (simp_all add: pn_world_def)

lemma end_task_frame:
  assumes "end_task w owner r = Some r'"
  shows "world_op w (pn_world r) (pn_world r')" "pn_stats r' = pn_stats r" "pn_source r' = pn_source r" "pn_counter r' = pn_counter r"
    "pn_sink r' = pn_sink r" "pn_count r' = pn_count r" "pn_total r' = pn_total r" "pn_done r' = pn_done r"
  using assms
  by (auto simp: end_task_def wdo_def give_slots_def pn_world_def intro: pipe_calls)

definition moves :: "inner \<Rightarrow> pipe_run \<Rightarrow> pipe_run \<Rightarrow> bool" where
  "moves w r r' \<longleftrightarrow> pn_world r' = pn_world r \<or> world_op w (pn_world r) (pn_world r')"

lemma moves_reachable: "moves w r r' \<Longrightarrow> world_reachable w (pn_world r) \<Longrightarrow> world_reachable w (pn_world r')"
  by (auto simp: moves_def intro: reachable_step)

lemmas gotos = source_goto_def counter_goto_def sink_goto_def

lemma moves_intros:
  "moves w r r" "world_op w (pn_world r) s \<Longrightarrow> moves w r (put_world s r)"
  "end_task w owner r = Some r' \<Longrightarrow> moves w r r'"
  by (simp_all add: moves_def end_task_frame)

lemma moves_update [simp]:
  "moves w r (r'\<lparr>pn_stats := x\<rparr>) = moves w r r'" "moves w r (r'\<lparr>pn_source := a\<rparr>) = moves w r r'"
  "moves w r (r'\<lparr>pn_counter := b\<rparr>) = moves w r r'" "moves w r (r'\<lparr>pn_sink := c\<rparr>) = moves w r r'"
  "moves w r (r'\<lparr>pn_count := k\<rparr>) = moves w r r'" "moves w r (r'\<lparr>pn_total := v\<rparr>) = moves w r r'"
  "moves w r (r'\<lparr>pn_done := d\<rparr>) = moves w r r'"
  by (simp_all add: moves_def)

lemma source_moves:
  assumes "source_next w p i r = Some (r', ev)"
  shows "moves w r r'"
  using assms
  by (cases "pn_source r")
    (auto simp: source_next_def gotos bind_eq_Some_conv moves_intros pipe_calls split: if_split_asm prod.split_asm)

lemma counter_moves: "counter_next w p i r = Some (r', ev) \<Longrightarrow> moves w r r'"
  by (cases "pn_counter r")
    (auto simp: counter_next_def counter_poll_def counter_claim_def counter_update_def counter_failed_def counter_summary_def
      gotos bind_eq_Some_conv Let_def moves_intros pipe_calls 
      split: if_split_asm option.split_asm nat.split_asm)

lemma sink_moves: "sink_next w p i r = Some (r', ev) \<Longrightarrow> moves w r r'"
  by (cases "pn_sink r")
    (auto simp: sink_next_def sink_claim_def sink_check_def gotos bind_eq_Some_conv moves_intros pipe_calls
      split: if_split_asm nat.split_asm payload.split_asm)


lemma after_gate_eq: "after_gate a b c g = x \<Longrightarrow> x \<in> {a, b, c}"
  by (cases g) (simp_all add: after_gate_def)

lemma pc_simps [simp]:
  "after_gate SoLoop SoGate SoDrop g \<noteq> SoOver"
  "after_gate SkLoop SkGate SkDrop g \<noteq> SkOver" "after_gate SkLoop SkGate SkDrop g \<noteq> SkUpstream"
  "sink_polled x \<noteq> SkOver" "sink_polled x \<noteq> SkUpstream"
  "sink_claimed k st y \<noteq> SkOver" "sink_claimed k st y \<noteq> SkUpstream"
  by (auto dest: after_gate_eq simp: sink_polled_def sink_claimed_def split: sum.split option.split)

lemma end_taskD: "end_task w owner r = Some r' \<Longrightarrow> \<exists>n. r' = r\<lparr>pn_native := n\<rparr>"
  by (auto simp: end_task_def)

text \<open>What a step of the source or of the sink leaves alone.\<close>

definition beside :: "pipe_run \<Rightarrow> pipe_run \<Rightarrow> pipe_event list \<Rightarrow> bool" where
  "beside r r' ev \<longleftrightarrow> pn_counter r' = pn_counter r \<and> pn_count r' = pn_count r \<and> pn_total r' = pn_total r
     \<and> pn_done r' = pn_done r \<and> sn_processed (pn_stats r') = sn_processed (pn_stats r)
     \<and> sn_summaries (pn_stats r') = sn_summaries (pn_stats r) \<and> pulses ev = [] \<and> published ev = [] \<and> PeSettled \<notin> set ev"

lemma beside_counter_ok: "beside r r' ev \<Longrightarrow> counter_ok r tr \<Longrightarrow> counter_ok r' (tr @ ev)"
  unfolding beside_def by (elim conjE) (rule counter_ok_frame)

lemma source_beside:
  assumes "source_next w p i r = Some (r', ev)"
  shows "beside r r' ev" "pn_sink r' = pn_sink r \<and> sn_sink_received (pn_stats r') = sn_sink_received (pn_stats r)"
    "PeReceive \<notin> set ev \<and> PeDrained \<notin> set ev"
    "sn_generated (pn_stats r') = (if ev = [PeGenerate] then bump (sn_generated (pn_stats r)) else sn_generated (pn_stats r))
      \<and> count_list ev PeGenerate = (if ev = [PeGenerate] then 1 else 0)"
    "count_list ev PePermit + ended_tasks r = ended_tasks r'"
proof -
  note defs = source_next_def gotos bind_eq_Some_conv beside_def note_tick_def
  show "beside r r' ev" using assms
    by (cases "pn_source r") (auto simp: defs split: if_split_asm prod.split_asm dest!: end_taskD)
  show "pn_sink r' = pn_sink r \<and> sn_sink_received (pn_stats r') = sn_sink_received (pn_stats r)" using assms
    by (cases "pn_source r") (auto simp: defs split: if_split_asm prod.split_asm dest!: end_taskD)
  show "PeReceive \<notin> set ev \<and> PeDrained \<notin> set ev" using assms
    by (cases "pn_source r") (auto simp: defs split: if_split_asm prod.split_asm)
  show "sn_generated (pn_stats r') = (if ev = [PeGenerate] then bump (sn_generated (pn_stats r)) else sn_generated (pn_stats r))
      \<and> count_list ev PeGenerate = (if ev = [PeGenerate] then 1 else 0)" using assms
    by (cases "pn_source r") (auto simp: defs split: if_split_asm prod.split_asm dest!: end_taskD)
  show "count_list ev PePermit + ended_tasks r = ended_tasks r'" using assms
    by (cases "pn_source r") (auto simp: defs ended_tasks_def split: if_split_asm prod.split_asm dest!: end_taskD)
qed

lemma sink_beside:
  assumes "sink_next w p i r = Some (r', ev)"
  shows "beside r r' ev" "PeGenerate \<notin> set ev" "sn_generated (pn_stats r') = sn_generated (pn_stats r)"
    "sn_sink_received (pn_stats r') = sn_sink_received (pn_stats r) + count_list ev PeReceive"
    "count_list ev PePermit + ended_tasks r = ended_tasks r'"
proof -
  note defs = sink_next_def sink_claim_def sink_check_def gotos bind_eq_Some_conv beside_def
  show "beside r r' ev" using assms
    by (cases "pn_sink r") (auto simp: defs split: if_split_asm nat.split_asm payload.split_asm dest!: end_taskD)
  show "PeGenerate \<notin> set ev" using assms
    by (cases "pn_sink r") (auto simp: defs split: if_split_asm nat.split_asm payload.split_asm)
  show "sn_generated (pn_stats r') = sn_generated (pn_stats r)" using assms
    by (cases "pn_sink r") (auto simp: defs split: if_split_asm nat.split_asm payload.split_asm dest!: end_taskD)
  show "sn_sink_received (pn_stats r') = sn_sink_received (pn_stats r) + count_list ev PeReceive" using assms
    by (cases "pn_sink r") (auto simp: defs split: if_split_asm nat.split_asm payload.split_asm dest!: end_taskD)
  show "count_list ev PePermit + ended_tasks r = ended_tasks r'" using assms
    by (cases "pn_sink r") (auto simp: defs ended_tasks_def split: if_split_asm nat.split_asm payload.split_asm dest!: end_taskD)
qed

lemma sink_drains:
  assumes "sink_next w p i r = Some (r', ev)" "sink_ok r tr"
  shows "(pn_sink r' = SkUpstream \<longrightarrow> pn_done r')
    \<and> (PeDrained \<in> set ev \<longrightarrow> ev = [PeDrained] \<and> pn_done r' \<and> pn_sink r' = SkDrop)
    \<and> (pn_sink r \<in> {SkDrop, SkOver} \<longrightarrow> pn_sink r' = SkOver)"
  using assms
  by (cases "pn_sink r";
      auto simp: sink_next_def sink_claim_def sink_check_def sink_ok_def gotos bind_eq_Some_conv
      split: if_split_asm nat.split_asm payload.split_asm dest!: end_taskD)

lemma sink_next_ok:
  assumes "sink_next w p i r = Some (r', ev)" "sink_ok r tr"
  shows "sink_ok r' (tr @ ev)"
proof -
  note d = sink_drains [OF assms]
  have b: "pn_done r' = pn_done r" "pulses ev = []" "published ev = []"
    using sink_beside(1) [OF assms(1)] by (simp_all add: beside_def)
  have "pulses (late ev) = [] \<and> published (late ev) = []"
    using b by (auto simp: late_def) (metis append_is_Nil_conv pulses_append published_append takeWhile_dropWhile_id)+
  then show ?thesis
    using assms(2) d b sink_beside(4) [OF assms(1)] unfolding sink_ok_def late_append by auto
qed


text \<open>A step of the counter that neither counts nor publishes.\<close>

lemma counter_ok_goto:
  assumes "counter_ok r tr" "pn_counter r' = pc" "counting (pn_counter r)" "counting pc \<or> pc = CoFlag"
    "pn_count r' = pn_count r" "pn_total r' = pn_total r" "pn_done r' = pn_done r"
    "sn_processed (pn_stats r') = sn_processed (pn_stats r)" "sn_summaries (pn_stats r') = sn_summaries (pn_stats r)"
    "\<And>final. pc = CoPublish final \<Longrightarrow> 0 < pn_count r"
  shows "counter_ok r' tr"
proof -
  have "window_exact r' tr = window_exact r tr" using assms by (simp add: window_exact_def)
  moreover have "window_exact r tr \<and> PeSettled \<notin> set tr \<and> \<not> pn_done r \<and> noted (pn_counter r) tr = length (published tr)"
    using assms(1,3) by (cases "pn_counter r") (auto simp: counter_ok_def)
  ultimately show ?thesis
    using assms unfolding counter_ok_def by (cases pc) auto
qed

lemma counter_pcs:
  "counting (after_gate CoLoop CoGate CoFlag g) \<or> after_gate CoLoop CoGate CoFlag g = CoFlag"
  "after_gate CoLoop CoGate CoFlag g \<noteq> CoPublish final" "after_gate CoLoop CoGate CoFlag g \<noteq> CoOver"
  "counting (counter_polled i k x) \<or> counter_polled i k x = CoFlag"
  "counter_polled i k x = CoPublish final \<Longrightarrow> 0 < k" "counter_polled i k x \<noteq> CoOver"
  "counting (counter_claimed j st y) \<or> counter_claimed j st y = CoFlag"
  "counter_claimed j st y \<noteq> CoPublish final" "counter_claimed j st y \<noteq> CoOver"
  by (auto simp: after_gate_def counter_polled_def counter_claimed_def split: gate.split sum.split option.split if_split_asm)
    (auto split: gate.split_asm sum.split_asm option.split_asm if_split_asm)

lemma counted_Some:
  assumes "counted p r = Some (c, t)" "pn_count r \<le> u64_max"
  shows "c = Suc (pn_count r)" "t = pn_total r + pulse_value p" "c \<le> u64_max" "i64_range t"
  using assms by (auto simp: counted_def pulse_value_def checked_add_def i64_checked_add_def i64_range_def
      split: payload.split_asm option.split_asm if_split_asm)


lemma counter_goes:
  assumes "counter_ok r tr" "counting (pn_counter r)" "counting pc \<or> pc = CoFlag" "\<And>final. pc = CoPublish final \<Longrightarrow> 0 < pn_count r"
  shows "counter_ok (r\<lparr>pn_counter := pc\<rparr>) tr" "counter_ok ((put_world s r)\<lparr>pn_counter := pc\<rparr>) tr"
  by (rule counter_ok_goto [OF assms(1), where pc = pc], use assms in simp_all)+

lemma counter_update_ok:
  assumes "counter_update k st l r = Some (r', ev)" "counter_ok r tr" "pn_counter r = CoUpdate k st l"
  shows "counter_ok r' (tr @ ev)"
proof (cases "counted (lease_payload l) r")
  case None
  then have r': "r' = r\<lparr>pn_counter := CoFailed l\<rparr>" "ev = []" using assms(1) by (simp_all add: counter_update_def gotos)
  show ?thesis unfolding r' append_Nil2 by (rule counter_goes [OF assms(2)]) (simp_all add: assms(3))
next
  case (Some x)
  obtain c t where x: "counted (lease_payload l) r = Some (c, t)" using Some by (cases x) simp
  have "pn_count r \<le> u64_max" using assms(2) by (simp add: counter_ok_def)
  note c = counted_Some [OF x this]
  show ?thesis
    using assms x c
    by (auto simp: counter_update_def counter_ok_def window_exact_def published_count_def published_total_def)
qed

lemma counter_publish_ok:
  assumes "counter_ok r tr" "pn_counter r = CoPublish final" "r' = (put_world s r)\<lparr>pn_counter := CoSummary final\<rparr>"
  shows "counter_ok r' (tr @ [PeSnapshot (pn_count r) (pn_total r)])"
  using assms
  by (auto simp: counter_ok_def window_exact_def all_published_def sound_snapshot_def published_count_def published_total_def)

lemma counter_summary_ok:
  assumes "counter_summary final r = Some (r', ev)" "counter_ok r tr" "pn_counter r = CoSummary final"
  shows "counter_ok r' (tr @ ev)"
proof -
  have inv: "all_published tr" "published tr \<noteq> []" "PeSettled \<notin> set tr" "list_all sound_snapshot (published tr)"
      "sn_processed (pn_stats r) = length (pulses tr)" "\<not> pn_done r" "pn_count r \<le> u64_max" "i64_range (pn_total r)"
      "sn_summaries (pn_stats r) = min u64_max (length (published tr) - 1)" "pn_count r = 0 \<longrightarrow> pn_total r = 0"
    using assms(2,3) by (simp_all add: counter_ok_def)
  have "bump (sn_summaries (pn_stats r)) = min u64_max (length (published tr))"
    using inv(2) by (simp add: inv(9) bump_min Suc_diff_1)
  then show ?thesis
    using assms(1) inv
    by (cases final) (auto simp: counter_summary_def Let_def gotos counter_ok_def all_published_def window_exact_def
        i64_range_def published_count_def published_total_def)
qed

lemma counter_end_ok:
  assumes "counter_ok r tr" "pn_counter r = CoFlag \<and> pn_counter r' = CoDrop \<and> pn_done r'
      \<or> pn_counter r = CoDrop \<and> pn_counter r' = CoOver \<and> pn_done r' = pn_done r"
    "pn_count r' = pn_count r" "pn_total r' = pn_total r" "pn_stats r' = pn_stats r"
    "pulses ev = []" "published ev = []" "PeSettled \<notin> set ev"
  shows "counter_ok r' (tr @ ev)"
  using assms
  by (auto simp: counter_ok_def window_exact_def all_published_def published_count_def published_total_def)

lemma counter_next_ok:
  assumes "counter_next w p i r = Some (r', ev)" "counter_ok r tr"
  shows "counter_ok r' (tr @ ev)"
proof (cases "pn_counter r")
  case (CoUpdate k st l)
  then show ?thesis using assms counter_update_ok by (simp add: counter_next_def)
next
  case (CoPublish final)
  then show ?thesis using assms by (auto simp: counter_next_def bind_eq_Some_conv intro: counter_publish_ok)
next
  case (CoSummary final)
  then show ?thesis using assms counter_summary_ok by (simp add: counter_next_def)
next
  case CoFlag
  then show ?thesis using assms by (auto simp: counter_next_def simp del: append_Nil2 intro: counter_end_ok)
next
  case CoDrop
  then show ?thesis using assms by (auto simp: counter_next_def dest!: end_taskD intro: counter_end_ok)
next
  case CoUpstream
  then consider "ev = []" "r' = r\<lparr>pn_counter := CoLoop\<rparr>" | "ev = []" "r' = r\<lparr>pn_counter := CoPublish True\<rparr>" "0 < pn_count r"
    | "ev = [PeSettled]" "r' = r\<lparr>pn_counter := CoFlag\<rparr>" "pn_count r = 0"
    using assms(1) by (auto simp: counter_next_def bind_eq_Some_conv gotos split: if_split_asm)
  then show ?thesis
  proof cases
    case 3
    have "pn_total r = 0" using assms(2) 3 by (simp add: counter_ok_def)
    then show ?thesis
      using assms(2) 3 CoUpstream
      by (auto simp: counter_ok_def window_exact_def all_published_def published_count_def published_total_def)
  qed (use CoUpstream in \<open>auto intro!: counter_goes [OF assms(2)]\<close>)
next
  case CoOver
  then show ?thesis using assms(1) by (simp add: counter_next_def)
next
  case (CoBatch k st)
  show ?thesis
  proof (cases k)
    case 0
    then show ?thesis using assms(1) CoBatch
      by (auto simp: counter_next_def gotos intro!: counter_goes [OF assms(2)])
  next
    case (Suc j)
    obtain s x where r': "r' = (put_world s r)\<lparr>pn_counter := counter_claimed j st x\<rparr>" "ev = []"
      using assms(1) CoBatch Suc by (auto simp: counter_next_def counter_claim_def gotos bind_eq_Some_conv)
    show ?thesis
      unfolding r' append_Nil2
      by (rule counter_goes [OF assms(2)]) (simp_all add: CoBatch counter_pcs)
  qed
next
  case CoGate
  then consider "ev = []" "r' = r\<lparr>pn_counter := CoFlag\<rparr>"
    | g where "ev = []" "r' = r\<lparr>pn_counter := after_gate CoLoop CoGate CoFlag g\<rparr>"
    using assms(1) by (auto simp: counter_next_def gotos bind_eq_Some_conv split: if_split_asm)
  then show ?thesis
    by cases (use CoGate counter_pcs(1,2) in \<open>auto intro!: counter_goes(1) [OF assms(2)]\<close>)
next
  case CoLoop
  then consider "ev = []" "r' = r\<lparr>pn_counter := CoFlag\<rparr>"
    | x where "ev = []" "r' = r\<lparr>pn_counter := counter_polled i (pn_count r) x\<rparr>"
    using assms(1) by (auto simp: counter_next_def counter_poll_def gotos bind_eq_Some_conv split: if_split_asm)
  then show ?thesis
    by cases (use CoLoop counter_pcs(4,5) in \<open>auto intro!: counter_goes(1) [OF assms(2)]\<close>)
qed (use assms(1) in \<open>auto simp: counter_next_def counter_failed_def gotos bind_eq_Some_conv
      intro!: counter_goes [OF assms(2)]\<close>)

lemma counter_beside:
  assumes "counter_next w p i r = Some (r', ev)" "counter_ok r tr"
  shows "pn_sink r' = pn_sink r" "sn_sink_received (pn_stats r') = sn_sink_received (pn_stats r)"
    "sn_generated (pn_stats r') = sn_generated (pn_stats r)" "pn_done r \<longrightarrow> pn_done r' \<and> ev \<in> {[], [PePermit]}"
    "{PeReceive, PeGenerate, PeDrained} \<inter> set ev = {}" "count_list ev PePermit + ended_tasks r = ended_tasks r'"
proof -
  note defs = counter_next_def counter_poll_def counter_claim_def counter_update_def counter_failed_def
    counter_summary_def gotos bind_eq_Some_conv Let_def
  show "pn_sink r' = pn_sink r" using assms(1)
    by (cases "pn_counter r") (auto simp: defs split: if_split_asm option.split_asm nat.split_asm dest!: end_taskD)
  show "sn_sink_received (pn_stats r') = sn_sink_received (pn_stats r)" using assms(1)
    by (cases "pn_counter r") (auto simp: defs split: if_split_asm option.split_asm nat.split_asm dest!: end_taskD)
  show "sn_generated (pn_stats r') = sn_generated (pn_stats r)" using assms(1)
    by (cases "pn_counter r") (auto simp: defs split: if_split_asm option.split_asm nat.split_asm dest!: end_taskD)
  show "pn_done r \<longrightarrow> pn_done r' \<and> ev \<in> {[], [PePermit]}" using assms
    by (cases "pn_counter r") (auto simp: counter_ok_def counter_next_def dest!: end_taskD)
  show "{PeReceive, PeGenerate, PeDrained} \<inter> set ev = {}" using assms(1)
    by (cases "pn_counter r") (auto simp: defs split: if_split_asm option.split_asm nat.split_asm)
  show "count_list ev PePermit + ended_tasks r = ended_tasks r'" using assms(1)
    by (cases "pn_counter r")
      (auto simp: defs ended_tasks_def counter_pcs split: if_split_asm option.split_asm nat.split_asm dest!: end_taskD)
qed

lemma sink_ok_frame:
  assumes "sink_ok r tr" "pn_sink r' = pn_sink r" "sn_sink_received (pn_stats r') = sn_sink_received (pn_stats r)"
    "pn_done r \<longrightarrow> pn_done r' \<and> pulses ev = [] \<and> published ev = []" "PeReceive \<notin> set ev" "PeDrained \<notin> set ev"
  shows "sink_ok r' (tr @ ev)"
proof -
  have "late ev = []" using assms(6) by (auto simp: late_def dropWhile_eq_Nil_conv)
  then show ?thesis
    using assms by (auto simp: sink_ok_def late_append)
qed

lemma pipe_step_inv: "pipe_step w p x y \<Longrightarrow> pipe_inv w x \<Longrightarrow> pipe_inv w y"
proof (induction rule: pipe_step.induct)
  case (pipe_source i r r' ev tr)
  note b = source_beside [OF pipe_source(1)]
  have "sink_ok r' (tr @ ev)"
    using pipe_source(2) b(1-3) by (auto simp: pipe_inv_def beside_def intro!: sink_ok_frame)
  then show ?case
    using pipe_source(2) b(4,5) beside_counter_ok [OF b(1)] moves_reachable [OF source_moves [OF pipe_source(1)]]
    by (auto simp: pipe_inv_def bump_min)
next
  case (pipe_counter i r r' ev tr)
  have ok: "counter_ok r tr" using pipe_counter(2) by (simp add: pipe_inv_def)
  note b = counter_beside [OF pipe_counter(1) ok]
  have "sink_ok r' (tr @ ev)"
    using pipe_counter(2) b(1,2,4,5) by (auto simp: pipe_inv_def intro!: sink_ok_frame)
  then show ?case
    using pipe_counter(2) b(3,5,6) counter_next_ok [OF pipe_counter(1) ok] moves_reachable [OF counter_moves [OF pipe_counter(1)]]
    by (auto simp: pipe_inv_def)
next
  case (pipe_sink i r r' ev tr)
  note b = sink_beside [OF pipe_sink(1)]
  show ?case
    using pipe_sink(2) b(2,3,5) beside_counter_ok [OF b(1)] sink_next_ok [OF pipe_sink(1)]
      moves_reachable [OF sink_moves [OF pipe_sink(1)]]
    by (auto simp: pipe_inv_def)
next
  case (pipe_env r n tr)
  have ok: "counter_ok r tr" "sink_ok r tr" using pipe_env(2) by (simp_all add: pipe_inv_def)
  have "counter_ok (r\<lparr>pn_native := n\<rparr>) (tr @ [])" by (rule counter_ok_frame [OF ok(1)]) simp_all
  moreover have "sink_ok (r\<lparr>pn_native := n\<rparr>) (tr @ [])" by (rule sink_ok_frame [OF ok(2)]) simp_all
  ultimately have "counter_ok (r\<lparr>pn_native := n\<rparr>) tr" "sink_ok (r\<lparr>pn_native := n\<rparr>) tr" by simp_all
  then show ?case
    using pipe_env world.reachable_steps by (auto simp: pipe_inv_def along_def pn_world_def ended_tasks_def)
qed


section \<open>Setup keeps the World and returns what it took\<close>

lemma kept_pcall:
  assumes "kept w n m" "\<And>s r. f (nt_world m) = Some (s, r) \<Longrightarrow> world_op w (nt_world m) s"
  shows "rpost (\<lambda>n' r. kept w n n') (pcall f m)"
  using assms kept_trans [OF assms(1) kept_world] by (auto simp: rpost_def pcall_def)

lemma kept_activate_each: "kept w n m \<Longrightarrow> rpost (\<lambda>n' r. kept w n n') (activate_each w rs m)"
  by (induction rs arbitrary: m) (auto intro!: kept_rthen kept_pcall intro: pipe_ops)

lemma kept_with_leases:
  assumes "\<And>m. kept w n m \<Longrightarrow> rpost (\<lambda>n' r. kept w n n') (k m)" "kept w n m"
  shows "rpost (\<lambda>n' r. kept w n n') (with_leases j w owner k m)"
  using assms(2)
  by (induction j arbitrary: m) (auto intro!: kept_rthen kept_pcall kept_on_err assms(1) intro: pipe_ops kept_drops)

lemma kept_setup_pipeline: "kept w n m \<Longrightarrow> rpost (\<lambda>n' r. kept w n n') (setup_pipeline w owner target m)"
  unfolding setup_pipeline_def subscribe_target_def
  by (cases target; simp; intro kept_rthen kept_pcall kept_with_leases kept_activate_each) (auto intro: pipe_ops)

lemma start_counter_kept:
  assumes "start_counter w up parent interval window target n = Some (n', x)"
  shows "along w n n' \<and> slot_permits n = slot_permits n' + (if is_ok x then 3 else 0)"
proof -
  let ?m = "n\<lparr>nt_slots := nt_slots n - 3\<rparr>"
  let ?body = "rthen (pcall (allocate w Native parent) ?m) (\<lambda>n owner. on_err (stop_owner w owner) (setup_pipeline w owner target n))"
  have body: "rpost (\<lambda>n' r. kept w ?m n') ?body"
    by (intro kept_rthen kept_on_err kept_pcall kept_setup_pipeline) (auto intro: kept_drops pipe_ops)
  from assms consider e where "n' = n" "x = Inl e" | "3 \<le> nt_slots n" "on_err (\<lambda>n. Some (give_slots 3 n)) ?body = Some (n', x)"
    by (auto simp: start_counter_def permits_def rthen_def not_less split: if_split_asm)
  then show ?thesis
  proof cases
    case 2
    then obtain m where m: "?body = Some (m, x)" "n' = (if is_ok x then m else give_slots 3 m)"
      by (cases ?body) (auto simp: on_err_def split: sum.splits)
    then have "kept w ?m m" using body by (simp add: rpost_def)
    then have "slot_permits m = slot_permits ?m" "along w n m" by (simp_all add: kept_def owes_def along_def)
    then show ?thesis using m(2) 2(1) by (auto simp: slot_permits_def give_slots_def along_def)
  qed simp
qed

lemma start_counter_starts:
  assumes "world_reachable w (nt_world n)" "start_counter w up parent interval window target n = Some (m, Inr p)"
  shows "pipe_init w (pipe_start m, [])"
  using assms(1) start_counter_kept [OF assms(2)] world.reachable_steps by (auto simp: pipe_init_def along_def)

interpretation pipe: invariant_system "pipe_init w" "pipe_step w p" "pipe_inv w" for w p
proof unfold_locales
  show "pipe_init w x \<Longrightarrow> pipe_inv w x" for x
    by (auto simp: pipe_init_def pipe_inv_def pipe_start_def pn_world_def counter_ok_def sink_ok_def window_exact_def
        snapshot_zero_def published_count_def published_total_def i64_range_def late_def ended_tasks_def)
qed (rule pipe_step_inv)

section \<open>Properties\<close>

text \<open>C38. The reference pipeline accounts for every pulse. Under every interleaving of source, counter, sink and the rest
  of the program, aborts included: the statistics count exactly the pulses the counter took and the snapshots the sink
  took; while the counter is at work, the snapshots it has handed to \<^verbatim>\<open>publish_completion\<close> (which may refuse one, and the
  task goes on) and its open window hold exactly the accepted pulses, in number and in sum; a counter that returned
  because everything before it had ended has handed over all of them; every snapshot counts at least one pulse and
  fits its integers; and the sink returns as drained only after the counter has ended, after which no pulse is counted
  and no snapshot made. The World stays reachable, and each ended task has returned exactly one permit.\<close>

theorem counter_pipeline_conserves:
  assumes "reachable (pipe_init w) (pipe_step w p) (r, tr)"
  shows "sn_processed (pn_stats r) = length (pulses tr) \<and> sn_sink_received (pn_stats r) = count_list tr PeReceive
    \<and> (counting (pn_counter r) \<longrightarrow> published_count tr + pn_count r = length (pulses tr)
         \<and> published_total tr + pn_total r = sum_list (pulses tr))
    \<and> (PeSettled \<in> set tr \<longrightarrow> published_count tr = length (pulses tr) \<and> published_total tr = sum_list (pulses tr))
    \<and> list_all sound_snapshot (published tr)
    \<and> (PeDrained \<in> set tr \<longrightarrow> pn_counter r = CoDrop \<or> pn_counter r = CoOver)
    \<and> pulses (late tr) = [] \<and> published (late tr) = []
    \<and> world_reachable w (pn_world r) \<and> count_list tr PePermit = ended_tasks r"
proof -
  have inv: "world_reachable w (pn_world r)" "counter_ok r tr" "sink_ok r tr" "count_list tr PePermit = ended_tasks r"
    using pipe.reachable_invar [OF assms] by (simp_all add: pipe_inv_def)
  have "counter_phase (pn_counter r) r tr" using inv(2) by (simp add: counter_ok_def)
  then have "counting (pn_counter r) \<longrightarrow> window_exact r tr" "PeSettled \<in> set tr \<longrightarrow> all_published tr"
    by (cases "pn_counter r"; simp)+
  then show ?thesis
    using inv unfolding counter_ok_def sink_ok_def window_exact_def all_published_def by blast
qed

text \<open>A pipeline whose actors are all the demo actor: its counter takes the pulse that waits there.\<close>

definition demo_pipeline :: counter_pipeline where
  "demo_pipeline = \<lparr>cp_owner = demo_ref, cp_source = demo_ref, cp_counter = demo_ref, cp_sink = demo_ref\<rparr>"

definition demo_pipe :: "state \<Rightarrow> counter_pc \<Rightarrow> pipe_run" where
  "demo_pipe s pc = (pipe_start (demo_native\<lparr>nt_world := s\<rparr>))\<lparr>pn_counter := pc\<rparr>"

lemma demo_pipe_claim:
  "execution_state demo_world demo_ref demo_queued = Some (Inr Active)"
  "\<exists>l. claim demo_world demo_ref demo_queued = Some (demo_claimed, Inr (Some l)) \<and> lease_payload l = Pulse 7"
  by (simp_all add: demo_claimed_def demo_queued_def demo_send_eval claim_def running_def pop_delivery_def
      remove_deadline_def screen_delivery_def due_def check_upd_def adl_add_def adl_remove_def execution_state_def lease_payload_def)

lemma demo_pipe_run:
  "\<exists>r. reachable (pipe_init demo_world) (pipe_step demo_world demo_pipeline) (r, [PePulse 7])
     \<and> counting (pn_counter r) \<and> pn_count r = 1 \<and> pn_total r = 7"
proof -
  obtain l where l: "claim demo_world demo_ref demo_queued = Some (demo_claimed, Inr (Some l))" "lease_payload l = Pulse 7"
    using demo_pipe_claim(2) by blast
  let ?ok = "reachable (pipe_init demo_world) (pipe_step demo_world demo_pipeline)"
  note eval = counter_next_def counter_poll_def counter_claim_def counter_update_def counter_polled_def counter_claimed_def
    counted_def pulse_value_def ready_look_def after_gate_def gotos demo_pipe_def demo_pipeline_def pipe_start_def pn_world_def
    put_world_def
  have go: "?ok (r, tr) \<Longrightarrow> counter_next demo_world demo_pipeline i r = Some (r', ev) \<Longrightarrow> ?ok (r', tr @ ev)" for r r' i tr ev
    by (rule reachable_step, assumption, rule pipe_counter)
  have "pipe_init demo_world (demo_pipe demo_queued CoGate, [])"
    using demo_reachable by (auto simp: pipe_init_def demo_pipe_def pipe_start_def)
  then have "?ok (demo_pipe demo_queued CoGate, [])" by (rule reachable_init)
  moreover have "counter_next demo_world demo_pipeline PiCheck (demo_pipe demo_queued CoGate) = Some (demo_pipe demo_queued CoLoop, [])"
    using demo_pipe_claim(1) by (simp add: eval)
  ultimately have "?ok (demo_pipe demo_queued CoLoop, [])" by (auto dest: go)
  moreover have "counter_next demo_world demo_pipeline PiCheck (demo_pipe demo_queued CoLoop)
      = Some (demo_pipe demo_queued (CoBatch 32 Active), [])"
    using demo_pipe_claim(1) by (simp add: eval BATCH_def)
  ultimately have "?ok (demo_pipe demo_queued (CoBatch 32 Active), [])" by (auto dest: go)
  moreover have "counter_next demo_world demo_pipeline PiCheck (demo_pipe demo_queued (CoBatch 32 Active))
      = Some (demo_pipe demo_claimed (CoUpdate 31 Active l), [])"
    using l by (simp add: eval)
  ultimately have "?ok (demo_pipe demo_claimed (CoUpdate 31 Active l), [])" by (auto dest: go)
  moreover obtain r where r: "counter_next demo_world demo_pipeline PiCheck (demo_pipe demo_claimed (CoUpdate 31 Active l))
      = Some (r, [PePulse 7])" "pn_counter r = CoFinish 31 Active l" "pn_count r = 1" "pn_total r = 7"
    using l(2) by (simp add: eval checked_add_def i64_checked_add_def u64_max_def)
  ultimately have "?ok (r, [PePulse 7])" using go by fastforce
  then show ?thesis using r by (intro exI [of _ r]) simp
qed

theorem counter_pipeline_conserves_witness:
  "\<exists>r. reachable (pipe_init demo_world) (pipe_step demo_world demo_pipeline) (r, [PePulse 7])
     \<and> sn_processed (pn_stats r) = 1 \<and> published_count [PePulse 7] + pn_count r = 1
     \<and> world_reachable demo_world (pn_world r)"
proof -
  obtain r where r: "reachable (pipe_init demo_world) (pipe_step demo_world demo_pipeline) (r, [PePulse 7])"
      "counting (pn_counter r)"
    using demo_pipe_run by blast
  from counter_pipeline_conserves [OF r(1)] r show ?thesis by (intro exI [of _ r]) auto
qed

end
