(* ===== verification/Native_Executor.thy ===== *)
theory Native_Executor
  imports Native_Pipeline
begin

text \<open>
  \<^verbatim>\<open>NativeRuntime\<close> of \<^verbatim>\<open>crates/runtime-native/src/lib.rs\<close>: what its constructor accepts, its permits, the routing service,
  the staged \<^verbatim>\<open>close\<close> and the wait for idleness. The async runtime is third-party code: the model keeps whether it is
  there, whether the routing and control tasks are, and the permits of the semaphore. While \<^verbatim>\<open>close\<close> waits, tasks end
  and the World moves.
\<close>

section \<open>Construction\<close>

record executor =
  xr_native :: native
  xr_max :: nat
  xr_up :: bool
  xr_control :: bool
  xr_routing :: bool
  xr_timed_out :: bool

text \<open>\<^verbatim>\<open>new_with_cpu_config\<close>; \<open>virtual\<close> is \<^verbatim>\<open>world.is_virtual()\<close>, \<open>built\<close> the outcome of the runtime builder.\<close>

definition executor_new ::
  "bool \<Rightarrow> nat \<Rightarrow> nat \<Rightarrow> nat \<Rightarrow> string + unit \<Rightarrow> state \<Rightarrow> runtime_error + executor" where
  "executor_new virtual max_tasks workers max_jobs built s =
     (if virtual then Inl (ReText ''a virtual World requires the explicitly driven test runtime'')
      else if max_tasks = 0 \<or> max_tasks > 65536 then Inl (ReText ''native task limit must be in 1..65536'')
      else if \<not> cpu_config_ok workers max_jobs
      then Inl (ReText ''CPU workers must be in 1..64 and max_jobs in 1..4096'')
      else case built of
        Inl e \<Rightarrow> Inl (ReText e)
      | Inr _ \<Rightarrow>
          Inr \<lparr>xr_native = \<lparr>nt_world = s, nt_stats = stats_zero, nt_jobs = 0, nt_slots = max_tasks, nt_slots_closed = False,
                             nt_cpu = Some (cpu_new workers max_jobs), nt_tasks = []\<rparr>,
               xr_max = max_tasks, xr_up = True, xr_control = True, xr_routing = True, xr_timed_out = False\<rparr>)"

definition active_tasks :: "executor \<Rightarrow> nat" where
  "active_tasks x = xr_max x - nt_slots (xr_native x)"

definition executor_permits :: "nat \<Rightarrow> executor \<Rightarrow> (executor \<times> (runtime_error + unit)) option" where
  "executor_permits k x = map_option (\<lambda>(n, r). (x\<lparr>xr_native := n\<rparr>, r)) (permits (xr_up x) k (xr_native x))"

section \<open>The routing service\<close>

text \<open>\<^verbatim>\<open>routing_service\<close>: waiting for the readiness signal, routing a batch, yielding, ended. Its waker is \<open>incoming\<close>.\<close>

datatype routing_pc = RsWait | RsRoute | RsYield | RsOver

definition routing_next :: "inner \<Rightarrow> nat \<Rightarrow> routing_pc \<Rightarrow> state \<Rightarrow> (routing_pc \<times> state) option" where
  "routing_next w incoming pc s =
     (case pc of
        RsWait \<Rightarrow>
          (let (s1, x) = poll_routing_ready incoming s
           in Some (case x of Pending \<Rightarrow> RsWait | Ready (Inl e) \<Rightarrow> RsOver | Ready (Inr u) \<Rightarrow> RsRoute, s1))
      | RsRoute \<Rightarrow> map_option (\<lambda>(s1, _). (RsYield, s1)) (route_batch w s)
      | RsYield \<Rightarrow> Some (RsWait, s)
      | RsOver \<Rightarrow> None)"

text \<open>One turn of the control task: \<^verbatim>\<open>control_world.maintain(Instant::now())\<close>.\<close>

definition control_turn :: "inner \<Rightarrow> instant \<Rightarrow> state \<Rightarrow> state option" where
  "control_turn w now s = maintain w now s"

section \<open>Close\<close>

text \<open>\<^verbatim>\<open>close\<close>: before its deadline is computed, before the World is closed, before the runtime's tasks are aborted and
  its semaphore closed, in the wait loop, after it, before the final report, returned. The initial report is kept.\<close>

datatype close_pc =
    ClBegin duration
  | ClClose instant
  | ClFence instant stop_report
  | ClWait instant stop_report
  | ClJudge stop_report
  | ClReport stop_report
  | ClDone "runtime_error + stop_report"

definition late_report :: "executor \<Rightarrow> stop_report \<Rightarrow> stop_report" where
  "late_report x p = p\<lparr>sp_timed_out := sp_timed_out p \<or> xr_timed_out x\<rparr>"

text \<open>\<open>now\<close> is what \<^verbatim>\<open>Instant::now()\<close> returns in this step, \<open>instant_max\<close> the largest instant of the platform.\<close>

definition close_next ::
  "inner \<Rightarrow> instant \<Rightarrow> instant \<Rightarrow> close_pc \<Rightarrow> executor \<Rightarrow> (close_pc \<times> executor) option" where
  "close_next w instant_max now pc x =
     (case pc of
        ClBegin timeout \<Rightarrow>
          Some (case checked_add instant_max now timeout of
                  None \<Rightarrow> ClDone (Inl (ReText ''shutdown duration overflow''))
                | Some deadline \<Rightarrow> ClClose deadline, x)
      | ClClose deadline \<Rightarrow>
          map_option (\<lambda>(s, p). (ClFence deadline p, x\<lparr>xr_native := (xr_native x)\<lparr>nt_world := s\<rparr>\<rparr>))
            (close w (nt_world (xr_native x)))
      | ClFence deadline p \<Rightarrow>
          (let y = x\<lparr>xr_routing := False, xr_control := False, xr_native := (xr_native x)\<lparr>nt_slots_closed := True\<rparr>\<rparr>
           in if xr_up x then Some (ClWait deadline p, y\<lparr>xr_up := False\<rparr>)
              else Some (ClDone (Inr (late_report x p)), y))
      | ClWait deadline p \<Rightarrow>
          Some (if active_tasks x > 0 \<and> now < deadline then ClWait deadline p else ClJudge p, x)
      | ClJudge p \<Rightarrow> Some (ClReport p, x\<lparr>xr_timed_out := xr_timed_out x \<or> active_tasks x > 0\<rparr>)
      | ClReport p \<Rightarrow>
          Some (ClDone (Inr (late_report x
            ((world_report_locked (nt_world (xr_native x)))\<lparr>sp_discarded := sp_discarded p\<rparr>))), x)
      | ClDone r \<Rightarrow> None)"

text \<open>\<^verbatim>\<open>wait_native_idle\<close>.\<close>

datatype idle_pc = IdBegin duration | IdLook instant | IdTime instant | IdMaintain | IdDone bool

definition idle_next ::
  "inner \<Rightarrow> instant \<Rightarrow> instant \<Rightarrow> idle_pc \<Rightarrow> executor \<Rightarrow> (idle_pc \<times> executor) option" where
  "idle_next w instant_max now pc x =
     (case pc of
        IdBegin timeout \<Rightarrow>
          Some (case checked_add instant_max now timeout of None \<Rightarrow> IdDone False | Some deadline \<Rightarrow> IdLook deadline, x)
      | IdLook deadline \<Rightarrow>
          Some (if active_tasks x > 0 \<or> routing_pending (nt_world (xr_native x)) > 0 then IdTime deadline else IdMaintain, x)
      | IdTime deadline \<Rightarrow> Some (if now \<ge> deadline then IdDone False else IdLook deadline, x)
      | IdMaintain \<Rightarrow>
          map_option (\<lambda>s. (IdDone True, x\<lparr>xr_native := (xr_native x)\<lparr>nt_world := s\<rparr>\<rparr>)) (maintain w now (nt_world (xr_native x)))
      | IdDone b \<Rightarrow> None)"

section \<open>The life of a runtime\<close>

text \<open>What the rest of the program does to the runtime: it moves the World, returns permits, and takes permits while the
  semaphore is open.\<close>

definition executor_env :: "inner \<Rightarrow> executor \<Rightarrow> native \<Rightarrow> bool" where
  "executor_env w x n \<longleftrightarrow> along w (xr_native x) n \<and> nt_slots n \<le> xr_max x
     \<and> nt_slots_closed n = nt_slots_closed (xr_native x)
     \<and> (nt_slots_closed n \<longrightarrow> nt_slots (xr_native x) \<le> nt_slots n)"

text \<open>A runtime with a \<^verbatim>\<open>close\<close> under way or not; a call of \<^verbatim>\<open>wait_native_idle\<close> with its own position.\<close>

record life =
  lf_executor :: executor
  lf_close :: "close_pc option"
  lf_idle :: "idle_pc option"

inductive life_step :: "inner \<Rightarrow> instant \<Rightarrow> life \<Rightarrow> life \<Rightarrow> bool" for w instant_max where
  life_env: "executor_env w (lf_executor l) n \<Longrightarrow>
    life_step w instant_max l (l\<lparr>lf_executor := (lf_executor l)\<lparr>xr_native := n\<rparr>\<rparr>)"
| life_permits: "executor_permits k (lf_executor l) = Some (x, r) \<Longrightarrow> life_step w instant_max l (l\<lparr>lf_executor := x\<rparr>)"
| life_enter: "lf_close l = None \<or> lf_close l = Some (ClDone r) \<Longrightarrow>
    life_step w instant_max l (l\<lparr>lf_close := Some (ClBegin timeout)\<rparr>)"
| life_close: "lf_close l = Some pc \<Longrightarrow> close_next w instant_max now pc (lf_executor l) = Some (pc', x) \<Longrightarrow>
    life_step w instant_max l (l\<lparr>lf_executor := x, lf_close := Some pc'\<rparr>)"
| life_wait: "lf_idle l = None \<or> lf_idle l = Some (IdDone b) \<Longrightarrow>
    life_step w instant_max l (l\<lparr>lf_idle := Some (IdBegin timeout)\<rparr>)"
| life_idle: "lf_idle l = Some pc \<Longrightarrow> idle_next w instant_max now pc (lf_executor l) = Some (pc', x) \<Longrightarrow>
    life_step w instant_max l (l\<lparr>lf_executor := x, lf_idle := Some pc'\<rparr>)"

definition life_init :: "inner \<Rightarrow> life \<Rightarrow> bool" where
  "life_init w l \<longleftrightarrow> (\<exists>virtual max_tasks workers max_jobs built s x. world_reachable w s
     \<and> executor_new virtual max_tasks workers max_jobs built s = Inr x
     \<and> l = \<lparr>lf_executor = x, lf_close = None, lf_idle = None\<rparr>)"

text \<open>A runtime that is gone has a closed semaphore and no tasks of its own; once \<^verbatim>\<open>close\<close> has judged that no task was left,
  none is left, and none will come.\<close>

fun judged :: "close_pc \<Rightarrow> bool" where
  "judged (ClReport p) = True"
| "judged (ClDone (Inr p)) = True"
| "judged _ = False"

definition shut :: "executor \<Rightarrow> bool" where
  "shut x \<longleftrightarrow> \<not> xr_up x \<and> \<not> xr_routing x \<and> \<not> xr_control x \<and> nt_slots_closed (xr_native x)"

fun waiting :: "close_pc option \<Rightarrow> bool" where
  "waiting (Some (ClWait d p)) = True"
| "waiting (Some (ClJudge p)) = True"
| "waiting _ = False"

definition life_inv :: "inner \<Rightarrow> life \<Rightarrow> bool" where
  "life_inv w l \<longleftrightarrow> (let x = lf_executor l in
     world_reachable w (nt_world (xr_native x))
     \<and> 1 \<le> xr_max x \<and> xr_max x \<le> 65536 \<and> nt_slots (xr_native x) \<le> xr_max x
     \<and> (xr_up x \<or> shut x) \<and> (xr_up x \<longrightarrow> \<not> xr_timed_out x)
     \<and> (waiting (lf_close l) \<longrightarrow> \<not> xr_up x)
     \<and> (\<not> xr_up x \<and> \<not> waiting (lf_close l) \<and> \<not> xr_timed_out x \<longrightarrow> active_tasks x = 0)
     \<and> (\<forall>pc. lf_close l = Some pc \<and> judged pc \<longrightarrow> shut x)
     \<and> (\<forall>p. lf_close l = Some (ClDone (Inr p)) \<and> xr_timed_out x \<longrightarrow> sp_timed_out p))"


section \<open>What holds through the life of a runtime\<close>

lemma executor_calls:
  "close w s = Some (t, x1) \<Longrightarrow> world_op w s t" "maintain w now s = Some t \<Longrightarrow> world_op w s t"
  "route_batch w s = Some (t, x2) \<Longrightarrow> world_op w s t" "poll_routing_ready incoming s = (t, x3) \<Longrightarrow> world_op w s t"
  by (auto simp: world_op_def intro: work_op.intros)

lemma world_moves: "world_reachable w s \<Longrightarrow> world_op w s t \<Longrightarrow> world_reachable w t"
  by (rule reachable_step)

lemma routing_next_world:
  "routing_next w incoming pc s = Some (pc', t) \<Longrightarrow> t = s \<or> world_op w s t"
  by (auto simp: routing_next_def dest: executor_calls split: routing_pc.split_asm prod.split_asm)

lemma executor_new_ok:
  assumes "executor_new virtual max_tasks workers max_jobs built s = Inr x"
  shows "nt_world (xr_native x) = s" "xr_max x = max_tasks" "1 \<le> max_tasks" "max_tasks \<le> 65536" "nt_slots (xr_native x) = max_tasks"
    "xr_up x" "\<not> xr_timed_out x" "\<not> nt_slots_closed (xr_native x)"
  using assms by (auto simp: executor_new_def split: if_split_asm sum.split_asm)

lemma executor_permits_cases:
  assumes "executor_permits k x = Some (y, r)"
  shows "y = x \<or> xr_up x \<and> \<not> nt_slots_closed (xr_native x) \<and> k \<le> nt_slots (xr_native x)
    \<and> y = x\<lparr>xr_native := (xr_native x)\<lparr>nt_slots := nt_slots (xr_native x) - k\<rparr>\<rparr>"
proof -
  from assms obtain n where n: "permits (xr_up x) k (xr_native x) = Some (n, r)" "y = x\<lparr>xr_native := n\<rparr>"
    unfolding executor_permits_def by fastforce
  from n(1) have "n = xr_native x \<or> xr_up x \<and> \<not> nt_slots_closed (xr_native x) \<and> k \<le> nt_slots (xr_native x)
      \<and> n = (xr_native x)\<lparr>nt_slots := nt_slots (xr_native x) - k\<rparr>"
    unfolding permits_def by (auto split: if_split_asm)
  then show ?thesis using n(2) by auto
qed

lemma active_tasks_update [simp]:
  "active_tasks (x\<lparr>xr_native := (xr_native x)\<lparr>nt_world := s\<rparr>\<rparr>) = active_tasks x"
  "active_tasks (x\<lparr>xr_timed_out := b\<rparr>) = active_tasks x"
  by (simp_all add: active_tasks_def)

lemma close_next_inv:
  assumes "life_inv w l" "lf_close l = Some pc" "close_next w instant_max now pc (lf_executor l) = Some (pc', x)"
  shows "life_inv w (l\<lparr>lf_executor := x, lf_close := Some pc'\<rparr>)"
proof (cases pc)
  case (ClBegin timeout)
  then show ?thesis
    using assms by (cases "checked_add instant_max now timeout") (auto simp: close_next_def life_inv_def Let_def)
next
  case (ClClose deadline)
  then obtain s p where s: "close w (nt_world (xr_native (lf_executor l))) = Some (s, p)" "pc' = ClFence deadline p"
      "x = (lf_executor l)\<lparr>xr_native := (xr_native (lf_executor l))\<lparr>nt_world := s\<rparr>\<rparr>"
    using assms(3) by (auto simp: close_next_def)
  then show ?thesis
    using assms(1,2) ClClose world_moves [OF _ executor_calls(1) [OF s(1)]] by (auto simp: life_inv_def Let_def shut_def)
next
  case (ClFence deadline p)
  define y where "y = (lf_executor l)\<lparr>xr_routing := False, xr_control := False,
    xr_native := (xr_native (lf_executor l))\<lparr>nt_slots_closed := True\<rparr>\<rparr>"
  have y: "nt_world (xr_native y) = nt_world (xr_native (lf_executor l))" "active_tasks y = active_tasks (lf_executor l)"
      "xr_max y = xr_max (lf_executor l)" "nt_slots (xr_native y) = nt_slots (xr_native (lf_executor l))"
      "xr_up y = xr_up (lf_executor l)" "xr_timed_out y = xr_timed_out (lf_executor l)" "\<not> xr_routing y" "\<not> xr_control y"
      "nt_slots_closed (xr_native y)"
    by (simp_all add: y_def active_tasks_def)
  have "pc' = ClWait deadline p \<and> x = y\<lparr>xr_up := False\<rparr>
      \<or> \<not> xr_up y \<and> pc' = ClDone (Inr (late_report (lf_executor l) p)) \<and> x = y"
    using assms(3) ClFence by (auto simp: close_next_def y_def Let_def split: if_split_asm)
  then show ?thesis
    using assms(1,2) ClFence y by (auto simp: life_inv_def Let_def shut_def late_report_def active_tasks_def)
next
  case (ClWait deadline p)
  then show ?thesis
    using assms by (auto simp: close_next_def life_inv_def Let_def shut_def split: if_split_asm)
next
  case (ClJudge p)
  then show ?thesis
    using assms by (auto simp: close_next_def life_inv_def Let_def shut_def)
next
  case (ClReport p)
  then show ?thesis
    using assms by (auto simp: close_next_def life_inv_def Let_def shut_def late_report_def)
qed (use assms in \<open>simp add: close_next_def\<close>)

lemma life_inv_native:
  assumes "life_inv w l" "executor_env w (lf_executor l) n"
  shows "life_inv w (l\<lparr>lf_executor := (lf_executor l)\<lparr>xr_native := n\<rparr>\<rparr>)"
proof -
  have "world_reachable w (nt_world n)"
    using assms world.reachable_steps by (auto simp: executor_env_def along_def life_inv_def Let_def)
  then show ?thesis
    using assms by (auto simp: life_inv_def Let_def shut_def active_tasks_def executor_env_def)
qed

lemma life_inv_idle: "life_inv w (l\<lparr>lf_idle := y\<rparr>) = life_inv w l"
  by (simp add: life_inv_def)

lemma idle_next_env:
  assumes "idle_next w instant_max now pc x = Some (pc', y)" "nt_slots (xr_native x) \<le> xr_max x"
  obtains n where "executor_env w x n" "y = x\<lparr>xr_native := n\<rparr>"
proof -
  have "\<exists>s. y = x\<lparr>xr_native := (xr_native x)\<lparr>nt_world := s\<rparr>\<rparr> \<and> (s = nt_world (xr_native x) \<or> world_op w (nt_world (xr_native x)) s)"
  proof (cases pc)
    case IdMaintain
    then show ?thesis using assms(1) executor_calls(2) by (auto simp: idle_next_def)
  qed (use assms(1) in \<open>auto simp: idle_next_def intro!: exI [of _ "nt_world (xr_native x)"]\<close>)
  then obtain s where s: "y = x\<lparr>xr_native := (xr_native x)\<lparr>nt_world := s\<rparr>\<rparr>"
      "s = nt_world (xr_native x) \<or> world_op w (nt_world (xr_native x)) s" by blast
  then show thesis
    using assms(2) by (intro that [of "(xr_native x)\<lparr>nt_world := s\<rparr>"]) (auto simp: executor_env_def along_def)
qed

lemma life_step_inv: "life_step w instant_max l l' \<Longrightarrow> life_inv w l \<Longrightarrow> life_inv w l'"
proof (induction rule: life_step.induct)
  case (life_env l n)
  then show ?case by (rule life_inv_native [rotated])
next
  case (life_permits k l x r)
  then show ?case using executor_permits_cases [OF life_permits(1)] by (auto simp: life_inv_def Let_def shut_def)
next
  case (life_enter l r timeout)
  then show ?case by (auto simp: life_inv_def Let_def)
next
  case (life_close l pc now pc' x)
  then show ?case by (rule close_next_inv [rotated])
next
  case (life_wait l b timeout)
  then show ?case by (simp add: life_inv_idle)
next
  case (life_idle l pc now pc' x)
  have "nt_slots (xr_native (lf_executor l)) \<le> xr_max (lf_executor l)" using life_idle(3) by (simp add: life_inv_def Let_def)
  then obtain n where n: "executor_env w (lf_executor l) n" "x = (lf_executor l)\<lparr>xr_native := n\<rparr>"
    by (rule idle_next_env [OF life_idle(2)])
  show ?case using life_inv_native [OF life_idle(3) n(1)] by (simp add: n(2) life_inv_idle)
qed

interpretation life: invariant_system "life_init w" "life_step w instant_max" "life_inv w" for w instant_max
proof unfold_locales
  fix l
  assume "life_init w l"
  then obtain virtual max_tasks workers max_jobs built s x where l: "world_reachable w s"
      "executor_new virtual max_tasks workers max_jobs built s = Inr x" "l = \<lparr>lf_executor = x, lf_close = None, lf_idle = None\<rparr>"
    by (auto simp: life_init_def)
  then show "life_inv w l" using executor_new_ok [OF l(2)] by (simp add: life_inv_def Let_def active_tasks_def)
qed (rule life_step_inv)

section \<open>Properties\<close>

text \<open>C39. A runtime closes for good. In every reachable state of a runtime, whatever the tasks, the callers and the clock
  do: the permits out never exceed the limit it was built with; when a \<^verbatim>\<open>close\<close> has returned a report, the routing and
  control tasks are aborted and no permit will ever be granted again; a report that does not say \<^verbatim>\<open>timed_out\<close> means that
  no native task is running, then and at any later time; and a shutdown that timed out once is reported as such by every later
  \<^verbatim>\<open>close\<close>.\<close>

theorem runtime_close_final:
  assumes "reachable (life_init w) (life_step w instant_max) l"
  shows "active_tasks (lf_executor l) \<le> xr_max (lf_executor l) \<and> xr_max (lf_executor l) \<le> 65536
    \<and> (\<forall>p. lf_close l = Some (ClDone (Inr p)) \<longrightarrow>
         shut (lf_executor l)
         \<and> (\<not> sp_timed_out p \<longrightarrow> active_tasks (lf_executor l) = 0 \<and> \<not> xr_timed_out (lf_executor l))
         \<and> (\<forall>k. \<exists>e. executor_permits k (lf_executor l) = Some (lf_executor l, Inl e)))
    \<and> (xr_timed_out (lf_executor l) \<longrightarrow> shut (lf_executor l)
         \<and> (\<forall>p. lf_close l = Some (ClDone (Inr p)) \<longrightarrow> sp_timed_out p))
    \<and> world_reachable w (nt_world (xr_native (lf_executor l)))"
proof -
  have inv: "life_inv w l" by (rule life.reachable_invar [OF assms])
  have "\<exists>e. executor_permits k (lf_executor l) = Some (lf_executor l, Inl e)" if "\<not> xr_up (lf_executor l)" for k
    using that by (simp add: executor_permits_def permits_def)
  then show ?thesis
    using inv by (auto simp: life_inv_def Let_def shut_def active_tasks_def)
qed



text \<open>A runtime over the fresh demo World is built and closed.\<close>

definition demo_executor :: executor where
  "demo_executor = projr (executor_new False 4 1 1 (Inr ()) demo_new)"

lemma demo_executor_new: "executor_new False 4 1 1 (Inr ()) demo_new = Inr demo_executor"
  by (simp add: demo_executor_def executor_new_def cpu_config_ok_def)

lemma demo_close: "\<exists>s p. close demo_world demo_new = Some (s, p)"
  by (simp add: close_def close_locked_def demo_base close_routing_locked_def root_refs_def all_actors_def)

fun close_run :: "inner \<Rightarrow> instant \<Rightarrow> nat \<Rightarrow> close_pc \<times> executor \<Rightarrow> (close_pc \<times> executor) option" where
  "close_run w mx 0 y = Some y"
| "close_run w mx (Suc k) y = Option.bind (close_next w mx 0 (fst y) (snd y)) (close_run w mx k)"

lemma close_run_reachable:
  assumes "close_run w mx k (pc, x) = Some (pc', x')" "reachable (life_init w) (life_step w mx) l"
    "lf_close l = Some pc" "lf_executor l = x"
  shows "\<exists>l'. reachable (life_init w) (life_step w mx) l' \<and> lf_close l' = Some pc' \<and> lf_executor l' = x'"
  using assms
proof (induction k arbitrary: pc x l)
  case (Suc k)
  then obtain qc y where y: "close_next w mx 0 pc x = Some (qc, y)" "close_run w mx k (qc, y) = Some (pc', x')"
    by (auto simp: bind_eq_Some_conv)
  have "life_step w mx l (l\<lparr>lf_executor := y, lf_close := Some qc\<rparr>)"
    using Suc.prems(3,4) y(1) by (intro life_close) simp_all
  then have "reachable (life_init w) (life_step w mx) (l\<lparr>lf_executor := y, lf_close := Some qc\<rparr>)"
    by (rule reachable_step [OF Suc.prems(2)])
  then show ?case by (rule Suc.IH [OF y(2)]) simp_all
qed auto

lemma demo_close_run:
  "\<exists>p x. close_run demo_world 100 6 (ClBegin 5, demo_executor) = Some (ClDone (Inr p), x) \<and> xr_timed_out x = False"
proof -
  obtain s p where s: "close demo_world demo_new = Some (s, p)" using demo_close by blast
  have e: "demo_executor = \<lparr>xr_native = \<lparr>nt_world = demo_new, nt_stats = stats_zero, nt_jobs = 0, nt_slots = 4,
      nt_slots_closed = False, nt_cpu = Some (cpu_new 1 1), nt_tasks = []\<rparr>, xr_max = 4, xr_up = True, xr_control = True,
      xr_routing = True, xr_timed_out = False\<rparr>"
    by (simp add: demo_executor_def executor_new_def cpu_config_ok_def)
  show ?thesis
    by (simp add: e close_next_def s checked_add_def active_tasks_def eval_nat_numeral)
qed

theorem runtime_close_final_witness:
  "\<exists>l p. reachable (life_init demo_world) (life_step demo_world 100) l \<and> lf_close l = Some (ClDone (Inr p))
     \<and> shut (lf_executor l) \<and> (\<exists>e. executor_permits 1 (lf_executor l) = Some (lf_executor l, Inl e))"
proof -
  let ?l = "\<lparr>lf_executor = demo_executor, lf_close = None, lf_idle = None\<rparr>"
  have "life_init demo_world ?l"
    using demo_reachable(1) demo_executor_new unfolding life_init_def by blast
  then have "reachable (life_init demo_world) (life_step demo_world 100) (?l\<lparr>lf_close := Some (ClBegin 5)\<rparr>)"
    by (rule reachable_step [OF reachable_init]) (rule life_enter, simp)
  moreover obtain p x where x: "close_run demo_world 100 6 (ClBegin 5, demo_executor) = Some (ClDone (Inr p), x)"
    using demo_close_run by blast
  ultimately obtain l where l: "reachable (life_init demo_world) (life_step demo_world 100) l" "lf_close l = Some (ClDone (Inr p))"
    using close_run_reachable [OF x] by fastforce
  from runtime_close_final [OF l(1)] l show ?thesis by blast
qed

end
