(* ===== verification/Native_Controls.thy ===== *)
theory Native_Controls
  imports Native_Builtins
begin

text \<open>
  Externally completed requests, \<^verbatim>\<open>crates/runtime-native/src/controls.rs\<close>: a bounded registry from pending operations to
  the sending ends of one-shot channels, filled by the handler of the component and emptied by \<^verbatim>\<open>complete\<close>, by the
  guard of a job, or by a failed admission. A call of \<^verbatim>\<open>complete\<close> locks the registry twice with a World call in
  between, so other calls and the component may move between any two of its steps. The \<^verbatim>\<open>HashMap\<close> is an ordered
  association list, whose order is never observed: \<^verbatim>\<open>pending\<close> sorts.
\<close>

section \<open>Channels and registry\<close>

text \<open>A one-shot channel: the value sent and not yet received, and which ends are alive.\<close>

record chan =
  ch_value :: "held_payload option"
  ch_sender :: bool
  ch_receiver :: bool

record registry =
  rg_limit :: nat
  rg_entries :: "(operation_id \<times> actor_ref \<times> nat) list"
  rg_chans :: "chan list"

definition controls_new :: "nat \<Rightarrow> registry native_result" where
  "controls_new limit =
     (if \<not> (1 \<le> limit \<and> limit \<le> 65536) then Inl (NeLimit ''controlled replies'')
      else Inr \<lparr>rg_limit = limit, rg_entries = [], rg_chans = []\<rparr>)"

definition upd_chan :: "nat \<Rightarrow> (chan \<Rightarrow> chan) \<Rightarrow> registry \<Rightarrow> registry" where
  "upd_chan i f rg = rg\<lparr>rg_chans := (rg_chans rg)[i := f (rg_chans rg ! i)]\<rparr>"

text \<open>\<^verbatim>\<open>oneshot::channel()\<close> and \<^verbatim>\<open>register\<close>. A refused sender is dropped, and the caller drops the receiver.\<close>

definition register_reply :: "operation_id \<Rightarrow> actor_ref \<Rightarrow> registry \<Rightarrow> registry \<times> bool" where
  "register_reply oid owner rg =
     (let i = length (rg_chans rg)
      in if length (rg_entries rg) \<ge> rg_limit rg \<or> bm_get (rg_entries rg) oid \<noteq> None
         then (rg\<lparr>rg_chans := rg_chans rg @ [\<lparr>ch_value = None, ch_sender = False, ch_receiver = False\<rparr>]\<rparr>, False)
         else (rg\<lparr>rg_chans := rg_chans rg @ [\<lparr>ch_value = None, ch_sender = True, ch_receiver = True\<rparr>],
                  rg_entries := bm_insert oid (owner, i) (rg_entries rg)\<rparr>, True))"

definition remove_reply :: "operation_id \<Rightarrow> registry \<Rightarrow> registry" where
  "remove_reply oid rg =
     (case bm_get (rg_entries rg) oid of
        None \<Rightarrow> rg
      | Some (owner, i) \<Rightarrow>
          upd_chan i (\<lambda>c. c\<lparr>ch_sender := False\<rparr>) (rg\<lparr>rg_entries := bm_remove oid (rg_entries rg)\<rparr>))"

definition pending_replies :: "registry \<Rightarrow> operation_id list" where
  "pending_replies rg =
     sort_key op_world (sort_key op_slot (sort_key op_generation (map fst (rg_entries rg))))"

section \<open>Completing\<close>

datatype complete_pc =
    CcStatus
  | CcLook
  | CcHold
  | CcTake held_payload
  | CcSend nat held_payload
  | CcDrop held_payload "bool native_result"
  | CcReturn "bool native_result"

text \<open>The two looks at an entry: gone, of another World, or the channel.\<close>

definition look_reply :: "inner \<Rightarrow> operation_id \<Rightarrow> registry \<Rightarrow> (bool native_result) + nat" where
  "look_reply w oid rg =
     (case bm_get (rg_entries rg) oid of
        None \<Rightarrow> Inl (Inr False)
      | Some (owner, i) \<Rightarrow> if ar_world owner \<noteq> in_id w then Inl (Inl (NeCore CrossWorld)) else Inr i)"

text \<open>Taking an entry out keeps its sender alive, in the hands of the call.\<close>

definition complete_next ::
  "inner \<Rightarrow> operation_id \<Rightarrow> payload \<Rightarrow> complete_pc \<Rightarrow> registry \<times> state \<Rightarrow> (complete_pc \<times> registry \<times> state) option" where
  "complete_next w oid p pc x =
     (let (rg, s) = x in
      case pc of
        CcStatus \<Rightarrow>
          Some (if in_id w \<noteq> op_world oid then CcReturn (Inl (NeCore CrossWorld))
                else if op_is_pending s oid then CcLook else CcReturn (Inr False), rg, s)
      | CcLook \<Rightarrow> Some (case look_reply w oid rg of Inl r \<Rightarrow> CcReturn r | Inr i \<Rightarrow> CcHold, rg, s)
      | CcHold \<Rightarrow>
          map_option (\<lambda>(s, y). (case y of Inl e \<Rightarrow> CcReturn (Inl (NeCore e)) | Inr held \<Rightarrow> CcTake held, rg, s))
            (hold_with w p default_options s)
      | CcTake held \<Rightarrow>
          Some (case look_reply w oid rg of
                  Inl r \<Rightarrow> (CcDrop held r, rg, s)
                | Inr i \<Rightarrow> (CcSend i held, rg\<lparr>rg_entries := bm_remove oid (rg_entries rg)\<rparr>, s))
      | CcSend i held \<Rightarrow>
          Some (if ch_receiver (rg_chans rg ! i)
                then (CcReturn (Inr True), upd_chan i (\<lambda>c. c\<lparr>ch_value := Some held, ch_sender := False\<rparr>) rg, s)
                else (CcDrop held (Inr False), upd_chan i (\<lambda>c. c\<lparr>ch_sender := False\<rparr>) rg, s))
      | CcDrop held r \<Rightarrow> Some (CcReturn r, rg, drop_handle (hp_stored held) s)
      | CcReturn r \<Rightarrow> None)"

section \<open>The component\<close>

text \<open>\<^verbatim>\<open>ControlledBehavior::on_event\<close>. The clean-up guard lives in the closure given to \<^verbatim>\<open>defer_reply\<close>: where no job was
  spawned, the closure is dropped and the entry goes with it.\<close>

definition controlled_event :: "inner \<Rightarrow> execution \<Rightarrow> payload \<Rightarrow> (registry, unit) hook_fun" where
  "controlled_event w ex p rg n cx =
     (case cx_operation cx of
        None \<Rightarrow> Some (rg, n, Some (Inl (NeApplication ''ControlledRequestRequired'')))
      | Some oid \<Rightarrow>
          (case register_reply oid (ex_owner ex) rg of
             (rg1, False) \<Rightarrow> Some (rg1, n, Some (Inl (NeLimit ''controlled replies'')))
           | (rg1, True) \<Rightarrow>
               with_cx (defer_reply False w ex p n cx) (\<lambda>r n'.
                 Some (if length (nt_tasks n) < length (nt_tasks n') then rg1 else remove_reply oid rg1, n', Some r))))"

definition controlled_behavior :: "inner \<Rightarrow> execution \<Rightarrow> registry behavior" where
  "controlled_behavior w ex = default_behavior (controlled_event w ex)"

definition controlled_descriptor :: "payload_type \<Rightarrow> component_descriptor" where
  "controlled_descriptor input =
     \<lparr>cd_name = ''ControlledReplies'', cd_version = 1,
      cd_ports = [\<lparr>ps_name = ''requests'', ps_direction = Input, ps_schema = input\<rparr>], cd_interfaces = []\<rparr>"

definition controlled_spec :: "nat \<Rightarrow> payload_type \<Rightarrow> native_spec" where
  "controlled_spec limit input =
     (let spec = native_spec_new (controlled_descriptor input) (Schema ''ControlledReplies.Config'' 1 [])
      in spec\<lparr>ns_limits := (ns_limits spec)\<lparr>nl_max_jobs := min limit 1024\<rparr>\<rparr>)"

definition prepare_controlled ::
  "inner \<Rightarrow> actor_ref option \<Rightarrow> payload_type \<Rightarrow> registry \<Rightarrow> native \<Rightarrow> registry prepared nres" where
  "prepare_controlled w parent input rg n =
     prepare_native w parent (controlled_spec (rg_limit rg) input) (VRecord []) (controlled_behavior w) (\<lambda>_. Some (Inr rg)) n"

text \<open>The future of the deferred reply awaits its receiver: not yet, the response, or cancelled; then the receiver goes
  and the guard removes the entry.\<close>

definition await_controlled :: "nat \<Rightarrow> registry \<Rightarrow> payload native_result poll" where
  "await_controlled i rg =
     (let c = rg_chans rg ! i
      in case ch_value c of
           Some held \<Rightarrow> Ready (Inr (s_payload (hp_stored held)))
         | None \<Rightarrow> if ch_sender c then Pending else Ready (Inl (NeApplication ''ControlledReplyCancelled'')))"

definition end_controlled :: "operation_id \<Rightarrow> nat \<Rightarrow> registry \<times> state \<Rightarrow> registry \<times> state" where
  "end_controlled oid i x =
     (let (rg, s) = x
      in (remove_reply oid (upd_chan i (\<lambda>c. c\<lparr>ch_value := None, ch_receiver := False\<rparr>) rg),
          case ch_value (rg_chans rg ! i) of None \<Rightarrow> s | Some held \<Rightarrow> drop_handle (hp_stored held) s))"

section \<open>Calls, jobs and the World\<close>

record call_run =
  cr_operation :: operation_id
  cr_payload :: payload
  cr_pc :: complete_pc

record desk =
  dk_registry :: registry
  dk_world :: state
  dk_calls :: "call_run list"
  dk_sent :: "nat list"

text \<open>\<open>dk_sent\<close> records, for the statements below, the channels through which \<^verbatim>\<open>complete\<close> has sent.\<close>

inductive desk_step :: "inner \<Rightarrow> desk \<Rightarrow> desk \<Rightarrow> bool" for w where
  desk_call: "desk_step w d (d\<lparr>dk_calls := dk_calls d @ [\<lparr>cr_operation = oid, cr_payload = p, cr_pc = CcStatus\<rparr>]\<rparr>)"
| desk_complete: "j < length (dk_calls d) \<Longrightarrow>
    complete_next w (cr_operation (dk_calls d ! j)) (cr_payload (dk_calls d ! j)) (cr_pc (dk_calls d ! j)) (dk_registry d, dk_world d)
      = Some (pc, rg, s) \<Longrightarrow>
    desk_step w d (d\<lparr>dk_registry := rg, dk_world := s, dk_calls := (dk_calls d)[j := (dk_calls d ! j)\<lparr>cr_pc := pc\<rparr>],
      dk_sent := (case cr_pc (dk_calls d ! j) of CcSend i held \<Rightarrow> if pc = CcReturn (Inr True) then [i] else [] | _ \<Rightarrow> []) @ dk_sent d\<rparr>)"
| desk_register: "register_reply oid owner (dk_registry d) = (rg, ok) \<Longrightarrow> desk_step w d (d\<lparr>dk_registry := rg\<rparr>)"
| desk_remove: "desk_step w d (d\<lparr>dk_registry := remove_reply oid (dk_registry d)\<rparr>)"
| desk_end: "i < length (rg_chans (dk_registry d)) \<Longrightarrow> end_controlled oid i (dk_registry d, dk_world d) = (rg, s) \<Longrightarrow>
    desk_step w d (d\<lparr>dk_registry := rg, dk_world := s\<rparr>)"
| desk_env: "(world_op w)\<^sup>*\<^sup>* (dk_world d) s \<Longrightarrow> desk_step w d (d\<lparr>dk_world := s\<rparr>)"

definition desk_init :: "inner \<Rightarrow> desk \<Rightarrow> bool" where
  "desk_init w d \<longleftrightarrow> (\<exists>limit rg s. controls_new limit = Inr rg \<and> world_reachable w s
     \<and> d = \<lparr>dk_registry = rg, dk_world = s, dk_calls = [], dk_sent = []\<rparr>)"

text \<open>Who holds the sending end of a channel: an entry, or a call about to send.\<close>

definition entry_holds :: "nat \<Rightarrow> registry \<Rightarrow> nat" where
  "entry_holds i rg = length (filter (\<lambda>(k, owner, j). j = i) (rg_entries rg))"

fun pc_holds :: "nat \<Rightarrow> complete_pc \<Rightarrow> nat" where
  "pc_holds i (CcSend j held) = (if j = i then 1 else 0)"
| "pc_holds i _ = 0"

definition calls_hold :: "nat \<Rightarrow> call_run list \<Rightarrow> nat" where
  "calls_hold i cs = sum_list (map (\<lambda>c. pc_holds i (cr_pc c)) cs)"

definition sender_alive :: "nat \<Rightarrow> registry \<Rightarrow> bool" where
  "sender_alive i rg \<longleftrightarrow> i < length (rg_chans rg) \<and> ch_sender (rg_chans rg ! i)"

definition desk_inv :: "inner \<Rightarrow> desk \<Rightarrow> bool" where
  "desk_inv w d \<longleftrightarrow>
     (let rg = dk_registry d in
      world_reachable w (dk_world d)
      \<and> bmap (rg_entries rg) \<and> length (rg_entries rg) \<le> rg_limit rg \<and> 1 \<le> rg_limit rg \<and> rg_limit rg \<le> 65536
      \<and> (\<forall>i. entry_holds i rg + calls_hold i (dk_calls d) = (if sender_alive i rg then 1 else 0))
      \<and> (\<forall>i < length (rg_chans rg). ch_value (rg_chans rg ! i) \<noteq> None \<longrightarrow> i \<in> set (dk_sent d))
      \<and> distinct (dk_sent d)
      \<and> (\<forall>i \<in> set (dk_sent d). i < length (rg_chans rg) \<and> \<not> sender_alive i rg))"


section \<open>Senders are accounted for\<close>

lemma filter_bm_insert:
  "k \<notin> fst ` set m \<Longrightarrow> length (filter P (bm_insert k v m)) = length (filter P m) + (if P (k, v) then 1 else 0)"
  by (induction k v m rule: bm_insert.induct) auto

lemma filter_bm_remove:
  assumes "bmap m" "map_of m k = Some v"
  shows "length (filter P m) = length (filter P (bm_remove k m)) + (if P (k, v) then 1 else 0)"
proof -
  have "distinct (map fst m)" by (rule bmap_distinct [OF assms(1)])
  then show ?thesis using assms(2)
  proof (induction m)
    case (Cons x m)
    show ?case
    proof (cases "fst x = k")
      case True
      then have "\<forall>y \<in> set m. fst y \<noteq> k" using Cons.prems(1) by (metis distinct.simps(2) image_eqI list.set_map list.simps(9))
      then have "bm_remove k m = m" by (simp add: bm_remove_def filter_id_conv)
      then show ?thesis using True Cons.prems by (cases x) (auto simp: bm_remove_def)
    qed (use Cons in \<open>auto simp: bm_remove_def\<close>)
  qed simp
qed

lemma length_removed: "bmap m \<Longrightarrow> length (bm_remove k m) \<le> length m"
  by (simp add: bm_remove_def)

lemma calls_hold_update:
  "j < length cs \<Longrightarrow> calls_hold i (cs[j := c]) + pc_holds i (cr_pc (cs ! j)) = calls_hold i cs + pc_holds i (cr_pc c)"
  unfolding calls_hold_def by (rule sum_list_map_update)

lemma calls_hold_ge: "j < length cs \<Longrightarrow> pc_holds i (cr_pc (cs ! j)) \<le> calls_hold i cs"
  unfolding calls_hold_def by (rule member_le_sum_list) simp_all

lemma upd_chan_simps [simp]:
  "rg_entries (upd_chan i f rg) = rg_entries rg" "rg_limit (upd_chan i f rg) = rg_limit rg"
  "length (rg_chans (upd_chan i f rg)) = length (rg_chans rg)" "entry_holds k (upd_chan i f rg) = entry_holds k rg"
  by (simp_all add: upd_chan_def entry_holds_def)

lemma nth_upd_chan: "k < length (rg_chans rg) \<Longrightarrow>
    rg_chans (upd_chan i f rg) ! k = (if k = i then f (rg_chans rg ! i) else rg_chans rg ! k)"
  by (simp add: upd_chan_def nth_list_update)

lemma sender_upd:
  "sender_alive k (upd_chan i (\<lambda>c. c\<lparr>ch_sender := False\<rparr>) rg) \<longleftrightarrow> sender_alive k rg \<and> k \<noteq> i"
  "sender_alive k (upd_chan i (\<lambda>c. c\<lparr>ch_value := v, ch_sender := False\<rparr>) rg) \<longleftrightarrow> sender_alive k rg \<and> k \<noteq> i"
  "sender_alive k (upd_chan i (\<lambda>c. c\<lparr>ch_value := v, ch_receiver := r\<rparr>) rg) \<longleftrightarrow> sender_alive k rg"
  by (auto simp: sender_alive_def nth_upd_chan split: if_split_asm)

text \<open>What the invariant says of the registry alone, given the senders that calls hold.\<close>

definition desk_ok :: "(nat \<Rightarrow> nat) \<Rightarrow> registry \<Rightarrow> nat list \<Rightarrow> bool" where
  "desk_ok h rg sent \<longleftrightarrow>
     bmap (rg_entries rg) \<and> length (rg_entries rg) \<le> rg_limit rg \<and> 1 \<le> rg_limit rg \<and> rg_limit rg \<le> 65536
     \<and> (\<forall>i. entry_holds i rg + h i = (if sender_alive i rg then 1 else 0))
     \<and> (\<forall>i < length (rg_chans rg). ch_value (rg_chans rg ! i) \<noteq> None \<longrightarrow> i \<in> set sent)
     \<and> distinct sent \<and> (\<forall>i \<in> set sent. i < length (rg_chans rg) \<and> \<not> sender_alive i rg)"

lemma desk_inv_ok:
  "desk_inv w d \<longleftrightarrow> world_reachable w (dk_world d) \<and> desk_ok (\<lambda>i. calls_hold i (dk_calls d)) (dk_registry d) (dk_sent d)"
  by (auto simp: desk_inv_def desk_ok_def Let_def)

lemma register_ok:
  assumes "register_reply oid owner rg = (rg', ok)" "desk_ok h rg sent"
  shows "desk_ok h rg' sent"
proof -
  let ?i = "length (rg_chans rg)"
  have new: "entry_holds ?i rg + h ?i = 0" using assms(2) by (simp add: desk_ok_def sender_alive_def)
  show ?thesis
  proof (cases ok)
    case False
    then have rg': "rg' = rg\<lparr>rg_chans := rg_chans rg @ [\<lparr>ch_value = None, ch_sender = False, ch_receiver = False\<rparr>]\<rparr>"
      using assms(1) by (auto simp: register_reply_def Let_def split: if_split_asm)
    have "sender_alive i rg' = sender_alive i rg" "entry_holds i rg' = entry_holds i rg" for i
      by (auto simp: rg' sender_alive_def entry_holds_def nth_append less_Suc_eq)
    then show ?thesis using assms(2) by (auto simp: desk_ok_def rg' nth_append less_Suc_eq)
  next
    case True
    then have rg': "rg' = rg\<lparr>rg_chans := rg_chans rg @ [\<lparr>ch_value = None, ch_sender = True, ch_receiver = True\<rparr>],
        rg_entries := bm_insert oid (owner, ?i) (rg_entries rg)\<rparr>"
      and free: "length (rg_entries rg) < rg_limit rg" "bm_get (rg_entries rg) oid = None"
      using assms(1) by (cases "bm_get (rg_entries rg) oid"; simp add: register_reply_def Let_def split: if_split_asm)+
    have map: "bmap (rg_entries rg)" using assms(2) by (simp add: desk_ok_def)
    have fresh: "oid \<notin> fst ` set (rg_entries rg)" using free(2) by (simp add: map_of_eq_None_iff)
    have "sender_alive i rg' \<longleftrightarrow> sender_alive i rg \<or> i = ?i" for i
      by (auto simp: rg' sender_alive_def nth_append less_Suc_eq)
    moreover have "entry_holds i rg' = entry_holds i rg + (if i = ?i then 1 else 0)" for i
      by (simp add: rg' entry_holds_def filter_bm_insert [OF fresh])
    moreover have "length (bm_insert oid (owner, ?i) (rg_entries rg)) \<le> rg_limit rg"
      using free length_bm_insert [OF map] by simp
    moreover have "\<not> sender_alive ?i rg" by (simp add: sender_alive_def)
    ultimately show ?thesis
      using assms(2) new map by (auto simp: desk_ok_def rg' nth_append less_Suc_eq)
  qed
qed

lemma remove_ok:
  assumes "desk_ok h rg sent"
  shows "desk_ok h (remove_reply oid rg) sent"
proof (cases "bm_get (rg_entries rg) oid")
  case (Some v)
  obtain owner i where v: "bm_get (rg_entries rg) oid = Some (owner, i)" using Some by (cases v) simp
  let ?rg = "rg\<lparr>rg_entries := bm_remove oid (rg_entries rg)\<rparr>"
  have map: "bmap (rg_entries rg)" using assms by (simp add: desk_ok_def)
  have holds: "entry_holds k rg = entry_holds k ?rg + (if i = k then 1 else 0)" for k
    using filter_bm_remove [OF map v, of "\<lambda>(k', owner, j). j = k"] by (simp add: entry_holds_def)
  have r: "remove_reply oid rg = upd_chan i (\<lambda>c. c\<lparr>ch_sender := False\<rparr>) ?rg"
    by (simp add: remove_reply_def v)
  have alive: "sender_alive k ?rg = sender_alive k rg" for k by (simp add: sender_alive_def)
  have sum: "entry_holds k rg + h k = (if sender_alive k rg then 1 else 0)" for k using assms by (simp add: desk_ok_def)
  have "entry_holds k ?rg + h k = (if sender_alive k rg \<and> k \<noteq> i then 1 else 0)" for k
    using sum [of k] holds [of k] by (auto split: if_split_asm)
  then show ?thesis
    using assms length_removed [OF map, of oid] unfolding r desk_ok_def sender_upd alive
    by (auto simp: nth_upd_chan)
qed (simp add: remove_reply_def assms)

lemma end_ok:
  assumes "end_controlled oid i (rg, s) = (rg', s')" "desk_ok h rg sent"
  shows "desk_ok h rg' sent"
proof -
  have "desk_ok h (upd_chan i (\<lambda>c. c\<lparr>ch_value := None, ch_receiver := False\<rparr>) rg) sent"
    using assms(2) unfolding desk_ok_def sender_upd by (auto simp: nth_upd_chan)
  then show ?thesis using assms(1) remove_ok by (auto simp: end_controlled_def)
qed

lemma look_replyE:
  assumes "look_reply w oid rg = Inr i"
  obtains owner where "bm_get (rg_entries rg) oid = Some (owner, i)"
  using assms by (auto simp: look_reply_def split: option.split_asm if_split_asm)

definition sent_by :: "complete_pc \<Rightarrow> complete_pc \<Rightarrow> nat list" where
  "sent_by pc pc' = (case pc of CcSend i held \<Rightarrow> if pc' = CcReturn (Inr True) then [i] else [] | _ \<Rightarrow> [])"

text \<open>One step of a call; \<open>h\<close> is what the other calls hold.\<close>

lemma complete_next_ok:
  assumes "complete_next w oid p pc (rg, s) = Some (pc', rg', s')" "desk_ok (\<lambda>i. h i + pc_holds i pc) rg sent"
  shows "desk_ok (\<lambda>i. h i + pc_holds i pc') rg' (sent_by pc pc' @ sent)"
proof (cases pc)
  case CcHold
  then obtain y where "pc' = (case y of Inl e \<Rightarrow> CcReturn (Inl (NeCore e)) | Inr held \<Rightarrow> CcTake held)" "rg' = rg"
    using assms(1) by (auto simp: complete_next_def)
  then show ?thesis using assms(2) CcHold by (cases y) (simp_all add: sent_by_def)
next
  case (CcTake held)
  show ?thesis
  proof (cases "look_reply w oid rg")
    case (Inl r)
    then show ?thesis using assms CcTake by (auto simp: complete_next_def sent_by_def)
  next
    case (Inr i)
    then have st: "pc' = CcSend i held" "rg' = rg\<lparr>rg_entries := bm_remove oid (rg_entries rg)\<rparr>"
      using assms(1) CcTake by (simp_all add: complete_next_def)
    from Inr obtain owner where v: "bm_get (rg_entries rg) oid = Some (owner, i)" by (rule look_replyE)
    have map: "bmap (rg_entries rg)" using assms(2) by (simp add: desk_ok_def)
    have holds: "entry_holds k rg = entry_holds k rg' + (if i = k then 1 else 0)" for k
      using filter_bm_remove [OF map v, of "\<lambda>(k', owner, j). j = k"] by (simp add: entry_holds_def st)
    have alive: "sender_alive k rg' = sender_alive k rg" for k by (simp add: sender_alive_def st)
    have sum: "entry_holds k rg' + (h k + pc_holds k pc') = (if sender_alive k rg' then 1 else 0)" for k
    proof -
      have "entry_holds k rg + h k = (if sender_alive k rg then 1 else 0)" using assms(2) CcTake by (simp add: desk_ok_def)
      then show ?thesis unfolding alive using holds [of k] by (simp add: st)
    qed
    have "bmap (rg_entries rg')" "length (rg_entries rg') \<le> length (rg_entries rg)" "rg_limit rg' = rg_limit rg"
      "rg_chans rg' = rg_chans rg" using map length_removed [OF map, of oid] by (simp_all add: st)
    then show ?thesis
      using assms(2) sum CcTake unfolding desk_ok_def alive by (simp add: sent_by_def)
  qed
next
  case (CcSend i held)
  have sum: "entry_holds k rg + (h k + pc_holds k pc) = (if sender_alive k rg then 1 else 0)" for k
    using assms(2) by (simp add: desk_ok_def)
  have alive: "sender_alive i rg" using sum [of i] CcSend by (auto split: if_split_asm)
  then have len: "i < length (rg_chans rg)" by (simp add: sender_alive_def)
  have fresh: "i \<notin> set sent" using assms(2) alive by (auto simp: desk_ok_def)
  have rest: "entry_holds k rg + h k = (if sender_alive k rg \<and> k \<noteq> i then 1 else 0)" for k
    using sum [of k] CcSend alive by (auto split: if_split_asm)
  show ?thesis
  proof (cases "ch_receiver (rg_chans rg ! i)")
    case True
    then have st: "pc' = CcReturn (Inr True)" "rg' = upd_chan i (\<lambda>c. c\<lparr>ch_value := Some held, ch_sender := False\<rparr>) rg"
      using assms(1) CcSend by (simp_all add: complete_next_def)
    show ?thesis
      using assms(2) rest fresh len CcSend unfolding desk_ok_def st sender_upd
      by (auto simp: sent_by_def nth_upd_chan split: if_split_asm)
  next
    case False
    then have st: "pc' = CcDrop held (Inr False)" "rg' = upd_chan i (\<lambda>c. c\<lparr>ch_sender := False\<rparr>) rg"
      using assms(1) CcSend by (simp_all add: complete_next_def)
    show ?thesis
      using assms(2) rest CcSend unfolding desk_ok_def st sender_upd
      by (auto simp: sent_by_def nth_upd_chan split: if_split_asm)
  qed
qed (use assms in \<open>auto simp: complete_next_def sent_by_def split: if_split_asm sum.split_asm\<close>)

lemma complete_next_world:
  "complete_next w oid p pc (rg, s) = Some (pc', rg', s') \<Longrightarrow> s' = s \<or> world_op w s s'"
proof (cases pc)
  case CcHold
  assume "complete_next w oid p pc (rg, s) = Some (pc', rg', s')"
  then obtain y where "hold_with w p default_options s = Some (s', y)" using CcHold by (auto simp: complete_next_def)
  then show ?thesis by (auto simp: world_op_def intro: wk_hold)
qed (auto simp: complete_next_def world_op_def intro: work_op.intros split: if_split_asm sum.split_asm)

lemma end_controlled_world: "end_controlled oid i (rg, s) = (rg', s') \<Longrightarrow> s' = s \<or> world_op w s s'"
  by (auto simp: end_controlled_def world_op_def intro: work_op.intros split: option.split_asm)

lemma desk_step_inv: "desk_step w d d' \<Longrightarrow> desk_inv w d \<Longrightarrow> desk_inv w d'"
proof (induction rule: desk_step.induct)
  case (desk_call d oid p)
  have "calls_hold i (dk_calls d @ [\<lparr>cr_operation = oid, cr_payload = p, cr_pc = CcStatus\<rparr>]) = calls_hold i (dk_calls d)" for i
    by (simp add: calls_hold_def)
  then show ?case using desk_call by (simp add: desk_inv_ok)
next
  case (desk_complete j d pc rg s)
  let ?c = "dk_calls d ! j"
  define h where "h = (\<lambda>i. calls_hold i (dk_calls d) - pc_holds i (cr_pc ?c))"
  have old: "calls_hold i (dk_calls d) = h i + pc_holds i (cr_pc ?c)" for i
    using calls_hold_ge [OF desk_complete(1), of i] by (simp add: h_def)
  have new: "calls_hold i ((dk_calls d)[j := ?c\<lparr>cr_pc := pc\<rparr>]) = h i + pc_holds i pc" for i
    using calls_hold_update [OF desk_complete(1), of i "?c\<lparr>cr_pc := pc\<rparr>"] old [of i] by simp
  have "world_reachable w s"
    using complete_next_world [OF desk_complete(2)] desk_complete(3)
    by (auto simp: desk_inv_ok intro: reachable_step)
  then show ?case
    using complete_next_ok [OF desk_complete(2), of h "dk_sent d"] desk_complete(3)
    by (simp add: desk_inv_ok old new sent_by_def)
next
  case (desk_register oid owner d rg ok)
  then show ?case using register_ok by (auto simp: desk_inv_ok)
next
  case (desk_remove d oid)
  then show ?case using remove_ok by (auto simp: desk_inv_ok)
next
  case (desk_end i d oid rg s)
  then show ?case using end_ok [OF desk_end(2)] end_controlled_world [OF desk_end(2), of w]
    by (auto simp: desk_inv_ok intro: reachable_step)
next
  case (desk_env d s)
  then show ?case using world.reachable_steps by (auto simp: desk_inv_ok)
qed

interpretation desk: invariant_system "desk_init w" "desk_step w" "desk_inv w" for w
proof unfold_locales
  show "desk_init w d \<Longrightarrow> desk_inv w d" for d
    by (auto simp: desk_init_def controls_new_def desk_inv_def entry_holds_def calls_hold_def sender_alive_def
        split: if_split_asm)
qed (rule desk_step_inv)

section \<open>The component keeps the World\<close>

interpretation controlled: native_behavior w "controlled_behavior w ex" for w ex
  by unfold_locales
    (auto simp: controlled_behavior_def default_behavior_def controlled_event_def with_cx_def bind_eq_Some_conv
      intro: default_hook_kept dest: defer_kept split: option.split_asm prod.split_asm bool.split_asm)

lemma prepare_controlled_kept:
  "prepare_controlled w parent input rg n = Some (n', r) \<Longrightarrow>
    along w n n' \<and> slot_permits n = slot_permits n' + (if is_ok r then 1 else 0)"
  unfolding prepare_controlled_def by (erule prepare_native_kept) (rule controlled.native_behavior_axioms)

section \<open>Properties\<close>

text \<open>C40. An externally completed request is answered at most once. Under every interleaving of calls of \<^verbatim>\<open>complete\<close>,
  registrations, clean-ups, ends of jobs and the rest of the program: the registry never exceeds its limit; every
  living sender is held exactly once, by an entry or by the one call that took it out; no channel is ever sent
  through twice, no value is ever in a channel that was not sent through, and a channel once sent through has no
  sender left. The World moves along its methods.\<close>

theorem controlled_replies_once:
  assumes "reachable (desk_init w) (desk_step w) d"
  shows "length (rg_entries (dk_registry d)) \<le> rg_limit (dk_registry d) \<and> rg_limit (dk_registry d) \<le> 65536
    \<and> entry_holds i (dk_registry d) + calls_hold i (dk_calls d) = (if sender_alive i (dk_registry d) then 1 else 0)
    \<and> distinct (dk_sent d)
    \<and> (\<forall>i < length (rg_chans (dk_registry d)). ch_value (rg_chans (dk_registry d) ! i) \<noteq> None \<longrightarrow> i \<in> set (dk_sent d))
    \<and> (\<forall>i \<in> set (dk_sent d). \<not> sender_alive i (dk_registry d))
    \<and> world_reachable w (dk_world d)"
  using desk.reachable_invar [OF assms] by (simp add: desk_inv_def Let_def)

text \<open>A request is registered, then a call takes its entry out and sends: hypotheses discharged on the demo World.\<close>

definition demo_desk :: desk where
  "demo_desk = \<lparr>dk_registry = \<lparr>rg_limit = 2, rg_entries = [], rg_chans = []\<rparr>, dk_world = demo_active, dk_calls = [], dk_sent = []\<rparr>"

theorem controlled_replies_once_witness:
  "\<exists>d. reachable (desk_init demo_world) (desk_step demo_world) d
     \<and> rg_entries (dk_registry d) = [(OperationId 1 0 1, demo_ref, 0)]
     \<and> entry_holds 0 (dk_registry d) + calls_hold 0 (dk_calls d) = 1 \<and> distinct (dk_sent d)"
proof -
  have init: "desk_init demo_world demo_desk"
    unfolding desk_init_def using demo_reachable(3)
    by (intro exI [of _ 2] exI [of _ "dk_registry demo_desk"] exI [of _ demo_active]) (simp add: controls_new_def demo_desk_def)
  let ?rg = "fst (register_reply (OperationId 1 0 1) demo_ref (dk_registry demo_desk))"
  let ?d = "demo_desk\<lparr>dk_registry := ?rg\<rparr>"
  have "desk_step demo_world demo_desk ?d"
    by (rule desk_register [where oid = "OperationId 1 0 1" and owner = demo_ref and ok = True])
      (simp add: register_reply_def demo_desk_def Let_def)
  moreover have "reachable (desk_init demo_world) (desk_step demo_world) demo_desk" by (rule reachable_init) (rule init)
  ultimately have r: "reachable (desk_init demo_world) (desk_step demo_world) ?d" by (rule reachable_step [rotated])
  have "rg_entries (dk_registry ?d) = [(OperationId 1 0 1, demo_ref, 0)]" "sender_alive 0 (dk_registry ?d)"
    by (simp_all add: register_reply_def demo_desk_def Let_def sender_alive_def)
  then show ?thesis using controlled_replies_once [OF r, of 0] r by (intro exI [of _ ?d]) simp
qed

end
