(* ===== verification/Native_Virtual.thy ===== *)
theory Native_Virtual
  imports Native_Executor
begin

text \<open>
  The explicitly driven runtime of \<^verbatim>\<open>crates/runtime-native/src/testing.rs\<close>: virtual time that only \<^verbatim>\<open>advance_virtual\<close> moves,
  a poll budget, and idleness as two parks of the executor with no poll between them. What the async executor does
  while the driver blocks on it is third-party code: \<open>turn\<close> gives the runtime it leaves behind, what the driver's
  future sees each time it is polled, and the executor's own clock; \<open>jump\<close> is its \<^verbatim>\<open>time::advance\<close>.
\<close>

section \<open>The driver\<close>

definition CHECK_INTERVAL :: duration where "CHECK_INTERVAL = 1000000"

record driver =
  dv_clock :: clock_state
  dv_polls :: nat
  dv_parked :: bool
  dv_owner :: nat

record virtual_runtime =
  vr_executor :: executor
  vr_driver :: "driver option"

record pump_report =
  pu_polls :: nat
  pu_idle :: bool

text \<open>\<^verbatim>\<open>DriveSignal::polled\<close> and \<^verbatim>\<open>DriveSignal::park\<close>.\<close>

definition drive_polled :: "driver \<Rightarrow> driver" where
  "drive_polled d = d\<lparr>dv_polls := saturating_add u64_max (dv_polls d) 1\<rparr>"

definition drive_park :: "driver \<Rightarrow> driver" where
  "drive_park d = d\<lparr>dv_parked := True\<rparr>"

text \<open>\<^verbatim>\<open>new_virtual\<close>; \<open>nested\<close>: is there a current async runtime? \<open>made\<close> is \<^verbatim>\<open>World::with_clock\<close>, \<open>epoch\<close> the paused clock.\<close>

definition virtual_new ::
  "bool \<Rightarrow> nat \<Rightarrow> string + instant \<Rightarrow> error + state \<Rightarrow> nat \<Rightarrow> runtime_error + virtual_runtime" where
  "virtual_new nested max_tasks built made thread =
     (if nested then Inl (ReText ''TestWorld cannot be constructed inside a Tokio runtime'')
      else if max_tasks = 0 \<or> max_tasks > 65536 then Inl (ReText ''native task limit must be in 1..65536'')
      else case built of
        Inl e \<Rightarrow> Inl (ReText e)
      | Inr epoch \<Rightarrow>
          (case made of
             Inl e \<Rightarrow> Inl (ReCore e)
           | Inr s \<Rightarrow>
               Inr \<lparr>vr_executor =
                      \<lparr>xr_native = \<lparr>nt_world = s, nt_stats = stats_zero, nt_jobs = 0, nt_slots = max_tasks,
                                    nt_slots_closed = False, nt_cpu = None, nt_tasks = []\<rparr>,
                       xr_max = max_tasks, xr_up = True, xr_control = False, xr_routing = True, xr_timed_out = False\<rparr>,
                    vr_driver = Some \<lparr>dv_clock = Manual epoch, dv_polls = 0, dv_parked = False, dv_owner = thread\<rparr>\<rparr>))"

text \<open>\<^verbatim>\<open>virtual_state\<close>: who drives, from where. \<open>thread\<close> and \<open>nested\<close> are those of the caller.\<close>

definition virtual_state :: "nat \<Rightarrow> bool \<Rightarrow> virtual_runtime \<Rightarrow> runtime_error + driver" where
  "virtual_state thread nested v =
     (case vr_driver v of
        None \<Rightarrow> Inl (ReText ''runtime is not a TestWorld'')
      | Some d \<Rightarrow>
          if dv_owner d \<noteq> thread then Inl (ReText ''TestWorld must be driven on its creating thread'')
          else if nested then Inl (ReText ''TestWorld driving is not reentrant'')
          else Inr d)"

section \<open>Pumping\<close>

text \<open>The future that \<^verbatim>\<open>pump_virtual\<close> blocks on, over what its polls see: the poll counter and whether the executor has
  parked since. \<open>None\<close>: still pending.\<close>

fun pump_loop :: "nat \<Rightarrow> nat \<Rightarrow> nat option \<Rightarrow> (nat \<times> bool) list \<Rightarrow> pump_report option" where
  "pump_loop start max_polls last_idle [] = None"
| "pump_loop start max_polls last_idle ((polls, parked) # seen) =
     (if polls = u64_max \<or> polls - start \<ge> max_polls then Some \<lparr>pu_polls = polls - start, pu_idle = False\<rparr>
      else if parked then
        (if last_idle = Some polls then Some \<lparr>pu_polls = polls - start, pu_idle = True\<rparr>
         else pump_loop start max_polls (Some polls) seen)
      else pump_loop start max_polls last_idle seen)"

type_synonym turn = "nat \<Rightarrow> virtual_runtime \<Rightarrow> virtual_runtime \<times> (nat \<times> bool) list \<times> instant"

definition world_maintain :: "inner \<Rightarrow> driver \<Rightarrow> virtual_runtime \<Rightarrow> virtual_runtime option" where
  "world_maintain w d v =
     map_option (\<lambda>s. v\<lparr>vr_executor := (vr_executor v)\<lparr>xr_native := (xr_native (vr_executor v))\<lparr>nt_world := s\<rparr>\<rparr>\<rparr>)
       (maintain w (clock_now (dv_clock d) 0) (nt_world (xr_native (vr_executor v))))"

text \<open>\<open>None\<close> where a World call panics or the blocked-on future never completes.\<close>

definition pump_virtual ::
  "inner \<Rightarrow> nat \<Rightarrow> bool \<Rightarrow> turn \<Rightarrow> nat \<Rightarrow> virtual_runtime \<Rightarrow> (virtual_runtime \<times> (runtime_error + pump_report)) option" where
  "pump_virtual w thread nested turn max_polls v =
     (if \<not> (1 \<le> max_polls \<and> max_polls \<le> 1000000) then Some (v, Inl (ReText ''max_polls must be in 1..1000000''))
      else case virtual_state thread nested v of
        Inl e \<Rightarrow> Some (v, Inl e)
      | Inr d \<Rightarrow>
          if \<not> xr_up (vr_executor v) then Some (v, Inl (ReText ''native runtime is closed''))
          else
            Option.bind (world_maintain w d v) (\<lambda>v1.
            (let (v2, seen, tokio_now) = turn max_polls (v1\<lparr>vr_driver := Some (d\<lparr>dv_parked := False\<rparr>)\<rparr>)
             in Option.bind (pump_loop (dv_polls d) max_polls None seen) (\<lambda>report.
                  if tokio_now \<noteq> clock_now (dv_clock d) 0
                  then Some (v2, Inl (ReText ''TestWorld clock advanced without an explicit advance''))
                  else map_option (\<lambda>v3. (v3, Inr report)) (world_maintain w d v2)))))"

definition driver_polls :: "virtual_runtime \<Rightarrow> nat" where
  "driver_polls v = (case vr_driver v of None \<Rightarrow> 0 | Some d \<Rightarrow> dv_polls d)"

definition advance_virtual ::
  "inner \<Rightarrow> instant \<Rightarrow> nat \<Rightarrow> bool \<Rightarrow> turn \<Rightarrow> (duration \<Rightarrow> virtual_runtime \<Rightarrow> virtual_runtime) \<Rightarrow> duration \<Rightarrow> nat \<Rightarrow>
   virtual_runtime \<Rightarrow> (virtual_runtime \<times> (runtime_error + pump_report)) option" where
  "advance_virtual w instant_max thread nested turn jump step max_polls v =
     (if step > MAX_PERIOD then Some (v, Inl (ReText ''virtual advance exceeds 24 hours''))
      else if \<not> (1 \<le> max_polls \<and> max_polls \<le> 1000000) then Some (v, Inl (ReText ''max_polls must be in 1..1000000''))
      else case virtual_state thread nested v of
        Inl e \<Rightarrow> Some (v, Inl e)
      | Inr d \<Rightarrow>
          if \<not> xr_up (vr_executor v) then Some (v, Inl (ReText ''native runtime is closed''))
          else case clock_advance instant_max (dv_clock d) step of
            (c, Inl e) \<Rightarrow> Some (v, Inl (ReCore e))
          | (c, Inr now) \<Rightarrow>
              (let d1 = d\<lparr>dv_clock := c\<rparr>
               in Option.bind (world_maintain w d1 (v\<lparr>vr_driver := Some d1\<rparr>)) (\<lambda>v1.
                    (let v2 = jump step v1;
                         advanced = driver_polls v2 - dv_polls d
                     in if max_polls - advanced = 0 then Some (v2, Inr \<lparr>pu_polls = advanced, pu_idle = False\<rparr>)
                        else map_option (\<lambda>(v3, r). (v3, case r of
                                 Inl e \<Rightarrow> Inl e
                               | Inr report \<Rightarrow> Inr (report\<lparr>pu_polls := advanced + pu_polls report\<rparr>)))
                               (pump_virtual w thread nested turn (max_polls - advanced) v2)))))"

section \<open>Waiting and closing\<close>

definition virtual_busy :: "virtual_runtime \<Rightarrow> bool" where
  "virtual_busy v \<longleftrightarrow> active_tasks (vr_executor v) > 0 \<or> routing_pending (nt_world (xr_native (vr_executor v))) > 0"

text \<open>\<^verbatim>\<open>self.world.now()\<close>\<close>

definition virtual_now :: "virtual_runtime \<Rightarrow> instant" where
  "virtual_now v = (case vr_driver v of None \<Rightarrow> 0 | Some d \<Rightarrow> clock_now (dv_clock d) 0)"

text \<open>The loop of \<^verbatim>\<open>wait_virtual_idle\<close>, over its two calls. Each round takes at least one poll off the budget.\<close>

function wait_loop ::
  "(nat \<Rightarrow> 'v \<Rightarrow> ('v \<times> ('e + pump_report)) option) \<Rightarrow> (duration \<Rightarrow> nat \<Rightarrow> 'v \<Rightarrow> ('v \<times> ('e + pump_report)) option) \<Rightarrow>
   ('v \<Rightarrow> bool) \<Rightarrow> ('v \<Rightarrow> instant) \<Rightarrow> instant \<Rightarrow> nat \<Rightarrow> 'v \<Rightarrow> ('v \<times> ('e + bool)) option" where
  "wait_loop pump advance busy now deadline remaining v =
     (if \<not> (busy v \<and> remaining > 0) then Some (v, Inr (\<not> busy v))
      else case pump remaining v of
        None \<Rightarrow> None
      | Some (v1, Inl e) \<Rightarrow> Some (v1, Inl e)
      | Some (v1, Inr report) \<Rightarrow>
          (let remaining1 = remaining - max (pu_polls report) 1
           in if \<not> busy v1 then Some (v1, Inr True)
              else if now v1 \<ge> deadline \<or> remaining1 = 0 then Some (v1, Inr False)
              else if \<not> pu_idle report then wait_loop pump advance busy now deadline remaining1 v1
              else case advance (min (deadline - now v1) CHECK_INTERVAL) remaining1 v1 of
                None \<Rightarrow> None
              | Some (v2, Inl e) \<Rightarrow> Some (v2, Inl e)
              | Some (v2, Inr report) \<Rightarrow>
                  wait_loop pump advance busy now deadline (remaining1 - max (pu_polls report) 1) v2))"
  by pat_completeness auto
termination
  by (relation "measure (\<lambda>(pump, advance, busy, now, deadline, remaining, v). remaining)") auto

declare wait_loop.simps [simp del]

definition WAIT_BUDGET :: nat where "WAIT_BUDGET = 100000"

definition wait_virtual_idle ::
  "inner \<Rightarrow> instant \<Rightarrow> nat \<Rightarrow> bool \<Rightarrow> turn \<Rightarrow> (duration \<Rightarrow> virtual_runtime \<Rightarrow> virtual_runtime) \<Rightarrow> duration \<Rightarrow>
   virtual_runtime \<Rightarrow> (virtual_runtime \<times> (runtime_error + bool)) option" where
  "wait_virtual_idle w instant_max thread nested turn jump timeout v =
     (case virtual_state thread nested v of
        Inl e \<Rightarrow> Some (v, Inl e)
      | Inr d \<Rightarrow>
          (case checked_add instant_max (virtual_now v) timeout of
             None \<Rightarrow> Some (v, Inl (ReText ''wait duration overflow''))
           | Some deadline \<Rightarrow>
               wait_loop (pump_virtual w thread nested turn) (advance_virtual w instant_max thread nested turn jump)
                 virtual_busy virtual_now deadline WAIT_BUDGET v))"

definition upd_executor :: "(executor \<Rightarrow> executor) \<Rightarrow> virtual_runtime \<Rightarrow> virtual_runtime" where
  "upd_executor f v = v\<lparr>vr_executor := f (vr_executor v)\<rparr>"

text \<open>\<^verbatim>\<open>close_virtual\<close>, up to the destruction of the async runtime, which ends the tasks it still holds: \<open>destroy\<close>.\<close>

definition close_virtual ::
  "inner \<Rightarrow> instant \<Rightarrow> nat \<Rightarrow> bool \<Rightarrow> turn \<Rightarrow> (duration \<Rightarrow> virtual_runtime \<Rightarrow> virtual_runtime) \<Rightarrow>
   (virtual_runtime \<Rightarrow> virtual_runtime) \<Rightarrow> duration \<Rightarrow> virtual_runtime \<Rightarrow>
   (virtual_runtime \<times> (runtime_error + stop_report)) option" where
  "close_virtual w instant_max thread nested turn jump destroy timeout v =
     (case virtual_state thread nested v of
        Inl e \<Rightarrow> Some (v, Inl e)
      | Inr d \<Rightarrow>
          if checked_add instant_max (virtual_now v) timeout = None
          then Some (v, Inl (ReText ''shutdown duration overflow''))
          else
            Option.bind (close w (nt_world (xr_native (vr_executor v)))) (\<lambda>(s, initial).
            (let v1 = upd_executor (\<lambda>x. x\<lparr>xr_routing := False,
                   xr_native := (xr_native x)\<lparr>nt_world := s, nt_slots_closed := True\<rparr>\<rparr>) v
             in if \<not> xr_up (vr_executor v1) then Some (v1, Inr (late_report (vr_executor v1) initial))
                else
                  Option.bind (wait_virtual_idle w instant_max thread nested turn jump timeout v1) (\<lambda>(v2, r).
                    case r of
                      Inl e \<Rightarrow> Some (v2, Inl e)
                    | Inr idle \<Rightarrow>
                        (let v3 = destroy (upd_executor (\<lambda>x. x\<lparr>xr_timed_out := xr_timed_out x \<or> \<not> idle, xr_up := False\<rparr>) v2)
                         in Some (v3, Inr (late_report (vr_executor v3)
                              ((world_report_locked (nt_world (xr_native (vr_executor v3))))
                                 \<lparr>sp_discarded := sp_discarded initial\<rparr>))))))))"

section \<open>What the reports mean\<close>

text \<open>A pump that reports idleness saw the executor park twice at the same poll count, below its budget; any other report
  means that the budget is spent or the counter exhausted.\<close>

lemma pump_loop_idle:
  assumes "pump_loop start max_polls last_idle seen = Some r" "pu_idle r"
  shows "\<exists>polls. (polls, True) \<in> set seen \<and> pu_polls r = polls - start \<and> pu_polls r < max_polls \<and> polls \<noteq> u64_max
     \<and> (last_idle = Some polls \<or> (\<exists>us vs xs. seen = us @ (polls, True) # vs @ (polls, True) # xs))"
  using assms
proof (induction seen arbitrary: last_idle)
  case (Cons x seen)
  obtain polls parked where x: "x = (polls, parked)" by (cases x)
  let ?go = "\<not> (polls = u64_max \<or> polls - start \<ge> max_polls)"
  have go: ?go using Cons.prems x by (auto split: if_split_asm)
  consider "parked" "last_idle = Some polls" | "parked" "last_idle \<noteq> Some polls" | "\<not> parked" by blast
  then show ?case
  proof cases
    case 1
    then show ?thesis using Cons.prems x go by auto
  next
    case 2
    then have "pump_loop start max_polls (Some polls) seen = Some r" using Cons.prems x go by simp
    from Cons.IH [OF this Cons.prems(2)] obtain q where q: "(q, True) \<in> set seen" "pu_polls r = q - start"
        "pu_polls r < max_polls" "q \<noteq> u64_max"
        "Some polls = Some q \<or> (\<exists>us vs xs. seen = us @ (q, True) # vs @ (q, True) # xs)" by blast
    from q(5) have "\<exists>us vs xs. x # seen = us @ (q, True) # vs @ (q, True) # xs"
    proof
      assume "Some polls = Some q"
      moreover obtain vs xs where "seen = vs @ (q, True) # xs" using split_list [OF q(1)] by blast
      ultimately show ?thesis using x 2(1) by (intro exI [of _ "[]"] exI [of _ vs] exI [of _ xs]) simp
    next
      assume "\<exists>us vs xs. seen = us @ (q, True) # vs @ (q, True) # xs"
      then show ?thesis by (metis append_Cons)
    qed
    then show ?thesis using q by (intro exI [of _ q]) simp
  next
    case 3
    then have "pump_loop start max_polls last_idle seen = Some r" using Cons.prems x go by simp
    from Cons.IH [OF this Cons.prems(2)] show ?thesis by (metis append_Cons list.set_intros(2))
  qed
qed simp

lemma pump_loop_spent:
  assumes "pump_loop start max_polls last_idle seen = Some r" "\<not> pu_idle r"
  shows "max_polls \<le> pu_polls r \<or> (\<exists>parked. (u64_max, parked) \<in> set seen)"
  using assms by (induction start max_polls last_idle seen rule: pump_loop.induct) (auto split: if_split_asm)

text \<open>The wait answers yes exactly in an idle runtime, and no only in one that is not.\<close>

lemma wait_loop_sound:
  "wait_loop pump advance busy now deadline remaining v = Some (v', Inr b) \<Longrightarrow> b = (\<not> busy v')"
proof (induction remaining arbitrary: v b rule: less_induct)
  case (less remaining)
  have again:
    "wait_loop pump advance busy now deadline (remaining - max k (Suc 0)) u = Some (v', Inr c) \<Longrightarrow> 0 < remaining \<Longrightarrow> c = (\<not> busy v')"
    "wait_loop pump advance busy now deadline (remaining - (max k (Suc 0) + j)) u = Some (v', Inr c) \<Longrightarrow> 0 < remaining \<Longrightarrow>
      c = (\<not> busy v')" for k j u c
    by (rule less.IH [of "remaining - max k (Suc 0)"], simp_all)
      (rule less.IH [of "remaining - (max k (Suc 0) + j)"], simp_all)
  show ?case
  proof (cases "0 < remaining")
    case True
    note again = again [OF _ True]
    show ?thesis
      using less.prems
      by (subst (asm) wait_loop.simps)
        (auto simp: Let_def split: option.split_asm sum.split_asm if_split_asm dest!: again)
  next
    case False
    show ?thesis using less.prems False by (subst (asm) wait_loop.simps) auto
  qed
qed

text \<open>It ends: with calls that return, it returns.\<close>

lemma wait_loop_returns:
  assumes "\<And>k v. pump k v \<noteq> None" "\<And>d k v. advance d k v \<noteq> None"
  shows "\<exists>y. wait_loop pump advance busy now deadline remaining v = Some y"
proof (induction remaining arbitrary: v rule: less_induct)
  case (less remaining)
  show ?case
  proof (cases "busy v \<and> remaining > 0")
    case True
    obtain v1 x where p: "pump remaining v = Some (v1, x)" using assms(1) [of remaining v] by auto
    show ?thesis
    proof (cases x)
      case (Inr report)
      let ?k = "remaining - max (pu_polls report) (Suc 0)"
      let ?d = "min (deadline - now v1) CHECK_INTERVAL"
      obtain v2 y where a: "advance ?d ?k v1 = Some (v2, y)" using assms(2) [of ?d ?k v1] by auto
      have small: "?k < remaining" "remaining - (max (pu_polls report) (Suc 0) + j) < remaining" for j using True by auto
      show ?thesis
        using less.IH [OF small(1)] less.IH [OF small(2)]
        by (subst wait_loop.simps) (simp add: True p Inr Let_def a split: sum.split)
    qed (use True p in \<open>simp add: wait_loop.simps [of pump advance busy now deadline remaining v]\<close>)
  qed (simp add: wait_loop.simps [of pump advance busy now deadline remaining v])
qed

end
