(* ===== verification/Readiness_Wait.thy ===== *)
theory Readiness_Wait
  imports Readiness
begin

text \<open>
  The blocking wait of the Python driver, \<^verbatim>\<open>wait_python_ready\<close> of \<^verbatim>\<open>crates/runtime-core/src/readiness.rs\<close>: a condition
  variable on the World's lock. The predicate is evaluated, and the thread put to sleep, under the lock; a wake-up by
  \<^verbatim>\<open>notify_all\<close>, by the timeout or a spurious one makes the thread evaluate it again. The index changes through
  \<^verbatim>\<open>refresh_python_ready_locked\<close> only, which notifies when \<open>ri_set\<close> reports a new entry.
\<close>

datatype waiter = WaCheck | WaBlocked | WaReturned bool

record wait_room =
  wm_index :: python_ready_index
  wm_waiters :: "waiter list"

text \<open>One evaluation of \<^verbatim>\<open>wait_timeout_while\<close>; \<open>expired\<close>: is no time left?\<close>

definition waiter_check :: "bool \<Rightarrow> python_ready_index \<Rightarrow> waiter" where
  "waiter_check expired r =
     (if \<not> ri_is_empty r then WaReturned True else if expired then WaReturned (\<not> ri_is_empty r) else WaBlocked)"

definition notify_waiter :: "waiter \<Rightarrow> waiter" where
  "notify_waiter a = (if a = WaBlocked then WaCheck else a)"

definition refresh_notify ::
  "nat \<Rightarrow> actor_ref \<Rightarrow> bool \<Rightarrow> bool \<Rightarrow> bool \<Rightarrow> bool \<Rightarrow> wait_room \<Rightarrow> wait_room" where
  "refresh_notify order actor start failure delivery cleanup x =
     (let (r, changed) = ri_set order actor start failure delivery cleanup (wm_index x)
      in x\<lparr>wm_index := r, wm_waiters := (if changed then map notify_waiter (wm_waiters x) else wm_waiters x)\<rparr>)"

inductive wait_step :: "wait_room \<Rightarrow> wait_room \<Rightarrow> bool" where
  wait_call: "wait_step x (x\<lparr>wm_waiters := wm_waiters x @ [WaCheck]\<rparr>)"
| wait_check: "i < length (wm_waiters x) \<Longrightarrow> wm_waiters x ! i = WaCheck \<Longrightarrow>
    wait_step x (x\<lparr>wm_waiters := (wm_waiters x)[i := waiter_check expired (wm_index x)]\<rparr>)"
| wait_woken: "i < length (wm_waiters x) \<Longrightarrow> wm_waiters x ! i = WaBlocked \<Longrightarrow>
    wait_step x (x\<lparr>wm_waiters := (wm_waiters x)[i := WaCheck]\<rparr>)"
| wait_refresh: "wait_step x (refresh_notify order actor start failure delivery cleanup x)"

definition wait_init :: "wait_room \<Rightarrow> bool" where
  "wait_init x \<longleftrightarrow> x = \<lparr>wm_index = ri_new, wm_waiters = []\<rparr>"

definition wait_inv :: "wait_room \<Rightarrow> bool" where
  "wait_inv x \<longleftrightarrow> ri_inv (wm_index x) \<and> (WaBlocked \<in> set (wm_waiters x) \<longrightarrow> ri_is_empty (wm_index x))"

lemma ri_set_reports:
  "ri_is_empty r \<Longrightarrow> \<not> snd (ri_set order actor start failure delivery cleanup r) \<Longrightarrow>
    ri_is_empty (fst (ri_set order actor start failure delivery cleanup r))"
  by (auto simp: ri_is_empty_def ri_set_def set_entry_def bm_remove_def Let_def split: if_split_asm)

lemma notified: "WaBlocked \<notin> set (map notify_waiter ws)"
  by (auto simp: notify_waiter_def split: if_split_asm)

lemma wait_step_inv: "wait_step x y \<Longrightarrow> wait_inv x \<Longrightarrow> wait_inv y"
proof (induction rule: wait_step.induct)
  case (wait_call x)
  then show ?case by (simp add: wait_inv_def)
next
  case (wait_check i x expired)
  have "set ((wm_waiters x)[i := a]) \<subseteq> insert a (set (wm_waiters x))" for a by (rule set_update_subset_insert)
  then show ?case using wait_check by (auto simp: wait_inv_def waiter_check_def split: if_split_asm)
next
  case (wait_woken i x)
  have "set ((wm_waiters x)[i := WaCheck]) \<subseteq> insert WaCheck (set (wm_waiters x))" by (rule set_update_subset_insert)
  then show ?case using wait_woken by (auto simp: wait_inv_def)
next
  case (wait_refresh x order actor start failure delivery cleanup)
  obtain r changed where s: "ri_set order actor start failure delivery cleanup (wm_index x) = (r, changed)" by fastforce
  have "ri_inv r" using wait_refresh ri_set_inv [of "wm_index x" order actor start failure delivery cleanup]
    by (simp add: wait_inv_def s)
  moreover have "ri_is_empty r" if "\<not> changed" "ri_is_empty (wm_index x)"
    using that ri_set_reports [of "wm_index x" order actor start failure delivery cleanup] by (simp add: s)
  ultimately show ?case
    using wait_refresh notified [of "wm_waiters x"] by (auto simp: wait_inv_def refresh_notify_def s)
qed

interpretation ready_wait: invariant_system wait_init wait_step wait_inv
proof unfold_locales
  show "wait_init x \<Longrightarrow> wait_inv x" for x by (simp add: wait_init_def wait_inv_def ri_inv_def ri_new_def)
qed (rule wait_step_inv)

text \<open>No wake-up is lost: while a driver sleeps there is nothing ready. Whatever made an entry ready has already made it
  check again, whatever the other waiters do.\<close>

lemma ready_wait_not_lost:
  "reachable wait_init wait_step x \<Longrightarrow> \<not> ri_is_empty (wm_index x) \<Longrightarrow> WaBlocked \<notin> set (wm_waiters x)"
  using ready_wait.reachable_invar by (auto simp: wait_inv_def)

end
