(* ===== verification/Spec2Isabelle.thy ===== *)
theory Spec2Isabelle
  imports
    Operations_Correct
    Diagnostics
    Schema_Correct
    Buffers
    Publications_Correct
    World_Leases
    World_Outcomes
    World_Sends
    World_Execution
    Schema_Types
    Framing
    Native_Listener
    Native_Jobs
    Native_Pipeline_Correct
    Native_Executor
    Native_Controls
    Native_Virtual
    Readiness_Wait
begin

text \<open>
  A verification of the native event runtime: \<^verbatim>\<open>crates/runtime-core\<close>, a World of actors that exchange
  bounded, deadline-carrying events under one lock, with operations (requests with one outcome),
  publications over subscriptions, typed components and services, supervision, and staged shutdown;
  and \<^verbatim>\<open>crates/runtime-native\<close>, which runs native components, jobs, timers and TCP connections on it.

  \<^bold>\<open>How the program is put together.\<close> A \<^verbatim>\<open>World\<close> owns one \<^verbatim>\<open>Mutex<State>\<close>; every public method takes the
  lock, computes on the state, releases the lock and wakes observers. The model is the state as a
  record and one function per method, \<open>state \<Rightarrow> (state \<times> result) option\<close>. The tables inside the state
  (operations, routes, publications, readiness, deadlines, diagnostics, services, schemas, activity)
  are components with their own theories, which the World theories call as the code does.

  \<^bold>\<open>Shared theories.\<close>
  \<^item> \<open>Prelude\<close>: error enum, handles, \<^verbatim>\<open>checked_add\<close> and \<^verbatim>\<open>saturating_add\<close> at the width of the source's
    integers, results as sums, the reachability and invariant locales.
  \<^item> \<open>Containers\<close>: \<^verbatim>\<open>BTreeMap\<close>, \<^verbatim>\<open>BTreeSet\<close>, counted maps and index maps as the source uses them, with
    the locale of a mirrored index. \<open>Utf8\<close>: the validity and truncation of \<^verbatim>\<open>str\<close>. \<open>Clock\<close>: \<^verbatim>\<open>clock.rs\<close>.

  \<^bold>\<open>Component theories, by source file.\<close>
  \<^item> \<open>Operations\<close>, \<open>Operations_Correct\<close> (\<^verbatim>\<open>operations.rs\<close>): the generation-checked table. Counters and
    indexes equal scans, one final outcome, retired identifiers stay stale, expiry equals the full
    scan, round trip, exact settlement of a stopped target.
  \<^item> \<open>Diagnostics\<close> (\<^verbatim>\<open>diagnostics.rs\<close>): the ring refines a log; reads are contiguous or report a gap.
  \<^item> \<open>Failures\<close> (\<^verbatim>\<open>failures.rs\<close>): bounded records that flag every loss.
  \<^item> \<open>Envelope\<close> (\<^verbatim>\<open>envelope.rs\<close>, payloads of \<^verbatim>\<open>lib.rs\<close>): options, envelopes, charged sizes.
  \<^item> \<open>Expiry\<close> (\<^verbatim>\<open>expiry.rs\<close>): per-actor deadline bags and the index that yields exactly what is due.
  \<^item> \<open>Routing\<close> (\<^verbatim>\<open>routing.rs\<close>): four indexes equal to scans of the routes.
  \<^item> \<open>Readiness\<close> (\<^verbatim>\<open>readiness.rs\<close>): phases as ordered maps; a cursor walk visits everything once. \<open>Readiness_Wait\<close>: the
    blocking \<^verbatim>\<open>wait_python_ready\<close> over its condition variable; no sleeper while something is ready.
  \<^item> \<open>Activity\<close> (\<^verbatim>\<open>activity.rs\<close>): versions and wakers; no wake-up is lost.
  \<^item> \<open>Buffers\<close> (\<^verbatim>\<open>buffers.rs\<close>): interleaved atomic reservations never exceed the limit.
  \<^item> \<open>Publications\<close>, \<open>Publications_Correct\<close> (\<^verbatim>\<open>publications.rs\<close>): the publication table.
  \<^item> \<open>Schema\<close>, \<open>Schema_Correct\<close> (\<^verbatim>\<open>schema.rs\<close>, \<^verbatim>\<open>schema/encode.rs\<close>): codec round trips both ways, validation
    without allocation agrees with decoding, registry identities, atomic batches.
  \<^item> \<open>Components\<close> (\<^verbatim>\<open>components.rs\<close>), \<open>Services\<close> (\<^verbatim>\<open>services.rs\<close>): descriptors, interfaces, the registry.

  \<^bold>\<open>The World.\<close>
  \<^item> \<open>World_State\<close>: configuration, metrics, actors, \<^verbatim>\<open>check_ref\<close>, execution state, activity marks,
    readiness refresh, operation settlement, memory accounting.
  \<^item> \<open>World_Messaging\<close>: admission, \<^verbatim>\<open>send_with\<close>, requests, completion, cancellation, taking.
  \<^item> \<open>World_Lifecycle\<close>: allocation, activation, quiescing, drain, fence, finalisation, stop, reports.
  \<^item> \<open>World_Routing\<close>: subscriptions, publication, batched routing, expiry, claims and leases.
  \<^item> \<open>World_Components\<close>: component registration, links, typed ports, service calls.
  \<^item> \<open>World_Supervision\<close>: failure reports, notifications, control claims, close, snapshots.
  \<^item> \<open>World_Steps\<close>, \<open>World_Moves\<close>: every method is a sequence of guarded primitive steps. The locales
    \<open>step_closed\<close>, \<open>world_closed\<close>, \<open>control_closed\<close> and \<open>hold_closed\<close> hold one lemma per method: what the
    primitives keep, the method keeps.
  \<^item> \<open>World_Inv\<close>: the invariant of a World and its preservation by every primitive step.
  \<^item> \<open>World_System\<close>: the methods as a transition system; the closure locales are interpreted on it.
  \<^item> \<open>World_Demo\<close>: a computed run for the witnesses.
  \<^item> \<open>World_Correct\<close>: handles denote one actor, stale handles stay stale, mailboxes are bounded, slot
    accounting is exact. \<open>World_Sends\<close>: a send is all or nothing. \<open>World_Execution\<close>: the execution
    state is that of the ownership chain; a stopped subtree is silent. \<open>World_Leases\<close>: a lease keeps
    its actor. \<open>World_Outcomes\<close>: operations have one outcome through every World method.

  \<^bold>\<open>The native runtime\<close> (files of \<^verbatim>\<open>crates/runtime-native/src\<close>).
  \<^item> \<open>Native_Config\<close> (\<^verbatim>\<open>sdk_config.rs\<close>): specifications, limits, validation of a configuration value.
  \<^item> \<open>Schema_Types\<close>: what a schema encodes or decodes is well typed.
  \<^item> \<open>Framing\<close> (\<^verbatim>\<open>io/framing.rs\<close>): length-prefixed frames over any cut of the stream into reads; round trip,
    budget of every failing read.
  \<^item> \<open>Cpu\<close> (\<^verbatim>\<open>cpu.rs\<close>): the blocking pool at the granularity of its atomic accesses; counters equal phases.
  \<^item> \<open>Native_Context\<close>, \<open>Native_Effects\<close> (contexts of \<^verbatim>\<open>sdk.rs\<close>, \<^verbatim>\<open>tasks.rs\<close>): what a hook may do; its effects are
    bounded, its permits conserved, and the World moves only along its own methods.
  \<^item> \<open>Native_Loop\<close>, \<open>Native_Protocol\<close> (\<^verbatim>\<open>run_component\<close>): the task of a component as a machine whose steps are
    single World calls; hooks follow their contract, a turn is bounded. The locale \<open>native_behavior\<close>
    is what a component owes.
  \<^item> \<open>Native_Prepare\<close> (\<^verbatim>\<open>prepare_native\<close>): construction with every error path.
  \<^item> \<open>Native_Builtins\<close> (\<^verbatim>\<open>components.rs\<close>, \<^verbatim>\<open>computation.rs\<close>): the components of the runtime, which interpret
    \<open>native_behavior\<close>; the window counter conserves its pulses.
  \<^item> \<open>Native_Jobs\<close> (\<^verbatim>\<open>run_job\<close>, \<^verbatim>\<open>run_cpu_job\<close>, timers of \<^verbatim>\<open>tasks.rs\<close>): deferred replies settle once and
    return what they took; a timer fires once. \<open>timer_activation_race\<close> exhibits the run in which a
    timer is lost because its owner activates between the two reads of the start-up gate.
  \<^item> \<open>Native_Pipeline\<close>, \<open>Native_Pipeline_Correct\<close> (\<^verbatim>\<open>start_counter\<close> of \<^verbatim>\<open>lib.rs\<close>): source, counter and sink as three tasks;
    counted pulses are the published snapshots and the open window, in every interleaving.
  \<^item> \<open>Native_Executor\<close> (\<^verbatim>\<open>NativeRuntime\<close> of \<^verbatim>\<open>lib.rs\<close>): construction, permits, routing service, the staged \<^verbatim>\<open>close\<close> and
    the wait for idleness; a report without \<^verbatim>\<open>timed_out\<close> means that nothing runs and nothing will.
  \<^item> \<open>Native_Controls\<close> (\<^verbatim>\<open>controls.rs\<close>): the registry of externally completed requests; one sender, one send.
  \<^item> \<open>Native_Virtual\<close> (\<^verbatim>\<open>testing.rs\<close>): the explicitly driven runtime; what an idle report has seen, and that the wait
    for idleness ends: each round takes at least one poll off its budget of 100000.
  \<^item> \<open>Native_Frames\<close> (\<^verbatim>\<open>io/mod.rs\<close>), \<open>Native_Tcp\<close>, \<open>Native_Listener\<close> (\<^verbatim>\<open>io/transport.rs\<close>): frames as events, one
    connection as a machine, and accept loop and connections interleaved; slots, registry, budgets
    and counters agree in every state.

  \<^bold>\<open>Conventions.\<close>
  \<^item> A method returns \<open>None\<close> where the source panics (\<^verbatim>\<open>expect\<close>, \<^verbatim>\<open>unwrap\<close>, an index out of range) and
    where a loop over parent links runs out of fuel; \<open>Inl e\<close> is \<^verbatim>\<open>Err(e)\<close>. \<open>try_in s r k\<close> is the \<^verbatim>\<open>?\<close>
    operator in state \<open>s\<close>.
  \<^item> Fuel of the parent and subtree walks is the readiness order or the number of slots. A parent is
    older than its child, so in a reachable World the walk of the execution state ends within its fuel;
    property \<open>execution_state_exact\<close> proves it.
  \<^item> The clock is a sequence of readings, an argument of the model, with no assumption on it; each
    reading advances a counter. The waker comparison \<^verbatim>\<open>will_wake\<close> is an argument as well.
  \<^item> Retained memory is a sum over the payload handles that exist: in queues, operations,
    publications, and handed out (\<open>st_external\<close>); \<^verbatim>\<open>Stored::drop\<close> is the disappearance of the last one.
  \<^item> Wakers that a method wakes are appended to \<open>st_woken\<close>.
  \<^item> Counters of metrics are natural numbers: they are \<^verbatim>\<open>u64\<close> incremented once per method.
  \<^item> Interference: the machines of tasks, jobs, timers, connections and pipelines take one World call or one
    access to a shared cell per step, and the rest of the program may move the World between any two of
    them (the rules named \<open>env\<close>). The World calls within one hook, or within one setup method, are read
    without interference.
  \<^item> The async scheduler, sockets, the operating system's clock and the closures of an application
    are inputs: which future is ready, what a read returns, what a closure answers.

  \<^bold>\<open>Not modelled.\<close> The scheduler and join handles of the async runtime, the builder of its threads, and the wrapper that turns a
  panic of a spawned future into a failure report (a panic of a hook or of a job's closure is modelled). The Python
  bindings \<^verbatim>\<open>crates/runtime-python\<close>, whose content is the conversion between Python objects and the
  operations modelled here. Tests, test support, examples, fuzz targets and benchmarks.

\<close>

end
